(* ===== verification/Prelude.thy ===== *)
theory Prelude
  imports Main "HOL-Library.Word"
begin

text \<open>
  What every component theory shares: the machine types of the program
  (\<open>uint8_t\<close> as \<open>byte\<close>, \<open>char32_t\<close> as \<open>char32\<close>, \<open>std::string\<close> as a list of bytes),
  the pieces of the C++ standard library the sources call (\<open>std::clamp\<close>,
  \<open>std::to_string\<close>, \<open>std::find_if\<close>, \<open>std::string::find\<close>), the facts that turn
  bit masks and shifts on words into arithmetic, and facts on lists read and
  written by index.  The collection \<open>mask_simps\<close> carries the word facts,
  \<open>inv_intros\<close> the invariant-preservation lemmas of the state machines.

  Coordinates, sizes and counts of type \<open>int\<close> are HOL integers: the values that
  reach them come from \<open>uint16_t\<close> fields of the wire or from parameters capped at
  65535, so no operation of the sources leaves the range of a 32-bit \<open>int\<close>.
  Sizes of type \<open>size_t\<close> that the code only adds, subtracts under a guard and
  compares are naturals.
\<close>

unbundle bit_operations_syntax

type_synonym byte = "8 word"
type_synonym char32 = "32 word"
type_synonym bytes = "byte list"

named_theorems mask_simps \<open>bit masks and shifts as arithmetic on naturals\<close>
named_theorems inv_intros \<open>every operation keeps its component's invariant\<close>

section \<open>Standard library\<close>

text \<open>A C++ string literal with ASCII content, as the bytes it stands for.\<close>

definition str :: "string \<Rightarrow> bytes" where
  "str s = map of_char s"

text \<open>\<open>std::clamp(v, lo, hi)\<close>.\<close>

definition clampi :: "int \<Rightarrow> int \<Rightarrow> int \<Rightarrow> int" where
  "clampi v lo hi = (if v < lo then lo else if hi < v then hi else v)"

text \<open>The operators \<open>/\<close> and \<open>%\<close> on \<open>int\<close>: the quotient is truncated toward zero and the
  remainder takes the sign of the dividend.\<close>

definition cdiv :: "int \<Rightarrow> int \<Rightarrow> int" where
  "cdiv a b = sgn a * sgn b * (\<bar>a\<bar> div \<bar>b\<bar>)"

definition crem :: "int \<Rightarrow> int \<Rightarrow> int" where
  "crem a b = sgn a * (\<bar>a\<bar> mod \<bar>b\<bar>)"

text \<open>\<open>std::to_string\<close> on \<open>int\<close>.\<close>

fun nat_digits :: "nat \<Rightarrow> bytes" where
  "nat_digits n =
     (if n < 10 then [word_of_nat (48 + n)]
      else nat_digits (n div 10) @ [word_of_nat (48 + n mod 10)])"

declare nat_digits.simps [simp del]

definition to_string :: "int \<Rightarrow> bytes" where
  "to_string i = (if i < 0 then 45 # nat_digits (nat (- i)) else nat_digits (nat i))"

text \<open>\<open>std::string::find(needle, from)\<close>: the first position at or after \<open>from\<close> where
  the needle occurs, \<open>None\<close> for \<open>npos\<close>.  \<open>find_sub\<close> scans a suffix, its first
  argument is the position of that suffix.\<close>

fun find_sub :: "nat \<Rightarrow> 'a list \<Rightarrow> 'a list \<Rightarrow> nat option" where
  "find_sub i needle [] = (if needle = [] then Some i else None)"
| "find_sub i needle (x # xs) =
     (if take (length needle) (x # xs) = needle then Some i
      else find_sub (Suc i) needle xs)"

definition find_from :: "'a list \<Rightarrow> 'a list \<Rightarrow> nat \<Rightarrow> nat option" where
  "find_from s needle from = (if from > length s then None else find_sub from needle (drop from s))"

text \<open>\<open>std::find_if\<close>: the index of the first element that satisfies the predicate, \<open>None\<close>
  for \<open>end()\<close>.\<close>

fun find_if :: "('a \<Rightarrow> bool) \<Rightarrow> 'a list \<Rightarrow> nat option" where
  "find_if P [] = None"
| "find_if P (x # xs) = (if P x then Some 0 else map_option Suc (find_if P xs))"

text \<open>\<open>std::rotate(first, mid, last)\<close> on a whole list, \<open>mid\<close> counted from \<open>first\<close>.\<close>

definition rotate_at :: "nat \<Rightarrow> 'a list \<Rightarrow> 'a list" where
  "rotate_at k xs = drop k xs @ take k xs"

section \<open>Lists\<close>

lemma find_if_Some: "find_if P xs = Some i \<Longrightarrow> i < length xs \<and> P (xs ! i) \<and> (\<forall>j < i. \<not> P (xs ! j))"
  by (induction xs arbitrary: i) (auto simp: less_Suc_eq_0_disj split: if_splits)

lemma find_if_None: "find_if P xs = None \<longleftrightarrow> (\<forall>x \<in> set xs. \<not> P x)"
  by (induction xs) auto

lemma mset_rotate_at [simp]: "set (rotate_at k xs) = set xs" "length (rotate_at k xs) = length xs"
  "distinct (rotate_at k xs) = distinct xs"
proof -
  show "set (rotate_at k xs) = set xs"
    unfolding rotate_at_def by (metis append_take_drop_id set_append Un_commute)
  show "length (rotate_at k xs) = length xs" by (simp add: rotate_at_def)
  show "distinct (rotate_at k xs) = distinct xs"
    unfolding rotate_at_def by (metis append_take_drop_id distinct_append Int_commute)
qed

section \<open>Integers\<close>

lemma cdiv_nonneg [simp]: "0 \<le> a \<Longrightarrow> 0 < b \<Longrightarrow> cdiv a b = a div b"
  by (cases "a = 0") (simp_all add: cdiv_def)

lemma crem_nonneg [simp]: "0 \<le> a \<Longrightarrow> 0 < b \<Longrightarrow> crem a b = a mod b"
  by (cases "a = 0") (simp_all add: crem_def)

lemma crem_wrap: "0 < n \<Longrightarrow> crem (crem a n + n) n = a mod n"
proof (cases "0 \<le> a")
  case False
  assume n: "0 < n"
  have "(- a) mod n < n" "\<bar>n\<bar> = n" using n by simp_all
  then have "0 \<le> crem a n + n" using False by (simp add: crem_def)
  then have "crem (crem a n + n) n = (- ((- a) mod n) + n) mod n"
    using n False by (simp add: crem_def)
  also have "\<dots> = a mod n" by (simp add: mod_minus_eq)
  finally show ?thesis .
qed simp

lemma clampi_bounds: "lo \<le> hi \<Longrightarrow> lo \<le> clampi v lo hi \<and> clampi v lo hi \<le> hi"
  by (simp add: clampi_def)

section \<open>Words\<close>

lemma unat_and_mask [mask_simps]: "unat (b AND mask n) = unat b mod 2 ^ n"
proof -
  have "unat (b AND mask n) = unat (take_bit n b)" by (simp only: take_bit_eq_mask)
  also have "\<dots> = take_bit n (unat b)" by (rule unsigned_take_bit_eq)
  finally show ?thesis by (simp only: take_bit_eq_mod)
qed

lemma and_not_mask: "(b :: 'a::len word) AND NOT (mask n) = push_bit n (drop_bit n b)"
  by (rule bit_eqI) (auto simp: bit_simps)

lemma unat_byte_lt [simp]: "unat (b :: byte) < 256"
  using unsigned_less[of b, where ?'a = nat] by simp

lemma unat_char32_lt [simp]: "unat (c :: char32) < 4294967296"
  using unsigned_less[of c, where ?'a = nat] by simp

lemma mask_literals:
  "(0x07 :: 'a::len word) = mask 3" "(0x0F :: 'a::len word) = mask 4"
  "(0x1F :: 'a::len word) = mask 5" "(0x3F :: 'a::len word) = mask 6"
  "(0xFF :: 'a::len word) = mask 8"
  by (simp_all add: mask_eq_exp_minus_1)

lemma unat_and_literals [mask_simps]:
  fixes b :: "'a::len word"
  shows "unat (b AND 0x07) = unat b mod 8" "unat (b AND 0x0F) = unat b mod 16"
    "unat (b AND 0x1F) = unat b mod 32" "unat (b AND 0x3F) = unat b mod 64"
    "unat (b AND 0xFF) = unat b mod 256"
  by (simp_all only: mask_literals unat_and_mask) simp_all

lemma unat_drop_bit [mask_simps]: "unat (drop_bit n b) = unat b div 2 ^ n"
  by (simp only: unat_drop_bit_eq drop_bit_eq_div[of n "unat b"])

lemma unat_and_high:
  fixes b :: byte
  shows "unat (b AND NOT (mask n)) = 2 ^ n * (unat b div 2 ^ n)"
proof -
  have "unat (push_bit n (drop_bit n b)) = take_bit 8 (push_bit n (unat (drop_bit n b)))"
    using unsigned_push_bit_eq[of n "drop_bit n b"] by simp
  also have "\<dots> = (2 ^ n * (unat b div 2 ^ n)) mod 256"
    by (simp only: unat_drop_bit push_bit_eq_mult take_bit_eq_mod) (simp add: mult.commute)
  also have "\<dots> = 2 ^ n * (unat b div 2 ^ n)"
  proof (rule mod_less)
    have "2 ^ n * (unat b div 2 ^ n) \<le> unat b" by (rule times_div_less_eq_dividend)
    then show "2 ^ n * (unat b div 2 ^ n) < 256" using unat_byte_lt[of b] by linarith
  qed
  finally show ?thesis by (simp only: and_not_mask)
qed

lemma high_masks:
  "(0x80 :: byte) = NOT (mask 7)" "(0xC0 :: byte) = NOT (mask 6)"
  "(0xE0 :: byte) = NOT (mask 5)" "(0xF0 :: byte) = NOT (mask 4)"
  "(0xF8 :: byte) = NOT (mask 3)"
  by (simp_all add: mask_eq_exp_minus_1)

lemma high_mask_iff [mask_simps]:
  fixes b :: byte
  shows "b AND 0xC0 = 0x80 \<longleftrightarrow> unat b div 64 = 2"
    "b AND 0xE0 = 0xC0 \<longleftrightarrow> unat b div 32 = 6"
    "b AND 0xF0 = 0xE0 \<longleftrightarrow> unat b div 16 = 14"
    "b AND 0xF8 = 0xF0 \<longleftrightarrow> unat b div 8 = 30"
proof -
  have r: "b AND NOT (mask n) = c \<longleftrightarrow> 2 ^ n * (unat b div 2 ^ n) = unat c" for n c
    using unat_and_high[of b n] by (metis word_unat_eq_iff)
  show "b AND 0xC0 = 0x80 \<longleftrightarrow> unat b div 64 = 2"
    using r[of 6 "0x80"] by (simp add: high_masks(2)[symmetric])
  show "b AND 0xE0 = 0xC0 \<longleftrightarrow> unat b div 32 = 6"
    using r[of 5 "0xC0"] by (simp add: high_masks(3)[symmetric])
  show "b AND 0xF0 = 0xE0 \<longleftrightarrow> unat b div 16 = 14"
    using r[of 4 "0xE0"] by (simp add: high_masks(4)[symmetric])
  show "b AND 0xF8 = 0xF0 \<longleftrightarrow> unat b div 8 = 30"
    using r[of 3 "0xF0"] by (simp add: high_masks(5)[symmetric])
qed

text \<open>A disjunction of disjoint bit fields is a sum.\<close>

lemma or_fields_nat: "(b :: nat) < 2 ^ n \<Longrightarrow> push_bit n a OR b = a * 2 ^ n + b"
proof -
  assume "b < 2 ^ n"
  then have b: "take_bit n b = b" by (simp add: take_bit_eq_mod)
  have "push_bit n a AND b = 0"
    by (rule bit_eqI, subst b[symmetric]) (auto simp: bit_simps)
  then have "push_bit n a + b = push_bit n a OR b" by (rule disjunctive_add_eq_or)
  then show ?thesis by (simp add: push_bit_eq_mult)
qed

lemma unat_ucast_up [mask_simps]: "unat (ucast (b :: byte) :: char32) = unat b"
proof -
  have "unat b < 2 ^ 32" by (rule less_trans[OF unat_byte_lt]) simp
  then show ?thesis by (simp only: unsigned_ucast_eq take_bit_eq_mod) simp
qed

lemma unat_shift_or [mask_simps]:
  fixes a :: char32 and b :: byte
  assumes "unat a < 2 ^ 26"
  shows "unat (push_bit 6 a OR ucast (b AND 0x3F)) = unat a * 64 + unat b mod 64"
proof -
  have "unat (push_bit 6 a) = push_bit 6 (unat a)"
  proof -
    have "unat (push_bit 6 a) = take_bit 32 (push_bit 6 (unat a))"
      using unsigned_push_bit_eq[of 6 a] by simp
    also have "\<dots> = push_bit 6 (unat a)"
      using assms by (simp only: take_bit_eq_mod push_bit_eq_mult) simp
    finally show ?thesis .
  qed
  then have "unat (push_bit 6 a OR ucast (b AND 0x3F)) = push_bit 6 (unat a) OR (unat b mod 64)"
    by (simp only: unsigned_or_eq unat_ucast_up unat_and_literals)
  also have "\<dots> = unat a * 2 ^ 6 + unat b mod 64" by (rule or_fields_nat) simp
  finally show ?thesis by simp
qed

text \<open>The bytes an encoder writes: a marker in the high bits, a field below it.\<close>

lemma or_marker_nat:
  fixes x :: nat
  shows "x < 32 \<Longrightarrow> 192 OR x = 192 + x" "x < 16 \<Longrightarrow> 224 OR x = 224 + x"
    "x < 8 \<Longrightarrow> 240 OR x = 240 + x" "x < 64 \<Longrightarrow> 128 OR x = 128 + x"
  using or_fields_nat[of x 5 6] or_fields_nat[of x 4 14] or_fields_nat[of x 3 30]
    or_fields_nat[of x 6 2]
  by (simp_all add: push_bit_eq_mult)

lemma unat_marker_byte [mask_simps]:
  fixes c :: char32
  shows "unat c < 32 \<Longrightarrow> unat (ucast (0xC0 OR c) :: byte) = 192 + unat c"
    "unat c < 16 \<Longrightarrow> unat (ucast (0xE0 OR c) :: byte) = 224 + unat c"
    "unat c < 8 \<Longrightarrow> unat (ucast (0xF0 OR c) :: byte) = 240 + unat c"
    "unat c < 64 \<Longrightarrow> unat (ucast (0x80 OR c) :: byte) = 128 + unat c"
  by (simp_all add: unsigned_ucast_eq unsigned_or_eq or_marker_nat take_bit_eq_mod)

lemma unat_ucast_small [mask_simps]:
  "unat (c :: char32) < 256 \<Longrightarrow> unat (ucast c :: byte) = unat c"
  by (simp add: unsigned_ucast_eq take_bit_eq_mod)

lemma word_eq_unatI: "unat a = unat b \<Longrightarrow> a = b"
  by (simp add: word_unat_eq_iff)

lemmas unat_orders = word_less_nat_alt word_le_nat_alt

text \<open>\<open>occurs needle s j\<close>: what a search for a substring looks for.\<close>

definition occurs :: "bytes \<Rightarrow> bytes \<Rightarrow> nat \<Rightarrow> bool" where
  "occurs needle s j \<longleftrightarrow> take (length needle) (drop j s) = needle"

lemma find_sub_Some:
  "find_sub i needle xs = Some j \<Longrightarrow> i \<le> j \<and> occurs needle xs (j - i)"
proof (induction i needle xs rule: find_sub.induct)
  case (2 i needle x xs)
  show ?case
  proof (cases "take (length needle) (x # xs) = needle")
    case False
    then have h: "Suc i \<le> j" "occurs needle xs (j - Suc i)" using 2 by auto
    then have "j - i = Suc (j - Suc i)" by simp
    then show ?thesis using h by (simp add: occurs_def)
  qed (use 2 in \<open>auto simp: occurs_def\<close>)
qed (auto simp: occurs_def split: if_splits)

lemma find_sub_None:
  "find_sub i needle xs = None \<Longrightarrow> needle \<noteq> [] \<Longrightarrow> \<not> occurs needle xs j"
proof (induction i needle xs arbitrary: j rule: find_sub.induct)
  case (2 i needle x xs)
  then show ?case by (cases j) (auto simp: occurs_def split: if_splits)
qed (auto simp: occurs_def split: if_splits)

lemma occurs_length: "occurs needle s j \<Longrightarrow> needle \<noteq> [] \<Longrightarrow> j + length needle \<le> length s"
proof -
  assume o: "occurs needle s j" "needle \<noteq> []"
  then have "length (take (length needle) (drop j s)) = length needle" by (simp only: occurs_def)
  then have "min (length s - j) (length needle) = length needle" by simp
  moreover have "0 < length needle" using o(2) by simp
  ultimately show ?thesis by linarith
qed

lemma find_from_Some:
  "find_from s needle k = Some j \<Longrightarrow> k \<le> j \<and> occurs needle s j"
  using find_sub_Some[of k needle "drop k s" j] by (auto simp: find_from_def occurs_def split: if_splits)

lemma find_from_None:
  assumes "find_from s needle k = None" "needle \<noteq> []" "k \<le> j"
  shows "\<not> occurs needle s j"
proof (cases "k > length s")
  case True
  then show ?thesis using assms by (simp add: occurs_def)
next
  case False
  then have "find_sub k needle (drop k s) = None" using assms(1) by (simp add: find_from_def)
  from find_sub_None[OF this assms(2), of "j - k"] show ?thesis using assms(3) by (simp add: occurs_def)
qed

end
