(* ===== verification/Proto.thy ===== *)
theory Proto
  imports Prelude
begin

text \<open>
  \<open>src/common/proto.cpp\<close> and \<open>proto.hpp\<close>: the messages client and daemon exchange,
  their encoder, and the incremental decoder, the one place that parses bytes a
  peer may have forged.  The decoder is the record \<open>decoder\<close> (buffer, consumed
  prefix, failure flag, and the capacity the standard string keeps), its
  operations are \<open>feed\<close>, \<open>next\<close>, \<open>compact\<close> and \<open>fail\<close>, each prefixed by \<open>decoder_\<close>.  The locale \<open>framing\<close> states
  what an incremental framing of a byte stream promises and what follows for a
  reader that is fed in pieces; it is interpreted on the frames of this protocol.
\<close>

section \<open>Messages\<close>

definition kBuildId :: "32 word" where
  "kBuildId = 1"

record hello =
  h_build_id :: "32 word"
  h_cols :: "16 word"
  h_rows :: "16 word"
  h_term_name :: bytes
  h_colorterm :: bytes
  h_utf8 :: bool
  h_env :: "(bytes \<times> bytes) list"

datatype msg =
    Hello hello
  | Welcome
  | Incompatible bytes
  | Detached bytes
  | Input bytes
  | Resize "16 word" "16 word"
  | FrameMsg bytes

definition kMaxMessageBytes :: nat where
  "kMaxMessageBytes = 32 * 1024 * 1024"

definition kHeaderSize :: nat where
  "kHeaderSize = 5"

definition kMaxBufferBytes :: nat where
  "kMaxBufferBytes = kMaxMessageBytes + kHeaderSize + 1 * 1024 * 1024"

section \<open>Encoding\<close>

definition put_u8 :: "byte \<Rightarrow> bytes" where
  "put_u8 v = [v]"

definition put_u16 :: "16 word \<Rightarrow> bytes" where
  "put_u16 v = put_u8 (ucast (drop_bit 8 v)) @ put_u8 (ucast (v AND 0xFF))"

definition put_u32 :: "32 word \<Rightarrow> bytes" where
  "put_u32 v = put_u16 (ucast (drop_bit 16 v)) @ put_u16 (ucast (v AND 0xFFFF))"

definition put_str :: "bytes \<Rightarrow> bytes" where
  "put_str s = put_u32 (word_of_nat (length s)) @ s"

definition put_env :: "(bytes \<times> bytes) list \<Rightarrow> bytes" where
  "put_env e = concat (map (\<lambda>(k, v). put_str k @ put_str v) e)"

fun body_of :: "msg \<Rightarrow> byte \<times> bytes" where
  "body_of (Hello h) =
     (1, put_u32 (h_build_id h) @ put_u16 (h_cols h) @ put_u16 (h_rows h)
         @ put_str (h_term_name h) @ put_str (h_colorterm h)
         @ put_u8 (if h_utf8 h then 1 else 0)
         @ put_u32 (word_of_nat (length (h_env h))) @ put_env (h_env h))"
| "body_of Welcome = (2, [])"
| "body_of (Incompatible reason) = (3, put_str reason)"
| "body_of (Detached reason) = (4, put_str reason)"
| "body_of (Input bs) = (5, put_str bs)"
| "body_of (Resize c r) = (6, put_u16 c @ put_u16 r)"
| "body_of (FrameMsg ansi) = (7, put_str ansi)"

definition encode :: "msg \<Rightarrow> bytes" where
  "encode m =
     (let (tag, body) = body_of m
      in put_u8 tag @ put_u32 (word_of_nat (length body)) @ body)"

section \<open>Reading fields\<close>

text \<open>\<open>struct Reader\<close>: the bytes, the read position, and the flag that turns false for
  good when a field runs past the end.\<close>

record reader =
  rs :: bytes
  ri :: nat
  rok :: bool

definition r_u8 :: "reader \<Rightarrow> byte \<times> reader" where
  "r_u8 r =
     (if ri r + 1 > length (rs r) then (0, r\<lparr>rok := False\<rparr>)
      else (rs r ! ri r, r\<lparr>ri := ri r + 1\<rparr>))"

definition r_u16 :: "reader \<Rightarrow> 16 word \<times> reader" where
  "r_u16 r =
     (let (hi, r1) = r_u8 r; (lo, r2) = r_u8 r1
      in (push_bit 8 (ucast hi) OR ucast lo, r2))"

definition r_u32 :: "reader \<Rightarrow> 32 word \<times> reader" where
  "r_u32 r =
     (let (hi, r1) = r_u16 r; (lo, r2) = r_u16 r1
      in (push_bit 16 (ucast hi) OR ucast lo, r2))"

definition r_str :: "reader \<Rightarrow> bytes \<times> reader" where
  "r_str r =
     (let (n, r1) = r_u32 r
      in if \<not> rok r1 \<or> ri r1 + unat n > length (rs r1) then ([], r1\<lparr>rok := False\<rparr>)
         else (take (unat n) (drop (ri r1) (rs r1)), r1\<lparr>ri := ri r1 + unat n\<rparr>))"

text \<open>The loop \<open>for (k = 0; k < n && r.ok; ++k)\<close> over the environment; the first argument
  counts the iterations left.\<close>

fun r_env :: "nat \<Rightarrow> reader \<Rightarrow> (bytes \<times> bytes) list \<Rightarrow> (bytes \<times> bytes) list \<times> reader" where
  "r_env 0 r acc = (acc, r)"
| "r_env (Suc k) r acc =
     (if \<not> rok r then (acc, r)
      else let (key, r1) = r_str r; (v, r2) = r_str r1 in r_env k r2 (acc @ [(key, v)]))"

text \<open>The \<open>switch (tag)\<close> of \<open>Decoder::next\<close>; \<open>None\<close> is the \<open>default\<close> branch, a tag this
  build does not know.\<close>

definition decode_body :: "byte \<Rightarrow> reader \<Rightarrow> (msg \<times> reader) option" where
  "decode_body tag r =
     (if tag = 1 then
        Some (let (bid, r1) = r_u32 r; (c, r2) = r_u16 r1; (ro, r3) = r_u16 r2;
                  (te, r4) = r_str r3; (ct, r5) = r_str r4; (u, r6) = r_u8 r5;
                  (n, r7) = r_u32 r6; (e, r8) = r_env (unat n) r7 []
              in (Hello \<lparr>h_build_id = bid, h_cols = c, h_rows = ro, h_term_name = te, h_colorterm = ct,
                         h_utf8 = (u \<noteq> 0), h_env = e\<rparr>, r8))
      else if tag = 2 then Some (Welcome, r)
      else if tag = 3 then Some (let (s, r1) = r_str r in (Incompatible s, r1))
      else if tag = 4 then Some (let (s, r1) = r_str r in (Detached s, r1))
      else if tag = 5 then Some (let (s, r1) = r_str r in (Input s, r1))
      else if tag = 6 then
        Some (let (c, r1) = r_u16 r; (ro, r2) = r_u16 r1 in (Resize c ro, r2))
      else if tag = 7 then Some (let (s, r1) = r_str r in (FrameMsg s, r1))
      else None)"

section \<open>The decoder\<close>

record decoder =
  d_buf :: bytes
  d_pos :: nat
  d_capacity :: nat
  d_failed :: bool

text \<open>What the standard string adds: a fresh string holds \<open>kFreshCapacity\<close> bytes without
  allocating, appending grows the allocation geometrically, erasing keeps it.\<close>

definition kFreshCapacity :: nat where
  "kFreshCapacity = 15"

definition grown :: "nat \<Rightarrow> nat \<Rightarrow> nat" where
  "grown c n = (if n \<le> c then c else max n (2 * c))"

definition decoder_init :: decoder where
  "decoder_init = \<lparr>d_buf = [], d_pos = 0, d_capacity = kFreshCapacity, d_failed = False\<rparr>"

definition decoder_fail :: "decoder \<Rightarrow> decoder" where
  "decoder_fail d = d\<lparr>d_failed := True, d_pos := 0, d_buf := [], d_capacity := kFreshCapacity\<rparr>"

definition kReleaseCapacityThreshold :: nat where
  "kReleaseCapacityThreshold = kMaxBufferBytes"

definition kCompactMinSize :: nat where
  "kCompactMinSize = 4096"

definition decoder_compact :: "decoder \<Rightarrow> decoder" where
  "decoder_compact d =
     (if d_pos d = 0 then d
      else if d_pos d = length (d_buf d) \<and> d_capacity d \<ge> kReleaseCapacityThreshold
      then d\<lparr>d_buf := [], d_capacity := kFreshCapacity, d_pos := 0\<rparr>
      else if length (d_buf d) < kCompactMinSize \<or> d_pos d * 2 < length (d_buf d) then d
      else d\<lparr>d_buf := drop (d_pos d) (d_buf d), d_pos := 0\<rparr>)"

definition decoder_feed :: "decoder \<Rightarrow> bytes \<Rightarrow> decoder" where
  "decoder_feed d bs =
     (if d_failed d then d
      else if bs = [] then d
      else if length (d_buf d) - d_pos d + length bs > kMaxBufferBytes then decoder_fail d
      else d\<lparr>d_buf := d_buf d @ bs, d_capacity := grown (d_capacity d) (length (d_buf d @ bs))\<rparr>)"

text \<open>One iteration of the loop of \<open>Decoder::next\<close>: \<open>Return\<close> leaves the function,
  \<open>Continue\<close> goes round once more after a message that was deliberately skipped.\<close>

datatype 'm iteration = Return "'m option" | Continue

definition decoder_next_body :: "decoder \<Rightarrow> decoder \<times> msg iteration" where
  "decoder_next_body d =
     (if length (d_buf d) - d_pos d < kHeaderSize then (d, Return None)
      else
        let (tag, h1) = r_u8 \<lparr>rs = drop (d_pos d) (d_buf d), ri = 0, rok = True\<rparr>;
            (len, h2) = r_u32 h1;
            declared = kHeaderSize + unat len
        in if unat len > kMaxMessageBytes then (decoder_fail d, Return None)
           else if length (d_buf d) - d_pos d < declared then (d, Return None)
           else
             let body = take (unat len) (drop (d_pos d + kHeaderSize) (d_buf d));
                 d' = d\<lparr>d_pos := d_pos d + declared\<rparr>
             in (case decode_body tag \<lparr>rs = body, ri = 0, rok = True\<rparr> of
                  None \<Rightarrow> (decoder_compact d', Continue)
                | Some (out, r) \<Rightarrow>
                    if \<not> rok r \<or> ri r \<noteq> unat len then (decoder_fail d', Return None)
                    else (decoder_compact d', Return (Some out))))"

lemma decoder_compact_simps [simp]:
  "drop (d_pos (decoder_compact d)) (d_buf (decoder_compact d)) = drop (d_pos d) (d_buf d)"
  "d_failed (decoder_compact d) = d_failed d"
  "length (d_buf (decoder_compact d)) - d_pos (decoder_compact d) = length (d_buf d) - d_pos d"
  by (auto simp: decoder_compact_def)

lemma decoder_next_body_shrinks:
  "decoder_next_body d = (d', Continue) \<Longrightarrow>
     length (d_buf d') - d_pos d' < length (d_buf d) - d_pos d"
  by (auto simp: decoder_next_body_def Let_def kHeaderSize_def
      split: prod.splits option.splits if_splits)

function decoder_next_loop :: "decoder \<Rightarrow> decoder \<times> msg option" where
  "decoder_next_loop d =
     (case decoder_next_body d of
        (d', Return m) \<Rightarrow> (d', m)
      | (d', Continue) \<Rightarrow> decoder_next_loop d')"
  by pat_completeness auto
termination
  by (relation "measure (\<lambda>d. length (d_buf d) - d_pos d)")
    (simp_all add: decoder_next_body_shrinks[OF sym])

declare decoder_next_loop.simps [simp del]

definition decoder_next :: "decoder \<Rightarrow> decoder \<times> msg option" where
  "decoder_next d = (if d_failed d then (d, None) else decoder_next_loop d)"

definition rd_at :: "reader \<Rightarrow> bytes \<Rightarrow> bool" where
  "rd_at r s \<longleftrightarrow> rok r \<and> ri r \<le> length (rs r) \<and> drop (ri r) (rs r) = s"

definition rd_skip :: "nat \<Rightarrow> reader \<Rightarrow> reader" where
  "rd_skip n r = r\<lparr>ri := ri r + n\<rparr>"

lemma rd_skip_skip [simp]: "rd_skip m (rd_skip n r) = rd_skip (n + m) r"
  by (simp add: rd_skip_def add.assoc)

lemma rd_at_skip: "rd_at r (x @ y) \<Longrightarrow> rd_at (rd_skip (length x) r) y"
  by (auto simp: rd_at_def rd_skip_def add.commute drop_drop[symmetric] dest: arg_cong[where f = length])

definition reads :: "(reader \<Rightarrow> 'v \<times> reader) \<Rightarrow> 'v \<Rightarrow> bytes \<Rightarrow> bool" where
  "reads f v x \<longleftrightarrow> (\<forall>r y. rd_at r (x @ y) \<longrightarrow> f r = (v, rd_skip (length x) r))"

lemma readsD:
  assumes "reads f v x" "rd_at r (x @ y)"
  shows "f r = (v, rd_skip (length x) r)" "rd_at (rd_skip (length x) r) y"
  using assms(1)[unfolded reads_def, rule_format, OF assms(2)] rd_at_skip[OF assms(2)] by simp_all

lemma readsI: "(\<And>r y. rd_at r (x @ y) \<Longrightarrow> f r = (v, rd_skip (length x) r)) \<Longrightarrow> reads f v x"
  by (simp add: reads_def del: all_simps)

lemma length_put [simp]: "length (put_u8 a) = 1" "length (put_u16 b) = 2" "length (put_u32 c) = 4"
  "length (put_str s) = 4 + length s"
  by (simp_all add: put_u8_def put_u16_def put_u32_def put_str_def)

lemma reads_u8: "reads r_u8 v (put_u8 v)"
  by (rule readsI) (auto simp: rd_at_def r_u8_def put_u8_def rd_skip_def nth_via_drop
      dest: arg_cong[where f = length])

lemma join_u16:
  "push_bit 8 (ucast (ucast (drop_bit 8 v) :: byte)) OR ucast (ucast (v AND 0xFF) :: byte) = (v :: 16 word)"
  by (simp only: mask_literals(5)) (rule bit_eqI, auto simp: bit_simps)

lemma join_u32:
  "push_bit 16 (ucast (ucast (drop_bit 16 v) :: 16 word)) OR ucast (ucast (v AND 0xFFFF) :: 16 word)
    = (v :: 32 word)"
proof -
  have m: "(0xFFFF :: 32 word) = mask 16" by (simp add: mask_eq_exp_minus_1)
  show ?thesis unfolding m by (rule bit_eqI) (auto simp: bit_simps)
qed

lemma reads_u16: "reads r_u16 v (put_u16 v)"
proof (rule readsI)
  fix r y assume a: "rd_at r (put_u16 v @ y)"
  let ?hi = "ucast (drop_bit 8 v) :: byte" and ?lo = "ucast (v AND 0xFF) :: byte"
  have "rd_at r (put_u8 ?hi @ put_u8 ?lo @ y)" using a by (simp add: put_u16_def)
  note 1 = readsD[OF reads_u8 this]
  note 2 = readsD[OF reads_u8 1(2)]
  show "r_u16 r = (v, rd_skip (length (put_u16 v)) r)"
    using 1(1) 2(1) by (simp add: r_u16_def join_u16 numeral_2_eq_2)
qed

lemma reads_u32: "reads r_u32 v (put_u32 v)"
proof (rule readsI)
  fix r y assume a: "rd_at r (put_u32 v @ y)"
  let ?hi = "ucast (drop_bit 16 v) :: 16 word" and ?lo = "ucast (v AND 0xFFFF) :: 16 word"
  have "rd_at r (put_u16 ?hi @ put_u16 ?lo @ y)" using a by (simp add: put_u32_def)
  note 1 = readsD[OF reads_u16 this]
  note 2 = readsD[OF reads_u16 1(2)]
  show "r_u32 r = (v, rd_skip (length (put_u32 v)) r)"
    using 1(1) 2(1) by (simp add: r_u32_def join_u32)
qed

lemma unat_of_length: "n < 2 ^ 32 \<Longrightarrow> unat (word_of_nat n :: 32 word) = n"
  by (simp add: unsigned_of_nat take_bit_eq_mod)

lemma reads_str:
  assumes "length s < 2 ^ 32"
  shows "reads r_str s (put_str s)"
proof (rule readsI)
  fix r y assume a: "rd_at r (put_str s @ y)"
  then have "rd_at r (put_u32 (word_of_nat (length s)) @ (s @ y))" by (simp add: put_str_def)
  note 1 = readsD[OF reads_u32 this]
  have "length s + length y = length (rs r) - (ri r + 4)" "ri r + 4 \<le> length (rs r)"
    using 1(2) by (auto simp: rd_at_def rd_skip_def dest: arg_cong[where f = length])
  then show "r_str r = (s, rd_skip (length (put_str s)) r)"
    using 1 by (auto simp: r_str_def unat_of_length[OF assms] rd_at_def rd_skip_def)
qed

lemma reads_env:
  assumes "\<forall>(k, v) \<in> set e. length k < 2 ^ 32 \<and> length v < 2 ^ 32" "rd_at r (put_env e @ y)"
  shows "r_env (length e) r acc = (acc @ e, rd_skip (length (put_env e)) r)"
  using assms
proof (induction e arbitrary: r acc)
  case Nil
  then show ?case by (simp add: put_env_def rd_skip_def)
next
  case (Cons kv e)
  obtain k v where kv: "kv = (k, v)" by (cases kv)
  have "rd_at r (put_str k @ put_str v @ put_env e @ y)" using Cons.prems by (simp add: put_env_def kv)
  note 1 = readsD[OF reads_str this]
  note 2 = readsD[OF reads_str 1(2)]
  show ?case using Cons.prems 1 2 Cons.IH[of "rd_skip (length (put_str v)) (rd_skip (length (put_str k)) r)" "acc @ [(k, v)]"]
    by (simp add: kv put_env_def rd_at_def add.assoc)
qed


definition body :: "msg \<Rightarrow> bytes" where
  "body m = snd (body_of m)"

lemma length_put_env:
  "(k, v) \<in> set e \<Longrightarrow> length k + length v < length (put_env e)" "length e \<le> length (put_env e)"
  by (induction e) (auto simp: put_env_def)

lemma decode_body_hello:
  assumes "rd_at r (body (Hello h) @ y)" "length (body (Hello h)) < 2 ^ 32"
  shows "decode_body 1 r = Some (Hello h, rd_skip (length (body (Hello h))) r)"
proof -
  have len: "length (h_term_name h) < 2 ^ 32" "length (h_colorterm h) < 2 ^ 32" "length (put_env (h_env h)) < 2 ^ 32"
    using assms(2) by (simp_all add: body_def)
  then have e: "\<forall>(k, v) \<in> set (h_env h). length k < 2 ^ 32 \<and> length v < 2 ^ 32" "length (h_env h) < 2 ^ 32"
    using length_put_env[where e = "h_env h"] by (force, linarith)
  note 1 = readsD[OF reads_u32 assms(1)[unfolded body_def body_of.simps snd_conv append_assoc]]
  note 2 = readsD[OF reads_u16 1(2)]
  note 3 = readsD[OF reads_u16 2(2)]
  note 4 = readsD[OF reads_str[OF len(1)] 3(2)]
  note 5 = readsD[OF reads_str[OF len(2)] 4(2)]
  note 6 = readsD[OF reads_u8 5(2)]
  note 7 = readsD[OF reads_u32 6(2)]
  note 8 = reads_env[OF e(1) 7(2)]
  show ?thesis
    by (simp add: decode_body_def 1(1) 2(1) 3(1) 4(1) 5(1) 6(1) 7(1) unat_of_length[OF e(2)]
        8[of "[]", unfolded append_Nil] del: rd_skip_skip length_put) (simp add: body_def add.assoc)
qed

lemma decode_body_put:
  assumes "rd_at r (body m)" "length (body m) < 2 ^ 32"
  shows "decode_body (fst (body_of m)) r = Some (m, rd_skip (length (body m)) r)"
proof (cases m)
  case (Hello h)
  then show ?thesis using decode_body_hello[of r h "[]"] assms by simp
next
  case (Resize c ro)
  have "rd_at r (put_u16 c @ put_u16 ro @ [])" using assms(1) by (simp add: body_def Resize)
  note 1 = readsD[OF reads_u16 this]
  note 2 = readsD[OF reads_u16 1(2)]
  show ?thesis using 1(1) 2(1) by (simp add: Resize body_def decode_body_def)
qed (use assms readsD(1)[OF reads_str, of _ r "[]"] in
    \<open>auto simp: body_def decode_body_def rd_skip_def split: prod.splits\<close>)

section \<open>Framing of a byte stream\<close>

datatype 'm frame = More | Bad | Skip nat | Got 'm nat

inductive parses :: "(bytes \<Rightarrow> 'm frame) \<Rightarrow> bytes \<Rightarrow> 'm list \<Rightarrow> bytes option \<Rightarrow> bool"
  for frame :: "bytes \<Rightarrow> 'm frame" where
  more: "frame s = More \<Longrightarrow> parses frame s [] (Some s)"
| bad: "frame s = Bad \<Longrightarrow> parses frame s [] None"
| skip: "frame s = Skip n \<Longrightarrow> parses frame (drop n s) ms q \<Longrightarrow> parses frame s ms q"
| got: "frame s = Got m n \<Longrightarrow> parses frame (drop n s) ms q \<Longrightarrow> parses frame s (m # ms) q"

lemma parses_unfold:
  "parses frame s ms q \<longleftrightarrow>
     (case frame s of
        More \<Rightarrow> ms = [] \<and> q = Some s
      | Bad \<Rightarrow> ms = [] \<and> q = None
      | Skip n \<Rightarrow> parses frame (drop n s) ms q
      | Got m n \<Rightarrow> (\<exists>ms'. ms = m # ms' \<and> parses frame (drop n s) ms' q))"
  by (subst parses.simps) (auto split: frame.splits)

locale framing =
  fixes frame :: "bytes \<Rightarrow> 'm frame"
  assumes skip_within: "frame s = Skip n \<Longrightarrow> 0 < n \<and> n \<le> length s"
    and got_within: "frame s = Got m n \<Longrightarrow> 0 < n \<and> n \<le> length s"
    and settled: "frame s \<noteq> More \<Longrightarrow> frame (s @ t) = frame s"
begin

lemma parses_unique: "parses frame s ms q \<Longrightarrow> parses frame s ms' q' \<Longrightarrow> ms' = ms \<and> q' = q"
proof (induction arbitrary: ms' q' rule: parses.induct)
  case (got s m n ms q)
  then obtain ms2 where "ms' = m # ms2" "parses frame (drop n s) ms2 q'"
    using parses_unfold[of frame s ms' q'] got.hyps(1) by (simp only: frame.case) blast
  then show ?case using got.IH by blast
next
  case (skip s n ms q)
  then have "parses frame (drop n s) ms' q'" using parses_unfold[of frame s ms' q'] by (simp only: frame.case)
  then show ?case by (rule skip.IH)
next
  case (more s)
  then show ?case using parses_unfold[of frame s ms' q'] by (simp only: frame.case)
next
  case (bad s)
  then show ?case using parses_unfold[of frame s ms' q'] by (simp only: frame.case)
qed

lemma parses_total: "\<exists>ms q. parses frame s ms q"
proof (induction "length s" arbitrary: s rule: less_induct)
  case less
  show ?case
  proof (cases "frame s")
    case (Skip n)
    then have "length (drop n s) < length s" using skip_within by fastforce
    then show ?thesis using less parses.skip[of frame s, OF Skip] by blast
  next
    case (Got m n)
    then have "length (drop n s) < length s" using got_within by fastforce
    then show ?thesis using less parses.got[of frame s, OF Got] by blast
  qed (auto intro: parses.intros)
qed

lemma parses_append:
  assumes "parses frame s ms q"
  shows "case q of None \<Rightarrow> parses frame (s @ t) ms None
    | Some r \<Rightarrow> (\<forall>ms' q'. parses frame (r @ t) ms' q' \<longrightarrow> parses frame (s @ t) (ms @ ms') q')"
  using assms
proof (induction rule: parses.induct)
  case (bad s)
  then show ?case using settled[of s t] by (auto intro: parses.bad)
next
  case (skip s n ms q)
  then have "frame (s @ t) = Skip n" "drop n (s @ t) = drop n s @ t"
    using settled[of s t] skip_within[of s n] by simp_all
  then show ?case using skip by (auto split: option.splits intro: parses.skip)
next
  case (got s m n ms q)
  then have "frame (s @ t) = Got m n" "drop n (s @ t) = drop n s @ t"
    using settled[of s t] got_within[of s m n] by simp_all
  then show ?case using got by (auto split: option.splits intro: parses.got)
qed simp

lemma parses_messages:
  assumes "\<And>m. m \<in> set ms \<Longrightarrow> frame (enc m) = Got m (length (enc m))" "frame [] = More"
  shows "parses frame (concat (map enc ms)) ms (Some [])"
  using assms(1)
proof (induction ms)
  case Nil
  then show ?case using parses.more[of frame, OF assms(2)] by simp
next
  case (Cons m ms)
  then have "frame (enc m @ concat (map enc ms)) = Got m (length (enc m))"
    using settled[of "enc m"] by simp
  then show ?case using Cons by (auto intro!: parses.got)
qed

end


section \<open>The frames of this protocol\<close>

text \<open>What \<open>Decoder::next\<close> sees at the head of the unread bytes.\<close>

definition header :: "bytes \<Rightarrow> byte \<times> 32 word" where
  "header w = (let (tag, h1) = r_u8 \<lparr>rs = w, ri = 0, rok = True\<rparr>; (len, h2) = r_u32 h1 in (tag, len))"

definition frame_of :: "bytes \<Rightarrow> msg frame" where
  "frame_of w =
     (if length w < kHeaderSize then More
      else let (tag, len) = header w; n = kHeaderSize + unat len in
        if unat len > kMaxMessageBytes then Bad
        else if length w < n then More
        else (case decode_body tag \<lparr>rs = take (unat len) (drop kHeaderSize w), ri = 0, rok = True\<rparr> of
            None \<Rightarrow> Skip n
          | Some (m, r) \<Rightarrow> if \<not> rok r \<or> ri r \<noteq> unat len then Bad else Got m n))"

lemma header_append: "kHeaderSize \<le> length w \<Longrightarrow> header (w @ t) = header w"
proof -
  assume "kHeaderSize \<le> length w"
  then obtain a b c d e u where "w = a # b # c # d # e # u"
    by (auto simp: kHeaderSize_def numeral_eq_Suc Suc_le_length_iff)
  then show ?thesis by (simp add: header_def r_u32_def r_u16_def r_u8_def)
qed

lemma frame_of_within:
  "frame_of w = Skip n \<Longrightarrow> 0 < n \<and> n \<le> length w" "frame_of w = Got m n \<Longrightarrow> 0 < n \<and> n \<le> length w"
  by (auto simp: frame_of_def kHeaderSize_def Let_def split: if_splits option.splits prod.splits)

lemma frame_of_append: "frame_of w \<noteq> More \<Longrightarrow> frame_of (w @ t) = frame_of w"
  by (auto simp: frame_of_def header_append Let_def split: if_splits option.splits prod.splits)

lemma frame_of_More: "frame_of w = More \<Longrightarrow> length w < kHeaderSize + kMaxMessageBytes"
  by (auto simp: frame_of_def Let_def kMaxMessageBytes_def split: if_splits option.splits prod.splits)

interpretation proto: framing frame_of
  by unfold_locales (erule frame_of_within frame_of_append)+

definition unread :: "decoder \<Rightarrow> bytes" where
  "unread d = drop (d_pos d) (d_buf d)"

lemma decoder_next_body_frame:
  "decoder_next_body d =
     (case frame_of (unread d) of
        More \<Rightarrow> (d, Return None)
      | Bad \<Rightarrow> (decoder_fail d, Return None)
      | Skip n \<Rightarrow> (decoder_compact (d\<lparr>d_pos := d_pos d + n\<rparr>), Continue)
      | Got m n \<Rightarrow> (decoder_compact (d\<lparr>d_pos := d_pos d + n\<rparr>), Return (Some m)))"
  by (simp add: decoder_next_body_def frame_of_def header_def unread_def decoder_fail_def Let_def add.commute
      split: prod.splits option.splits)


definition decoder_ok :: "decoder \<Rightarrow> bool" where
  "decoder_ok d \<longleftrightarrow>
     d_pos d \<le> length (d_buf d) \<and> length (d_buf d) - d_pos d \<le> kMaxBufferBytes
     \<and> (d_pos d < kCompactMinSize \<or> d_pos d * 2 < length (d_buf d))
     \<and> (d_failed d \<longrightarrow> d_buf d = [])"

lemma decoder_init_ok [inv_intros]: "decoder_ok decoder_init"
  by (simp add: decoder_ok_def decoder_init_def kCompactMinSize_def)

lemma decoder_fail_ok [inv_intros]: "decoder_ok (decoder_fail d)"
  by (simp add: decoder_ok_def decoder_fail_def kCompactMinSize_def)

lemma decoder_feed_ok [inv_intros]: "decoder_ok d \<Longrightarrow> decoder_ok (decoder_feed d bs)"
  using decoder_fail_ok[of d] by (auto simp: decoder_feed_def decoder_ok_def)

lemma decoder_compact_ok:
  assumes "d_pos d \<le> length (d_buf d)" "length (d_buf d) - d_pos d \<le> kMaxBufferBytes" "\<not> d_failed d"
  shows "decoder_ok (decoder_compact d)"
  using assms by (auto simp: decoder_ok_def decoder_compact_def kCompactMinSize_def)

lemma decoder_advance_ok:
  "decoder_ok d \<Longrightarrow> \<not> d_failed d \<Longrightarrow> n \<le> length (unread d) \<Longrightarrow>
     decoder_ok (decoder_compact (d\<lparr>d_pos := d_pos d + n\<rparr>))"
  by (rule decoder_compact_ok) (auto simp: decoder_ok_def unread_def)

lemma unread_simps [simp]:
  "unread (decoder_compact d) = unread d" "unread (d\<lparr>d_pos := d_pos d + n\<rparr>) = drop n (unread d)"
  by (simp_all add: unread_def add.commute)

abbreviation advance :: "decoder \<Rightarrow> nat \<Rightarrow> decoder" where
  "advance d n \<equiv> decoder_compact (d\<lparr>d_pos := d_pos d + n\<rparr>)"

lemma decoder_next_loop_frame:
  "decoder_next_loop d =
     (case frame_of (unread d) of
        More \<Rightarrow> (d, None)
      | Bad \<Rightarrow> (decoder_fail d, None)
      | Skip n \<Rightarrow> decoder_next_loop (advance d n)
      | Got m n \<Rightarrow> (advance d n, Some m))"
  by (subst decoder_next_loop.simps) (simp add: decoder_next_body_frame split: frame.split)

definition next_post :: "decoder \<Rightarrow> decoder \<Rightarrow> msg option \<Rightarrow> bool" where
  "next_post d d' out \<longleftrightarrow> decoder_ok d' \<and> (case out of
      None \<Rightarrow> parses frame_of (unread d) [] (if d_failed d' then None else Some (unread d'))
              \<and> (d_failed d' \<or> frame_of (unread d') = More)
    | Some m \<Rightarrow> \<not> d_failed d' \<and> length (unread d') < length (unread d)
              \<and> (\<forall>ms q. parses frame_of (unread d') ms q \<longrightarrow> parses frame_of (unread d) (m # ms) q))"

lemma decoder_next_loop_spec:
  "decoder_next_loop d = (d', out) \<Longrightarrow> decoder_ok d \<Longrightarrow> \<not> d_failed d \<Longrightarrow> next_post d d' out"
proof (induction "length (unread d)" arbitrary: d rule: less_induct)
  case less
  note loop = less.prems(1)[unfolded decoder_next_loop_frame[of d]]
  show ?case
  proof (cases "frame_of (unread d)")
    case More
    then have "d' = d" "out = None" using loop by simp_all
    then show ?thesis using less.prems More by (simp add: next_post_def parses.more[of frame_of])
  next
    case Bad
    then have "d' = decoder_fail d" "out = None" using loop by simp_all
    then show ?thesis using Bad
      by (simp add: next_post_def decoder_fail_ok parses.bad[of frame_of]) (simp add: decoder_fail_def)
  next
    case (Got m n)
    then have "d' = advance d n" "out = Some m" using loop by simp_all
    then show ?thesis using less.prems frame_of_within(2)[OF Got] parses.got[of frame_of, OF Got]
      by (auto simp: next_post_def decoder_advance_ok)
  next
    case (Skip n)
    have "next_post (advance d n) d' out"
      using loop less.prems frame_of_within(1)[OF Skip]
      by (intro less.hyps) (auto simp: Skip decoder_advance_ok)
    then show ?thesis using parses.skip[of frame_of, OF Skip]
      by (auto simp: next_post_def split: option.splits)
  qed
qed


lemma decoder_next_loop_shrinks:
  "decoder_next_loop d = (d', Some m) \<Longrightarrow> length (unread d') < length (unread d)"
proof (induction "length (unread d)" arbitrary: d rule: less_induct)
  case less
  note loop = less.prems[unfolded decoder_next_loop_frame[of d]]
  show ?case
  proof (cases "frame_of (unread d)")
    case (Got m n)
    then show ?thesis using loop frame_of_within(2)[OF Got] by auto
  next
    case (Skip n)
    then have "length (unread (advance d n)) < length (unread d)" "decoder_next_loop (advance d n) = (d', Some m)"
      using loop frame_of_within(1)[OF Skip] by auto
    then show ?thesis using less.hyps[of "advance d n"] by linarith
  qed (use loop in auto)
qed

function decoder_drain :: "decoder \<Rightarrow> msg list \<times> decoder" where
  "decoder_drain d =
     (case decoder_next d of
        (d', None) \<Rightarrow> ([], d')
      | (d', Some m) \<Rightarrow> (let (ms, d'') = decoder_drain d' in (m # ms, d'')))"
  by pat_completeness auto
termination
  by (relation "measure (\<lambda>d. length (unread d))")
    (auto simp: decoder_next_def dest: decoder_next_loop_shrinks[OF sym] split: if_splits)

declare decoder_drain.simps [simp del]

fun receive :: "decoder \<Rightarrow> bytes list \<Rightarrow> msg list \<times> decoder" where
  "receive d [] = ([], d)"
| "receive d (c # cs) =
     (let (ms, d1) = decoder_drain (decoder_feed d c); (ms', d2) = receive d1 cs in (ms @ ms', d2))"

definition remainder :: "decoder \<Rightarrow> bytes option" where
  "remainder d = (if d_failed d then None else Some (unread d))"

definition drained :: "decoder \<Rightarrow> bool" where
  "drained d \<longleftrightarrow> decoder_ok d \<and> (d_failed d \<or> frame_of (unread d) = More)"

lemma decoder_drain_failed [simp]: "d_failed d \<Longrightarrow> decoder_drain d = ([], d)"
  by (subst decoder_drain.simps) (simp add: decoder_next_def)

lemma decoder_drain_spec:
  "decoder_drain d = (ms, d') \<Longrightarrow> decoder_ok d \<Longrightarrow> \<not> d_failed d \<Longrightarrow>
     drained d' \<and> parses frame_of (unread d) ms (remainder d')"
proof (induction "length (unread d)" arbitrary: d ms rule: less_induct)
  case less
  obtain d1 out where n: "decoder_next_loop d = (d1, out)" by fastforce
  then have nx: "decoder_next d = (d1, out)" using less.prems by (simp add: decoder_next_def)
  note post = decoder_next_loop_spec[OF n less.prems(2,3)]
  show ?case
  proof (cases out)
    case None
    then show ?thesis using less.prems(1) nx post
      by (simp add: decoder_drain.simps[of d] next_post_def drained_def remainder_def)
  next
    case (Some m)
    obtain ms1 where r: "decoder_drain d1 = (ms1, d')" "ms = m # ms1"
      using less.prems(1) nx Some by (auto simp: decoder_drain.simps[of d] split: prod.splits)
    then show ?thesis using less.hyps[of d1 ms1] post Some by (simp add: next_post_def)
  qed
qed

lemma feed_drained:
  assumes "drained d" "\<not> d_failed d" "length c \<le> 1024 * 1024"
  shows "\<not> d_failed (decoder_feed d c)" "unread (decoder_feed d c) = unread d @ c" "decoder_ok (decoder_feed d c)"
  using assms frame_of_More[of "unread d"]
  by (auto simp: drained_def decoder_feed_def unread_def kMaxBufferBytes_def decoder_ok_def
      kMaxMessageBytes_def kHeaderSize_def)

lemma receive_failed: "d_failed d \<Longrightarrow> receive d cs = ([], d)"
  by (induction cs) (simp_all add: decoder_feed_def)

lemma receive_spec:
  assumes "receive d cs = (ms, d')" "drained d" "\<not> d_failed d" "\<forall>c \<in> set cs. length c \<le> 1024 * 1024"
  shows "drained d' \<and> parses frame_of (unread d @ concat cs) ms (remainder d')"
  using assms
proof (induction cs arbitrary: d ms)
  case Nil
  then show ?case using parses.more[of frame_of] by (auto simp: drained_def remainder_def)
next
  case (Cons c cs)
  note f = feed_drained[OF Cons.prems(2,3), of c]
  obtain ms1 d1 ms2 where r: "decoder_drain (decoder_feed d c) = (ms1, d1)" "receive d1 cs = (ms2, d')" "ms = ms1 @ ms2"
    using Cons.prems(1) by (auto split: prod.splits)
  have p: "drained d1" "parses frame_of (unread d @ c) ms1 (remainder d1)"
    using decoder_drain_spec[OF r(1)] f Cons.prems(4) by simp_all
  note app = proto.parses_append[OF p(2), of "concat cs"]
  show ?case
  proof (cases "d_failed d1")
    case True
    then show ?thesis using app r p receive_failed[of d1 cs] by (simp add: remainder_def)
  next
    case False
    then show ?thesis using app Cons.IH[OF r(2) p(1)] Cons.prems(4) r(3) by (auto simp: remainder_def)
  qed
qed


lemma encode_conv: "encode m = put_u8 (fst (body_of m)) @ put_u32 (word_of_nat (length (body m))) @ body m"
  by (simp add: encode_def body_def split: prod.splits)

lemma frame_of_encode:
  assumes "length (body m) \<le> kMaxMessageBytes"
  shows "frame_of (encode m) = Got m (length (encode m))"
proof -
  have l: "length (body m) < 2 ^ 32" using assms by (simp add: kMaxMessageBytes_def)
  have "rd_at \<lparr>rs = encode m, ri = 0, rok = True\<rparr> (encode m)" by (simp add: rd_at_def)
  note 1 = readsD[OF reads_u8 this[unfolded encode_conv[of m]]]
  note 2 = readsD[OF reads_u32 1(2)]
  have h: "header (encode m) = (fst (body_of m), word_of_nat (length (body m)))"
    using 1(1) 2(1) by (simp add: header_def encode_conv[of m])
  have b: "drop kHeaderSize (encode m) = body m" by (simp add: encode_conv put_u8_def kHeaderSize_def)
  have "rd_at \<lparr>rs = body m, ri = 0, rok = True\<rparr> (body m)" by (simp add: rd_at_def)
  note d = decode_body_put[OF this l]
  show ?thesis unfolding frame_of_def h b
    using assms d by (simp add: unat_of_length[OF l] kHeaderSize_def encode_conv rd_skip_def)
qed

lemma frame_of_Nil: "frame_of [] = More"
  by (simp add: frame_of_def kHeaderSize_def)

inductive decoder_run :: "decoder \<Rightarrow> bool" where
  run_init: "decoder_run decoder_init"
| run_feed: "decoder_run d \<Longrightarrow> decoder_run (decoder_feed d bs)"
| run_next: "decoder_run d \<Longrightarrow> decoder_run (fst (decoder_next d))"

lemma decoder_next_ok [inv_intros]: "decoder_ok d \<Longrightarrow> decoder_ok (fst (decoder_next d))"
  using decoder_next_loop_spec[of d]
  by (cases "decoder_next_loop d") (auto simp: decoder_next_def next_post_def)

lemma decoder_run_ok: "decoder_run d \<Longrightarrow> decoder_ok d"
  by (induction rule: decoder_run.induct) (auto intro: inv_intros)

lemma drained_init: "drained decoder_init" "unread decoder_init = []" "\<not> d_failed decoder_init"
  using decoder_init_ok by (simp_all add: drained_def decoder_init_def unread_def frame_of_def kHeaderSize_def)

section \<open>Properties\<close>

text \<open>
  C6.  Round trip over a socket: however the bytes of a sequence of encoded
  messages are cut into reads of at most 1 MiB, the decoder, drained after every
  read, delivers exactly those messages in order, keeps nothing back and does not
  fail.
\<close>

theorem proto_roundtrip_chunked:
  assumes "concat cs = concat (map encode ms)"
    and "\<forall>m \<in> set ms. length (snd (body_of m)) \<le> kMaxMessageBytes"
    and "\<forall>c \<in> set cs. length c \<le> 1024 * 1024"
  shows "\<exists>d. receive decoder_init cs = (ms, d) \<and> \<not> d_failed d \<and> unread d = []"
proof -
  obtain ms' d where r: "receive decoder_init cs = (ms', d)" by fastforce
  have "parses frame_of (concat (map encode ms)) ms (Some [])"
    using assms(2) by (intro proto.parses_messages) (simp_all add: frame_of_encode body_def frame_of_Nil)
  moreover have "parses frame_of (concat cs) ms' (remainder d)"
    using receive_spec[OF r drained_init(1,3) assms(3)] by (simp add: drained_init)
  ultimately have "ms = ms'" "remainder d = Some []"
    using proto.parses_unique assms(1) by metis+
  then show ?thesis using r by (auto simp: remainder_def split: if_splits)
qed

theorem proto_roundtrip_chunked_witness:
  "\<exists>d. receive decoder_init [[6, 0, 0], [0, 4, 0, 80], [0, 24, 2, 0, 0, 0, 0]]
       = ([Resize 80 24, Welcome], d) \<and> \<not> d_failed d \<and> unread d = []"
  by (rule proto_roundtrip_chunked)
    (simp_all add: encode_def put_u8_def put_u16_def put_u32_def kMaxMessageBytes_def)

text \<open>
  C34.  How a stream was cut is not observable, forged streams included: two
  cuttings of the same bytes into reads of at most 1 MiB (the program reads 64 KiB at
  most) yield the same messages, the same verdict on the peer and the same unread remainder.
\<close>

theorem proto_chunking_independent:
  assumes "concat cs = concat cs'"
    and "\<forall>c \<in> set (cs @ cs'). length c \<le> 1024 * 1024"
    and "receive decoder_init cs = (ms, d)" and "receive decoder_init cs' = (ms', d')"
  shows "ms = ms' \<and> d_failed d = d_failed d' \<and> (d_failed d \<or> unread d = unread d')"
proof -
  have "parses frame_of (concat cs) ms (remainder d)" "parses frame_of (concat cs) ms' (remainder d')"
    using receive_spec[OF assms(3) drained_init(1,3)] receive_spec[OF assms(4) drained_init(1,3)] assms(1,2)
    by (simp_all add: drained_init)
  then have "ms' = ms \<and> remainder d' = remainder d" by (rule proto.parses_unique)
  then show ?thesis by (auto simp: remainder_def split: if_splits)
qed

theorem proto_chunking_independent_witness:
  "fst (receive decoder_init [[2, 0], [0, 0, 0, 9]]) = fst (receive decoder_init [[2, 0, 0, 0, 0, 9]])"
  by (rule proto_chunking_independent[THEN conjunct1, OF _ _ prod.collapse[symmetric] prod.collapse[symmetric]])
    simp_all

text \<open>
  Whatever a peer sends and however reads and decoding are interleaved, the
  reassembly buffer stays below twice its documented ceiling and its unread part
  below the ceiling; a decoder that has failed has released its buffer, ignores
  every further byte and never yields a message again.
\<close>

theorem decoder_bounded:
  assumes "decoder_run d"
  shows "length (unread d) \<le> kMaxBufferBytes \<and> length (d_buf d) \<le> 2 * kMaxBufferBytes
    \<and> (d_failed d \<longrightarrow> d_buf d = [] \<and> decoder_feed d bs = d \<and> decoder_next d = (d, None))"
  using decoder_run_ok[OF assms]
  by (auto simp: decoder_ok_def unread_def decoder_feed_def decoder_next_def kCompactMinSize_def
      kMaxBufferBytes_def kMaxMessageBytes_def)


theorem decoder_bounded_witness:
  "length (d_buf (fst (decoder_next (decoder_feed decoder_init [9, 0, 0, 0, 0])))) \<le> 2 * kMaxBufferBytes"
  using decoder_bounded[OF run_next[OF run_feed[OF run_init, of "[9, 0, 0, 0, 0]"]]] by simp

end
