(* ===== verification/OutQueue.thy ===== *)
theory OutQueue
  imports Prelude
begin

text \<open>
  \<open>src/common/outqueue.cpp\<close>, the non-blocking output queue between the daemon and one
  client, and \<open>src/common/frameclock.hpp\<close>, the dirty flag with its rate limit.  The
  system call \<open>send\<close> is an argument: the list of its answers, in the order the
  kernel gives them.  An operation that flushes also returns the bytes that left on
  the wire, so that what the peer has received can be stated.
\<close>

section \<open>The queue\<close>

datatype overflow = OvNone | OvClean | OvDirty

text \<open>The underlying values of \<open>enum class Overflow\<close>, in declaration order.\<close>

fun severity :: "overflow \<Rightarrow> nat" where
  "severity OvNone = 0" | "severity OvClean = 1" | "severity OvDirty = 2"

record outqueue =
  q_buf :: bytes
  q_off :: nat
  q_ceiling :: nat
  q_overflow :: overflow
  q_capacity :: nat

definition kSmallCapacity :: nat where
  "kSmallCapacity = 15"

definition outqueue_init :: "nat \<Rightarrow> outqueue" where
  "outqueue_init c =
     \<lparr>q_buf = [], q_off = 0, q_ceiling = c, q_overflow = OvNone, q_capacity = kSmallCapacity\<rparr>"

definition kReleaseThreshold :: nat where
  "kReleaseThreshold = 8 * 1024 * 1024"

definition wants_write :: "outqueue \<Rightarrow> bool" where
  "wants_write q \<longleftrightarrow> q_off q < length (q_buf q)"

definition q_size :: "outqueue \<Rightarrow> nat" where
  "q_size q = length (q_buf q) - q_off q"

definition release_buffer :: "outqueue \<Rightarrow> outqueue" where
  "release_buffer q =
     (if q_capacity q \<ge> kReleaseThreshold
      then q\<lparr>q_buf := [], q_capacity := kSmallCapacity, q_off := 0\<rparr>
      else q\<lparr>q_buf := [], q_off := 0\<rparr>)"

definition push :: "outqueue \<Rightarrow> bytes \<Rightarrow> outqueue" where
  "push q bs =
     (let current = q_size q in
      if length bs > q_ceiling q - current then
        let this_rejection = (if q_off q > 0 then OvDirty else OvClean)
        in release_buffer
             (if severity this_rejection > severity (q_overflow q)
              then q\<lparr>q_overflow := this_rejection\<rparr> else q)
      else q\<lparr>q_buf := q_buf q @ bs,
             q_capacity := (if length (q_buf q @ bs) \<le> q_capacity q then q_capacity q
                            else max (length (q_buf q @ bs)) (2 * q_capacity q))\<rparr>)"

text \<open>The answers of \<open>send\<close>: a byte count, or \<open>-1\<close> with the errno classes the loop tells
  apart.\<close>

datatype send_result = Sent nat | SendAgain | SendIntr | SendError

datatype flush_exit = Drained | Blocked | Broken | Waiting

text \<open>The loop of \<open>flush\<close>, one answer of \<open>send\<close> per iteration.  \<open>Waiting\<close> is the state in
  which \<open>send\<close> has been called once more than answers are given.\<close>

fun flush_loop :: "outqueue \<Rightarrow> send_result list \<Rightarrow> outqueue \<times> bytes \<times> flush_exit" where
  "flush_loop q [] = (q, [], if wants_write q then Waiting else Drained)"
| "flush_loop q (r # rs) =
     (if \<not> wants_write q then (q, [], Drained)
      else (case r of
        Sent n \<Rightarrow>
          if n > 0 then
            let (q', w, e) = flush_loop (q\<lparr>q_off := q_off q + n\<rparr>) rs
            in (q', take n (drop (q_off q) (q_buf q)) @ w, e)
          else (q, [], Broken)
      | SendAgain \<Rightarrow> (q, [], Blocked)
      | SendIntr \<Rightarrow> flush_loop q rs
      | SendError \<Rightarrow> (q, [], Broken)))"

definition q_compact :: "outqueue \<Rightarrow> outqueue" where
  "q_compact q =
     (if q_off q = 0 then q
      else if q_off q = length (q_buf q) then release_buffer q
      else if q_off q > 2 ^ 16 then q\<lparr>q_buf := drop (q_off q) (q_buf q), q_off := 0\<rparr>
      else q)"

text \<open>\<open>flush\<close>: the queue, the bytes sent, and the returned flag (\<open>None\<close> while waiting).\<close>

definition flush :: "outqueue \<Rightarrow> send_result list \<Rightarrow> outqueue \<times> bytes \<times> bool option" where
  "flush q rs =
     (case flush_loop q rs of
        (q', w, Broken) \<Rightarrow> (q', w, Some False)
      | (q', w, Waiting) \<Rightarrow> (q', w, None)
      | (q', w, _) \<Rightarrow> (q_compact q', w, Some True))"

definition take_overflow :: "outqueue \<Rightarrow> outqueue \<times> overflow" where
  "take_overflow q = (q\<lparr>q_overflow := OvNone\<rparr>, q_overflow q)"

text \<open>The contract of \<open>send\<close>: never more bytes than it was given.\<close>

fun honest_sends :: "nat \<Rightarrow> send_result list \<Rightarrow> bool" where
  "honest_sends left (Sent n # rs) \<longleftrightarrow> n \<le> left \<and> honest_sends (left - n) rs"
| "honest_sends left (_ # rs) \<longleftrightarrow> honest_sends left rs"
| "honest_sends left [] \<longleftrightarrow> True"

section \<open>The frame clock\<close>

text \<open>Times are nanoseconds of the steady clock, the interval is in milliseconds.\<close>

record frameclock =
  fc_min_interval :: int
  fc_last :: "int option"
  fc_dirty :: bool

definition clock_init :: "int \<Rightarrow> frameclock" where
  "clock_init ms = \<lparr>fc_min_interval = ms, fc_last = None, fc_dirty = False\<rparr>"

definition mark_dirty :: "frameclock \<Rightarrow> frameclock" where
  "mark_dirty c = c\<lparr>fc_dirty := True\<rparr>"

text \<open>\<open>duration_cast\<close> to milliseconds truncates toward zero.\<close>

definition to_ms :: "int \<Rightarrow> int" where
  "to_ms ns = (if ns < 0 then - (- ns div 1000000) else ns div 1000000)"

definition delay_ms :: "frameclock \<Rightarrow> int \<Rightarrow> int" where
  "delay_ms c now =
     (if \<not> fc_dirty c then -1
      else (case fc_last c of
        None \<Rightarrow> 0
      | Some l \<Rightarrow>
          (let elapsed = to_ms (now - l) in
           if elapsed \<ge> fc_min_interval c then 0 else fc_min_interval c - elapsed)))"

definition note_render :: "frameclock \<Rightarrow> int \<Rightarrow> frameclock" where
  "note_render c now = c\<lparr>fc_dirty := False, fc_last := Some now\<rparr>"

definition clock_reset :: "frameclock \<Rightarrow> frameclock" where
  "clock_reset c = c\<lparr>fc_dirty := False, fc_last := None\<rparr>"

section \<open>Invariant and order\<close>

definition q_ok :: "outqueue \<Rightarrow> bool" where
  "q_ok q \<longleftrightarrow> q_off q \<le> length (q_buf q) \<and> q_size q \<le> q_ceiling q"

definition pending :: "outqueue \<Rightarrow> bytes" where
  "pending q = drop (q_off q) (q_buf q)"

lemma length_pending [simp]: "length (pending q) = q_size q"
  by (simp add: pending_def q_size_def)

lemma release_buffer_simps [simp]:
  "q_buf (release_buffer q) = []" "q_off (release_buffer q) = 0"
  "q_ceiling (release_buffer q) = q_ceiling q" "q_overflow (release_buffer q) = q_overflow q"
  by (simp_all add: release_buffer_def)

lemma q_compact_simps [simp]:
  "pending (q_compact q) = pending q" "q_size (q_compact q) = q_size q"
  "q_ceiling (q_compact q) = q_ceiling q" "q_overflow (q_compact q) = q_overflow q"
  by (auto simp: q_compact_def pending_def q_size_def)

lemma push_ok [inv_intros]: "q_ok q \<Longrightarrow> q_ok (push q bs)"
  by (auto simp: q_ok_def push_def Let_def q_size_def)

lemma push_fits:
  "q_ok q \<Longrightarrow> q_size q + length bs \<le> q_ceiling q \<Longrightarrow>
     pending (push q bs) = pending q @ bs \<and> q_overflow (push q bs) = q_overflow q"
  by (auto simp: q_ok_def push_def Let_def q_size_def pending_def)

lemma push_rejected:
  "q_ok q \<Longrightarrow> q_size q + length bs > q_ceiling q \<Longrightarrow> pending (push q bs) = []
     \<and> severity (q_overflow (push q bs)) = max (severity (q_overflow q)) (if q_off q > 0 then 2 else 1)"
  by (cases "q_overflow q") (auto simp: push_def Let_def pending_def q_ok_def)

lemma push_severity: "severity (q_overflow q) \<le> severity (q_overflow (push q bs))"
  by (auto simp: push_def Let_def)

lemma flush_loop_spec:
  assumes "flush_loop q rs = (q', w, e)" "q_ok q" "honest_sends (q_size q) rs"
  shows "w @ pending q' = pending q \<and> q_ok q' \<and> q_overflow q' = q_overflow q
    \<and> q_ceiling q' = q_ceiling q \<and> q_buf q' = q_buf q \<and> (e = Drained \<longleftrightarrow> pending q' = [])
    \<and> q_off q' = q_off q + length w"
  using assms
proof (induction rs arbitrary: q w)
  case Nil
  then show ?case by (auto simp: wants_write_def q_ok_def pending_def split: if_splits)
next
  case (Cons r rs)
  consider "\<not> wants_write q \<or> r = Sent 0 \<or> r = SendAgain \<or> r = SendError"
    | "wants_write q" "r = SendIntr" | n where "wants_write q" "r = Sent n" "n > 0"
    by (metis send_result.exhaust gr_zeroI)
  then show ?case
  proof cases
    case (3 n)
    note r = 3(2,3,1)
    let ?q = "q\<lparr>q_off := q_off q + n\<rparr>"
    obtain w1 where w1: "flush_loop ?q rs = (q', w1, e)" "w = take n (pending q) @ w1"
      using Cons.prems(1) r by (auto simp: pending_def split: prod.splits)
    have n: "n \<le> q_size q" "pending ?q = drop n (pending q)"
      using Cons.prems(3) r by (simp_all add: pending_def add.commute)
    have "q_ok ?q" "honest_sends (q_size ?q) rs"
      using Cons.prems(2,3) r n by (auto simp: q_ok_def q_size_def)
    from Cons.IH[OF w1(1) this] show ?thesis using w1(2) n by (simp add: min_def)
  next
    case 2
    then show ?thesis using Cons.prems(1,3) by (intro Cons.IH Cons.prems(2)) simp_all
  next
    case 1
    then have "q' = q" "w = []" "e = (if wants_write q then if r = SendAgain then Blocked else Broken else Drained)"
      using Cons.prems(1) by (auto split: if_splits)
    then show ?thesis using Cons.prems(2) by (auto simp: wants_write_def q_ok_def pending_def)
  qed
qed

lemma flush_spec:
  assumes "flush q rs = (q', w, b)" "q_ok q" "honest_sends (q_size q) rs"
  shows "w @ pending q' = pending q \<and> q_ok q' \<and> q_overflow q' = q_overflow q \<and> q_ceiling q' = q_ceiling q"
proof -
  obtain q1 w1 e where l: "flush_loop q rs = (q1, w1, e)" by (metis prod_cases3)
  note sp = flush_loop_spec[OF l assms(2,3)]
  have c: "q_ok (q_compact q1)" using sp by (auto simp: q_ok_def q_compact_def q_size_def)
  show ?thesis using assms(1) sp c by (cases e) (auto simp: flush_def l)
qed

section \<open>Runs of a queue\<close>

text \<open>\<open>q_trace q a w\<close>: after some sequence of operations the queue is \<open>q\<close>, it has accepted
  the bytes \<open>a\<close> (less what a rejection threw away) and the peer has received \<open>w\<close>.\<close>

inductive q_trace :: "outqueue \<Rightarrow> bytes \<Rightarrow> bytes \<Rightarrow> bool" where
  tr_init: "q_trace (outqueue_init c) [] []"
| tr_push: "q_trace q a w \<Longrightarrow> q_size q + length bs \<le> q_ceiling q \<Longrightarrow> q_trace (push q bs) (a @ bs) w"
| tr_reject: "q_trace q a w \<Longrightarrow> q_size q + length bs > q_ceiling q \<Longrightarrow> q_trace (push q bs) w w"
| tr_flush: "q_trace q a w \<Longrightarrow> honest_sends (q_size q) rs \<Longrightarrow> flush q rs = (q', w', b) \<Longrightarrow>
    q_trace q' a (w @ w')"
| tr_take: "q_trace q a w \<Longrightarrow> q_trace (fst (take_overflow q)) a w"

lemma take_overflow_simps [simp]:
  "pending (fst (take_overflow q)) = pending q" "q_size (fst (take_overflow q)) = q_size q"
  "q_ok (fst (take_overflow q)) = q_ok q"
  by (simp_all add: take_overflow_def pending_def q_size_def q_ok_def)

lemma q_trace_inv: "q_trace q a w \<Longrightarrow> q_ok q \<and> w @ pending q = a"
proof (induction rule: q_trace.induct)
  case (tr_init c)
  then show ?case by (simp add: outqueue_init_def q_ok_def pending_def q_size_def)
next
  case (tr_flush q a w rs q' w' b)
  then show ?case using flush_spec[of q rs q' w' b] by auto
qed (simp_all add: push_ok push_fits push_rejected)

section \<open>Properties\<close>

text \<open>
  The queue neither loses, duplicates nor reorders bytes: in every run, whatever
  \<open>send\<close> answers, the bytes on the wire followed by the bytes still queued are
  exactly the bytes accepted, and what is queued never exceeds the ceiling.
\<close>

theorem outqueue_fifo:
  assumes "q_trace q accepted wire"
  shows "wire @ pending q = accepted \<and> q_size q \<le> q_ceiling q"
  using q_trace_inv[OF assms] by (simp add: q_ok_def)

theorem outqueue_fifo_witness:
  "[1, 2] @ pending (fst (flush (push (outqueue_init 8) [1, 2, 3]) [Sent 1, SendIntr, Sent 1, SendAgain]))
     = [1, 2, 3 :: byte]"
proof -
  let ?q = "push (outqueue_init 8) [1, 2, 3]"
  have t: "q_trace ?q ([] @ [1, 2, 3]) []"
    by (rule tr_push[OF tr_init]) (simp add: outqueue_init_def q_size_def)
  obtain q' b where f: "flush ?q [Sent 1, SendIntr, Sent 1, SendAgain] = (q', [1, 2], b)"
    by (auto simp: flush_def push_def outqueue_init_def q_size_def wants_write_def)
  from tr_flush[OF t _ f] have "q_trace q' [1, 2, 3] [1, 2]"
    by (simp add: push_def outqueue_init_def q_size_def)
  from outqueue_fifo[OF this] f show ?thesis by simp
qed

text \<open>
  The severity of an overflow only grows until it is read: no sequence of pushes
  and flushes lowers it, a rejected push raises it to at least \<open>Clean\<close> (to \<open>Dirty\<close>
  when part of the buffer had been sent), and reading it returns it and resets it.
\<close>

theorem overflow_severity:
  assumes "q_ok q" and "honest_sends (q_size q) rs"
  shows "severity (q_overflow q) \<le> severity (q_overflow (push q bs))
    \<and> q_overflow (fst (flush q rs)) = q_overflow q
    \<and> (q_size q + length bs > q_ceiling q \<longrightarrow>
        severity (q_overflow (push q bs)) = max (severity (q_overflow q)) (if q_off q > 0 then 2 else 1))
    \<and> (q_size q + length bs \<le> q_ceiling q \<longrightarrow> q_overflow (push q bs) = q_overflow q)
    \<and> take_overflow (push q bs) = ((push q bs)\<lparr>q_overflow := OvNone\<rparr>, q_overflow (push q bs))"
proof -
  obtain q' w b where f: "flush q rs = (q', w, b)" by (metis prod_cases3)
  show ?thesis using flush_spec[OF f assms] push_severity push_rejected[OF assms(1)] push_fits[OF assms(1)]
    by (simp add: f take_overflow_def)
qed

theorem overflow_severity_witness:
  "q_overflow (push (outqueue_init 2) [1, 2, 3]) = OvClean"
proof -
  have "q_ok (outqueue_init 2)" "honest_sends (q_size (outqueue_init 2)) []"
    by (simp_all add: outqueue_init_def q_ok_def q_size_def)
  from overflow_severity[OF this, of "[1, 2, 3]"] show ?thesis
    by (cases "q_overflow (push (outqueue_init 2) [1, 2, 3])") (simp_all add: outqueue_init_def q_size_def)
qed

text \<open>
  C40.  A defect of the overflow report: a flush that sends more than 64 KiB of a
  frame and then blocks compacts the buffer, which forgets that bytes have left.  The
  next overflow is then reported \<open>Clean\<close> although the peer holds a proper, non-empty
  prefix of a discarded frame.
\<close>

theorem overflow_clean_after_partial_send:
  assumes "2 ^ 16 < n" "n < length f" "length f \<le> c" "length g > c - (length f - n)"
  shows "\<exists>q. flush (push (outqueue_init c) f) [Sent n, SendAgain] = (q, take n f, Some True)
    \<and> snd (take_overflow (push q g)) = OvClean \<and> pending (push q g) = []"
proof -
  have "f \<noteq> []" using assms(2) by auto
  then show ?thesis using assms
    by (simp add: push_def outqueue_init_def q_size_def flush_def wants_write_def q_compact_def
        take_overflow_def pending_def)
qed

theorem overflow_clean_after_partial_send_witness:
  "\<exists>q. flush (push (outqueue_init 100000) (replicate 100000 7)) [Sent 70000, SendAgain]
       = (q, take 70000 (replicate 100000 7), Some True)
    \<and> snd (take_overflow (push q (replicate 80000 7))) = OvClean \<and> pending (push q (replicate 80000 7)) = []"
  by (rule overflow_clean_after_partial_send) simp_all

text \<open>
  The frame clock asks for the right delay: \<open>-1\<close> exactly when nothing is dirty,
  otherwise between \<open>0\<close> and the interval; sleeping for as long as it asks is enough to
  be allowed to render, and a render right after another one is refused until the
  interval has passed.
\<close>

theorem frame_clock_delay:
  assumes "0 \<le> fc_min_interval c" and "\<And>l. fc_last c = Some l \<Longrightarrow> l \<le> now"
  shows "(delay_ms c now = -1 \<longleftrightarrow> \<not> fc_dirty c)
    \<and> (fc_dirty c \<longrightarrow> 0 \<le> delay_ms c now \<and> delay_ms c now \<le> fc_min_interval c
        \<and> delay_ms c (now + 1000000 * delay_ms c now) = 0)
    \<and> (now \<le> t \<longrightarrow> delay_ms (mark_dirty (note_render c now)) t = 0 \<longrightarrow>
        now + 1000000 * fc_min_interval c \<le> t)"
proof -
  have e: "to_ms (now - l) = (now - l) div 1000000" "0 \<le> (now - l) div 1000000"
    "(now + 1000000 * k - l) div 1000000 = (now - l) div 1000000 + k"
    if "fc_last c = Some l" for l k
  proof -
    show "to_ms (now - l) = (now - l) div 1000000" "0 \<le> (now - l) div 1000000"
      using assms(2)[OF that] by (simp_all add: to_ms_def pos_imp_zdiv_nonneg_iff)
    have "(now + 1000000 * k - l) = (now - l) + k * 1000000" by simp
    then show "(now + 1000000 * k - l) div 1000000 = (now - l) div 1000000 + k"
      by (simp only: div_mult_self1)
  qed
  have pos: "to_ms x = x div 1000000" if "0 \<le> x" for x using that by (simp add: to_ms_def)
  have 3: "now + 1000000 * fc_min_interval c \<le> t"
    if "now \<le> t" "delay_ms (mark_dirty (note_render c now)) t = 0"
  proof -
    have "fc_min_interval c \<le> (t - now) div 1000000"
      using that pos[of "t - now"]
      by (simp add: delay_ms_def mark_dirty_def note_render_def Let_def split: if_splits)
    then show ?thesis by linarith
  qed
  show ?thesis
  proof (cases "fc_last c")
    case None
    then show ?thesis using assms(1) 3 by (simp add: delay_ms_def)
  next
    case (Some l)
    let ?e = "(now - l) div 1000000" and ?k = "fc_min_interval c - (now - l) div 1000000"
    have "to_ms (now + 1000000 * ?k - l) = fc_min_interval c" if "?e < fc_min_interval c"
    proof -
      have "0 \<le> now + 1000000 * ?k - l" using assms(2)[OF Some] mult_nonneg_nonneg[of 1000000 ?k] that by linarith
      then show ?thesis using e(3)[OF Some, of ?k] by (simp only: pos)
    qed
    then show ?thesis using assms(1) 3 Some e(1,2)[OF Some]
      by (auto simp: delay_ms_def Let_def)
  qed
qed

theorem frame_clock_delay_witness:
  "delay_ms (mark_dirty (clock_init 16)) 5 = 0 \<and> delay_ms (clock_init 16) 5 = -1"
  using frame_clock_delay[of "mark_dirty (clock_init 16)" 5] frame_clock_delay[of "clock_init 16" 5]
  by (simp add: mark_dirty_def clock_init_def delay_ms_def)

end
