(* ===== verification/Utf8.thy ===== *)
theory Utf8
  imports Prelude
begin

text \<open>
  \<open>src/common/utf8.cpp\<close>: the shared UTF-8 codec.  \<open>utf8_decode\<close> reads one scalar
  from untrusted bytes and returns the scalar with the number of bytes consumed,
  \<open>encode_utf8\<close> writes one, \<open>fold_to_ascii\<close> maps a text to ASCII for clients that do
  not announce UTF-8.  The locale \<open>codec\<close> is what a loop over a text relies on:
  every call makes progress, and what the encoder wrote is what the decoder reads.
\<close>

section \<open>The codec\<close>

text \<open>The lead byte: how many continuation bytes it announces and the bits it carries.\<close>

definition utf8_lead :: "byte \<Rightarrow> (nat \<times> char32) option" where
  "utf8_lead b0 =
     (if b0 AND 0xE0 = 0xC0 then Some (1, ucast (b0 AND 0x1F))
      else if b0 AND 0xF0 = 0xE0 then Some (2, ucast (b0 AND 0x0F))
      else if b0 AND 0xF8 = 0xF0 then Some (3, ucast (b0 AND 0x07))
      else None)"

text \<open>One continuation byte shifted into the accumulator.\<close>

definition utf8_push :: "char32 \<Rightarrow> byte \<Rightarrow> char32" where
  "utf8_push cp b = push_bit 6 cp OR ucast (b AND 0x3F)"

text \<open>The loop over the continuation bytes: \<open>Inl k\<close> is the early return of \<open>k\<close> bytes,
  the counter of iterations left stands for the bound \<open>k <= need\<close>.\<close>

fun utf8_cont :: "bytes \<Rightarrow> nat \<Rightarrow> nat \<Rightarrow> nat \<Rightarrow> char32 \<Rightarrow> nat + char32" where
  "utf8_cont s pos 0 k cp = Inr cp"
| "utf8_cont s pos (Suc left) k cp =
     (let bk = s ! (pos + k) in
      if bk AND 0xC0 \<noteq> 0x80 then Inl k
      else utf8_cont s pos left (Suc k) (utf8_push cp bk))"

definition is_surrogate :: "char32 \<Rightarrow> bool" where
  "is_surrogate cp \<longleftrightarrow> cp \<ge> 0xD800 \<and> cp \<le> 0xDFFF"

definition is_overlong :: "nat \<Rightarrow> char32 \<Rightarrow> bool" where
  "is_overlong need cp \<longleftrightarrow>
     (need = 1 \<and> cp < 0x80) \<or> (need = 2 \<and> cp < 0x800) \<or> (need = 3 \<and> cp < 0x10000)"

definition utf8_decode :: "bytes \<Rightarrow> nat \<Rightarrow> char32 \<times> nat" where
  "utf8_decode s pos =
     (if pos \<ge> length s then (0xFFFD, 1)
      else let b0 = s ! pos in
        if b0 < 0x80 then (ucast b0, 1)
        else (case utf8_lead b0 of
          None \<Rightarrow> (0xFFFD, 1)
        | Some (need, cp0) \<Rightarrow>
            if pos + need \<ge> length s + 0 \<and> pos + need > length s - 1
            then (0xFFFD, length s - pos)
            else (case utf8_cont s pos need 1 cp0 of
              Inl k \<Rightarrow> (0xFFFD, k)
            | Inr cp \<Rightarrow>
                (if is_surrogate cp \<or> cp > 0x10FFFF \<or> is_overlong need cp then 0xFFFD else cp,
                 need + 1))))"

definition encode_utf8 :: "char32 \<Rightarrow> bytes" where
  "encode_utf8 c =
     (let cp = (if (c \<ge> 0xD800 \<and> c \<le> 0xDFFF) \<or> c > 0x10FFFF then 0xFFFD else c) in
      if cp < 0x80 then [ucast cp]
      else if cp < 0x800 then
        [ucast (0xC0 OR drop_bit 6 cp), ucast (0x80 OR (cp AND 0x3F))]
      else if cp < 0x10000 then
        [ucast (0xE0 OR drop_bit 12 cp), ucast (0x80 OR (drop_bit 6 cp AND 0x3F)),
         ucast (0x80 OR (cp AND 0x3F))]
      else
        [ucast (0xF0 OR drop_bit 18 cp), ucast (0x80 OR (drop_bit 12 cp AND 0x3F)),
         ucast (0x80 OR (drop_bit 6 cp AND 0x3F)), ucast (0x80 OR (cp AND 0x3F))])"

text \<open>A Unicode scalar value: what both halves of the codec agree on.\<close>

definition is_scalar :: "char32 \<Rightarrow> bool" where
  "is_scalar cp \<longleftrightarrow> \<not> is_surrogate cp \<and> cp \<le> 0x10FFFF"

section \<open>Folding to ASCII\<close>

definition kFolds :: "(char32 \<times> bytes) list" where
  "kFolds = [
    (0xE0, str ''a''), (0xE2, str ''a''), (0xE4, str ''a''), (0xE1, str ''a''), (0xE3, str ''a''),
    (0xE5, str ''a''), (0xE7, str ''c''), (0xE8, str ''e''), (0xE9, str ''e''), (0xEA, str ''e''),
    (0xEB, str ''e''), (0xEC, str ''i''), (0xED, str ''i''), (0xEE, str ''i''), (0xEF, str ''i''),
    (0xF1, str ''n''), (0xF2, str ''o''), (0xF3, str ''o''), (0xF4, str ''o''), (0xF6, str ''o''),
    (0xF5, str ''o''), (0xF9, str ''u''), (0xFA, str ''u''), (0xFB, str ''u''), (0xFC, str ''u''),
    (0xFD, str ''y''), (0xFF, str ''y''), (0xE6, str ''ae''), (0x153, str ''oe''),
    (0xDF, str ''ss''), (0xC0, str ''A''), (0xC2, str ''A''), (0xC4, str ''A''), (0xC1, str ''A''),
    (0xC3, str ''A''), (0xC5, str ''A''), (0xC7, str ''C''), (0xC8, str ''E''), (0xC9, str ''E''),
    (0xCA, str ''E''), (0xCB, str ''E''), (0xCC, str ''I''), (0xCD, str ''I''), (0xCE, str ''I''),
    (0xCF, str ''I''), (0xD1, str ''N''), (0xD2, str ''O''), (0xD3, str ''O''), (0xD4, str ''O''),
    (0xD6, str ''O''), (0xD5, str ''O''), (0xD9, str ''U''), (0xDA, str ''U''), (0xDB, str ''U''),
    (0xDC, str ''U''), (0xDD, str ''Y''), (0xC6, str ''AE''), (0x152, str ''OE''),
    (0x2019, [0x27]), (0x2018, [0x27]), (0x201C, [0x22]), (0x201D, [0x22]), (0x2013, [0x2D]),
    (0x2014, [0x2D]), (0x2026, [0x2E, 0x2E, 0x2E]), (0xAB, [0x22]), (0xBB, [0x22])]"

definition fold_cp :: "char32 \<Rightarrow> bytes" where
  "fold_cp cp =
     (if cp < 0x80 then [ucast cp]
      else case map_of kFolds cp of Some to \<Rightarrow> to | None \<Rightarrow> str ''?'')"

section \<open>The decoder makes progress and yields scalars\<close>


lemma utf8_cont_bounds: "utf8_cont s pos left k cp = Inl j \<Longrightarrow> k \<le> j \<and> j < k + left"
  by (induction s pos left k cp rule: utf8_cont.induct) (auto simp: Let_def split: if_splits)

lemma utf8_lead_need: "utf8_lead b = Some (need, cp) \<Longrightarrow> 1 \<le> need \<and> need \<le> 3"
  by (auto simp: utf8_lead_def split: if_splits)

lemma utf8_decode_progress:
  "1 \<le> snd (utf8_decode s pos)"
  "pos < length s \<Longrightarrow> pos + snd (utf8_decode s pos) \<le> length s"
  by (auto simp: utf8_decode_def Let_def split: option.splits sum.splits
      dest!: utf8_cont_bounds utf8_lead_need)

lemma replacement_scalar [simp]: "is_scalar 0xFFFD"
  by (simp add: is_scalar_def is_surrogate_def)

lemma ascii_scalar: "b < 0x80 \<Longrightarrow> is_scalar (ucast (b :: byte))"
  unfolding is_scalar_def is_surrogate_def word_le_nat_alt word_less_nat_alt unat_ucast_up
  by simp

lemma utf8_decode_scalar: "is_scalar (fst (utf8_decode s pos))"
proof -
  have "is_scalar cp" if "\<not> (is_surrogate cp \<or> cp > 0x10FFFF \<or> is_overlong need cp)" for cp need
    using that by (auto simp: is_scalar_def)
  then show ?thesis
    by (auto simp: utf8_decode_def Let_def ascii_scalar split: option.splits sum.splits)
qed

text \<open>What the bytes of one sequence are, read as numbers.\<close>

lemma utf8_lead_unat:
  "utf8_lead b =
     (if unat b div 32 = 6 then Some (1, ucast (b AND 0x1F))
      else if unat b div 16 = 14 then Some (2, ucast (b AND 0x0F))
      else if unat b div 8 = 30 then Some (3, ucast (b AND 0x07)) else None)"
  by (simp only: utf8_lead_def mask_simps)

lemma utf8_cont_unfold:
  "utf8_cont s pos (Suc 0) k cp =
     (if unat (s ! (pos + k)) div 64 = 2
      then Inr (utf8_push cp (s ! (pos + k))) else Inl k)"
  "utf8_cont s pos 2 k cp =
     (if unat (s ! (pos + k)) div 64 = 2
      then utf8_cont s pos (Suc 0) (Suc k) (utf8_push cp (s ! (pos + k)))
      else Inl k)"
  "utf8_cont s pos 3 k cp =
     (if unat (s ! (pos + k)) div 64 = 2
      then utf8_cont s pos 2 (Suc k) (utf8_push cp (s ! (pos + k)))
      else Inl k)"
  by (simp_all add: numeral_2_eq_2 numeral_3_eq_3 Let_def mask_simps)

lemma unat_utf8_push:
  "unat c < 67108864 \<Longrightarrow> unat (utf8_push c b) = unat c * 64 + unat b mod 64"
  unfolding utf8_push_def by (rule unat_shift_or) simp

lemma unat_ucast_field:
  "unat (ucast (b AND 0x1F) :: char32) = unat (b :: byte) mod 32"
  "unat (ucast (b AND 0x0F) :: char32) = unat b mod 16"
  "unat (ucast (b AND 0x07) :: char32) = unat b mod 8"
  by (simp_all only: mask_simps)

text \<open>The value a sequence of two, three or four bytes accumulates.\<close>

lemma utf8_value:
  fixes b0 b1 b2 b3 :: byte
  shows "unat (utf8_push (ucast (b0 AND 0x1F)) b1) = unat b0 mod 32 * 64 + unat b1 mod 64"
    "unat (utf8_push (utf8_push (ucast (b0 AND 0x0F)) b1) b2)
       = (unat b0 mod 16 * 64 + unat b1 mod 64) * 64 + unat b2 mod 64"
    "unat (utf8_push (utf8_push (utf8_push (ucast (b0 AND 0x07)) b1) b2) b3)
       = ((unat b0 mod 8 * 64 + unat b1 mod 64) * 64 + unat b2 mod 64) * 64 + unat b3 mod 64"
proof -
  have bounds: "a * 64 + b < 512 * 64" if "a < 512" "b < 64" for a b :: nat using that by linarith
  have small: "x mod 32 < 512" "x mod 16 < 512" "x mod 8 < 512" "x mod 64 < 64" for x :: nat
    using less_trans[of "x mod 32" 32 512] less_trans[of "x mod 16" 16 512]
      less_trans[of "x mod 8" 8 512] by simp_all
  have seven: "x mod 8 * 64 + y mod 64 < 512" for x y :: nat
  proof -
    have "a * 64 + b < 512" if "a < 8" "b < 64" for a b :: nat using that by linarith
    then show ?thesis by simp
  qed
  have m: "x mod 32 < 67108864" "x mod 16 < 67108864" "x mod 8 < 67108864"
    "x mod 16 * 64 + y mod 64 < 67108864" "x mod 8 * 64 + y mod 64 < 67108864"
    "(x mod 8 * 64 + y mod 64) * 64 + z mod 64 < 67108864" for x y z :: nat
    by (rule less_trans[OF small(1)] less_trans[OF small(2)] less_trans[OF small(3)]
        less_trans[OF bounds[OF small(2) small(4)]] less_trans[OF bounds[OF small(3) small(4)]]
        less_trans[OF bounds[OF seven small(4)]], simp)+
  have p: "unat (utf8_push (ucast (b0 AND 0x0F)) b1) = unat b0 mod 16 * 64 + unat b1 mod 64"
    by (simp only: unat_utf8_push unat_ucast_field m)
  have q: "unat (utf8_push (ucast (b0 AND 0x07)) b1) = unat b0 mod 8 * 64 + unat b1 mod 64"
    by (simp only: unat_utf8_push unat_ucast_field m)
  have q2: "unat (utf8_push (utf8_push (ucast (b0 AND 0x07)) b1) b2)
      = (unat b0 mod 8 * 64 + unat b1 mod 64) * 64 + unat b2 mod 64"
    by (simp only: unat_utf8_push q m)
  show "unat (utf8_push (ucast (b0 AND 0x1F)) b1) = unat b0 mod 32 * 64 + unat b1 mod 64"
    by (simp only: unat_utf8_push unat_ucast_field m)
  show "unat (utf8_push (utf8_push (ucast (b0 AND 0x0F)) b1) b2)
       = (unat b0 mod 16 * 64 + unat b1 mod 64) * 64 + unat b2 mod 64"
    by (simp only: unat_utf8_push p m)
  show "unat (utf8_push (utf8_push (utf8_push (ucast (b0 AND 0x07)) b1) b2) b3)
       = ((unat b0 mod 8 * 64 + unat b1 mod 64) * 64 + unat b2 mod 64) * 64 + unat b3 mod 64"
    by (simp only: unat_utf8_push q2 m)
qed

text \<open>One lemma for the three lengths: a well-formed sequence of \<open>need\<close> continuation
  bytes whose value is a scalar of that length decodes to it.\<close>

lemma utf8_decode_seq:
  assumes lead: "utf8_lead (s ! pos) = Some (need, cp0)" and len: "pos + need < length s"
    and cont: "utf8_cont s pos need 1 cp0 = Inr c"
    and ok: "is_scalar c" "\<not> is_overlong need c"
  shows "utf8_decode s pos = (c, need + 1)"
proof -
  have "\<not> s ! pos < 0x80"
    using lead by (auto simp: utf8_lead_unat unat_orders split: if_splits)
  then show ?thesis using assms
    by (auto simp: utf8_decode_def Let_def is_scalar_def)
qed

lemma utf8_decode_seqD:
  assumes "utf8_decode s pos = (c, n)" "c \<noteq> 0xFFFD" "\<not> s ! pos < 0x80" "pos < length s"
  obtains need cp0 where "utf8_lead (s ! pos) = Some (need, cp0)" "pos + need < length s"
    "utf8_cont s pos need 1 cp0 = Inr c" "is_scalar c" "\<not> is_overlong need c" "n = need + 1"
  using assms
  by (auto simp: utf8_decode_def Let_def is_scalar_def split: option.splits sum.splits if_splits)

lemma encode_utf8_unat:
  assumes "is_scalar c"
  shows "map unat (encode_utf8 c) =
     (if unat c < 128 then [unat c]
      else if unat c < 2048 then [192 + unat c div 64, 128 + unat c mod 64]
      else if unat c < 65536 then
        [224 + unat c div 4096, 128 + unat c div 64 mod 64, 128 + unat c mod 64]
      else [240 + unat c div 262144, 128 + unat c div 4096 mod 64, 128 + unat c div 64 mod 64,
            128 + unat c mod 64])"
proof -
  have c: "(if (c \<ge> 0xD800 \<and> c \<le> 0xDFFF) \<or> c > 0x10FFFF then 0xFFFD else c) = c"
    using assms by (auto simp: is_scalar_def is_surrogate_def)
  have b: "unat c \<le> 1114111" using assms by (simp add: is_scalar_def unat_orders)
  have f: "unat (drop_bit 6 c) < 32" if "unat c < 2048" using that by (simp add: unat_drop_bit) 
  have g: "unat (drop_bit 12 c) < 16" if "unat c < 65536" using that by (simp add: unat_drop_bit) 
  have h: "unat (drop_bit 18 c) < 8" using b by (simp add: unat_drop_bit) 
  have k: "unat (x AND 0x3F) < 64" for x :: char32 by (simp add: unat_and_literals)
  show ?thesis unfolding encode_utf8_def Let_def c
    using b f g h k
    by (simp add: unat_orders unat_marker_byte unat_ucast_small unat_drop_bit unat_and_literals)
qed

lemma field_div_mod:
  assumes "q < m" shows "(k * m + q) div m = k" "(k * m + q) mod m = (q :: nat)"
  using assms by simp_all

lemma utf8_lead_form:
  "q < 32 \<Longrightarrow> unat b = 192 + q \<Longrightarrow> utf8_lead b = Some (1, ucast (b AND 0x1F)) \<and> unat b mod 32 = q"
  "q < 16 \<Longrightarrow> unat b = 224 + q \<Longrightarrow> utf8_lead b = Some (2, ucast (b AND 0x0F)) \<and> unat b mod 16 = q"
  "q < 8 \<Longrightarrow> unat b = 240 + q \<Longrightarrow> utf8_lead b = Some (3, ucast (b AND 0x07)) \<and> unat b mod 8 = q"
proof -
  show "utf8_lead b = Some (1, ucast (b AND 0x1F)) \<and> unat b mod 32 = q"
    if "q < 32" "unat b = 192 + q"
    using field_div_mod[OF that(1), of 6] that(2) by (simp add: utf8_lead_unat)
  show "utf8_lead b = Some (2, ucast (b AND 0x0F)) \<and> unat b mod 16 = q"
    if "q < 16" "unat b = 224 + q"
    using field_div_mod[OF that(1), of 14] field_div_mod[of q 32 7] that
    by (simp add: utf8_lead_unat)
  show "utf8_lead b = Some (3, ucast (b AND 0x07)) \<and> unat b mod 8 = q"
    if "q < 8" "unat b = 240 + q"
    using field_div_mod[OF that(1), of 30] field_div_mod[of q 16 15]
      field_div_mod[of "16 + q" 32 7] that
    by (simp add: utf8_lead_unat)
qed

lemma cont_form:
  "unat (b :: byte) = 128 + q mod 64 \<Longrightarrow> unat b div 64 = 2 \<and> unat b mod 64 = q mod 64"
  using field_div_mod[of "q mod 64" 64 2] by simp

lemma recombine:
  fixes n :: nat
  shows "(n div 4096 * 64 + n div 64 mod 64) * 64 + n mod 64 = n"
    "((n div 262144 * 64 + n div 4096 mod 64) * 64 + n div 64 mod 64) * 64 + n mod 64 = n"
proof -
  have d: "n div 4096 = n div 64 div 64" "n div 262144 = n div 4096 div 64"
    by (simp_all add: div_mult2_eq[symmetric])
  show r: "(n div 4096 * 64 + n div 64 mod 64) * 64 + n mod 64 = n"
    by (simp only: d(1) div_mult_mod_eq)
  show "((n div 262144 * 64 + n div 4096 mod 64) * 64 + n div 64 mod 64) * 64 + n mod 64 = n"
    by (simp only: d(2) div_mult_mod_eq r)
qed

lemma nth_after:
  "(pre @ xs) ! length pre = xs ! 0" "(pre @ xs) ! (length pre + k) = xs ! k"
  "(pre @ xs) ! Suc (length pre) = xs ! 1" "(pre @ xs) ! Suc (Suc (length pre)) = xs ! 2"
  "(pre @ xs) ! Suc (Suc (Suc (length pre))) = xs ! 3"
  by (simp_all add: nth_append numeral_2_eq_2 numeral_3_eq_3)

lemma decode_encode_1:
  assumes sc: "is_scalar c" and rng: "unat c < 128"
  shows "utf8_decode (pre @ encode_utf8 c @ rest) (length pre) = (c, length (encode_utf8 c))"
proof -
  have u: "unat (ucast c :: byte) = unat c" using rng by (simp add: unat_ucast_small)
  then have "encode_utf8 c = [ucast c]"
    using encode_utf8_unat[OF sc] rng by (cases "encode_utf8 c") (auto simp: word_unat_eq_iff)
  moreover have "ucast (ucast c :: byte) = c"
    by (rule word_eq_unatI) (simp only: unat_ucast_up u)
  ultimately show ?thesis using rng by (simp add: utf8_decode_def Let_def unat_orders u)
qed

lemma decode_encode_2:
  assumes sc: "is_scalar c" and rng: "128 \<le> unat c" "unat c < 2048"
  shows "utf8_decode (pre @ encode_utf8 c @ rest) (length pre) = (c, length (encode_utf8 c))"
proof -
  have "map unat (encode_utf8 c) = [192 + unat c div 64, 128 + unat c mod 64]"
    using encode_utf8_unat[OF sc] rng by simp
  then obtain b0 b1 where e: "encode_utf8 c = [b0, b1]" and u0: "unat b0 = 192 + unat c div 64"
    and u1: "unat b1 = 128 + unat c mod 64"
    by auto
  have "unat c div 64 < 32" using rng by (intro less_mult_imp_div_less) simp
  note l = utf8_lead_form(1)[OF this u0] and c1 = cont_form[OF u1]
  have "utf8_push (ucast (b0 AND 0x1F)) b1 = c"
    by (rule word_eq_unatI) (simp only: utf8_value l c1, simp)
  then have "utf8_decode (pre @ encode_utf8 c @ rest) (length pre) = (c, 1 + 1)"
    using sc rng l c1
    by (intro utf8_decode_seq)
      (auto simp: e nth_after utf8_cont_unfold is_overlong_def unat_orders simp del: utf8_cont.simps)
  then show ?thesis by (simp add: e)
qed

lemma decode_encode_3:
  assumes sc: "is_scalar c" and rng: "2048 \<le> unat c" "unat c < 65536"
  shows "utf8_decode (pre @ encode_utf8 c @ rest) (length pre) = (c, length (encode_utf8 c))"
proof -
  have "map unat (encode_utf8 c) =
      [224 + unat c div 4096, 128 + unat c div 64 mod 64, 128 + unat c mod 64]"
    using encode_utf8_unat[OF sc] rng by simp
  then obtain b0 b1 b2 where e: "encode_utf8 c = [b0, b1, b2]"
    and u0: "unat b0 = 224 + unat c div 4096" and u1: "unat b1 = 128 + unat c div 64 mod 64"
    and u2: "unat b2 = 128 + unat c mod 64"
    by auto
  have "unat c div 4096 < 16" using rng by (intro less_mult_imp_div_less) simp
  note l = utf8_lead_form(2)[OF this u0] and c1 = cont_form[OF u1] and c2 = cont_form[OF u2]
  have "utf8_push (utf8_push (ucast (b0 AND 0x0F)) b1) b2 = c"
    by (intro word_eq_unatI) (simp only: utf8_value l c1 c2 recombine)
  then have "utf8_decode (pre @ encode_utf8 c @ rest) (length pre) = (c, 2 + 1)"
    using sc rng l c1 c2
    by (intro utf8_decode_seq)
      (auto simp: e nth_after utf8_cont_unfold is_overlong_def unat_orders simp del: utf8_cont.simps)
  then show ?thesis by (simp add: e)
qed

lemma decode_encode_4:
  assumes sc: "is_scalar c" and rng: "65536 \<le> unat c"
  shows "utf8_decode (pre @ encode_utf8 c @ rest) (length pre) = (c, length (encode_utf8 c))"
proof -
  have "map unat (encode_utf8 c) =
      [240 + unat c div 262144, 128 + unat c div 4096 mod 64, 128 + unat c div 64 mod 64,
       128 + unat c mod 64]"
    using encode_utf8_unat[OF sc] rng by simp
  then obtain b0 b1 b2 b3 where e: "encode_utf8 c = [b0, b1, b2, b3]"
    and u0: "unat b0 = 240 + unat c div 262144" and u1: "unat b1 = 128 + unat c div 4096 mod 64"
    and u2: "unat b2 = 128 + unat c div 64 mod 64" and u3: "unat b3 = 128 + unat c mod 64"
    by auto
  have "unat c \<le> 1114111" using sc by (simp add: is_scalar_def unat_orders)
  then have "unat c div 262144 < 8" by (intro less_mult_imp_div_less) simp
  note l = utf8_lead_form(3)[OF this u0] and c1 = cont_form[OF u1] and c2 = cont_form[OF u2]
    and c3 = cont_form[OF u3]
  have "utf8_push (utf8_push (utf8_push (ucast (b0 AND 0x07)) b1) b2) b3 = c"
    by (intro word_eq_unatI) (simp only: utf8_value l c1 c2 c3 recombine)
  then have "utf8_decode (pre @ encode_utf8 c @ rest) (length pre) = (c, 3 + 1)"
    using sc rng l c1 c2 c3
    by (intro utf8_decode_seq)
      (auto simp: e nth_after utf8_cont_unfold is_overlong_def unat_orders simp del: utf8_cont.simps)
  then show ?thesis by (simp add: e)
qed

lemma utf8_decode_encode:
  assumes "is_scalar c"
  shows "utf8_decode (pre @ encode_utf8 c @ rest) (length pre) = (c, length (encode_utf8 c))"
  using assms decode_encode_1 decode_encode_2 decode_encode_3 decode_encode_4
  by (metis not_less)

lemma utf8_contD:
  "utf8_cont s pos (Suc 0) k cp = Inr c \<Longrightarrow>
     unat (s ! (pos + k)) div 64 = 2 \<and> c = utf8_push cp (s ! (pos + k))"
  "utf8_cont s pos 2 k cp = Inr c \<Longrightarrow>
     unat (s ! (pos + k)) div 64 = 2 \<and> unat (s ! (pos + Suc k)) div 64 = 2 \<and>
     c = utf8_push (utf8_push cp (s ! (pos + k))) (s ! (pos + Suc k))"
  "utf8_cont s pos 3 k cp = Inr c \<Longrightarrow>
     unat (s ! (pos + k)) div 64 = 2 \<and> unat (s ! (pos + Suc k)) div 64 = 2 \<and>
     unat (s ! (pos + Suc (Suc k))) div 64 = 2 \<and>
     c = utf8_push (utf8_push (utf8_push cp (s ! (pos + k))) (s ! (pos + Suc k)))
           (s ! (pos + Suc (Suc k)))"
  by (simp_all only: utf8_cont_unfold split: if_splits) (simp_all add: utf8_cont_unfold)

lemma take_drop_nths:
  "pos + 1 < length s \<Longrightarrow> take 2 (drop pos s) = [s ! pos, s ! (pos + 1)]"
  "pos + 2 < length s \<Longrightarrow> take 3 (drop pos s) = [s ! pos, s ! (pos + 1), s ! (pos + 2)]"
  "pos + 3 < length s \<Longrightarrow>
     take 4 (drop pos s) = [s ! pos, s ! (pos + 1), s ! (pos + 2), s ! (pos + 3)]"
  by (simp_all add: list_eq_iff_nth_eq less_Suc_eq numeral_eq_Suc)

lemma map_unat_inject: "map unat xs = map unat ys \<Longrightarrow> xs = ys"
  by (rule map_injective) (auto simp: inj_def word_unat_eq_iff)

lemma bytes_of_value:
  fixes b0 b1 b2 b3 :: nat
  assumes "b1 div 64 = 2" "b2 div 64 = 2" "b3 div 64 = 2"
  shows "v = b0 mod 32 * 64 + b1 mod 64 \<Longrightarrow> b0 div 32 = 6 \<Longrightarrow>
      [192 + v div 64, 128 + v mod 64] = [b0, b1]"
    and "v = (b0 mod 16 * 64 + b1 mod 64) * 64 + b2 mod 64 \<Longrightarrow> b0 div 16 = 14 \<Longrightarrow>
      [224 + v div 4096, 128 + v div 64 mod 64, 128 + v mod 64] = [b0, b1, b2]"
    and "v = ((b0 mod 8 * 64 + b1 mod 64) * 64 + b2 mod 64) * 64 + b3 mod 64 \<Longrightarrow> b0 div 8 = 30 \<Longrightarrow>
      [240 + v div 262144, 128 + v div 4096 mod 64, 128 + v div 64 mod 64, 128 + v mod 64]
        = [b0, b1, b2, b3]"
proof -
  have r: "x = x div m * m + x mod m" for x m :: nat by simp
  have b: "128 + b1 mod 64 = b1" "128 + b2 mod 64 = b2" "128 + b3 mod 64 = b3"
    using r[of b1 64] r[of b2 64] r[of b3 64] assms by simp_all
  have d: "(q * 64 + x mod 64) div 64 = q" "(q * 64 + x mod 64) mod 64 = x mod 64" for q x :: nat
    by (simp_all add: field_div_mod)
  have dd: "n div 4096 = n div 64 div 64" "n div 262144 = n div 64 div 64 div 64" for n :: nat
    by (simp_all add: div_mult2_eq[symmetric])
  show "v = b0 mod 32 * 64 + b1 mod 64 \<Longrightarrow> b0 div 32 = 6 \<Longrightarrow>
      [192 + v div 64, 128 + v mod 64] = [b0, b1]"
    using r[of b0 32] by (simp only: d b) simp
  show "v = (b0 mod 16 * 64 + b1 mod 64) * 64 + b2 mod 64 \<Longrightarrow> b0 div 16 = 14 \<Longrightarrow>
      [224 + v div 4096, 128 + v div 64 mod 64, 128 + v mod 64] = [b0, b1, b2]"
    using r[of b0 16] by (simp only: dd d b) simp
  show "v = ((b0 mod 8 * 64 + b1 mod 64) * 64 + b2 mod 64) * 64 + b3 mod 64 \<Longrightarrow> b0 div 8 = 30 \<Longrightarrow>
      [240 + v div 262144, 128 + v div 4096 mod 64, 128 + v div 64 mod 64, 128 + v mod 64]
        = [b0, b1, b2, b3]"
    using r[of b0 8] by (simp only: dd d b) simp
qed

lemma canonical_1:
  assumes n: "need = 1" and cp0: "cp0 = ucast (s ! pos AND 0x1F)" and hi: "unat (s ! pos) div 32 = 6"
    and len: "pos + need < length s" and cont: "utf8_cont s pos need 1 cp0 = Inr c"
    and ok: "is_scalar c" "\<not> is_overlong need c"
  shows "map unat (take (need + 1) (drop pos s)) = map unat (encode_utf8 c)"
proof -
  let ?b = "\<lambda>k. unat (s ! (pos + k))"
  note e = encode_utf8_unat[OF ok(1)]
  have c: "?b 1 div 64 = 2" "c = utf8_push cp0 (s ! (pos + 1))"
    using utf8_contD(1)[of s pos 1 cp0 c] cont n by simp_all
  have v: "unat c = unat (s ! pos) mod 32 * 64 + ?b 1 mod 64"
    by (simp only: c(2) cp0 utf8_value)
  have "x * 64 + y < 2048" if "x < 32" "y < 64" for x y :: nat
    using that by auto
  then have "unat c < 2048" by (simp add: v)
  then have e': "map unat (encode_utf8 c) = [192 + unat c div 64, 128 + unat c mod 64]"
    using e ok(2) n by (simp add: is_overlong_def unat_orders)
  have "take (need + 1) (drop pos s) = [s ! pos, s ! (pos + 1)]"
    using take_drop_nths(1)[of pos s] len by (simp add: n numeral_2_eq_2)
  then show ?thesis by (simp only: list.map e' bytes_of_value(1)[OF c(1) c(1) c(1) v hi])
qed

lemma canonical_2:
  assumes n: "need = 2" and cp0: "cp0 = ucast (s ! pos AND 0x0F)" and hi: "unat (s ! pos) div 16 = 14"
    and len: "pos + need < length s" and cont: "utf8_cont s pos need 1 cp0 = Inr c"
    and ok: "is_scalar c" "\<not> is_overlong need c"
  shows "map unat (take (need + 1) (drop pos s)) = map unat (encode_utf8 c)"
proof -
  let ?b = "\<lambda>k. unat (s ! (pos + k))"
  note e = encode_utf8_unat[OF ok(1)]
  have c: "?b 1 div 64 = 2" "?b 2 div 64 = 2"
      "c = utf8_push (utf8_push cp0 (s ! (pos + 1))) (s ! (pos + 2))"
    using utf8_contD(2)[of s pos 1 cp0 c] cont n by (simp_all add: numeral_2_eq_2)
  have v: "unat c = (unat (s ! pos) mod 16 * 64 + ?b 1 mod 64) * 64 + ?b 2 mod 64"
    by (simp only: c(3) cp0 utf8_value)
  have "(x * 64 + y) * 64 + z < 65536" if "x < 16" "y < 64" "z < 64" for x y z :: nat
    using that by auto
  then have "unat c < 65536" by (simp add: v)
  then have e': "map unat (encode_utf8 c) =
      [224 + unat c div 4096, 128 + unat c div 64 mod 64, 128 + unat c mod 64]"
    using e ok(2) n by (simp add: is_overlong_def unat_orders)
  have "take (need + 1) (drop pos s) = [s ! pos, s ! (pos + 1), s ! (pos + 2)]"
    using take_drop_nths(2)[of pos s] len by (simp add: n)
  then show ?thesis by (simp only: list.map e' bytes_of_value(2)[OF c(1) c(2) c(2) v hi])
qed

lemma canonical_3:
  assumes n: "need = 3" and cp0: "cp0 = ucast (s ! pos AND 0x07)" and hi: "unat (s ! pos) div 8 = 30"
    and len: "pos + need < length s" and cont: "utf8_cont s pos need 1 cp0 = Inr c"
    and ok: "is_scalar c" "\<not> is_overlong need c"
  shows "map unat (take (need + 1) (drop pos s)) = map unat (encode_utf8 c)"
proof -
  let ?b = "\<lambda>k. unat (s ! (pos + k))"
  note e = encode_utf8_unat[OF ok(1)]
  have c: "?b 1 div 64 = 2" "?b 2 div 64 = 2" "?b 3 div 64 = 2"
      "c = utf8_push (utf8_push (utf8_push cp0 (s ! (pos + 1))) (s ! (pos + 2))) (s ! (pos + 3))"
    using utf8_contD(3)[of s pos 1 cp0 c] cont n by (simp_all add: numeral_2_eq_2 numeral_3_eq_3)
  have v: "unat c = ((unat (s ! pos) mod 8 * 64 + ?b 1 mod 64) * 64 + ?b 2 mod 64) * 64 + ?b 3 mod 64"
    by (simp only: c(4) cp0 utf8_value)
  then have e': "map unat (encode_utf8 c) = [240 + unat c div 262144,
      128 + unat c div 4096 mod 64, 128 + unat c div 64 mod 64, 128 + unat c mod 64]"
    using e ok(2) n by (simp add: is_overlong_def unat_orders)
  have "take (need + 1) (drop pos s) = [s ! pos, s ! (pos + 1), s ! (pos + 2), s ! (pos + 3)]"
    using take_drop_nths(3)[of pos s] len by (simp add: n)
  then show ?thesis by (simp only: list.map e' bytes_of_value(3)[OF c(1) c(2) c(3) v hi])
qed

lemma utf8_decode_canonical:
  assumes "utf8_decode s pos = (c, n)" "c \<noteq> 0xFFFD" "pos < length s"
  shows "take n (drop pos s) = encode_utf8 c"
proof (cases "s ! pos < 0x80")
  case True
  then have c: "c = ucast (s ! pos)" "n = 1" using assms by (simp_all add: utf8_decode_def Let_def)
  have "unat c < 128" using True by (simp add: c(1) unat_ucast_up unat_orders)
  then have "map unat (encode_utf8 c) = [unat (s ! pos)]"
    using encode_utf8_unat[of c] ascii_scalar[OF True] by (simp add: c(1) unat_ucast_up)
  then have "map unat (encode_utf8 c) = map unat [s ! pos]" by simp
  then have "encode_utf8 c = [s ! pos]" by (rule map_unat_inject)
  then show ?thesis using assms(3) by (simp add: c(2) take_Suc_conv_app_nth[of 0, simplified] hd_drop_conv_nth take_Suc)
next
  case False
  obtain need cp0 where d: "utf8_lead (s ! pos) = Some (need, cp0)" "pos + need < length s"
    "utf8_cont s pos need 1 cp0 = Inr c" "is_scalar c" "\<not> is_overlong need c" and n: "n = need + 1"
    using utf8_decode_seqD[OF assms(1,2) False assms(3)] by blast
  have "map unat (take (need + 1) (drop pos s)) = map unat (encode_utf8 c)"
    using d(1) canonical_1[OF _ _ _ d(2-5)] canonical_2[OF _ _ _ d(2-5)] canonical_3[OF _ _ _ d(2-5)]
    by (auto simp: utf8_lead_unat split: if_splits)
  then show ?thesis unfolding n by (rule map_unat_inject)
qed

section \<open>Loops over a text\<close>

text \<open>
  What a loop \<open>while (i < s.size()) i += decode(s, i, cp)\<close> relies on.  The client
  lemmas are stated for any loop of that shape: it visits exactly the encoded
  characters, in order, and whatever every visit keeps, the loop keeps.
\<close>

locale codec =
  fixes enc :: "'c \<Rightarrow> bytes" and dec :: "bytes \<Rightarrow> nat \<Rightarrow> 'c \<times> nat" and valid :: "'c \<Rightarrow> bool"
  assumes dec_enc: "valid c \<Longrightarrow> dec (pre @ enc c @ rest) (length pre) = (c, length (enc c))"
    and progress: "1 \<le> snd (dec s i)"
    and within: "i < length s \<Longrightarrow> i + snd (dec s i) \<le> length s"
    and dec_valid: "valid (fst (dec s i))"
begin

lemma enc_nonempty: "valid c \<Longrightarrow> enc c \<noteq> []"
  using dec_enc[of c "[]" "[]"] progress[of "enc c" 0] by auto

lemma enc_prefix_free:
  assumes "valid c" "valid d" "enc c @ xs = enc d @ ys"
  shows "c = d \<and> xs = ys"
  using dec_enc[OF assms(1), of "[]" xs] dec_enc[OF assms(2), of "[]" ys] assms(3) by simp

lemma loop_visits:
  assumes loop: "\<And>i acc. loop i acc =
      (if i < length s then loop (i + snd (dec s i)) (f acc (fst (dec s i))) else acc)"
    and "s = pre @ concat (map enc cs)" "\<forall>c \<in> set cs. valid c"
  shows "loop (length pre) acc = foldl f acc cs"
  using assms(2,3)
proof (induction cs arbitrary: pre acc)
  case Nil
  then show ?case by (simp add: loop)
next
  case (Cons c cs)
  then have d: "dec s (length pre) = (c, length (enc c))" by (simp add: dec_enc)
  have "loop (length (pre @ enc c)) (f acc c) = foldl f (f acc c) cs"
    using Cons.prems by (intro Cons.IH) simp_all
  moreover have "length pre < length s" using Cons.prems enc_nonempty[of c] by simp
  ultimately show ?case by (subst loop) (simp add: d)
qed

lemma loop_keeps:
  assumes loop: "\<And>i acc. loop i acc =
      (if i < length s then loop (i + snd (dec s i)) (f acc (fst (dec s i))) else acc)"
    and step: "\<And>acc c. P acc \<Longrightarrow> valid c \<Longrightarrow> P (f acc c)"
  shows "P acc \<Longrightarrow> P (loop i acc)"
proof (induction "length s - i" arbitrary: i acc rule: less_induct)
  case less
  show ?case
  proof (cases "i < length s")
    case True
    then have "length s - (i + snd (dec s i)) < length s - i"
      using progress[of s i] within[OF True] by linarith
    then have "P (loop (i + snd (dec s i)) (f acc (fst (dec s i))))"
      using less.hyps step[OF less.prems dec_valid] by blast
    then show ?thesis using True by (subst loop) simp
  next
    case False
    then show ?thesis using less.prems by (subst loop) simp
  qed
qed

end

interpretation utf8: codec encode_utf8 utf8_decode is_scalar
  by unfold_locales
    (erule utf8_decode_encode, rule utf8_decode_progress, erule utf8_decode_progress, rule utf8_decode_scalar)

function fold_loop :: "bytes \<Rightarrow> nat \<Rightarrow> bytes \<Rightarrow> bytes" where
  "fold_loop s i out =
     (if i < length s
      then fold_loop s (i + snd (utf8_decode s i)) (out @ fold_cp (fst (utf8_decode s i)))
      else out)"
  by pat_completeness auto
termination
  using utf8_decode_progress
  by (relation "measure (\<lambda>(s, i, out). length s - i)") (auto simp: less_diff_conv2 Suc_le_eq)

declare fold_loop.simps [simp del]

definition fold_to_ascii :: "bytes \<Rightarrow> bytes" where
  "fold_to_ascii s = fold_loop s 0 []"

definition is_ascii :: "byte \<Rightarrow> bool" where
  "is_ascii b \<longleftrightarrow> b < 0x80"

lemma kFolds_ascii: "list_all (\<lambda>(cp, to). list_all is_ascii to) kFolds"
  by (simp add: kFolds_def str_def is_ascii_def)

lemma fold_cp_ascii: "list_all is_ascii (fold_cp cp)"
proof -
  have "unat (ucast cp :: byte) < 128" if "unat cp < 128" using that by (simp add: unat_ucast_small)
  moreover have "list_all is_ascii to" if "map_of kFolds cp = Some to" for to
    using kFolds_ascii map_of_SomeD[OF that] by (auto simp: list_all_iff)
  ultimately show ?thesis
    by (auto simp: fold_cp_def is_ascii_def unat_orders str_def split: option.splits)
qed

lemma fold_to_ascii_ascii: "list_all is_ascii (fold_to_ascii s)"
  unfolding fold_to_ascii_def
  by (rule utf8.loop_keeps[where f = "\<lambda>out cp. out @ fold_cp cp", OF fold_loop.simps])
    (simp_all add: fold_cp_ascii)

lemma fold_to_ascii_text:
  assumes "\<forall>c \<in> set cs. is_scalar c"
  shows "fold_to_ascii (concat (map encode_utf8 cs)) = concat (map fold_cp cs)"
proof -
  let ?s = "concat (map encode_utf8 cs)"
  have "fold_loop ?s (length ([] :: bytes)) [] = foldl (\<lambda>out cp. out @ fold_cp cp) [] cs"
    by (rule utf8.loop_visits[where loop = "fold_loop ?s" and f = "\<lambda>out cp. out @ fold_cp cp",
        OF fold_loop.simps]) (use assms in auto)
  moreover have "foldl (\<lambda>out cp. out @ fold_cp cp) acc cs = acc @ concat (map fold_cp cs)" for acc
    by (induction cs arbitrary: acc) auto
  ultimately show ?thesis by (simp add: fold_to_ascii_def)
qed

section \<open>Properties\<close>

text \<open>
  Round trip: wherever an encoded scalar stands in a text, the decoder reads
  exactly that scalar and consumes exactly the bytes the encoder wrote.
\<close>

theorem utf8_roundtrip:
  assumes "is_scalar c"
  shows "utf8_decode (pre @ encode_utf8 c @ rest) (length pre) = (c, length (encode_utf8 c))"
  using assms by (rule utf8_decode_encode)

theorem utf8_roundtrip_witness:
  "utf8_decode ([0x41] @ encode_utf8 0x20AC @ [0x42]) (length [0x41 :: byte])
     = (0x20AC, length (encode_utf8 0x20AC))"
  by (rule utf8_roundtrip) (simp add: is_scalar_def is_surrogate_def)

text \<open>
  The decoder is safe on untrusted bytes: it never stands still, never reads
  past the end, always yields a Unicode scalar, and when it yields anything but
  the replacement character the bytes it consumed are the one canonical encoding
  of that scalar (no overlong form, no surrogate passes).
\<close>

theorem utf8_decode_sound:
  assumes "pos < length s" and "utf8_decode s pos = (c, n)"
  shows "1 \<le> n \<and> pos + n \<le> length s \<and> is_scalar c
    \<and> (c = 0xFFFD \<or> take n (drop pos s) = encode_utf8 c)"
  using utf8_decode_progress(1)[of s pos] utf8_decode_progress(2)[OF assms(1)]
    utf8_decode_scalar[of s pos] utf8_decode_canonical[OF assms(2) _ assms(1)]
  by (auto simp: assms(2))

theorem utf8_decode_sound_witness:
  "utf8_decode [0xC3, 0xA9] 0 = (0xE9, 2) \<and> take 2 [0xC3, 0xA9] = encode_utf8 0xE9"
proof -
  have d: "utf8_decode [0xC3, 0xA9] 0 = (0xE9, 2)"
    by (simp add: utf8_decode_def utf8_lead_def utf8_push_def is_surrogate_def is_overlong_def)
  have l: "0 < length [0xC3, 0xA9 :: byte]" "(0xE9 :: char32) \<noteq> 0xFFFD" by simp_all
  show ?thesis using utf8_decode_sound[OF l(1) d] l(2) d by (simp only: drop_0 simp_thms)
qed

text \<open>
  \<open>fold_to_ascii\<close> works character by character: folding a well-formed text is
  the concatenation of the folds of its scalars, and for any input whatever the
  result is pure ASCII.
\<close>

theorem fold_to_ascii_spec:
  assumes "\<forall>c \<in> set cs. is_scalar c"
  shows "fold_to_ascii (concat (map encode_utf8 cs)) = concat (map fold_cp cs)
    \<and> list_all is_ascii (fold_to_ascii s)"
  using fold_to_ascii_text[OF assms] fold_to_ascii_ascii by blast

theorem fold_to_ascii_spec_witness:
  "fold_to_ascii (concat (map encode_utf8 [0xE9, 0x153])) = str ''eoe''"
proof -
  have "\<forall>c \<in> set [0xE9, 0x153]. is_scalar c" by (simp add: is_scalar_def is_surrogate_def)
  from fold_to_ascii_spec[OF this]
  show ?thesis by (simp add: fold_cp_def kFolds_def str_def)
qed

end
