(* ===== verification/Vt_Parser.thy ===== *)
theory Vt_Parser
  imports Utf8
begin

text \<open>
  \<open>src/vt/parser.cpp\<close> and \<open>sink.hpp\<close>: the state machine that reads what the guest
  program writes.  Every byte is one \<open>vt_step\<close>, which returns the new state and the
  calls made on the \<open>ParserSink\<close>, in order.  The locale \<open>sink\<close> is the contract between
  the machine and whoever receives its calls: what every single call keeps, any
  stream of guest bytes keeps.
\<close>

section \<open>State\<close>

record param =
  pm_value :: int
  pm_sub :: bool

datatype vt_state =
    Ground | Escape | EscapeIntermediate | CsiEntry | CsiParam | CsiIntermediate | CsiIgnore
  | DcsEntry | DcsParam | DcsIntermediate | DcsPassthrough | DcsIgnore | OscString | SosPmApcString

text \<open>The methods of \<open>ParserSink\<close>.\<close>

datatype sink_call =
    Print char32
  | Execute byte
  | Csi "param list" bytes byte
  | Esc bytes byte
  | Osc bytes
  | DcsStart "param list" bytes byte
  | DcsData bytes
  | DcsEnd

record parser =
  p_state :: vt_state
  p_params :: "param list"
  p_intermediates :: bytes
  p_osc :: bytes
  p_acc :: "32 word"
  p_need :: nat
  p_seen :: nat
  p_min :: "32 word"

definition parser_init :: parser where
  "parser_init = \<lparr>p_state = Ground, p_params = [], p_intermediates = [], p_osc = [],
     p_acc = 0, p_need = 0, p_seen = 0, p_min = 0\<rparr>"

definition kMaxParams :: nat where "kMaxParams = 32"
definition kMaxParamValue :: int where "kMaxParamValue = 65535"
definition kMaxIntermediates :: nat where "kMaxIntermediates = 4"
definition kMaxOsc :: nat where "kMaxOsc = 4096"

definition is_c0 :: "byte \<Rightarrow> bool" where
  "is_c0 b \<longleftrightarrow> b \<le> 0x17 \<or> b = 0x19 \<or> (b \<ge> 0x1C \<and> b \<le> 0x1F)"
definition is_intermediate :: "byte \<Rightarrow> bool" where
  "is_intermediate b \<longleftrightarrow> b \<ge> 0x20 \<and> b \<le> 0x2F"
definition is_final :: "byte \<Rightarrow> bool" where
  "is_final b \<longleftrightarrow> b \<ge> 0x40 \<and> b \<le> 0x7E"
definition is_digit :: "byte \<Rightarrow> bool" where
  "is_digit b \<longleftrightarrow> b \<ge> 0x30 \<and> b \<le> 0x39"
definition is_private :: "byte \<Rightarrow> bool" where
  "is_private b \<longleftrightarrow> b \<ge> 0x3C \<and> b \<le> 0x3F"

definition param_or :: "param list \<Rightarrow> nat \<Rightarrow> int \<Rightarrow> int" where
  "param_or p i fallback =
     (if i \<ge> length p then fallback
      else if pm_value (p ! i) < 0 then fallback else pm_value (p ! i))"

section \<open>Pieces of a sequence\<close>

definition clear_sequence :: "parser \<Rightarrow> parser" where
  "clear_sequence p = p\<lparr>p_params := [], p_intermediates := [], p_osc := []\<rparr>"

definition parser_reset :: "parser \<Rightarrow> parser" where
  "parser_reset p =
     (clear_sequence (p\<lparr>p_state := Ground\<rparr>))\<lparr>p_need := 0, p_seen := 0, p_acc := 0, p_min := 0\<rparr>"

text \<open>\<open>collect\<close>: the returned flag is false when the list is full.\<close>

definition collect :: "parser \<Rightarrow> byte \<Rightarrow> parser \<times> bool" where
  "collect p b =
     (if length (p_intermediates p) \<ge> kMaxIntermediates then (p, False)
      else (p\<lparr>p_intermediates := p_intermediates p @ [b]\<rparr>, True))"

definition next_param :: "parser \<Rightarrow> bool \<Rightarrow> parser" where
  "next_param p sub =
     (if length (p_params p) < kMaxParams
      then p\<lparr>p_params := p_params p @ [\<lparr>pm_value = -1, pm_sub = sub\<rparr>]\<rparr> else p)"

definition param_digit :: "int \<Rightarrow> int \<Rightarrow> int" where
  "param_digit v digit =
     (let v0 = (if v < 0 then 0 else v)
      in if v0 \<le> cdiv (kMaxParamValue - digit) 10 then v0 * 10 + digit else kMaxParamValue)"

definition push_param_digit :: "parser \<Rightarrow> byte \<Rightarrow> parser" where
  "push_param_digit p b =
     (let ps = (if p_params p = [] then [\<lparr>pm_value = -1, pm_sub = False\<rparr>] else p_params p);
          q = last ps
      in p\<lparr>p_params := butlast ps @ [q\<lparr>pm_value := param_digit (pm_value q) (int (unat b) - 48)\<rparr>]\<rparr>)"

text \<open>A separator: the first parameter exists, if only as absent, before the next one.\<close>

definition separator :: "parser \<Rightarrow> byte \<Rightarrow> parser" where
  "separator p b =
     next_param (if p_params p = [] then p\<lparr>p_params := [\<lparr>pm_value = -1, pm_sub = False\<rparr>]\<rparr> else p)
       (b = 0x3A)"

section \<open>Ground state\<close>

definition utf8_idle :: "parser \<Rightarrow> parser" where
  "utf8_idle p = p\<lparr>p_need := 0, p_seen := 0, p_acc := 0, p_min := 0\<rparr>"

definition flush_utf8 :: "parser \<Rightarrow> parser \<times> sink_call list" where
  "flush_utf8 p = (if p_need p = 0 then (p, []) else (utf8_idle p, [Print 0xFFFD]))"

text \<open>The second half of \<open>utf8_byte\<close>: no sequence is under way.\<close>

definition utf8_first :: "parser \<Rightarrow> byte \<Rightarrow> parser \<times> sink_call list" where
  "utf8_first p b =
     (if b \<ge> 0xC2 \<and> b \<le> 0xDF then
        (p\<lparr>p_acc := ucast (b AND 0x1F), p_need := 1, p_min := 0x80, p_seen := 0\<rparr>, [])
      else if b \<ge> 0xE0 \<and> b \<le> 0xEF then
        (p\<lparr>p_acc := ucast (b AND 0x0F), p_need := 2, p_min := 0x800, p_seen := 0\<rparr>, [])
      else if b \<ge> 0xF0 \<and> b \<le> 0xF4 then
        (p\<lparr>p_acc := ucast (b AND 0x07), p_need := 3, p_min := 0x10000, p_seen := 0\<rparr>, [])
      else (p, [Print 0xFFFD]))"

text \<open>\<open>ground_byte\<close> when no UTF-8 sequence is under way.\<close>

definition ground_idle :: "parser \<Rightarrow> byte \<Rightarrow> parser \<times> sink_call list" where
  "ground_idle p b =
     (if b = 0x1B then (clear_sequence (p\<lparr>p_state := Escape\<rparr>), [])
      else if b = 0x18 \<or> b = 0x1A then (p, [Execute b])
      else if is_c0 b then (p, [Execute b])
      else if b = 0x7F then (p, [])
      else if b < 0x80 then (p, [Print (ucast b)])
      else utf8_first p b)"

text \<open>The first half of \<open>utf8_byte\<close>: a sequence is under way.  A byte that does not
  continue it is handled afresh, after the replacement character.\<close>

definition utf8_byte :: "parser \<Rightarrow> byte \<Rightarrow> parser \<times> sink_call list" where
  "utf8_byte p b =
     (if b AND 0xC0 \<noteq> 0x80 then
        (let (p1, c1) = flush_utf8 p; (p2, c2) = ground_idle p1 b in (p2, c1 @ c2))
      else
        let acc = push_bit 6 (p_acc p) OR ucast (b AND 0x3F); seen = p_seen p + 1
        in if seen < p_need p then (p\<lparr>p_acc := acc, p_seen := seen\<rparr>, [])
           else if acc < p_min p \<or> (acc \<ge> 0xD800 \<and> acc \<le> 0xDFFF) \<or> acc > 0x10FFFF
           then (utf8_idle p, [Print 0xFFFD])
           else (utf8_idle p, [Print acc]))"

definition ground_byte :: "parser \<Rightarrow> byte \<Rightarrow> parser \<times> sink_call list" where
  "ground_byte p b = (if p_need p > 0 then utf8_byte p b else ground_idle p b)"

section \<open>One byte\<close>

abbreviation goto :: "vt_state \<Rightarrow> parser \<Rightarrow> parser" where
  "goto s p \<equiv> p\<lparr>p_state := s\<rparr>"

text \<open>Collect an intermediate byte and go on in one state, or in another when the list
  is full.\<close>

definition collect_or :: "vt_state \<Rightarrow> vt_state \<Rightarrow> parser \<Rightarrow> byte \<Rightarrow> parser" where
  "collect_or ok full p b = (let (p', fits) = collect p b in goto (if fits then ok else full) p')"

definition step_escape :: "parser \<Rightarrow> byte \<Rightarrow> parser \<times> sink_call list" where
  "step_escape p b =
     (if is_c0 b then (p, [Execute b])
      else if is_intermediate b then (goto EscapeIntermediate (fst (collect p b)), [])
      else if b = 0x7F then (p, [])
      else if b = 0x5B then (clear_sequence (goto CsiEntry p), [])
      else if b = 0x5D then ((goto OscString p)\<lparr>p_osc := []\<rparr>, [])
      else if b = 0x50 then (clear_sequence (goto DcsEntry p), [])
      else if b = 0x58 \<or> b = 0x5E \<or> b = 0x5F then (goto SosPmApcString p, [])
      else (goto Ground p, [Esc (p_intermediates p) b]))"

definition step_escape_intermediate :: "parser \<Rightarrow> byte \<Rightarrow> parser \<times> sink_call list" where
  "step_escape_intermediate p b =
     (if is_c0 b then (p, [Execute b])
      else if is_intermediate b then (collect_or EscapeIntermediate Ground p b, [])
      else if b = 0x7F then (p, [])
      else (goto Ground p, [Esc (p_intermediates p) b]))"

definition step_csi_entry :: "parser \<Rightarrow> byte \<Rightarrow> parser \<times> sink_call list" where
  "step_csi_entry p b =
     (if is_c0 b then (p, [Execute b])
      else if b = 0x7F then (p, [])
      else if is_final b then (goto Ground p, [Csi (p_params p) (p_intermediates p) b])
      else if is_intermediate b then (collect_or CsiIntermediate CsiIgnore p b, [])
      else if is_private b then (goto CsiParam (fst (collect p b)), [])
      else if is_digit b then (goto CsiParam (push_param_digit p b), [])
      else if b = 0x3B \<or> b = 0x3A then (goto CsiParam (separator p b), [])
      else (goto CsiIgnore p, []))"

definition step_csi_param :: "parser \<Rightarrow> byte \<Rightarrow> parser \<times> sink_call list" where
  "step_csi_param p b =
     (if is_c0 b then (p, [Execute b])
      else if b = 0x7F then (p, [])
      else if is_digit b then (push_param_digit p b, [])
      else if b = 0x3B \<or> b = 0x3A then (separator p b, [])
      else if is_final b then (goto Ground p, [Csi (p_params p) (p_intermediates p) b])
      else if is_intermediate b then (collect_or CsiIntermediate CsiIgnore p b, [])
      else (goto CsiIgnore p, []))"

definition step_csi_intermediate :: "parser \<Rightarrow> byte \<Rightarrow> parser \<times> sink_call list" where
  "step_csi_intermediate p b =
     (if is_c0 b then (p, [Execute b])
      else if b = 0x7F then (p, [])
      else if is_intermediate b then (collect_or CsiIntermediate CsiIgnore p b, [])
      else if is_final b then (goto Ground p, [Csi (p_params p) (p_intermediates p) b])
      else (goto CsiIgnore p, []))"

definition step_csi_ignore :: "parser \<Rightarrow> byte \<Rightarrow> parser \<times> sink_call list" where
  "step_csi_ignore p b =
     (if is_c0 b then (p, [Execute b]) else if is_final b then (goto Ground p, []) else (p, []))"

definition step_dcs_entry :: "parser \<Rightarrow> byte \<Rightarrow> parser \<times> sink_call list" where
  "step_dcs_entry p b =
     (if b = 0x7F \<or> is_c0 b then (p, [])
      else if is_final b then (goto DcsPassthrough p, [DcsStart (p_params p) (p_intermediates p) b])
      else if is_intermediate b then (collect_or DcsIntermediate DcsIgnore p b, [])
      else if is_private b then (goto DcsParam (fst (collect p b)), [])
      else if is_digit b then (goto DcsParam (push_param_digit p b), [])
      else if b = 0x3B \<or> b = 0x3A then (goto DcsParam (separator p b), [])
      else (goto DcsIgnore p, []))"

definition step_dcs_param :: "parser \<Rightarrow> byte \<Rightarrow> parser \<times> sink_call list" where
  "step_dcs_param p b =
     (if b = 0x7F \<or> is_c0 b then (p, [])
      else if is_digit b then (push_param_digit p b, [])
      else if b = 0x3B \<or> b = 0x3A then (separator p b, [])
      else if is_final b then (goto DcsPassthrough p, [DcsStart (p_params p) (p_intermediates p) b])
      else if is_intermediate b then (collect_or DcsIntermediate DcsIgnore p b, [])
      else (goto DcsIgnore p, []))"

definition step_dcs_intermediate :: "parser \<Rightarrow> byte \<Rightarrow> parser \<times> sink_call list" where
  "step_dcs_intermediate p b =
     (if b = 0x7F \<or> is_c0 b then (p, [])
      else if is_intermediate b then (collect_or DcsIntermediate DcsIgnore p b, [])
      else if is_final b then (goto DcsPassthrough p, [DcsStart (p_params p) (p_intermediates p) b])
      else (goto DcsIgnore p, []))"

definition step_osc :: "parser \<Rightarrow> byte \<Rightarrow> parser \<times> sink_call list" where
  "step_osc p b =
     (if b = 0x07 then (clear_sequence (goto Ground p), [Osc (p_osc p)])
      else if is_c0 b then (p, [])
      else if length (p_osc p) < kMaxOsc then (p\<lparr>p_osc := p_osc p @ [b]\<rparr>, [])
      else (p, []))"

definition vt_step :: "parser \<Rightarrow> byte \<Rightarrow> parser \<times> sink_call list" where
  "vt_step p b =
     (if (b = 0x18 \<or> b = 0x1A) \<and> p_state p \<noteq> Ground then
        (clear_sequence (goto Ground p),
         (if p_state p = DcsPassthrough then [DcsEnd] else []) @ [Execute b])
      else if b = 0x1B \<and> p_state p \<noteq> Ground then
        (clear_sequence (goto Escape p),
         (if p_state p = OscString then [Osc (p_osc p)] else [])
         @ (if p_state p = DcsPassthrough then [DcsEnd] else []))
      else (case p_state p of
        Ground \<Rightarrow>
          (let (p1, c1) = (if b = 0x1B then flush_utf8 p else (p, []));
               (p2, c2) = ground_byte p1 b in (p2, c1 @ c2))
      | Escape \<Rightarrow> step_escape p b
      | EscapeIntermediate \<Rightarrow> step_escape_intermediate p b
      | CsiEntry \<Rightarrow> step_csi_entry p b
      | CsiParam \<Rightarrow> step_csi_param p b
      | CsiIntermediate \<Rightarrow> step_csi_intermediate p b
      | CsiIgnore \<Rightarrow> step_csi_ignore p b
      | DcsEntry \<Rightarrow> step_dcs_entry p b
      | DcsParam \<Rightarrow> step_dcs_param p b
      | DcsIntermediate \<Rightarrow> step_dcs_intermediate p b
      | DcsPassthrough \<Rightarrow> if b = 0x7F then (p, []) else (p, [DcsData [b]])
      | DcsIgnore \<Rightarrow> (p, [])
      | OscString \<Rightarrow> step_osc p b
      | SosPmApcString \<Rightarrow> (p, [])))"

fun vt_feed :: "parser \<Rightarrow> bytes \<Rightarrow> parser \<times> sink_call list" where
  "vt_feed p [] = (p, [])"
| "vt_feed p (b # bs) =
     (let (p1, c1) = vt_step p b; (p2, c2) = vt_feed p1 bs in (p2, c1 @ c2))"

section \<open>Bounds\<close>

definition param_ok :: "param \<Rightarrow> bool" where
  "param_ok q \<longleftrightarrow> -1 \<le> pm_value q \<and> pm_value q \<le> kMaxParamValue"

definition seq_ok :: "parser \<Rightarrow> bool" where
  "seq_ok p \<longleftrightarrow> length (p_params p) \<le> kMaxParams \<and> list_all param_ok (p_params p)
     \<and> length (p_intermediates p) \<le> kMaxIntermediates \<and> length (p_osc p) \<le> kMaxOsc"

definition parser_ok :: "parser \<Rightarrow> bool" where
  "parser_ok p \<longleftrightarrow> seq_ok p \<and> (p_need p > 0 \<longrightarrow> p_state p = Ground)"

fun call_ok :: "sink_call \<Rightarrow> bool" where
  "call_ok (Print c) \<longleftrightarrow> is_scalar c"
| "call_ok (Execute b) \<longleftrightarrow> b < 0x20"
| "call_ok (Csi ps is f) \<longleftrightarrow>
     length ps \<le> kMaxParams \<and> list_all param_ok ps \<and> length is \<le> kMaxIntermediates \<and> is_final f"
| "call_ok (Esc is f) \<longleftrightarrow> length is \<le> kMaxIntermediates"
| "call_ok (Osc d) \<longleftrightarrow> length d \<le> kMaxOsc"
| "call_ok (DcsStart ps is f) \<longleftrightarrow>
     length ps \<le> kMaxParams \<and> list_all param_ok ps \<and> length is \<le> kMaxIntermediates \<and> is_final f"
| "call_ok (DcsData d) \<longleftrightarrow> length d = 1"
| "call_ok DcsEnd \<longleftrightarrow> True"

lemma seq_ok_updates [simp]:
  "seq_ok (p\<lparr>p_state := s\<rparr>) = seq_ok p" "seq_ok (p\<lparr>p_acc := a\<rparr>) = seq_ok p"
  "seq_ok (p\<lparr>p_need := n\<rparr>) = seq_ok p" "seq_ok (p\<lparr>p_seen := n\<rparr>) = seq_ok p"
  "seq_ok (p\<lparr>p_min := a\<rparr>) = seq_ok p" "seq_ok (clear_sequence p)" "seq_ok (utf8_idle p) = seq_ok p"
  "seq_ok p \<Longrightarrow> seq_ok (p\<lparr>p_osc := []\<rparr>)"
  by (simp_all add: seq_ok_def clear_sequence_def utf8_idle_def)

lemma need_updates [simp]:
  "p_need (clear_sequence p) = p_need p" "p_need (fst (collect p b)) = p_need p"
  "p_need (collect_or s t p b) = p_need p" "p_need (push_param_digit p b) = p_need p"
  "p_need (separator p b) = p_need p" "p_need (utf8_idle p) = 0" "p_state (utf8_idle p) = p_state p"
  "p_state (clear_sequence p) = p_state p"
  by (simp_all add: clear_sequence_def collect_def collect_or_def push_param_digit_def separator_def
      next_param_def utf8_idle_def Let_def)

lemma collect_seq_ok [simp]: "seq_ok p \<Longrightarrow> seq_ok (fst (collect p b))" "seq_ok p \<Longrightarrow> seq_ok (collect_or s t p b)"
  by (auto simp: seq_ok_def collect_def collect_or_def)

lemma param_digit_ok: "0 \<le> d \<Longrightarrow> d \<le> 9 \<Longrightarrow> v \<le> kMaxParamValue \<Longrightarrow>
    0 \<le> param_digit v d \<and> param_digit v d \<le> kMaxParamValue"
  by (auto simp: param_digit_def Let_def kMaxParamValue_def)

lemma param_ok_digit:
  "param_ok q \<Longrightarrow> 0 \<le> d \<Longrightarrow> d \<le> 9 \<Longrightarrow> param_ok (q\<lparr>pm_value := param_digit (pm_value q) d\<rparr>)"
  using param_digit_ok[of d "pm_value q"] by (simp add: param_ok_def)

lemma is_digit_unat: "is_digit b \<Longrightarrow> 48 \<le> unat b \<and> unat b \<le> 57"
  by (simp add: is_digit_def word_le_nat_alt)

lemma push_param_digit_seq_ok [simp]: "seq_ok p \<Longrightarrow> is_digit b \<Longrightarrow> seq_ok (push_param_digit p b)"
proof -
  assume p: "seq_ok p" and b: "is_digit b"
  let ?ps = "if p_params p = [] then [\<lparr>pm_value = -1, pm_sub = False\<rparr>] else p_params p"
  have l: "?ps \<noteq> []" "length ?ps \<le> kMaxParams" "list_all param_ok ?ps"
    using p by (auto simp: seq_ok_def kMaxParams_def param_ok_def kMaxParamValue_def)
  then have "param_ok (last ?ps)" "list_all param_ok (butlast ?ps)"
    by (auto simp: list_all_iff dest: in_set_butlastD)
  moreover have "0 \<le> int (unat b) - 48" "int (unat b) - 48 \<le> 9" using is_digit_unat[OF b] by linarith+
  ultimately have "param_ok ((last ?ps)\<lparr>pm_value := param_digit (pm_value (last ?ps)) (int (unat b) - 48)\<rparr>)"
    by (intro param_ok_digit)
  then show ?thesis using l p \<open>list_all param_ok (butlast ?ps)\<close>
    by (simp add: push_param_digit_def Let_def seq_ok_def)
qed

lemma separator_seq_ok [simp]: "seq_ok p \<Longrightarrow> seq_ok (separator p b)"
  by (auto simp: separator_def next_param_def seq_ok_def kMaxParams_def param_ok_def kMaxParamValue_def)

lemma c0_control: "is_c0 b \<Longrightarrow> b < 0x20"
  by (auto simp: is_c0_def word_le_nat_alt word_less_nat_alt)

lemma seq_ok_calls: "seq_ok p \<Longrightarrow> is_final b \<Longrightarrow> call_ok (Csi (p_params p) (p_intermediates p) b)"
  "seq_ok p \<Longrightarrow> is_final b \<Longrightarrow> call_ok (DcsStart (p_params p) (p_intermediates p) b)"
  "seq_ok p \<Longrightarrow> call_ok (Esc (p_intermediates p) c)" "seq_ok p \<Longrightarrow> call_ok (Osc (p_osc p))"
  by (simp_all add: seq_ok_def)

lemma step_osc_seq_ok: "seq_ok p \<Longrightarrow> seq_ok (fst (step_osc p b))"
  by (auto simp: step_osc_def seq_ok_def clear_sequence_def)

text \<open>Outside the ground state.\<close>

lemmas step_defs = step_escape_def step_escape_intermediate_def step_csi_entry_def step_csi_param_def
  step_csi_intermediate_def step_csi_ignore_def step_dcs_entry_def step_dcs_param_def
  step_dcs_intermediate_def

definition step_good :: "parser \<Rightarrow> parser \<times> sink_call list \<Rightarrow> bool" where
  "step_good p r \<longleftrightarrow> seq_ok (fst r) \<and> p_need (fst r) = p_need p \<and> list_all call_ok (snd r)"

lemma step_sequences_good:
  assumes "seq_ok p"
  shows "step_good p (step_escape p b)" "step_good p (step_escape_intermediate p b)"
    "step_good p (step_csi_entry p b)" "step_good p (step_csi_param p b)"
    "step_good p (step_csi_intermediate p b)" "step_good p (step_csi_ignore p b)"
    "step_good p (step_dcs_entry p b)" "step_good p (step_dcs_param p b)"
    "step_good p (step_dcs_intermediate p b)"
  using assms seq_ok_calls[OF assms] by (simp_all add: step_good_def step_defs c0_control)

lemma step_osc_good: "seq_ok p \<Longrightarrow> step_good p (step_osc p b)"
  using step_osc_seq_ok[of p b] by (auto simp: step_good_def step_osc_def seq_ok_def)


text \<open>The ground state, where UTF-8 is decoded.\<close>

definition ground_good :: "parser \<times> sink_call list \<Rightarrow> bool" where
  "ground_good r \<longleftrightarrow> parser_ok (fst r) \<and> list_all call_ok (snd r)"

lemma ascii_char_scalar: "b < 0x80 \<Longrightarrow> call_ok (Print (ucast (b :: byte)))"
  using ascii_scalar[of b] by simp

lemma ground_idle_good:
  "seq_ok p \<Longrightarrow> p_need p = 0 \<Longrightarrow> p_state p = Ground \<Longrightarrow> ground_good (ground_idle p b)"
  by (auto simp: ground_idle_def ground_good_def parser_ok_def utf8_first_def c0_control ascii_char_scalar
      simp del: call_ok.simps(1)) (auto simp: word_less_nat_alt)

lemma utf8_byte_good:
  assumes "seq_ok p" "p_state p = Ground" "p_need p > 0"
  shows "ground_good (utf8_byte p b)"
proof (cases "b AND 0xC0 = 0x80")
  case False
  have "ground_good (ground_idle (utf8_idle p) b)" using assms by (intro ground_idle_good) simp_all
  then show ?thesis using assms False
    by (auto simp: utf8_byte_def flush_utf8_def ground_good_def split: prod.splits)
next
  case True
  have "is_scalar c" if "\<not> (c < m \<or> (c \<ge> 0xD800 \<and> c \<le> 0xDFFF) \<or> c > 0x10FFFF)" for c m :: "32 word"
    using that by (auto simp: is_scalar_def is_surrogate_def)
  then show ?thesis using assms True
    by (simp add: utf8_byte_def ground_good_def parser_ok_def Let_def) blast
qed

lemma vt_step_good:
  assumes "parser_ok p"
  shows "ground_good (vt_step p b)"
proof -
  have s: "seq_ok p" "p_need p > 0 \<Longrightarrow> p_state p = Ground" using assms by (auto simp: parser_ok_def)
  have g: "ground_good (ground_byte q b)" if "seq_ok q" "p_state q = Ground" for q
    using utf8_byte_good[OF that] ground_idle_good[OF that(1) _ that(2)] by (simp add: ground_byte_def)
  have lift: "step_good p r \<Longrightarrow> p_state p \<noteq> Ground \<Longrightarrow> ground_good r" for r
    using s(2) by (auto simp: step_good_def ground_good_def parser_ok_def)
  show ?thesis
  proof (cases "p_state p")
    case Ground
    have f: "seq_ok (fst (flush_utf8 p))" "p_state (fst (flush_utf8 p)) = Ground"
      "list_all call_ok (snd (flush_utf8 p))"
      using s(1) Ground by (simp_all add: flush_utf8_def)
    then show ?thesis using Ground g[OF s(1) Ground] g[OF f(1,2)]
      by (auto simp: vt_step_def ground_good_def split: prod.splits)
  qed (use s seq_ok_calls(4)[OF s(1)] in \<open>auto simp: vt_step_def step_sequences_good[OF s(1)] step_osc_good[OF s(1)]
        intro!: lift\<close>, auto simp: ground_good_def parser_ok_def step_good_def)
qed


lemma vt_feed_good: "parser_ok p \<Longrightarrow> ground_good (vt_feed p bs)"
proof (induction bs arbitrary: p)
  case Nil
  then show ?case by (simp add: ground_good_def)
next
  case (Cons b bs)
  obtain p1 c1 where 1: "vt_step p b = (p1, c1)" by fastforce
  obtain p2 c2 where 2: "vt_feed p1 bs = (p2, c2)" by fastforce
  show ?case using vt_step_good[OF Cons.prems, of b] Cons.IH[of p1]
    by (simp add: ground_good_def 1 2)
qed

lemma parser_init_ok: "parser_ok parser_init"
  by (simp add: parser_ok_def seq_ok_def parser_init_def)

lemma vt_feed_append:
  "vt_feed p (xs @ ys) = (let (p1, c1) = vt_feed p xs; (p2, c2) = vt_feed p1 ys in (p2, c1 @ c2))"
  by (induction xs arbitrary: p) (auto simp: Let_def split: prod.splits)

section \<open>The contract with a sink\<close>

locale sink =
  fixes on_call :: "'s \<Rightarrow> sink_call \<Rightarrow> 's" and inv :: "'s \<Rightarrow> bool"
  assumes call_keeps: "inv s \<Longrightarrow> call_ok c \<Longrightarrow> inv (on_call s c)"
begin

lemma calls_keep: "inv s \<Longrightarrow> list_all call_ok cs \<Longrightarrow> inv (foldl on_call s cs)"
  by (induction cs arbitrary: s) (auto intro: call_keeps)

lemma feed_keeps:
  assumes "inv s" "parser_ok p"
  shows "inv (foldl on_call s (snd (vt_feed p bs)))"
  using calls_keep[OF assms(1)] vt_feed_good[OF assms(2), of bs] by (simp add: ground_good_def)

lemma feed_split:
  "foldl on_call s (snd (vt_feed p (xs @ ys)))
     = foldl on_call (foldl on_call s (snd (vt_feed p xs))) (snd (vt_feed (fst (vt_feed p xs)) ys))"
  by (simp add: vt_feed_append Let_def split: prod.splits)

end

section \<open>Text\<close>

definition printable :: "char32 \<Rightarrow> bool" where
  "printable c \<longleftrightarrow> is_scalar c \<and> 0x20 \<le> c \<and> c \<noteq> 0x7F"

definition at_ground :: "parser \<Rightarrow> bool" where
  "at_ground p \<longleftrightarrow> p_state p = Ground \<and> p_need p = 0 \<and> p_seen p = 0 \<and> p_acc p = 0 \<and> p_min p = 0"


definition is_cont :: "byte \<Rightarrow> bool" where
  "is_cont b \<longleftrightarrow> b AND 0xC0 = 0x80"

lemma encode_form_2:
  assumes "is_scalar c" "128 \<le> unat c" "unat c < 2048"
  obtains b0 b1 where "encode_utf8 c = [b0, b1]" "0xC2 \<le> b0" "b0 \<le> 0xDF" "is_cont b1"
    "utf8_push (ucast (b0 AND 0x1F)) b1 = c"
proof -
  have "map unat (encode_utf8 c) = [192 + unat c div 64, 128 + unat c mod 64]"
    using encode_utf8_unat[OF assms(1)] assms by simp
  then obtain b0 b1 where e: "encode_utf8 c = [b0, b1]" and u0: "unat b0 = 192 + unat c div 64"
    and u1: "unat b1 = 128 + unat c mod 64" by auto
  have lo: "2 \<le> unat c div 64" and hi: "unat c div 64 < 32"
    using assms div_le_mono[OF assms(2), of 64] less_mult_imp_div_less[of "unat c" 32 64] by simp_all
  note l = utf8_lead_form(1)[OF hi u0] and c1 = cont_form[OF u1]
  have "utf8_push (ucast (b0 AND 0x1F)) b1 = c"
    by (intro word_eq_unatI) (simp only: utf8_value l c1 div_mult_mod_eq)
  moreover have "0xC2 \<le> b0" "b0 \<le> 0xDF" using lo hi u0 by (simp_all add: word_le_nat_alt)
  moreover have "is_cont b1" using c1 by (simp add: is_cont_def high_mask_iff)
  ultimately show ?thesis using that e by blast
qed

lemma encode_form_3:
  assumes "is_scalar c" "2048 \<le> unat c" "unat c < 65536"
  obtains b0 b1 b2 where "encode_utf8 c = [b0, b1, b2]" "0xE0 \<le> b0" "b0 \<le> 0xEF" "is_cont b1" "is_cont b2"
    "utf8_push (utf8_push (ucast (b0 AND 0x0F)) b1) b2 = c"
proof -
  have "map unat (encode_utf8 c) = [224 + unat c div 4096, 128 + unat c div 64 mod 64, 128 + unat c mod 64]"
    using encode_utf8_unat[OF assms(1)] assms by simp
  then obtain b0 b1 b2 where e: "encode_utf8 c = [b0, b1, b2]" and u0: "unat b0 = 224 + unat c div 4096"
    and u1: "unat b1 = 128 + unat c div 64 mod 64" and u2: "unat b2 = 128 + unat c mod 64" by auto
  have hi: "unat c div 4096 < 16" using assms by (intro less_mult_imp_div_less) simp
  note l = utf8_lead_form(2)[OF hi u0] and c1 = cont_form[OF u1] and c2 = cont_form[OF u2]
  have "utf8_push (utf8_push (ucast (b0 AND 0x0F)) b1) b2 = c"
    by (intro word_eq_unatI) (simp only: utf8_value l c1 c2 recombine)
  moreover have "0xE0 \<le> b0" "b0 \<le> 0xEF" using hi u0 by (simp_all add: word_le_nat_alt)
  moreover have "is_cont b1" "is_cont b2" using c1 c2 by (simp_all add: is_cont_def high_mask_iff)
  ultimately show ?thesis using that e by blast
qed

lemma encode_form_4:
  assumes "is_scalar c" "65536 \<le> unat c"
  obtains b0 b1 b2 b3 where "encode_utf8 c = [b0, b1, b2, b3]" "0xF0 \<le> b0" "b0 \<le> 0xF4"
    "is_cont b1" "is_cont b2" "is_cont b3"
    "utf8_push (utf8_push (utf8_push (ucast (b0 AND 0x07)) b1) b2) b3 = c"
proof -
  have "map unat (encode_utf8 c) = [240 + unat c div 262144, 128 + unat c div 4096 mod 64,
      128 + unat c div 64 mod 64, 128 + unat c mod 64]"
    using encode_utf8_unat[OF assms(1)] assms by simp
  then obtain b0 b1 b2 b3 where e: "encode_utf8 c = [b0, b1, b2, b3]" and u0: "unat b0 = 240 + unat c div 262144"
    and u1: "unat b1 = 128 + unat c div 4096 mod 64" and u2: "unat b2 = 128 + unat c div 64 mod 64"
    and u3: "unat b3 = 128 + unat c mod 64" by auto
  have "unat c \<le> 1114111" using assms(1) by (simp add: is_scalar_def unat_orders)
  then have hi: "unat c div 262144 \<le> 4" using div_le_mono[of "unat c" 1114111 262144] by simp
  then have "unat c div 262144 < 8" by linarith
  note l = utf8_lead_form(3)[OF this u0] and c1 = cont_form[OF u1] and c2 = cont_form[OF u2] and c3 = cont_form[OF u3]
  have "utf8_push (utf8_push (utf8_push (ucast (b0 AND 0x07)) b1) b2) b3 = c"
    by (intro word_eq_unatI) (simp only: utf8_value l c1 c2 c3 recombine)
  moreover have "0xF0 \<le> b0" "b0 \<le> 0xF4" using hi u0 by (simp_all add: word_le_nat_alt)
  moreover have "is_cont b1" "is_cont b2" "is_cont b3" using c1 c2 c3 by (simp_all add: is_cont_def high_mask_iff)
  ultimately show ?thesis using that e by blast
qed


lemma high_bytes: "0x80 \<le> b \<Longrightarrow> b \<noteq> 0x1B \<and> b \<noteq> 0x18 \<and> b \<noteq> 0x1A \<and> \<not> is_c0 b \<and> b \<noteq> 0x7F \<and> \<not> b < 0x80"
  by (auto simp: is_c0_def word_le_nat_alt word_less_nat_alt)

lemma is_cont_high: "is_cont b \<Longrightarrow> 0x80 \<le> b"
  using times_div_less_eq_dividend[of 64 "unat b"] by (simp add: is_cont_def high_mask_iff word_le_nat_alt)

lemma vt_step_cont:
  assumes "p_state p = Ground" "p_need p > 0" "is_cont b"
  shows "vt_step p b = (let acc = utf8_push (p_acc p) b in
     if p_seen p + 1 < p_need p then (p\<lparr>p_acc := acc, p_seen := p_seen p + 1\<rparr>, [])
     else if acc < p_min p \<or> \<not> is_scalar acc then (utf8_idle p, [Print 0xFFFD])
     else (utf8_idle p, [Print acc]))"
proof -
  have b: "b AND 0xC0 = 0x80" "b \<noteq> 0x1B" using assms(3) high_bytes[OF is_cont_high] by (auto simp: is_cont_def)
  have sc: "(c \<ge> 0xD800 \<and> c \<le> 0xDFFF) \<or> c > 0x10FFFF \<longleftrightarrow> \<not> is_scalar c" for c
    by (auto simp: is_scalar_def is_surrogate_def)
  show ?thesis using assms(1,2) b
    by (simp add: vt_step_def ground_byte_def utf8_byte_def utf8_push_def[symmetric] sc Let_def)
qed

lemma vt_step_lead:
  assumes "p_state p = Ground" "p_need p = 0" "0x80 \<le> b"
  shows "vt_step p b = utf8_first p b"
  using assms(1,2) high_bytes[OF assms(3)] by (simp add: vt_step_def ground_byte_def ground_idle_def)

lemma vt_step_ascii:
  assumes "p_state p = Ground" "p_need p = 0" "0x20 \<le> b" "b < 0x7F"
  shows "vt_step p b = (p, [Print (ucast b)])"
proof -
  have "b \<noteq> 0x1B" "b \<noteq> 0x18" "b \<noteq> 0x1A" "\<not> is_c0 b" "b \<noteq> 0x7F" "b < 0x80"
    using assms(3,4) by (auto simp: is_c0_def word_le_nat_alt word_less_nat_alt)
  then show ?thesis using assms(1,2) by (simp add: vt_step_def ground_byte_def ground_idle_def)
qed

lemma utf8_first_cases:
  "0xC2 \<le> b \<Longrightarrow> b \<le> 0xDF \<Longrightarrow>
     utf8_first p b = (p\<lparr>p_acc := ucast (b AND 0x1F), p_need := 1, p_min := 0x80, p_seen := 0\<rparr>, [])"
  "0xE0 \<le> b \<Longrightarrow> b \<le> 0xEF \<Longrightarrow>
     utf8_first p b = (p\<lparr>p_acc := ucast (b AND 0x0F), p_need := 2, p_min := 0x800, p_seen := 0\<rparr>, [])"
  "0xF0 \<le> b \<Longrightarrow> b \<le> 0xF4 \<Longrightarrow>
     utf8_first p b = (p\<lparr>p_acc := ucast (b AND 0x07), p_need := 3, p_min := 0x10000, p_seen := 0\<rparr>, [])"
  by (auto simp: utf8_first_def word_le_nat_alt)

lemma utf8_idle_updates [simp]:
  "utf8_idle (p\<lparr>p_acc := a\<rparr>) = utf8_idle p" "utf8_idle (p\<lparr>p_need := n\<rparr>) = utf8_idle p"
  "utf8_idle (p\<lparr>p_seen := n\<rparr>) = utf8_idle p" "utf8_idle (p\<lparr>p_min := a\<rparr>) = utf8_idle p"
  "at_ground p \<Longrightarrow> utf8_idle p = p"
  by (simp_all add: utf8_idle_def at_ground_def)

lemma vt_feed_char:
  assumes "printable c" "at_ground p"
  shows "vt_feed p (encode_utf8 c) = (p, [Print c])"
proof -
  have sc: "is_scalar c" and g: "p_state p = Ground" "p_need p = 0" using assms by (auto simp: printable_def at_ground_def)
  have b80: "0x80 \<le> b" if "0xC2 \<le> b \<or> 0xE0 \<le> b \<or> 0xF0 \<le> b" for b :: byte
    using that by (auto simp: word_le_nat_alt)
  consider "unat c < 128" | "128 \<le> unat c" "unat c < 2048" | "2048 \<le> unat c" "unat c < 65536" | "65536 \<le> unat c"
    by linarith
  then show ?thesis
  proof cases
    case 1
    then obtain b where e: "encode_utf8 c = [b]" "unat b = unat c" using encode_utf8_unat[OF sc] by auto
    then have "0x20 \<le> b" "b < 0x7F" "ucast b = c" using assms(1) 1
      by (auto simp: printable_def unat_orders word_unat_eq_iff unat_ucast_up)
    then show ?thesis using g by (simp add: e vt_step_ascii)
  next
    case 2
    then obtain b0 b1 where e: "encode_utf8 c = [b0, b1]" "0xC2 \<le> b0" "b0 \<le> 0xDF" "is_cont b1"
      "utf8_push (ucast (b0 AND 0x1F)) b1 = c" using encode_form_2[OF sc] by blast
    show ?thesis using 2 g e sc assms(2) b80 
      by (simp add: vt_step_lead utf8_first_cases vt_step_cont word_less_nat_alt)
  next
    case 3
    then obtain b0 b1 b2 where e: "encode_utf8 c = [b0, b1, b2]" "0xE0 \<le> b0" "b0 \<le> 0xEF" "is_cont b1" "is_cont b2"
      "utf8_push (utf8_push (ucast (b0 AND 0x0F)) b1) b2 = c" using encode_form_3[OF sc] by blast
    show ?thesis using 3 g e sc assms(2) b80 
      by (simp add: vt_step_lead utf8_first_cases vt_step_cont word_less_nat_alt)
  next
    case 4
    then obtain b0 b1 b2 b3 where e: "encode_utf8 c = [b0, b1, b2, b3]" "0xF0 \<le> b0" "b0 \<le> 0xF4" "is_cont b1" "is_cont b2"
      "is_cont b3" "utf8_push (utf8_push (utf8_push (ucast (b0 AND 0x07)) b1) b2) b3 = c" using encode_form_4[OF sc] by blast
    show ?thesis using 4 g e sc assms(2) b80
      by (simp add: vt_step_lead utf8_first_cases vt_step_cont word_less_nat_alt)
  qed
qed


lemma vt_feed_text:
  assumes "list_all printable cs" "at_ground p"
  shows "vt_feed p (concat (map encode_utf8 cs)) = (p, map Print cs)"
  using assms by (induction cs) (simp_all add: vt_feed_append vt_feed_char)

section \<open>Control sequences\<close>

fun csi_args :: "nat list \<Rightarrow> bytes" where
  "csi_args [] = []"
| "csi_args [n] = nat_digits n"
| "csi_args (n # ns) = nat_digits n @ 0x3B # csi_args ns"

abbreviation absent :: param where "absent \<equiv> \<lparr>pm_value = -1, pm_sub = False\<rparr>"

definition digit_val :: "byte \<Rightarrow> int" where "digit_val b = int (unat b) - 48"

lemma digit_byte: "d < 10 \<Longrightarrow> unat (word_of_nat (48 + d) :: byte) = 48 + d"
  by (simp only: unsigned_of_nat take_bit_eq_mod) simp

lemma param_digit_append:
  fixes q r :: nat
  assumes "r < 10" "10 * q + r \<le> 65535"
  shows "param_digit (int q) (int r) = int (10 * q + r)"
proof -
  have "int q \<le> (65535 - int r) div 10" using assms by linarith
  then show ?thesis using assms by (simp add: param_digit_def Let_def kMaxParamValue_def)
qed

lemma nat_digits_digits: "list_all is_digit (nat_digits n)"
proof (induction n rule: nat_digits.induct)
  case (1 n)
  have "is_digit (word_of_nat (48 + d))" if "d < 10" for d
    using digit_byte[OF that] that by (simp add: is_digit_def word_le_nat_alt)
  then show ?case using 1 by (subst nat_digits.simps) simp
qed

lemma param_digit_digits:
  "n \<le> 65535 \<Longrightarrow> foldl param_digit (-1) (map digit_val (nat_digits n)) = int n"
proof (induction n rule: nat_digits.induct)
  case (1 n)
  have v: "digit_val (word_of_nat (48 + d)) = int d" if "d < 10" for d
    using digit_byte[OF that] by (simp add: digit_val_def)
  show ?case
  proof (cases "n < 10")
    case True
    then show ?thesis using v[OF True]
      by (subst nat_digits.simps) (simp add: param_digit_def kMaxParamValue_def)
  next
    case False
    have "param_digit (int (n div 10)) (int (n mod 10)) = int n"
      using param_digit_append[of "n mod 10" "n div 10"] "1.prems" by simp
    then show ?thesis using "1.IH"[OF False] "1.prems" v[of "n mod 10"] False
      by (subst nat_digits.simps) simp
  qed
qed

lemma vt_step_digit:
  assumes "p_state p = CsiParam" "p_params p = ps @ [q]" "is_digit b"
  shows "vt_step p b = (p\<lparr>p_params := ps @ [q\<lparr>pm_value := param_digit (pm_value q) (digit_val b)\<rparr>]\<rparr>, [])"
proof -
  have "b \<noteq> 0x1B" "b \<noteq> 0x18" "b \<noteq> 0x1A" "\<not> is_c0 b" "b \<noteq> 0x7F"
    using assms(3) by (auto simp: is_c0_def is_digit_def word_le_nat_alt)
  then show ?thesis using assms
    by (simp add: vt_step_def step_csi_param_def push_param_digit_def digit_val_def)
qed

lemma vt_feed_digits:
  assumes "p_state p = CsiParam" "p_params p = ps @ [q]" "list_all is_digit ds"
  shows "vt_feed p ds = (p\<lparr>p_params := ps @ [q\<lparr>pm_value := foldl param_digit (pm_value q) (map digit_val ds)\<rparr>]\<rparr>, [])"
  using assms
proof (induction ds arbitrary: p q)
  case (Cons d ds)
  then show ?case using vt_step_digit[OF Cons.prems(1,2), of d] by simp
qed simp


lemma vt_step_semicolon:
  assumes "p_state p = CsiParam" "p_params p \<noteq> []" "length (p_params p) < kMaxParams"
  shows "vt_step p 0x3B = (p\<lparr>p_params := p_params p @ [absent]\<rparr>, [])"
  using assms
  by (simp add: vt_step_def step_csi_param_def is_c0_def is_digit_def separator_def next_param_def)

lemma vt_feed_args:
  assumes "p_state p = CsiParam" "p_params p = ps @ [absent]" "ns \<noteq> []"
    "length ps + length ns \<le> kMaxParams" "\<forall>n \<in> set ns. n \<le> 65535"
  shows "vt_feed p (csi_args ns) = (p\<lparr>p_params := ps @ map (\<lambda>n. \<lparr>pm_value = int n, pm_sub = False\<rparr>) ns\<rparr>, [])"
  using assms
proof (induction ns arbitrary: p ps rule: csi_args.induct)
  case (2 n)
  then show ?case using vt_feed_digits[OF "2.prems"(1,2) nat_digits_digits[of n]] by (simp add: param_digit_digits)
next
  case (3 n m ns)
  let ?q = "\<lparr>pm_value = int n, pm_sub = False\<rparr>"
  let ?p = "p\<lparr>p_params := ps @ [?q]\<rparr>"
  have d: "vt_feed p (nat_digits n) = (?p, [])"
    using vt_feed_digits[OF "3.prems"(1,2) nat_digits_digits[of n]] "3.prems"(5) by (simp add: param_digit_digits)
  have s: "vt_step ?p 0x3B = (?p\<lparr>p_params := (ps @ [?q]) @ [absent]\<rparr>, [])"
    using "3.prems"(1,4) by (subst vt_step_semicolon) simp_all
  show ?case using "3.IH"[of "?p\<lparr>p_params := (ps @ [?q]) @ [absent]\<rparr>" "ps @ [?q]"] "3.prems" d s
    by (simp add: vt_feed_append)
qed simp

lemma nat_digits_nonempty: "nat_digits n \<noteq> []"
  by (subst nat_digits.simps) simp

lemma csi_args_head:
  assumes "ns \<noteq> []"
  shows "\<exists>d ds. csi_args ns = d # ds \<and> is_digit d"
proof -
  obtain n ms where ns: "ns = n # ms" using assms by (cases ns) auto
  obtain d ds where d: "nat_digits n = d # ds" "is_digit d"
    using nat_digits_nonempty[of n] nat_digits_digits[of n] by (cases "nat_digits n") auto
  then show ?thesis by (cases ms) (simp_all add: ns)
qed

lemma vt_step_entry_digit:
  assumes "p_state p = CsiEntry" "p_params p = []" "is_digit d"
  shows "vt_step p d = vt_step (p\<lparr>p_state := CsiParam, p_params := [absent]\<rparr>) d"
proof -
  have "d \<noteq> 0x1B" "d \<noteq> 0x18" "d \<noteq> 0x1A" "\<not> is_c0 d" "d \<noteq> 0x7F" "\<not> is_final d" "\<not> is_intermediate d" "\<not> is_private d"
    using assms(3) by (auto simp: is_c0_def is_digit_def is_final_def is_intermediate_def is_private_def word_le_nat_alt)
  then show ?thesis using assms
    by (simp add: vt_step_def step_csi_entry_def step_csi_param_def push_param_digit_def)
qed

text \<open>A whole control sequence with plain parameters.\<close>

lemma vt_feed_csi:
  assumes "p_state p = Ground" "p_need p = 0" "ns \<noteq> []" "length ns \<le> kMaxParams"
    "\<forall>n \<in> set ns. n \<le> 65535" "is_final f"
  shows "\<exists>p'. vt_feed p ([0x1B, 0x5B] @ csi_args ns @ [f])
      = (p', [Csi (map (\<lambda>n. \<lparr>pm_value = int n, pm_sub = False\<rparr>) ns) [] f])
    \<and> p_state p' = Ground \<and> p_need p' = 0"
proof -
  let ?e = "clear_sequence (clear_sequence (p\<lparr>p_state := Escape\<rparr>)\<lparr>p_state := CsiEntry\<rparr>)"
  let ?c = "?e\<lparr>p_state := CsiParam, p_params := [absent]\<rparr>"
  let ?r = "?c\<lparr>p_params := map (\<lambda>n. \<lparr>pm_value = int n, pm_sub = False\<rparr>) ns\<rparr>"
  have 1: "vt_feed p [0x1B, 0x5B] = (?e, [])"
    using assms(1,2)
    by (simp add: vt_step_def flush_utf8_def ground_byte_def ground_idle_def step_escape_def is_c0_def
        is_intermediate_def)
  obtain d ds where a: "csi_args ns = d # ds" "is_digit d" using csi_args_head[OF assms(3)] by blast
  have "vt_feed ?e (csi_args ns) = vt_feed ?c (csi_args ns)"
    using vt_step_entry_digit[of ?e d] a by (simp add: clear_sequence_def)
  also have "\<dots> = (?r, [])" using vt_feed_args[of ?c "[]" ns] assms(3-5) by simp
  finally have 2: "vt_feed ?e (csi_args ns) = (?r, [])" .
  have f: "f \<noteq> 0x1B" "f \<noteq> 0x18" "f \<noteq> 0x1A" "\<not> is_c0 f" "f \<noteq> 0x7F" "\<not> is_digit f" "f \<noteq> 0x3B" "f \<noteq> 0x3A"
    using assms(6) by (auto simp: is_c0_def is_digit_def is_final_def word_le_nat_alt)
  have 3: "vt_feed ?r [f] = (?r\<lparr>p_state := Ground\<rparr>, [Csi (p_params ?r) [] f])"
    using f assms(6) by (simp add: vt_step_def step_csi_param_def clear_sequence_def)
  have "vt_feed p ([0x1B, 0x5B] @ csi_args ns @ [f]) = (?r\<lparr>p_state := Ground\<rparr>, [Csi (p_params ?r) [] f])"
    by (simp only: vt_feed_append 1 2 3 Let_def prod.case append_Nil)
  then show ?thesis using assms(2) by simp
qed

section \<open>Properties\<close>

text \<open>
  C27.  Whatever the guest writes, the parser stays within its bounds (at most 32
  parameters of at most 65535, 4 intermediates, 4096 bytes of string), a pending UTF-8
  sequence exists only in the ground state, and every call the sink receives is well
  formed: only Unicode scalars are printed, only control bytes executed, only complete
  sequences dispatched.
\<close>

theorem vt_parser_bounded:
  "parser_ok (fst (vt_feed parser_init bs)) \<and> list_all call_ok (snd (vt_feed parser_init bs))"
  using vt_feed_good[OF parser_init_ok] by (simp add: ground_good_def)

text \<open>
  Text survives any cutting: when the UTF-8 encoding of a printable text is split
  at an arbitrary byte and fed in two calls, the sink is told to print exactly the
  characters of the text, in order, and the parser is back where it was.
\<close>

theorem vt_prints_text:
  assumes "list_all printable cs" and "at_ground p"
    and "xs @ ys = concat (map encode_utf8 cs)"
    and "vt_feed p xs = (p1, calls1)" and "vt_feed p1 ys = (p2, calls2)"
  shows "calls1 @ calls2 = map Print cs \<and> p2 = p"
  using vt_feed_append[of p xs ys] vt_feed_text[OF assms(1,2)] assms(3,4,5) by simp

theorem vt_prints_text_witness:
  "\<exists>p1 calls1 p2 calls2. vt_feed parser_init [0xC3] = (p1, calls1)
     \<and> vt_feed p1 [0xA9] = (p2, calls2) \<and> calls1 @ calls2 = [Print 0xE9]"
proof -
  have "list_all printable [0xE9]" by (simp add: printable_def is_scalar_def is_surrogate_def)
  moreover have "at_ground parser_init" by (simp add: at_ground_def parser_init_def)
  moreover have "[0xC3] @ [0xA9] = concat (map encode_utf8 [0xE9])" by (simp add: encode_utf8_def)
  moreover obtain p1 calls1 where 1: "vt_feed parser_init [0xC3] = (p1, calls1)" by fastforce
  moreover obtain p2 calls2 where 2: "vt_feed p1 [0xA9] = (p2, calls2)" by fastforce
  ultimately have "calls1 @ calls2 = map Print [0xE9]" using vt_prints_text by blast
  then show ?thesis using 1 2 by auto
qed

text \<open>
  Parameters are read as they were written: a control sequence \<open>ESC [ n1 ; ... ; nk f\<close>
  with 1 to 32 decimal parameters up to 65535 yields exactly one \<open>csi\<close> call that carries
  those numbers, and the parser returns to the ground state.
\<close>

theorem vt_csi_roundtrip:
  assumes "p_state p = Ground" "p_need p = 0" "ns \<noteq> []" "length ns \<le> kMaxParams"
    "\<forall>n \<in> set ns. n \<le> 65535" "is_final f"
  shows "\<exists>p'. vt_feed p ([0x1B, 0x5B] @ csi_args ns @ [f])
      = (p', [Csi (map (\<lambda>n. \<lparr>pm_value = int n, pm_sub = False\<rparr>) ns) [] f])
    \<and> p_state p' = Ground \<and> p_need p' = 0"
  using vt_feed_csi[OF assms] .

theorem vt_csi_roundtrip_witness:
  "\<exists>p'. vt_feed parser_init ([0x1B, 0x5B] @ csi_args [12, 34] @ [0x48])
      = (p', [Csi [\<lparr>pm_value = 12, pm_sub = False\<rparr>, \<lparr>pm_value = 34, pm_sub = False\<rparr>] [] 0x48])"
  using vt_csi_roundtrip[of parser_init "[12, 34]" "0x48"]
  by (auto simp: parser_init_def kMaxParams_def is_final_def)

text \<open>
  No state swallows the stream for good: from any state whatever, CAN or SUB
  brings the parser back to the ground state with no sequence and no character
  pending, after closing an open device control string.
\<close>

theorem vt_cancel_resyncs:
  assumes "b = 0x18 \<or> b = 0x1A" and "parser_ok p"
  shows "p_state (fst (vt_step p b)) = Ground \<and> p_need (fst (vt_step p b)) = 0
    \<and> last (snd (vt_step p b)) = Execute b
    \<and> (p_state p = DcsPassthrough \<longrightarrow> snd (vt_step p b) = [DcsEnd, Execute b])"
  using assms
  by (auto simp: vt_step_def parser_ok_def ground_byte_def ground_idle_def utf8_byte_def flush_utf8_def
      clear_sequence_def utf8_idle_def split: vt_state.splits)

theorem vt_cancel_resyncs_witness:
  "p_state (fst (vt_step (parser_init\<lparr>p_state := DcsPassthrough\<rparr>) 0x18)) = Ground"
  using vt_cancel_resyncs[of "0x18" "parser_init\<lparr>p_state := DcsPassthrough\<rparr>"] parser_init_ok
  by (simp add: parser_ok_def) (simp add: parser_init_def)

text \<open>
  A defect of the parameter limit: once 32 parameters are read, a further
  separator opens no parameter, so the digits after it are appended to the 32nd
  parameter and change its value instead of being dropped.
\<close>

theorem vt_excess_param_corrupts:
  assumes "p_state p = CsiParam" "p_params p = ps @ [q]" "length ps = 31" "is_digit d"
  shows "vt_feed p [0x3B, d]
    = (p\<lparr>p_params := ps @ [q\<lparr>pm_value := param_digit (pm_value q) (digit_val d)\<rparr>]\<rparr>, [])"
proof -
  have "vt_step p 0x3B = (p, [])" using assms(1-3)
    by (simp add: vt_step_def step_csi_param_def is_c0_def is_digit_def separator_def next_param_def kMaxParams_def)
  then show ?thesis using vt_step_digit[OF assms(1,2,4)] by simp
qed

theorem vt_excess_param_corrupts_witness:
  "p_params (fst (vt_feed (parser_init\<lparr>p_state := CsiParam,
      p_params := replicate 31 absent @ [\<lparr>pm_value = 3, pm_sub = False\<rparr>]\<rparr>) [0x3B, 0x31]))
    = replicate 31 absent @ [\<lparr>pm_value = 31, pm_sub = False\<rparr>]"
  by (subst vt_excess_param_corrupts[where ps = "replicate 31 absent"
        and q = "\<lparr>pm_value = 3, pm_sub = False\<rparr>"])
    (simp_all add: is_digit_def param_digit_def digit_val_def kMaxParamValue_def)

end
