(* ===== verification/Cell.thy ===== *)
theory Cell
  imports Prelude
begin

text \<open>
  \<open>src/render/cell.hpp\<close>: sizes, rectangles, colours, styles and cells, the data every
  part of the desktop draws with.
\<close>

record size =
  sz_w :: int
  sz_h :: int

record rect =
  rx :: int
  ry :: int
  rw :: int
  rh :: int

definition mk_rect :: "int \<Rightarrow> int \<Rightarrow> int \<Rightarrow> int \<Rightarrow> rect" where
  "mk_rect x y w h = \<lparr>rx = x, ry = y, rw = w, rh = h\<rparr>"

lemma mk_rect_sel [simp]:
  "rx (mk_rect x y w h) = x" "ry (mk_rect x y w h) = y" "rw (mk_rect x y w h) = w" "rh (mk_rect x y w h) = h"
  by (simp_all add: mk_rect_def)

lemma mk_rect_eq [simp]: "mk_rect x y w h = mk_rect x' y' w' h' \<longleftrightarrow> x = x' \<and> y = y' \<and> w = w' \<and> h = h'"
  by (simp add: mk_rect_def)

definition contains :: "rect \<Rightarrow> int \<Rightarrow> int \<Rightarrow> bool" where
  "contains r px py \<longleftrightarrow> px \<ge> rx r \<and> py \<ge> ry r \<and> px < rx r + rw r \<and> py < ry r + rh r"

text \<open>The sum type of colours, with the payload of each kind.\<close>

datatype color = ColDefault | Indexed byte | Rgb byte byte byte

definition attr_Bold :: "16 word" where "attr_Bold = push_bit 0 1"
definition attr_Dim :: "16 word" where "attr_Dim = push_bit 1 1"
definition attr_Italic :: "16 word" where "attr_Italic = push_bit 2 1"
definition attr_Underline :: "16 word" where "attr_Underline = push_bit 3 1"
definition attr_Reverse :: "16 word" where "attr_Reverse = push_bit 4 1"
definition attr_Strike :: "16 word" where "attr_Strike = push_bit 5 1"
definition attr_Blink :: "16 word" where "attr_Blink = push_bit 6 1"
definition attr_Hidden :: "16 word" where "attr_Hidden = push_bit 7 1"

record style =
  st_fg :: color
  st_bg :: color
  st_attrs :: "16 word"

definition style_init :: style where
  "style_init = \<lparr>st_fg = ColDefault, st_bg = ColDefault, st_attrs = 0\<rparr>"

datatype border = BorderUnicode | BorderAscii

record cell =
  c_ch :: char32
  c_fg :: color
  c_bg :: color
  c_attrs :: "16 word"
  c_width :: nat

definition cell_init :: cell where
  "cell_init = \<lparr>c_ch = 0x20, c_fg = ColDefault, c_bg = ColDefault, c_attrs = 0, c_width = 1\<rparr>"

definition kContinuation :: cell where
  "kContinuation = \<lparr>c_ch = 0, c_fg = ColDefault, c_bg = ColDefault, c_attrs = 0, c_width = 0\<rparr>"

end
