(* ===== verification/Vt_Attrs.thy ===== *)
theory Vt_Attrs
  imports Vt_Parser Cell
begin

text \<open>
  What a guest's sequences set besides the grid: the private modes (\<open>src/vt/modes.cpp\<close>),
  the character set (\<open>charset.cpp\<close>), the drawing style (\<open>attrs.cpp\<close>) and the answers the
  terminal gives to queries (\<open>reply.cpp\<close>).  The locale \<open>flag_store\<close> states the laws of
  the mode table; it is interpreted on \<open>Modes\<close>.
\<close>

section \<open>Modes\<close>

datatype mouse_tracking = TrackNone | TrackClick | TrackDrag | TrackAny

record modes =
  cursor_keys_application :: bool
  autowrap :: bool
  cursor_visible :: bool
  mouse_click :: bool
  mouse_drag :: bool
  mouse_any :: bool
  mouse_sgr :: bool
  alt_screen :: bool
  bracketed_paste :: bool

definition modes_init :: modes where
  "modes_init = \<lparr>cursor_keys_application = False, autowrap = True, cursor_visible = True,
     mouse_click = False, mouse_drag = False, mouse_any = False, mouse_sgr = False,
     alt_screen = False, bracketed_paste = False\<rparr>"

text \<open>The table: a pointer to member is the field's selector with its update.\<close>

definition kModes :: "(int \<times> (modes \<Rightarrow> bool) \<times> (bool \<Rightarrow> modes \<Rightarrow> modes)) list" where
  "kModes = [
    (1, cursor_keys_application, \<lambda>b m. m\<lparr>cursor_keys_application := b\<rparr>),
    (7, autowrap, \<lambda>b m. m\<lparr>autowrap := b\<rparr>),
    (25, cursor_visible, \<lambda>b m. m\<lparr>cursor_visible := b\<rparr>),
    (1000, mouse_click, \<lambda>b m. m\<lparr>mouse_click := b\<rparr>),
    (1002, mouse_drag, \<lambda>b m. m\<lparr>mouse_drag := b\<rparr>),
    (1003, mouse_any, \<lambda>b m. m\<lparr>mouse_any := b\<rparr>),
    (1006, mouse_sgr, \<lambda>b m. m\<lparr>mouse_sgr := b\<rparr>),
    (1049, alt_screen, \<lambda>b m. m\<lparr>alt_screen := b\<rparr>),
    (2004, bracketed_paste, \<lambda>b m. m\<lparr>bracketed_paste := b\<rparr>)]"

definition tracking :: "modes \<Rightarrow> mouse_tracking" where
  "tracking m =
     (if mouse_any m then TrackAny else if mouse_drag m then TrackDrag
      else if mouse_click m then TrackClick else TrackNone)"

definition mode_set :: "modes \<Rightarrow> int \<Rightarrow> bool \<Rightarrow> modes" where
  "mode_set m mode on =
     (case map_of kModes mode of Some (get, upd) \<Rightarrow> upd on m | None \<Rightarrow> m)"

definition mode_knows :: "int \<Rightarrow> bool" where
  "mode_knows mode \<longleftrightarrow> map_of kModes mode \<noteq> None"

definition mode_get :: "modes \<Rightarrow> int \<Rightarrow> bool" where
  "mode_get m mode = (case map_of kModes mode of Some (get, upd) \<Rightarrow> get m | None \<Rightarrow> False)"

definition apply_dec_private :: "param list \<Rightarrow> bool \<Rightarrow> modes \<Rightarrow> modes" where
  "apply_dec_private params on m = foldl (\<lambda>m p. mode_set m (pm_value p) on) m params"

section \<open>Character set\<close>

datatype charset = Ascii | Graphics

definition kGraphics :: "char32 list" where
  "kGraphics = [
    0x20,
    0x25C6, 0x2592, 0x2409, 0x240C, 0x240D, 0x240A, 0xB0, 0xB1,
    0x2424, 0x240B, 0x2518, 0x2510, 0x250C, 0x2514, 0x253C, 0x23BA,
    0x23BB, 0x2500, 0x23BC, 0x23BD, 0x251C, 0x2524, 0x2534, 0x252C,
    0x2502, 0x2264, 0x2265, 0x3C0, 0x2260, 0xA3, 0xB7]"

definition charset_from_final :: "byte \<Rightarrow> charset" where
  "charset_from_final b = (if b = 0x30 then Graphics else Ascii)"

definition translate :: "char32 \<Rightarrow> charset \<Rightarrow> char32" where
  "translate cp cs =
     (if cs \<noteq> Graphics then cp
      else if cp < 0x5F \<or> cp > 0x7E then cp
      else kGraphics ! unat (cp - 0x5F))"

section \<open>Style\<close>

definition is_byte :: "int \<Rightarrow> bool" where
  "is_byte v \<longleftrightarrow> v \<ge> 0 \<and> v \<le> 255"

text \<open>\<open>read_extended\<close>: \<open>None\<close> for the returned \<open>false\<close>.\<close>

definition read_extended :: "param list \<Rightarrow> nat \<Rightarrow> nat \<Rightarrow> color option" where
  "read_extended p first lst =
     (if first \<ge> lst then None
      else let mode = pm_value (p ! first); args = lst - first - 1 in
        if mode = 5 then
          if args < 1 then None
          else let i = pm_value (p ! (lst - 1)) in
            if \<not> is_byte i then None else Some (Indexed (word_of_int i))
        else if mode = 2 then
          if args < 3 then None
          else let r = pm_value (p ! (lst - 3)); g = pm_value (p ! (lst - 2)); b = pm_value (p ! (lst - 1))
            in if \<not> is_byte r \<or> \<not> is_byte g \<or> \<not> is_byte b then None
               else Some (Rgb (word_of_int r) (word_of_int g) (word_of_int b))
        else None)"

definition flat_extent :: "param list \<Rightarrow> nat \<Rightarrow> nat" where
  "flat_extent p first =
     (if first \<ge> length p then first
      else let mode = pm_value (p ! first);
               want = (if mode = 2 then first + 4 else if mode = 5 then first + 2 else first + 1)
           in if want < length p then want else length p)"

text \<open>The \<open>switch\<close> over a code, \<open>4\<close> apart, whose meaning depends on a sub-parameter.\<close>

definition sgr_code :: "int \<Rightarrow> style \<Rightarrow> style" where
  "sgr_code code st =
     (let set = (\<lambda>a. st\<lparr>st_attrs := st_attrs st OR a\<rparr>);
          clr = (\<lambda>a. st\<lparr>st_attrs := st_attrs st AND NOT a\<rparr>)
      in if code = 0 then style_init
         else if code = 1 then set attr_Bold
         else if code = 2 then set attr_Dim
         else if code = 3 then set attr_Italic
         else if code = 5 \<or> code = 6 then set attr_Blink
         else if code = 7 then set attr_Reverse
         else if code = 8 then set attr_Hidden
         else if code = 9 then set attr_Strike
         else if code = 21 then set attr_Underline
         else if code = 22 then clr (attr_Bold OR attr_Dim)
         else if code = 23 then clr attr_Italic
         else if code = 24 then clr attr_Underline
         else if code = 25 then clr attr_Blink
         else if code = 27 then clr attr_Reverse
         else if code = 28 then clr attr_Hidden
         else if code = 29 then clr attr_Strike
         else if code = 39 then st\<lparr>st_fg := ColDefault\<rparr>
         else if code = 49 then st\<lparr>st_bg := ColDefault\<rparr>
         else if code \<ge> 30 \<and> code \<le> 37 then st\<lparr>st_fg := Indexed (word_of_int (code - 30))\<rparr>
         else if code \<ge> 40 \<and> code \<le> 47 then st\<lparr>st_bg := Indexed (word_of_int (code - 40))\<rparr>
         else if code \<ge> 90 \<and> code \<le> 97 then st\<lparr>st_fg := Indexed (word_of_int (code - 90 + 8))\<rparr>
         else if code \<ge> 100 \<and> code \<le> 107 then st\<lparr>st_bg := Indexed (word_of_int (code - 100 + 8))\<rparr>
         else st)"

text \<open>The end of the group that starts at \<open>i\<close>: the code with its sub-parameters.\<close>

function group_end :: "param list \<Rightarrow> nat \<Rightarrow> nat" where
  "group_end params e = (if e < length params \<and> pm_sub (params ! e) then group_end params (Suc e) else e)"
  by pat_completeness auto
termination by (relation "measure (\<lambda>(params, e). length params - e)") auto

declare group_end.simps [simp del]

lemma group_end_ge: "e \<le> group_end params e"
proof (induction params e rule: group_end.induct)
  case (1 params e)
  then show ?case by (subst group_end.simps) (auto intro: Suc_leD)
qed

function sgr_loop :: "param list \<Rightarrow> nat \<Rightarrow> style \<Rightarrow> style" where
  "sgr_loop params i st =
     (if i < length params then
        let e = group_end params (i + 1);
            code = (if pm_value (params ! i) < 0 then 0 else pm_value (params ! i))
        in if code = 38 \<or> code = 48 \<or> code = 58 then
             let first = i + 1;
                 lst = (if e > first then e else flat_extent params first);
                 st' = (case read_extended params first lst of
                     None \<Rightarrow> st
                   | Some c \<Rightarrow> if code = 38 then st\<lparr>st_fg := c\<rparr>
                              else if code = 48 then st\<lparr>st_bg := c\<rparr> else st)
             in sgr_loop params (if lst > i then lst else i + 1) st'
           else if code = 4 then
             sgr_loop params e
               (if e > i + 1 \<and> param_or params (i + 1) 1 = 0
                then st\<lparr>st_attrs := st_attrs st AND NOT attr_Underline\<rparr>
                else st\<lparr>st_attrs := st_attrs st OR attr_Underline\<rparr>)
           else sgr_loop params e (sgr_code code st)
      else st)"
  by pat_completeness auto
termination
  by (relation "measure (\<lambda>(params, i, st). length params - i)")
    (auto intro!: diff_less_mono2 less_le_trans[OF lessI group_end_ge[of "Suc i" for i]])

declare sgr_loop.simps [simp del]

definition apply_sgr :: "param list \<Rightarrow> style \<Rightarrow> style" where
  "apply_sgr params st = (if params = [] then style_init else sgr_loop params 0 st)"

section \<open>Replies\<close>

definition esc_str :: "string \<Rightarrow> bytes" where
  "esc_str s = 0x1B # str s"

definition device_attributes :: bytes where
  "device_attributes = esc_str ''[?62;22c''"

definition secondary_device_attributes :: bytes where
  "secondary_device_attributes = esc_str ''[>1;20;0c''"

definition cursor_position_report :: "int \<Rightarrow> int \<Rightarrow> bytes" where
  "cursor_position_report x y =
     esc_str ''['' @ to_string (y + 1) @ str '';'' @ to_string (x + 1) @ str ''R''"

definition extended_cursor_position_report :: "int \<Rightarrow> int \<Rightarrow> bytes" where
  "extended_cursor_position_report x y =
     esc_str ''[?'' @ to_string (y + 1) @ str '';'' @ to_string (x + 1) @ str '';1R''"

definition device_status_ok :: bytes where
  "device_status_ok = esc_str ''[0n''"

definition dec_mode_report :: "int \<Rightarrow> modes \<Rightarrow> bytes" where
  "dec_mode_report mode m =
     (let state = (if mode_knows mode then if mode_get m mode then 1 else 2 else 0)
      in esc_str ''[?'' @ to_string mode @ str '';'' @ to_string state @ str ''$y'')"

definition reply_for_csi :: "param list \<Rightarrow> bytes \<Rightarrow> byte \<Rightarrow> int \<Rightarrow> int \<Rightarrow> modes \<Rightarrow> bytes" where
  "reply_for_csi params is f x y m =
     (if f = 0x63 then
        if is = [] then device_attributes
        else if is = str ''>'' then secondary_device_attributes else []
      else if f = 0x6E \<and> is = [] then
        (let v = param_or params 0 0 in
         if v = 5 then device_status_ok
         else if v = 6 then cursor_position_report x y else [])
      else if f = 0x6E \<and> is = str ''?'' \<and> param_or params 0 0 = 6 then
        extended_cursor_position_report x y
      else if f = 0x70 then
        (let mode = param_or params 0 (-1) in
         if mode < 0 then []
         else if is = str ''?$'' then dec_mode_report mode m
         else if is = str ''$'' then esc_str ''['' @ to_string mode @ str '';0$y'' else [])
      else [])"

section \<open>The mode table\<close>

locale flag_store =
  fixes setf :: "'m \<Rightarrow> int \<Rightarrow> bool \<Rightarrow> 'm" and getf :: "'m \<Rightarrow> int \<Rightarrow> bool" and known :: "int \<Rightarrow> bool"
  assumes get_set: "known k \<Longrightarrow> getf (setf m k b) k = b"
    and get_other: "k \<noteq> j \<Longrightarrow> getf (setf m k b) j = getf m j"
    and set_unknown: "\<not> known k \<Longrightarrow> setf m k b = m"
    and get_unknown: "\<not> known k \<Longrightarrow> getf m k = False"
begin

lemma fold_set:
  "getf (foldl (\<lambda>m k. setf m k b) m ks) j = (if j \<in> set ks \<and> known j then b else getf m j)"
proof (induction ks arbitrary: m)
  case (Cons k ks)
  show ?case
  proof (cases "k = j")
    case True
    then show ?thesis using Cons get_set[of j m b] get_unknown[of j] by auto
  next
    case False
    then show ?thesis using Cons get_other[of k j m b] by simp
  qed
qed simp

end

lemma mode_cases: "mode_knows k \<longleftrightarrow> k \<in> {1, 7, 25, 1000, 1002, 1003, 1006, 1049, 2004}"
  by (auto simp: mode_knows_def kModes_def)

interpretation dec_modes: flag_store mode_set mode_get mode_knows
proof
  show "mode_get (mode_set m k b) k = b" if "mode_knows k" for k m b
    using that unfolding mode_cases by (auto simp: mode_set_def mode_get_def kModes_def)
  show "mode_get (mode_set m k b) j = mode_get m j" if "k \<noteq> j" for k j m b
    using that by (auto simp: mode_set_def mode_get_def kModes_def)
  show "mode_set m k b = m" if "\<not> mode_knows k" for k m b
    using that by (auto simp: mode_set_def mode_knows_def split: option.splits)
  show "mode_get m k = False" if "\<not> mode_knows k" for k m
    using that by (auto simp: mode_get_def mode_knows_def split: option.splits)
qed

lemma apply_dec_private_conv:
  "apply_dec_private params on m = foldl (\<lambda>m k. mode_set m k on) m (map pm_value params)"
  by (induction params arbitrary: m) (simp_all add: apply_dec_private_def)

definition prm :: "int \<Rightarrow> bool \<Rightarrow> param" where
  "prm v sub = \<lparr>pm_value = v, pm_sub = sub\<rparr>"

section \<open>Properties\<close>

text \<open>
  A \<open>CSI ? Pm h\<close> or \<open>l\<close> sets exactly the modes it names: after it, every known mode
  of the list has the requested state, every other mode is unchanged, and codes the
  terminal does not know are ignored.
\<close>

theorem dec_private_sets:
  "mode_get (apply_dec_private params on m) k
     = (if k \<in> pm_value ` set params \<and> mode_knows k then on else mode_get m k)"
  using dec_modes.fold_set[of on m "map pm_value params" k] by (simp add: apply_dec_private_conv)

text \<open>
  The spellings of an extended colour agree: \<open>38;5;n\<close> and \<open>38:5:n\<close> set the same
  indexed foreground, \<open>38;2;r;g;b\<close>, \<open>38:2:r:g:b\<close> and \<open>38:2::r:g:b\<close> the same triplet,
  nothing of the sequence leaks into another attribute, and a component out of range
  changes nothing.
\<close>

theorem sgr_colour_forms:
  "apply_sgr [prm 38 False, prm 5 False, prm n False] st
      = (if is_byte n then st\<lparr>st_fg := Indexed (word_of_int n)\<rparr> else st)
    \<and> apply_sgr [prm 38 False, prm 5 True, prm n True] st = apply_sgr [prm 38 False, prm 5 False, prm n False] st
    \<and> apply_sgr [prm 38 False, prm 2 False, prm r False, prm g False, prm b False] st
      = (if is_byte r \<and> is_byte g \<and> is_byte b
         then st\<lparr>st_fg := Rgb (word_of_int r) (word_of_int g) (word_of_int b)\<rparr> else st)
    \<and> apply_sgr [prm 38 False, prm 2 True, prm r True, prm g True, prm b True] st
      = apply_sgr [prm 38 False, prm 2 False, prm r False, prm g False, prm b False] st
    \<and> apply_sgr [prm 38 False, prm 2 True, prm (-1) True, prm r True, prm g True, prm b True] st
      = apply_sgr [prm 38 False, prm 2 False, prm r False, prm g False, prm b False] st"
  by (simp add: prm_def apply_sgr_def sgr_loop.simps group_end.simps flat_extent_def read_extended_def
      numeral_eq_Suc)

end
