(* ===== verification/Vt_Scrollback.thy ===== *)
theory Vt_Scrollback
  imports Vt_Attrs
begin

text \<open>
  \<open>src/vt/scrollback.cpp\<close>: the history of a terminal, a ring of trimmed lines with the
  point it is looked at from.  The locale \<open>history\<close> is what the screen relies on; the
  ring is shown to implement a bounded list of lines.
\<close>

section \<open>Cells of the grid\<close>

record scell =
  s_ch :: char32
  s_width :: nat
  s_style :: style

definition scell_init :: scell where
  "scell_init = \<lparr>s_ch = 0x20, s_width = 1, s_style = style_init\<rparr>"

type_synonym line = "scell list"

section \<open>The ring\<close>

record scrollback =
  sb_capacity :: nat
  sb_ring :: "line list"
  sb_head :: nat
  sb_size :: nat
  sb_offset :: nat

definition kDefaultScrollbackLines :: nat where
  "kDefaultScrollbackLines = 10000"

definition scrollback_init :: "nat \<Rightarrow> scrollback" where
  "scrollback_init c = \<lparr>sb_capacity = c, sb_ring = replicate c [], sb_head = 0, sb_size = 0, sb_offset = 0\<rparr>"

text \<open>The loop \<open>while (len > 0 && cells[len - 1] == blank) --len\<close>.\<close>

fun trim_len :: "line \<Rightarrow> nat \<Rightarrow> nat" where
  "trim_len cells 0 = 0"
| "trim_len cells (Suc n) = (if cells ! n = scell_init then trim_len cells n else Suc n)"

definition sb_push :: "scrollback \<Rightarrow> line \<Rightarrow> scrollback" where
  "sb_push sb cells =
     (if sb_capacity sb = 0 then sb
      else
        let len = trim_len cells (length cells);
            (slot, sb1) =
              (if sb_size sb < sb_capacity sb
               then ((sb_head sb + sb_size sb) mod sb_capacity sb, sb\<lparr>sb_size := sb_size sb + 1\<rparr>)
               else (sb_head sb, sb\<lparr>sb_head := (sb_head sb + 1) mod sb_capacity sb\<rparr>));
            sb2 = sb1\<lparr>sb_ring := (sb_ring sb1)[slot := take len cells]\<rparr>
        in if sb_offset sb2 > 0
           then sb2\<lparr>sb_offset := (if sb_offset sb2 + 1 > sb_size sb2 then sb_size sb2 else sb_offset sb2 + 1)\<rparr>
           else sb2)"

definition sb_at :: "scrollback \<Rightarrow> nat \<Rightarrow> line" where
  "sb_at sb i =
     (if i \<ge> sb_size sb then [] else sb_ring sb ! ((sb_head sb + i) mod sb_capacity sb))"

definition sb_clear :: "scrollback \<Rightarrow> scrollback" where
  "sb_clear sb = sb\<lparr>sb_size := 0, sb_offset := 0\<rparr>"

definition scroll_back :: "scrollback \<Rightarrow> nat \<Rightarrow> scrollback" where
  "scroll_back sb n =
     (if n > sb_size sb - sb_offset sb then sb\<lparr>sb_offset := sb_size sb\<rparr>
      else sb\<lparr>sb_offset := sb_offset sb + n\<rparr>)"

definition scroll_forward :: "scrollback \<Rightarrow> nat \<Rightarrow> scrollback" where
  "scroll_forward sb n =
     (if n > sb_offset sb then sb\<lparr>sb_offset := 0\<rparr> else sb\<lparr>sb_offset := sb_offset sb - n\<rparr>)"

definition scroll_to_bottom :: "scrollback \<Rightarrow> scrollback" where
  "scroll_to_bottom sb = sb\<lparr>sb_offset := 0\<rparr>"

section \<open>The ring as a list\<close>

definition sb_ok :: "scrollback \<Rightarrow> bool" where
  "sb_ok sb \<longleftrightarrow> length (sb_ring sb) = sb_capacity sb \<and> sb_size sb \<le> sb_capacity sb
     \<and> (sb_capacity sb > 0 \<longrightarrow> sb_head sb < sb_capacity sb) \<and> sb_offset sb \<le> sb_size sb"

definition lines_of :: "scrollback \<Rightarrow> line list" where
  "lines_of sb = map (sb_at sb) [0..<sb_size sb]"

definition trimmed :: "line \<Rightarrow> line" where
  "trimmed cells = rev (dropWhile (\<lambda>c. c = scell_init) (rev cells))"

lemma trim_len_le: "trim_len cells n \<le> n"
  by (induction n) auto

lemma trim_len_trimmed: "n \<le> length cells \<Longrightarrow> take (trim_len cells n) cells = trimmed (take n cells)"
proof (induction n)
  case 0
  then show ?case by (simp add: trimmed_def)
next
  case (Suc n)
  then have "take (Suc n) cells = take n cells @ [cells ! n]" by (simp add: take_Suc_conv_app_nth)
  then show ?case using Suc by (simp add: trimmed_def)
qed

lemma sb_init_ok [inv_intros]: "sb_ok (scrollback_init c)"
  by (simp add: sb_ok_def scrollback_init_def)

lemma sb_push_ok [inv_intros]: "sb_ok sb \<Longrightarrow> sb_ok (sb_push sb cells)"
  by (auto simp: sb_ok_def sb_push_def Let_def)

lemma sb_ops_ok [inv_intros]:
  "sb_ok sb \<Longrightarrow> sb_ok (sb_clear sb)" "sb_ok sb \<Longrightarrow> sb_ok (scroll_back sb n)"
  "sb_ok sb \<Longrightarrow> sb_ok (scroll_forward sb n)" "sb_ok sb \<Longrightarrow> sb_ok (scroll_to_bottom sb)"
  by (auto simp: sb_ok_def sb_clear_def scroll_back_def scroll_forward_def scroll_to_bottom_def)

lemma ring_index:
  fixes h i c :: nat
  assumes "h < c" "i \<le> c"
  shows "(h + i) mod c = (if h + i < c then h + i else h + i - c)"
proof (cases "h + i < c")
  case False
  then have "(h + i) mod c = (h + i - c) mod c" by (simp add: le_mod_geq)
  also have "\<dots> = h + i - c" using assms False by (intro mod_less) linarith
  finally show ?thesis using False by simp
qed simp

lemma ring_slots:
  fixes h i s c :: nat
  assumes "h < c" "i < c" "s < c" "i \<noteq> s"
  shows "(h + i) mod c \<noteq> (h + s) mod c"
  using assms by (auto simp: ring_index split: if_splits)

lemma sb_push_lines:
  assumes ok: "sb_ok sb"
  shows "lines_of (sb_push sb cells)
    = drop (Suc (length (lines_of sb)) - sb_capacity sb) (lines_of sb @ [trimmed cells])"
proof -
  let ?c = "sb_capacity sb" and ?h = "sb_head sb" and ?n = "sb_size sb"
  have t: "take (trim_len cells (length cells)) cells = trimmed cells" using trim_len_trimmed[of "length cells" cells] by simp
  consider "?c = 0" | "?c > 0" "?n < ?c" | "?c > 0" "?n = ?c" using ok by (force simp: sb_ok_def)
  then show ?thesis
  proof cases
    case 1
    then show ?thesis using ok by (simp add: sb_push_def lines_of_def sb_ok_def)
  next
    case 2
    have h: "?h < ?c" "length (sb_ring sb) = ?c" using ok 2 by (auto simp: sb_ok_def)
    have e: "sb_at (sb_push sb cells) i = (if i = ?n then trimmed cells else sb_at sb i)" if "i \<le> ?n" for i
      using that 2 h t ring_slots[OF h(1), of i ?n] by (auto simp: sb_at_def sb_push_def Let_def)
    have s: "sb_size (sb_push sb cells) = Suc ?n" using 2 by (simp add: sb_push_def Let_def)
    show ?thesis using 2 e by (simp add: lines_of_def s)
  next
    case 3
    have h: "?h < ?c" "length (sb_ring sb) = ?c" using ok 3 by (auto simp: sb_ok_def)
    have m: "((?h + 1) mod ?c + i) mod ?c = (?h + Suc i) mod ?c" for i by (simp add: mod_add_left_eq)
    have e: "sb_at (sb_push sb cells) i = (if Suc i = ?n then trimmed cells else sb_at sb (Suc i))" if "i < ?n" for i
    proof (cases "Suc i = ?n")
      case True
      then have "Suc (?h + i) = ?h + ?c" using 3 by simp
      then have "Suc (?h + i) mod ?c = ?h" using h(1) by (simp only: mod_add_self2 mod_less)
      then show ?thesis using that True 3 h t m by (simp add: sb_at_def sb_push_def Let_def del: mod_add_self2)
    next
      case False
      then have "(?h + Suc i) mod ?c \<noteq> (?h + 0) mod ?c" using that 3 h by (intro ring_slots) simp_all
      then show ?thesis using that False 3 h m by (simp add: sb_at_def sb_push_def Let_def)
    qed
    have s: "sb_size (sb_push sb cells) = ?n" using 3 by (simp add: sb_push_def Let_def)
    obtain k where k: "?n = Suc k" using 3 gr0_implies_Suc[of ?c] by auto
    have "map (sb_at (sb_push sb cells)) [0..<k] = map (\<lambda>i. sb_at sb (Suc i)) [0..<k]"
      using e k by (intro map_cong) auto
    moreover have "map (\<lambda>i. sb_at sb (Suc i)) [0..<k] = tl (lines_of sb)"
      by (simp add: lines_of_def k upt_conv_Cons map_Suc_upt[symmetric] comp_def del: upt_Suc)
    moreover have "sb_at (sb_push sb cells) k = trimmed cells" using e[of k] k by simp
    moreover have "lines_of (sb_push sb cells) = map (sb_at (sb_push sb cells)) [0..<k] @ [sb_at (sb_push sb cells) k]"
      by (simp add: lines_of_def s k)
    ultimately have "lines_of (sb_push sb cells) = tl (lines_of sb) @ [trimmed cells]" by simp
    moreover have "Suc (length (lines_of sb)) - ?c = 1" "lines_of sb \<noteq> []" using 3 k by (auto simp: lines_of_def)
    ultimately show ?thesis by (cases "lines_of sb") simp_all
  qed
qed

section \<open>What the screen relies on\<close>

lemma drop_bounded:
  assumes "length xs \<le> c"
  shows "drop (length (drop (Suc (length xs) - c) (xs @ [x])) + length ys - c) (drop (Suc (length xs) - c) (xs @ [x]) @ ys)
    = drop (length xs + Suc (length ys) - c) (xs @ x # ys)"
proof -
  define d where "d = Suc (length xs) - c"
  have "drop d (xs @ [x]) @ ys = drop d ((xs @ [x]) @ ys)"
    by (subst drop_append[of d "xs @ [x]" ys]) (simp add: d_def)
  moreover have "length (drop d (xs @ [x])) + length ys - c + d = length xs + Suc (length ys) - c"
    using assms by (auto simp: d_def)
  ultimately show ?thesis unfolding d_def[symmetric] by (simp del: length_drop drop_append)
qed

locale history =
  fixes put :: "'h \<Rightarrow> line \<Rightarrow> 'h" and lns :: "'h \<Rightarrow> line list" and cap :: "'h \<Rightarrow> nat" and inv :: "'h \<Rightarrow> bool"
  assumes put_inv: "inv h \<Longrightarrow> inv (put h c)"
    and put_cap: "cap (put h c) = cap h"
    and put_lines: "inv h \<Longrightarrow> lns (put h c) = drop (Suc (length (lns h)) - cap h) (lns h @ [trimmed c])"
    and lines_cap: "inv h \<Longrightarrow> length (lns h) \<le> cap h"
begin

lemma put_many:
  "inv h \<Longrightarrow> lns (foldl put h cs) = drop (length (lns h) + length cs - cap h) (lns h @ map trimmed cs)"
proof (induction cs arbitrary: h)
  case Nil
  then show ?case using lines_cap by simp
next
  case (Cons c cs)
  have l: "length (lns h) \<le> cap h" using lines_cap[OF Cons.prems] .
  have "lns (foldl put h (c # cs))
      = drop (length (lns (put h c)) + length cs - cap h) (lns (put h c) @ map trimmed cs)"
    using Cons.IH[OF put_inv[OF Cons.prems]] by (simp add: put_cap)
  also have "\<dots> = drop (length (lns h) + length (c # cs) - cap h) (lns h @ map trimmed (c # cs))"
    using drop_bounded[OF l, of "trimmed c" "map trimmed cs"] by (simp add: put_lines[OF Cons.prems])
  finally show ?case .
qed

end

lemma sb_push_capacity: "sb_capacity (sb_push sb cells) = sb_capacity sb"
  by (auto simp: sb_push_def Let_def)

interpretation ring: history sb_push lines_of sb_capacity sb_ok
  by unfold_locales
    (simp_all add: sb_push_lines sb_push_capacity sb_push_ok, simp add: lines_of_def sb_ok_def)


section \<open>Properties\<close>

text \<open>
  The ring is a bounded history: after any lines have been pushed into an empty
  scrollback of capacity \<open>c\<close>, reading it from oldest to newest yields exactly the last
  \<open>c\<close> of them, in order, each without its trailing default blanks.
\<close>

theorem scrollback_keeps_last:
  "lines_of (foldl sb_push (scrollback_init c) cs) = drop (length cs - c) (map trimmed cs)"
  using ring.put_many[OF sb_init_ok, of c cs] by (simp add: lines_of_def scrollback_init_def)

text \<open>
  The view does not move under the reader: while an older line is being looked at,
  new output leaves the line at the bottom of the view unchanged as long as the
  history still holds it; pinned to the present, the view stays pinned.
\<close>

theorem scrollback_view_stable:
  assumes "sb_ok sb" and "sb_size sb < sb_capacity sb" and "0 < sb_offset sb"
  shows "sb_offset (sb_push sb cells) \<le> sb_size (sb_push sb cells)
    \<and> sb_at (sb_push sb cells) (sb_size (sb_push sb cells) - sb_offset (sb_push sb cells))
        = sb_at sb (sb_size sb - sb_offset sb)
    \<and> sb_offset (sb_push (scroll_to_bottom sb) cells) = 0"
proof -
  let ?n = "sb_size sb" and ?o = "sb_offset sb"
  have o: "?o \<le> ?n" using assms(1) by (simp add: sb_ok_def)
  have s: "sb_size (sb_push sb cells) = Suc ?n" "sb_offset (sb_push sb cells) = Suc ?o"
    using assms o by (simp_all add: sb_push_def Let_def)
  have "lines_of (sb_push sb cells) = lines_of sb @ [trimmed cells]"
    using sb_push_lines[OF assms(1)] assms(2) by (simp add: lines_of_def)
  moreover have l: "sb_at q i = lines_of q ! i" if "i < sb_size q" for q i using that by (simp add: lines_of_def)
  moreover have "length (lines_of sb) = ?n" by (simp add: lines_of_def)
  ultimately have "sb_at (sb_push sb cells) (?n - ?o) = sb_at sb (?n - ?o)"
    using o assms(3) s(1) by (simp add: l nth_append)
  then show ?thesis using o s assms(2) by (simp add: sb_push_def scroll_to_bottom_def Let_def)
qed

theorem scrollback_view_stable_witness:
  "sb_at (sb_push (scroll_back (sb_push (scrollback_init 4) [scell_init\<lparr>s_ch := 0x41\<rparr>]) 1) [])
     (2 - 2) = [scell_init\<lparr>s_ch := 0x41\<rparr>]"
proof -
  let ?sb = "scroll_back (sb_push (scrollback_init 4) [scell_init\<lparr>s_ch := 0x41\<rparr>]) 1"
  have "sb_ok ?sb" by (intro inv_intros)
  moreover have v: "sb_size ?sb = 1" "sb_offset ?sb = 1" "sb_capacity ?sb = 4"
    "sb_at ?sb 0 = [scell_init\<lparr>s_ch := 0x41\<rparr>]" "sb_size (sb_push ?sb []) = 2" "sb_offset (sb_push ?sb []) = 2"
    by (simp_all add: scroll_back_def sb_push_def scrollback_init_def sb_at_def scell_init_def)
  ultimately show ?thesis using scrollback_view_stable[of ?sb "[]"] by simp
qed

end
