(* ===== verification/Width.thy ===== *)
theory Width
  imports Utf8
begin

text \<open>
  \<open>src/render/width.cpp\<close>: how many cells a character or a text occupies, and cutting
  a text to a budget of cells.  The process-wide policy for ambiguous characters
  (\<open>g_ambiguous_wide\<close>) is the first argument of every function that reads it.
\<close>

section \<open>Tables\<close>

definition kZero :: "(char32 \<times> char32) list" where
  "kZero = [
    (0x0300, 0x036F), (0x0483, 0x0489), (0x0591, 0x05BD), (0x0610, 0x061A),
    (0x064B, 0x065F), (0x0670, 0x0670), (0x06D6, 0x06DC), (0x0E31, 0x0E31),
    (0x0E47, 0x0E4E), (0x200B, 0x200F), (0x2060, 0x2064), (0xFE00, 0xFE0F),
    (0xFE20, 0xFE2F), (0xE0100, 0xE01EF)]"

definition kWide :: "(char32 \<times> char32) list" where
  "kWide = [
    (0x1100, 0x115F), (0x2E80, 0x303E), (0x3041, 0x33FF),
    (0x3400, 0x4DBF), (0x4E00, 0x9FFF), (0xA000, 0xA4CF),
    (0xAC00, 0xD7A3), (0xF900, 0xFAFF), (0xFE10, 0xFE19),
    (0xFE30, 0xFE6F), (0xFF00, 0xFF60), (0xFFE0, 0xFFE6),
    (0x1F300, 0x1F64F), (0x1F900, 0x1F9FF), (0x20000, 0x3FFFD)]"

definition kAmbiguous :: "(char32 \<times> char32) list" where
  "kAmbiguous = [
    (0x00A1, 0x00A1), (0x00B0, 0x00B4), (0x00B6, 0x00BA), (0x2010, 0x2027),
    (0x2190, 0x21FF), (0x2500, 0x257F), (0x25A0, 0x25FF), (0x2E80, 0x2E80)]"

text \<open>\<open>in\<close>: \<open>std::upper_bound\<close> finds the first range that starts after the character,
  and the range before it decides.\<close>

definition in_table :: "(char32 \<times> char32) list \<Rightarrow> char32 \<Rightarrow> bool" where
  "in_table table cp =
     (let it = (case find_if (\<lambda>r. cp < fst r) table of Some i \<Rightarrow> i | None \<Rightarrow> length table)
      in if it = 0 then False else cp \<le> snd (table ! (it - 1)))"

definition char_width :: "bool \<Rightarrow> char32 \<Rightarrow> int" where
  "char_width amb cp =
     (if cp < 0x20 \<or> (cp \<ge> 0x7F \<and> cp < 0xA0) then 0
      else if in_table kZero cp then 0
      else if amb \<and> in_table kAmbiguous cp then 2
      else if in_table kWide cp then 2
      else 1)"

section \<open>Texts\<close>

function text_loop :: "bool \<Rightarrow> bytes \<Rightarrow> nat \<Rightarrow> int \<Rightarrow> int" where
  "text_loop amb s i n =
     (if i < length s
      then text_loop amb s (i + snd (utf8_decode s i)) (n + char_width amb (fst (utf8_decode s i)))
      else n)"
  by pat_completeness auto
termination
  using utf8_decode_progress
  by (relation "measure (\<lambda>(amb, s, i, n). length s - i)") (auto simp: less_diff_conv2 Suc_le_eq)

declare text_loop.simps [simp del]

definition text_cells :: "bool \<Rightarrow> bytes \<Rightarrow> int" where
  "text_cells amb s = text_loop amb s 0 0"

text \<open>The cutting loop of \<open>elide_to_cells\<close>: the byte position at which it stops.\<close>

function elide_loop :: "bool \<Rightarrow> bytes \<Rightarrow> int \<Rightarrow> nat \<Rightarrow> int \<Rightarrow> nat" where
  "elide_loop amb s keep i seen =
     (if i < length s then
        let (cp, used) = utf8_decode s i; cw = char_width amb cp
        in if seen + cw > keep then i else elide_loop amb s keep (i + used) (seen + cw)
      else i)"
  by pat_completeness auto
termination
proof (relation "measure (\<lambda>(amb, s, keep, i, seen). length s - i)", simp)
  fix amb and s :: bytes and keep seen :: int and i :: nat and x cp used cw
  assume "i < length s" "x = utf8_decode s i" "(cp, used) = x"
  then have "1 \<le> used" using utf8_decode_progress(1)[of s i] by (metis snd_conv)
  then show "((amb, s, keep, i + used, seen + cw), amb, s, keep, i, seen)
      \<in> measure (\<lambda>(amb, s, keep, i, seen). length s - i)"
    using \<open>i < length s\<close> by simp
qed

declare elide_loop.simps [simp del]

definition elide_to_cells :: "bool \<Rightarrow> bytes \<Rightarrow> int \<Rightarrow> bytes \<Rightarrow> bytes" where
  "elide_to_cells amb s cells mark =
     (if cells \<le> 0 then []
      else if text_cells amb s \<le> cells then s
      else let keep = cells - text_cells amb mark
           in if keep < 0 then [] else take (elide_loop amb s keep 0 0) s @ mark)"

section \<open>Widths of texts\<close>

lemma char_width_range: "char_width amb cp \<in> {0, 1, 2}"
  by (simp add: char_width_def)

abbreviation encode_text :: "char32 list \<Rightarrow> bytes" where
  "encode_text cs \<equiv> concat (map encode_utf8 cs)"

lemma text_cells_text:
  assumes "\<forall>c \<in> set cs. is_scalar c"
  shows "text_cells amb (encode_text cs) = sum_list (map (char_width amb) cs)"
proof -
  let ?s = "encode_text cs"
  have "text_loop amb ?s (length ([] :: bytes)) 0 = foldl (\<lambda>n cp. n + char_width amb cp) 0 cs"
    by (rule utf8.loop_visits[where loop = "text_loop amb ?s" and f = "\<lambda>n cp. n + char_width amb cp",
        OF text_loop.simps]) (use assms in auto)
  moreover have "foldl (\<lambda>n cp. n + char_width amb cp) acc cs = acc + sum_list (map (char_width amb) cs)" for acc
    by (induction cs arbitrary: acc) auto
  ultimately show ?thesis by (simp add: text_cells_def)
qed

lemma elide_loop_text:
  assumes "\<forall>c \<in> set (before @ rest). is_scalar c" "seen \<le> keep"
  shows "\<exists>kept dropped. rest = kept @ dropped
    \<and> elide_loop amb (encode_text (before @ rest)) keep (length (encode_text before)) seen
        = length (encode_text (before @ kept))
    \<and> seen + sum_list (map (char_width amb) kept) \<le> keep
    \<and> (dropped \<noteq> [] \<longrightarrow> keep < seen + sum_list (map (char_width amb) kept) + char_width amb (hd dropped))"
  using assms
proof (induction rest arbitrary: before seen)
  case Nil
  then show ?case by (subst elide_loop.simps) simp
next
  case (Cons c rest)
  let ?s = "encode_text (before @ c # rest)" and ?i = "length (encode_text before)"
  have c: "is_scalar c" using Cons.prems by simp
  have d: "utf8_decode ?s ?i = (c, length (encode_utf8 c))"
    using utf8_decode_encode[OF c, of "encode_text before" "encode_text rest"] by simp
  have lt: "?i < length ?s" using utf8.enc_nonempty[OF c] by simp
  show ?case
  proof (cases "seen + char_width amb c > keep")
    case True
    then have "elide_loop amb ?s keep ?i seen = ?i" using lt d by (subst elide_loop.simps) simp
    then show ?thesis using Cons.prems(2) True by (intro exI[of _ "[]"] exI[of _ "c # rest"]) simp
  next
    case False
    then have step: "elide_loop amb ?s keep ?i seen
        = elide_loop amb (encode_text ((before @ [c]) @ rest)) keep (length (encode_text (before @ [c])))
            (seen + char_width amb c)"
      using lt d by (subst elide_loop.simps) simp
    have p1: "\<forall>x \<in> set ((before @ [c]) @ rest). is_scalar x" using Cons.prems(1) by simp
    have p2: "seen + char_width amb c \<le> keep" using False by simp
    obtain kept dropped where "rest = kept @ dropped"
      "elide_loop amb (encode_text ((before @ [c]) @ rest)) keep (length (encode_text (before @ [c])))
          (seen + char_width amb c) = length (encode_text ((before @ [c]) @ kept))"
      "seen + char_width amb c + sum_list (map (char_width amb) kept) \<le> keep"
      "dropped \<noteq> [] \<longrightarrow> keep < seen + char_width amb c + sum_list (map (char_width amb) kept)
          + char_width amb (hd dropped)"
      using Cons.IH[OF p1 p2] by blast
    then show ?thesis using step by (intro exI[of _ "c # kept"] exI[of _ dropped]) (simp add: add.assoc)
  qed
qed

section \<open>Properties\<close>

text \<open>
  Eliding a well-formed text keeps whole characters only and never overflows its
  budget: the result is the text itself when it fits, and otherwise the longest prefix
  of its characters that leaves room for the mark, followed by the mark (nothing when
  not even the mark fits).
\<close>

theorem elide_within_budget:
  assumes "\<forall>c \<in> set cs. is_scalar c" and "\<forall>c \<in> set ms. is_scalar c" and "0 < cells"
  shows "text_cells amb (elide_to_cells amb (encode_text cs) cells (encode_text ms)) \<le> cells
    \<and> (if text_cells amb (encode_text cs) \<le> cells
       then elide_to_cells amb (encode_text cs) cells (encode_text ms) = encode_text cs
       else if cells < text_cells amb (encode_text ms)
       then elide_to_cells amb (encode_text cs) cells (encode_text ms) = []
       else \<exists>kept dropped. cs = kept @ dropped
         \<and> elide_to_cells amb (encode_text cs) cells (encode_text ms) = encode_text (kept @ ms)
         \<and> (dropped \<noteq> [] \<longrightarrow> cells < text_cells amb (encode_text (kept @ [hd dropped] @ ms))))"
proof -
  have empty: "text_cells amb [] = 0" using text_cells_text[of "[]" amb] by simp
  consider "text_cells amb (encode_text cs) \<le> cells"
    | "cells < text_cells amb (encode_text cs)" "cells < text_cells amb (encode_text ms)"
    | "cells < text_cells amb (encode_text cs)" "text_cells amb (encode_text ms) \<le> cells" by linarith
  then show ?thesis
  proof cases
    case 3
    define keep where "keep = cells - text_cells amb (encode_text ms)"
    have p: "\<forall>c \<in> set ([] @ cs). is_scalar c" "0 \<le> keep" using assms(1) 3 by (simp_all add: keep_def)
    obtain kept dropped where k: "cs = kept @ dropped"
      "elide_loop amb (encode_text cs) keep 0 0 = length (encode_text kept)"
      "sum_list (map (char_width amb) kept) \<le> keep"
      "dropped \<noteq> [] \<longrightarrow> keep < sum_list (map (char_width amb) kept) + char_width amb (hd dropped)"
      using elide_loop_text[OF p, of amb, unfolded append_Nil list.map(1) concat.simps(1) list.size(3) add_0] by blast
    have e: "elide_to_cells amb (encode_text cs) cells (encode_text ms) = encode_text (kept @ ms)"
      using 3 assms(3) k(1,2) by (simp add: elide_to_cells_def Let_def keep_def[symmetric])
        (simp add: keep_def)
    have w: "text_cells amb (encode_text xs) = sum_list (map (char_width amb) xs)"
      if "\<forall>c \<in> set xs. is_scalar c" for xs using text_cells_text[OF that] .
    have sc: "\<forall>c \<in> set kept. is_scalar c" "dropped \<noteq> [] \<Longrightarrow> is_scalar (hd dropped)"
      using assms(1) k(1) by auto
    have ws: "text_cells amb (encode_text (kept @ ms))
        = sum_list (map (char_width amb) kept) + text_cells amb (encode_text ms)"
      using w[of "kept @ ms"] w[of ms] sc assms(2) by (simp add: ball_Un)
    have "dropped \<noteq> [] \<longrightarrow> cells < text_cells amb (encode_text (kept @ [hd dropped] @ ms))"
    proof
      assume dn: "dropped \<noteq> []"
      then have "text_cells amb (encode_text (kept @ [hd dropped] @ ms))
          = sum_list (map (char_width amb) kept) + char_width amb (hd dropped) + text_cells amb (encode_text ms)"
        using w[of "kept @ [hd dropped] @ ms"] w[of ms] sc assms(2) by (simp add: ball_Un)
      then show "cells < text_cells amb (encode_text (kept @ [hd dropped] @ ms))"
        using k(4) dn by (simp add: keep_def)
    qed
    then show ?thesis using 3 e ws k(1,3) by (auto simp: keep_def)
  qed (use assms(3) empty in \<open>auto simp: elide_to_cells_def Let_def\<close>)
qed

theorem elide_within_budget_witness:
  "text_cells False (elide_to_cells False (encode_text [0x41, 0x4E00, 0x42]) 2 (encode_text [0x7E])) \<le> 2"
  using elide_within_budget[of "[0x41, 0x4E00, 0x42]" "[0x7E]" 2 False]
  by (simp add: is_scalar_def is_surrogate_def)

end
