(* ===== verification/Vt_Screen.thy ===== *)
theory Vt_Screen
  imports Vt_Scrollback Width
begin

text \<open>
  \<open>src/vt/screen.cpp\<close>: the grid of a terminal and its cursor.  The grid is the flat
  vector of the source, cell \<open>(x, y)\<close> at index \<open>y * cols + x\<close>.  Every operation of the
  class is one function of the same name on the record \<open>screen\<close>; the scrollback the
  screen points to is part of the state.  A loop over columns or rows is a \<open>foldl\<close> over
  the same range in the same order.
\<close>

section \<open>State\<close>

record saved_cursor =
  sv_x :: int
  sv_y :: int
  sv_wrap :: bool
  sv_style :: style
  sv_charset :: charset

definition saved_init :: saved_cursor where
  "saved_init = \<lparr>sv_x = 0, sv_y = 0, sv_wrap = False, sv_style = style_init, sv_charset = Ascii\<rparr>"

record screen =
  sc_cols :: int
  sc_rows :: int
  sc_grid :: "scell list"
  sc_tabs :: "bool list"
  sc_cx :: int
  sc_cy :: int
  sc_wrap :: bool
  sc_top :: int
  sc_bottom :: int
  sc_autowrap :: bool
  sc_charset :: charset
  sc_pen :: style
  sc_saved :: saved_cursor
  sc_alt :: bool
  sc_parked :: "scell list"
  sc_parked_cursor :: saved_cursor
  sc_parked_decsc :: saved_cursor
  sc_history :: "scrollback option"

definition kTabStop :: int where "kTabStop = 8"

definition fresh_tabs :: "int \<Rightarrow> bool list" where
  "fresh_tabs cols = map (\<lambda>x. x \<ge> kTabStop \<and> x mod kTabStop = 0) [0..cols - 1]"

definition reset_tabs :: "screen \<Rightarrow> screen" where
  "reset_tabs s = s\<lparr>sc_tabs := fresh_tabs (sc_cols s)\<rparr>"

definition screen_init :: "int \<Rightarrow> int \<Rightarrow> screen" where
  "screen_init cols rows =
     (let c = max 1 cols; r = max 1 rows in
      reset_tabs \<lparr>sc_cols = c, sc_rows = r, sc_grid = replicate (nat c * nat r) scell_init,
        sc_tabs = [], sc_cx = 0, sc_cy = 0, sc_wrap = False, sc_top = 0, sc_bottom = r - 1,
        sc_autowrap = True, sc_charset = Ascii, sc_pen = style_init, sc_saved = saved_init,
        sc_alt = False, sc_parked = [], sc_parked_cursor = saved_init,
        sc_parked_decsc = saved_init, sc_history = None\<rparr>)"

section \<open>Cells\<close>

definition erased :: "screen \<Rightarrow> scell" where
  "erased s = scell_init\<lparr>s_style := style_init\<lparr>st_bg := st_bg (sc_pen s)\<rparr>\<rparr>"

definition cell_index :: "screen \<Rightarrow> int \<Rightarrow> int \<Rightarrow> nat" where
  "cell_index s x y = nat y * nat (sc_cols s) + nat x"

definition put_cell :: "screen \<Rightarrow> int \<Rightarrow> int \<Rightarrow> scell \<Rightarrow> screen" where
  "put_cell s x y c = s\<lparr>sc_grid := (sc_grid s)[cell_index s x y := c]\<rparr>"

definition screen_at :: "screen \<Rightarrow> int \<Rightarrow> int \<Rightarrow> scell" where
  "screen_at s x y =
     (if x < 0 \<or> y < 0 \<or> x \<ge> sc_cols s \<or> y \<ge> sc_rows s then scell_init
      else sc_grid s ! cell_index s x y)"

definition clear_wide_at :: "screen \<Rightarrow> int \<Rightarrow> int \<Rightarrow> screen" where
  "clear_wide_at s x y =
     (let c = screen_at s x y in
      if s_width c = 2 \<and> x + 1 < sc_cols s then put_cell s (x + 1) y (erased s)
      else if s_width c = 0 \<and> x > 0 then put_cell s (x - 1) y (erased s)
      else s)"

definition break_wide_at :: "screen \<Rightarrow> int \<Rightarrow> int \<Rightarrow> screen" where
  "break_wide_at s x y =
     (let c = screen_at s x y in
      if s_width c = 2 \<and> x + 1 < sc_cols s then put_cell (put_cell s x y (erased s)) (x + 1) y (erased s)
      else if s_width c = 0 \<and> x > 0 then put_cell (put_cell s x y (erased s)) (x - 1) y (erased s)
      else s)"

section \<open>Scrolling\<close>

text \<open>\<open>grid_.begin() + top * cols_\<close> to \<open>grid_.begin() + (bottom + 1) * cols_\<close>, replaced by
  the result of a function on that slice.\<close>

definition on_slice :: "screen \<Rightarrow> int \<Rightarrow> int \<Rightarrow> (scell list \<Rightarrow> scell list) \<Rightarrow> screen" where
  "on_slice s tp bt f =
     (let first = nat tp * nat (sc_cols s); lst = nat (bt + 1) * nat (sc_cols s); g = sc_grid s
      in s\<lparr>sc_grid := take first g @ f (take (lst - first) (drop first g)) @ drop lst g\<rparr>)"

definition scroll_slice_up :: "screen \<Rightarrow> int \<Rightarrow> int \<Rightarrow> int \<Rightarrow> screen" where
  "scroll_slice_up s tp bt n =
     (if n \<le> 0 \<or> tp < 0 \<or> bt \<ge> sc_rows s \<or> tp > bt then s
      else let height = bt - tp + 1; k = nat n * nat (sc_cols s) in
        on_slice s tp bt (\<lambda>sl.
          if n \<ge> height then replicate (length sl) (erased s)
          else take (length sl - k) (rotate_at k sl) @ replicate k (erased s)))"

definition scroll_slice_down :: "screen \<Rightarrow> int \<Rightarrow> int \<Rightarrow> int \<Rightarrow> screen" where
  "scroll_slice_down s tp bt n =
     (if n \<le> 0 \<or> tp < 0 \<or> bt \<ge> sc_rows s \<or> tp > bt then s
      else let height = bt - tp + 1; k = nat n * nat (sc_cols s) in
        on_slice s tp bt (\<lambda>sl.
          if n \<ge> height then replicate (length sl) (erased s)
          else replicate k (erased s) @ drop k (rotate_at (length sl - k) sl)))"

definition scroll_up :: "screen \<Rightarrow> screen" where
  "scroll_up s =
     (let s1 = (case sc_history s of
          Some sb \<Rightarrow>
            if \<not> sc_alt s \<and> sc_top s = 0 \<and> sc_bottom s = sc_rows s - 1
            then s\<lparr>sc_history := Some (sb_push sb
                (take (nat (sc_cols s)) (drop (nat (sc_top s) * nat (sc_cols s)) (sc_grid s))))\<rparr>
            else s
        | None \<Rightarrow> s)
      in scroll_slice_up s1 (sc_top s) (sc_bottom s) 1)"

definition scroll_down :: "screen \<Rightarrow> screen" where
  "scroll_down s = scroll_slice_down s (sc_top s) (sc_bottom s) 1"

section \<open>Size and pages\<close>

text \<open>\<open>reshape\<close>, cell by cell: what is kept, the half of a wide character cut at the
  edge, and the filling.\<close>

definition reshape_cell :: "screen \<Rightarrow> scell list \<Rightarrow> int \<Rightarrow> int \<Rightarrow> int \<Rightarrow> int \<Rightarrow> scell" where
  "reshape_cell s g cols rows y x =
     (let keep_rows = min rows (sc_rows s); keep_cols = min cols (sc_cols s) in
      if y < keep_rows \<and> x < keep_cols then
        let c = g ! (nat y * nat (sc_cols s) + nat x)
        in if x = keep_cols - 1 \<and> s_width c = 2 then erased s else c
      else erased s)"

definition reshape :: "screen \<Rightarrow> scell list \<Rightarrow> int \<Rightarrow> int \<Rightarrow> scell list" where
  "reshape s g cols rows = concat (map (\<lambda>y. map (reshape_cell s g cols rows y) [0..cols - 1]) [0..rows - 1])"

definition resize :: "screen \<Rightarrow> int \<Rightarrow> int \<Rightarrow> screen" where
  "resize s cols0 rows0 =
     (let cols = max 1 cols0; rows = max 1 rows0 in
      if cols = sc_cols s \<and> rows = sc_rows s then s
      else
        let width_changed = (cols \<noteq> sc_cols s);
            s1 = (if sc_alt s
                  then s\<lparr>sc_parked := reshape s (sc_parked s) cols rows,
                         sc_grid := replicate (nat cols * nat rows) (erased s)\<rparr>
                  else s\<lparr>sc_grid := reshape s (sc_grid s) cols rows\<rparr>);
            s2 = s1\<lparr>sc_cols := cols, sc_rows := rows,
                    sc_cx := clampi (sc_cx s) 0 (cols - 1), sc_cy := clampi (sc_cy s) 0 (rows - 1),
                    sc_wrap := False,
                    sc_parked_cursor := (sc_parked_cursor s)
                      \<lparr>sv_x := clampi (sv_x (sc_parked_cursor s)) 0 (cols - 1),
                       sv_y := clampi (sv_y (sc_parked_cursor s)) 0 (rows - 1)\<rparr>,
                    sc_top := 0, sc_bottom := rows - 1\<rparr>
        in if width_changed then reset_tabs s2 else s2)"

definition cursor_now :: "screen \<Rightarrow> saved_cursor" where
  "cursor_now s = \<lparr>sv_x = sc_cx s, sv_y = sc_cy s, sv_wrap = sc_wrap s, sv_style = sc_pen s,
     sv_charset = sc_charset s\<rparr>"

definition enter_alt_screen :: "screen \<Rightarrow> screen" where
  "enter_alt_screen s =
     (if sc_alt s then s
      else s\<lparr>sc_parked := sc_grid s,
             sc_grid := replicate (nat (sc_cols s) * nat (sc_rows s)) (erased s),
             sc_parked_cursor := cursor_now s, sc_parked_decsc := sc_saved s,
             sc_saved := saved_init, sc_alt := True\<rparr>)"

definition leave_alt_screen :: "screen \<Rightarrow> screen" where
  "leave_alt_screen s =
     (if \<not> sc_alt s then s
      else let p = sc_parked_cursor s in
        s\<lparr>sc_grid := sc_parked s, sc_parked := sc_grid s,
          sc_cx := sv_x p, sc_cy := sv_y p, sc_wrap := sv_wrap p, sc_pen := sv_style p,
          sc_charset := sv_charset p, sc_saved := sc_parked_decsc s, sc_alt := False\<rparr>)"

section \<open>Writing and moving\<close>

definition line_feed :: "screen \<Rightarrow> screen" where
  "line_feed s =
     (let s1 = s\<lparr>sc_wrap := False\<rparr> in
      if sc_cy s1 = sc_bottom s1 then scroll_up s1
      else if sc_cy s1 + 1 < sc_rows s1 then s1\<lparr>sc_cy := sc_cy s1 + 1\<rparr>
      else s1)"

definition put_glyph :: "screen \<Rightarrow> char32 \<Rightarrow> int \<Rightarrow> screen" where
  "put_glyph s cp w =
     (let s1 = clear_wide_at s (sc_cx s) (sc_cy s);
          s2 = (if w = 2 \<and> sc_cx s + 1 < sc_cols s then clear_wide_at s1 (sc_cx s + 1) (sc_cy s) else s1);
          s3 = put_cell s2 (sc_cx s) (sc_cy s) \<lparr>s_ch = cp, s_width = nat w, s_style = sc_pen s\<rparr>;
          s4 = (if w = 2 \<and> sc_cx s + 1 < sc_cols s
                then put_cell s3 (sc_cx s + 1) (sc_cy s) \<lparr>s_ch = 0x20, s_width = 0, s_style = sc_pen s\<rparr>
                else s3);
          cx = sc_cx s + w
      in if cx \<ge> sc_cols s then s4\<lparr>sc_cx := sc_cols s - 1, sc_wrap := True\<rparr> else s4\<lparr>sc_cx := cx\<rparr>)"

definition print :: "bool \<Rightarrow> screen \<Rightarrow> char32 \<Rightarrow> screen" where
  "print amb s cp0 =
     (let cp = translate cp0 (sc_charset s); w = max 0 (char_width amb cp) in
      if w = 0 then s
      else
        let s1 = (if sc_wrap s \<and> sc_autowrap s then line_feed (s\<lparr>sc_wrap := False, sc_cx := 0\<rparr>) else s)
        in if w = 2 \<and> sc_cx s1 + 1 \<ge> sc_cols s1 then
             if \<not> sc_autowrap s1 then s1
             else put_glyph (line_feed (s1\<lparr>sc_cx := 0\<rparr>)) cp w
           else put_glyph s1 cp w)"

definition carriage_return :: "screen \<Rightarrow> screen" where
  "carriage_return s = s\<lparr>sc_wrap := False, sc_cx := 0\<rparr>"

definition backspace :: "screen \<Rightarrow> screen" where
  "backspace s =
     (if sc_wrap s then s\<lparr>sc_wrap := False\<rparr>
      else if sc_cx s > 0 then s\<lparr>sc_cx := sc_cx s - 1\<rparr> else s)"

definition tab :: "screen \<Rightarrow> screen" where
  "tab s =
     (let s1 = s\<lparr>sc_wrap := False\<rparr> in
      case find (\<lambda>x. sc_tabs s1 ! nat x) [sc_cx s1 + 1..sc_cols s1 - 1] of
        Some x \<Rightarrow> s1\<lparr>sc_cx := x\<rparr>
      | None \<Rightarrow> s1\<lparr>sc_cx := sc_cols s1 - 1\<rparr>)"

definition index :: "screen \<Rightarrow> screen" where
  "index s = line_feed s"

definition reverse_index :: "screen \<Rightarrow> screen" where
  "reverse_index s =
     (let s1 = s\<lparr>sc_wrap := False\<rparr> in
      if sc_cy s1 = sc_top s1 then scroll_down s1
      else if sc_cy s1 > 0 then s1\<lparr>sc_cy := sc_cy s1 - 1\<rparr> else s1)"

definition next_line :: "screen \<Rightarrow> screen" where
  "next_line s = line_feed (carriage_return s)"

definition move_to :: "screen \<Rightarrow> int \<Rightarrow> int \<Rightarrow> screen" where
  "move_to s x y =
     s\<lparr>sc_wrap := False, sc_cx := clampi x 0 (sc_cols s - 1), sc_cy := clampi y 0 (sc_rows s - 1)\<rparr>"

definition move_up :: "screen \<Rightarrow> int \<Rightarrow> screen" where
  "move_up s n = move_to s (sc_cx s) (sc_cy s - max 1 n)"
definition move_down :: "screen \<Rightarrow> int \<Rightarrow> screen" where
  "move_down s n = move_to s (sc_cx s) (sc_cy s + max 1 n)"
definition move_right :: "screen \<Rightarrow> int \<Rightarrow> screen" where
  "move_right s n = move_to s (sc_cx s + max 1 n) (sc_cy s)"

definition move_left :: "screen \<Rightarrow> int \<Rightarrow> screen" where
  "move_left s n =
     (let steps = max 1 n;
          steps' = (if sc_wrap s then steps - 1 else steps);
          s1 = (if sc_wrap s then s\<lparr>sc_wrap := False\<rparr> else s)
      in move_to s1 (sc_cx s1 - steps') (sc_cy s1))"

definition set_column :: "screen \<Rightarrow> int \<Rightarrow> screen" where
  "set_column s x = move_to s x (sc_cy s)"
definition set_row :: "screen \<Rightarrow> int \<Rightarrow> screen" where
  "set_row s y = move_to s (sc_cx s) y"

definition set_tab :: "screen \<Rightarrow> screen" where
  "set_tab s =
     (if sc_cx s \<ge> 0 \<and> sc_cx s < sc_cols s then s\<lparr>sc_tabs := (sc_tabs s)[nat (sc_cx s) := True]\<rparr> else s)"
definition clear_tab :: "screen \<Rightarrow> screen" where
  "clear_tab s =
     (if sc_cx s \<ge> 0 \<and> sc_cx s < sc_cols s then s\<lparr>sc_tabs := (sc_tabs s)[nat (sc_cx s) := False]\<rparr> else s)"
definition clear_all_tabs :: "screen \<Rightarrow> screen" where
  "clear_all_tabs s = s\<lparr>sc_tabs := replicate (length (sc_tabs s)) False\<rparr>"

section \<open>Erasing and editing\<close>

definition erase_span :: "screen \<Rightarrow> int \<Rightarrow> int \<Rightarrow> int \<Rightarrow> screen" where
  "erase_span s x0 x1 y =
     (if y < 0 \<or> y \<ge> sc_rows s then s
      else let a = max 0 x0; b = min (sc_cols s - 1) x1 in
        if a > b then s
        else foldl (\<lambda>s x. put_cell s x y (erased s)) (clear_wide_at (clear_wide_at s a y) b y) [a..b])"

definition erase_rows :: "screen \<Rightarrow> int list \<Rightarrow> screen" where
  "erase_rows s ys = foldl (\<lambda>s y. erase_span s 0 (sc_cols s - 1) y) s ys"

definition erase_display :: "screen \<Rightarrow> int \<Rightarrow> screen" where
  "erase_display s mode =
     (if mode = 0 then
        erase_rows (erase_span s (sc_cx s) (sc_cols s - 1) (sc_cy s)) [sc_cy s + 1..sc_rows s - 1]
      else if mode = 1 then erase_span (erase_rows s [0..sc_cy s - 1]) 0 (sc_cx s) (sc_cy s)
      else if mode = 2 then erase_rows s [0..sc_rows s - 1]
      else s)"

definition erase_line :: "screen \<Rightarrow> int \<Rightarrow> screen" where
  "erase_line s mode =
     (if mode = 0 then erase_span s (sc_cx s) (sc_cols s - 1) (sc_cy s)
      else if mode = 1 then erase_span s 0 (sc_cx s) (sc_cy s)
      else if mode = 2 then erase_span s 0 (sc_cols s - 1) (sc_cy s)
      else s)"

definition erase_chars :: "screen \<Rightarrow> int \<Rightarrow> screen" where
  "erase_chars s n = erase_span s (sc_cx s) (sc_cx s + n - 1) (sc_cy s)"

definition insert_chars :: "screen \<Rightarrow> int \<Rightarrow> screen" where
  "insert_chars s n0 =
     (if n0 \<le> 0 \<or> sc_cx s \<ge> sc_cols s then s
      else
        let n = min n0 (sc_cols s - sc_cx s); cx = sc_cx s; cy = sc_cy s;
            s1 = break_wide_at s cx cy;
            s2 = foldl (\<lambda>s x. put_cell s x cy (screen_at s (x - n) cy)) s1 (rev [cx + n..sc_cols s - 1]);
            s3 = erase_span s2 cx (cx + n - 1) cy
        in if s_width (screen_at s3 (sc_cols s3 - 1) cy) = 2
           then put_cell s3 (sc_cols s3 - 1) cy (erased s3) else s3)"

definition delete_chars :: "screen \<Rightarrow> int \<Rightarrow> screen" where
  "delete_chars s n0 =
     (if n0 \<le> 0 \<or> sc_cx s \<ge> sc_cols s then s
      else
        let n = min n0 (sc_cols s - sc_cx s); cx = sc_cx s; cy = sc_cy s;
            s1 = break_wide_at (break_wide_at s cx cy) (cx + n) cy;
            s2 = foldl (\<lambda>s x. put_cell s x cy (screen_at s (x + n) cy)) s1 [cx..sc_cols s - n - 1]
        in erase_span s2 (sc_cols s2 - n) (sc_cols s2 - 1) cy)"

definition insert_lines :: "screen \<Rightarrow> int \<Rightarrow> screen" where
  "insert_lines s n =
     (if n \<le> 0 \<or> sc_cy s < sc_top s \<or> sc_cy s > sc_bottom s then s
      else scroll_slice_down s (sc_cy s) (sc_bottom s) n)"

definition delete_lines :: "screen \<Rightarrow> int \<Rightarrow> screen" where
  "delete_lines s n =
     (if n \<le> 0 \<or> sc_cy s < sc_top s \<or> sc_cy s > sc_bottom s then s
      else scroll_slice_up s (sc_cy s) (sc_bottom s) n)"

section \<open>Scroll region and saved cursor\<close>

definition set_scroll_region :: "screen \<Rightarrow> int \<Rightarrow> int \<Rightarrow> screen" where
  "set_scroll_region s tp0 bt0 =
     (let tp = max 0 tp0; bt = min (sc_rows s - 1) bt0 in
      if bt - tp < 1 then s
      else s\<lparr>sc_top := tp, sc_bottom := bt, sc_cx := 0, sc_cy := 0, sc_wrap := False\<rparr>)"

definition reset_scroll_region :: "screen \<Rightarrow> screen" where
  "reset_scroll_region s =
     s\<lparr>sc_top := 0, sc_bottom := sc_rows s - 1, sc_cx := 0, sc_cy := 0, sc_wrap := False\<rparr>"

definition save_cursor :: "screen \<Rightarrow> screen" where
  "save_cursor s = s\<lparr>sc_saved := cursor_now s\<rparr>"

definition restore_cursor :: "screen \<Rightarrow> screen" where
  "restore_cursor s =
     (let v = sc_saved s; cx = clampi (sv_x v) 0 (sc_cols s - 1) in
      s\<lparr>sc_cx := cx, sc_cy := clampi (sv_y v) 0 (sc_rows s - 1),
        sc_wrap := (sv_wrap v \<and> cx = sc_cols s - 1),
        sc_charset := sv_charset v, sc_pen := sv_style v\<rparr>)"

section \<open>Reading a line\<close>

definition append_utf8 :: "char32 \<Rightarrow> bytes" where
  "append_utf8 cp =
     (if cp < 0x80 then [ucast cp]
      else if cp < 0x800 then
        [ucast (0xC0 OR drop_bit 6 cp), ucast (0x80 OR (cp AND 0x3F))]
      else if cp < 0x10000 then
        [ucast (0xE0 OR drop_bit 12 cp), ucast (0x80 OR (drop_bit 6 cp AND 0x3F)),
         ucast (0x80 OR (cp AND 0x3F))]
      else
        [ucast (0xF0 OR drop_bit 18 cp), ucast (0x80 OR (drop_bit 12 cp AND 0x3F)),
         ucast (0x80 OR (drop_bit 6 cp AND 0x3F)), ucast (0x80 OR (cp AND 0x3F))])"

definition line_text :: "screen \<Rightarrow> int \<Rightarrow> bytes" where
  "line_text s y =
     (if y < 0 \<or> y \<ge> sc_rows s then []
      else
        let lst = foldl (\<lambda>l x. let c = screen_at s x y in
                    if s_width c \<noteq> 0 \<and> s_ch c \<noteq> 0x20 then x else l) (-1) [0..sc_cols s - 1]
        in concat (map (\<lambda>x. let c = screen_at s x y in if s_width c = 0 then [] else append_utf8 (s_ch c))
                     [0..lst]))"

end
