(* ===== verification/Vt_Screen_Inv.thy ===== *)
theory Vt_Screen_Inv
  imports Vt_Screen
begin

text \<open>
  The invariant of the screen and the proof that every operation keeps it.  Most
  operations change cells of the visible page only (\<open>grid_only\<close>); the orders of the guest
  (\<open>guest_op\<close>) moreover leave alone the page kept aside by the alternate screen
  (\<open>good_op\<close>).  \<open>screen_step\<close> is the class as a state machine, one rule per public
  operation.
\<close>

section \<open>Invariant\<close>

definition hist_ok :: "scrollback option \<Rightarrow> bool" where
  "hist_ok h \<longleftrightarrow> (case h of None \<Rightarrow> True | Some sb \<Rightarrow> sb_ok sb)"

definition screen_ok :: "screen \<Rightarrow> bool" where
  "screen_ok s \<longleftrightarrow> 1 \<le> sc_cols s \<and> 1 \<le> sc_rows s
     \<and> length (sc_grid s) = nat (sc_cols s) * nat (sc_rows s) \<and> length (sc_tabs s) = nat (sc_cols s)
     \<and> 0 \<le> sc_cx s \<and> sc_cx s < sc_cols s \<and> 0 \<le> sc_cy s \<and> sc_cy s < sc_rows s
     \<and> 0 \<le> sc_top s \<and> sc_top s \<le> sc_bottom s \<and> sc_bottom s < sc_rows s
     \<and> (sc_alt s \<longrightarrow> length (sc_parked s) = nat (sc_cols s) * nat (sc_rows s)
          \<and> 0 \<le> sv_x (sc_parked_cursor s) \<and> sv_x (sc_parked_cursor s) < sc_cols s
          \<and> 0 \<le> sv_y (sc_parked_cursor s) \<and> sv_y (sc_parked_cursor s) < sc_rows s)
     \<and> hist_ok (sc_history s)"

text \<open>An operation that changes the visible page only, in place.\<close>

definition grid_only :: "screen \<Rightarrow> screen \<Rightarrow> bool" where
  "grid_only s s' \<longleftrightarrow> s' = s\<lparr>sc_grid := sc_grid s'\<rparr> \<and> length (sc_grid s') = length (sc_grid s)"

lemma grid_only_refl [simp]: "grid_only s s"
  by (simp add: grid_only_def)

lemma grid_only_trans [trans]: "grid_only a b \<Longrightarrow> grid_only b c \<Longrightarrow> grid_only a c"
  unfolding grid_only_def by (cases a, cases b, cases c) simp

lemma grid_only_sel:
  assumes "grid_only s s'"
  shows "sc_cols s' = sc_cols s" "sc_rows s' = sc_rows s" "sc_tabs s' = sc_tabs s" "sc_cx s' = sc_cx s"
    "sc_cy s' = sc_cy s" "sc_wrap s' = sc_wrap s" "sc_top s' = sc_top s" "sc_bottom s' = sc_bottom s"
    "sc_autowrap s' = sc_autowrap s" "sc_charset s' = sc_charset s" "sc_pen s' = sc_pen s"
    "sc_saved s' = sc_saved s" "sc_alt s' = sc_alt s" "sc_parked s' = sc_parked s"
    "sc_parked_cursor s' = sc_parked_cursor s" "sc_parked_decsc s' = sc_parked_decsc s"
    "sc_history s' = sc_history s" "length (sc_grid s') = length (sc_grid s)"
proof -
  obtain g where g: "s' = s\<lparr>sc_grid := g\<rparr>" using assms by (auto simp: grid_only_def)
  show "sc_cols s' = sc_cols s" "sc_rows s' = sc_rows s" "sc_tabs s' = sc_tabs s" "sc_cx s' = sc_cx s"
    "sc_cy s' = sc_cy s" "sc_wrap s' = sc_wrap s" "sc_top s' = sc_top s" "sc_bottom s' = sc_bottom s"
    "sc_autowrap s' = sc_autowrap s" "sc_charset s' = sc_charset s" "sc_pen s' = sc_pen s"
    "sc_saved s' = sc_saved s" "sc_alt s' = sc_alt s" "sc_parked s' = sc_parked s"
    "sc_parked_cursor s' = sc_parked_cursor s" "sc_parked_decsc s' = sc_parked_decsc s"
    "sc_history s' = sc_history s" by (simp_all add: g)
  show "length (sc_grid s') = length (sc_grid s)" using assms by (simp add: grid_only_def)
qed

lemma grid_only_ok: "screen_ok s \<Longrightarrow> grid_only s s' \<Longrightarrow> screen_ok s'"
  unfolding screen_ok_def by (simp only: grid_only_sel) simp

lemma put_cell_grid [simp]: "grid_only s (put_cell s x y c)"
  by (simp add: grid_only_def put_cell_def)

lemma grid_only_put: "grid_only s s' \<Longrightarrow> grid_only s (put_cell s' x y c)"
  using grid_only_trans put_cell_grid by blast

lemma clear_wide_at_grid [simp]: "grid_only s (clear_wide_at s x y)"
  by (simp add: clear_wide_at_def Let_def)

lemma break_wide_at_grid [simp]: "grid_only s (break_wide_at s x y)"
  by (simp add: break_wide_at_def Let_def grid_only_put)

lemma grid_only_foldl: "(\<And>s x. grid_only s (f s x)) \<Longrightarrow> grid_only s (foldl f s xs)"
  by (induction xs arbitrary: s) (auto intro: grid_only_trans)

lemma erase_span_grid [simp]: "grid_only s (erase_span s a b y)"
proof -
  have "grid_only s (clear_wide_at (clear_wide_at s c y) d y)" for c d
    using grid_only_trans clear_wide_at_grid by blast
  then have "grid_only s (foldl (\<lambda>s x. put_cell s x y (erased s)) (clear_wide_at (clear_wide_at s c y) d y) xs)" for c d xs
    using grid_only_trans grid_only_foldl[of "\<lambda>s x. put_cell s x y (erased s)"] put_cell_grid by blast
  then show ?thesis by (simp add: erase_span_def Let_def)
qed

lemma erase_rows_grid [simp]: "grid_only s (erase_rows s ys)"
  unfolding erase_rows_def by (rule grid_only_foldl) simp

lemma erase_display_grid [simp]: "grid_only s (erase_display s m)"
  unfolding erase_display_def using grid_only_trans erase_rows_grid erase_span_grid by (smt (verit) grid_only_refl)

lemma erase_line_grid [simp]: "grid_only s (erase_line s m)"
  by (simp add: erase_line_def)

lemma erase_chars_grid [simp]: "grid_only s (erase_chars s n)"
  by (simp add: erase_chars_def)

lemma insert_chars_grid [simp]: "grid_only s (insert_chars s n)"
proof -
  have "grid_only s (erase_span (foldl (\<lambda>s x. put_cell s x y (screen_at s (x - k) y)) (break_wide_at s a b) xs) c d e)"
    for y k a b xs c d e
    by (rule grid_only_trans[OF grid_only_trans[OF break_wide_at_grid[of s a b] grid_only_foldl] erase_span_grid]) simp
  then show ?thesis by (simp add: insert_chars_def Let_def grid_only_put)
qed

lemma delete_chars_grid [simp]: "grid_only s (delete_chars s n)"
proof -
  have "grid_only s (erase_span (foldl (\<lambda>s x. put_cell s x y (screen_at s (x + k) y)) (break_wide_at (break_wide_at s a b) a' b) xs) c d e)"
    for y k a a' b xs c d e
    by (rule grid_only_trans[OF grid_only_trans[OF grid_only_trans[OF break_wide_at_grid[of s a b] break_wide_at_grid[of _ a' b]] grid_only_foldl] erase_span_grid]) simp
  then show ?thesis by (simp add: delete_chars_def Let_def)
qed

lemma slice_len:
  assumes "0 \<le> tp" "tp \<le> bt" "bt < r" "length g = c * nat r"
  shows "length (take (nat (bt + 1) * c - nat tp * c) (drop (nat tp * c) g)) = nat (bt + 1 - tp) * c"
    and "nat tp * c + nat (bt + 1 - tp) * c + (length g - nat (bt + 1) * c) = length g"
    and "nat (bt + 1) * c = nat tp * c + nat (bt + 1 - tp) * c"
proof -
  have t: "nat (bt + 1) = nat tp + nat (bt + 1 - tp)" using assms by linarith
  have "nat (bt + 1) \<le> nat r" using assms by linarith
  then have "nat (bt + 1) * c \<le> length g" using assms(4) by (metis mult.commute mult_le_mono1)
  then show "length (take (nat (bt + 1) * c - nat tp * c) (drop (nat tp * c) g)) = nat (bt + 1 - tp) * c"
    "nat tp * c + nat (bt + 1 - tp) * c + (length g - nat (bt + 1) * c) = length g"
    "nat (bt + 1) * c = nat tp * c + nat (bt + 1 - tp) * c"
    by (simp_all add: t add_mult_distrib)
qed

lemma on_slice_grid:
  assumes "0 \<le> tp" "tp \<le> bt" "bt < sc_rows s" "length (sc_grid s) = nat (sc_cols s) * nat (sc_rows s)"
    and "\<And>sl. length sl = nat (bt + 1 - tp) * nat (sc_cols s) \<Longrightarrow> length (f sl) = length sl"
  shows "grid_only s (on_slice s tp bt f)"
  using assms(5)[OF slice_len(1)[OF assms(1-4)]] slice_len[OF assms(1-4)]
  by (simp add: grid_only_def on_slice_def Let_def)

lemma scroll_k:
  assumes "0 \<le> tp" "tp \<le> bt" "0 < n" "n < bt - tp + 1"
  shows "nat n * c \<le> nat (bt + 1 - tp) * c"
  using assms by (intro mult_le_mono1) linarith

lemma scroll_slice_up_grid: "screen_ok s \<Longrightarrow> grid_only s (scroll_slice_up s tp bt n)"
  using scroll_k[of tp bt n "nat (sc_cols s)"]
  by (auto simp: scroll_slice_up_def Let_def screen_ok_def intro!: on_slice_grid)

lemma scroll_slice_down_grid: "screen_ok s \<Longrightarrow> grid_only s (scroll_slice_down s tp bt n)"
  using scroll_k[of tp bt n "nat (sc_cols s)"]
  by (auto simp: scroll_slice_down_def Let_def screen_ok_def intro!: on_slice_grid)

section \<open>What every order of the guest keeps\<close>

text \<open>The size, the page kept aside by the alternate screen, and, inside the alternate
  screen, the history: no order but \<open>enter_alt_screen\<close>, \<open>leave_alt_screen\<close> and \<open>resize\<close>
  touches them.\<close>

definition keeps_page :: "screen \<Rightarrow> screen \<Rightarrow> bool" where
  "keeps_page s s' \<longleftrightarrow> sc_cols s' = sc_cols s \<and> sc_rows s' = sc_rows s \<and> sc_alt s' = sc_alt s
     \<and> sc_parked s' = sc_parked s \<and> sc_parked_cursor s' = sc_parked_cursor s
     \<and> sc_parked_decsc s' = sc_parked_decsc s \<and> (sc_alt s \<longrightarrow> sc_history s' = sc_history s)"

definition good_op :: "screen \<Rightarrow> screen \<Rightarrow> bool" where
  "good_op s s' \<longleftrightarrow> (screen_ok s \<longrightarrow> screen_ok s' \<and> keeps_page s s')"

lemma good_op_refl [simp]: "good_op s s"
  by (simp add: good_op_def keeps_page_def)

lemma good_op_trans [trans]: "good_op a b \<Longrightarrow> good_op b c \<Longrightarrow> good_op a c"
  by (auto simp: good_op_def keeps_page_def)

lemma grid_only_good: "grid_only s s' \<Longrightarrow> good_op s s'"
  using grid_only_ok by (auto simp: good_op_def keeps_page_def grid_only_sel)

lemma good_if_ok_grid: "(screen_ok s \<Longrightarrow> grid_only s s') \<Longrightarrow> good_op s s'"
  using grid_only_good by (auto simp: good_op_def)

named_theorems ops \<open>every screen operation is a good one\<close>

lemma good_cursor [ops]:
  assumes "screen_ok s \<Longrightarrow> 0 \<le> x \<and> x < sc_cols s \<and> 0 \<le> y \<and> y < sc_rows s"
  shows "good_op s (s\<lparr>sc_wrap := w, sc_cx := x, sc_cy := y\<rparr>)"
  using assms by (auto simp: good_op_def keeps_page_def screen_ok_def)

lemma good_wrap [ops]: "good_op s (s\<lparr>sc_wrap := w\<rparr>)"
  by (auto simp: good_op_def keeps_page_def screen_ok_def)

lemma good_grids [ops]:
  "good_op s (erase_display s m)" "good_op s (erase_line s m)" "good_op s (erase_chars s n)"
  "good_op s (insert_chars s n)" "good_op s (delete_chars s n)" "good_op s (scroll_slice_up s tp bt n)"
  "good_op s (scroll_slice_down s tp bt n)" "good_op s (clear_wide_at s x y)" "good_op s (put_cell s x y c)"
  using scroll_slice_up_grid scroll_slice_down_grid by (auto intro!: good_if_ok_grid)

lemma good_lines [ops]: "good_op s (insert_lines s n)" "good_op s (delete_lines s n)" "good_op s (scroll_down s)"
  by (simp_all add: insert_lines_def delete_lines_def scroll_down_def good_grids)

lemma good_scroll_up [ops]: "good_op s (scroll_up s)"
proof -
  have "good_op s (s\<lparr>sc_history := Some (sb_push sb c)\<rparr>)" if "sc_history s = Some sb" "\<not> sc_alt s" for sb c
    using that sb_push_ok by (auto simp: good_op_def keeps_page_def screen_ok_def hist_ok_def)
  then have "good_op s (case sc_history s of None \<Rightarrow> s | Some sb \<Rightarrow>
      if \<not> sc_alt s \<and> P then s\<lparr>sc_history := Some (sb_push sb c)\<rparr> else s)" for P c
    by (auto split: option.splits)
  then show ?thesis unfolding scroll_up_def Let_def
    by (rule good_op_trans) (rule good_grids)
qed

lemma good_line_feed [ops]: "good_op s (line_feed s)"
proof -
  have "good_op s (scroll_up (s\<lparr>sc_wrap := False\<rparr>))" using good_op_trans[OF good_wrap good_scroll_up] .
  moreover have "good_op s (s\<lparr>sc_wrap := False, sc_cy := sc_cy s + 1\<rparr>)" if "sc_cy s + 1 < sc_rows s"
    using that by (auto simp: good_op_def keeps_page_def screen_ok_def)
  ultimately show ?thesis by (simp add: line_feed_def Let_def good_wrap)
qed

lemma good_reverse_index [ops]: "good_op s (reverse_index s)"
proof -
  have "good_op s (scroll_down (s\<lparr>sc_wrap := False\<rparr>))" using good_op_trans[OF good_wrap good_lines(3)] .
  moreover have "good_op s (s\<lparr>sc_wrap := False, sc_cy := sc_cy s - 1\<rparr>)" if "0 < sc_cy s"
    using that by (auto simp: good_op_def keeps_page_def screen_ok_def)
  ultimately show ?thesis by (simp add: reverse_index_def Let_def good_wrap)
qed

lemma good_cr [ops]: "good_op s (carriage_return s)" "good_op s (backspace s)" "good_op s (index s)"
  "good_op s (next_line s)"
proof -
  show c: "good_op s (carriage_return s)" for s by (auto simp: carriage_return_def good_op_def keeps_page_def screen_ok_def)
  show "good_op s (backspace s)" by (auto simp: backspace_def good_op_def keeps_page_def screen_ok_def)
  show "good_op s (index s)" by (simp add: index_def good_line_feed)
  show "good_op s (next_line s)" unfolding next_line_def by (rule good_op_trans[OF c good_line_feed])
qed

lemma good_move_to [ops]: "good_op s (move_to s x y)"
  using clampi_bounds[of 0 "sc_cols s - 1" x] clampi_bounds[of 0 "sc_rows s - 1" y]
  by (auto simp: move_to_def good_op_def keeps_page_def screen_ok_def)

lemma good_moves [ops]: "good_op s (move_up s n)" "good_op s (move_down s n)" "good_op s (move_right s n)"
  "good_op s (move_left s n)" "good_op s (set_column s n)" "good_op s (set_row s n)"
  by (simp_all add: move_up_def move_down_def move_right_def move_left_def set_column_def set_row_def
      Let_def good_move_to good_op_trans[OF good_wrap good_move_to])

lemma good_tab [ops]: "good_op s (tab s)"
proof -
  have "sc_cx s + 1 \<le> x \<and> x \<le> sc_cols s - 1"
    if "find (\<lambda>x. sc_tabs s ! nat x) [sc_cx s + 1..sc_cols s - 1] = Some x" for x
    using that by (auto simp: find_Some_iff)
  then show ?thesis
    by (auto simp: tab_def Let_def good_op_def keeps_page_def screen_ok_def split: option.splits)
qed

lemma good_tabs [ops]: "good_op s (set_tab s)" "good_op s (clear_tab s)" "good_op s (clear_all_tabs s)"
  by (auto simp: set_tab_def clear_tab_def clear_all_tabs_def good_op_def keeps_page_def screen_ok_def)

lemma good_region [ops]: "good_op s (set_scroll_region s a b)" "good_op s (reset_scroll_region s)"
  by (auto simp: set_scroll_region_def reset_scroll_region_def Let_def good_op_def keeps_page_def screen_ok_def)

lemma good_saved [ops]: "good_op s (save_cursor s)" "good_op s (restore_cursor s)"
  using clampi_bounds[of 0 "sc_cols s - 1" "sv_x (sc_saved s)"] clampi_bounds[of 0 "sc_rows s - 1" "sv_y (sc_saved s)"]
  by (auto simp: save_cursor_def restore_cursor_def Let_def good_op_def keeps_page_def screen_ok_def)

lemma good_pen [ops]: "good_op s (s\<lparr>sc_pen := p\<rparr>)" "good_op s (s\<lparr>sc_charset := c\<rparr>)" "good_op s (s\<lparr>sc_autowrap := b\<rparr>)"
  by (auto simp: good_op_def keeps_page_def screen_ok_def)

lemma put_glyph_grid:
  fixes s cp w
  defines "s4 \<equiv> (let s1 = clear_wide_at s (sc_cx s) (sc_cy s);
          s2 = (if w = 2 \<and> sc_cx s + 1 < sc_cols s then clear_wide_at s1 (sc_cx s + 1) (sc_cy s) else s1);
          s3 = put_cell s2 (sc_cx s) (sc_cy s) \<lparr>s_ch = cp, s_width = nat w, s_style = sc_pen s\<rparr>
       in if w = 2 \<and> sc_cx s + 1 < sc_cols s
          then put_cell s3 (sc_cx s + 1) (sc_cy s) \<lparr>s_ch = 0x20, s_width = 0, s_style = sc_pen s\<rparr>
          else s3)"
  shows "put_glyph s cp w = (if sc_cx s + w \<ge> sc_cols s then s4\<lparr>sc_cx := sc_cols s - 1, sc_wrap := True\<rparr>
    else s4\<lparr>sc_cx := sc_cx s + w\<rparr>)" and "grid_only s s4"
  unfolding s4_def put_glyph_def Let_def
  using grid_only_trans[OF clear_wide_at_grid clear_wide_at_grid] by (simp_all add: grid_only_put)

lemma good_put_glyph: "0 \<le> w \<Longrightarrow> good_op s (put_glyph s cp w)"
proof -
  assume w: "0 \<le> w"
  obtain s4 where e: "put_glyph s cp w = (if sc_cx s + w \<ge> sc_cols s then s4\<lparr>sc_cx := sc_cols s - 1, sc_wrap := True\<rparr>
    else s4\<lparr>sc_cx := sc_cx s + w\<rparr>)" and g: "grid_only s s4" using put_glyph_grid by blast
  have "good_op s4 (put_glyph s cp w)" unfolding e
    using w by (auto simp: good_op_def keeps_page_def screen_ok_def grid_only_sel[OF g])
  then show ?thesis using good_op_trans[OF grid_only_good[OF g]] by blast
qed

lemma good_print [ops]: "good_op s (print amb s cp)"
proof -
  have h: "good_op s (s\<lparr>sc_wrap := False, sc_cx := 0\<rparr>)" "good_op s (s\<lparr>sc_cx := 0\<rparr>)" for s
    by (auto simp: good_op_def keeps_page_def screen_ok_def)
  have lf: "good_op s (line_feed (s\<lparr>sc_wrap := False, sc_cx := 0\<rparr>))" "good_op s (line_feed (s\<lparr>sc_cx := 0\<rparr>))" for s
    using good_op_trans[OF h(1) good_line_feed] good_op_trans[OF h(2) good_line_feed] by blast+
  define w where "w = max 0 (char_width amb (translate cp (sc_charset s)))"
  have w_nonneg: "0 \<le> w" by (simp add: w_def)
  define s1 where "s1 = (if sc_wrap s \<and> sc_autowrap s then line_feed (s\<lparr>sc_wrap := False, sc_cx := 0\<rparr>) else s)"
  have s1: "good_op s s1" by (simp add: s1_def lf)
  have "good_op s (put_glyph (line_feed (s1\<lparr>sc_cx := 0\<rparr>)) cp' w)" "good_op s (put_glyph s1 cp' w)" for cp'
    by (rule good_op_trans[OF s1 good_op_trans[OF lf(2) good_put_glyph[OF w_nonneg]]],
        rule good_op_trans[OF s1 good_put_glyph[OF w_nonneg]])
  then show ?thesis unfolding print_def Let_def w_def[symmetric] s1_def[symmetric]
    by (simp only: s1 good_op_refl split: if_split) simp
qed

section \<open>Pages and sizes\<close>

lemma length_reshape: "length (reshape s g cols rows) = nat cols * nat rows"
proof -
  have "length (concat (map (\<lambda>y. map (f y) [0..cols - 1]) ys)) = nat cols * length ys" for f :: "int \<Rightarrow> int \<Rightarrow> scell" and ys
    by (induction ys) simp_all
  then show ?thesis by (simp add: reshape_def)
qed

lemma length_fresh_tabs [simp]: "length (fresh_tabs c) = nat c"
  by (simp add: fresh_tabs_def)

lemma screen_init_ok: "screen_ok (screen_init c r)"
  by (auto simp: screen_init_def screen_ok_def reset_tabs_def Let_def hist_ok_def)

lemma resize_ok: "screen_ok s \<Longrightarrow> screen_ok (resize s c0 r0)"
proof -
  assume ok: "screen_ok s"
  define c r where "c = max 1 c0" and "r = max 1 r0"
  have p: "1 \<le> c" "1 \<le> r" by (simp_all add: c_def r_def)
  have b: "0 \<le> clampi v 0 (c - 1)" "clampi v 0 (c - 1) < c" "0 \<le> clampi v 0 (r - 1)" "clampi v 0 (r - 1) < r" for v
    using clampi_bounds[of 0 "c - 1" v] clampi_bounds[of 0 "r - 1" v] p by linarith+
  show ?thesis
  proof (cases "c = sc_cols s")
    case True
    then show ?thesis using ok p b unfolding resize_def c_def[symmetric] r_def[symmetric]
      by (simp add: Let_def screen_ok_def length_reshape)
  next
    case False
    then show ?thesis using ok p b unfolding resize_def c_def[symmetric] r_def[symmetric]
      by (simp add: Let_def screen_ok_def length_reshape reset_tabs_def)
  qed
qed

lemma enter_alt_ok: "screen_ok s \<Longrightarrow> screen_ok (enter_alt_screen s)"
  by (simp add: enter_alt_screen_def screen_ok_def cursor_now_def)

lemma leave_alt_ok: "screen_ok s \<Longrightarrow> screen_ok (leave_alt_screen s)"
  by (simp add: leave_alt_screen_def screen_ok_def Let_def)

section \<open>The screen as a state machine\<close>

text \<open>One rule per public operation of the class; \<open>amb\<close> is the width of the ambiguous
  characters.\<close>

inductive guest_op :: "bool \<Rightarrow> screen \<Rightarrow> screen \<Rightarrow> bool" for amb :: bool where
  g_print: "guest_op amb s (print amb s cp)"
| g_line_feed: "guest_op amb s (line_feed s)"
| g_carriage_return: "guest_op amb s (carriage_return s)"
| g_backspace: "guest_op amb s (backspace s)"
| g_tab: "guest_op amb s (tab s)"
| g_index: "guest_op amb s (index s)"
| g_reverse_index: "guest_op amb s (reverse_index s)"
| g_next_line: "guest_op amb s (next_line s)"
| g_move_to: "guest_op amb s (move_to s x y)"
| g_move_up: "guest_op amb s (move_up s n)"
| g_move_down: "guest_op amb s (move_down s n)"
| g_move_right: "guest_op amb s (move_right s n)"
| g_move_left: "guest_op amb s (move_left s n)"
| g_set_column: "guest_op amb s (set_column s x)"
| g_set_row: "guest_op amb s (set_row s y)"
| g_set_tab: "guest_op amb s (set_tab s)"
| g_clear_tab: "guest_op amb s (clear_tab s)"
| g_clear_all_tabs: "guest_op amb s (clear_all_tabs s)"
| g_erase_display: "guest_op amb s (erase_display s m)"
| g_erase_line: "guest_op amb s (erase_line s m)"
| g_erase_chars: "guest_op amb s (erase_chars s n)"
| g_insert_chars: "guest_op amb s (insert_chars s n)"
| g_delete_chars: "guest_op amb s (delete_chars s n)"
| g_insert_lines: "guest_op amb s (insert_lines s n)"
| g_delete_lines: "guest_op amb s (delete_lines s n)"
| g_set_scroll_region: "guest_op amb s (set_scroll_region s a b)"
| g_reset_scroll_region: "guest_op amb s (reset_scroll_region s)"
| g_save_cursor: "guest_op amb s (save_cursor s)"
| g_restore_cursor: "guest_op amb s (restore_cursor s)"
| g_set_pen: "guest_op amb s (s\<lparr>sc_pen := pen\<rparr>)"
| g_set_charset: "guest_op amb s (s\<lparr>sc_charset := cs\<rparr>)"
| g_set_autowrap: "guest_op amb s (s\<lparr>sc_autowrap := on\<rparr>)"

inductive screen_step :: "bool \<Rightarrow> screen \<Rightarrow> screen \<Rightarrow> bool" for amb :: bool where
  s_guest: "guest_op amb s s' \<Longrightarrow> screen_step amb s s'"
| s_enter: "screen_step amb s (enter_alt_screen s)"
| s_leave: "screen_step amb s (leave_alt_screen s)"
| s_resize: "screen_step amb s (resize s c r)"
| s_look: "sc_history s = Some sb \<Longrightarrow> sb' \<in> {scroll_back sb n, scroll_forward sb n, scroll_to_bottom sb}
    \<Longrightarrow> screen_step amb s (s\<lparr>sc_history := Some sb'\<rparr>)"
| s_attach: "sb_ok sb \<Longrightarrow> screen_step amb s (s\<lparr>sc_history := Some sb\<rparr>)"

lemma guest_op_good: "guest_op amb s s' \<Longrightarrow> good_op s s'"
  by (induction rule: guest_op.induct) (rule ops)+

lemma screen_step_ok: "screen_step amb s s' \<Longrightarrow> screen_ok s \<Longrightarrow> screen_ok s'"
proof (induction rule: screen_step.induct)
  case (s_guest s s')
  then show ?case using guest_op_good by (auto simp: good_op_def)
next
  case (s_look s sb sb' n)
  then have "sb_ok sb" by (simp add: screen_ok_def hist_ok_def)
  then have "sb_ok sb'" using s_look(2) sb_ops_ok by auto
  then show ?case using s_look by (simp add: screen_ok_def hist_ok_def)
qed (simp_all add: enter_alt_ok leave_alt_ok resize_ok, simp add: screen_ok_def hist_ok_def)

lemma guest_ops_good: "(guest_op amb)\<^sup>*\<^sup>* s s' \<Longrightarrow> good_op s s'"
  by (induction rule: rtranclp_induct) (auto intro: good_op_trans guest_op_good)

lemma screen_steps_ok: "(screen_step amb)\<^sup>*\<^sup>* s s' \<Longrightarrow> screen_ok s \<Longrightarrow> screen_ok s'"
  by (induction rule: rtranclp_induct) (auto intro: screen_step_ok)

end
