(* ===== verification/Pairs.thy ===== *)
theory Pairs
  imports Prelude
begin

text \<open>
  Rows of cells in which a character may be two cells wide.  Both grids of the program,
  the screen of a guest and the surface of the desktop, keep the same rule: a cell of
  width 2 is followed by one of width 0, and a cell of width 0 is preceded by one of
  width 2.  A row is given by its length and the width of each cell.
\<close>

definition pairs :: "int \<Rightarrow> (int \<Rightarrow> nat) \<Rightarrow> bool" where
  "pairs c f \<longleftrightarrow> (\<forall>x. 0 \<le> x \<and> x < c \<longrightarrow>
     (f x = 2 \<longrightarrow> x + 1 < c \<and> f (x + 1) = 0) \<and> (f x = 0 \<longrightarrow> 0 < x \<and> f (x - 1) = 2))"

lemma pairs_cong: "(\<And>x. 0 \<le> x \<Longrightarrow> x < c \<Longrightarrow> f x = g x) \<Longrightarrow> pairs c f = pairs c g"
  unfolding pairs_def by (rule all_cong1) (smt (verit))

lemma pairs_ones [simp]: "pairs c (\<lambda>x. 1)" "pairs c (\<lambda>x. Suc 0)"
  by (simp_all add: pairs_def)

text \<open>Erasing the other half of the wide character at a column.\<close>

definition cut_at :: "int \<Rightarrow> int \<Rightarrow> (int \<Rightarrow> nat) \<Rightarrow> int \<Rightarrow> nat" where
  "cut_at c x f = (if f x = 2 \<and> x + 1 < c then f(x + 1 := 1) else if f x = 0 \<and> x > 0 then f(x - 1 := 1) else f)"

lemma pairs_erase:
  assumes "pairs c f" "0 \<le> a" "a \<le> b" "b < c"
  shows "pairs c (\<lambda>x. if a \<le> x \<and> x \<le> b then 1 else cut_at c b (cut_at c a f) x)"
proof -
  have h: "\<And>x. 0 \<le> x \<Longrightarrow> x < c \<Longrightarrow> f x = 2 \<Longrightarrow> x + 1 < c \<and> f (x + 1) = 0"
    "\<And>x. 0 \<le> x \<Longrightarrow> x < c \<Longrightarrow> f x = 0 \<Longrightarrow> 0 < x \<and> f (x - 1) = 2"
    using assms(1) by (auto simp: pairs_def)
  have outside: "cut_at c b (cut_at c a f) x = (if x < a then (if x = a - 1 \<and> f a = 0 then 1 else f x)
      else (if x = b + 1 \<and> f b = 2 then 1 else f x))" if "\<not> (a \<le> x \<and> x \<le> b)" "0 \<le> x" "x < c" for x
  proof (cases "b = a")
    case True
    then show ?thesis using that assms(2-4) h(1)[of a] h(2)[of a] by (auto simp: cut_at_def)
  next
    case False
    then have b: "a < b" using assms(3) by simp
    have inner: "cut_at c a f b = 2 \<longleftrightarrow> f b = 2"
      using b assms h(1)[of a] by (auto simp: cut_at_def)
    have l: "cut_at c a f x = (if x = a - 1 \<and> f a = 0 then 1 else f x)"
      using that b h(2)[of a] assms(2,4) by (auto simp: cut_at_def)
    have r: "cut_at c b g x = (if x = b + 1 \<and> g b = 2 then 1 else g x)" for g
      using that b by (auto simp: cut_at_def)
    show ?thesis unfolding r l inner using that b by auto
  qed
  have step: "(x + 1 < a \<or> b < x) \<and> \<not> (x + 1 = a - 1 \<and> f a = 0)"
    if "f x = 2" "0 \<le> x" "x < c" "x < a \<or> b < x" "\<not> (x = a - 1 \<and> f a = 0)" for x
  proof -
    have f1: "f (x + 1) = 0" using h(1)[of x] that by simp
    then have "x + 1 \<noteq> a" using that by auto
    moreover have "\<not> (x + 1 = a - 1 \<and> f a = 0)" using f1 h(2)[of a] assms by fastforce
    ultimately show ?thesis using that by linarith
  qed
  have prev: "(x < a \<or> b < x - 1) \<and> \<not> (x - 1 = b + 1 \<and> f b = 2)"
    if "f x = 0" "0 \<le> x" "x < c" "x < a \<or> b < x" "\<not> (x = b + 1 \<and> f b = 2)" for x
  proof -
    have f1: "f (x - 1) = 2" using h(2)[of x] that by simp
    then have "x - 1 \<noteq> b" using that by auto
    moreover have "\<not> (x - 1 = b + 1 \<and> f b = 2)" using f1 h(1)[of b] assms by fastforce
    ultimately show ?thesis using that by linarith
  qed
  show ?thesis unfolding pairs_def
  proof (intro allI impI conjI)
    fix x assume x: "0 \<le> x \<and> x < c"
    let ?g = "\<lambda>x. if a \<le> x \<and> x \<le> b then 1 else cut_at c b (cut_at c a f) x"
    { assume g: "?g x = 2"
      then have o: "x < a \<or> b < x" "f x = 2" "\<not> (x = a - 1 \<and> f a = 0)" using outside[of x] x by (auto split: if_splits)
      then show n: "x + 1 < c" using h(1)[of x] x by simp
      show "?g (x + 1) = 0" using outside[of "x + 1"] step[OF o(2)] o h(1)[of x] x n assms by auto }
    { assume g: "?g x = 0"
      then have o: "x < a \<or> b < x" "f x = 0" "\<not> (x = b + 1 \<and> f b = 2)" using outside[of x] x assms(3) by (auto split: if_splits)
      then show n: "0 < x" using h(2)[of x] x by simp
      show "?g (x - 1) = 2" using outside[of "x - 1"] prev[OF o(2)] o h(2)[of x] x n assms by auto }
  qed
qed

lemma pairs_narrow:
  assumes "pairs c f" "0 \<le> a" "a < c"
  shows "pairs c (\<lambda>x. if x = a then 1 else cut_at c a f x)"
proof -
  have "pairs c (\<lambda>x. if a \<le> x \<and> x \<le> a then 1 else cut_at c a (cut_at c a f) x)"
    using assms by (intro pairs_erase) simp_all
  moreover have "(\<lambda>x. if a \<le> x \<and> x \<le> a then 1 else cut_at c a (cut_at c a f) x) = (\<lambda>x. if x = a then 1 else cut_at c a f x)"
    unfolding cut_at_def by (rule ext) (simp add: antisym_conv fun_upd_apply)
  ultimately show ?thesis by simp
qed

lemma pairs_place:
  assumes "pairs c h" "h a = 1" "h (a + 1) = 1" "0 \<le> a" "a + 1 < c"
  shows "pairs c (\<lambda>x. if x = a then 2 else if x = a + 1 then 0 else h x)"
  unfolding pairs_def
proof (intro allI impI conjI)
  fix x assume x: "0 \<le> x \<and> x < c"
  let ?g = "\<lambda>x. if x = a then 2 else if x = a + 1 then 0 else h x"
  have h: "h x = 2 \<longrightarrow> x + 1 < c \<and> h (x + 1) = 0" "h x = 0 \<longrightarrow> 0 < x \<and> h (x - 1) = 2"
    using assms(1) x by (auto simp: pairs_def)
  show "x + 1 < c" if "?g x = 2" using that h assms by (auto split: if_splits)
  show "?g (x + 1) = 0" if "?g x = 2" using that h assms by (auto split: if_splits)
  show "0 < x" if "?g x = 0" using that h assms by (auto split: if_splits)
  show "?g (x - 1) = 2" if "?g x = 0"
  proof (cases "x = a + 1")
    case False
    then have "h x = 0" "x - 1 \<noteq> a" using that by (auto split: if_splits)
    moreover from this have "h (x - 1) \<noteq> 1" using h by simp
    then have "x - 1 \<noteq> a + 1" using assms(3) by metis
    ultimately show ?thesis using h by simp
  qed simp
qed

text \<open>Writing one cell, and a pair of cells, when the halves left alone become blanks.\<close>

lemma pairs_write1:
  assumes "pairs c f" "0 \<le> a" "a < c"
  shows "pairs c (\<lambda>x. if x = a then 1 else if x = a - 1 \<and> f x = 2 \<or> x = a + 1 \<and> f x = 0 then 1 else f x)"
proof -
  have h: "\<And>x. 0 \<le> x \<Longrightarrow> x < c \<Longrightarrow> f x = 2 \<Longrightarrow> x + 1 < c \<and> f (x + 1) = 0"
    "\<And>x. 0 \<le> x \<Longrightarrow> x < c \<Longrightarrow> f x = 0 \<Longrightarrow> 0 < x \<and> f (x - 1) = 2"
    using assms(1) by (auto simp: pairs_def)
  have "pairs c (\<lambda>x. if x = a then 1 else if x = a - 1 \<and> f x = 2 \<or> x = a + 1 \<and> f x = 0 then 1 else f x)
      = pairs c (\<lambda>x. if x = a then 1 else cut_at c a f x)"
  proof (rule pairs_cong)
    fix x assume x: "0 \<le> x" "x < c"
    have "x = a - 1 \<Longrightarrow> f x = 2 \<longleftrightarrow> f a = 0" "x = a + 1 \<Longrightarrow> f x = 0 \<longleftrightarrow> f a = 2"
      using h(1)[of x] h(2)[of a] h(2)[of x] h(1)[of a] x assms(2,3) by auto
    then show "(if x = a then 1 else if x = a - 1 \<and> f x = 2 \<or> x = a + 1 \<and> f x = 0 then 1 else f x)
        = (if x = a then 1 else cut_at c a f x)"
      using x h(1)[of a] h(2)[of a] assms(2,3) by (auto simp: cut_at_def)
  qed
  then show ?thesis using pairs_narrow[OF assms] by simp
qed

lemma pairs_write2:
  assumes "pairs c f" "0 \<le> a" "a + 1 < c"
  shows "pairs c (\<lambda>x. if x = a then 2 else if x = a + 1 then 0
    else if x = a - 1 \<and> f x = 2 \<or> x = a + 2 \<and> f x = 0 then 1 else f x)"
proof -
  define g where "g = (\<lambda>x. if x = a then 1 else if x = a - 1 \<and> f x = 2 \<or> x = a + 1 \<and> f x = 0 then 1 else f x)"
  define h where "h = (\<lambda>x. if x = a + 1 then 1 else if x = a + 1 - 1 \<and> g x = 2 \<or> x = a + 1 + 1 \<and> g x = 0 then 1 else g x)"
  have "pairs c g" unfolding g_def using assms by (intro pairs_write1) simp_all
  then have "pairs c h" unfolding h_def using assms by (intro pairs_write1) simp_all
  then have "pairs c (\<lambda>x. if x = a then 2 else if x = a + 1 then 0 else h x)"
    using assms by (intro pairs_place) (simp_all add: h_def g_def)
  moreover have "(\<lambda>x. if x = a then 2 else if x = a + 1 then 0 else h x)
      = (\<lambda>x. if x = a then 2 else if x = a + 1 then 0
          else if x = a - 1 \<and> f x = 2 \<or> x = a + 2 \<and> f x = 0 then 1 else f x)"
    by (auto simp: h_def g_def fun_eq_iff add.commute)
  ultimately show ?thesis by simp
qed

end
