(* ===== verification/Vt_Screen_Cells.thy ===== *)
theory Vt_Screen_Cells
  imports Vt_Screen_Inv Pairs
begin

text \<open>
  What the operations of the screen do to each cell \<open>(x, y)\<close>: scrolling moves rows,
  erasing and writing touch one row, and no operation here separates the two halves of
  a wide character.
\<close>

section \<open>Cells of the grid, row by row\<close>

lemma cell_before: "x < c \<Longrightarrow> y * c + x < t * c \<longleftrightarrow> y < t" for x c y t :: nat
proof
  assume "x < c" "y < t"
  then have "Suc y * c \<le> t * c" by (intro mult_le_mono1) simp
  then show "y * c + x < t * c" using \<open>x < c\<close> by simp
next
  assume "y * c + x < t * c"
  then have "y * c < t * c" by linarith
  then show "y < t" by simp
qed

lemma cell_minus: "t \<le> y \<Longrightarrow> y * c + x - t * c = (y - t) * c + x" for x c y t :: nat
  using mult_le_mono1[of t y c] by (simp add: diff_mult_distrib)

lemma cell_inj: "x < c \<Longrightarrow> x' < c \<Longrightarrow> y * c + x = y' * c + x' \<longleftrightarrow> y = y' \<and> x = x'" for x c y :: nat
proof
  assume h: "x < c" "x' < c" "y * c + x = y' * c + x'"
  have "(y * c + x) div c = y" "(y' * c + x') div c = y'" using h(1,2) by simp_all
  then have "y = y'" using h(3) by metis
  then show "y = y' \<and> x = x'" using h(3) by simp
qed simp

lemma slice_nth:
  fixes c r t b y x :: nat
  assumes "length g = c * r" "t \<le> b" "b < r" "y < r" "x < c" "length sl = (b + 1 - t) * c"
  shows "(take (t * c) g @ sl @ drop ((b + 1) * c) g) ! (y * c + x)
    = (if t \<le> y \<and> y \<le> b then sl ! ((y - t) * c + x) else g ! (y * c + x))"
proof -
  have lt: "t * c \<le> length g" and lb: "(b + 1) * c \<le> length g"
    using assms mult_le_mono1[of t r c] mult_le_mono1[of "b + 1" r c] by (simp_all add: mult.commute)
  note C = cell_before[OF assms(5)]
  consider "y < t" | "t \<le> y" "y \<le> b" | "b < y" by linarith
  then show ?thesis
  proof cases
    case 1
    then show ?thesis using lt C[of y t] by (simp add: nth_append min_absorb2)
  next
    case 2
    have "(y - t) * c + x < length sl" using 2 assms C[of "y - t" "b + 1 - t"] by simp
    then show ?thesis using 2 lt C[of y t] cell_minus[OF 2(1), of c x] by (simp add: nth_append min_absorb2)
  next
    case 3
    then have ty: "t \<le> y" and by1: "b + 1 \<le> y" using assms by simp_all
    have e: "length (take (t * c) g @ sl) = (b + 1) * c"
      using lt assms by (simp add: min_absorb2 add_mult_distrib[symmetric])
    have "\<not> y * c + x < (b + 1) * c" using 3 C[of y "b + 1"] by linarith
    then have "((take (t * c) g @ sl) @ drop ((b + 1) * c) g) ! (y * c + x) = drop ((b + 1) * c) g ! (y * c + x - (b + 1) * c)"
      using e by (simp only: nth_append) simp
    also have "\<dots> = g ! ((b + 1) * c + (y * c + x - (b + 1) * c))" using lb by (rule nth_drop)
    also have "(b + 1) * c + (y * c + x - (b + 1) * c) = y * c + x" using \<open>\<not> y * c + x < (b + 1) * c\<close> by simp
    finally show ?thesis using 3 by simp
  qed
qed

lemma on_slice_at:
  assumes ok: "screen_ok s" and "0 \<le> tp" "tp \<le> bt" "bt < sc_rows s" "0 \<le> x" "x < sc_cols s" "0 \<le> y" "y < sc_rows s"
    and len: "\<And>sl. length sl = nat (bt + 1 - tp) * nat (sc_cols s) \<Longrightarrow> length (f sl) = length sl"
  shows "screen_at (on_slice s tp bt f) x y =
    (if tp \<le> y \<and> y \<le> bt
     then f (take (nat (bt + 1) * nat (sc_cols s) - nat tp * nat (sc_cols s)) (drop (nat tp * nat (sc_cols s)) (sc_grid s)))
            ! (nat (y - tp) * nat (sc_cols s) + nat x)
     else screen_at s x y)"
proof -
  let ?c = "nat (sc_cols s)" and ?r = "nat (sc_rows s)"
  let ?sl = "take (nat (bt + 1) * ?c - nat tp * ?c) (drop (nat tp * ?c) (sc_grid s))"
  have g: "length (sc_grid s) = ?c * ?r" using ok by (simp add: screen_ok_def)
  have l: "length ?sl = nat (bt + 1 - tp) * ?c" using slice_len(1)[OF assms(2-4) g] .
  have n: "nat (bt + 1) = nat bt + 1" "nat (bt + 1 - tp) = nat bt + 1 - nat tp" "nat tp \<le> nat bt" "nat bt < ?r" "nat y < ?r" "nat x < ?c"
    "nat (y - tp) = nat y - nat tp" "(nat tp \<le> nat y \<and> nat y \<le> nat bt) = (tp \<le> y \<and> y \<le> bt)"
    using assms by linarith+
  have "length (f ?sl) = (nat bt + 1 - nat tp) * ?c" by (simp only: len[OF l] l n(2))
  from slice_nth[OF g n(3-6) this]
  have "(take (nat tp * ?c) (sc_grid s) @ f ?sl @ drop (nat (bt + 1) * ?c) (sc_grid s)) ! (nat y * ?c + nat x)
    = (if tp \<le> y \<and> y \<le> bt then f ?sl ! (nat (y - tp) * ?c + nat x) else sc_grid s ! (nat y * ?c + nat x))"
    by (simp only: n(1,7,8))
  moreover have "\<not> (x < 0 \<or> y < 0 \<or> x \<ge> sc_cols s \<or> y \<ge> sc_rows s)" using assms by linarith
  ultimately show ?thesis by (simp add: screen_at_def on_slice_def Let_def cell_index_def)
qed

lemma take_rotate: "k \<le> length xs \<Longrightarrow> take (length xs - k) (rotate_at k xs) = drop k xs"
  by (simp add: rotate_at_def)

lemma drop_rotate: "k \<le> length xs \<Longrightarrow> drop k (rotate_at (length xs - k) xs) = take (length xs - k) xs"
  by (simp add: rotate_at_def)

lemma drop_fill_nth:
  "k \<le> length xs \<Longrightarrow> i < length xs \<Longrightarrow>
     (drop k xs @ replicate k e) ! i = (if i < length xs - k then xs ! (i + k) else e)"
  by (auto simp: nth_append add.commute)

lemma fill_take_nth:
  "k \<le> length xs \<Longrightarrow> i < length xs \<Longrightarrow>
     (replicate k e @ take (length xs - k) xs) ! i = (if i < k then e else xs ! (i - k))"
  by (auto simp: nth_append)

lemma slice_cell:
  assumes ok: "screen_ok s" and "0 \<le> tp" "tp \<le> bt" "bt < sc_rows s" "0 \<le> x" "x < sc_cols s" "tp \<le> y" "y \<le> bt"
  shows "take (nat (bt + 1) * nat (sc_cols s) - nat tp * nat (sc_cols s)) (drop (nat tp * nat (sc_cols s)) (sc_grid s))
            ! (nat (y - tp) * nat (sc_cols s) + nat x) = screen_at s x y"
proof -
  let ?c = "nat (sc_cols s)" and ?r = "nat (sc_rows s)"
  have g: "length (sc_grid s) = ?c * ?r" using ok by (simp add: screen_ok_def)
  have x: "nat x < ?c" using assms(5,6) by linarith
  have yt: "nat tp + nat (y - tp) = nat y" "nat (y - tp) < nat (bt + 1 - tp)" using assms(2,7,8) by linarith+
  have "nat (y - tp) * ?c + nat x < nat (bt + 1 - tp) * ?c" using yt(2) by (simp only: cell_before[OF x])
  moreover have "nat (bt + 1) * ?c - nat tp * ?c = nat (bt + 1 - tp) * ?c" using slice_len(3)[OF assms(2-4) g] by linarith
  moreover have "nat tp * ?c \<le> length (sc_grid s)" using slice_len(2)[OF assms(2-4) g] by linarith
  moreover have "nat tp * ?c + (nat (y - tp) * ?c + nat x) = nat y * ?c + nat x"
    unfolding yt(1)[symmetric] add_mult_distrib by (rule add.assoc[symmetric])
  ultimately have "take (nat (bt + 1) * ?c - nat tp * ?c) (drop (nat tp * ?c) (sc_grid s)) ! (nat (y - tp) * ?c + nat x)
    = sc_grid s ! (nat y * ?c + nat x)" by (simp only: nth_take nth_drop)
  moreover have "\<not> (x < 0 \<or> y < 0 \<or> x \<ge> sc_cols s \<or> y \<ge> sc_rows s)" using assms by linarith
  ultimately show ?thesis by (simp only: screen_at_def cell_index_def if_False)
qed

lemma scroll_slice_up_at:
  assumes ok: "screen_ok s" and b: "0 \<le> tp" "tp \<le> bt" "bt < sc_rows s" and n: "0 < n"
    and xy: "0 \<le> x" "x < sc_cols s" "0 \<le> y" "y < sc_rows s"
  shows "screen_at (scroll_slice_up s tp bt n) x y =
    (if tp \<le> y \<and> y \<le> bt then if y + n \<le> bt then screen_at s x (y + n) else erased s else screen_at s x y)"
proof -
  let ?c = "nat (sc_cols s)" and ?k = "nat n * nat (sc_cols s)"
  let ?f = "\<lambda>sl. if n \<ge> bt - tp + 1 then replicate (length sl) (erased s)
          else take (length sl - ?k) (rotate_at ?k sl) @ replicate ?k (erased s)"
  let ?sl = "take (nat (bt + 1) * ?c - nat tp * ?c) (drop (nat tp * ?c) (sc_grid s))"
  have len: "length (?f sl) = length sl" if "length sl = nat (bt + 1 - tp) * ?c" for sl :: "scell list"
    using that scroll_k[OF b(1,2) n, of ?c] by auto
  have l: "length ?sl = nat (bt + 1 - tp) * ?c" by (rule slice_len(1)[OF b]) (use ok in \<open>simp add: screen_ok_def\<close>)
  have in_slice: "nat (z - tp) * ?c + nat x < nat (w - tp) * ?c \<longleftrightarrow> nat (z - tp) < nat (w - tp)" for z w
    using xy by (intro cell_before) linarith
  have "?f ?sl ! (nat (y - tp) * ?c + nat x) = (if y + n \<le> bt then screen_at s x (y + n) else erased s)" if y: "tp \<le> y" "y \<le> bt"
  proof (cases "n \<ge> bt - tp + 1")
    case True
    have "nat (y - tp) * ?c + nat x < length ?sl" unfolding l using in_slice[of y "bt + 1"] y by simp
    then show ?thesis using True y by (simp del: length_take length_drop)
  next
    case False
    have k: "?k \<le> length ?sl" unfolding l by (rule scroll_k[OF b(1,2) n]) (use False in simp)
    have "nat (y + n - tp) = nat (y - tp) + nat n" using y n by linarith
    then have e: "nat (y - tp) * ?c + nat x + ?k = nat (y + n - tp) * ?c + nat x" by (simp only: add_mult_distrib)
    have lt: "nat (y - tp) * ?c + nat x < length ?sl - ?k \<longleftrightarrow> y + n \<le> bt"
    proof -
      have "nat (y - tp) * ?c + nat x < length ?sl - ?k \<longleftrightarrow> nat (y + n - tp) * ?c + nat x < length ?sl" using e by linarith
      also have "\<dots> \<longleftrightarrow> y + n \<le> bt" unfolding l using in_slice[of "y + n" "bt + 1"] y n by linarith
      finally show ?thesis .
    qed
    have tot: "nat (y - tp) * ?c + nat x < length ?sl" unfolding l using in_slice[of y "bt + 1"] y by simp
    have "?f ?sl = drop ?k ?sl @ replicate ?k (erased s)" using False by (simp only: take_rotate[OF k]) simp
    also have "\<dots> ! (nat (y - tp) * ?c + nat x) = (if y + n \<le> bt then ?sl ! (nat (y + n - tp) * ?c + nat x) else erased s)"
      using drop_fill_nth[OF k tot, of "erased s"] by (simp only: lt e)
    also have "\<dots> = (if y + n \<le> bt then screen_at s x (y + n) else erased s)"
      using slice_cell[OF ok b xy(1,2), of "y + n"] y n by simp
    finally show ?thesis .
  qed
  moreover have "scroll_slice_up s tp bt n = on_slice s tp bt ?f" using b n by (simp add: scroll_slice_up_def Let_def)
  ultimately show ?thesis using on_slice_at[OF ok b xy, of ?f, OF len] by simp
qed

lemma scroll_slice_down_at:
  assumes ok: "screen_ok s" and b: "0 \<le> tp" "tp \<le> bt" "bt < sc_rows s" and n: "0 < n"
    and xy: "0 \<le> x" "x < sc_cols s" "0 \<le> y" "y < sc_rows s"
  shows "screen_at (scroll_slice_down s tp bt n) x y =
    (if tp \<le> y \<and> y \<le> bt then if tp + n \<le> y then screen_at s x (y - n) else erased s else screen_at s x y)"
proof -
  let ?c = "nat (sc_cols s)" and ?k = "nat n * nat (sc_cols s)"
  let ?f = "\<lambda>sl. if n \<ge> bt - tp + 1 then replicate (length sl) (erased s)
          else replicate ?k (erased s) @ drop ?k (rotate_at (length sl - ?k) sl)"
  let ?sl = "take (nat (bt + 1) * ?c - nat tp * ?c) (drop (nat tp * ?c) (sc_grid s))"
  have len: "length (?f sl) = length sl" if "length sl = nat (bt + 1 - tp) * ?c" for sl :: "scell list"
    using that scroll_k[OF b(1,2) n, of ?c] by auto
  have l: "length ?sl = nat (bt + 1 - tp) * ?c" by (rule slice_len(1)[OF b]) (use ok in \<open>simp add: screen_ok_def\<close>)
  have x: "nat x < ?c" using xy by linarith
  have "?f ?sl ! (nat (y - tp) * ?c + nat x) = (if tp + n \<le> y then screen_at s x (y - n) else erased s)" if y: "tp \<le> y" "y \<le> bt"
  proof -
    have tot: "nat (y - tp) * ?c + nat x < length ?sl" unfolding l using y by (simp only: cell_before[OF x])
    show ?thesis
    proof (cases "n \<ge> bt - tp + 1")
      case True
      then show ?thesis using tot y by (simp del: length_take length_drop)
    next
      case False
      have k: "?k \<le> length ?sl" unfolding l by (rule scroll_k[OF b(1,2) n]) (use False in simp)
      have lt: "nat (y - tp) * ?c + nat x < ?k \<longleftrightarrow> \<not> tp + n \<le> y"
        unfolding cell_before[OF x] using y n by linarith
      have e: "nat (y - tp) * ?c + nat x - ?k = nat (y - n - tp) * ?c + nat x" if "tp + n \<le> y"
      proof -
        have "nat n \<le> nat (y - tp)" "nat (y - tp) - nat n = nat (y - n - tp)" using that y n by linarith+
        then show ?thesis using cell_minus[of "nat n" "nat (y - tp)" ?c "nat x"] by (simp only:)
      qed
      have "?f ?sl = replicate ?k (erased s) @ take (length ?sl - ?k) ?sl" using False by (simp only: drop_rotate[OF k]) simp
      also have "\<dots> ! (nat (y - tp) * ?c + nat x) = (if tp + n \<le> y then ?sl ! (nat (y - n - tp) * ?c + nat x) else erased s)"
        using fill_take_nth[OF k tot, of "erased s"] e by (cases "tp + n \<le> y") (simp_all only: lt not_True_eq_False not_False_eq_True if_True if_False)
      also have "\<dots> = (if tp + n \<le> y then screen_at s x (y - n) else erased s)"
        using slice_cell[OF ok b xy(1,2), of "y - n"] y n by simp
      finally show ?thesis .
    qed
  qed
  moreover have "scroll_slice_down s tp bt n = on_slice s tp bt ?f" using b n by (simp add: scroll_slice_down_def Let_def)
  ultimately show ?thesis using on_slice_at[OF ok b xy, of ?f, OF len] by simp
qed

section \<open>Writing one cell\<close>

lemma screen_at_put:
  assumes "screen_ok s" "0 \<le> x" "x < sc_cols s" "0 \<le> y" "y < sc_rows s" "0 \<le> x'" "x' < sc_cols s" "0 \<le> y'" "y' < sc_rows s"
  shows "screen_at (put_cell s x y c) x' y' = (if x' = x \<and> y' = y then c else screen_at s x' y')"
proof -
  let ?c = "nat (sc_cols s)"
  have l: "nat y * ?c + nat x < length (sc_grid s)"
  proof -
    have "nat y * ?c + nat x < nat (sc_rows s) * ?c" using assms by (simp only: cell_before)
    then show ?thesis using assms(1) by (simp add: screen_ok_def mult.commute)
  qed
  have x: "nat x < ?c" "nat x' < ?c" using assms by linarith+
  have "nat y * ?c + nat x = nat y' * ?c + nat x' \<longleftrightarrow> x' = x \<and> y' = y"
    unfolding cell_inj[OF x] using assms by (simp add: eq_nat_nat_iff) blast
  then show ?thesis using assms l by (auto simp: screen_at_def put_cell_def cell_index_def nth_list_update)
qed

lemma erased_width [simp]: "s_width (erased s) = 1"
  by (simp add: erased_def scell_init_def)

lemma erased_put [simp]: "erased (put_cell s x y c) = erased s"
  by (simp add: erased_def put_cell_def)

lemma grid_only_erased: "grid_only s s' \<Longrightarrow> erased s' = erased s"
  by (simp add: erased_def grid_only_sel)

lemma put_cells_at:
  assumes "screen_ok s" "\<forall>x\<in>set xs. 0 \<le> x \<and> x < sc_cols s" "0 \<le> y" "y < sc_rows s"
    "0 \<le> x'" "x' < sc_cols s" "0 \<le> y'" "y' < sc_rows s"
  shows "screen_at (foldl (\<lambda>s x. put_cell s x y (erased s)) s xs) x' y'
    = (if y' = y \<and> x' \<in> set xs then erased s else screen_at s x' y')"
  using assms
proof (induction xs arbitrary: s)
  case (Cons x xs)
  let ?s = "put_cell s x y (erased s)"
  have g: "grid_only s ?s" by simp
  have "screen_at (foldl (\<lambda>s x. put_cell s x y (erased s)) ?s xs) x' y'
    = (if y' = y \<and> x' \<in> set xs then erased ?s else screen_at ?s x' y')"
    using Cons.prems by (intro Cons.IH) (simp_all add: grid_only_sel[OF g] grid_only_ok[OF _ g])
  also have "screen_at ?s x' y' = (if x' = x \<and> y' = y then erased s else screen_at s x' y')"
    using Cons.prems by (intro screen_at_put) simp_all
  finally show ?case by auto
qed simp

section \<open>Wide characters\<close>

definition widths :: "screen \<Rightarrow> int \<Rightarrow> int \<Rightarrow> nat" where
  "widths s y x = s_width (screen_at s x y)"

definition wide_ok :: "screen \<Rightarrow> bool" where
  "wide_ok s \<longleftrightarrow> (\<forall>y. 0 \<le> y \<and> y < sc_rows s \<longrightarrow> pairs (sc_cols s) (widths s y))"

text \<open>\<open>clear_wide_at\<close> and the writing of a span, on the widths of the row.\<close>

definition on_page :: "screen \<Rightarrow> int \<Rightarrow> int \<Rightarrow> bool" where
  "on_page s x y \<longleftrightarrow> 0 \<le> x \<and> x < sc_cols s \<and> 0 \<le> y \<and> y < sc_rows s"

lemma on_page_grid: "grid_only s s' \<Longrightarrow> on_page s' x y = on_page s x y"
  by (simp add: on_page_def grid_only_sel)

lemma widths_put:
  assumes "screen_ok s" "on_page s x y" "on_page s x' y'"
  shows "widths (put_cell s x y c) y' x' = (if x' = x \<and> y' = y then s_width c else widths s y' x')"
  using assms screen_at_put[of s x y x' y' c] by (simp add: widths_def on_page_def)

lemma cut_at_cong: "f x = g x \<Longrightarrow> f x' = g x' \<Longrightarrow> cut_at c x f x' = cut_at c x g x'"
  by (auto simp: cut_at_def)

lemma clear_wide_widths:
  assumes "screen_ok s" "on_page s x y" "on_page s x' y'"
  shows "widths (clear_wide_at s x y) y' x' = (if y' = y then cut_at (sc_cols s) x (widths s y) x' else widths s y' x')"
proof -
  have w: "s_width (screen_at s x y) = widths s y x" by (simp add: widths_def)
  show ?thesis
  proof (cases "widths s y x = 2 \<and> x + 1 < sc_cols s")
    case True
    then show ?thesis using assms widths_put[of s "x + 1" y x' y' "erased s"]
      by (auto simp: clear_wide_at_def Let_def w cut_at_def on_page_def)
  next
    case False
    then show ?thesis using assms widths_put[of s "x - 1" y x' y' "erased s"]
      by (auto simp: clear_wide_at_def Let_def w cut_at_def on_page_def)
  qed
qed

lemma clear_two_widths:
  assumes "screen_ok s" "on_page s a y" "on_page s b y" "on_page s x' y'"
  shows "widths (clear_wide_at (clear_wide_at s a y) b y) y' x'
    = (if y' = y then cut_at (sc_cols s) b (cut_at (sc_cols s) a (widths s y)) x' else widths s y' x')"
proof -
  let ?s = "clear_wide_at s a y"
  have g: "grid_only s ?s" by simp
  note A = clear_wide_widths[OF assms(1,2)]
  have "widths (clear_wide_at ?s b y) y' x' = (if y' = y then cut_at (sc_cols s) b (widths ?s y) x' else widths ?s y' x')"
    using clear_wide_widths[of ?s b y x' y'] assms by (simp add: on_page_grid[OF g] grid_only_ok[OF _ g] grid_only_sel[OF g])
  moreover have "cut_at (sc_cols s) b (widths ?s y) x' = cut_at (sc_cols s) b (cut_at (sc_cols s) a (widths s y)) x'" if "y' = y"
    using A[of b y] A[of x' y] assms that by (intro cut_at_cong) simp_all
  moreover have "widths ?s y' x' = widths s y' x'" if "y' \<noteq> y" using A[of x' y'] assms that by simp
  ultimately show ?thesis by simp
qed

lemma wide_rowI:
  assumes "wide_ok s" "grid_only s s'" "\<And>x y'. on_page s x y' \<Longrightarrow> y' \<noteq> y \<Longrightarrow> widths s' y' x = widths s y' x"
    and "0 \<le> y \<Longrightarrow> y < sc_rows s \<Longrightarrow> pairs (sc_cols s) (widths s' y)"
  shows "wide_ok s'"
proof -
  have "pairs (sc_cols s) (widths s' y')" if "0 \<le> y'" "y' < sc_rows s" for y'
  proof (cases "y' = y")
    case False
    then have "pairs (sc_cols s) (widths s' y') = pairs (sc_cols s) (widths s y')"
      using assms(3)[of _ y'] that by (intro pairs_cong) (simp add: on_page_def)
    then show ?thesis using assms(1) that by (simp add: wide_ok_def)
  qed (use assms(4) that in simp)
  then show ?thesis by (simp add: wide_ok_def grid_only_sel[OF assms(2)])
qed

lemma erase_span_wide [inv_intros]:
  assumes "screen_ok s" "wide_ok s"
  shows "wide_ok (erase_span s x0 x1 y)"
proof (cases "0 \<le> y \<and> y < sc_rows s \<and> max 0 x0 \<le> min (sc_cols s - 1) x1")
  case True
  define a b where "a = max 0 x0" and "b = min (sc_cols s - 1) x1"
  let ?s2 = "clear_wide_at (clear_wide_at s a y) b y"
  have ab: "0 \<le> a" "a \<le> b" "b < sc_cols s" using True assms(1) by (auto simp: a_def b_def screen_ok_def)
  then have p: "on_page s a y" "on_page s b y" using True by (simp_all add: on_page_def)
  have g2: "grid_only s ?s2" by (rule grid_only_trans[OF clear_wide_at_grid clear_wide_at_grid])
  have e: "erase_span s x0 x1 y = foldl (\<lambda>s x. put_cell s x y (erased s)) ?s2 [a..b]"
    using True ab unfolding erase_span_def Let_def a_def[symmetric] b_def[symmetric] by simp
  have w: "widths (erase_span s x0 x1 y) y' x' = (if y' = y then if a \<le> x' \<and> x' \<le> b then 1
      else cut_at (sc_cols s) b (cut_at (sc_cols s) a (widths s y)) x' else widths s y' x')" if "on_page s x' y'" for x' y'
  proof -
    have "widths (erase_span s x0 x1 y) y' x' = (if y' = y \<and> x' \<in> set [a..b] then 1 else widths ?s2 y' x')"
      unfolding e widths_def using True ab that
      by (subst put_cells_at) (auto simp: grid_only_ok[OF assms(1) g2] grid_only_sel[OF g2] on_page_def)
    then show ?thesis using clear_two_widths[OF assms(1) p that] by auto
  qed
  have "pairs (sc_cols s) (widths (erase_span s x0 x1 y) y)"
    using pairs_erase[of "sc_cols s" "widths s y" a b] ab assms(2) True w
    by (subst pairs_cong[where g = "\<lambda>x. if a \<le> x \<and> x \<le> b then 1 else cut_at (sc_cols s) b (cut_at (sc_cols s) a (widths s y)) x"])
      (simp_all add: wide_ok_def on_page_def)
  then show ?thesis using w by (intro wide_rowI[OF assms(2) erase_span_grid[of s x0 x1 y], of y]) simp_all
qed (use assms in \<open>auto simp: erase_span_def Let_def\<close>)

end
