(* ===== verification/Vt_Screen_Edit.thy ===== *)
theory Vt_Screen_Edit
  imports Vt_Screen_Cells
begin

text \<open>
  The operations of the screen on whole rows and on wide characters: printing, erasing
  and scrolling keep the two halves of a wide character together, inserting and deleting
  characters shift a row of single-width cells, a line feed feeds the history.
\<close>

section \<open>Every operation but the two character shifts keeps wide characters whole\<close>

lemma widths_page: "sc_grid s' = sc_grid s \<Longrightarrow> sc_cols s' = sc_cols s \<Longrightarrow> sc_rows s' = sc_rows s \<Longrightarrow> widths s' y x = widths s y x"
  by (simp add: widths_def screen_at_def cell_index_def)

lemma wide_ok_page: "sc_grid s' = sc_grid s \<Longrightarrow> sc_cols s' = sc_cols s \<Longrightarrow> sc_rows s' = sc_rows s \<Longrightarrow> wide_ok s' = wide_ok s"
  unfolding wide_ok_def using pairs_cong[of "sc_cols s" "widths s' _" "widths s _"] widths_page[of s' s] by simp

lemma erase_rows_wide: "screen_ok s \<Longrightarrow> wide_ok s \<Longrightarrow> wide_ok (erase_rows s ys)"
  unfolding erase_rows_def
proof (induction ys arbitrary: s)
  case (Cons y ys)
  then show ?case using erase_span_wide grid_only_ok[OF _ erase_span_grid] by simp
qed simp

lemma erase_wide [inv_intros]:
  assumes "screen_ok s" "wide_ok s"
  shows "wide_ok (erase_display s m)" "wide_ok (erase_line s m)" "wide_ok (erase_chars s n)"
  using assms erase_rows_wide erase_span_wide grid_only_ok[OF _ erase_span_grid] grid_only_ok[OF _ erase_rows_grid]
  by (simp_all add: erase_display_def erase_line_def erase_chars_def)

lemma rows_moved_wide:
  assumes "wide_ok s" "grid_only s s'"
    and "\<And>y. 0 \<le> y \<Longrightarrow> y < sc_rows s \<Longrightarrow> (\<forall>x. 0 \<le> x \<and> x < sc_cols s \<longrightarrow> screen_at s' x y = erased s)
       \<or> (\<exists>y'. 0 \<le> y' \<and> y' < sc_rows s \<and> (\<forall>x. 0 \<le> x \<and> x < sc_cols s \<longrightarrow> screen_at s' x y = screen_at s x y'))"
  shows "wide_ok s'"
proof -
  have "pairs (sc_cols s) (widths s' y)" if y: "0 \<le> y" "y < sc_rows s" for y
    using assms(3)[OF y]
  proof (elim disjE exE conjE)
    assume "\<forall>x. 0 \<le> x \<and> x < sc_cols s \<longrightarrow> screen_at s' x y = erased s"
    then have "pairs (sc_cols s) (widths s' y) = pairs (sc_cols s) (\<lambda>x. 1)"
      by (intro pairs_cong) (simp add: widths_def)
    then show ?thesis by simp
  next
    fix y' assume y': "0 \<le> y'" "y' < sc_rows s" "\<forall>x. 0 \<le> x \<and> x < sc_cols s \<longrightarrow> screen_at s' x y = screen_at s x y'"
    then have "pairs (sc_cols s) (widths s' y) = pairs (sc_cols s) (widths s y')"
      by (intro pairs_cong) (simp add: widths_def)
    then show ?thesis using assms(1) y' by (simp add: wide_ok_def)
  qed
  then show ?thesis by (simp add: wide_ok_def grid_only_sel[OF assms(2)])
qed

lemma scroll_slice_wide [inv_intros]:
  assumes "screen_ok s" "wide_ok s"
  shows "wide_ok (scroll_slice_up s tp bt n)" "wide_ok (scroll_slice_down s tp bt n)"
proof -
  have "wide_ok (scroll_slice_up s tp bt n) \<and> wide_ok (scroll_slice_down s tp bt n)"
  proof (cases "n \<le> 0 \<or> tp < 0 \<or> bt \<ge> sc_rows s \<or> tp > bt")
    case True
    then show ?thesis using assms by (auto simp: scroll_slice_up_def scroll_slice_down_def)
  next
    case False
    then have b: "0 \<le> tp" "tp \<le> bt" "bt < sc_rows s" "0 < n" by auto
    have "wide_ok (scroll_slice_up s tp bt n)"
    proof (rule rows_moved_wide[OF assms(2) scroll_slice_up_grid[OF assms(1)]])
      fix y assume y: "0 \<le> y" "y < sc_rows s"
      note u = scroll_slice_up_at[OF assms(1) b(1-3,4)]
      consider "tp \<le> y" "y + n \<le> bt" | "tp \<le> y" "y \<le> bt" "\<not> y + n \<le> bt" | "\<not> (tp \<le> y \<and> y \<le> bt)" by linarith
      then show "(\<forall>x. 0 \<le> x \<and> x < sc_cols s \<longrightarrow> screen_at (scroll_slice_up s tp bt n) x y = erased s)
       \<or> (\<exists>y'. 0 \<le> y' \<and> y' < sc_rows s \<and> (\<forall>x. 0 \<le> x \<and> x < sc_cols s \<longrightarrow> screen_at (scroll_slice_up s tp bt n) x y = screen_at s x y'))"
      proof cases
        case 1
        then show ?thesis using u[OF _ _ y] b y by (intro disjI2 exI[of _ "y + n"]) auto
      next
        case 2
        then show ?thesis using u[OF _ _ y] by (intro disjI1) auto
      next
        case 3
        then show ?thesis using u[OF _ _ y] y by (intro disjI2 exI[of _ y]) auto
      qed
    qed
    moreover have "wide_ok (scroll_slice_down s tp bt n)"
    proof (rule rows_moved_wide[OF assms(2) scroll_slice_down_grid[OF assms(1)]])
      fix y assume y: "0 \<le> y" "y < sc_rows s"
      note d = scroll_slice_down_at[OF assms(1) b(1-3,4)]
      consider "y \<le> bt" "tp + n \<le> y" | "tp \<le> y" "y \<le> bt" "\<not> tp + n \<le> y" | "\<not> (tp \<le> y \<and> y \<le> bt)" using b by linarith
      then show "(\<forall>x. 0 \<le> x \<and> x < sc_cols s \<longrightarrow> screen_at (scroll_slice_down s tp bt n) x y = erased s)
       \<or> (\<exists>y'. 0 \<le> y' \<and> y' < sc_rows s \<and> (\<forall>x. 0 \<le> x \<and> x < sc_cols s \<longrightarrow> screen_at (scroll_slice_down s tp bt n) x y = screen_at s x y'))"
      proof cases
        case 1
        then show ?thesis using d[OF _ _ y] b y by (intro disjI2 exI[of _ "y - n"]) auto
      next
        case 2
        then show ?thesis using d[OF _ _ y] by (intro disjI1) auto
      next
        case 3
        then show ?thesis using d[OF _ _ y] y by (intro disjI2 exI[of _ y]) auto
      qed
    qed
    ultimately show ?thesis ..
  qed
  then show "wide_ok (scroll_slice_up s tp bt n)" "wide_ok (scroll_slice_down s tp bt n)" by blast+
qed

lemma wide_cursor [simp]: "wide_ok (s\<lparr>sc_cx := a\<rparr>) = wide_ok s" "wide_ok (s\<lparr>sc_wrap := b\<rparr>) = wide_ok s"
  "wide_ok (s\<lparr>sc_cy := a\<rparr>) = wide_ok s" "wide_ok (s\<lparr>sc_history := hh\<rparr>) = wide_ok s"
  "wide_ok (s\<lparr>sc_pen := pen\<rparr>) = wide_ok s"
  by (rule wide_ok_page; simp)+

lemma put_narrow_wide:
  assumes ok: "screen_ok s" and w: "wide_ok s" and p: "on_page s x y" and c: "s_width c = 1"
  shows "wide_ok (put_cell (clear_wide_at s x y) x y c)"
proof -
  let ?s1 = "clear_wide_at s x y" and ?t = "put_cell (clear_wide_at s x y) x y c"
  have g1: "grid_only s ?s1" by simp
  have g: "grid_only s ?t" by (rule grid_only_put) simp
  have ok1: "screen_ok ?s1" using grid_only_ok[OF ok g1] .
  have e: "widths ?t y' x' = (if x' = x \<and> y' = y then 1 else if y' = y then cut_at (sc_cols s) x (widths s y) x' else widths s y' x')"
    if "on_page s x' y'" for x' y'
    using widths_put[OF ok1, of x y x' y' c] clear_wide_widths[OF ok p that] that p c
    by (cases "y' = y") (simp_all add: on_page_grid[OF g1])
  have "pairs (sc_cols s) (widths s y)" using w p by (simp add: wide_ok_def on_page_def)
  then have "pairs (sc_cols s) (widths ?t y)"
    using pairs_narrow[of "sc_cols s" "widths s y" x] p e
    by (subst pairs_cong[where g = "\<lambda>x'. if x' = x then 1 else cut_at (sc_cols s) x (widths s y) x'"]) (simp_all add: on_page_def)
  then show ?thesis using e by (intro wide_rowI[OF w g, of y]) simp_all
qed

lemma put_pair_wide:
  assumes ok: "screen_ok s" and w: "wide_ok s" and p: "on_page s x y" "on_page s (x + 1) y"
    and c: "s_width c = 2" "s_width d = 0"
  shows "wide_ok (put_cell (put_cell (clear_wide_at (clear_wide_at s x y) (x + 1) y) x y c) (x + 1) y d)"
proof -
  let ?s2 = "clear_wide_at (clear_wide_at s x y) (x + 1) y"
  let ?s3 = "put_cell ?s2 x y c"
  let ?t = "put_cell ?s3 (x + 1) y d"
  let ?f = "\<lambda>x'. cut_at (sc_cols s) (x + 1) (cut_at (sc_cols s) x (widths s y)) x'"
  have g2: "grid_only s ?s2" by (rule grid_only_trans[OF clear_wide_at_grid clear_wide_at_grid])
  have g3: "grid_only s ?s3" by (rule grid_only_put[OF g2])
  have g: "grid_only s ?t" by (rule grid_only_put[OF g3])
  note ok2 = grid_only_ok[OF ok g2] and ok3 = grid_only_ok[OF ok g3]
  have e: "widths ?t y' x' = (if y' = y then if x' = x then 2 else if x' = x + 1 then 0 else ?f x' else widths s y' x')"
    if "on_page s x' y'" for x' y'
    using widths_put[OF ok3, of "x + 1" y x' y' d] widths_put[OF ok2, of x y x' y' c] clear_two_widths[OF ok p that] that p c
    by (cases "y' = y"; cases "x' = x") (simp_all add: on_page_grid[OF g2] on_page_grid[OF g3])
  have "pairs (sc_cols s) (\<lambda>x'. if x \<le> x' \<and> x' \<le> x + 1 then 1 else ?f x')"
    using w p by (intro pairs_erase) (simp_all add: wide_ok_def on_page_def)
  from pairs_place[OF this, of x] have "pairs (sc_cols s) (\<lambda>x'. if x' = x then 2 else if x' = x + 1 then 0 else
      if x \<le> x' \<and> x' \<le> x + 1 then 1 else ?f x')" using p by (simp add: on_page_def)
  moreover have "(\<lambda>x'. if x' = x then 2 else if x' = x + 1 then 0 else if x \<le> x' \<and> x' \<le> x + 1 then 1 else ?f x')
      = (\<lambda>x'. if x' = x then 2 else if x' = x + 1 then (0::nat) else ?f x')" by (auto simp: fun_eq_iff)
  ultimately have "pairs (sc_cols s) (\<lambda>x'. if x' = x then 2 else if x' = x + 1 then 0 else ?f x')" by simp
  then have "pairs (sc_cols s) (widths ?t y)"
    using p e by (subst pairs_cong[where g = "\<lambda>x'. if x' = x then 2 else if x' = x + 1 then 0 else ?f x'"]) (simp_all add: on_page_def)
  then show ?thesis using e by (intro wide_rowI[OF w g, of y]) simp_all
qed

lemma put_glyph_wide:
  assumes ok: "screen_ok s" and w: "wide_ok s" and n: "n = 1 \<or> n = 2 \<and> sc_cx s + 1 < sc_cols s"
  shows "wide_ok (put_glyph s cp n)"
proof -
  have p: "on_page s (sc_cx s) (sc_cy s)" using ok by (simp add: screen_ok_def on_page_def)
  from n show ?thesis
  proof
    assume "n = 1"
    then show ?thesis using put_narrow_wide[OF ok w p, of "\<lparr>s_ch = cp, s_width = nat n, s_style = sc_pen s\<rparr>"]
      by (simp add: put_glyph_def Let_def)
  next
    assume h: "n = 2 \<and> sc_cx s + 1 < sc_cols s"
    then have "on_page s (sc_cx s + 1) (sc_cy s)" using p by (simp add: on_page_def)
    from put_pair_wide[OF ok w p this, of "\<lparr>s_ch = cp, s_width = nat n, s_style = sc_pen s\<rparr>" "\<lparr>s_ch = 0x20, s_width = 0, s_style = sc_pen s\<rparr>"]
    show ?thesis using h by (simp add: put_glyph_def Let_def)
  qed
qed

lemma scroll_wide [inv_intros]:
  assumes "screen_ok s" "wide_ok s"
  shows "wide_ok (scroll_up s)" "wide_ok (scroll_down s)"
proof -
  show "wide_ok (scroll_down s)" using assms scroll_slice_wide by (simp add: scroll_down_def)
  have "screen_ok (s\<lparr>sc_history := Some (sb_push sb c)\<rparr>)" if "sc_history s = Some sb" for sb c
    using assms(1) that sb_push_ok by (simp add: screen_ok_def hist_ok_def)
  then show "wide_ok (scroll_up s)" using assms scroll_slice_wide
    by (auto simp: scroll_up_def Let_def split: option.splits)
qed

lemma line_wide [inv_intros]:
  assumes "screen_ok s" "wide_ok s"
  shows "wide_ok (line_feed s)" "wide_ok (reverse_index s)" "wide_ok (insert_lines s n)" "wide_ok (delete_lines s n)"
proof -
  have "screen_ok (s\<lparr>sc_wrap := False\<rparr>)" using assms(1) by (simp add: screen_ok_def)
  then show "wide_ok (line_feed s)" "wide_ok (reverse_index s)"
    using assms scroll_wide[of "s\<lparr>sc_wrap := False\<rparr>"] by (simp_all add: line_feed_def reverse_index_def Let_def)
  show "wide_ok (insert_lines s n)" "wide_ok (delete_lines s n)"
    using assms scroll_slice_wide by (simp_all add: insert_lines_def delete_lines_def)
qed

lemma line_feed_sel [simp]: "sc_cx (line_feed s) = sc_cx s" "sc_cols (line_feed s) = sc_cols s"
  "sc_autowrap (line_feed s) = sc_autowrap s" "sc_pen (line_feed s) = sc_pen s" "sc_charset (line_feed s) = sc_charset s"
  "sc_rows (line_feed s) = sc_rows s"
proof -
  have u: "sc_cx (scroll_slice_up t tp bt n) = sc_cx t" "sc_cols (scroll_slice_up t tp bt n) = sc_cols t"
    "sc_autowrap (scroll_slice_up t tp bt n) = sc_autowrap t" "sc_pen (scroll_slice_up t tp bt n) = sc_pen t"
    "sc_charset (scroll_slice_up t tp bt n) = sc_charset t" "sc_rows (scroll_slice_up t tp bt n) = sc_rows t" for t tp bt n
    by (simp_all add: scroll_slice_up_def on_slice_def Let_def)
  have "sc_cx (scroll_up t) = sc_cx t" "sc_cols (scroll_up t) = sc_cols t" "sc_autowrap (scroll_up t) = sc_autowrap t"
    "sc_pen (scroll_up t) = sc_pen t" "sc_charset (scroll_up t) = sc_charset t" "sc_rows (scroll_up t) = sc_rows t" for t
    by (simp_all add: scroll_up_def Let_def u split: option.splits)
  then show "sc_cx (line_feed s) = sc_cx s" "sc_cols (line_feed s) = sc_cols s"
    "sc_autowrap (line_feed s) = sc_autowrap s" "sc_pen (line_feed s) = sc_pen s" "sc_charset (line_feed s) = sc_charset s"
    "sc_rows (line_feed s) = sc_rows s"
    by (simp_all add: line_feed_def Let_def)
qed

lemma print_wide [inv_intros]:
  assumes ok: "screen_ok s" and w: "wide_ok s" and c: "2 \<le> sc_cols s"
  shows "wide_ok (print amb s cp)"
proof -
  define n where "n = max 0 (char_width amb (translate cp (sc_charset s)))"
  have n: "n = 0 \<or> n = 1 \<or> n = 2" using char_width_range[of amb "translate cp (sc_charset s)"] by (auto simp: n_def)
  have lf: "screen_ok (line_feed (t\<lparr>sc_cx := 0\<rparr>)) \<and> wide_ok (line_feed (t\<lparr>sc_cx := 0\<rparr>))" if "screen_ok t" "wide_ok t" for t
  proof -
    have "screen_ok (t\<lparr>sc_cx := 0\<rparr>)" using that by (simp add: screen_ok_def)
    then show ?thesis using that line_wide(1) good_line_feed by (auto simp: good_op_def)
  qed
  define s1 where "s1 = (if sc_wrap s \<and> sc_autowrap s then line_feed (s\<lparr>sc_wrap := False, sc_cx := 0\<rparr>) else s)"
  have "screen_ok (s\<lparr>sc_wrap := False\<rparr>)" using ok by (simp add: screen_ok_def)
  then have s1: "screen_ok s1" "wide_ok s1" "sc_cols s1 = sc_cols s"
    using lf[of "s\<lparr>sc_wrap := False\<rparr>"] ok w by (auto simp: s1_def)
  have "wide_ok (put_glyph (line_feed (s1\<lparr>sc_cx := 0\<rparr>)) cp' 2)" for cp'
    using lf[OF s1(1,2)] s1(3) c by (intro put_glyph_wide) simp_all
  moreover have "wide_ok (put_glyph s1 cp' n)" if "n \<noteq> 0" "\<not> (n = 2 \<and> sc_cx s1 + 1 \<ge> sc_cols s1)" for cp'
    using s1 that n by (intro put_glyph_wide) auto
  ultimately show ?thesis unfolding print_def Let_def n_def[symmetric] s1_def[symmetric] using w s1(2) by auto
qed

definition row_cells :: "screen \<Rightarrow> int \<Rightarrow> line" where
  "row_cells s y = map (\<lambda>x. screen_at s x y) [0..sc_cols s - 1]"

lemma row_cells_grid:
  assumes ok: "screen_ok s" and y: "0 \<le> y" "y < sc_rows s"
  shows "take (nat (sc_cols s)) (drop (nat y * nat (sc_cols s)) (sc_grid s)) = row_cells s y"
proof (rule nth_equalityI)
  let ?c = "nat (sc_cols s)"
  have "(nat y + 1) * ?c \<le> nat (sc_rows s) * ?c" using y by (intro mult_le_mono1) linarith
  then have l: "nat y * ?c + ?c \<le> length (sc_grid s)" using ok by (simp add: screen_ok_def mult.commute)
  then show "length (take ?c (drop (nat y * ?c) (sc_grid s))) = length (row_cells s y)" by (simp add: row_cells_def)
  fix i assume "i < length (take ?c (drop (nat y * ?c) (sc_grid s)))"
  then have i: "i < ?c" by simp
  then have "[0..sc_cols s - 1] ! i = int i" by (subst nth_upto) linarith+
  then show "take ?c (drop (nat y * ?c) (sc_grid s)) ! i = row_cells s y ! i"
    using i y l by (simp add: row_cells_def screen_at_def cell_index_def zless_nat_eq_int_zless)
qed

lemma row_cells_wrap [simp]: "row_cells (s\<lparr>sc_wrap := b\<rparr>) y = row_cells s y"
  by (simp add: row_cells_def screen_at_def cell_index_def)

lemma screen_at_fields [simp]: "screen_at (s\<lparr>sc_wrap := b\<rparr>) = screen_at s" "screen_at (s\<lparr>sc_history := h\<rparr>) = screen_at s"
  "screen_at (s\<lparr>sc_cx := i\<rparr>) = screen_at s" "screen_at (s\<lparr>sc_cy := i\<rparr>) = screen_at s"
  by (simp_all add: screen_at_def cell_index_def fun_eq_iff)

lemma erased_fields [simp]: "erased (s\<lparr>sc_wrap := b\<rparr>) = erased s" "erased (s\<lparr>sc_history := h\<rparr>) = erased s"
  "erased (s\<lparr>sc_cx := i\<rparr>) = erased s" "erased (s\<lparr>sc_cy := i\<rparr>) = erased s"
  by (simp_all add: erased_def)

lemma scroll_up_spec:
  assumes ok: "screen_ok s"
  shows "sc_history (scroll_up s) = (if \<not> sc_alt s \<and> sc_top s = 0 \<and> sc_bottom s = sc_rows s - 1
       then map_option (\<lambda>sb. sb_push sb (row_cells s 0)) (sc_history s) else sc_history s)"
    and "on_page s x y \<Longrightarrow> screen_at (scroll_up s) x y =
       (if sc_top s \<le> y \<and> y \<le> sc_bottom s
        then if y = sc_bottom s then erased s else screen_at s x (y + 1) else screen_at s x y)"
proof -
  define s1 where "s1 = (case sc_history s of None \<Rightarrow> s
     | Some sb \<Rightarrow> if \<not> sc_alt s \<and> sc_top s = 0 \<and> sc_bottom s = sc_rows s - 1
          then s\<lparr>sc_history := Some (sb_push sb (take (nat (sc_cols s)) (drop (nat (sc_top s) * nat (sc_cols s)) (sc_grid s))))\<rparr> else s)"
  have e: "scroll_up s = scroll_slice_up s1 (sc_top s) (sc_bottom s) 1" by (simp add: scroll_up_def s1_def Let_def)
  have ok1: "screen_ok s1" using ok sb_push_ok by (auto simp: s1_def screen_ok_def hist_ok_def split: option.splits)
  have f: "screen_at s1 = screen_at s" "erased s1 = erased s" "sc_rows s1 = sc_rows s" "sc_cols s1 = sc_cols s"
    by (auto simp: s1_def split: option.splits)
  have g: "grid_only s1 (scroll_up s)" unfolding e by (rule scroll_slice_up_grid[OF ok1])
  have r: "sc_top s = 0 \<Longrightarrow> take (nat (sc_cols s)) (drop (nat (sc_top s) * nat (sc_cols s)) (sc_grid s)) = row_cells s 0"
    using row_cells_grid[OF ok, of 0] ok by (simp add: screen_ok_def)
  have "sc_history (scroll_up s) = sc_history s1" by (rule grid_only_sel(17)[OF g])
  then show "sc_history (scroll_up s) = (if \<not> sc_alt s \<and> sc_top s = 0 \<and> sc_bottom s = sc_rows s - 1
       then map_option (\<lambda>sb. sb_push sb (row_cells s 0)) (sc_history s) else sc_history s)"
    using r by (auto simp: s1_def split: option.splits)
  assume "on_page s x y"
  then show "screen_at (scroll_up s) x y = (if sc_top s \<le> y \<and> y \<le> sc_bottom s
        then if y = sc_bottom s then erased s else screen_at s x (y + 1) else screen_at s x y)"
    unfolding e using scroll_slice_up_at[OF ok1, of "sc_top s" "sc_bottom s" 1 x y] ok
    by (auto simp: f on_page_def screen_ok_def)
qed

section \<open>Inserting and deleting characters on a row of single-width cells\<close>

definition narrow_row :: "screen \<Rightarrow> int \<Rightarrow> bool" where
  "narrow_row s y \<longleftrightarrow> (\<forall>x. 0 \<le> x \<and> x < sc_cols s \<longrightarrow> widths s y x = 1)"

lemma narrow_clear:
  assumes "narrow_row s y" "on_page s x y"
  shows "clear_wide_at s x y = s" "break_wide_at s x y = s"
  using assms by (simp_all add: narrow_row_def on_page_def clear_wide_at_def break_wide_at_def Let_def widths_def)

lemma break_off: "\<not> x < sc_cols s \<Longrightarrow> break_wide_at s x y = s"
  by (simp add: break_wide_at_def screen_at_def scell_init_def)

lemma narrow_put:
  assumes "screen_ok s" "narrow_row s y" "on_page s x y" "s_width c = 1"
  shows "narrow_row (put_cell s x y c) y"
  using assms widths_put[OF assms(1,3)] by (auto simp: narrow_row_def on_page_def grid_only_sel[OF put_cell_grid])

lemma erase_span_narrow:
  assumes ok: "screen_ok s" and n: "narrow_row s y" and y: "0 \<le> y" "y < sc_rows s" and p: "on_page s x' y'"
  shows "screen_at (erase_span s x0 x1 y) x' y' = (if y' = y \<and> x0 \<le> x' \<and> x' \<le> x1 then erased s else screen_at s x' y')"
proof -
  define a b where "a = max 0 x0" and "b = min (sc_cols s - 1) x1"
  show ?thesis
  proof (cases "a \<le> b")
    case True
    then have ab: "on_page s a y" "on_page s b y" using y ok by (auto simp: on_page_def a_def b_def screen_ok_def)
    have "erase_span s x0 x1 y = foldl (\<lambda>s x. put_cell s x y (erased s)) s [a..b]"
      using True y narrow_clear(1)[OF n ab(1)] narrow_clear(1)[OF n ab(2)]
      unfolding erase_span_def Let_def a_def[symmetric] b_def[symmetric] by simp
    then have "screen_at (erase_span s x0 x1 y) x' y' = (if y' = y \<and> x' \<in> set [a..b] then erased s else screen_at s x' y')"
      using ok ab y p by (simp only:) (rule put_cells_at, auto simp: on_page_def)
    then show ?thesis using p by (auto simp: a_def b_def on_page_def)
  next
    case False
    then show ?thesis using p unfolding erase_span_def Let_def a_def[symmetric] b_def[symmetric]
      by (auto simp: a_def b_def on_page_def)
  qed
qed

lemma shift_right_at:
  assumes "screen_ok s" "0 < n" "n \<le> k" "m < sc_cols s" "0 \<le> y" "y < sc_rows s" "on_page s x' y'"
  shows "screen_at (foldl (\<lambda>s x. put_cell s x y (screen_at s (x - n) y)) s (rev [k..m])) x' y'
    = (if y' = y \<and> k \<le> x' \<and> x' \<le> m then screen_at s (x' - n) y else screen_at s x' y')"
  using assms
proof (induction "nat (m - k + 1)" arbitrary: s m)
  case 0
  then have "m < k" by linarith
  then show ?case by auto
next
  case (Suc i)
  then have km: "k \<le> m" by linarith
  let ?s = "put_cell s m y (screen_at s (m - n) y)"
  have g: "grid_only s ?s" by simp
  have l: "rev [k..m] = m # rev [k..m - 1]" using km by (simp add: upto_rec2)
  have "screen_at (foldl (\<lambda>s x. put_cell s x y (screen_at s (x - n) y)) ?s (rev [k..m - 1])) x' y'
    = (if y' = y \<and> k \<le> x' \<and> x' \<le> m - 1 then screen_at ?s (x' - n) y else screen_at ?s x' y')"
    using Suc.prems Suc.hyps(2) by (intro Suc.hyps(1)) (simp_all add: grid_only_ok[OF _ g] grid_only_sel[OF g] on_page_grid[OF g])
  moreover have "screen_at ?s x'' y'' = (if x'' = m \<and> y'' = y then screen_at s (m - n) y else screen_at s x'' y'')" if "on_page s x'' y''" for x'' y''
    using that Suc.prems km by (intro screen_at_put) (simp_all add: on_page_def)
  moreover have "on_page s (x' - n) y" if "k \<le> x'" "x' \<le> m" using that Suc.prems by (auto simp: on_page_def)
  ultimately show ?case using Suc.prems km by (auto simp: l)
qed

lemma shift_left_at:
  assumes "screen_ok s" "0 < n" "0 \<le> k" "m + n < sc_cols s" "0 \<le> y" "y < sc_rows s" "on_page s x' y'"
  shows "screen_at (foldl (\<lambda>s x. put_cell s x y (screen_at s (x + n) y)) s [k..m]) x' y'
    = (if y' = y \<and> k \<le> x' \<and> x' \<le> m then screen_at s (x' + n) y else screen_at s x' y')"
  using assms
proof (induction "nat (m - k + 1)" arbitrary: s k)
  case 0
  then have "m < k" by linarith
  then show ?case by auto
next
  case (Suc i)
  then have km: "k \<le> m" by linarith
  let ?s = "put_cell s k y (screen_at s (k + n) y)"
  have g: "grid_only s ?s" by simp
  have l: "[k..m] = k # [k + 1..m]" using km by (simp add: upto_rec1)
  have "screen_at (foldl (\<lambda>s x. put_cell s x y (screen_at s (x + n) y)) ?s [k + 1..m]) x' y'
    = (if y' = y \<and> k + 1 \<le> x' \<and> x' \<le> m then screen_at ?s (x' + n) y else screen_at ?s x' y')"
    using Suc.prems Suc.hyps(2) by (intro Suc.hyps(1)) (simp_all add: grid_only_ok[OF _ g] grid_only_sel[OF g] on_page_grid[OF g])
  moreover have "screen_at ?s x'' y'' = (if x'' = k \<and> y'' = y then screen_at s (k + n) y else screen_at s x'' y'')" if "on_page s x'' y''" for x'' y''
    using that Suc.prems km by (intro screen_at_put) (simp_all add: on_page_def)
  moreover have "on_page s (x' + n) y" if "k \<le> x'" "x' \<le> m" using that Suc.prems by (auto simp: on_page_def)
  ultimately show ?case using Suc.prems km by (auto simp: l)
qed

lemma narrowI:
  assumes "narrow_row s y" "grid_only s s'" "0 \<le> y" "y < sc_rows s"
    and "\<And>x. on_page s x y \<Longrightarrow> s_width (screen_at s' x y) = 1 \<or> (\<exists>x'. on_page s x' y \<and> screen_at s' x y = screen_at s x' y)"
  shows "narrow_row s' y"
  using assms by (simp add: narrow_row_def widths_def on_page_def grid_only_sel[OF assms(2)]) metis

lemma shift_grid:
  "grid_only s (foldl (\<lambda>s x. put_cell s x y (screen_at s (x - n) y)) s xs)"
  "grid_only s (foldl (\<lambda>s x. put_cell s x y (screen_at s (x + n) y)) s xs)"
  by (rule grid_only_foldl, simp)+

lemma insert_chars_at:
  assumes ok: "screen_ok s" and n: "narrow_row s (sc_cy s)" and k: "0 < k" and p: "on_page s x y"
  shows "screen_at (insert_chars s k) x y =
    (if y \<noteq> sc_cy s \<or> x < sc_cx s then screen_at s x y
     else if x < sc_cx s + k then erased s else screen_at s (x - k) y)"
proof -
  define m where "m = min k (sc_cols s - sc_cx s)"
  let ?cx = "sc_cx s" and ?cy = "sc_cy s"
  have c: "0 \<le> ?cx" "?cx < sc_cols s" "0 \<le> ?cy" "?cy < sc_rows s" using ok by (simp_all add: screen_ok_def)
  have m: "0 < m" "m \<le> sc_cols s - ?cx" using k c by (simp_all add: m_def)
  let ?s2 = "foldl (\<lambda>s x. put_cell s x ?cy (screen_at s (x - m) ?cy)) s (rev [?cx + m..sc_cols s - 1])"
  let ?s3 = "erase_span ?s2 ?cx (?cx + m - 1) ?cy"
  have g2: "grid_only s ?s2" by (rule shift_grid)
  have g3: "grid_only s ?s3" by (rule grid_only_trans[OF g2 erase_span_grid])
  note ok2 = grid_only_ok[OF ok g2]
  have a2: "screen_at ?s2 x' y' = (if y' = ?cy \<and> ?cx + m \<le> x' then screen_at s (x' - m) ?cy else screen_at s x' y')"
    if "on_page s x' y'" for x' y'
    using shift_right_at[OF ok m(1), of "?cx + m" "sc_cols s - 1" ?cy x' y'] c that by (auto simp: on_page_def)
  have n2: "narrow_row ?s2 ?cy"
  proof (rule narrowI[OF n g2 c(3,4)])
    fix x' assume "on_page s x' ?cy"
    then show "s_width (screen_at ?s2 x' ?cy) = 1 \<or> (\<exists>x''. on_page s x'' ?cy \<and> screen_at ?s2 x' ?cy = screen_at s x'' ?cy)"
      using a2[of x' ?cy] c m by (cases "?cx + m \<le> x'") (auto simp: on_page_def intro: exI[of _ "x' - m"])
  qed
  have a3: "screen_at ?s3 x' y' = (if y' = ?cy \<and> ?cx \<le> x' \<and> x' \<le> ?cx + m - 1 then erased s else screen_at ?s2 x' y')"
    if "on_page s x' y'" for x' y'
    using erase_span_narrow[OF ok2 n2, of x' y' ?cx "?cx + m - 1"] c that
    by (simp add: grid_only_sel[OF g2] on_page_grid[OF g2] grid_only_erased[OF g2])
  have "narrow_row ?s3 ?cy"
  proof (rule narrowI[OF n g3 c(3,4)])
    fix x' assume x': "on_page s x' ?cy"
    then show "s_width (screen_at ?s3 x' ?cy) = 1 \<or> (\<exists>x''. on_page s x'' ?cy \<and> screen_at ?s3 x' ?cy = screen_at s x'' ?cy)"
      using a3[of x' ?cy] n2 by (auto simp: narrow_row_def widths_def on_page_def grid_only_sel[OF g2])
  qed
  then have edge: "s_width (screen_at ?s3 (sc_cols ?s3 - 1) ?cy) = 1" using c by (simp add: narrow_row_def widths_def grid_only_sel[OF g3])
  have pc: "on_page s ?cx ?cy" using c by (simp add: on_page_def)
  have "insert_chars s k = ?s3"
    using k c edge narrow_clear(2)[OF n pc] unfolding insert_chars_def Let_def m_def[symmetric] by simp
  then show ?thesis using a3[OF p] a2[OF p] p m by (auto simp: on_page_def m_def min_def split: if_splits)
qed

lemma delete_chars_at:
  assumes ok: "screen_ok s" and n: "narrow_row s (sc_cy s)" and k: "0 < k" and p: "on_page s x y"
  shows "screen_at (delete_chars s k) x y =
    (if y \<noteq> sc_cy s \<or> x < sc_cx s then screen_at s x y
     else if x + k < sc_cols s then screen_at s (x + k) y else erased s)"
proof -
  define m where "m = min k (sc_cols s - sc_cx s)"
  let ?cx = "sc_cx s" and ?cy = "sc_cy s"
  have c: "0 \<le> ?cx" "?cx < sc_cols s" "0 \<le> ?cy" "?cy < sc_rows s" using ok by (simp_all add: screen_ok_def)
  have m: "0 < m" "m \<le> sc_cols s - ?cx" using k c by (simp_all add: m_def)
  let ?s2 = "foldl (\<lambda>s x. put_cell s x ?cy (screen_at s (x + m) ?cy)) s [?cx..sc_cols s - m - 1]"
  have g2: "grid_only s ?s2" by (rule shift_grid)
  note ok2 = grid_only_ok[OF ok g2]
  have a2: "screen_at ?s2 x' y' = (if y' = ?cy \<and> ?cx \<le> x' \<and> x' + m < sc_cols s then screen_at s (x' + m) ?cy else screen_at s x' y')"
    if "on_page s x' y'" for x' y'
    using shift_left_at[OF ok m(1) c(1), of "sc_cols s - m - 1" ?cy x' y'] c that by (auto simp: on_page_def)
  have n2: "narrow_row ?s2 ?cy"
  proof (rule narrowI[OF n g2 c(3,4)])
    fix x' assume "on_page s x' ?cy"
    then show "s_width (screen_at ?s2 x' ?cy) = 1 \<or> (\<exists>x''. on_page s x'' ?cy \<and> screen_at ?s2 x' ?cy = screen_at s x'' ?cy)"
      using a2[of x' ?cy] c m by (cases "?cx \<le> x' \<and> x' + m < sc_cols s") (auto simp: on_page_def intro: exI[of _ "x' + m"])
  qed
  have pc: "on_page s ?cx ?cy" using c by (simp add: on_page_def)
  have "break_wide_at s (?cx + m) ?cy = s"
    using narrow_clear(2)[OF n, of "?cx + m"] break_off[of "?cx + m" s] c m by (cases "?cx + m < sc_cols s") (simp_all add: on_page_def)
  then have "delete_chars s k = erase_span ?s2 (sc_cols s - m) (sc_cols s - 1) ?cy"
    using k c narrow_clear(2)[OF n pc] unfolding delete_chars_def Let_def m_def[symmetric] by (simp add: grid_only_sel[OF g2])
  then have "screen_at (delete_chars s k) x y = (if y = ?cy \<and> sc_cols s - m \<le> x \<and> x \<le> sc_cols s - 1 then erased s else screen_at ?s2 x y)"
    using erase_span_narrow[OF ok2 n2, of x y "sc_cols s - m" "sc_cols s - 1"] c p
    by (simp add: grid_only_sel[OF g2] on_page_grid[OF g2] grid_only_erased[OF g2])
  then show ?thesis using a2[OF p] p m by (auto simp: on_page_def m_def min_def split: if_splits)
qed

lemma put_erased_keeps:
  assumes "screen_ok s" "on_page s x y" "on_page s x' y'" "screen_at s x' y' = erased s"
  shows "screen_at (put_cell s x y (erased s)) x' y' = erased s"
  using assms screen_at_put[of s x y x' y' "erased s"] by (auto simp: on_page_def)

lemma good_prints: "good_op s (foldl (print amb) s cps)"
  by (induction cps arbitrary: s) (auto intro: good_op_trans good_print)

lemma screen_init_at: "screen_at (screen_init c r) x y = scell_init"
proof (cases "x < 0 \<or> y < 0 \<or> x \<ge> max 1 c \<or> y \<ge> max 1 r")
  case False
  then have "nat x < nat (max 1 c)" "nat y < nat (max 1 r)" by auto
  then have "nat y * nat (max 1 c) + nat x < nat (max 1 r) * nat (max 1 c)" by (simp only: cell_before)
  then show ?thesis by (simp add: screen_at_def screen_init_def reset_tabs_def Let_def cell_index_def mult.commute)
qed (auto simp: screen_at_def screen_init_def reset_tabs_def Let_def)

lemma screen_init_widths [simp]: "widths (screen_init c r) y x = 1"
  by (simp add: widths_def screen_init_at scell_init_def)

section \<open>Properties\<close>

text \<open>
  C11.  The invariant of the screen: starting from a new screen, whatever the guest, the
  window manager and the reader of the history do, in any order, the grid keeps exactly
  \<open>cols * rows\<close> cells, the cursor and the scroll region stay inside it, the tab stops
  follow the width, the page kept aside by the alternate screen has the current size
  with its cursor inside, and the history is well formed.
\<close>

theorem screen_invariant:
  assumes "(screen_step amb)\<^sup>*\<^sup>* (screen_init cols rows) s"
  shows "screen_ok s"
  using screen_steps_ok[OF assms screen_init_ok] .

theorem screen_invariant_witness:
  "screen_ok (resize (print False (enter_alt_screen (screen_init 4 2)) 0x41) 2 9)"
proof (rule screen_invariant[of False 4 2])
  let ?a = "enter_alt_screen (screen_init 4 2)"
  have "screen_step False (screen_init 4 2) ?a" by (rule s_enter)
  moreover have "screen_step False ?a (print False ?a 0x41)" by (intro s_guest g_print)
  moreover have "screen_step False (print False ?a 0x41) (resize (print False ?a 0x41) 2 9)" by (rule s_resize)
  ultimately show "(screen_step False)\<^sup>*\<^sup>* (screen_init 4 2) (resize (print False ?a 0x41) 2 9)" by (meson converse_rtranclp_into_rtranclp rtranclp.rtrancl_refl)
qed

text \<open>
  C20.  The alternate screen gives back what it took: whatever a program does after
  entering it, leaving restores the main page cell by cell, the cursor with its pending
  wrap, the pen, the character set and the saved cursor, and the history has received
  nothing.
\<close>

theorem alt_screen_roundtrip:
  assumes "screen_ok s" and "\<not> sc_alt s" and "(guest_op amb)\<^sup>*\<^sup>* (enter_alt_screen s) t"
  shows "let s' = leave_alt_screen t in
    sc_grid s' = sc_grid s \<and> sc_cols s' = sc_cols s \<and> sc_rows s' = sc_rows s \<and> cursor_now s' = cursor_now s
    \<and> sc_saved s' = sc_saved s \<and> sc_history s' = sc_history s \<and> \<not> sc_alt s'"
proof -
  have "keeps_page (enter_alt_screen s) t"
    using guest_ops_good[OF assms(3)] enter_alt_ok[OF assms(1)] by (simp add: good_op_def)
  then show ?thesis using assms(2)
    by (simp add: keeps_page_def enter_alt_screen_def leave_alt_screen_def cursor_now_def Let_def)
qed

theorem alt_screen_roundtrip_witness:
  "sc_grid (leave_alt_screen (print False (enter_alt_screen (screen_init 4 2)) 0x41)) = replicate 8 scell_init"
proof -
  let ?s = "screen_init 4 2"
  have "(guest_op False)\<^sup>*\<^sup>* (enter_alt_screen ?s) (print False (enter_alt_screen ?s) 0x41)"
    by (intro r_into_rtranclp g_print)
  moreover have "\<not> sc_alt ?s" "sc_grid ?s = replicate 8 scell_init" by (simp_all add: screen_init_def reset_tabs_def Let_def)
  ultimately show ?thesis using alt_screen_roundtrip[OF screen_init_ok[of 4 2], of False] by (simp add: Let_def)
qed

text \<open>
  A line feed at the bottom of the scroll region: every row of the region moves up
  by one, the last one is blank in the current background, nothing outside the region
  moves, and the row that leaves the top enters the history exactly when the region is
  the whole page and the alternate screen is off.  The cursor stays where it was.
\<close>

theorem line_feed_scrolls:
  assumes "screen_ok s" and "sc_cy s = sc_bottom s"
  shows "(\<forall>x y. on_page s x y \<longrightarrow> screen_at (line_feed s) x y =
       (if y < sc_top s \<or> sc_bottom s < y then screen_at s x y
        else if y = sc_bottom s then erased s else screen_at s x (y + 1)))
    \<and> sc_history (line_feed s) =
       (if \<not> sc_alt s \<and> sc_top s = 0 \<and> sc_bottom s = sc_rows s - 1
        then map_option (\<lambda>sb. sb_push sb (row_cells s 0)) (sc_history s) else sc_history s)
    \<and> sc_cx (line_feed s) = sc_cx s \<and> sc_cy (line_feed s) = sc_cy s"
proof -
  let ?s = "s\<lparr>sc_wrap := False\<rparr>"
  have ok: "screen_ok ?s" using assms(1) by (simp add: screen_ok_def)
  have e: "line_feed s = scroll_up ?s" using assms(2) by (simp add: line_feed_def)
  have "sc_cy (scroll_up ?s) = sc_cy s"
    by (simp add: scroll_up_def scroll_slice_up_def on_slice_def Let_def split: option.splits)
  then show ?thesis using scroll_up_spec[OF ok] line_feed_sel(1)[of s] by (auto simp: e on_page_def)
qed

theorem line_feed_scrolls_witness:
  "screen_at (line_feed (move_to (screen_init 4 2) 0 1)) 3 1 = scell_init"
proof -
  let ?s = "move_to (screen_init 4 2) 0 1"
  have "screen_ok ?s" using good_move_to screen_init_ok by (auto simp: good_op_def)
  moreover have v: "sc_cy ?s = sc_bottom ?s" "on_page ?s 3 1" "sc_bottom ?s = 1" "sc_top ?s = 0" "erased ?s = scell_init"
    by (simp_all add: move_to_def screen_init_def reset_tabs_def Let_def clampi_def on_page_def erased_def scell_init_def style_init_def)
  ultimately show ?thesis using line_feed_scrolls[of ?s] by simp
qed

text \<open>
  Wide characters stay whole: on a screen of at least two columns, printing any
  character, erasing, moving to another line and inserting or deleting lines keep every
  left half followed by its right half and every right half preceded by its left half.
\<close>

theorem wide_characters_whole:
  assumes "screen_ok s" and "wide_ok s" and "2 \<le> sc_cols s"
  shows "wide_ok (print amb s cp) \<and> wide_ok (line_feed s) \<and> wide_ok (reverse_index s)
    \<and> wide_ok (erase_display s m) \<and> wide_ok (erase_line s m) \<and> wide_ok (erase_chars s n)
    \<and> wide_ok (insert_lines s n) \<and> wide_ok (delete_lines s n)"
  using assms by (intro conjI inv_intros)

theorem wide_characters_whole_witness:
  "wide_ok (print False (screen_init 2 1) 0x4E2D)"
proof -
  have "wide_ok (screen_init 2 1)" by (simp add: wide_ok_def pairs_def)
  then show ?thesis using wide_characters_whole[OF screen_init_ok, of 2 1 False "0x4E2D"]
    by (simp add: screen_init_def reset_tabs_def Let_def)
qed

text \<open>
  Inserting and deleting characters on a line of single-width characters: the cells
  left of the cursor stay; \<open>insert_chars n\<close> opens \<open>n\<close> blanks at the cursor and moves the
  rest right, \<open>delete_chars n\<close> removes \<open>n\<close> cells at the cursor, moves the rest left and
  blanks the end; every other line is untouched.
\<close>

theorem shift_chars_narrow:
  assumes "screen_ok s" and "narrow_row s (sc_cy s)" and "0 < n" and "on_page s x y"
  shows "screen_at (insert_chars s n) x y =
      (if y \<noteq> sc_cy s \<or> x < sc_cx s then screen_at s x y
       else if x < sc_cx s + n then erased s else screen_at s (x - n) y)
    \<and> screen_at (delete_chars s n) x y =
      (if y \<noteq> sc_cy s \<or> x < sc_cx s then screen_at s x y
       else if x + n < sc_cols s then screen_at s (x + n) y else erased s)"
  using insert_chars_at[OF assms] delete_chars_at[OF assms] by simp

theorem shift_chars_narrow_witness:
  "screen_at (insert_chars (screen_init 3 1) 2) 2 0 = scell_init"
proof -
  let ?s = "screen_init 3 1"
  have "narrow_row ?s (sc_cy ?s)" by (simp add: narrow_row_def)
  moreover have "on_page ?s 2 0" "sc_cy ?s = 0" "sc_cx ?s = 0"
    by (simp_all add: on_page_def screen_init_def reset_tabs_def Let_def)
  moreover have "screen_at ?s 0 0 = scell_init" by (rule screen_init_at)
  ultimately show ?thesis using shift_chars_narrow[OF screen_init_ok[of 3 1], of 2 2 0] by simp
qed

text \<open>
  What happens when a wide character lies across the end of the inserted blanks: the
  cell that the cursor stood on has been moved to the first column after them, and the
  erasing of the blanks, which finds the stale left half at the end of the span, wipes
  that moved character out.
\<close>

theorem insert_chars_wipes_moved:
  assumes "screen_ok s" and "2 \<le> n" and "sc_cx s + n < sc_cols s"
    and "widths s (sc_cy s) (sc_cx s) = 1" and "widths s (sc_cy s) (sc_cx s + n - 1) = 2"
  shows "screen_at (insert_chars s n) (sc_cx s + n) (sc_cy s) = erased s"
proof -
  let ?cx = "sc_cx s" and ?cy = "sc_cy s"
  have c: "0 \<le> ?cx" "0 \<le> ?cy" "?cy < sc_rows s" using assms(1) by (simp_all add: screen_ok_def)
  let ?s2 = "foldl (\<lambda>s x. put_cell s x ?cy (screen_at s (x - n) ?cy)) s (rev [?cx + n..sc_cols s - 1])"
  let ?s3 = "put_cell ?s2 (?cx + n) ?cy (erased s)"
  let ?t = "foldl (\<lambda>s x. put_cell s x ?cy (erased s)) ?s3 [?cx..?cx + n - 1]"
  have g2: "grid_only s ?s2" by (rule shift_grid)
  have g3: "grid_only s ?s3" by (rule grid_only_put[OF g2])
  have gt: "grid_only s ?t" by (rule grid_only_trans[OF g3 grid_only_foldl]) simp
  note ok2 = grid_only_ok[OF assms(1) g2] and ok3 = grid_only_ok[OF assms(1) g3]
  have a2: "screen_at ?s2 x ?cy = screen_at s x ?cy" if "0 \<le> x" "x < ?cx + n" for x
    using shift_right_at[OF assms(1), of n "?cx + n" "sc_cols s - 1" ?cy x ?cy] assms c that by (simp add: on_page_def)
  have c1: "clear_wide_at ?s2 ?cx ?cy = ?s2"
    using a2[of ?cx] assms(2,4) c by (simp add: clear_wide_at_def Let_def widths_def)
  have c2: "clear_wide_at ?s2 (?cx + n - 1) ?cy = ?s3"
    using a2[of "?cx + n - 1"] assms(2,3,5) c by (simp add: clear_wide_at_def Let_def widths_def grid_only_sel[OF g2] grid_only_erased[OF g2])
  have e: "erase_span ?s2 ?cx (?cx + n - 1) ?cy = ?t"
    using c1 c2 c assms(2,3) by (simp add: erase_span_def Let_def grid_only_sel[OF g2] max_def min_def)
  have b: "break_wide_at s ?cx ?cy = s" using assms(4) by (simp add: break_wide_at_def Let_def widths_def)
  have at3: "screen_at ?s3 (?cx + n) ?cy = erased s"
    using screen_at_put[OF ok2, of "?cx + n" ?cy "?cx + n" ?cy "erased s"] c assms(2,3) by (simp add: grid_only_sel[OF g2])
  have "screen_at ?t (?cx + n) ?cy = erased s"
    using put_cells_at[OF ok3, of "[?cx..?cx + n - 1]" ?cy "?cx + n" ?cy] at3 c assms(2,3) by (simp add: grid_only_sel[OF g3])
  moreover have "screen_at (put_cell ?t (sc_cols s - 1) ?cy (erased s)) (?cx + n) ?cy = erased s"
    using put_erased_keeps[OF grid_only_ok[OF assms(1) gt], of "sc_cols s - 1" ?cy "?cx + n" ?cy] calculation c assms(2,3)
    by (simp add: on_page_def grid_only_sel[OF gt] grid_only_erased[OF gt])
  moreover have "insert_chars s n = (if s_width (screen_at ?t (sc_cols s - 1) ?cy) = 2 then put_cell ?t (sc_cols s - 1) ?cy (erased s) else ?t)"
    using b e assms(2,3) by (simp add: insert_chars_def Let_def grid_only_sel[OF gt] grid_only_erased[OF gt] min_def)
  ultimately show ?thesis by simp
qed

theorem insert_chars_wipes_moved_witness:
  "let s = carriage_return (foldl (print False) (screen_init 6 1) [0x61, 0x62, 0x4E2D, 0x63, 0x64]) in
     s_ch (screen_at s 0 0) = 0x61 \<and> screen_at (insert_chars s 3) 3 0 = erased s"
proof -
  let ?s = "carriage_return (foldl (print False) (screen_init 6 1) [0x61, 0x62, 0x4E2D, 0x63, 0x64])"
  have "good_op (screen_init 6 1) ?s" by (rule good_op_trans[OF good_prints good_cr(1)])
  then have "screen_ok ?s" using screen_init_ok by (simp add: good_op_def)
  moreover have "sc_cols ?s = 6 \<and> sc_cx ?s = 0 \<and> sc_cy ?s = 0 \<and> widths ?s 0 0 = 1 \<and> widths ?s 0 2 = 2 \<and> s_ch (screen_at ?s 0 0) = 0x61" by code_simp
  ultimately show ?thesis using insert_chars_wipes_moved[of ?s 3] by (simp add: Let_def)
qed

end
