(* ===== verification/Input.thy ===== *)
theory Input
  imports Vt_Parser
begin

text \<open>
  \<open>src/input\<close>: the events a client's terminal produces, the parser that reads them from
  its bytes (\<open>parser.cpp\<close>), the encoder that gives a key back to a guest program
  (\<open>encode.cpp\<close>) and the two-stroke shortcuts (\<open>shortcuts.cpp\<close>).
\<close>

section \<open>Events\<close>

datatype key =
    KNone | KUnknown | KChar | KEnter | KTab | KBackTab | KBackspace | KEscape
  | KUp | KDown | KLeft | KRight | KHome | KEnd | KPgUp | KPgDn | KInsert | KDelete
  | KF1 | KF2 | KF3 | KF4 | KF5 | KF6 | KF7 | KF8 | KF9 | KF10 | KF11 | KF12

definition mod_Shift :: byte where "mod_Shift = 1"
definition mod_Alt :: byte where "mod_Alt = 2"
definition mod_Ctrl :: byte where "mod_Ctrl = 4"

record key_event =
  k_key :: key
  k_ch :: char32
  k_mods :: byte

definition mk_key :: "key \<Rightarrow> char32 \<Rightarrow> byte \<Rightarrow> key_event" where
  "mk_key k c m = \<lparr>k_key = k, k_ch = c, k_mods = m\<rparr>"

datatype mouse_action = Press | Release | Motion | WheelUp | WheelDown

record mouse_event =
  m_action :: mouse_action
  m_button :: byte
  m_x :: int
  m_y :: int
  m_mods :: byte

datatype input_event =
    EvKey key_event
  | EvMouse mouse_event
  | EvPaste bytes bool
  | EvFocus bool

section \<open>Parser\<close>

definition esc :: byte where "esc = 0x1B"
definition kPasteEnd :: bytes where "kPasteEnd = esc # str ''[201~''"
definition kMaxPasteChunk :: nat where "kMaxPasteChunk = 1024 * 1024"
definition kMaxCsiParamsLen :: nat where "kMaxCsiParamsLen = 128"
definition kMaxCsiParam :: int where "kMaxCsiParam = 65535"

definition key_from_tilde :: "int \<Rightarrow> key" where
  "key_from_tilde n =
     (if n = 1 then KHome else if n = 2 then KInsert else if n = 3 then KDelete else if n = 4 then KEnd
      else if n = 5 then KPgUp else if n = 6 then KPgDn else if n = 15 then KF5 else if n = 17 then KF6
      else if n = 18 then KF7 else if n = 19 then KF8 else if n = 20 then KF9 else if n = 21 then KF10
      else if n = 23 then KF11 else if n = 24 then KF12 else KUnknown)"

definition key_from_final :: "byte \<Rightarrow> key" where
  "key_from_final f =
     (if f = 0x41 then KUp else if f = 0x42 then KDown else if f = 0x43 then KRight
      else if f = 0x44 then KLeft else if f = 0x48 then KHome else if f = 0x46 then KEnd
      else if f = 0x5A then KBackTab else if f = 0x50 then KF1 else if f = 0x51 then KF2
      else if f = 0x52 then KF3 else if f = 0x53 then KF4 else KUnknown)"

text \<open>The loop of \<open>split_params\<close>, with the parameter under way.\<close>

fun split_loop :: "bytes \<Rightarrow> int \<Rightarrow> int list" where
  "split_loop [] cur = [cur]"
| "split_loop (c # cs) cur =
     (if c \<ge> 0x30 \<and> c \<le> 0x39 then
        let base = (if cur < 0 then 0 else cur); digit = int (unat c) - 48
        in split_loop cs (if base > cdiv (kMaxCsiParam - digit) 10 then kMaxCsiParam else base * 10 + digit)
      else if c = 0x3B then cur # split_loop cs (-1)
      else split_loop cs cur)"

definition split_params :: "bytes \<Rightarrow> int list" where
  "split_params s = split_loop s (-1)"

definition mods_from_param :: "int \<Rightarrow> byte" where
  "mods_from_param p = (if p \<le> 1 \<or> p > 16 then 0 else word_of_int (p - 1) AND 0x07)"

definition utf8_seq_len :: "byte \<Rightarrow> nat" where
  "utf8_seq_len b0 =
     (if b0 < 0x80 then 1 else if b0 AND 0xE0 = 0xC0 then 2 else if b0 AND 0xF0 = 0xE0 then 3
      else if b0 AND 0xF8 = 0xF0 then 4 else 1)"

record input_parser =
  ip_buf :: bytes
  ip_ready :: "input_event list"
  ip_in_paste :: bool
  ip_esc_pending :: bool
  ip_paste_scanned :: nat
  ip_scan_bytes :: nat

definition input_init :: input_parser where
  "input_init = \<lparr>ip_buf = [], ip_ready = [], ip_in_paste = False, ip_esc_pending = False,
     ip_paste_scanned = 0, ip_scan_bytes = 0\<rparr>"

definition emit :: "input_parser \<Rightarrow> input_event \<Rightarrow> input_parser" where
  "emit p e = p\<lparr>ip_ready := ip_ready p @ [e]\<rparr>"

definition emit_key :: "input_parser \<Rightarrow> key \<Rightarrow> char32 \<Rightarrow> byte \<Rightarrow> input_parser" where
  "emit_key p k c m = emit p (EvKey (mk_key k c m))"

text \<open>The branch of \<open>step\<close> inside a bracketed paste.\<close>

definition step_paste :: "input_parser \<Rightarrow> nat \<times> input_parser" where
  "step_paste p =
     (let tail = length kPasteEnd - 1;
          buf = ip_buf p;
          rescan_from = (if ip_paste_scanned p > tail then ip_paste_scanned p - tail else 0);
          p1 = p\<lparr>ip_scan_bytes := ip_scan_bytes p + (length buf - rescan_from)\<rparr>
      in case find_from buf kPasteEnd rescan_from of
           Some e \<Rightarrow>
             (e + length kPasteEnd,
              (emit p1 (EvPaste (take e buf) True))\<lparr>ip_in_paste := False, ip_paste_scanned := 0\<rparr>)
         | None \<Rightarrow>
             if length buf \<ge> kMaxPasteChunk then
               let flush = length buf - tail
               in (flush, (emit p1 (EvPaste (take flush buf) False))\<lparr>ip_paste_scanned := 0\<rparr>)
             else (0, p1\<lparr>ip_paste_scanned := (if length buf \<ge> tail then length buf - tail else 0)\<rparr>))"

text \<open>The branch of \<open>step\<close> on a byte other than ESC.\<close>

definition step_plain :: "input_parser \<Rightarrow> nat \<times> input_parser" where
  "step_plain p =
     (let b0 = ip_buf p ! 0 in
      if b0 = 0x0D \<or> b0 = 0x0A then (1, emit_key p KEnter 0 0)
      else if b0 = 0x09 then (1, emit_key p KTab 0 0)
      else if b0 = 0x7F \<or> b0 = 0x08 then (1, emit_key p KBackspace 0 0)
      else if b0 < 0x20 then
        (1, emit_key p KChar (if b0 = 0 then 0x20 else 0x61 + ucast b0 - 1) mod_Ctrl)
      else if length (ip_buf p) < utf8_seq_len b0 then (0, p)
      else let (cp, used) = utf8_decode (ip_buf p) 0 in (used, emit_key p KChar cp 0))"

text \<open>The search for the final byte of a CSI: the position where the loop stops, and whether
  the sequence was abandoned for its length.\<close>

function csi_scan :: "bytes \<Rightarrow> nat \<Rightarrow> nat \<times> bool" where
  "csi_scan buf i =
     (if i < length buf then
        if i - 2 \<ge> kMaxCsiParamsLen then (i, True)
        else if buf ! i \<ge> 0x40 \<and> buf ! i \<le> 0x7E then (i, False)
        else csi_scan buf (i + 1)
      else (i, False))"
  by pat_completeness auto
termination by (relation "measure (\<lambda>(buf, i). length buf - i)") auto

declare csi_scan.simps [simp del]

definition mouse_of :: "int \<Rightarrow> int \<Rightarrow> int \<Rightarrow> byte \<Rightarrow> mouse_event" where
  "mouse_of cb px py final_byte =
     (let bits = (word_of_int cb :: 32 word);
          mods = (if bits AND 4 \<noteq> 0 then mod_Shift else 0) OR (if bits AND 8 \<noteq> 0 then mod_Alt else 0)
                 OR (if bits AND 16 \<noteq> 0 then mod_Ctrl else 0);
          button = ucast (bits AND 3)
      in if bits AND 64 \<noteq> 0 then
           \<lparr>m_action = (if bits AND 1 \<noteq> 0 then WheelDown else WheelUp), m_button = 0,
            m_x = px - 1, m_y = py - 1, m_mods = mods\<rparr>
         else if bits AND 32 \<noteq> 0 then
           \<lparr>m_action = Motion, m_button = button, m_x = px - 1, m_y = py - 1, m_mods = mods\<rparr>
         else \<lparr>m_action = (if final_byte = 0x6D then Release else Press), m_button = button,
               m_x = px - 1, m_y = py - 1, m_mods = mods\<rparr>)"

text \<open>A complete CSI: parameters, final byte and the number of bytes it takes.\<close>

definition step_csi_done :: "input_parser \<Rightarrow> bytes \<Rightarrow> byte \<Rightarrow> nat \<Rightarrow> nat \<times> input_parser" where
  "step_csi_done p params f used =
     (if params \<noteq> [] \<and> hd params = 0x3C then
        let q = split_params (tl params) in
        if length q < 3 \<or> q ! 0 < 0 \<or> q ! 1 < 1 \<or> q ! 2 < 1 then (used, p)
        else (used, emit p (EvMouse (mouse_of (q ! 0) (q ! 1) (q ! 2) f)))
      else if f = 0x49 \<or> f = 0x4F then (used, emit p (EvFocus (f = 0x49)))
      else
        let q = split_params params;
            m = (if length q > 1 then mods_from_param (q ! 1) else 0)
        in if f = 0x7E then
             let n = (if q = [] \<or> q ! 0 < 0 then 0 else q ! 0)
             in if n = 200 then (used, p\<lparr>ip_in_paste := True, ip_paste_scanned := 0\<rparr>)
                else (used, emit_key p (key_from_tilde n) 0 m)
           else (used, emit_key p (key_from_final f) 0 m))"

text \<open>The branch of \<open>step\<close> on ESC.\<close>

definition step_esc :: "input_parser \<Rightarrow> nat \<times> input_parser" where
  "step_esc p =
     (let buf = ip_buf p in
      if length buf = 1 then (0, p\<lparr>ip_esc_pending := True\<rparr>)
      else if buf ! 1 = 0x4F then
        if length buf < 3 then (0, p) else (3, emit_key p (key_from_final (buf ! 2)) 0 0)
      else if buf ! 1 \<noteq> 0x5B then
        (2, if buf ! 1 \<ge> 0x20 \<and> buf ! 1 < 0x7F then emit_key p KChar (ucast (buf ! 1)) mod_Alt else p)
      else
        let (i, abandoned) = csi_scan buf 2 in
        if abandoned then (i, p)
        else if i \<ge> length buf then (0, p)
        else step_csi_done p (take (i - 2) (drop 2 buf)) (buf ! i) (i + 1))"

definition input_step :: "input_parser \<Rightarrow> nat \<times> input_parser" where
  "input_step p0 =
     (let p = p0\<lparr>ip_esc_pending := False\<rparr> in
      if ip_in_paste p then step_paste p
      else if ip_buf p ! 0 \<noteq> esc then step_plain p
      else step_esc p)"

text \<open>What \<open>step\<close> does to the buffer: nothing.  \<open>pump\<close> erases the bytes it has used.\<close>

lemma emit_buf [simp]: "ip_buf (emit p e) = ip_buf p" "ip_buf (emit_key p k c m) = ip_buf p"
  by (simp_all add: emit_def emit_key_def)

lemma step_csi_done_buf [simp]: "ip_buf (snd (step_csi_done p ps f n)) = ip_buf p"
  by (simp add: step_csi_done_def Let_def)

lemma step_paste_buf [simp]: "ip_buf (snd (step_paste p)) = ip_buf p"
  unfolding step_paste_def Let_def by (cases "find_from (ip_buf p) kPasteEnd
    (if length kPasteEnd - 1 < ip_paste_scanned p then ip_paste_scanned p - (length kPasteEnd - 1) else 0)") simp_all

lemma step_plain_buf [simp]: "ip_buf (snd (step_plain p)) = ip_buf p"
  unfolding step_plain_def Let_def by (cases "utf8_decode (ip_buf p) 0") simp

lemma step_esc_buf [simp]: "ip_buf (snd (step_esc p)) = ip_buf p"
  unfolding step_esc_def Let_def by (cases "csi_scan (ip_buf p) 2") simp

lemma input_step_buf [simp]: "ip_buf (snd (input_step p)) = ip_buf p"
  by (simp add: input_step_def Let_def)

function pump :: "input_parser \<Rightarrow> input_parser" where
  "pump p =
     (if ip_buf p = [] then p
      else if fst (input_step p) = 0 then snd (input_step p)
      else pump ((snd (input_step p))\<lparr>ip_buf := drop (fst (input_step p)) (ip_buf p)\<rparr>))"
  by pat_completeness auto
termination by (relation "measure (\<lambda>p. length (ip_buf p))") auto

declare pump.simps [simp del]

definition input_feed :: "input_parser \<Rightarrow> bytes \<Rightarrow> input_parser" where
  "input_feed p bs = pump (p\<lparr>ip_buf := ip_buf p @ bs\<rparr>)"

definition input_next :: "input_parser \<Rightarrow> input_event option \<times> input_parser" where
  "input_next p =
     (case ip_ready p of [] \<Rightarrow> (None, p) | e # es \<Rightarrow> (Some e, p\<lparr>ip_ready := es\<rparr>))"

definition input_timeout :: "input_parser \<Rightarrow> input_parser" where
  "input_timeout p0 =
     (let p = p0\<lparr>ip_esc_pending := False\<rparr>; buf = ip_buf p in
      if ip_in_paste p \<or> buf = [] then p
      else if buf ! 0 \<noteq> esc then
        let (cp, used) = utf8_decode buf 0
        in (emit_key p KChar cp 0)\<lparr>ip_buf := drop used buf\<rparr>
      else if length buf = 1 then emit_key (p\<lparr>ip_buf := []\<rparr>) KEscape 0 0
      else (foldl (\<lambda>p b. emit_key p KChar (ucast b) 0) (emit_key p KEscape 0 0) (tl buf))\<lparr>ip_buf := []\<rparr>)"

section \<open>Encoder\<close>

datatype plain = PlainCsi | Ss3Always | Ss3WhenApplication

definition kFinals :: "(key \<times> byte \<times> plain) list" where
  "kFinals = [
    (KUp, 0x41, Ss3WhenApplication), (KDown, 0x42, Ss3WhenApplication),
    (KRight, 0x43, Ss3WhenApplication), (KLeft, 0x44, Ss3WhenApplication),
    (KHome, 0x48, Ss3WhenApplication), (KEnd, 0x46, Ss3WhenApplication),
    (KF1, 0x50, Ss3Always), (KF2, 0x51, Ss3Always), (KF3, 0x52, Ss3Always), (KF4, 0x53, Ss3Always),
    (KBackTab, 0x5A, PlainCsi)]"

definition kTildes :: "(key \<times> int) list" where
  "kTildes = [
    (KInsert, 2), (KDelete, 3), (KPgUp, 5), (KPgDn, 6), (KF5, 15), (KF6, 17), (KF7, 18),
    (KF8, 19), (KF9, 20), (KF10, 21), (KF11, 23), (KF12, 24)]"

definition mod_param :: "byte \<Rightarrow> bytes" where
  "mod_param mods = to_string (int (unat (mods AND 0x07)) + 1)"

definition control_byte :: "char32 \<Rightarrow> byte option" where
  "control_byte ch =
     (if ch \<ge> 0x61 \<and> ch \<le> 0x7A then Some (ucast (ch - 0x61 + 1))
      else if ch \<ge> 0x41 \<and> ch \<le> 0x5A then Some (ucast (ch - 0x41 + 1))
      else if ch = 0x20 then Some 0 else None)"

definition encode_char :: "key_event \<Rightarrow> bytes" where
  "encode_char k =
     (let body = (case (if k_mods k AND mod_Ctrl \<noteq> 0 then control_byte (k_ch k) else None) of
                    Some c \<Rightarrow> [c] | None \<Rightarrow> encode_utf8 (k_ch k))
      in if k_mods k AND mod_Alt \<noteq> 0 then esc # body else body)"

definition ascii_key :: "key \<Rightarrow> byte option" where
  "ascii_key k =
     (case k of KEnter \<Rightarrow> Some 0x0D | KTab \<Rightarrow> Some 0x09 | KBackspace \<Rightarrow> Some 0x7F
      | KEscape \<Rightarrow> Some esc | _ \<Rightarrow> None)"

definition encode_key :: "key_event \<Rightarrow> bool \<Rightarrow> bytes" where
  "encode_key k app =
     (if k_key k = KChar then encode_char k
      else (case ascii_key (k_key k) of
        Some a \<Rightarrow> (if k_mods k AND mod_Alt \<noteq> 0 then [esc, a] else [a])
      | None \<Rightarrow>
          (let mods = k_mods k AND 0x07 in
           case map_of kFinals (k_key k) of
             Some (f, plain) \<Rightarrow>
               (if mods \<noteq> 0 then esc # str ''[1;'' @ mod_param mods @ [f]
                else (if plain = Ss3Always \<or> plain = Ss3WhenApplication \<and> app
                      then esc # str ''O'' else esc # str ''['') @ [f])
           | None \<Rightarrow>
               (case map_of kTildes (k_key k) of
                  Some n \<Rightarrow>
                    (if mods \<noteq> 0 then esc # str ''['' @ to_string n @ str '';'' @ mod_param mods @ str ''~''
                     else esc # str ''['' @ to_string n @ str ''~'')
                | None \<Rightarrow> []))))"

section \<open>Shortcuts\<close>

datatype action =
    MoveLeft | MoveRight | MoveUp | MoveDown | GrowWidth | ShrinkWidth | GrowHeight | ShrinkHeight
  | SnapLeft | SnapRight | SnapUp | SnapDown | NextWindow | PrevWindow | Close | Minimize
  | MaximizeToggle | FullscreenToggle | OpenMenu | Detach | ForceRepaint | ShowHelp | LiteralLeader

definition kBindings :: "(char32 \<times> action) list" where
  "kBindings = [
    (0x68, MoveLeft), (0x6C, MoveRight), (0x6B, MoveUp), (0x6A, MoveDown),
    (0x48, ShrinkWidth), (0x4C, GrowWidth), (0x4B, ShrinkHeight), (0x4A, GrowHeight),
    (0x6E, NextWindow), (0x70, PrevWindow), (0x77, Close), (0x2D, Minimize),
    (0x7A, MaximizeToggle), (0x66, FullscreenToggle), (0x20, OpenMenu),
    (0x72, ForceRepaint), (0x64, Detach), (0x3F, ShowHelp)]"

definition kKeyBindings :: "((key \<times> bool \<times> bool) \<times> action) list" where
  "kKeyBindings = [
    ((KLeft, False, False), MoveLeft), ((KRight, False, False), MoveRight),
    ((KUp, False, False), MoveUp), ((KDown, False, False), MoveDown),
    ((KLeft, True, False), ShrinkWidth), ((KRight, True, False), GrowWidth),
    ((KUp, True, False), ShrinkHeight), ((KDown, True, False), GrowHeight),
    ((KTab, False, False), NextWindow), ((KTab, True, False), PrevWindow)]"

definition lookup :: "key_event \<Rightarrow> action option" where
  "lookup k =
     (if k_key k \<noteq> KChar then
        let key = (if k_key k = KBackTab then KTab else k_key k);
            shift = (k_key k = KBackTab \<or> k_mods k AND mod_Shift \<noteq> 0);
            ctrl = (k_mods k AND mod_Ctrl \<noteq> 0)
        in map_of kKeyBindings (key, shift, ctrl)
      else map_of kBindings (k_ch k))"

definition is_repeatable :: "action \<Rightarrow> bool" where
  "is_repeatable a \<longleftrightarrow> a \<in> {MoveLeft, MoveRight, MoveUp, MoveDown, GrowWidth, ShrinkWidth, GrowHeight,
     ShrinkHeight, NextWindow, PrevWindow}"

datatype leader_phase = LeaderIdle | LeaderArmed | LeaderRepeating

record leader_result =
  lr_consumed :: bool
  lr_action :: "action option"

definition mk_result :: "bool \<Rightarrow> action option \<Rightarrow> leader_result" where
  "mk_result c a = \<lparr>lr_consumed = c, lr_action = a\<rparr>"

record leader_dispatch =
  ld_leader :: char32
  ld_phase :: leader_phase

definition leader_feed :: "leader_dispatch \<Rightarrow> key_event \<Rightarrow> leader_dispatch \<times> leader_result" where
  "leader_feed d k =
     (let is_leader = (k_key k = KChar \<and> k_ch k = ld_leader d \<and> k_mods k AND mod_Ctrl \<noteq> 0);
          a = lookup k;
          repeats = (case a of Some x \<Rightarrow> is_repeatable x | None \<Rightarrow> False)
      in case ld_phase d of
           LeaderIdle \<Rightarrow>
             if is_leader then (d\<lparr>ld_phase := LeaderArmed\<rparr>, mk_result True None)
             else (d, mk_result False None)
         | LeaderArmed \<Rightarrow>
             if is_leader then (d\<lparr>ld_phase := LeaderIdle\<rparr>, mk_result True (Some LiteralLeader))
             else (d\<lparr>ld_phase := (if repeats then LeaderRepeating else LeaderIdle)\<rparr>, mk_result True a)
         | LeaderRepeating \<Rightarrow>
             if is_leader then (d\<lparr>ld_phase := LeaderArmed\<rparr>, mk_result True None)
             else if repeats then (d, mk_result True a)
             else (d\<lparr>ld_phase := LeaderIdle\<rparr>, mk_result False None))"

definition leader_reset :: "leader_dispatch \<Rightarrow> leader_dispatch" where
  "leader_reset d = d\<lparr>ld_phase := LeaderIdle\<rparr>"

definition bound_actions :: "action list" where
  "bound_actions = map snd kBindings @ map snd kKeyBindings @ [LiteralLeader]"

end
