(* ===== verification/Pty.thy ===== *)
theory Pty
  imports Prelude
begin

text \<open>
  \<open>src/pty/pty.cpp\<close>: the parent's side of a pseudo-terminal.  What the kernel does is a
  parameter: the outcome of \<open>spawn\<close>, the answer of \<open>waitpid\<close>, and the room left in the
  line discipline (\<open>py_room\<close>), which bounds what a non-blocking \<open>write\<close> takes.  The bytes
  taken and the signals sent are recorded.
\<close>

record pty =
  py_master :: int
  py_pid :: int
  py_exited :: bool
  py_signalled :: bool
  py_eof :: bool
  py_code :: int
  py_room :: nat
  py_out :: bytes
  py_cols :: "16 word"
  py_rows :: "16 word"
  py_sent :: "int list"

definition pty_init :: pty where
  "pty_init = \<lparr>py_master = -1, py_pid = -1, py_exited = False, py_signalled = False, py_eof = False,
     py_code = 0, py_room = 0, py_out = [], py_cols = 0, py_rows = 0, py_sent = []\<rparr>"

text \<open>\<open>spawn\<close>, its outcome given: the message of a failure, or the master and the child.\<close>

definition pty_spawn :: "pty \<Rightarrow> 16 word \<Rightarrow> 16 word \<Rightarrow> bytes + int \<times> int \<Rightarrow> pty \<times> bytes" where
  "pty_spawn p cols rows r =
     (case r of
        Inl e \<Rightarrow> (p, e)
      | Inr (master, pid) \<Rightarrow> (p\<lparr>py_master := master, py_pid := pid, py_cols := cols, py_rows := rows\<rparr>, []))"

definition pty_resize :: "pty \<Rightarrow> 16 word \<Rightarrow> 16 word \<Rightarrow> pty" where
  "pty_resize p cols rows = (if py_master p < 0 then p else p\<lparr>py_cols := cols, py_rows := rows\<rparr>)"

text \<open>\<open>write\<close>: the number of bytes taken, -1 for none.\<close>

definition pty_write :: "pty \<Rightarrow> bytes \<Rightarrow> pty \<times> int" where
  "pty_write p bs =
     (if py_master p < 0 then (p, -1)
      else let n = min (length bs) (py_room p) in
        (p\<lparr>py_out := py_out p @ take n bs, py_room := py_room p - n\<rparr>, if n = 0 then -1 else int n))"

definition pty_close_master :: "pty \<Rightarrow> pty" where
  "pty_close_master p = (if py_master p < 0 then p else p\<lparr>py_master := -1\<rparr>)"

definition sighup :: int where "sighup = 1"
definition sigkill :: int where "sigkill = 9"

definition pty_hangup :: "pty \<Rightarrow> pty" where
  "pty_hangup p = (if py_pid p \<le> 0 \<or> py_exited p then p else p\<lparr>py_sent := py_sent p @ [sighup]\<rparr>)"

definition pty_kill_now :: "pty \<Rightarrow> pty" where
  "pty_kill_now p = (if py_pid p \<le> 0 \<or> py_exited p then p else p\<lparr>py_sent := py_sent p @ [sigkill]\<rparr>)"

definition pty_shutdown :: "pty \<Rightarrow> pty" where
  "pty_shutdown p = pty_kill_now (pty_close_master (pty_hangup p))"

datatype wait_result = StillRunning | ExitedWith int | KilledBy int

definition pty_try_reap :: "pty \<Rightarrow> wait_result \<Rightarrow> pty \<times> bool" where
  "pty_try_reap p w =
     (if py_pid p \<le> 0 \<or> py_exited p then (p, False)
      else case w of
        StillRunning \<Rightarrow> (p, False)
      | ExitedWith c \<Rightarrow> (p\<lparr>py_exited := True, py_code := c\<rparr>, True)
      | KilledBy s \<Rightarrow> (p\<lparr>py_exited := True, py_signalled := True, py_code := s\<rparr>, True))"

definition pty_note_eof :: "pty \<Rightarrow> pty" where
  "pty_note_eof p = p\<lparr>py_eof := True\<rparr>"

end
