(* ===== verification/Terminal.thy ===== *)
theory Terminal
  imports Vt_Screen_Edit Input Pty
begin

text \<open>
  \<open>src/apps/terminal.cpp\<close>: the application that joins a pseudo-terminal and a screen.  It
  holds tabs, each with its own parser, screen, history and modes, receives the calls of
  the parsers (\<open>ParserSink\<close>), the keys, clicks and pastes of the desktop, and answers the
  guest.  What it asks of its host is recorded in \<open>tm_calls\<close>, what it writes to a guest in
  the pseudo-terminal; what the system answers (\<open>os\<close>) is an argument.
\<close>

section \<open>State\<close>

record term_tab =
  tb_pty :: pty
  tb_parser :: parser
  tb_screen :: screen
  tb_modes :: modes
  tb_token :: nat
  tb_watching :: bool
  tb_pending :: bytes
  tb_spawn_error :: bytes
  tb_custom_title :: bytes
  tb_guest_title :: bytes

definition tab_init :: term_tab where
  "tab_init = \<lparr>tb_pty = pty_init, tb_parser = parser_init,
     tb_screen = (screen_init 80 24)\<lparr>sc_history := Some (scrollback_init kDefaultScrollbackLines)\<rparr>,
     tb_modes = modes_init, tb_token = 0, tb_watching = False, tb_pending = [], tb_spawn_error = [],
     tb_custom_title = [], tb_guest_title = []\<rparr>"

datatype term_mode = ModeNormal | ModeRenaming | ModeEditingPath

text \<open>The host, and what is asked of it.\<close>

record host =
  h_start_dir :: bytes
  h_configured :: bytes

datatype host_call =
    SetTitle bytes
  | RequestClose
  | Invalidate
  | Watch int
  | Unwatch nat
  | WatchChild int
  | SetStartDir bytes
  | Spawn bytes "bytes list" bytes

record os =
  os_login_shell :: bytes
  os_spawn :: "bytes + int \<times> int"
  os_token :: nat
  os_wait :: "int \<Rightarrow> wait_result"

record terminal =
  tm_tabs :: "term_tab list"
  tm_closing :: "term_tab list"
  tm_active :: nat
  tm_feeding :: "nat option"
  tm_mode :: term_mode
  tm_pasting :: bool
  tm_bracketed :: bool
  tm_edit :: bytes
  tm_host :: "host option"
  tm_size :: size
  tm_argv :: "bytes list"
  tm_calls :: "host_call list"

definition terminal_init :: "bytes list \<Rightarrow> terminal" where
  "terminal_init argv = \<lparr>tm_tabs = [tab_init], tm_closing = [], tm_active = 0, tm_feeding = None,
     tm_mode = ModeNormal, tm_pasting = False, tm_bracketed = False, tm_edit = [], tm_host = None,
     tm_size = \<lparr>sz_w = 80, sz_h = 24\<rparr>, tm_argv = argv, tm_calls = []\<rparr>"

definition kBarRows :: int where "kBarRows = 1"
definition kMaxName :: nat where "kMaxName = 64"
definition kMaxPath :: nat where "kMaxPath = 512"
definition kCross :: bytes where "kCross = [0xC3, 0x97]"
definition kEllipsis :: bytes where "kEllipsis = [0xE2, 0x80, 0xA6]"
definition kGear :: bytes where "kGear = str ''[*]''"
definition kGearCells :: int where "kGearCells = 3"

definition count_of :: "param list \<Rightarrow> nat \<Rightarrow> int" where
  "count_of p i = max 1 (param_or p i 1)"

text \<open>\<open>if (host_ != nullptr) host_->...\<close>\<close>

definition ask_host :: "terminal \<Rightarrow> host_call \<Rightarrow> terminal" where
  "ask_host T c = (if tm_host T = None then T else T\<lparr>tm_calls := tm_calls T @ [c]\<rparr>)"

definition tab_at :: "terminal \<Rightarrow> nat \<Rightarrow> term_tab" where
  "tab_at T i = tm_tabs T ! i"

definition set_tab_at :: "terminal \<Rightarrow> nat \<Rightarrow> term_tab \<Rightarrow> terminal" where
  "set_tab_at T i t = T\<lparr>tm_tabs := (tm_tabs T)[i := t]\<rparr>"

definition active_tab :: "terminal \<Rightarrow> term_tab" where
  "active_tab T = tab_at T (tm_active T)"

definition target :: "terminal \<Rightarrow> nat" where
  "target T = (case tm_feeding T of Some i \<Rightarrow> i | None \<Rightarrow> tm_active T)"

definition tab_name :: "terminal \<Rightarrow> nat \<Rightarrow> bytes" where
  "tab_name T i = (let t = tab_at T i in if tb_custom_title t = [] then tb_guest_title t else tb_custom_title t)"

section \<open>To the guest\<close>

definition encode_mouse_sgr :: "mouse_event \<Rightarrow> int \<Rightarrow> int \<Rightarrow> bytes" where
  "encode_mouse_sgr m x y =
     (let cb = (case m_action m of WheelUp \<Rightarrow> 64 | WheelDown \<Rightarrow> 65 | Motion \<Rightarrow> int (unat (m_button m)) + 32
                | _ \<Rightarrow> int (unat (m_button m)));
          cb1 = (if m_mods m AND mod_Shift \<noteq> 0 then cb + 4 else cb);
          cb2 = (if m_mods m AND mod_Alt \<noteq> 0 then cb1 + 8 else cb1);
          cb3 = (if m_mods m AND mod_Ctrl \<noteq> 0 then cb2 + 16 else cb2);
          final_byte = (if m_action m = Release then str ''m'' else str ''M'')
      in esc # str ''[<'' @ to_string cb3 @ str '';'' @ to_string (x + 1) @ str '';'' @ to_string (y + 1) @ final_byte)"

definition clean_paste :: "bytes \<Rightarrow> bytes" where
  "clean_paste text = filter (\<lambda>u. u \<noteq> 0x7F \<and> (u \<ge> 0x20 \<or> u = 0x09 \<or> u = 0x0A \<or> u = 0x0D)) text"

definition clean_paste_one_line :: "bytes \<Rightarrow> bytes" where
  "clean_paste_one_line text = filter (\<lambda>c. \<not> (c = 0x0A \<or> c = 0x0D \<or> c = 0x09)) (clean_paste text)"

definition to_guest :: "terminal \<Rightarrow> bytes \<Rightarrow> terminal" where
  "to_guest T bs =
     (if bs = [] then T
      else let i = target T; t = tab_at T i in
        if py_master (tb_pty t) < 0 then set_tab_at T i (t\<lparr>tb_pending := tb_pending t @ bs\<rparr>)
        else set_tab_at T i (t\<lparr>tb_pty := fst (pty_write (tb_pty t) bs)\<rparr>))"

section \<open>Titles\<close>

definition retitle :: "terminal \<Rightarrow> terminal" where
  "retitle T =
     (if tm_host T = None then T
      else let name = tab_name T (tm_active T) in
        ask_host T (SetTitle (if name = [] then str ''Terminal'' else str ''Terminal ('' @ name @ str '')'')))"

section \<open>The sink of the parsers\<close>

definition on_screen :: "terminal \<Rightarrow> (screen \<Rightarrow> screen) \<Rightarrow> terminal" where
  "on_screen T f = (let i = target T; t = tab_at T i in set_tab_at T i (t\<lparr>tb_screen := f (tb_screen t)\<rparr>))"

definition term_print :: "bool \<Rightarrow> terminal \<Rightarrow> char32 \<Rightarrow> terminal" where
  "term_print amb T c = on_screen T (\<lambda>s. print amb s c)"

definition term_execute :: "terminal \<Rightarrow> byte \<Rightarrow> terminal" where
  "term_execute T b =
     (if b = 0x0A \<or> b = 0x0B \<or> b = 0x0C then on_screen T line_feed
      else if b = 0x0D then on_screen T carriage_return
      else if b = 0x08 then on_screen T backspace
      else if b = 0x09 then on_screen T tab
      else T)"

definition sync_screen :: "modes \<Rightarrow> screen \<Rightarrow> screen" where
  "sync_screen m s0 =
     (let s = s0\<lparr>sc_autowrap := autowrap m\<rparr> in
      if alt_screen m \<and> \<not> sc_alt s then enter_alt_screen s
      else if \<not> alt_screen m \<and> sc_alt s then leave_alt_screen s
      else s)"

definition sync_modes :: "terminal \<Rightarrow> terminal" where
  "sync_modes T = on_screen T (sync_screen (tb_modes (tab_at T (target T))))"

text \<open>The \<open>switch\<close> over the final byte of a sequence without intermediates.\<close>

definition csi_order :: "param list \<Rightarrow> byte \<Rightarrow> screen \<Rightarrow> screen" where
  "csi_order ps f s =
     (if f = 0x41 then move_up s (count_of ps 0)
      else if f = 0x42 then move_down s (count_of ps 0)
      else if f = 0x43 then move_right s (count_of ps 0)
      else if f = 0x44 then move_left s (count_of ps 0)
      else if f = 0x47 then set_column s (count_of ps 0 - 1)
      else if f = 0x64 then set_row s (count_of ps 0 - 1)
      else if f = 0x48 \<or> f = 0x66 then move_to s (count_of ps 1 - 1) (count_of ps 0 - 1)
      else if f = 0x4A then erase_display s (param_or ps 0 0)
      else if f = 0x4B then erase_line s (param_or ps 0 0)
      else if f = 0x58 then erase_chars s (count_of ps 0)
      else if f = 0x40 then insert_chars s (count_of ps 0)
      else if f = 0x50 then delete_chars s (count_of ps 0)
      else if f = 0x4C then insert_lines s (count_of ps 0)
      else if f = 0x4D then delete_lines s (count_of ps 0)
      else if f = 0x72 then
        if ps = [] then reset_scroll_region s
        else set_scroll_region s (count_of ps 0 - 1) (param_or ps 1 (sc_rows s) - 1)
      else if f = 0x67 then
        if param_or ps 0 0 = 0 then clear_tab s
        else if param_or ps 0 0 = 3 then clear_all_tabs s else s
      else if f = 0x6D then s\<lparr>sc_pen := apply_sgr ps (sc_pen s)\<rparr>
      else s)"

definition term_csi :: "terminal \<Rightarrow> param list \<Rightarrow> bytes \<Rightarrow> byte \<Rightarrow> terminal" where
  "term_csi T ps is f =
     (let i = target T; t = tab_at T i; s = tb_screen t;
          answer = reply_for_csi ps is f (sc_cx s) (sc_cy s) (tb_modes t)
      in if answer \<noteq> [] then to_guest T answer
         else if is = str ''?'' then
           if f = 0x68 \<or> f = 0x6C
           then sync_modes (set_tab_at T i (t\<lparr>tb_modes := apply_dec_private ps (f = 0x68) (tb_modes t)\<rparr>))
           else T
         else if is \<noteq> [] then T
         else on_screen T (csi_order ps f))"

definition term_esc :: "terminal \<Rightarrow> bytes \<Rightarrow> byte \<Rightarrow> terminal" where
  "term_esc T is f =
     (if is = str ''('' then on_screen T (\<lambda>s. s\<lparr>sc_charset := charset_from_final f\<rparr>)
      else if is \<noteq> [] then T
      else if f = 0x37 then on_screen T save_cursor
      else if f = 0x38 then on_screen T restore_cursor
      else if f = 0x44 then on_screen T index
      else if f = 0x4D then on_screen T reverse_index
      else if f = 0x45 then on_screen T next_line
      else if f = 0x48 then on_screen T set_tab
      else T)"

definition term_osc :: "terminal \<Rightarrow> bytes \<Rightarrow> terminal" where
  "term_osc T data =
     (case find_from data [0x3B] 0 of
        None \<Rightarrow> T
      | Some semi \<Rightarrow>
          let id = take semi data in
          if id \<noteq> str ''0'' \<and> id \<noteq> str ''2'' then T
          else let i = target T;
                   T1 = set_tab_at T i ((tab_at T i)\<lparr>tb_guest_title := drop (semi + 1) data\<rparr>)
               in if i = tm_active T1 then retitle T1 else T1)"

text \<open>The call the parser makes; the DCS methods keep the empty default.\<close>

fun term_call :: "bool \<Rightarrow> terminal \<Rightarrow> sink_call \<Rightarrow> terminal" where
  "term_call amb T (Print c) = term_print amb T c"
| "term_call amb T (Execute b) = term_execute T b"
| "term_call amb T (Csi ps is f) = term_csi T ps is f"
| "term_call amb T (Esc is f) = term_esc T is f"
| "term_call amb T (Osc data) = term_osc T data"
| "term_call amb T (DcsStart ps is f) = T"
| "term_call amb T (DcsData d) = T"
| "term_call amb T DcsEnd = T"

text \<open>\<open>tab->parser.feed(bytes)\<close>: the parser only calls the sink, the sink never touches the
  parser.\<close>

definition parser_feed :: "bool \<Rightarrow> terminal \<Rightarrow> nat \<Rightarrow> bytes \<Rightarrow> terminal" where
  "parser_feed amb T i bs =
     (let (p, calls) = vt_feed (tb_parser (tab_at T i)) bs
      in foldl (term_call amb) (set_tab_at T i ((tab_at T i)\<lparr>tb_parser := p\<rparr>)) calls)"

datatype read_result = Got bytes | Eof | Again
datatype io_status = IoOk | IoClosed

text \<open>The draining loop of \<open>on_io\<close> over the results of its successive reads; the list
  stands for what the kernel answers, and no more to read when it ends.\<close>

fun drain :: "bool \<Rightarrow> terminal \<Rightarrow> nat \<Rightarrow> read_result list \<Rightarrow> terminal \<times> io_status" where
  "drain amb T i [] = (T, IoOk)"
| "drain amb T i (Again # rs) = (T, IoOk)"
| "drain amb T i (Eof # rs) =
     (set_tab_at T i ((tab_at T i)\<lparr>tb_pty := pty_note_eof (tb_pty (tab_at T i))\<rparr>), IoClosed)"
| "drain amb T i (Got bs # rs) = drain amb (parser_feed amb T i bs) i rs"

definition on_io :: "bool \<Rightarrow> terminal \<Rightarrow> nat \<Rightarrow> read_result list \<Rightarrow> terminal \<times> io_status" where
  "on_io amb T token reads =
     (case find_if (\<lambda>t. tb_watching t \<and> tb_token t = token) (tm_tabs T) of
        None \<Rightarrow> (T, IoOk)
      | Some i \<Rightarrow>
          let (T1, st) = drain amb (T\<lparr>tm_feeding := Some i\<rparr>) i reads
          in (ask_host (T1\<lparr>tm_feeding := None\<rparr>) Invalidate, st))"

section \<open>Tabs\<close>

definition relayout :: "terminal \<Rightarrow> terminal" where
  "relayout T =
     (let w = max 1 (sz_w (tm_size T)); h = max 1 (sz_h (tm_size T) - kBarRows) in
      T\<lparr>tm_tabs := map (\<lambda>t. t\<lparr>tb_screen := resize (tb_screen t) w h,
                             tb_pty := pty_resize (tb_pty t) (word_of_int w) (word_of_int h)\<rparr>) (tm_tabs T)\<rparr>)"

definition open_tab_into :: "os \<Rightarrow> terminal \<Rightarrow> nat \<Rightarrow> terminal \<times> bool" where
  "open_tab_into w T i =
     (let t = tab_at T i;
          (path, argv) = (if tm_argv T = [] then (os_login_shell w, [os_login_shell w, str ''-l''])
                          else (hd (tm_argv T), tm_argv T));
          cwd = (case tm_host T of Some h \<Rightarrow> h_start_dir h | None \<Rightarrow> []);
          cols = word_of_int (max 1 (sz_w (tm_size T)));
          rows = word_of_int (max 1 (sz_h (tm_size T) - kBarRows));
          T0 = T\<lparr>tm_calls := tm_calls T @ [Spawn path argv cwd]\<rparr>;
          (p, err) = pty_spawn (tb_pty t) cols rows (os_spawn w);
          T1 = set_tab_at T0 i (t\<lparr>tb_pty := p, tb_spawn_error := err\<rparr>)
      in if err \<noteq> [] then (T1, False)
         else if tm_host T1 = None then (T1, True)
         else
           let T2 = ask_host T1 (Watch (py_master p));
               T3 = set_tab_at T2 i ((tab_at T2 i)\<lparr>tb_token := os_token w, tb_watching := True\<rparr>)
           in (ask_host T3 (WatchChild (py_pid p)), True))"

definition attach :: "os \<Rightarrow> terminal \<Rightarrow> host \<Rightarrow> terminal" where
  "attach w T h = retitle (relayout (fst (open_tab_into w (T\<lparr>tm_host := Some h\<rparr>) (tm_active T))))"

definition open_tab :: "os \<Rightarrow> terminal \<Rightarrow> terminal \<times> bool" where
  "open_tab w T =
     (let T1 = T\<lparr>tm_tabs := tm_tabs T @ [tab_init]\<rparr>;
          i = length (tm_tabs T);
          (T2, ok) = (if tm_host T1 = None then (T1, True) else open_tab_into w T1 i)
      in if \<not> ok then (T2\<lparr>tm_tabs := butlast (tm_tabs T2)\<rparr>, False)
         else let T3 = relayout T2;
                  T4 = T3\<lparr>tm_active := length (tm_tabs T3) - 1\<rparr>
              in (ask_host (retitle T4) Invalidate, True))"

definition select_tab :: "terminal \<Rightarrow> nat \<Rightarrow> terminal" where
  "select_tab T i =
     (if i \<ge> length (tm_tabs T) then T else ask_host (retitle (T\<lparr>tm_active := i\<rparr>)) Invalidate)"

definition cycle_tab :: "terminal \<Rightarrow> int \<Rightarrow> terminal" where
  "cycle_tab T d =
     (let n = int (length (tm_tabs T)); at = int (tm_active T)
      in select_tab T (nat (crem (crem (at + d) n + n) n)))"

definition close_tab :: "os \<Rightarrow> terminal \<Rightarrow> nat \<Rightarrow> terminal" where
  "close_tab w T i =
     (if i \<ge> length (tm_tabs T) then T
      else if length (tm_tabs T) = 1 then ask_host T RequestClose
      else
        let dying = tab_at T i;
            tabs = take i (tm_tabs T) @ drop (i + 1) (tm_tabs T);
            T1 = T\<lparr>tm_tabs := tabs,
                   tm_active := (if tm_active T \<ge> length tabs then length tabs - 1 else tm_active T)\<rparr>;
            T2 = (if tb_watching dying then ask_host T1 (Unwatch (tb_token dying)) else T1);
            p1 = pty_shutdown (tb_pty dying);
            (p2, reaped) = (if py_pid p1 > 0 then pty_try_reap p1 (os_wait w (py_pid p1)) else (p1, True));
            T3 = (if reaped then T2
                  else T2\<lparr>tm_closing := tm_closing T2 @ [dying\<lparr>tb_watching := False, tb_pty := p2\<rparr>]\<rparr>)
        in ask_host (retitle T3) Invalidate)"

definition reap_tab :: "os \<Rightarrow> term_tab \<Rightarrow> term_tab" where
  "reap_tab w t = t\<lparr>tb_pty := fst (pty_try_reap (tb_pty t) (os_wait w (py_pid (tb_pty t))))\<rparr>"

definition on_child_exit :: "os \<Rightarrow> terminal \<Rightarrow> terminal" where
  "on_child_exit w T =
     ask_host (T\<lparr>tm_tabs := map (reap_tab w) (tm_tabs T),
                tm_closing := filter (\<lambda>t. \<not> py_exited (tb_pty t)) (map (reap_tab w) (tm_closing T))\<rparr>) Invalidate"

definition on_resize :: "terminal \<Rightarrow> size \<Rightarrow> terminal" where
  "on_resize T s = (if sz_w s \<le> 0 \<or> sz_h s \<le> 0 then T else relayout (T\<lparr>tm_size := s\<rparr>))"

section \<open>Entries of the bar\<close>

definition begin_rename :: "terminal \<Rightarrow> terminal" where
  "begin_rename T =
     ask_host (T\<lparr>tm_mode := ModeRenaming, tm_edit := tb_custom_title (active_tab T)\<rparr>) Invalidate"

definition commit_rename :: "terminal \<Rightarrow> terminal" where
  "commit_rename T =
     (if tm_mode T \<noteq> ModeRenaming then T
      else let T1 = set_tab_at T (tm_active T) ((active_tab T)\<lparr>tb_custom_title := tm_edit T\<rparr>);
               T2 = T1\<lparr>tm_mode := ModeNormal, tm_edit := []\<rparr>
           in ask_host (retitle T2) Invalidate)"

definition begin_path_edit :: "terminal \<Rightarrow> terminal" where
  "begin_path_edit T =
     ask_host (T\<lparr>tm_mode := ModeEditingPath,
                 tm_edit := (case tm_host T of Some h \<Rightarrow> h_configured h | None \<Rightarrow> [])\<rparr>) Invalidate"

definition commit_path_edit :: "terminal \<Rightarrow> terminal" where
  "commit_path_edit T =
     (if tm_mode T \<noteq> ModeEditingPath then T
      else ask_host ((ask_host T (SetStartDir (tm_edit T)))\<lparr>tm_mode := ModeNormal, tm_edit := []\<rparr>) Invalidate)"

text \<open>Backspace: the continuation bytes at the end, then one byte more.\<close>

definition erase_last_char :: "bytes \<Rightarrow> bytes" where
  "erase_last_char e = rev (tl (dropWhile (\<lambda>b. b AND 0xC0 = 0x80) (rev e)))"

definition edit_key :: "terminal \<Rightarrow> key_event \<Rightarrow> nat \<Rightarrow> (terminal \<Rightarrow> terminal) \<Rightarrow> terminal" where
  "edit_key T k limit commit =
     (let T1 = (case k_key k of
          KEnter \<Rightarrow> commit T
        | KEscape \<Rightarrow> T\<lparr>tm_mode := ModeNormal, tm_edit := []\<rparr>
        | KBackspace \<Rightarrow> T\<lparr>tm_edit := erase_last_char (tm_edit T)\<rparr>
        | KChar \<Rightarrow> (if length (tm_edit T) < limit then T\<lparr>tm_edit := tm_edit T @ encode_utf8 (k_ch k)\<rparr> else T)
        | _ \<Rightarrow> T)
      in ask_host T1 Invalidate)"

definition path_key :: "terminal \<Rightarrow> key_event \<Rightarrow> terminal" where
  "path_key T k = edit_key T k kMaxPath commit_path_edit"

definition rename_key :: "terminal \<Rightarrow> key_event \<Rightarrow> terminal" where
  "rename_key T k = edit_key T k kMaxName commit_rename"

section \<open>The bar of tabs\<close>

datatype slot_kind = SlotSelect | SlotClose | SlotNew | SlotSettings

record slot =
  sl_x :: int
  sl_w :: int
  sl_tab :: nat
  sl_kind :: slot_kind
  sl_text :: bytes

definition mk_slot :: "int \<Rightarrow> int \<Rightarrow> nat \<Rightarrow> slot_kind \<Rightarrow> bytes \<Rightarrow> slot" where
  "mk_slot x w t k s = \<lparr>sl_x = x, sl_w = w, sl_tab = t, sl_kind = k, sl_text = s\<rparr>"

definition slot_text :: "bool \<Rightarrow> terminal \<Rightarrow> int \<Rightarrow> nat \<Rightarrow> bytes" where
  "slot_text amb T name_max i =
     (let editing = (tm_mode T = ModeRenaming \<and> i = tm_active T);
          num = to_string (int i + 1);
          raw = (if editing then tm_edit T else tab_name T i);
          body = (if raw = [] then num
                  else num @ str '':'' @
                    elide_to_cells amb raw (max 1 (name_max - text_cells amb num - 1)) kEllipsis)
      in str '' '' @ body @ str '' '')"

text \<open>The loop over the tabs, from column \<open>x\<close>; it stops at the first one that does not fit.\<close>

fun bar_loop :: "bool \<Rightarrow> terminal \<Rightarrow> int \<Rightarrow> int \<Rightarrow> bool \<Rightarrow> int \<Rightarrow> nat list \<Rightarrow> slot list" where
  "bar_loop amb T avail name_max crosses x [] = []"
| "bar_loop amb T avail name_max crosses x (i # is) =
     (let text = slot_text amb T name_max i;
          w = text_cells amb text;
          cells = w + (if crosses then 1 else 0)
      in if x + cells > avail then []
         else mk_slot x w i SlotSelect text #
           (if crosses
            then mk_slot (x + w) 1 i SlotClose kCross # bar_loop amb T avail name_max crosses (x + w + 1) is
            else bar_loop amb T avail name_max crosses (x + w) is))"

definition bar_slots :: "bool \<Rightarrow> terminal \<Rightarrow> slot list" where
  "bar_slots amb T =
     (let w = max 1 (sz_w (tm_size T)) in
      if tm_mode T = ModeEditingPath
      then [mk_slot 0 w 0 SlotSettings (kGear @ str '' '' @ tm_edit T)]
      else
        let n = int (length (tm_tabs T));
            avail = max 1 (w - (kGearCells + 3));
            crosses = (n > 1);
            per = max 3 (cdiv avail n);
            name_max = max 1 (per - (if crosses then 3 else 2))
        in bar_loop amb T avail name_max crosses 0 [0..<length (tm_tabs T)]
           @ (if w > kGearCells + 1 then [mk_slot (w - 1 - kGearCells) kGearCells 0 SlotSettings kGear] else [])
           @ [mk_slot (w - 1) 1 0 SlotNew (str ''+'')])"

definition bar_click :: "os \<Rightarrow> bool \<Rightarrow> terminal \<Rightarrow> int \<Rightarrow> terminal" where
  "bar_click w amb T x =
     (case List.find (\<lambda>s. \<not> (x < sl_x s \<or> x \<ge> sl_x s + sl_w s)) (bar_slots amb T) of
        None \<Rightarrow> T
      | Some s \<Rightarrow>
          (case sl_kind s of
             SlotNew \<Rightarrow> fst (open_tab w T)
           | SlotSettings \<Rightarrow> begin_path_edit T
           | SlotClose \<Rightarrow> close_tab w T (sl_tab s)
           | SlotSelect \<Rightarrow> if sl_tab s = tm_active T then begin_rename T else select_tab T (sl_tab s)))"

section \<open>Keys, mouse, paste\<close>

definition on_history :: "terminal \<Rightarrow> (scrollback \<Rightarrow> scrollback) \<Rightarrow> terminal" where
  "on_history T f =
     (let t = active_tab T; s = tb_screen t
      in set_tab_at T (tm_active T) (t\<lparr>tb_screen := s\<lparr>sc_history := map_option f (sc_history s)\<rparr>\<rparr>))"

definition on_key :: "os \<Rightarrow> terminal \<Rightarrow> key_event \<Rightarrow> terminal" where
  "on_key w T k =
     (if tm_mode T = ModeRenaming then rename_key T k
      else if tm_mode T = ModeEditingPath then path_key T k
      else
        let alt = (k_mods k AND mod_Alt \<noteq> 0); shift = (k_mods k AND mod_Shift \<noteq> 0);
            t = active_tab T; half = nat (max 1 (cdiv (sz_h (tm_size T)) 2))
        in if alt \<and> k_key k = KChar \<and> k_ch k = 0x74 then fst (open_tab w T)
           else if alt \<and> k_key k = KChar \<and> k_ch k = 0x77 then close_tab w T (tm_active T)
           else if alt \<and> k_key k = KLeft then cycle_tab T (-1)
           else if alt \<and> k_key k = KRight then cycle_tab T 1
           else if k_key k = KF2 then begin_rename T
           else if py_exited (tb_pty t) then (if k_key k = KEnter then ask_host T RequestClose else T)
           else if shift \<and> \<not> sc_alt (tb_screen t) \<and> k_key k = KPgUp then
             ask_host (on_history T (\<lambda>h. scroll_back h half)) Invalidate
           else if shift \<and> \<not> sc_alt (tb_screen t) \<and> k_key k = KPgDn then
             ask_host (on_history T (\<lambda>h. scroll_forward h half)) Invalidate
           else
             let bs = encode_key k (cursor_keys_application (tb_modes t))
             in if bs = [] then T else to_guest (on_history T scroll_to_bottom) bs)"

definition on_mouse :: "os \<Rightarrow> bool \<Rightarrow> terminal \<Rightarrow> mouse_event \<Rightarrow> terminal" where
  "on_mouse w amb T0 m =
     (let T = (if m_action m = Press then commit_path_edit (commit_rename T0) else T0) in
      if m_y m < kBarRows then (if m_action m = Press then bar_click w amb T (m_x m) else T)
      else
        let t = active_tab T;
            wheel = (m_action m = WheelUp \<or> m_action m = WheelDown);
            track = tracking (tb_modes t)
        in if py_exited (tb_pty t) then (if m_action m = Press then ask_host T RequestClose else T)
           else if wheel \<and> \<not> sc_alt (tb_screen t) \<and> track = TrackNone then
             ask_host (on_history T (\<lambda>h. if m_action m = WheelUp then scroll_back h 3 else scroll_forward h 3)) Invalidate
           else if track = TrackNone then T
           else if track = TrackClick \<and> m_action m = Motion then T
           else to_guest T (encode_mouse_sgr m (m_x m) (m_y m - kBarRows)))"

definition on_paste :: "terminal \<Rightarrow> bytes \<Rightarrow> bool \<Rightarrow> terminal" where
  "on_paste T text complete =
     (if tm_mode T = ModeRenaming \<or> tm_mode T = ModeEditingPath then
        let plafond = (if tm_mode T = ModeRenaming then kMaxName else kMaxPath);
            ajout = clean_paste_one_line text
        in ask_host (if length (tm_edit T) < plafond
                     then T\<lparr>tm_edit := tm_edit T @ take (plafond - length (tm_edit T)) ajout\<rparr> else T) Invalidate
      else if py_exited (tb_pty (active_tab T)) then T
      else
        let T1 = on_history T scroll_to_bottom;
            T2 = (if tm_pasting T1 then T1
                  else let b = bracketed_paste (tb_modes (active_tab T1)); T' = T1\<lparr>tm_bracketed := b\<rparr>
                       in if b then to_guest T' (esc # str ''[200~'') else T');
            T3 = to_guest (T2\<lparr>tm_pasting := \<not> complete\<rparr>) (clean_paste text)
        in if complete \<and> tm_bracketed T3 then to_guest T3 (esc # str ''[201~'') else T3)"

definition wants_cursor :: "bool \<Rightarrow> terminal \<Rightarrow> (int \<times> int) option" where
  "wants_cursor amb T =
     (if tm_mode T = ModeRenaming then
        map_option (\<lambda>s. (sl_x s + sl_w s - 1, 0))
          (List.find (\<lambda>s. sl_kind s = SlotSelect \<and> sl_tab s = tm_active T) (bar_slots amb T))
      else if tm_mode T = ModeEditingPath then
        Some (min (kGearCells + 1 + text_cells amb (tm_edit T)) (max 0 (sz_w (tm_size T) - 1)), 0)
      else
        let t = active_tab T; s = tb_screen t in
        if \<not> cursor_visible (tb_modes t) \<or> py_exited (tb_pty t) then None
        else if (case sc_history s of Some h \<Rightarrow> sb_offset h \<noteq> 0 | None \<Rightarrow> False) then None
        else Some (sc_cx s, sc_cy s + kBarRows))"

text \<open>\<open>can_close\<close>: whether the window may close without asking.\<close>

definition can_close :: "terminal \<Rightarrow> bool" where
  "can_close T \<longleftrightarrow> \<not> (\<exists>t \<in> set (tm_tabs T). \<not> py_exited (tb_pty t) \<and> py_pid (tb_pty t) > 0)"

end
