(* ===== verification/Terminal_Tabs.thy ===== *)
theory Terminal_Tabs
  imports Terminal
begin

text \<open>
  Each tab is a terminal of its own.  \<open>tab_call\<close> is what one call of a parser does to one
  tab, with no other tab and no window in sight; the lemmas show that the application,
  which receives the calls of all parsers and finds the tab through \<open>feeding_\<close>, does
  exactly that to the tab the bytes come from and nothing to the others.  The locale
  \<open>sink\<close> is interpreted on both.
\<close>

section \<open>One tab alone\<close>

definition tab_write :: "term_tab \<Rightarrow> bytes \<Rightarrow> term_tab" where
  "tab_write t bs =
     (if bs = [] then t
      else if py_master (tb_pty t) < 0 then t\<lparr>tb_pending := tb_pending t @ bs\<rparr>
      else t\<lparr>tb_pty := fst (pty_write (tb_pty t) bs)\<rparr>)"

definition tab_screen :: "(screen \<Rightarrow> screen) \<Rightarrow> term_tab \<Rightarrow> term_tab" where
  "tab_screen f t = t\<lparr>tb_screen := f (tb_screen t)\<rparr>"

fun esc_order :: "byte \<Rightarrow> screen \<Rightarrow> screen" where
  "esc_order f s =
     (if f = 0x37 then save_cursor s else if f = 0x38 then restore_cursor s
      else if f = 0x44 then index s else if f = 0x4D then reverse_index s
      else if f = 0x45 then next_line s else if f = 0x48 then set_tab s else s)"

definition exec_order :: "byte \<Rightarrow> screen \<Rightarrow> screen" where
  "exec_order b s =
     (if b = 0x0A \<or> b = 0x0B \<or> b = 0x0C then line_feed s else if b = 0x0D then carriage_return s
      else if b = 0x08 then backspace s else if b = 0x09 then tab s else s)"

definition osc_title :: "bytes \<Rightarrow> bytes option" where
  "osc_title data =
     (case find_from data [0x3B] 0 of
        None \<Rightarrow> None
      | Some k \<Rightarrow> if take k data \<in> {str ''0'', str ''2''} then Some (drop (k + 1) data) else None)"

fun tab_call :: "bool \<Rightarrow> term_tab \<Rightarrow> sink_call \<Rightarrow> term_tab" where
  "tab_call amb t (Print c) = tab_screen (\<lambda>s. print amb s c) t"
| "tab_call amb t (Execute b) = tab_screen (exec_order b) t"
| "tab_call amb t (Csi ps is f) =
     (let s = tb_screen t; answer = reply_for_csi ps is f (sc_cx s) (sc_cy s) (tb_modes t) in
      if answer \<noteq> [] then tab_write t answer
      else if is = str ''?'' then
        if f = 0x68 \<or> f = 0x6C
        then let m = apply_dec_private ps (f = 0x68) (tb_modes t)
             in tab_screen (sync_screen m) (t\<lparr>tb_modes := m\<rparr>)
        else t
      else if is \<noteq> [] then t
      else tab_screen (csi_order ps f) t)"
| "tab_call amb t (Esc is f) =
     (if is = str ''('' then tab_screen (\<lambda>s. s\<lparr>sc_charset := charset_from_final f\<rparr>) t
      else if is \<noteq> [] then t else tab_screen (esc_order f) t)"
| "tab_call amb t (Osc data) =
     (case osc_title data of None \<Rightarrow> t | Some title \<Rightarrow> t\<lparr>tb_guest_title := title\<rparr>)"
| "tab_call amb t (DcsStart ps is f) = t"
| "tab_call amb t (DcsData d) = t"
| "tab_call amb t DcsEnd = t"

definition tab_feed :: "bool \<Rightarrow> term_tab \<Rightarrow> bytes \<Rightarrow> term_tab" where
  "tab_feed amb t bs =
     (let (p, calls) = vt_feed (tb_parser t) bs in foldl (tab_call amb) (t\<lparr>tb_parser := p\<rparr>) calls)"

fun tab_read :: "bool \<Rightarrow> term_tab \<Rightarrow> read_result list \<Rightarrow> term_tab" where
  "tab_read amb t (Got bs # rs) = tab_read amb (tab_feed amb t bs) rs"
| "tab_read amb t (Eof # rs) = t\<lparr>tb_pty := pty_note_eof (tb_pty t)\<rparr>"
| "tab_read amb t rs = t"

section \<open>The application does that to the tab the bytes come from\<close>

lemmas tab_access = tab_at_def set_tab_at_def on_screen_def

text \<open>\<open>T'\<close> is \<open>T\<close> with tab \<open>i\<close> replaced, and possibly more asked of the host.\<close>

definition only_tab :: "nat \<Rightarrow> term_tab \<Rightarrow> terminal \<Rightarrow> terminal \<Rightarrow> bool" where
  "only_tab i t T T' \<longleftrightarrow>
     (\<exists>cs. T' = T\<lparr>tm_tabs := (tm_tabs T)[i := t], tm_calls := tm_calls T @ cs\<rparr>
        \<and> (i \<noteq> tm_active T \<longrightarrow> cs = []))"

lemma target_upd [simp]:
  "target (set_tab_at T i t) = target T" "target (T\<lparr>tm_tabs := ts\<rparr>) = target T"
  "target (T\<lparr>tm_calls := cs\<rparr>) = target T" "target (T\<lparr>tm_tabs := ts, tm_calls := cs\<rparr>) = target T"
  by (simp_all add: target_def set_tab_at_def split: option.splits)

lemma only_tab_set [simp]: "only_tab i t T (set_tab_at T i t)"
  unfolding only_tab_def set_tab_at_def by (intro exI[of _ "[]"]) simp

lemma only_tab_same: "only_tab i (tab_at T i) T T"
  unfolding only_tab_def tab_at_def by (intro exI[of _ "[]"]) simp

lemma only_tab_trans:
  assumes "only_tab i t T T'" "only_tab i t' T' T''"
  shows "only_tab i t' T T''"
proof -
  obtain a where a: "T' = T\<lparr>tm_tabs := (tm_tabs T)[i := t], tm_calls := tm_calls T @ a\<rparr>"
    "i \<noteq> tm_active T \<longrightarrow> a = []" using assms(1) unfolding only_tab_def by (elim exE conjE)
  obtain b where b: "T'' = T'\<lparr>tm_tabs := (tm_tabs T')[i := t'], tm_calls := tm_calls T' @ b\<rparr>"
    "i \<noteq> tm_active T' \<longrightarrow> b = []" using assms(2) unfolding only_tab_def by (elim exE conjE)
  show ?thesis unfolding only_tab_def using a(2) b(2)
    by (intro exI[of _ "a @ b"]) (simp add: a(1) b(1))
qed

lemma only_tab_sel:
  assumes "only_tab i t T T'"
  shows "tm_feeding T' = tm_feeding T" "tm_active T' = tm_active T" "target T' = target T"
    "length (tm_tabs T') = length (tm_tabs T)" "i < length (tm_tabs T) \<Longrightarrow> tab_at T' i = t"
    "tm_tabs T' = (tm_tabs T)[i := t]" "tm_host T' = tm_host T" "tm_size T' = tm_size T" "tm_mode T' = tm_mode T"
    "tm_edit T' = tm_edit T" "tm_closing T' = tm_closing T"
proof -
  obtain a where a: "T' = T\<lparr>tm_tabs := (tm_tabs T)[i := t], tm_calls := tm_calls T @ a\<rparr>"
    using assms unfolding only_tab_def by (elim exE conjE)
  show "tm_feeding T' = tm_feeding T" "tm_active T' = tm_active T" "target T' = target T"
    "length (tm_tabs T') = length (tm_tabs T)" "i < length (tm_tabs T) \<Longrightarrow> tab_at T' i = t"
    "tm_tabs T' = (tm_tabs T)[i := t]" "tm_host T' = tm_host T" "tm_size T' = tm_size T" "tm_mode T' = tm_mode T"
    "tm_edit T' = tm_edit T" "tm_closing T' = tm_closing T"
    by (simp_all add: a tab_at_def)
qed

lemma to_guest_tab: "to_guest T bs = set_tab_at T (target T) (tab_write (tab_at T (target T)) bs)"
  by (simp add: to_guest_def tab_write_def Let_def tab_access)

lemma on_screen_tab: "on_screen T f = set_tab_at T (target T) (tab_screen f (tab_at T (target T)))"
  by (simp add: on_screen_def tab_screen_def Let_def)

lemma term_execute_conv: "term_execute T b = on_screen T (exec_order b)"
  by (simp add: term_execute_def exec_order_def[abs_def] tab_access Let_def)

lemma esc_order_conv:
  "term_esc T is f = (if is = str ''('' then on_screen T (\<lambda>s. s\<lparr>sc_charset := charset_from_final f\<rparr>)
     else if is \<noteq> [] then T else on_screen T (esc_order f))"
  by (simp add: term_esc_def esc_order.simps[abs_def] tab_access Let_def)

lemma ask_host_calls: "\<exists>cs. ask_host T c = T\<lparr>tm_calls := tm_calls T @ cs\<rparr>"
  by (auto simp: ask_host_def intro: exI[of _ "[]"])

lemma retitle_calls: "\<exists>cs. retitle T = T\<lparr>tm_calls := tm_calls T @ cs\<rparr>"
  using ask_host_calls by (auto simp: retitle_def Let_def intro: exI[of _ "[]"])

lemma term_csi_tab:
  assumes "target T < length (tm_tabs T)"
  shows "term_csi T ps is f = set_tab_at T (target T) (tab_call amb (tab_at T (target T)) (Csi ps is f))"
proof -
  have s: "set_tab_at T i (tab_at T i) = T" for i by (simp add: tab_access)
  have y: "sync_modes (set_tab_at T (target T) (t\<lparr>tb_modes := m\<rparr>))
      = set_tab_at T (target T) (tab_screen (sync_screen m) (t\<lparr>tb_modes := m\<rparr>))" for t m
    using assms by (simp add: sync_modes_def on_screen_tab) (simp add: tab_access tab_screen_def)
  show ?thesis by (simp add: term_csi_def Let_def to_guest_tab on_screen_tab s y)
qed

lemma term_osc_tab:
  assumes "target T < length (tm_tabs T)"
  shows "only_tab (target T) (tab_call amb (tab_at T (target T)) (Osc data)) T (term_osc T data)"
proof (cases "osc_title data")
  case None
  then have "term_osc T data = T"
    by (auto simp: term_osc_def osc_title_def Let_def split: option.splits if_splits)
  then show ?thesis using None by (simp add: only_tab_same)
next
  case (Some title)
  let ?i = "target T" and ?T = "set_tab_at T (target T) ((tab_at T (target T))\<lparr>tb_guest_title := title\<rparr>)"
  have e: "term_osc T data = (if ?i = tm_active ?T then retitle ?T else ?T)"
    using Some by (auto simp: term_osc_def osc_title_def Let_def split: option.splits if_splits)
  obtain cs where "retitle ?T = ?T\<lparr>tm_calls := tm_calls ?T @ cs\<rparr>" using retitle_calls by blast
  then have "only_tab ?i ((tab_at T ?i)\<lparr>tb_guest_title := title\<rparr>) T (retitle ?T)" if "?i = tm_active T"
    unfolding only_tab_def using that by (intro exI[of _ cs]) (simp add: set_tab_at_def)
  then show ?thesis using Some unfolding e by (auto simp: set_tab_at_def[of T] only_tab_set[unfolded set_tab_at_def])
qed

lemma term_call_tab:
  assumes "target T < length (tm_tabs T)"
  shows "only_tab (target T) (tab_call amb (tab_at T (target T)) c) T (term_call amb T c)"
proof -
  have s: "set_tab_at T i (tab_at T i) = T" for i by (simp add: tab_access)
  show ?thesis
  proof (cases c)
    case (Csi ps ints f)
    then show ?thesis using term_csi_tab[OF assms] by simp
  next
    case (Osc data)
    then show ?thesis using term_osc_tab[OF assms] by simp
  next
    case (Esc ints f)
    then show ?thesis by (simp add: esc_order_conv on_screen_tab only_tab_same)
  qed (simp_all add: term_print_def term_execute_conv on_screen_tab only_tab_same)
qed

lemma term_calls_tab:
  assumes "target T = i" "i < length (tm_tabs T)"
  shows "only_tab i (foldl (tab_call amb) (tab_at T i) cs) T (foldl (term_call amb) T cs)"
  using assms
proof (induction cs arbitrary: T)
  case (Cons c cs)
  have o: "only_tab i (tab_call amb (tab_at T i) c) T (term_call amb T c)"
    using term_call_tab[of T amb c] Cons.prems by simp
  note sel = only_tab_sel[OF o]
  have "only_tab i (foldl (tab_call amb) (tab_at (term_call amb T c) i) cs) (term_call amb T c)
      (foldl (term_call amb) (term_call amb T c) cs)"
    using Cons.IH[of "term_call amb T c"] Cons.prems sel by simp
  then show ?case using only_tab_trans[OF o] sel(5)[OF Cons.prems(2)] by simp
qed (simp add: only_tab_same)

lemma parser_feed_tab:
  assumes "target T = i" "i < length (tm_tabs T)"
  shows "only_tab i (tab_feed amb (tab_at T i) bs) T (parser_feed amb T i bs)"
proof -
  obtain p calls where v: "vt_feed (tb_parser (tab_at T i)) bs = (p, calls)" by fastforce
  let ?T = "set_tab_at T i ((tab_at T i)\<lparr>tb_parser := p\<rparr>)"
  have o: "only_tab i ((tab_at T i)\<lparr>tb_parser := p\<rparr>) T ?T" by simp
  note sel = only_tab_sel[OF o]
  have "only_tab i (foldl (tab_call amb) ((tab_at T i)\<lparr>tb_parser := p\<rparr>) calls) ?T (foldl (term_call amb) ?T calls)"
    using term_calls_tab[of ?T i amb calls] assms sel by simp
  from only_tab_trans[OF o this] show ?thesis by (simp add: parser_feed_def tab_feed_def v)
qed

lemma drain_tab:
  assumes "target T = i" "i < length (tm_tabs T)"
  shows "only_tab i (tab_read amb (tab_at T i) rs) T (fst (drain amb T i rs))"
  using assms
proof (induction amb T i rs rule: drain.induct)
  case (3 amb T i rs)
  then show ?case by simp
next
  case (4 amb T i bs rs)
  note o = parser_feed_tab[OF 4(2,3), of amb bs]
  note sel = only_tab_sel[OF o]
  have "only_tab i (tab_read amb (tab_feed amb (tab_at T i) bs) rs) (parser_feed amb T i bs)
      (fst (drain amb (parser_feed amb T i bs) i rs))"
    using 4 sel by simp
  then show ?case using only_tab_trans[OF o] by simp
qed (simp_all add: only_tab_same)

end
