(* ===== verification/Terminal_Safe.thy ===== *)
theory Terminal_Safe
  imports Terminal_Tabs
begin

text \<open>
  The invariant of the terminal application and the proof that whatever the guests, the
  user and the system do keeps it.
\<close>

section \<open>One tab\<close>

definition tab_ok :: "term_tab \<Rightarrow> bool" where
  "tab_ok t \<longleftrightarrow> screen_ok (tb_screen t) \<and> parser_ok (tb_parser t)
     \<and> sc_alt (tb_screen t) = alt_screen (tb_modes t)
     \<and> length (tb_guest_title t) \<le> kMaxOsc \<and> length (tb_custom_title t) \<le> kMaxName + 3"

text \<open>The grid and, once a shell runs, the kernel agree on the size.\<close>

definition tab_sized :: "int \<Rightarrow> int \<Rightarrow> term_tab \<Rightarrow> bool" where
  "tab_sized w h t \<longleftrightarrow> sc_cols (tb_screen t) = w \<and> sc_rows (tb_screen t) = h
     \<and> (0 \<le> py_master (tb_pty t) \<longrightarrow> py_cols (tb_pty t) = word_of_int w \<and> py_rows (tb_pty t) = word_of_int h)"

text \<open>What a step of the parser keeps of a tab: all of \<open>tab_ok\<close>, its size and its name.\<close>

definition tab_keeps :: "term_tab \<Rightarrow> term_tab \<Rightarrow> bool" where
  "tab_keeps t t' \<longleftrightarrow> (tab_ok t \<longrightarrow> tab_ok t') \<and> (tab_ok t \<longrightarrow> (\<forall>w h. tab_sized w h t \<longrightarrow> tab_sized w h t'))
     \<and> py_exited (tb_pty t') = py_exited (tb_pty t)"

lemma tab_keeps_refl [simp]: "tab_keeps t t"
  by (simp add: tab_keeps_def)

lemma tab_keeps_trans: "tab_keeps a b \<Longrightarrow> tab_keeps b c \<Longrightarrow> tab_keeps a c"
  by (auto simp: tab_keeps_def)

lemma tab_screen_keeps:
  assumes "good_op (tb_screen t) (f (tb_screen t))"
  shows "tab_keeps t (tab_screen f t)"
  using assms by (auto simp: tab_keeps_def tab_ok_def tab_sized_def tab_screen_def good_op_def keeps_page_def)

lemma tab_write_keeps: "tab_keeps t (tab_write t bs)"
  by (simp add: tab_keeps_def tab_ok_def tab_sized_def tab_write_def pty_write_def Let_def)

lemma csi_order_good: "good_op s (csi_order ps f s)"
  by (simp add: csi_order_def good_moves good_move_to good_grids good_lines good_region good_tabs good_pen)

lemma sync_screen_ok:
  assumes "screen_ok s"
  shows "screen_ok (sync_screen m s)" "sc_alt (sync_screen m s) = alt_screen m"
    "sc_cols (sync_screen m s) = sc_cols s" "sc_rows (sync_screen m s) = sc_rows s"
proof -
  have "screen_ok (s\<lparr>sc_autowrap := b\<rparr>)" for b using assms by (simp add: screen_ok_def)
  then show "screen_ok (sync_screen m s)" by (simp add: sync_screen_def Let_def enter_alt_ok leave_alt_ok)
qed (simp_all add: sync_screen_def Let_def enter_alt_screen_def leave_alt_screen_def)

lemma osc_title_length: "osc_title data = Some title \<Longrightarrow> length title \<le> length data"
  by (auto simp: osc_title_def split: option.splits if_splits)

lemma tab_call_keeps:
  assumes "call_ok c"
  shows "tab_keeps t (tab_call amb t c)"
proof (cases c)
  case (Csi ps ints f)
  have "tab_keeps t (tab_screen (sync_screen m) (t\<lparr>tb_modes := m\<rparr>))" for m
    by (auto simp: tab_keeps_def tab_ok_def tab_sized_def tab_screen_def sync_screen_ok)
  then show ?thesis using Csi by (auto simp: Let_def tab_write_keeps tab_screen_keeps csi_order_good)
next
  case (Osc data)
  then show ?thesis using assms osc_title_length[of data]
    by (auto simp: tab_keeps_def tab_ok_def tab_sized_def split: option.splits dest: osc_title_length)
next
  case (Esc ints f)
  have "good_op s (esc_order f s)" for s by (simp add: ops)
  then show ?thesis using Esc by (auto intro!: tab_screen_keeps ops simp del: esc_order.simps)
next
  case (Execute b)
  then show ?thesis by (auto intro!: tab_screen_keeps simp: exec_order_def ops)
qed (auto intro!: tab_screen_keeps ops)

interpretation tab_sink: sink "tab_call amb" "tab_keeps t" for amb t
  by unfold_locales (blast intro: tab_keeps_trans tab_call_keeps)

lemma tab_feed_keeps: "tab_ok t \<Longrightarrow> tab_keeps t (tab_feed amb t bs)"
proof -
  assume ok: "tab_ok t"
  obtain p calls where v: "vt_feed (tb_parser t) bs = (p, calls)" by fastforce
  have "parser_ok (tb_parser t)" using ok by (simp add: tab_ok_def)
  from vt_feed_good[OF this, of bs] have g: "parser_ok p" "list_all call_ok calls" by (simp_all add: ground_good_def v)
  have "tab_keeps t (t\<lparr>tb_parser := p\<rparr>)" using g by (simp add: tab_keeps_def tab_ok_def tab_sized_def)
  from tab_sink.calls_keep[OF this g(2), of amb] show ?thesis by (simp add: tab_feed_def v)
qed

lemma tab_read_keeps: "tab_ok t \<Longrightarrow> tab_keeps t (tab_read amb t rs)"
proof (induction amb t rs rule: tab_read.induct)
  case (1 amb t bs rs)
  then show ?case using tab_feed_keeps[OF 1(2), of amb bs] tab_keeps_trans
    unfolding tab_read.simps by (metis tab_keeps_def)
qed (auto simp: tab_keeps_def tab_ok_def tab_sized_def pty_note_eof_def)

section \<open>The application\<close>

definition fits :: "terminal \<Rightarrow> term_tab \<Rightarrow> bool" where
  "fits T t \<longleftrightarrow> tab_ok t \<and> (tm_host T \<noteq> None \<longrightarrow>
     tab_sized (max 1 (sz_w (tm_size T))) (max 1 (sz_h (tm_size T) - kBarRows)) t)"

definition term_ok :: "terminal \<Rightarrow> bool" where
  "term_ok T \<longleftrightarrow> tm_active T < length (tm_tabs T) \<and> tm_feeding T = None \<and> list_all (fits T) (tm_tabs T)
     \<and> (tm_mode T = ModeRenaming \<longrightarrow> length (tm_edit T) \<le> kMaxName + 3)"

lemma fits_cong: "tm_host T' = tm_host T \<Longrightarrow> tm_size T' = tm_size T \<Longrightarrow> fits T' = fits T"
  by (simp add: fits_def fun_eq_iff)

lemma fits_upd [simp]:
  "fits (T\<lparr>tm_tabs := ts\<rparr>) = fits T" "fits (T\<lparr>tm_calls := cs\<rparr>) = fits T" "fits (T\<lparr>tm_active := n\<rparr>) = fits T"
  "fits (T\<lparr>tm_mode := m\<rparr>) = fits T" "fits (T\<lparr>tm_edit := e\<rparr>) = fits T" "fits (T\<lparr>tm_feeding := f\<rparr>) = fits T"
  "fits (T\<lparr>tm_closing := ts\<rparr>) = fits T" "fits (T\<lparr>tm_pasting := b\<rparr>) = fits T" "fits (T\<lparr>tm_bracketed := b\<rparr>) = fits T"
  by (rule fits_cong; simp)+

lemma tab_keeps_fits: "tab_keeps t t' \<Longrightarrow> fits T t \<Longrightarrow> fits T t'"
  by (auto simp: fits_def tab_keeps_def)

lemma term_ok_calls [simp]: "term_ok (T\<lparr>tm_calls := cs\<rparr>) = term_ok T"
  by (simp add: term_ok_def)

lemma term_ok_ask [simp]: "term_ok (ask_host T c) = term_ok T"
  by (simp add: ask_host_def)

lemma term_ok_retitle [simp]: "term_ok (retitle T) = term_ok T"
  by (simp add: retitle_def Let_def)

lemma term_ok_target: "term_ok T \<Longrightarrow> target T = tm_active T"
  by (simp add: term_ok_def target_def)

lemma term_ok_fits: "term_ok T \<Longrightarrow> i < length (tm_tabs T) \<Longrightarrow> fits T (tab_at T i)"
  by (simp add: term_ok_def list_all_length tab_at_def)

lemma list_all_update: "list_all P xs \<Longrightarrow> P x \<Longrightarrow> list_all P (xs[i := x])"
  by (auto simp: list_all_iff dest: subsetD[OF set_update_subset_insert])

lemma set_tab_ok:
  assumes "term_ok T" "fits T t"
  shows "term_ok (set_tab_at T i t)"
  using assms by (simp add: term_ok_def set_tab_at_def list_all_update)

lemma to_guest_ok: "term_ok T \<Longrightarrow> term_ok (to_guest T bs)"
  using term_ok_fits[of T "tm_active T"] tab_keeps_fits[OF tab_write_keeps] set_tab_ok
  by (simp add: to_guest_tab term_ok_target) (simp add: term_ok_def)

lemma on_history_ok:
  assumes "term_ok T" "\<And>h. sb_ok h \<Longrightarrow> sb_ok (f h)"
  shows "term_ok (on_history T f)"
proof -
  have "fits T (active_tab T)" using assms(1) term_ok_fits by (simp add: active_tab_def term_ok_def)
  then have "fits T ((active_tab T)\<lparr>tb_screen := (tb_screen (active_tab T))
      \<lparr>sc_history := map_option f (sc_history (tb_screen (active_tab T)))\<rparr>\<rparr>)"
    using assms(2) by (auto simp: fits_def tab_ok_def tab_sized_def screen_ok_def hist_ok_def split: option.splits)
  then show ?thesis using set_tab_ok[OF assms(1)] by (simp add: on_history_def Let_def)
qed

lemma mode_ok: "term_ok T \<Longrightarrow> m \<noteq> ModeRenaming \<Longrightarrow> term_ok (T\<lparr>tm_mode := m, tm_edit := e\<rparr>)"
  by (simp add: term_ok_def)

lemma relayout_term_ok:
  assumes "tm_active T < length (tm_tabs T)" "tm_feeding T = None" "list_all tab_ok (tm_tabs T)"
    "tm_mode T = ModeRenaming \<longrightarrow> length (tm_edit T) \<le> kMaxName + 3"
  shows "term_ok (relayout T)"
proof -
  let ?w = "max 1 (sz_w (tm_size T))" and ?h = "max 1 (sz_h (tm_size T) - kBarRows)"
  have "tab_ok (t\<lparr>tb_screen := resize (tb_screen t) ?w ?h, tb_pty := p\<rparr>)" if "tab_ok t" for t p
  proof -
    have "sc_alt (resize s w h) = sc_alt s" for s w h by (simp add: resize_def Let_def reset_tabs_def)
    then show ?thesis using that by (simp add: tab_ok_def resize_ok)
  qed
  moreover have "tab_sized ?w ?h (t\<lparr>tb_screen := resize (tb_screen t) ?w ?h,
      tb_pty := pty_resize (tb_pty t) (word_of_int ?w) (word_of_int ?h)\<rparr>)" for t
    by (simp add: tab_sized_def pty_resize_def) (simp add: resize_def Let_def reset_tabs_def)
  ultimately show ?thesis using assms
    by (simp add: term_ok_def relayout_def Let_def list_all_iff fits_def)
qed

lemma fits_ok: "fits T t \<Longrightarrow> tab_ok t"
  by (simp add: fits_def)

lemma tab_init_ok: "tab_ok tab_init"
  using screen_init_ok[of 80 24] parser_init_ok sb_init_ok
  by (simp add: tab_ok_def tab_init_def screen_ok_def hist_ok_def modes_init_def)
    (simp add: screen_init_def Let_def reset_tabs_def)

lemma open_tab_into_sel:
  assumes "open_tab_into w T i = (T', ok)" "i < length (tm_tabs T)"
  shows "tm_active T' = tm_active T" "tm_feeding T' = tm_feeding T" "tm_mode T' = tm_mode T"
    "tm_edit T' = tm_edit T" "tm_host T' = tm_host T" "tm_size T' = tm_size T"
    "\<exists>p e k b. tm_tabs T' = (tm_tabs T)[i := (tab_at T i)\<lparr>tb_pty := p, tb_spawn_error := e, tb_token := k, tb_watching := b\<rparr>]"
proof -
  obtain p err where sp: "pty_spawn (tb_pty (tab_at T i)) (word_of_int (max 1 (sz_w (tm_size T))))
      (word_of_int (max 1 (sz_h (tm_size T) - kBarRows))) (os_spawn w) = (p, err)" by fastforce
  show "tm_active T' = tm_active T" "tm_feeding T' = tm_feeding T" "tm_mode T' = tm_mode T"
    "tm_edit T' = tm_edit T" "tm_host T' = tm_host T" "tm_size T' = tm_size T"
    using assms by (auto simp: open_tab_into_def Let_def sp tab_access ask_host_def split: if_splits prod.splits)
  let ?t = "tab_at T i"
  have "tm_tabs T' = (tm_tabs T)[i := (tab_at T i)\<lparr>tb_pty := p, tb_spawn_error := err, tb_token := tb_token ?t, tb_watching := tb_watching ?t\<rparr>]
      \<or> tm_tabs T' = (tm_tabs T)[i := (tab_at T i)\<lparr>tb_pty := p, tb_spawn_error := err, tb_token := os_token w, tb_watching := True\<rparr>]"
    using assms sp by (auto simp: open_tab_into_def Let_def tab_access ask_host_def split: if_splits prod.splits)
  then show "\<exists>p e k b. tm_tabs T' = (tm_tabs T)[i := (tab_at T i)\<lparr>tb_pty := p, tb_spawn_error := e, tb_token := k, tb_watching := b\<rparr>]"
    by blast
qed

lemma tab_ok_io: "tab_ok (t\<lparr>tb_pty := p, tb_spawn_error := e, tb_token := k, tb_watching := b\<rparr>) = tab_ok t"
  by (simp add: tab_ok_def)

lemma attach_ok:
  assumes "term_ok T"
  shows "term_ok (attach w T h)"
proof -
  let ?T = "T\<lparr>tm_host := Some h\<rparr>"
  obtain T' ok where o: "open_tab_into w ?T (tm_active T) = (T', ok)" by fastforce
  have i: "tm_active T < length (tm_tabs ?T)" using assms by (simp add: term_ok_def)
  note sel = open_tab_into_sel[OF o i]
  have "list_all tab_ok (tm_tabs T)" using assms fits_ok by (auto simp: term_ok_def list_all_iff)
  then have "list_all tab_ok (tm_tabs T')"
    using sel(7) i by (auto simp: list_all_length nth_list_update tab_ok_io tab_at_def)
  moreover have "length (tm_tabs T') = length (tm_tabs T)" using sel(7) by auto
  ultimately have "term_ok (relayout T')" using assms sel by (intro relayout_term_ok) (simp_all add: term_ok_def)
  then show ?thesis by (simp add: attach_def o)
qed

lemma open_tab_ok:
  assumes "term_ok T"
  shows "term_ok (fst (open_tab w T))"
proof -
  let ?T = "T\<lparr>tm_tabs := tm_tabs T @ [tab_init]\<rparr>" and ?i = "length (tm_tabs T)"
  obtain T' ok where o: "(if tm_host ?T = None then (?T, True) else open_tab_into w ?T ?i) = (T', ok)" by fastforce
  have a: "list_all tab_ok (tm_tabs T)" using assms fits_ok by (auto simp: term_ok_def list_all_iff)
  have "\<exists>t. tm_tabs T' = tm_tabs T @ [t] \<and> tab_ok t \<and> tm_active T' = tm_active T \<and> tm_feeding T' = None
      \<and> tm_mode T' = tm_mode T \<and> tm_edit T' = tm_edit T \<and> tm_host T' = tm_host T \<and> tm_size T' = tm_size T"
  proof (cases "tm_host T = None")
    case True
    then show ?thesis using o assms tab_init_ok by (auto simp: term_ok_def)
  next
    case False
    then have n: "tm_host ?T \<noteq> None" by simp
    have o': "open_tab_into w ?T ?i = (T', ok)" using o unfolding if_not_P[OF n] .
    have "?i < length (tm_tabs ?T)" by simp
    note sel = open_tab_into_sel[OF o' this]
    show ?thesis using sel assms tab_init_ok by (auto simp: term_ok_def tab_ok_io tab_at_def)
  qed
  then obtain t where t: "tm_tabs T' = tm_tabs T @ [t]" "tab_ok t" "tm_active T' = tm_active T" "tm_feeding T' = None"
      "tm_mode T' = tm_mode T" "tm_edit T' = tm_edit T" "tm_host T' = tm_host T" "tm_size T' = tm_size T" by blast
  have "term_ok (T'\<lparr>tm_tabs := butlast (tm_tabs T')\<rparr>)"
    using assms t fits_cong[OF t(7,8)] by (simp add: term_ok_def)
  moreover have "term_ok (relayout T')"
    using assms t a by (intro relayout_term_ok) (simp_all add: term_ok_def)
  then have "term_ok ((relayout T')\<lparr>tm_active := length (tm_tabs (relayout T')) - 1\<rparr>)"
    using t by (simp add: term_ok_def relayout_def Let_def)
  ultimately show ?thesis using o by (simp add: open_tab_def Let_def)
qed

lemma select_tab_ok: "term_ok T \<Longrightarrow> term_ok (select_tab T i)"
  by (simp add: select_tab_def) (simp add: term_ok_def)

lemma close_tab_ok:
  assumes "term_ok T"
  shows "term_ok (close_tab w T i)"
proof -
  let ?ts = "take i (tm_tabs T) @ drop (i + 1) (tm_tabs T)"
  have "list_all (fits T) ?ts" using assms by (auto simp: term_ok_def list_all_iff dest: in_set_takeD in_set_dropD)
  moreover define T1 where
    "T1 = T\<lparr>tm_tabs := ?ts, tm_active := (if tm_active T \<ge> length ?ts then length ?ts - 1 else tm_active T)\<rparr>"
  ultimately have "term_ok T1" if "i < length (tm_tabs T)" "length (tm_tabs T) \<noteq> 1"
    using that assms by (auto simp: term_ok_def)
  moreover have "term_ok (U\<lparr>tm_closing := cl\<rparr>) = term_ok U" for U cl by (simp add: term_ok_def)
  ultimately show ?thesis using assms unfolding close_tab_def Let_def T1_def[symmetric]
    by (simp split: prod.splits)
qed

lemma reap_tab_fits: "fits T t \<Longrightarrow> fits T (reap_tab w t)"
  by (simp add: fits_def reap_tab_def tab_ok_def tab_sized_def pty_try_reap_def split: wait_result.splits)

lemma on_child_exit_ok: "term_ok T \<Longrightarrow> term_ok (on_child_exit w T)"
  unfolding on_child_exit_def term_ok_ask by (simp add: term_ok_def list_all_iff reap_tab_fits)

lemma on_resize_ok: "term_ok T \<Longrightarrow> term_ok (on_resize T s)"
  using fits_ok relayout_term_ok[of "T\<lparr>tm_size := s\<rparr>"] by (auto simp: on_resize_def term_ok_def list_all_iff)

lemma cycle_tab_ok: "term_ok T \<Longrightarrow> term_ok (cycle_tab T d)"
  by (simp add: cycle_tab_def Let_def select_tab_ok)

lemma custom_title_ok:
  assumes "term_ok T" "length e \<le> kMaxName + 3"
  shows "term_ok (set_tab_at T (tm_active T) ((active_tab T)\<lparr>tb_custom_title := e\<rparr>))"
  using assms term_ok_fits[OF assms(1), of "tm_active T"]
  by (intro set_tab_ok) (simp_all add: term_ok_def active_tab_def fits_def tab_ok_def tab_sized_def)

lemma commit_rename_ok: "term_ok T \<Longrightarrow> term_ok (commit_rename T)"
  using mode_ok[OF custom_title_ok[of T "tm_edit T"], of ModeNormal "[]"]
  by (simp add: commit_rename_def Let_def) (simp add: term_ok_def)

lemma commit_path_edit_ok: "term_ok T \<Longrightarrow> term_ok (commit_path_edit T)"
  using mode_ok[of "ask_host T (SetStartDir (tm_edit T))" ModeNormal "[]"] by (simp add: commit_path_edit_def)

lemma begin_rename_ok: "term_ok T \<Longrightarrow> term_ok (begin_rename T)"
  using term_ok_fits[of T "tm_active T"]
  by (simp add: begin_rename_def) (simp add: term_ok_def active_tab_def fits_def tab_ok_def)

lemma begin_path_edit_ok: "term_ok T \<Longrightarrow> term_ok (begin_path_edit T)"
  by (simp add: begin_path_edit_def mode_ok)

lemma erase_last_char_length: "length (erase_last_char e) \<le> length e"
  using length_dropWhile_le[of "\<lambda>b. b AND 0xC0 = 0x80" "rev e"] by (simp add: erase_last_char_def)

lemma encode_utf8_length: "length (encode_utf8 c) \<le> 4"
  by (simp add: encode_utf8_def Let_def)

lemma edit_key_ok:
  assumes "term_ok T" "term_ok (commit T)" "tm_mode T = ModeRenaming \<longrightarrow> limit \<le> kMaxName"
  shows "term_ok (edit_key T k limit commit)"
proof -
  have "term_ok (T\<lparr>tm_edit := e\<rparr>)" if "tm_mode T = ModeRenaming \<longrightarrow> length e \<le> kMaxName + 3" for e
    using assms(1) that by (simp add: term_ok_def)
  moreover have "tm_mode T = ModeRenaming \<longrightarrow> length (tm_edit T) \<le> kMaxName + 3" using assms(1) by (simp add: term_ok_def)
  ultimately have "term_ok (T\<lparr>tm_edit := erase_last_char (tm_edit T)\<rparr>)"
    "length (tm_edit T) < limit \<Longrightarrow> term_ok (T\<lparr>tm_edit := tm_edit T @ encode_utf8 (k_ch k)\<rparr>)"
    using erase_last_char_length[of "tm_edit T"] encode_utf8_length[of "k_ch k"] assms(3) by fastforce+
  then show ?thesis using assms(1,2) mode_ok[OF assms(1), of ModeNormal "[]"]
    by (simp add: edit_key_def Let_def split: key.splits)
qed

lemma bar_click_ok: "term_ok T \<Longrightarrow> term_ok (bar_click w amb T x)"
  by (simp add: bar_click_def open_tab_ok begin_path_edit_ok close_tab_ok begin_rename_ok select_tab_ok
      split: option.splits slot_kind.splits)

lemma on_key_ok:
  assumes "term_ok T"
  shows "term_ok (on_key w T k)"
proof -
  have "term_ok (rename_key T k)" "tm_mode T = ModeEditingPath \<Longrightarrow> term_ok (path_key T k)"
    unfolding rename_key_def path_key_def
    using edit_key_ok[OF assms, of commit_rename kMaxName k] edit_key_ok[OF assms, of commit_path_edit kMaxPath k]
      commit_rename_ok[OF assms] commit_path_edit_ok[OF assms] by simp_all
  moreover have "term_ok (on_history T (\<lambda>h. scroll_back h n))" "term_ok (on_history T (\<lambda>h. scroll_forward h n))"
    "term_ok (on_history T scroll_to_bottom)" for n
    by (rule on_history_ok[OF assms], simp add: sb_ops_ok)+
  ultimately show ?thesis using assms unfolding on_key_def Let_def
    by (simp add: open_tab_ok close_tab_ok cycle_tab_ok begin_rename_ok to_guest_ok)
qed

lemma on_mouse_ok:
  assumes "term_ok T"
  shows "term_ok (on_mouse w amb T m)"
proof -
  define T' where "T' = (if m_action m = Press then commit_path_edit (commit_rename T) else T)"
  have ok: "term_ok T'" using assms by (simp add: T'_def commit_path_edit_ok commit_rename_ok)
  have "term_ok (on_history T' (\<lambda>h. if b then scroll_back h 3 else scroll_forward h 3))" for b
    by (rule on_history_ok[OF ok]) (simp add: sb_ops_ok)
  then show ?thesis using ok unfolding on_mouse_def T'_def[symmetric] Let_def
    by (simp add: bar_click_ok to_guest_ok)
qed

lemma on_paste_ok:
  assumes "term_ok T"
  shows "term_ok (on_paste T text complete)"
proof -
  have e: "term_ok (T\<lparr>tm_edit := tm_edit T @ take (n - length (tm_edit T)) x\<rparr>)"
    if "length (tm_edit T) < n" "tm_mode T = ModeRenaming \<longrightarrow> n \<le> kMaxName" for n x
    using that assms by (simp add: term_ok_def) linarith
  have f: "term_ok (U\<lparr>tm_bracketed := b\<rparr>) = term_ok U" "term_ok (U\<lparr>tm_pasting := b\<rparr>) = term_ok U" for U b
    by (simp_all add: term_ok_def)
  have "term_ok (on_history T scroll_to_bottom)" by (rule on_history_ok[OF assms]) (simp add: sb_ops_ok)
  then show ?thesis using assms e[of kMaxName] e[of kMaxPath]
    by (simp add: on_paste_def Let_def f to_guest_ok)
qed

lemma on_io_tab:
  assumes "tm_feeding T = None" "find_if (\<lambda>t. tb_watching t \<and> tb_token t = token) (tm_tabs T) = Some i"
  shows "\<exists>cs. fst (on_io amb T token rs)
    = T\<lparr>tm_tabs := (tm_tabs T)[i := tab_read amb (tab_at T i) rs], tm_calls := tm_calls T @ cs\<rparr>"
proof -
  let ?T = "T\<lparr>tm_feeding := Some i\<rparr>"
  obtain T1 st where d: "drain amb ?T i rs = (T1, st)" by fastforce
  have "target ?T = i" "i < length (tm_tabs ?T)"
    using find_if_Some[OF assms(2)] by (simp_all add: target_def)
  from drain_tab[OF this, of amb rs] obtain cs
    where e: "T1 = ?T\<lparr>tm_tabs := (tm_tabs T)[i := tab_read amb (tab_at T i) rs], tm_calls := tm_calls T @ cs\<rparr>"
    by (auto simp: d only_tab_def tab_at_def)
  obtain cs' where "ask_host (T1\<lparr>tm_feeding := None\<rparr>) Invalidate
      = (T1\<lparr>tm_feeding := None\<rparr>)\<lparr>tm_calls := tm_calls (T1\<lparr>tm_feeding := None\<rparr>) @ cs'\<rparr>"
    using ask_host_calls by blast
  moreover have "fst (on_io amb T token rs) = ask_host (T1\<lparr>tm_feeding := None\<rparr>) Invalidate"
    by (simp add: on_io_def assms(2) d)
  moreover have "T\<lparr>tm_feeding := None\<rparr> = T" using assms(1) by (cases T) simp
  ultimately show ?thesis using assms(1) by (intro exI[of _ "cs @ cs'"]) (cases T, simp add: e)
qed

lemma on_io_ok:
  assumes "term_ok T"
  shows "term_ok (fst (on_io amb T token rs))"
proof (cases "find_if (\<lambda>t. tb_watching t \<and> tb_token t = token) (tm_tabs T)")
  case None
  then show ?thesis using assms by (simp add: on_io_def)
next
  case (Some i)
  have i: "i < length (tm_tabs T)" and f: "tm_feeding T = None"
    using find_if_Some[OF Some] assms by (simp_all add: term_ok_def)
  have t: "fits T (tab_at T i)" using term_ok_fits[OF assms i] .
  obtain cs where "fst (on_io amb T token rs)
      = T\<lparr>tm_tabs := (tm_tabs T)[i := tab_read amb (tab_at T i) rs], tm_calls := tm_calls T @ cs\<rparr>"
    using on_io_tab[OF f Some] by blast
  moreover have "fits T (tab_read amb (tab_at T i) rs)"
    using tab_keeps_fits[OF tab_read_keeps[OF fits_ok[OF t]] t] .
  ultimately show ?thesis using set_tab_ok[OF assms] by (simp add: set_tab_at_def)
qed

section \<open>The application as a state machine\<close>

inductive term_step :: "bool \<Rightarrow> terminal \<Rightarrow> terminal \<Rightarrow> bool" for amb :: bool where
  t_attach: "tm_host T = None \<Longrightarrow> term_step amb T (attach w T h)"
| t_io: "term_step amb T (fst (on_io amb T token rs))"
| t_key: "term_step amb T (on_key w T k)"
| t_mouse: "term_step amb T (on_mouse w amb T m)"
| t_paste: "term_step amb T (on_paste T text complete)"
| t_resize: "term_step amb T (on_resize T s)"
| t_child: "term_step amb T (on_child_exit w T)"

lemma term_step_ok: "term_step amb T T' \<Longrightarrow> term_ok T \<Longrightarrow> term_ok T'"
  by (induction rule: term_step.induct)
    (simp_all add: attach_ok on_io_ok on_key_ok on_mouse_ok on_paste_ok on_resize_ok on_child_exit_ok)

lemma terminal_init_ok: "term_ok (terminal_init argv)"
  by (simp add: term_ok_def terminal_init_def fits_def tab_init_ok)

lemma term_steps_ok: "(term_step amb)\<^sup>*\<^sup>* T T' \<Longrightarrow> term_ok T \<Longrightarrow> term_ok T'"
  by (induction rule: rtranclp_induct) (auto intro: term_step_ok)

section \<open>Properties\<close>

text \<open>
  C13.  The terminal application is safe: whatever the guests write, the user types,
  clicks and pastes and the system answers, there is an active tab, every tab has a
  well-formed screen and parser, its screen shows the alternate page exactly when its
  modes say so, and, once attached, every tab (not only the visible one) and its
  pseudo-terminal have the size the window leaves below the bar; names typed and titles
  set by guests stay bounded.
\<close>

theorem terminal_safe:
  assumes "(term_step amb)\<^sup>*\<^sup>* (terminal_init argv) T"
  shows "term_ok T"
  using term_steps_ok[OF assms terminal_init_ok] .

theorem terminal_safe_witness:
  "term_ok (on_resize (attach \<lparr>os_login_shell = [0x2F], os_spawn = Inr (5, 77), os_token = 3, os_wait = (\<lambda>_. StillRunning)\<rparr>
     (terminal_init []) \<lparr>h_start_dir = [], h_configured = []\<rparr>) \<lparr>sz_w = 100, sz_h = 30\<rparr>)"
proof (rule terminal_safe)
  let ?w = "\<lparr>os_login_shell = [0x2F], os_spawn = Inr (5, 77), os_token = 3, os_wait = (\<lambda>_. StillRunning)\<rparr>"
  let ?h = "\<lparr>h_start_dir = [], h_configured = []\<rparr>"
  have "term_step False (terminal_init []) (attach ?w (terminal_init []) ?h)"
    by (rule t_attach) (simp add: terminal_init_def)
  moreover have "term_step False (attach ?w (terminal_init []) ?h)
      (on_resize (attach ?w (terminal_init []) ?h) \<lparr>sz_w = 100, sz_h = 30\<rparr>)" by (rule t_resize)
  ultimately show "(term_step False)\<^sup>*\<^sup>* (terminal_init [])
      (on_resize (attach ?w (terminal_init []) ?h) \<lparr>sz_w = 100, sz_h = 30\<rparr>)"
    by (meson converse_rtranclp_into_rtranclp rtranclp.rtrancl_refl)
qed

text \<open>
  C19.  Tabs are terminals of their own: when the pseudo-terminal of one tab has output,
  that tab becomes what a terminal alone would become on the same bytes, whichever tab is
  being looked at, and no other tab, nor the choice of the active one, nor an entry being
  typed, changes.
\<close>

theorem tabs_independent:
  assumes "term_ok T" and "find_if (\<lambda>t. tb_watching t \<and> tb_token t = token) (tm_tabs T) = Some i"
  shows "tm_tabs (fst (on_io amb T token rs)) = (tm_tabs T)[i := tab_read amb (tm_tabs T ! i) rs]
    \<and> tm_active (fst (on_io amb T token rs)) = tm_active T \<and> tm_mode (fst (on_io amb T token rs)) = tm_mode T
    \<and> tm_edit (fst (on_io amb T token rs)) = tm_edit T \<and> tm_closing (fst (on_io amb T token rs)) = tm_closing T"
proof -
  have "tm_feeding T = None" using assms(1) by (simp add: term_ok_def)
  from on_io_tab[OF this assms(2), of amb rs] show ?thesis by (auto simp: tab_at_def)
qed

theorem tabs_independent_witness:
  "tm_tabs (fst (on_io False ((terminal_init [])\<lparr>tm_tabs := [tab_init, tab_init\<lparr>tb_watching := True, tb_token := 7\<rparr>]\<rparr>) 7
      [Got [0x0D]])) ! 0 = tab_init"
proof -
  let ?T = "(terminal_init [])\<lparr>tm_tabs := [tab_init, tab_init\<lparr>tb_watching := True, tb_token := 7\<rparr>]\<rparr>"
  have "tab_ok (tab_init\<lparr>tb_watching := True, tb_token := 7\<rparr>)" using tab_init_ok by (simp add: tab_ok_def)
  then have "term_ok ?T" using tab_init_ok by (simp add: term_ok_def terminal_init_def fits_def)
  moreover have "find_if (\<lambda>t. tb_watching t \<and> tb_token t = 7) (tm_tabs ?T) = Some 1" by (simp add: tab_init_def)
  ultimately show ?thesis using tabs_independent[of ?T 7 1 False "[Got [0x0D]]"] by simp
qed

end
