(* ===== verification/Input_Codec.thy ===== *)
theory Input_Codec
  imports Input
begin

text \<open>
  The input parser read as a decoder: the encoder of keys and the parser are inverse on
  every key that owns its bytes (\<open>reads\<close>: these bytes, whatever follows, are one event),
  and a bracketed paste is delivered whole however it is cut.
\<close>

section \<open>One sequence, one event\<close>

text \<open>The bytes \<open>e\<close> are read as the event \<open>ev\<close>, whatever follows them.\<close>

definition reads :: "bytes \<Rightarrow> input_event \<Rightarrow> bool" where
  "reads e ev \<longleftrightarrow> e \<noteq> [] \<and> (\<forall>p rest. \<not> ip_in_paste p \<longrightarrow>
     input_step (p\<lparr>ip_buf := e @ rest\<rparr>) = (length e, emit (p\<lparr>ip_buf := e @ rest, ip_esc_pending := False\<rparr>) ev))"

lemma reads_eventI:
  assumes "e \<noteq> []" and "\<And>p rest. \<not> ip_in_paste p \<Longrightarrow> ip_buf p = e @ rest \<Longrightarrow> ip_esc_pending p = False \<Longrightarrow>
      (if hd e \<noteq> esc then step_plain p else step_esc p) = (length e, emit p ev)"
  shows "reads e ev"
proof -
  have "input_step (p\<lparr>ip_buf := e @ rest\<rparr>) = (length e, emit (p\<lparr>ip_buf := e @ rest, ip_esc_pending := False\<rparr>) ev)"
    if "\<not> ip_in_paste p" for p rest
  proof -
    have "(e @ rest) ! 0 = hd e" using assms(1) by (simp add: hd_conv_nth nth_append)
    then show ?thesis using assms(2)[of "p\<lparr>ip_buf := e @ rest, ip_esc_pending := False\<rparr>" rest] assms(1) that
      by (simp add: input_step_def Let_def)
  qed
  then show ?thesis using assms(1) by (simp add: reads_def)
qed

lemma pump_reads:
  assumes "reads e ev" "\<not> ip_in_paste p"
  shows "pump (p\<lparr>ip_buf := e @ rest\<rparr>) = pump ((emit p ev)\<lparr>ip_buf := rest, ip_esc_pending := False\<rparr>)"
proof -
  have "input_step (p\<lparr>ip_buf := e @ rest\<rparr>) = (length e, emit (p\<lparr>ip_buf := e @ rest, ip_esc_pending := False\<rparr>) ev)" "e \<noteq> []"
    using assms by (simp_all add: reads_def)
  then show ?thesis by (subst pump.simps) (cases p, simp add: emit_def)
qed

lemma feed_reads:
  assumes "list_all2 reads es evs" "\<not> ip_in_paste p"
  shows "pump (p\<lparr>ip_buf := concat es\<rparr>)
    = p\<lparr>ip_buf := [], ip_ready := ip_ready p @ evs, ip_esc_pending := (if es = [] then ip_esc_pending p else False)\<rparr>"
  using assms
proof (induction es evs arbitrary: p rule: list_all2_induct)
  case Nil
  then show ?case by (subst pump.simps) simp
next
  case (Cons e es ev evs)
  have "pump (p\<lparr>ip_buf := e @ concat es\<rparr>) = pump (((emit p ev)\<lparr>ip_esc_pending := False\<rparr>)\<lparr>ip_buf := concat es\<rparr>)"
    using pump_reads[OF Cons.hyps(1) Cons.prems, of "concat es"] by (cases p) (simp add: emit_def)
  also have "\<dots> = ((emit p ev)\<lparr>ip_esc_pending := False\<rparr>)\<lparr>ip_buf := [], ip_ready := ip_ready (emit p ev) @ evs, ip_esc_pending := False\<rparr>"
    using Cons.IH[of "(emit p ev)\<lparr>ip_esc_pending := False\<rparr>"] Cons.prems by (cases p) (simp add: emit_def)
  finally show ?case by (cases p) (simp add: emit_def)
qed

section \<open>Control sequences\<close>

definition csi_final :: "byte \<Rightarrow> bool" where
  "csi_final b \<longleftrightarrow> 0x40 \<le> b \<and> b \<le> 0x7E"

lemma csi_scan_prefix:
  assumes "list_all (\<lambda>b. \<not> csi_final b) ps" "csi_final f" "length pre = i" "2 \<le> i" "i + length ps < 2 + kMaxCsiParamsLen"
  shows "csi_scan (pre @ ps @ f # rest) i = (i + length ps, False)"
  using assms
proof (induction ps arbitrary: pre i)
  case Nil
  then have "\<not> i - 2 \<ge> kMaxCsiParamsLen" "(pre @ f # rest) ! i = f" by auto
  then show ?case using Nil by (subst csi_scan.simps) (simp add: csi_final_def)
next
  case (Cons b ps)
  have "csi_scan (pre @ (b # ps) @ f # rest) i = csi_scan ((pre @ [b]) @ ps @ f # rest) (i + 1)"
  proof -
    have "\<not> i - 2 \<ge> kMaxCsiParamsLen" "(pre @ (b # ps) @ f # rest) ! i = b" using Cons.prems by auto
    then show ?thesis using Cons.prems by (subst csi_scan.simps) (auto simp: csi_final_def)
  qed
  also have "\<dots> = (i + 1 + length ps, False)" using Cons.prems by (intro Cons.IH) auto
  finally show ?case by simp
qed

lemma step_esc_csi:
  assumes "ip_buf p = esc # 0x5B # ps @ f # rest" "list_all (\<lambda>b. \<not> csi_final b) ps" "csi_final f" "length ps < kMaxCsiParamsLen"
  shows "step_esc p = step_csi_done p ps f (length ps + 3)"
proof -
  have "csi_scan (ip_buf p) 2 = (2 + length ps, False)"
    using csi_scan_prefix[OF assms(2,3), of "[esc, 0x5B]" 2 rest] assms by simp
  then show ?thesis using assms(1) by (simp add: step_esc_def nth_append numeral_3_eq_3)
qed

lemma reads_csi:
  assumes "list_all (\<lambda>b. \<not> csi_final b) ps" "csi_final f" "length ps < kMaxCsiParamsLen"
    and "\<And>p. step_csi_done p ps f (length ps + 3) = (length ps + 3, emit p ev)"
  shows "reads (esc # 0x5B # ps @ [f]) ev"
  using assms step_esc_csi[OF _ assms(1-3)] by (intro reads_eventI) auto

text \<open>Decimal parameters.\<close>

lemma split_digit: "is_digit c \<Longrightarrow> split_loop (c # cs) cur = split_loop cs (param_digit cur (digit_val c))"
  by (auto simp: is_digit_def param_digit_def digit_val_def Let_def kMaxCsiParam_def kMaxParamValue_def)

lemma split_digits:
  "list_all is_digit ds \<Longrightarrow> split_loop (ds @ cs) cur = split_loop cs (foldl param_digit cur (map digit_val ds))"
  by (induction ds arbitrary: cur) (simp_all add: split_digit del: split_loop.simps(2))

lemma split_number: "n \<le> 65535 \<Longrightarrow> split_loop (nat_digits n @ cs) (-1) = split_loop cs (int n)"
  by (simp add: split_digits[OF nat_digits_digits] param_digit_digits)

lemma split_semicolon: "split_loop (0x3B # cs) cur = cur # split_loop cs (-1)"
  by simp

lemma split_number_end: "n \<le> 65535 \<Longrightarrow> split_loop (nat_digits n) (-1) = [int n]"
  using split_number[of n "[]"] by simp

lemma digits_not_final: "list_all (\<lambda>b. \<not> csi_final b) (nat_digits n)"
  using nat_digits_digits[of n]
  by (rule list.pred_mono_strong) (auto simp: is_digit_def csi_final_def unat_orders)

lemma length_digits: "n < 10 ^ Suc k \<Longrightarrow> length (nat_digits n) \<le> Suc k"
proof (induction k arbitrary: n)
  case 0
  then show ?case by (simp add: nat_digits.simps)
next
  case (Suc k)
  then have "n div 10 < 10 ^ Suc k" by (simp add: less_mult_imp_div_less mult.commute)
  from Suc.IH[OF this] show ?case by (subst nat_digits.simps) simp
qed

section \<open>Keys\<close>

lemma kFinals_facts:
  "map_of kFinals k = Some (f, pl) \<Longrightarrow>
     key_from_final f = k \<and> csi_final f \<and> f \<noteq> 0x49 \<and> f \<noteq> 0x4F \<and> f \<noteq> 0x7E \<and> ascii_key k = None \<and> k \<noteq> KChar"
  by (auto simp: kFinals_def key_from_final_def csi_final_def ascii_key_def split: if_splits)

lemma kTildes_facts:
  "map_of kTildes k = Some n \<Longrightarrow>
     key_from_tilde n = k \<and> 0 \<le> n \<and> n < 100 \<and> ascii_key k = None \<and> k \<noteq> KChar \<and> map_of kFinals k = None"
  by (auto simp: kTildes_def kFinals_def key_from_tilde_def ascii_key_def split: if_splits)

lemma mods_back: "m < 8 \<Longrightarrow> mods_from_param (int (unat m) + 1) = m"
proof -
  assume "m < 8"
  then have u: "unat m < 8" by (simp add: unat_orders)
  have "m AND 0x07 = m" using u by (intro word_eq_unatI) (simp add: unat_and_literals)
  moreover have "word_of_int (int (unat m)) = m" by (metis word_of_int_uint of_nat_unat)
  ultimately show ?thesis using u
    by (auto simp: mods_from_param_def unat_eq_zero simp del: of_nat_unat)
qed

lemma mods_small: "m < 8 \<Longrightarrow> (m :: byte) AND 0x07 = m"
  by (intro word_eq_unatI) (simp add: unat_and_literals unat_orders)

lemma mod_param_digits: "m < 8 \<Longrightarrow> mod_param m = nat_digits (Suc (unat m))"
  by (simp add: mod_param_def mods_small to_string_def nat_add_distrib del: of_nat_unat)

lemma digits_9: "n < 100 \<Longrightarrow> length (nat_digits n) \<le> 2"
  using length_digits[of n 1] by simp

lemma str_csi: "str ''[1;'' = [0x5B, 0x31, 0x3B]" "str ''['' = [0x5B]" "str ''O'' = [0x4F]" "str '';'' = [0x3B]" "str ''~'' = [0x7E]"
  by (simp_all add: str_def of_char_def)

lemma reads_final_mod:
  assumes "map_of kFinals k = Some (f, pl)" "m < 8"
  shows "reads (esc # str ''[1;'' @ mod_param m @ [f]) (EvKey (mk_key k 0 m))"
proof -
  let ?ps = "[0x31, 0x3B] @ nat_digits (Suc (unat m))"
  have u: "unat m < 8" using assms(2) by (simp add: unat_orders)
  have d1: "nat_digits (Suc 0) = [0x31]" by (simp add: nat_digits.simps)
  have s: "split_params ?ps = [1, int (unat m) + 1]"
    using split_number[of "Suc 0" "0x3B # nat_digits (Suc (unat m))"] split_number_end[of "Suc (unat m)"] u
    by (simp add: split_params_def d1 split_semicolon add.commute del: of_nat_unat split_loop.simps(2))
  have "reads (esc # 0x5B # ?ps @ [f]) (EvKey (mk_key k 0 m))"
  proof (rule reads_csi)
    show "list_all (\<lambda>b. \<not> csi_final b) ?ps" using digits_not_final by (simp add: csi_final_def)
    show "csi_final f" using kFinals_facts[OF assms(1)] by simp
    show "length ?ps < kMaxCsiParamsLen" using digits_9[of "Suc (unat m)"] u by (simp add: kMaxCsiParamsLen_def)
    show "step_csi_done p ?ps f (length ?ps + 3) = (length ?ps + 3, emit p (EvKey (mk_key k 0 m)))" for p
      using kFinals_facts[OF assms(1)] s mods_back[OF assms(2)] by (simp add: step_csi_done_def emit_key_def)
  qed
  then show ?thesis by (simp add: str_csi mod_param_digits[OF assms(2)])
qed

lemma reads_final_plain:
  assumes "map_of kFinals k = Some (f, pl)"
  shows "reads (esc # str ''['' @ [f]) (EvKey (mk_key k 0 0))" "reads (esc # str ''O'' @ [f]) (EvKey (mk_key k 0 0))"
proof -
  have "reads (esc # 0x5B # [] @ [f]) (EvKey (mk_key k 0 0))"
    using kFinals_facts[OF assms]
    by (intro reads_csi) (simp_all add: step_csi_done_def split_params_def emit_key_def kMaxCsiParamsLen_def)
  then show "reads (esc # str ''['' @ [f]) (EvKey (mk_key k 0 0))" by (simp add: str_csi)
  show "reads (esc # str ''O'' @ [f]) (EvKey (mk_key k 0 0))"
    using kFinals_facts[OF assms] by (intro reads_eventI) (auto simp: str_csi step_esc_def emit_key_def)
qed

lemma reads_tilde:
  assumes "map_of kTildes k = Some n" "m < 8"
  shows "reads (esc # str ''['' @ to_string n @ str '';'' @ mod_param m @ str ''~'') (EvKey (mk_key k 0 m))"
    and "reads (esc # str ''['' @ to_string n @ str ''~'') (EvKey (mk_key k 0 0))"
proof -
  have n: "0 \<le> n" "n < 100" "key_from_tilde n = k" "n \<noteq> 200" using kTildes_facts[OF assms(1)] by simp_all
  have u: "unat m < 8" using assms(2) by (simp add: unat_orders)
  have nn: "to_string n = nat_digits (nat n)" using n by (simp add: to_string_def)
  have hd_digit: "nat_digits i \<noteq> [] \<and> hd (nat_digits i) \<noteq> 0x3C" for i
    using nat_digits_digits[of i] nat_digits_nonempty[of i] by (cases "nat_digits i") (auto simp: is_digit_def unat_orders)
  have hd_app: "hd (nat_digits i @ xs) = hd (nat_digits i)" for i xs using hd_digit[of i] by simp
  let ?ps = "nat_digits (nat n) @ 0x3B # nat_digits (Suc (unat m))"
  have s: "split_params ?ps = [n, int (unat m) + 1]" "split_params (nat_digits (nat n)) = [n]"
    using split_number[of "nat n" "0x3B # nat_digits (Suc (unat m))"] split_number_end[of "Suc (unat m)"]
      split_number_end[of "nat n"] u n by (simp_all add: split_params_def)
  have "reads (esc # 0x5B # ?ps @ [0x7E]) (EvKey (mk_key k 0 m))"
  proof (rule reads_csi)
    show "list_all (\<lambda>b. \<not> csi_final b) ?ps" using digits_not_final by (simp add: csi_final_def)
    show "csi_final (0x7E :: byte)" by (simp add: csi_final_def)
    show "length ?ps < kMaxCsiParamsLen" proof -
      have "nat n < 100" using n by simp
      from digits_9[OF this] show ?thesis using digits_9[of "Suc (unat m)"] u by (simp add: kMaxCsiParamsLen_def)
    qed
    show "step_csi_done p ?ps 0x7E (length ?ps + 3) = (length ?ps + 3, emit p (EvKey (mk_key k 0 m)))" for p
      using s(1) mods_back[OF assms(2)] n hd_digit by (simp add: step_csi_done_def emit_key_def hd_app Let_def)
  qed
  then show "reads (esc # str ''['' @ to_string n @ str '';'' @ mod_param m @ str ''~'') (EvKey (mk_key k 0 m))"
    by (simp add: str_csi nn mod_param_digits[OF assms(2)])
  have "reads (esc # 0x5B # nat_digits (nat n) @ [0x7E]) (EvKey (mk_key k 0 0))"
  proof (rule reads_csi)
    show "list_all (\<lambda>b. \<not> csi_final b) (nat_digits (nat n))" by (rule digits_not_final)
    show "csi_final (0x7E :: byte)" by (simp add: csi_final_def)
    show "length (nat_digits (nat n)) < kMaxCsiParamsLen" proof -
      have "nat n < 100" using n by simp
      from digits_9[OF this] show ?thesis by (simp add: kMaxCsiParamsLen_def)
    qed
    show "step_csi_done p (nat_digits (nat n)) 0x7E (length (nat_digits (nat n)) + 3) = (length (nat_digits (nat n)) + 3, emit p (EvKey (mk_key k 0 0)))" for p
      using s(2) n hd_digit by (simp add: step_csi_done_def emit_key_def Let_def)
  qed
  then show "reads (esc # str ''['' @ to_string n @ str ''~'') (EvKey (mk_key k 0 0))" by (simp add: str_csi nn)
qed

lemma lead_divs:
  fixes k :: nat
  shows "k < 32 \<Longrightarrow> (192 + k) div 32 = 6"
    and "k < 16 \<Longrightarrow> (224 + k) div 16 = 14 \<and> (224 + k) div 32 = 7"
    and "k < 8 \<Longrightarrow> (240 + k) div 8 = 30 \<and> (240 + k) div 16 = 15 \<and> (240 + k) div 32 = 7"
  by (auto intro!: div_nat_eqI)

lemma utf8_seq_len_encode: "is_scalar c \<Longrightarrow> utf8_seq_len (hd (encode_utf8 c)) = length (encode_utf8 c)"
proof -
  assume c: "is_scalar c"
  have hb: "hd (map unat (encode_utf8 c)) = unat (hd (encode_utf8 c))"
    by (rule hd_map) (simp add: encode_utf8_def Let_def)
  have l: "length (map unat (encode_utf8 c)) = length (encode_utf8 c)" by simp
  have s: "unat c \<le> 0x10FFFF" using c by (simp add: is_scalar_def word_le_nat_alt)
  note e = encode_utf8_unat[OF c]
  consider "unat c < 128" | "128 \<le> unat c" "unat c < 2048" | "2048 \<le> unat c" "unat c < 65536" | "65536 \<le> unat c" by linarith
  then show ?thesis
  proof cases
    case 1
    then have "unat (hd (encode_utf8 c)) = unat c" "length (encode_utf8 c) = 1" using e hb l by simp_all
    then show ?thesis using 1 by (simp add: utf8_seq_len_def unat_orders)
  next
    case 2
    then have "unat (hd (encode_utf8 c)) = 192 + unat c div 64" "length (encode_utf8 c) = 2" using e hb l by simp_all
    moreover have k: "unat c div 64 < 32" using 2 by (intro less_mult_imp_div_less) simp
    ultimately show ?thesis using lead_divs(1)[OF k] by (simp add: utf8_seq_len_def unat_orders high_mask_iff)
  next
    case 3
    then have "unat (hd (encode_utf8 c)) = 224 + unat c div 4096" "length (encode_utf8 c) = 3" using e hb l by simp_all
    moreover have k: "unat c div 4096 < 16" using 3 by (intro less_mult_imp_div_less) simp
    ultimately show ?thesis using lead_divs(2)[OF k] by (simp add: utf8_seq_len_def unat_orders high_mask_iff)
  next
    case 4
    then have "unat (hd (encode_utf8 c)) = 240 + unat c div 262144" "length (encode_utf8 c) = 4" using e hb l by simp_all
    moreover have k: "unat c div 262144 < 8" using s by (intro less_mult_imp_div_less) simp
    ultimately show ?thesis using lead_divs(3)[OF k] by (simp add: utf8_seq_len_def unat_orders high_mask_iff)
  qed
qed

lemma reads_char:
  assumes "is_scalar c" "0x20 \<le> c" "c \<noteq> 0x7F"
  shows "reads (encode_utf8 c) (EvKey (mk_key KChar c 0))"
proof (rule reads_eventI)
  show ne: "encode_utf8 c \<noteq> []" by (simp add: encode_utf8_def Let_def)
  let ?h = "hd (encode_utf8 c)"
  have "unat ?h = hd (map unat (encode_utf8 c))" using ne by (simp add: hd_map)
  then have u: "unat ?h = (if unat c < 128 then unat c else if unat c < 2048 then 192 + unat c div 64
     else if unat c < 65536 then 224 + unat c div 4096 else 240 + unat c div 262144)"
    using encode_utf8_unat[OF assms(1)] by simp
  have c: "32 \<le> unat c" "unat c \<noteq> 127" using assms(2,3) by (simp_all add: unat_orders word_unat_eq_iff)
  have h: "32 \<le> unat ?h \<and> unat ?h \<noteq> 127"
    unfolding u using c by auto
  then have n: "?h \<noteq> 0x0D" "?h \<noteq> 0x0A" "?h \<noteq> 0x09" "?h \<noteq> 0x7F" "?h \<noteq> 0x08" "\<not> ?h < 0x20" "?h \<noteq> esc"
    by (auto simp: unat_orders esc_def)
  fix p :: input_parser and rest
  assume b: "ip_buf p = encode_utf8 c @ rest"
  have "(encode_utf8 c @ rest) ! 0 = ?h" using ne by (simp add: hd_conv_nth nth_append)
  then show "(if ?h \<noteq> esc then step_plain p else step_esc p) = (length (encode_utf8 c), emit p (EvKey (mk_key KChar c 0)))"
    using b n utf8_seq_len_encode[OF assms(1)] utf8_decode_encode[OF assms(1), of "[]" rest]
    by (simp add: step_plain_def Let_def emit_key_def)
qed

lemma reads_byte:
  assumes "b \<noteq> esc" "\<And>p rest. ip_buf p = b # rest \<Longrightarrow> step_plain p = (1, emit p ev)"
  shows "reads [b] ev"
  using assms by (intro reads_eventI) auto

lemma reads_ascii_keys: "reads [0x0D] (EvKey (mk_key KEnter 0 0))" "reads [0x09] (EvKey (mk_key KTab 0 0))"
  "reads [0x7F] (EvKey (mk_key KBackspace 0 0))"
  by (rule reads_byte; simp add: step_plain_def emit_key_def esc_def)+

lemma reads_ctrl:
  assumes "c = 0x20 \<or> 0x61 \<le> c \<and> c \<le> 0x7A \<and> c \<notin> {0x68, 0x69, 0x6A, 0x6D}"
  shows "\<exists>b. control_byte c = Some b \<and> reads [b] (EvKey (mk_key KChar c mod_Ctrl))"
proof (cases "c = 0x20")
  case True
  then show ?thesis by (auto simp: control_byte_def step_plain_def emit_key_def esc_def intro!: exI[of _ 0] reads_byte)
next
  case False
  then have r: "0x61 \<le> c" "c \<le> 0x7A" "c \<noteq> 0x68" "c \<noteq> 0x69" "c \<noteq> 0x6A" "c \<noteq> 0x6D" using assms by auto
  define b where "b = (ucast (c - 0x61 + 1) :: byte)"
  have uc: "97 \<le> unat c" "unat c \<le> 122" using r by (simp_all add: unat_orders)
  have um: "unat (c - 0x61 + 1) = unat c - 96"
  proof -
    have "c - 0x61 + 1 = c - 0x60" by simp
    then show ?thesis using uc by (simp add: unat_sub word_le_nat_alt)
  qed
  then have ub: "unat b = unat c - 96" unfolding b_def using uc by (simp add: unat_ucast_small)
  have "unat c \<noteq> 104" "unat c \<noteq> 105" "unat c \<noteq> 106" "unat c \<noteq> 109" using r by (auto simp: word_unat_eq_iff)
  then have n: "b \<noteq> 0x0D" "b \<noteq> 0x0A" "b \<noteq> 0x09" "b \<noteq> 0x7F" "b \<noteq> 0x08" "b < 0x20" "b \<noteq> esc" "b \<noteq> 0"
    using ub uc by (auto simp: unat_orders esc_def word_unat_eq_iff)
  have "0x61 + ucast b - 1 = c"
  proof -
    have "ucast b = c - 0x60" by (intro word_eq_unatI) (use ub uc in \<open>simp add: unat_ucast_up unat_sub word_le_nat_alt\<close>)
    then show ?thesis by simp
  qed
  then have "reads [b] (EvKey (mk_key KChar c mod_Ctrl))"
    using n by (intro reads_byte) (simp_all add: step_plain_def emit_key_def)
  then show ?thesis using r by (auto simp: control_byte_def b_def)
qed

lemma reads_alt:
  assumes "0x20 \<le> c" "c < 0x7F" "c \<noteq> 0x4F" "c \<noteq> 0x5B"
  shows "reads (esc # encode_utf8 c) (EvKey (mk_key KChar c mod_Alt))"
proof -
  have uc: "32 \<le> unat c" "unat c < 127" "unat c \<noteq> 79" "unat c \<noteq> 91" using assms by (auto simp: unat_orders word_unat_eq_iff)
  have ub: "unat (ucast c :: byte) = unat c" using uc by (simp add: unat_ucast_small)
  have e: "encode_utf8 c = [ucast c]" using uc by (simp add: encode_utf8_def Let_def unat_orders)
  have n: "(ucast c :: byte) \<noteq> 0x4F" "(ucast c :: byte) \<noteq> 0x5B" "0x20 \<le> (ucast c :: byte)" "(ucast c :: byte) < 0x7F"
    using ub uc by (auto simp: unat_orders word_unat_eq_iff)
  have "(ucast (ucast c :: byte) :: char32) = c" by (intro word_eq_unatI) (simp add: unat_ucast_up ub)
  then show ?thesis unfolding e using n by (intro reads_eventI) (auto simp: step_esc_def emit_key_def)
qed

text \<open>The keys that survive the way to the guest and back: not the ones that share their byte
  with another (\<open>Ctrl+I\<close> and Tab, \<open>Ctrl+M\<close> and Enter, \<open>Ctrl+J\<close>, \<open>Ctrl+H\<close>), nor the ones whose
  bytes start another sequence.\<close>

definition distinct_key :: "key_event \<Rightarrow> bool" where
  "distinct_key k \<longleftrightarrow>
     k_key k = KChar \<and>
       (k_mods k = 0 \<and> is_scalar (k_ch k) \<and> 0x20 \<le> k_ch k \<and> k_ch k \<noteq> 0x7F
        \<or> k_mods k = mod_Ctrl \<and> (k_ch k = 0x20 \<or> 0x61 \<le> k_ch k \<and> k_ch k \<le> 0x7A \<and> k_ch k \<notin> {0x68, 0x69, 0x6A, 0x6D})
        \<or> k_mods k = mod_Alt \<and> 0x20 \<le> k_ch k \<and> k_ch k < 0x7F \<and> k_ch k \<noteq> 0x4F \<and> k_ch k \<noteq> 0x5B)
     \<or> k_key k \<in> {KEnter, KTab, KBackspace} \<and> k_ch k = 0 \<and> k_mods k = 0
     \<or> k_key k \<in> set (map fst kFinals) \<union> set (map fst kTildes) \<and> k_ch k = 0 \<and> k_mods k < 8"

lemma reads_encode_char:
  assumes "distinct_key k" "k_key k = KChar"
  shows "reads (encode_char k) (EvKey k)"
proof -
  have k: "k = mk_key KChar (k_ch k) (k_mods k)" using assms(2) by (cases k) (simp add: mk_key_def)
  have "KChar \<notin> set (map fst kFinals) \<union> set (map fst kTildes)" by (simp add: kFinals_def kTildes_def)
  then consider "k_mods k = 0" "is_scalar (k_ch k)" "0x20 \<le> k_ch k" "k_ch k \<noteq> 0x7F"
    | "k_mods k = mod_Ctrl" "k_ch k = 0x20 \<or> 0x61 \<le> k_ch k \<and> k_ch k \<le> 0x7A \<and> k_ch k \<notin> {0x68, 0x69, 0x6A, 0x6D}"
    | "k_mods k = mod_Alt" "0x20 \<le> k_ch k" "k_ch k < 0x7F" "k_ch k \<noteq> 0x4F" "k_ch k \<noteq> 0x5B"
    using assms by (auto simp: distinct_key_def)
  then show ?thesis
  proof cases
    case 1
    then show ?thesis using reads_char[of "k_ch k"] k by (simp add: encode_char_def mod_Alt_def mod_Ctrl_def)
  next
    case 2
    from reads_ctrl[OF 2(2)] show ?thesis using 2(1) k by (auto simp: encode_char_def mod_Alt_def mod_Ctrl_def)
  next
    case 3
    then show ?thesis using reads_alt[of "k_ch k"] k by (simp add: encode_char_def mod_Alt_def mod_Ctrl_def)
  qed
qed

lemma reads_encode_key:
  assumes "distinct_key k"
  shows "reads (encode_key k app) (EvKey k)"
proof (cases "k_key k = KChar")
  case True
  then show ?thesis using reads_encode_char[OF assms] by (simp add: encode_key_def)
next
  case False
  then have k: "k = mk_key (k_key k) 0 (k_mods k)" using assms by (cases k) (auto simp: distinct_key_def mk_key_def)
  show ?thesis
  proof (cases "k_key k \<in> {KEnter, KTab, KBackspace}")
    case True
    then have "k_mods k = 0" using assms by (auto simp: distinct_key_def kFinals_def kTildes_def)
    then show ?thesis using True k reads_ascii_keys by (auto simp: encode_key_def ascii_key_def)
  next
    case n: False
    then have m: "k_mods k < 8" and t: "k_key k \<in> set (map fst kFinals) \<union> set (map fst kTildes)"
      using assms False by (auto simp: distinct_key_def)
    have mm: "k_mods k AND 0x07 = k_mods k" using mods_small[OF m] .
    show ?thesis
    proof (cases "map_of kFinals (k_key k)")
      case (Some x)
      then obtain f pl where f: "map_of kFinals (k_key k) = Some (f, pl)" by (cases x) auto
      show ?thesis using f kFinals_facts[OF f] reads_final_mod[OF f m] reads_final_plain[OF f] k mm
        by (auto simp: encode_key_def Let_def)
    next
      case None
      then have "k_key k \<in> set (map fst kTildes)" using t by (auto simp: map_of_eq_None_iff)
      then obtain i where i: "map_of kTildes (k_key k) = Some i" using map_of_eq_None_iff[of kTildes "k_key k"] by auto
      show ?thesis using i None kTildes_facts[OF i] reads_tilde[OF i m] k mm
        by (auto simp: encode_key_def Let_def)
    qed
  qed
qed

section \<open>Paste\<close>

text \<open>The text of a paste: the terminator does not occur before its own place.\<close>

definition paste_text :: "bytes \<Rightarrow> bool" where
  "paste_text t \<longleftrightarrow> (\<forall>j < length t. \<not> occurs kPasteEnd (t @ kPasteEnd) j)"

lemma kPasteEnd_length [simp]: "length kPasteEnd = 6" "kPasteEnd \<noteq> []"
  by (simp_all add: kPasteEnd_def str_def)

lemma occurs_shift:
  assumes "d @ b @ r = t @ kPasteEnd" "paste_text t" "occurs kPasteEnd b j"
  shows "length d + j = length t \<and> length b = j + 6 \<and> r = []"
proof -
  have l: "j + 6 \<le> length b" using occurs_length[OF assms(3)] by simp
  have len: "length d + length b + length r = length t + 6" using arg_cong[OF assms(1), of length] by simp
  have "occurs kPasteEnd (d @ b @ r) (length d + j)" using assms(3) l by (simp add: occurs_def)
  then have "\<not> length d + j < length t" using assms(1,2) by (auto simp: paste_text_def)
  then have "length d + j = length t" "length b = j + 6" "length r = 0" using l len by linarith+
  then show ?thesis by simp
qed

text \<open>The events of one paste: fragments, the last of which closes it.\<close>

fun paste_events :: "bytes list \<Rightarrow> input_event list" where
  "paste_events [] = []"
| "paste_events [t] = [EvPaste t True]"
| "paste_events (t # ts) = EvPaste t False # paste_events ts"

definition open_events :: "bytes list \<Rightarrow> input_event list" where
  "open_events ts = map (\<lambda>t. EvPaste t False) ts"

lemma paste_events_snoc: "paste_events (ts @ [t]) = open_events ts @ [EvPaste t True]"
  by (induction ts rule: paste_events.induct) (simp_all add: open_events_def)

text \<open>In the middle of a paste \<open>t\<close>: what has been delivered, what is in the buffer, what is
  still to come, and the position the next search starts from.\<close>

definition pasting :: "input_event list \<Rightarrow> bytes \<Rightarrow> input_parser \<Rightarrow> bytes \<Rightarrow> bool" where
  "pasting evs t p r \<longleftrightarrow> ip_in_paste p \<and> (\<exists>ts. ip_ready p = evs @ open_events ts
     \<and> concat ts @ ip_buf p @ r = t @ kPasteEnd
     \<and> length (concat ts) + (ip_paste_scanned p - 5) \<le> length t)"

definition pasted :: "input_event list \<Rightarrow> bytes \<Rightarrow> input_parser \<Rightarrow> bool" where
  "pasted evs t p \<longleftrightarrow> \<not> ip_in_paste p \<and> ip_buf p = [] \<and> (\<exists>ts. ip_ready p = evs @ paste_events ts \<and> ts \<noteq> [] \<and> concat ts = t)"

lemma pump_empty: "ip_buf p = [] \<Longrightarrow> pump p = p"
  by (subst pump.simps) simp

lemma input_step_paste:
  assumes "ip_in_paste p"
  shows "input_step p =
    (let b = ip_buf p; rf = ip_paste_scanned p - 5;
         p1 = p\<lparr>ip_esc_pending := False, ip_scan_bytes := ip_scan_bytes p + (length b - rf)\<rparr>
     in case find_from b kPasteEnd rf of
          Some e \<Rightarrow> (e + 6, (emit p1 (EvPaste (take e b) True))\<lparr>ip_in_paste := False, ip_paste_scanned := 0\<rparr>)
        | None \<Rightarrow> if length b \<ge> kMaxPasteChunk
                  then (length b - 5, (emit p1 (EvPaste (take (length b - 5) b) False))\<lparr>ip_paste_scanned := 0\<rparr>)
                  else (0, p1\<lparr>ip_paste_scanned := length b - 5\<rparr>))"
proof -
  have d: "(if b < a then a - b else 0) = a - b" "(if b \<le> a then a - b else 0) = a - b" for a b :: nat by simp_all
  have k: "length kPasteEnd - 1 = 5" by simp
  show ?thesis using assms unfolding input_step_def step_paste_def Let_def k d
    by (cases "find_from (ip_buf p) kPasteEnd (ip_paste_scanned p - 5)") (simp_all add: d)
qed

lemma step_paste_cases:
  assumes "pasting evs t p r" "paste_text t" "ip_buf p \<noteq> []"
  defines "q \<equiv> snd (input_step p)" and "n \<equiv> fst (input_step p)"
  shows "r = [] \<and> n > 0 \<and> pasted evs t (q\<lparr>ip_buf := drop n (ip_buf p)\<rparr>)
    \<or> r \<noteq> [] \<and> n > 0 \<and> pasting evs t (q\<lparr>ip_buf := drop n (ip_buf p)\<rparr>) r
    \<or> r \<noteq> [] \<and> n = 0 \<and> pasting evs t q r"
proof -
  let ?b = "ip_buf p"
  define rf where "rf = ip_paste_scanned p - 5"
  obtain ts where ip: "ip_in_paste p" and rd: "ip_ready p = evs @ open_events ts"
    and str: "concat ts @ ?b @ r = t @ kPasteEnd" and sc: "length (concat ts) + (ip_paste_scanned p - 5) \<le> length t"
    using assms(1) by (auto simp: pasting_def)
  have rf: "length (concat ts) + rf \<le> length t" using sc by (auto simp: rf_def)
  have len: "length (concat ts) + length ?b + length r = length t + 6" using arg_cong[OF str, of length] by simp
  show ?thesis
  proof (cases "find_from ?b kPasteEnd rf")
    case (Some e)
    from find_from_Some[OF this] have o: "occurs kPasteEnd ?b e" by simp
    from occurs_shift[OF str assms(2) o] have e: "length (concat ts) + e = length t" "length ?b = e + 6" "r = []" by auto
    have tk: "concat ts @ take e ?b = t"
    proof -
      have "take (length t) (concat ts @ ?b @ r) = t" using str by simp
      then show ?thesis using e by (metis (no_types, lifting) add_diff_cancel_left' append.right_neutral le_add1 take_all_iff take_append)
    qed
    have "n = e + 6" "ip_ready q = ip_ready p @ [EvPaste (take e ?b) True]" "\<not> ip_in_paste q"
      using Some ip by (simp_all add: q_def n_def input_step_paste Let_def emit_def rf_def)
    then have "pasted evs t (q\<lparr>ip_buf := drop n ?b\<rparr>)"
      using e tk rd unfolding pasted_def by (auto simp: paste_events_snoc[symmetric] intro!: exI[of _ "ts @ [take e ?b]"])
    then show ?thesis using e \<open>n = e + 6\<close> by simp
  next
    case None
    have r: "r \<noteq> []"
    proof
      assume "r = []"
      have "length (concat ts) \<le> length t" using rf by simp
      then have "?b = drop (length (concat ts)) t @ kPasteEnd" using str \<open>r = []\<close>
        by (metis append_Nil2 append_eq_conv_conj drop_append diff_is_0_eq drop0)
      then have "occurs kPasteEnd ?b (length t - length (concat ts))" by (simp add: occurs_def)
      moreover have "rf \<le> length t - length (concat ts)" using rf by simp
      ultimately show False using find_from_None[OF None] by simp
    qed
    then have short: "length (concat ts) + length ?b \<le> length t + 5" using len by (cases r) auto
    show ?thesis
    proof (cases "length ?b \<ge> kMaxPasteChunk")
      case True
      define fl where "fl = length ?b - 5"
      have fl: "0 < fl" "fl \<le> length ?b" using True by (auto simp: fl_def kMaxPasteChunk_def)
      have "n = fl" "ip_ready q = ip_ready p @ [EvPaste (take fl ?b) False]" "ip_in_paste q" "ip_paste_scanned q = 0"
        using None True ip by (simp_all add: q_def n_def input_step_paste Let_def emit_def rf_def fl_def)
      moreover have "concat (ts @ [take fl ?b]) @ drop fl ?b @ r = t @ kPasteEnd"
      proof -
        have "take fl ?b @ drop fl ?b @ r = ?b @ r" by (metis append_assoc append_take_drop_id)
        then have "concat ts @ take fl ?b @ drop fl ?b @ r = t @ kPasteEnd" using str by (simp only:)
        then show ?thesis by (simp only: concat_append concat.simps append_Nil2 append_assoc)
      qed
      moreover have "length (concat (ts @ [take fl ?b])) \<le> length t" using short fl by (simp add: fl_def)
      ultimately have "pasting evs t (q\<lparr>ip_buf := drop n ?b\<rparr>) r"
        using rd unfolding pasting_def by (auto simp: open_events_def intro!: exI[of _ "ts @ [take fl ?b]"])
      then show ?thesis using r fl \<open>n = fl\<close> by simp
    next
      case False
      have v: "n = 0" "ip_ready q = ip_ready p" "ip_in_paste q" "ip_buf q = ?b"
        "ip_paste_scanned q = length ?b - 5"
        using None False ip by (simp_all add: q_def n_def input_step_paste Let_def rf_def)
      have "length (concat ts) + (ip_paste_scanned q - 5) \<le> length t" using short rf unfolding v(5) by auto
      then have "pasting evs t q r" using v(2-4) rd str unfolding pasting_def by (auto intro!: exI[of _ ts])
      then show ?thesis using r v(1) by simp
    qed
  qed
qed

lemma pump_paste:
  assumes "pasting evs t p r" "paste_text t" "ip_buf p \<noteq> [] \<or> r \<noteq> []"
  shows "if r = [] then pasted evs t (pump p) else pasting evs t (pump p) r"
  using assms
proof (induction p rule: pump.induct)
  case (1 p)
  show ?case
  proof (cases "ip_buf p = []")
    case True
    then show ?thesis using "1.prems" by (simp add: pump_empty)
  next
    case False
    let ?q = "snd (input_step p)" and ?n = "fst (input_step p)"
    let ?p' = "?q\<lparr>ip_buf := drop ?n (ip_buf p)\<rparr>"
    from step_paste_cases[OF "1.prems"(1,2) False]
    consider "r = []" "?n > 0" "pasted evs t ?p'" | "r \<noteq> []" "?n > 0" "pasting evs t ?p' r" | "r \<noteq> []" "?n = 0" "pasting evs t ?q r"
      by (elim disjE conjE)
    then show ?thesis
    proof cases
      case 1
      then have "pump p = pump ?p'" using False by (subst pump.simps) simp
      then show ?thesis using 1 by (simp add: pasted_def pump_empty)
    next
      case 2
      then have "pump p = pump ?p'" using False by (subst pump.simps) simp
      then show ?thesis using "1.IH"[OF False _ 2(3) "1.prems"(2)] 2 by simp
    next
      case 3
      then have "pump p = ?q" using False by (subst pump.simps) simp
      then show ?thesis using 3 by simp
    qed
  qed
qed

lemma feed_paste:
  assumes "pasting evs t p (c @ r)" "paste_text t" "ip_buf p \<noteq> [] \<or> c @ r \<noteq> []"
  shows "if r = [] then pasted evs t (input_feed p c) else pasting evs t (input_feed p c) r"
proof -
  have "pasting evs t (p\<lparr>ip_buf := ip_buf p @ c\<rparr>) r" using assms(1) by (simp add: pasting_def)
  from pump_paste[OF this assms(2)] show ?thesis using assms(3) by (auto simp: input_feed_def)
qed

lemma pasted_feed_nothing: "pasted evs t p \<Longrightarrow> \<forall>c\<in>set cs. c = [] \<Longrightarrow> pasted evs t (foldl input_feed p cs)"
proof (induction cs arbitrary: p)
  case (Cons c cs)
  have "input_feed p [] = p" using Cons.prems(1) by (simp add: input_feed_def pasted_def pump_empty)
  then show ?case using Cons by simp
qed simp

lemma feeds_paste:
  assumes "pasting evs t p (concat cs)" "paste_text t" "concat cs \<noteq> []"
  shows "pasted evs t (foldl input_feed p cs)"
  using assms
proof (induction cs arbitrary: p)
  case (Cons c cs)
  have "if concat cs = [] then pasted evs t (input_feed p c) else pasting evs t (input_feed p c) (concat cs)"
    using Cons.prems by (intro feed_paste) simp_all
  then show ?case using Cons.IH[of "input_feed p c"] Cons.prems(2) pasted_feed_nothing[of evs t "input_feed p c" cs]
    by (auto split: if_splits)
qed simp

text \<open>The bracket that opens a paste, whole in the buffer or still on its way.\<close>

definition kPasteStart :: bytes where
  "kPasteStart = esc # str ''[200~''"

lemma kPasteStart_bytes: "kPasteStart = [esc, 0x5B, 0x32, 0x30, 0x30, 0x7E]"
  by (simp add: kPasteStart_def str_def of_char_def)

lemma paste_start:
  assumes "\<not> ip_in_paste p"
  shows "pump (p\<lparr>ip_buf := kPasteStart @ c\<rparr>)
    = pump (p\<lparr>ip_in_paste := True, ip_paste_scanned := 0, ip_esc_pending := False, ip_buf := c\<rparr>)"
proof -
  let ?ps = "[0x32, 0x30, 0x30]"
  let ?p = "p\<lparr>ip_buf := kPasteStart @ c, ip_esc_pending := False\<rparr>"
  have sp: "split_params ?ps = [200]" by code_simp
  have "step_esc ?p = step_csi_done ?p ?ps 0x7E 6"
    by (subst step_esc_csi[of _ ?ps "0x7E" c]) (simp_all add: kPasteStart_bytes csi_final_def kMaxCsiParamsLen_def)
  also have "\<dots> = (6, ?p\<lparr>ip_in_paste := True, ip_paste_scanned := 0\<rparr>)"
    using sp by (simp add: step_csi_done_def Let_def)
  finally have "input_step (p\<lparr>ip_buf := kPasteStart @ c\<rparr>) = (6, ?p\<lparr>ip_in_paste := True, ip_paste_scanned := 0\<rparr>)"
    using assms by (simp add: input_step_def Let_def kPasteStart_bytes)
  then show ?thesis by (subst pump.simps) (cases p, simp add: kPasteStart_bytes)
qed

lemma csi_scan_pending:
  assumes "\<forall>j. i \<le> j \<and> j < length buf \<longrightarrow> \<not> csi_final (buf ! j)" "i \<le> length buf" "length buf < kMaxCsiParamsLen"
  shows "csi_scan buf i = (length buf, False)"
  using assms
proof (induction buf i rule: csi_scan.induct)
  case (1 buf i)
  show ?case
  proof (cases "i < length buf")
    case True
    then have s: "\<not> (buf ! i \<ge> 0x40 \<and> buf ! i \<le> 0x7E)" "\<not> i - 2 \<ge> kMaxCsiParamsLen"
      using 1(2,4) by (auto simp: csi_final_def)
    then have "csi_scan buf i = csi_scan buf (i + 1)" using True by (subst csi_scan.simps) auto
    then show ?thesis using 1(1)[OF True s(2,1)] 1(2-4) True by simp
  qed (use 1(3) in \<open>simp add: csi_scan.simps\<close>)
qed

lemma step_partial_start:
  assumes "\<not> ip_in_paste p" "ip_buf p = take k kPasteStart" "0 < k" "k < 6"
  shows "\<exists>e. input_step p = (0, p\<lparr>ip_esc_pending := e\<rparr>)"
proof (cases "k = 1")
  case True
  then show ?thesis using assms(1,2) by (auto simp: input_step_def Let_def step_esc_def kPasteStart_bytes)
next
  case False
  let ?b = "take k kPasteStart"
  have k: "k = 2 \<or> k = 3 \<or> k = 4 \<or> k = 5" using assms(3,4) False by arith
  then have l: "length ?b = k" "?b ! 0 = esc" "?b ! 1 = 0x5B" by (auto simp: kPasteStart_bytes)
  have "\<not> csi_final (?b ! j)" if "2 \<le> j" "j < k" for j
  proof -
    have "j = 2 \<or> j = 3 \<or> j = 4" using that k by arith
    then show ?thesis using that(2) by (auto simp: kPasteStart_bytes csi_final_def)
  qed
  then have "csi_scan ?b 2 = (k, False)"
    using csi_scan_pending[of 2 ?b] l(1) k by (auto simp: kMaxCsiParamsLen_def)
  then show ?thesis using assms(1,2) l k by (auto simp: input_step_def Let_def step_esc_def)
qed

lemma pump_partial_start:
  assumes "\<not> ip_in_paste p" "k < 6"
  shows "\<exists>e. pump (p\<lparr>ip_buf := take k kPasteStart\<rparr>) = p\<lparr>ip_buf := take k kPasteStart, ip_esc_pending := e\<rparr>"
proof (cases "k = 0")
  case True
  then show ?thesis by (intro exI[of _ "ip_esc_pending p"]) (simp add: pump_empty)
next
  case False
  then have "take k kPasteStart \<noteq> []" by (simp add: kPasteStart_bytes)
  then show ?thesis using step_partial_start[of "p\<lparr>ip_buf := take k kPasteStart\<rparr>" k] assms False
    by (subst pump.simps) auto
qed

text \<open>
  A bracketed paste arrives whole: whatever the pieces in which its bytes reach the parser,
  its brackets cut or not, the events carry exactly the text, and only the last is marked
  complete.
\<close>

lemma feeds_bracketed:
  assumes "\<not> ip_in_paste p" "ip_buf p = take k kPasteStart" "k < 6"
    "paste_text t" "concat cs = drop k kPasteStart @ t @ kPasteEnd"
  shows "pasted (ip_ready p) t (foldl input_feed p cs)"
  using assms
proof (induction cs arbitrary: p k)
  case (Cons c cs)
  have six: "length kPasteStart = 6" by (simp add: kPasteStart_bytes)
  show ?case
  proof (cases "k + length c < 6")
    case True
    have c: "c = take (length c) (drop k kPasteStart)" and cs: "concat cs = drop (k + length c) kPasteStart @ t @ kPasteEnd"
      using Cons.prems(5) True six by (auto simp: append_eq_append_conv_if add.commute)
    have "ip_buf p @ c = take (k + length c) kPasteStart" using Cons.prems(2) c by (metis take_add)
    then obtain e where "input_feed p c = p\<lparr>ip_buf := take (k + length c) kPasteStart, ip_esc_pending := e\<rparr>"
      using pump_partial_start[OF Cons.prems(1) True] by (auto simp: input_feed_def)
    then show ?thesis using Cons.IH[of "input_feed p c" "k + length c"] Cons.prems(1,4) True cs by simp
  next
    case False
    define c' where "c' = drop (6 - k) c"
    let ?q = "p\<lparr>ip_in_paste := True, ip_paste_scanned := 0, ip_esc_pending := False, ip_buf := []\<rparr>"
    have "take (6 - k) c = drop k kPasteStart" "drop (6 - k) c @ concat cs = t @ kPasteEnd"
      using arg_cong[OF Cons.prems(5), of "take (6 - k)"] arg_cong[OF Cons.prems(5), of "drop (6 - k)"] False six by simp_all
    then have c: "c = drop k kPasteStart @ c'" and r: "c' @ concat cs = t @ kPasteEnd"
      unfolding c'_def by (metis append_take_drop_id)+
    have "ip_buf p @ c = kPasteStart @ c'" using Cons.prems(2) c by simp
    then have "input_feed p c = input_feed ?q c'" using paste_start[OF Cons.prems(1), of c'] by (simp add: input_feed_def)
    moreover have "pasting (ip_ready p) t ?q (concat (c' # cs))"
      using r by (auto simp: pasting_def open_events_def intro: exI[of _ "[]"])
    ultimately show ?thesis using feeds_paste[of "ip_ready p" t ?q "c' # cs"] Cons.prems(4) r by simp
  qed
qed (simp add: kPasteStart_bytes)

lemma paste_delivered:
  assumes "\<not> ip_in_paste p" "ip_buf p = []" "paste_text t" "concat cs = kPasteStart @ t @ kPasteEnd"
  shows "pasted (ip_ready p) t (foldl input_feed p cs)"
  using feeds_bracketed[of p 0 t cs] assms by simp

section \<open>Properties\<close>

text \<open>
  C28.  The key encoder and the input parser are inverse: any sequence of keys that own
  their bytes, encoded for a guest in either cursor-key mode and written back to back,
  is read by the parser as exactly these keys with their modifiers, and leaves it at
  rest.
\<close>

theorem key_roundtrip:
  assumes "list_all distinct_key ks" and "\<not> ip_in_paste p" and "ip_buf p = []"
  shows "ip_ready (input_feed p (concat (map (\<lambda>k. encode_key k app) ks))) = ip_ready p @ map EvKey ks
    \<and> ip_buf (input_feed p (concat (map (\<lambda>k. encode_key k app) ks))) = []"
proof -
  have "list_all2 reads (map (\<lambda>k. encode_key k app) ks) (map EvKey ks)"
    using assms(1) reads_encode_key by (auto simp: list_all2_conv_all_nth list_all_length)
  from feed_reads[OF this assms(2)] show ?thesis using assms(3) by (simp add: input_feed_def)
qed

theorem key_roundtrip_witness:
  "ip_ready (input_feed input_init (encode_key (mk_key KUp 0 mod_Ctrl) True @ encode_key (mk_key KChar 0xE9 0) True))
     = [EvKey (mk_key KUp 0 mod_Ctrl), EvKey (mk_key KChar 0xE9 0)]"
proof -
  have "list_all distinct_key [mk_key KUp 0 mod_Ctrl, mk_key KChar 0xE9 0]"
    by (simp add: distinct_key_def mk_key_def kFinals_def mod_Ctrl_def is_scalar_def is_surrogate_def)
  from key_roundtrip[OF this, of input_init True] show ?thesis by (simp add: input_init_def)
qed

text \<open>
  The shortcuts never steal a keystroke: an action other than the literal leader is
  taken only right after the leader key, or, in a repetition, if it is one of the
  gestures that repeat; a key that does nothing outside a chord goes to the application;
  and the dispatcher is armed only by the leader key, for one stroke.
\<close>

theorem leader_safe:
  "let (d', r) = leader_feed d k;
       is_leader = (k_key k = KChar \<and> k_ch k = ld_leader d \<and> k_mods k AND mod_Ctrl \<noteq> 0) in
   (\<forall>a. lr_action r = Some a \<longrightarrow> lr_consumed r \<and>
      (ld_phase d = LeaderArmed \<or> ld_phase d = LeaderRepeating \<and> is_repeatable a))
   \<and> (\<not> lr_consumed r \<longrightarrow> ld_phase d \<noteq> LeaderArmed \<and> \<not> is_leader \<and> ld_phase d' = LeaderIdle)
   \<and> (ld_phase d' = LeaderArmed \<longleftrightarrow> is_leader \<and> ld_phase d \<noteq> LeaderArmed)"
  by (cases "ld_phase d"; cases "lookup k") (auto simp: leader_feed_def Let_def mk_result_def)

theorem leader_safe_witness:
  "lr_consumed (snd (leader_feed \<lparr>ld_leader = 0x61, ld_phase = LeaderRepeating\<rparr> (mk_key KChar 0x77 0))) = False"
  using leader_safe[of "\<lparr>ld_leader = 0x61, ld_phase = LeaderRepeating\<rparr>" "mk_key KChar 0x77 0"]
  by (simp add: leader_feed_def Let_def mk_key_def lookup_def kBindings_def is_repeatable_def mk_result_def)

section \<open>Where the two halves part\<close>

text \<open>Alt with a character beyond ASCII is encoded as ESC and its UTF-8 bytes; the parser
  takes ESC and the first of them, drops both, and reads the rest as a broken character.\<close>

lemma alt_multibyte_dropped:
  "ip_ready (input_feed input_init (encode_key (mk_key KChar 0xE9 mod_Alt) False)) = [EvKey (mk_key KChar 0xFFFD 0)]"
  by code_simp

text \<open>\<open>CSI 1;2 I\<close>, which the shortcut table expects to arrive as Shift+Tab, is read as a focus
  event.\<close>

lemma shift_tab_csi_is_focus:
  "ip_ready (input_feed input_init (esc # str ''[1;2I'')) = [EvFocus True]"
  by code_simp

lemma snap_actions_unbound: "set bound_actions \<inter> {SnapLeft, SnapRight, SnapUp, SnapDown} = {}"
  by (simp add: bound_actions_def kBindings_def kKeyBindings_def)

end
