(* ===== verification/Terminal_Paste.thy ===== *)
theory Terminal_Paste
  imports Terminal_Safe Input_Codec
begin

text \<open>
  A paste on its way to the guest: the pieces the input parser delivers, cleaned and put
  between brackets by the application.
\<close>

text \<open>What a tab's guest has been given to read, and the room left for more.\<close>

definition guest_input :: "term_tab \<Rightarrow> bytes" where
  "guest_input t = (if py_master (tb_pty t) < 0 then tb_pending t else py_out (tb_pty t))"

definition room_for :: "nat \<Rightarrow> term_tab \<Rightarrow> bool" where
  "room_for n t \<longleftrightarrow> (0 \<le> py_master (tb_pty t) \<longrightarrow> n \<le> py_room (tb_pty t))"

definition deliver :: "terminal \<Rightarrow> input_event \<Rightarrow> terminal" where
  "deliver T e = (case e of EvPaste text complete \<Rightarrow> on_paste T text complete | _ \<Rightarrow> T)"

lemma tab_write_input:
  assumes "room_for (length bs + n) t"
  shows "guest_input (tab_write t bs) = guest_input t @ bs" "room_for n (tab_write t bs)"
    "py_exited (tb_pty (tab_write t bs)) = py_exited (tb_pty t)" "tb_modes (tab_write t bs) = tb_modes t"
  using assms by (auto simp: guest_input_def room_for_def tab_write_def pty_write_def Let_def)

text \<open>The active tab of a terminal at rest, and what writing to it does.\<close>

definition at_rest :: "terminal \<Rightarrow> bool" where
  "at_rest T \<longleftrightarrow> tm_active T < length (tm_tabs T) \<and> tm_feeding T = None \<and> tm_mode T = ModeNormal
     \<and> \<not> py_exited (tb_pty (active_tab T))"

lemma to_guest_active:
  assumes "at_rest T" "room_for (length bs + n) (active_tab T)"
  shows "at_rest (to_guest T bs)" "guest_input (active_tab (to_guest T bs)) = guest_input (active_tab T) @ bs"
    "room_for n (active_tab (to_guest T bs))" "tm_pasting (to_guest T bs) = tm_pasting T"
    "tm_bracketed (to_guest T bs) = tm_bracketed T" "tb_modes (active_tab (to_guest T bs)) = tb_modes (active_tab T)"
proof -
  have t: "target T = tm_active T" "tm_active T < length (tm_tabs T)" using assms(1) by (simp_all add: at_rest_def target_def)
  have a: "active_tab (to_guest T bs) = tab_write (active_tab T) bs"
    using t by (simp add: to_guest_tab active_tab_def tab_access)
  note w = tab_write_input[OF assms(2)]
  show "at_rest (to_guest T bs)" using assms(1) a w(3) by (simp add: at_rest_def) (simp add: to_guest_tab tab_access)
  show "guest_input (active_tab (to_guest T bs)) = guest_input (active_tab T) @ bs"
    "room_for n (active_tab (to_guest T bs))" "tb_modes (active_tab (to_guest T bs)) = tb_modes (active_tab T)"
    using a w by simp_all
  show "tm_pasting (to_guest T bs) = tm_pasting T" "tm_bracketed (to_guest T bs) = tm_bracketed T"
    by (simp_all add: to_guest_tab tab_access)
qed

lemma on_history_active:
  assumes "at_rest T"
  shows "at_rest (on_history T f)" "guest_input (active_tab (on_history T f)) = guest_input (active_tab T)"
    "room_for n (active_tab (on_history T f)) = room_for n (active_tab T)"
    "tm_pasting (on_history T f) = tm_pasting T" "tm_bracketed (on_history T f) = tm_bracketed T"
    "tb_modes (active_tab (on_history T f)) = tb_modes (active_tab T)"
  using assms by (simp_all add: at_rest_def on_history_def Let_def active_tab_def tab_access guest_input_def room_for_def)

lemma clean_paste_append: "clean_paste (a @ b) = clean_paste a @ clean_paste b"
  by (simp add: clean_paste_def)

lemma clean_paste_length: "length (clean_paste a) \<le> length a"
  by (simp add: clean_paste_def)

lemma clean_paste_esc: "esc \<notin> set (clean_paste a)"
  by (simp add: clean_paste_def esc_def)

definition paste_open :: "bool \<Rightarrow> bytes" where
  "paste_open b = (if b then esc # str ''[200~'' else [])"

definition paste_close :: "bool \<Rightarrow> bytes" where
  "paste_close b = (if b then esc # str ''[201~'' else [])"

lemma bracket_lengths: "length (paste_open b) \<le> 6" "length (paste_close b) \<le> 6"
  by (simp_all add: paste_open_def paste_close_def str_def)

lemma room_mono: "room_for m t \<Longrightarrow> n \<le> m \<Longrightarrow> room_for n t"
  by (auto simp: room_for_def)

text \<open>The three writes of \<open>on_paste\<close>, in order.\<close>

lemma on_paste_conv:
  assumes "at_rest T"
  defines "b \<equiv> if tm_pasting T then tm_bracketed T else bracketed_paste (tb_modes (active_tab T))"
  defines "T1 \<equiv> (on_history T scroll_to_bottom)\<lparr>tm_bracketed := b\<rparr>"
  defines "T2 \<equiv> to_guest T1 (paste_open (\<not> tm_pasting T \<and> b))"
  shows "on_paste T text c = to_guest (to_guest (T2\<lparr>tm_pasting := \<not> c\<rparr>) (clean_paste text)) (paste_close (c \<and> b))"
proof -
  note h = on_history_active[OF assms(1), where f = scroll_to_bottom]
  have z: "to_guest U [] = U" for U by (simp add: to_guest_def)
  have p: "U\<lparr>tm_bracketed := tm_bracketed U\<rparr> = U" for U :: terminal by simp
  have f: "tm_bracketed (to_guest U bs) = tm_bracketed U" for U bs by (simp add: to_guest_tab tab_access)
  have m: "tm_mode T = ModeNormal" "\<not> py_exited (tb_pty (active_tab T))" using assms(1) by (simp_all add: at_rest_def)
  show ?thesis
  proof (cases "tm_pasting T")
    case True
    then have "T1 = on_history T scroll_to_bottom" using p[of "on_history T scroll_to_bottom"] h(5) by (simp add: T1_def b_def)
    then show ?thesis using True h m by (simp add: on_paste_def Let_def T2_def b_def z f paste_open_def paste_close_def)
  next
    case False
    then show ?thesis using h m
      by (simp add: on_paste_def Let_def T2_def T1_def b_def z f paste_open_def paste_close_def)
  qed
qed

lemma rest_flags:
  "at_rest (T\<lparr>tm_bracketed := b\<rparr>) = at_rest T" "active_tab (T\<lparr>tm_bracketed := b\<rparr>) = active_tab T"
  "at_rest (T\<lparr>tm_pasting := b\<rparr>) = at_rest T" "active_tab (T\<lparr>tm_pasting := b\<rparr>) = active_tab T"
  by (simp_all add: at_rest_def active_tab_def tab_at_def)

lemma on_paste_active:
  fixes T c
  assumes "at_rest T" "room_for ((if tm_pasting T then 0 else 6) + length text + (if c then 6 else 0) + n) (active_tab T)"
  defines "b \<equiv> if tm_pasting T then tm_bracketed T else bracketed_paste (tb_modes (active_tab T))"
  defines "T' \<equiv> on_paste T text c"
  shows "at_rest T'" "tm_pasting T' = (\<not> c)" "tm_bracketed T' = b" "room_for n (active_tab T')"
    "guest_input (active_tab T') = guest_input (active_tab T) @ paste_open (\<not> tm_pasting T \<and> b)
       @ clean_paste text @ paste_close (c \<and> b)"
proof -
  let ?T1 = "(on_history T scroll_to_bottom)\<lparr>tm_bracketed := b\<rparr>"
  let ?o = "paste_open (\<not> tm_pasting T \<and> b)" and ?m = "clean_paste text" and ?c = "paste_close (c \<and> b)"
  note h = on_history_active[OF assms(1), where f = scroll_to_bottom]
  have r: "length ?o + (length ?m + (length ?c + n)) \<le> (if tm_pasting T then 0 else 6) + length text + (if c then 6 else 0) + n"
    using bracket_lengths clean_paste_length[of "text"] by (auto simp: paste_open_def paste_close_def str_def)
  have r1: "at_rest ?T1" "room_for (length ?o + (length ?m + (length ?c + n))) (active_tab ?T1)"
    using h room_mono[OF assms(2) r] by (simp_all add: rest_flags)
  note w1 = to_guest_active[OF r1]
  let ?T2 = "(to_guest ?T1 ?o)\<lparr>tm_pasting := \<not> c\<rparr>"
  have r2: "at_rest ?T2" "room_for (length ?m + (length ?c + n)) (active_tab ?T2)" using w1 by (simp_all add: rest_flags)
  note w2 = to_guest_active[OF r2]
  note w3 = to_guest_active[OF w2(1,3)]
  have e: "T' = to_guest (to_guest ?T2 ?m) ?c" unfolding T'_def b_def by (rule on_paste_conv[OF assms(1)])
  show "at_rest T'" "tm_pasting T' = (\<not> c)" "tm_bracketed T' = b" "room_for n (active_tab T')"
    using w1 w2 w3 by (simp_all add: e rest_flags)
  show "guest_input (active_tab T') = guest_input (active_tab T) @ ?o @ ?m @ ?c"
    using w1(2) w2(2) w3(2) h(2) by (simp add: e rest_flags)
qed

lemma paste_rest:
  assumes "at_rest T" "tm_pasting T" "ts \<noteq> []" "room_for (length (concat ts) + 6) (active_tab T)"
  shows "guest_input (active_tab (foldl deliver T (paste_events ts)))
      = guest_input (active_tab T) @ clean_paste (concat ts) @ paste_close (tm_bracketed T)
    \<and> \<not> tm_pasting (foldl deliver T (paste_events ts)) \<and> at_rest (foldl deliver T (paste_events ts))"
  using assms
proof (induction ts arbitrary: T rule: paste_events.induct)
  case (2 t)
  then show ?case using on_paste_active[of T t True 0] by (simp add: deliver_def paste_open_def)
next
  case (3 t u ts)
  have "room_for (length t + (length (concat (u # ts)) + 6)) (active_tab T)" using 3 by (simp add: add.assoc)
  then have p: "at_rest (on_paste T t False)" "tm_pasting (on_paste T t False)"
    "tm_bracketed (on_paste T t False) = tm_bracketed T" "room_for (length (concat (u # ts)) + 6) (active_tab (on_paste T t False))"
    "guest_input (active_tab (on_paste T t False)) = guest_input (active_tab T) @ clean_paste t"
    using on_paste_active[of T t False "length (concat (u # ts)) + 6"] 3(2,3) by (simp_all add: paste_open_def paste_close_def)
  have "foldl deliver T (paste_events (t # u # ts)) = foldl deliver (on_paste T t False) (paste_events (u # ts))"
    by (simp add: deliver_def)
  then show ?case using 3(1)[OF p(1,2) _ p(4)] p(3,5) clean_paste_append[of t "concat (u # ts)"] by simp
qed simp

lemma paste_to_guest:
  assumes "at_rest T" "\<not> tm_pasting T" "ts \<noteq> []" "room_for (length (concat ts) + 12) (active_tab T)"
  defines "b \<equiv> bracketed_paste (tb_modes (active_tab T))"
  shows "guest_input (active_tab (foldl deliver T (paste_events ts)))
      = guest_input (active_tab T) @ paste_open b @ clean_paste (concat ts) @ paste_close b
    \<and> \<not> tm_pasting (foldl deliver T (paste_events ts))"
proof -
  obtain t us where ts: "ts = t # us" using assms(3) by (cases ts) auto
  show ?thesis
  proof (cases us)
    case Nil
    have "room_for (6 + length t + 6 + 0) (active_tab T)" using assms(4) ts Nil by (simp add: add.commute)
    then show ?thesis using on_paste_active[of T t True 0] assms(1,2) by (simp add: ts Nil deliver_def b_def)
  next
    case (Cons u vs)
    have "room_for (6 + length t + 0 + (length (concat us) + 6)) (active_tab T)"
      using assms(4) by (simp add: ts algebra_simps)
    then have p: "at_rest (on_paste T t False)" "tm_pasting (on_paste T t False)"
      "tm_bracketed (on_paste T t False) = b" "room_for (length (concat us) + 6) (active_tab (on_paste T t False))"
      "guest_input (active_tab (on_paste T t False)) = guest_input (active_tab T) @ paste_open b @ clean_paste t"
      using on_paste_active[of T t False "length (concat us) + 6"] assms(1,2) by (simp_all add: paste_close_def b_def)
    have "foldl deliver T (paste_events ts) = foldl deliver (on_paste T t False) (paste_events us)"
      by (simp add: ts Cons deliver_def)
    then show ?thesis using paste_rest[OF p(1,2) _ p(4)] p(3,5) Cons clean_paste_append[of t "concat us"] by (simp add: ts)
  qed
qed

end
