(* ===== verification/Terminal_Bar.thy ===== *)
theory Terminal_Bar
  imports Terminal_Paste
begin

text \<open>
  The bar of tabs, whose geometry is shared by the drawing and the clicks, and the mouse
  reports a guest receives.
\<close>

section \<open>Widths\<close>

lemma text_loop_le: "n \<le> text_loop amb s i n"
proof (induction amb s i n rule: text_loop.induct)
  case (1 amb s i n)
  show ?case
  proof (cases "i < length s")
    case True
    then have "n + char_width amb (fst (utf8_decode s i)) \<le> text_loop amb s i n"
      using 1 by (simp add: text_loop.simps[of amb s i])
    then show ?thesis using char_width_range[of amb "fst (utf8_decode s i)"] by auto
  qed (simp add: text_loop.simps)
qed

lemma text_loop_ascii:
  assumes "i < length s" "0x20 \<le> s ! i" "s ! i < 0x7F"
  shows "text_loop amb s i n = text_loop amb s (i + 1) (n + 1)"
proof -
  let ?c = "ucast (s ! i) :: char32"
  have u: "unat ?c = unat (s ! i)" "unat (s ! i) < 127" "32 \<le> unat (s ! i)"
    using assms(2,3) unat_ucast_up[of "s ! i"] by (simp_all add: unat_orders)
  have "ucast ?c = s ! i" by (rule bit_word_eqI) (auto simp: bit_ucast_iff dest: bit_imp_le_length)
  then have e: "encode_utf8 ?c = [s ! i]" using u by (simp add: encode_utf8_def unat_orders)
  have "utf8_decode (take i s @ encode_utf8 ?c @ drop (Suc i) s) (length (take i s)) = (?c, length (encode_utf8 ?c))"
    using u by (intro utf8_decode_encode) (simp add: is_scalar_def is_surrogate_def unat_orders)
  then have d: "utf8_decode s i = (?c, 1)" using assms(1) by (simp add: e id_take_nth_drop[symmetric])
  have "char_width amb ?c = 1"
    using u by (simp add: char_width_def in_table_def kZero_def kAmbiguous_def kWide_def unat_orders)
  then show ?thesis using assms(1) by (subst text_loop.simps) (simp add: d)
qed

lemma text_cells_prefix:
  assumes "list_all (\<lambda>b. 0x20 \<le> b \<and> b < 0x7F) xs"
  shows "int (length xs) \<le> text_cells amb (xs @ ys)"
proof -
  have "text_loop amb (xs @ ys) 0 0 = text_loop amb (xs @ ys) k (int k)" if "k \<le> length xs" for k
    using that
  proof (induction k)
    case (Suc k)
    then have "text_loop amb (xs @ ys) k (int k) = text_loop amb (xs @ ys) (k + 1) (int k + 1)"
      using assms by (intro text_loop_ascii) (simp_all add: list_all_length nth_append)
    then show ?case using Suc by (simp add: add.commute)
  qed simp
  from this[OF le_refl] show ?thesis using text_loop_le[of "int (length xs)" amb "xs @ ys" "length xs"]
    by (simp add: text_cells_def)
qed

lemma digits_printable: "list_all (\<lambda>b. 0x20 \<le> b \<and> b < 0x7F) (nat_digits n)"
  using nat_digits_digits[of n] by (rule list.pred_mono_strong) (auto simp: is_digit_def unat_orders)

lemma slot_text_cells: "2 \<le> text_cells amb (slot_text amb T m i)"
proof -
  obtain d ds where n: "to_string (int i + 1) = d # ds"
    using nat_digits_nonempty[of "nat (int i + 1)"] by (cases "nat_digits (nat (int i + 1))") (auto simp: to_string_def)
  have "list_all (\<lambda>b. 0x20 \<le> b \<and> b < 0x7F) (to_string (int i + 1))" by (simp add: to_string_def digits_printable)
  then have p: "list_all (\<lambda>b. 0x20 \<le> b \<and> b < 0x7F) [0x20, d]" by (simp add: n)
  have "\<exists>ys. slot_text amb T m i = [0x20, d] @ ys" by (simp add: slot_text_def Let_def n str_def)
  then show ?thesis using text_cells_prefix[OF p] by auto
qed

section \<open>Geometry of the bar\<close>

definition before :: "slot \<Rightarrow> slot \<Rightarrow> bool" where
  "before a b \<longleftrightarrow> sl_x a + sl_w a \<le> sl_x b"

definition within :: "int \<Rightarrow> int \<Rightarrow> slot \<Rightarrow> bool" where
  "within lo hi s \<longleftrightarrow> lo \<le> sl_x s \<and> 0 < sl_w s \<and> sl_x s + sl_w s \<le> hi"

lemma mk_slot_sel [simp]:
  "sl_x (mk_slot x w t k s) = x" "sl_w (mk_slot x w t k s) = w" "sl_kind (mk_slot x w t k s) = k"
  by (simp_all add: mk_slot_def)

lemma within_mono: "within lo hi s \<Longrightarrow> lo' \<le> lo \<Longrightarrow> hi \<le> hi' \<Longrightarrow> within lo' hi' s"
  by (simp add: within_def)

lemma placed_Cons:
  assumes "sorted_wrt before ss" "list_all (within y hi) ss" "within x hi s" "sl_x s + sl_w s \<le> y"
  shows "sorted_wrt before (s # ss)" "list_all (within x hi) (s # ss)"
  using assms by (fastforce simp: list_all_iff within_def before_def)+

lemma bar_loop_placed:
  "sorted_wrt before (bar_loop amb T avail m cr x is) \<and> list_all (within x avail) (bar_loop amb T avail m cr x is)"
proof (induction "is" arbitrary: x)
  case (Cons i ks)
  define w where "w = text_cells amb (slot_text amb T m i)"
  define t where "t = slot_text amb T m i"
  have w: "2 \<le> w" unfolding w_def by (rule slot_text_cells)
  consider "x + (w + (if cr then 1 else 0)) > avail" | "x + w \<le> avail" "\<not> cr" | "x + w + 1 \<le> avail" cr
    by (cases cr) force+
  then show ?case
  proof cases
    case 1
    then show ?thesis by (simp add: Let_def w_def)
  next
    case 2
    let ?r = "bar_loop amb T avail m cr (x + w) ks"
    have "sorted_wrt before ?r" "list_all (within (x + w) avail) ?r" using Cons.IH[of "x + w"] by simp_all
    note c = placed_Cons[OF this, of x "mk_slot x w i SlotSelect t"]
    have "bar_loop amb T avail m cr x (i # ks) = mk_slot x w i SlotSelect t # ?r"
      using 2 by (simp add: Let_def w_def t_def)
    moreover have "within x avail (mk_slot x w i SlotSelect t)" using w 2 by (simp add: within_def)
    ultimately show ?thesis using c by (simp only: mk_slot_sel order_refl simp_thms)
  next
    case 3
    let ?r = "bar_loop amb T avail m cr (x + w + 1) ks" and ?c = "mk_slot (x + w) 1 i SlotClose kCross"
    have "sorted_wrt before ?r" "list_all (within (x + w + 1) avail) ?r" using Cons.IH[of "x + w + 1"] by simp_all
    note r = placed_Cons[OF this, of "x + w" ?c]
    have r': "sorted_wrt before (?c # ?r)" "list_all (within (x + w) avail) (?c # ?r)"
      using r w 3 by (simp_all only: mk_slot_sel within_def[of _ _ ?c] order_refl simp_thms zero_less_one)
    note c = placed_Cons[OF r', of x "mk_slot x w i SlotSelect t"]
    have "bar_loop amb T avail m cr x (i # ks) = mk_slot x w i SlotSelect t # ?c # ?r"
      using 3 by (simp add: Let_def w_def t_def)
    moreover have "within x avail (mk_slot x w i SlotSelect t)" using w 3 by (simp add: within_def)
    ultimately show ?thesis using c by (simp only: mk_slot_sel order_refl simp_thms)
  qed
qed simp

lemma bar_loop_narrow: "bar_loop amb T 1 m cr 0 is = []"
proof (cases "is")
  case (Cons i ks)
  then show ?thesis using slot_text_cells[of amb T m i] by (simp add: Let_def)
qed simp

lemma placed_append:
  assumes "sorted_wrt before as" "list_all (within lo y) as" "sorted_wrt before bs" "list_all (within y hi) bs"
    "lo \<le> y" "y \<le> hi"
  shows "sorted_wrt before (as @ bs)" "list_all (within lo hi) (as @ bs)"
  using assms by (fastforce simp: sorted_wrt_append list_all_iff within_def before_def)+

lemma bar_slots_placed:
  "sorted_wrt before (bar_slots amb T) \<and> list_all (within 0 (max 1 (sz_w (tm_size T)))) (bar_slots amb T)"
proof (cases "tm_mode T = ModeEditingPath")
  case False
  define w a where "w = max 1 (sz_w (tm_size T))" and "a = max 1 (w - (kGearCells + 3))"
  define buttons where "buttons = (if w > kGearCells + 1 then [mk_slot (w - 1 - kGearCells) kGearCells 0 SlotSettings kGear] else [])
    @ [mk_slot (w - 1) 1 0 SlotNew (str ''+'')]"
  obtain m cr where e: "bar_slots amb T = bar_loop amb T a m cr 0 [0..<length (tm_tabs T)] @ buttons"
    unfolding bar_slots_def Let_def if_not_P[OF False] w_def[symmetric] a_def[symmetric] buttons_def[symmetric] by blast
  define y where "y = (if a = 1 then 0 else w - 6)"
  have y: "0 \<le> y" "y \<le> w" by (auto simp: y_def a_def w_def kGearCells_def)
  have "sorted_wrt before buttons" "list_all (within y w) buttons"
    by (auto simp: buttons_def y_def a_def w_def before_def within_def kGearCells_def)
  moreover have "sorted_wrt before (bar_loop amb T a m cr 0 is)" "list_all (within 0 y) (bar_loop amb T a m cr 0 is)" for "is"
    using bar_loop_placed[of amb T a m cr 0 "is"] bar_loop_narrow[of amb T m cr "is"]
    by (auto simp: y_def a_def kGearCells_def)
  ultimately show ?thesis using placed_append y unfolding e w_def[symmetric] by blast
qed (simp add: bar_slots_def within_def)

lemma find_sorted:
  assumes "sorted_wrt before xs" "s \<in> set xs" "sl_x s \<le> x" "x < sl_x s + sl_w s"
    "list_all (within lo hi) xs"
  shows "List.find (\<lambda>s. \<not> (x < sl_x s \<or> x \<ge> sl_x s + sl_w s)) xs = Some s"
  using assms by (induction xs) (auto simp: before_def within_def)

section \<open>Mouse reports\<close>

text \<open>The events a report can carry: three buttons and none, three modifiers, a wheel
  without a button.\<close>

definition reportable :: "mouse_event \<Rightarrow> bool" where
  "reportable m \<longleftrightarrow> m_mods m < 8
     \<and> (if m_action m = WheelUp \<or> m_action m = WheelDown then m_button m = 0 else m_button m < 4)
     \<and> 0 \<le> m_x m \<and> m_x m < 65535 \<and> 0 \<le> m_y m \<and> m_y m < 65535"

definition report_code :: "mouse_event \<Rightarrow> int" where
  "report_code m =
     (case m_action m of WheelUp \<Rightarrow> 64 | WheelDown \<Rightarrow> 65 | Motion \<Rightarrow> int (unat (m_button m)) + 32
      | _ \<Rightarrow> int (unat (m_button m)))
     + (if m_mods m AND mod_Shift \<noteq> 0 then 4 else 0) + (if m_mods m AND mod_Alt \<noteq> 0 then 8 else 0)
     + (if m_mods m AND mod_Ctrl \<noteq> 0 then 16 else 0)"

lemma encode_mouse_conv:
  "encode_mouse_sgr m x y = esc # 0x5B # (0x3C # to_string (report_code m) @ 0x3B # to_string (x + 1) @ 0x3B # to_string (y + 1))
     @ [if m_action m = Release then 0x6D else 0x4D]"
  by (simp add: encode_mouse_sgr_def report_code_def Let_def str_def split: mouse_action.splits)

lemma byte_lt_8: "m < 8 \<Longrightarrow> m = 0 \<or> m = 1 \<or> m = 2 \<or> m = 3 \<or> m = 4 \<or> m = 5 \<or> m = 6 \<or> m = (7 :: byte)"
  unfolding word_unat_eq_iff word_less_nat_alt by simp arith

lemma byte_lt_4: "m < 4 \<Longrightarrow> m = 0 \<or> m = 1 \<or> m = 2 \<or> m = (3 :: byte)"
  unfolding word_unat_eq_iff word_less_nat_alt by simp arith

lemma report_code_bounds:
  assumes "reportable m"
  shows "0 \<le> report_code m" "report_code m < 100"
proof -
  have "unat (m_button m) < 4" using assms by (auto simp: reportable_def unat_orders split: if_splits)
  then show "0 \<le> report_code m" "report_code m < 100"
    by (auto simp: report_code_def split: mouse_action.splits simp del: of_nat_unat)
qed

lemma mouse_of_report:
  assumes "reportable m"
  shows "mouse_of (report_code m) (m_x m + 1) (m_y m + 1) (if m_action m = Release then 0x6D else 0x4D) = m"
proof (cases m)
  case (fields act b x y ms)
  have ms: "ms = 0 \<or> ms = 1 \<or> ms = 2 \<or> ms = 3 \<or> ms = 4 \<or> ms = 5 \<or> ms = 6 \<or> ms = 7"
    using assms byte_lt_8 by (simp add: fields reportable_def)
  have b: "b = 0 \<or> b = 1 \<or> b = 2 \<or> b = 3" "act = WheelUp \<or> act = WheelDown \<Longrightarrow> b = 0"
    using assms byte_lt_4[of b] by (simp_all add: fields reportable_def split: if_splits)
  note defs = fields mouse_of_def report_code_def mod_Shift_def mod_Alt_def mod_Ctrl_def Let_def
  show ?thesis
  proof (cases act)
    case Press
    show ?thesis using b(1) ms by (elim disjE) (simp_all add: defs Press)
  next
    case Release
    show ?thesis using b(1) ms by (elim disjE) (simp_all add: defs Release)
  next
    case Motion
    show ?thesis using b(1) ms by (elim disjE) (simp_all add: defs Motion)
  qed (use b(2) ms in \<open>elim disjE; simp add: defs\<close>)+
qed

lemma split_three:
  assumes "a \<le> 65535" "b \<le> 65535" "c \<le> 65535"
  shows "split_params (nat_digits a @ 0x3B # nat_digits b @ 0x3B # nat_digits c) = [int a, int b, int c]"
  using assms split_number[of a "0x3B # nat_digits b @ 0x3B # nat_digits c"] split_number[of b "0x3B # nat_digits c"]
    split_number_end[of c] by (simp add: split_params_def nat_digits_nonempty)

lemma reads_mouse:
  assumes "reportable m"
  shows "reads (encode_mouse_sgr m (m_x m) (m_y m)) (EvMouse m)"
proof -
  note c = report_code_bounds[OF assms]
  define a b d where "a = nat (report_code m)" and "b = nat (m_x m + 1)" and "d = nat (m_y m + 1)"
  have bd: "0 \<le> m_x m" "m_x m < 65535" "0 \<le> m_y m" "m_y m < 65535" using assms by (simp_all add: reportable_def)
  have i: "int a = report_code m" "int b = m_x m + 1" "int d = m_y m + 1" using c bd by (simp_all add: a_def b_def d_def)
  have le: "a < 100" "b \<le> 65535" "d \<le> 65535" using c bd by (simp_all add: a_def b_def d_def nat_less_iff nat_le_iff)
  let ?ns = "nat_digits a @ 0x3B # nat_digits b @ 0x3B # nat_digits d"
  let ?ps = "0x3C # ?ns" and ?f = "if m_action m = Release then 0x6D else 0x4D :: byte"
  have t: "to_string (report_code m) = nat_digits a" "to_string (m_x m + 1) = nat_digits b" "to_string (m_y m + 1) = nat_digits d"
    using c bd by (simp_all add: to_string_def a_def b_def d_def)
  have "reads (esc # 0x5B # ?ps @ [?f]) (EvMouse m)"
  proof (rule reads_csi)
    show "list_all (\<lambda>b. \<not> csi_final b) ?ps" using digits_not_final by (simp add: csi_final_def)
    show "csi_final ?f" by (simp add: csi_final_def)
    show "length ?ps < kMaxCsiParamsLen"
      using length_digits[of a 1] length_digits[of b 4] length_digits[of d 4] le by (simp add: kMaxCsiParamsLen_def)
    have "split_params ?ns = [report_code m, m_x m + 1, m_y m + 1]" using split_three[of a b d] le i by simp
    then show "step_csi_done p ?ps ?f (length ?ps + 3) = (length ?ps + 3, emit p (EvMouse m))" for p
      using mouse_of_report[OF assms] c bd by (simp add: step_csi_done_def Let_def)
  qed
  then show ?thesis by (simp add: encode_mouse_conv t)
qed

section \<open>Properties\<close>

text \<open>
  What the bar shows is what a click does: every cell of every slot drawn lies inside
  the window and belongs to that slot alone, so that clicking it does what the slot is
  for, whatever names the guests give their tabs and however narrow the window.
\<close>

theorem bar_click_where_drawn:
  assumes "s \<in> set (bar_slots amb T)" and "sl_x s \<le> x" and "x < sl_x s + sl_w s"
  shows "0 \<le> x \<and> x < max 1 (sz_w (tm_size T))
    \<and> bar_click w amb T x = (case sl_kind s of
         SlotNew \<Rightarrow> fst (open_tab w T)
       | SlotSettings \<Rightarrow> begin_path_edit T
       | SlotClose \<Rightarrow> close_tab w T (sl_tab s)
       | SlotSelect \<Rightarrow> if sl_tab s = tm_active T then begin_rename T else select_tab T (sl_tab s))"
proof -
  note b = bar_slots_placed[of amb T]
  have "within 0 (max 1 (sz_w (tm_size T))) s" using b assms(1) by (simp add: list_all_iff)
  moreover have "List.find (\<lambda>s. \<not> (x < sl_x s \<or> x \<ge> sl_x s + sl_w s)) (bar_slots amb T) = Some s"
    using find_sorted[of "bar_slots amb T" s x] b assms by blast
  ultimately show ?thesis using assms(2,3) by (simp add: bar_click_def within_def)
qed

theorem bar_click_where_drawn_witness:
  "bar_click \<lparr>os_login_shell = [0x2F], os_spawn = Inr (5, 77), os_token = 3, os_wait = (\<lambda>_. StillRunning)\<rparr> False
     (terminal_init []) 77 = begin_path_edit (terminal_init [])"
proof -
  have "mk_slot 76 3 0 SlotSettings kGear \<in> set (bar_slots False (terminal_init []))"
    by (simp add: bar_slots_def terminal_init_def Let_def kGearCells_def)
  from bar_click_where_drawn[OF this, of 77] show ?thesis by simp
qed

text \<open>
  What a mouse event becomes on the guest's grid, which begins under the bar, and which
  events are reported: those on the grid, motion only to a guest that asked for it.
\<close>

definition on_grid :: "mouse_event \<Rightarrow> mouse_event" where
  "on_grid m = m\<lparr>m_y := m_y m - kBarRows\<rparr>"

definition reported :: "mouse_tracking \<Rightarrow> mouse_event \<Rightarrow> bool" where
  "reported track m \<longleftrightarrow> kBarRows \<le> m_y m \<and> \<not> (track = TrackClick \<and> m_action m = Motion)"

lemma encode_on_grid: "encode_mouse_sgr (on_grid m) x y = encode_mouse_sgr m x y"
  by (simp add: on_grid_def encode_mouse_conv report_code_def cong: mouse_action.case_cong)

lemma report_length:
  assumes "reportable m"
  shows "length (encode_mouse_sgr m (m_x m) (m_y m)) \<le> 18"
proof -
  note c = report_code_bounds[OF assms]
  have bd: "0 \<le> m_x m" "m_x m < 65535" "0 \<le> m_y m" "m_y m < 65535" using assms by (simp_all add: reportable_def)
  have "nat (report_code m) < 10 ^ Suc 1" "nat (m_x m + 1) < 10 ^ Suc 4" "nat (m_y m + 1) < 10 ^ Suc 4"
    using c bd by (simp_all add: nat_less_iff)
  note d = this[THEN length_digits]
  show ?thesis using d c bd by (simp add: encode_mouse_conv to_string_def)
qed

text \<open>One event on a terminal at rest whose guest asked for the mouse.\<close>

lemma on_mouse_reports:
  assumes "at_rest T" "tracking (tb_modes (active_tab T)) \<noteq> TrackNone" "m_y m < kBarRows \<Longrightarrow> m_action m \<noteq> Press"
  shows "on_mouse w amb T m = (if reported (tracking (tb_modes (active_tab T))) m
    then to_guest T (encode_mouse_sgr (on_grid m) (m_x (on_grid m)) (m_y (on_grid m))) else T)"
proof -
  have "tm_mode T = ModeNormal" "\<not> py_exited (tb_pty (active_tab T))" using assms(1) by (simp_all add: at_rest_def)
  then show ?thesis using assms(2,3)
    by (auto simp: on_mouse_def Let_def reported_def commit_rename_def commit_path_edit_def encode_on_grid not_less)
       (simp_all add: on_grid_def)
qed

lemma on_mouse_sequence:
  assumes "at_rest T" "tracking (tb_modes (active_tab T)) = track" "track \<noteq> TrackNone"
    and "list_all (\<lambda>m. m_y m < kBarRows \<longrightarrow> m_action m \<noteq> Press) ms"
    and "list_all (\<lambda>m. reportable (on_grid m)) (filter (reported track) ms)"
    and "room_for (18 * length ms) (active_tab T)"
  shows "guest_input (active_tab (foldl (on_mouse w amb) T ms)) = guest_input (active_tab T)
    @ concat (map (\<lambda>m. encode_mouse_sgr m (m_x m) (m_y m)) (map on_grid (filter (reported track) ms)))"
  using assms(1,2,4-6)
proof (induction ms arbitrary: T)
  case (Cons m ms)
  let ?e = "encode_mouse_sgr (on_grid m) (m_x (on_grid m)) (m_y (on_grid m))"
  have step: "on_mouse w amb T m = (if reported track m then to_guest T ?e else T)"
    using on_mouse_reports[OF Cons.prems(1), of m w amb] Cons.prems(2,3) assms(3) by simp
  show ?case
  proof (cases "reported track m")
    case True
    then have "length ?e \<le> 18" using report_length[of "on_grid m"] Cons.prems(4) by simp
    then have r: "room_for (length ?e + 18 * length ms) (active_tab T)" using room_mono[OF Cons.prems(5)] by simp
    note w = to_guest_active[OF Cons.prems(1) r]
    show ?thesis using Cons.IH[OF w(1)] w(2,3,6) Cons.prems(2-4) True by (simp add: step)
  next
    case False
    have "room_for (18 * length ms) (active_tab T)" using room_mono[OF Cons.prems(5)] by simp
    then show ?thesis using Cons.IH[OF Cons.prems(1)] Cons.prems(2-4) False by (simp add: step)
  qed
qed simp

text \<open>
  C26.  The guest hears the mouse as it moved on its own grid: while the active tab is alive,
  nothing is being typed in the bar and its guest asked for the mouse, the bytes \<open>on_mouse\<close>
  writes for a sequence of events are such that a reader of SGR reports, the parser of this
  same program (the code writes that form whether or not the guest set mode 1006), gets exactly the events on the grid, in order: action, button, modifiers and
  column unchanged, the row counted from under the bar; motion only if the guest asked for
  more than clicks, and nothing of what happens over the bar.  Presses on the bar, which go to
  its tabs, are left out; the reported events are in columns and rows from 0 to 65534 of the
  grid, with a button and modifiers that a report can carry (a drag held out of the window, to
  its left, is not: its negative column is written as it is); and the line discipline of the
  guest has room for the reports, 18 bytes each at most.
\<close>

theorem mouse_reaches_guest:
  assumes "at_rest T" and "tracking (tb_modes (active_tab T)) = track" and "track \<noteq> TrackNone"
    and "list_all (\<lambda>m. m_y m < kBarRows \<longrightarrow> m_action m \<noteq> Press) ms"
    and "list_all (\<lambda>m. reportable (on_grid m)) (filter (reported track) ms)"
    and "room_for (18 * length ms) (active_tab T)"
    and "\<not> ip_in_paste p" and "ip_buf p = []"
  shows "\<exists>bs. guest_input (active_tab (foldl (on_mouse w amb) T ms)) = guest_input (active_tab T) @ bs
    \<and> ip_ready (input_feed p bs) = ip_ready p @ map EvMouse (map on_grid (filter (reported track) ms))
    \<and> ip_buf (input_feed p bs) = []"
proof -
  let ?ms = "map on_grid (filter (reported track) ms)"
  let ?bs = "concat (map (\<lambda>m. encode_mouse_sgr m (m_x m) (m_y m)) ?ms)"
  have "list_all reportable ?ms" using assms(5) by (simp add: list_all_iff)
  then have "list_all2 reads (map (\<lambda>m. encode_mouse_sgr m (m_x m) (m_y m)) ?ms) (map EvMouse ?ms)"
    using reads_mouse by (auto simp: list_all2_conv_all_nth list_all_length)
  from feed_reads[OF this assms(7)] assms(8)
  have "ip_ready (input_feed p ?bs) = ip_ready p @ map EvMouse ?ms \<and> ip_buf (input_feed p ?bs) = []"
    by (simp add: input_feed_def)
  with on_mouse_sequence[OF assms(1-6), of w amb] show ?thesis by blast
qed

theorem mouse_reaches_guest_witness:
  "\<exists>bs. guest_input (active_tab (foldl (on_mouse \<lparr>os_login_shell = [], os_spawn = Inr (5, 77), os_token = 3, os_wait = (\<lambda>_. StillRunning)\<rparr> False)
      ((terminal_init [])\<lparr>tm_tabs := [tab_init\<lparr>tb_modes := modes_init\<lparr>mouse_click := True\<rparr>\<rparr>]\<rparr>)
      [\<lparr>m_action = Press, m_button = 2, m_x = 10, m_y = 4, m_mods = 5\<rparr>,
       \<lparr>m_action = Motion, m_button = 2, m_x = 11, m_y = 4, m_mods = 5\<rparr>,
       \<lparr>m_action = Release, m_button = 2, m_x = 11, m_y = 4, m_mods = 5\<rparr>])) = bs
    \<and> ip_ready (input_feed input_init bs) = [EvMouse \<lparr>m_action = Press, m_button = 2, m_x = 10, m_y = 3, m_mods = 5\<rparr>,
        EvMouse \<lparr>m_action = Release, m_button = 2, m_x = 11, m_y = 3, m_mods = 5\<rparr>]"
  using mouse_reaches_guest[of "(terminal_init [])\<lparr>tm_tabs := [tab_init\<lparr>tb_modes := modes_init\<lparr>mouse_click := True\<rparr>\<rparr>]\<rparr>" TrackClick
      "[\<lparr>m_action = Press, m_button = 2, m_x = 10, m_y = 4, m_mods = 5\<rparr>,
       \<lparr>m_action = Motion, m_button = 2, m_x = 11, m_y = 4, m_mods = 5\<rparr>,
       \<lparr>m_action = Release, m_button = 2, m_x = 11, m_y = 4, m_mods = 5\<rparr>]" input_init]
  by (simp add: at_rest_def terminal_init_def active_tab_def tab_at_def tab_init_def pty_init_def tracking_def modes_init_def
      reportable_def reported_def on_grid_def kBarRows_def room_for_def guest_input_def input_init_def)

end
