(* ===== verification/Surface.thy ===== *)
theory Surface
  imports Width Cell Pairs
begin

text \<open>
  \<open>src/render/surface.cpp\<close>: the grid of cells everything is painted on, and the views,
  clipped and translated rectangles of it, that applications receive.  A view is its
  clip; its operations take the surface and return it.  The width policy of ambiguous
  characters (\<open>amb\<close>) is an argument, as in the theory of widths.
\<close>

section \<open>Surfaces\<close>

record surface =
  sf_w :: int
  sf_h :: int
  sf_cells :: "cell list"

definition surface_resize :: "surface \<Rightarrow> int \<Rightarrow> int \<Rightarrow> surface" where
  "surface_resize s w h = \<lparr>sf_w = max 0 w, sf_h = max 0 h,
     sf_cells = replicate (nat (max 0 w) * nat (max 0 h)) cell_init\<rparr>"

definition surface_new :: "int \<Rightarrow> int \<Rightarrow> surface" where
  "surface_new w h = surface_resize \<lparr>sf_w = 0, sf_h = 0, sf_cells = []\<rparr> w h"

definition styled :: "style \<Rightarrow> cell" where
  "styled st = cell_init\<lparr>c_fg := st_fg st, c_bg := st_bg st, c_attrs := st_attrs st\<rparr>"

definition surface_clear :: "surface \<Rightarrow> style \<Rightarrow> surface" where
  "surface_clear s st = s\<lparr>sf_cells := replicate (length (sf_cells s)) (styled st)\<rparr>"

text \<open>\<open>at(x, y)\<close>, for reading and for writing; the sources only call it inside the grid.\<close>

definition surf_at :: "surface \<Rightarrow> int \<Rightarrow> int \<Rightarrow> cell" where
  "surf_at s x y = sf_cells s ! (nat y * nat (sf_w s) + nat x)"

definition surf_set :: "surface \<Rightarrow> int \<Rightarrow> int \<Rightarrow> cell \<Rightarrow> surface" where
  "surf_set s x y c = s\<lparr>sf_cells := (sf_cells s)[nat y * nat (sf_w s) + nat x := c]\<rparr>"

definition surface_root :: "surface \<Rightarrow> rect" where
  "surface_root s = mk_rect 0 0 (sf_w s) (sf_h s)"

definition text_row :: "surface \<Rightarrow> int \<Rightarrow> bytes" where
  "text_row s y =
     (if y < 0 \<or> y \<ge> sf_h s then []
      else concat (map (\<lambda>x. if c_width (surf_at s x y) = 0 then [] else encode_utf8 (c_ch (surf_at s x y)))
        [0..sf_w s - 1]))"

section \<open>Views\<close>

definition view_map :: "surface \<Rightarrow> rect \<Rightarrow> int \<Rightarrow> int \<Rightarrow> (int \<times> int) option" where
  "view_map s clip x y =
     (if x < 0 \<or> y < 0 \<or> x \<ge> rw clip \<or> y \<ge> rh clip then None
      else let ox = rx clip + x; oy = ry clip + y
        in if ox \<ge> 0 \<and> oy \<ge> 0 \<and> ox < sf_w s \<and> oy < sf_h s then Some (ox, oy) else None)"

definition cleanup_orphan :: "surface \<Rightarrow> int \<Rightarrow> int \<Rightarrow> surface" where
  "cleanup_orphan s ox oy =
     (let s1 = (if ox > 0 \<and> c_width (surf_at s (ox - 1) oy) = 2 then surf_set s (ox - 1) oy cell_init else s)
      in if ox + 1 < sf_w s1 \<and> c_width (surf_at s1 (ox + 1) oy) = 0 then surf_set s1 (ox + 1) oy cell_init else s1)"

definition glyph_cell :: "char32 \<Rightarrow> style \<Rightarrow> int \<Rightarrow> cell" where
  "glyph_cell ch st cw = \<lparr>c_ch = ch, c_fg = st_fg st, c_bg = st_bg st, c_attrs = st_attrs st, c_width = nat cw\<rparr>"

definition view_put :: "bool \<Rightarrow> rect \<Rightarrow> surface \<Rightarrow> int \<Rightarrow> int \<Rightarrow> char32 \<Rightarrow> style \<Rightarrow> surface" where
  "view_put amb clip s x y ch st =
     (case view_map s clip x y of
        None \<Rightarrow> s
      | Some (ox, oy) \<Rightarrow>
          let cw = char_width amb ch in
          if cw = 0 then s
          else if cw = 2 \<and> (x + 1 \<ge> rw clip \<or> ox + 1 \<ge> sf_w s) then s
          else
            let s1 = cleanup_orphan s ox oy;
                s2 = (if cw = 2 then cleanup_orphan s1 (ox + 1) oy else s1);
                s3 = surf_set s2 ox oy (glyph_cell ch st cw)
            in if cw = 2 then surf_set s3 (ox + 1) oy (kContinuation\<lparr>c_bg := st_bg st\<rparr>) else s3)"

text \<open>The loop of \<open>text\<close> over the bytes, from position \<open>i\<close> and column \<open>col\<close>.\<close>

function view_text_loop :: "bool \<Rightarrow> rect \<Rightarrow> surface \<Rightarrow> int \<Rightarrow> int \<Rightarrow> bytes \<Rightarrow> style \<Rightarrow> nat \<Rightarrow> surface \<times> int" where
  "view_text_loop amb clip s col y u st i =
     (if i < length u then
        let d = utf8_decode u i; cw = char_width amb (fst d) in
        if cw = 0 then view_text_loop amb clip s col y u st (i + snd d)
        else if col + cw > rw clip then (s, col)
        else view_text_loop amb clip (view_put amb clip s col y (fst d) st) (col + cw) y u st (i + snd d)
      else (s, col))"
  by pat_completeness auto
termination
  using utf8_decode_progress
  by (relation "measure (\<lambda>(amb, clip, s, col, y, u, st, i). length u - i)") (auto simp: less_diff_conv2 Suc_le_eq)

declare view_text_loop.simps [simp del]

definition view_text :: "bool \<Rightarrow> rect \<Rightarrow> surface \<Rightarrow> int \<Rightarrow> int \<Rightarrow> bytes \<Rightarrow> style \<Rightarrow> surface \<times> int" where
  "view_text amb clip s x y u st = (let (s', col) = view_text_loop amb clip s x y u st 0 in (s', col - x))"

definition fill_cell :: "rect \<Rightarrow> style \<Rightarrow> surface \<Rightarrow> int \<Rightarrow> int \<Rightarrow> surface" where
  "fill_cell clip st s x y =
     (case view_map s clip x y of
        None \<Rightarrow> s
      | Some (ox, oy) \<Rightarrow> surf_set (cleanup_orphan s ox oy) ox oy (styled st))"

definition view_fill :: "rect \<Rightarrow> surface \<Rightarrow> rect \<Rightarrow> style \<Rightarrow> surface" where
  "view_fill clip s r st =
     (let x0 = max 0 (rx r); y0 = max 0 (ry r);
          x1 = min (rw clip) (rx r + rw r); y1 = min (rh clip) (ry r + rh r)
      in foldl (\<lambda>s y. foldl (\<lambda>s x. fill_cell clip st s x y) s [x0..x1 - 1]) s [y0..y1 - 1])"

text \<open>\<open>box\<close> as the list of its \<open>put\<close> calls, in order.\<close>

definition box_puts :: "rect \<Rightarrow> border \<Rightarrow> (int \<times> int \<times> char32) list" where
  "box_puts r b =
     (let uni = (b = BorderUnicode);
          hor = (if uni then 0x2500 else 0x2D); ver = (if uni then 0x2502 else 0x7C)
      in if rw r \<le> 0 \<or> rh r \<le> 0 then []
         else if rh r = 1 then map (\<lambda>x. (rx r + x, ry r, hor)) [0..rw r - 1]
         else if rw r = 1 then map (\<lambda>y. (rx r, ry r + y, ver)) [0..rh r - 1]
         else
           concat (map (\<lambda>x. [(rx r + x, ry r, hor), (rx r + x, ry r + rh r - 1, hor)]) [1..rw r - 2])
           @ concat (map (\<lambda>y. [(rx r, ry r + y, ver), (rx r + rw r - 1, ry r + y, ver)]) [1..rh r - 2])
           @ [(rx r, ry r, if uni then 0x250C else 0x2B),
              (rx r + rw r - 1, ry r, if uni then 0x2510 else 0x2B),
              (rx r, ry r + rh r - 1, if uni then 0x2514 else 0x2B),
              (rx r + rw r - 1, ry r + rh r - 1, if uni then 0x2518 else 0x2B)])"

definition view_box :: "bool \<Rightarrow> rect \<Rightarrow> surface \<Rightarrow> rect \<Rightarrow> border \<Rightarrow> style \<Rightarrow> surface" where
  "view_box amb clip s r b st = foldl (\<lambda>s (x, y, ch). view_put amb clip s x y ch st) s (box_puts r b)"

definition view_sub :: "rect \<Rightarrow> rect \<Rightarrow> rect" where
  "view_sub clip r =
     (let x0 = rx clip + max 0 (rx r); y0 = ry clip + max 0 (ry r);
          x1 = min (rx clip + rw clip) (rx clip + rx r + rw r);
          y1 = min (ry clip + rh clip) (ry clip + ry r + rh r)
      in mk_rect x0 y0 (max 0 (x1 - x0)) (max 0 (y1 - y0)))"

section \<open>The grid of a surface\<close>

definition surf_ok :: "surface \<Rightarrow> bool" where
  "surf_ok s \<longleftrightarrow> 0 \<le> sf_w s \<and> 0 \<le> sf_h s \<and> length (sf_cells s) = nat (sf_w s) * nat (sf_h s)"

definition on_surf :: "surface \<Rightarrow> int \<Rightarrow> int \<Rightarrow> bool" where
  "on_surf s x y \<longleftrightarrow> 0 \<le> x \<and> x < sf_w s \<and> 0 \<le> y \<and> y < sf_h s"

lemma surf_set_sel [simp]: "sf_w (surf_set s x y c) = sf_w s" "sf_h (surf_set s x y c) = sf_h s"
  "surf_ok (surf_set s x y c) = surf_ok s" "on_surf (surf_set s x y c) = on_surf s"
  by (simp_all add: surf_set_def surf_ok_def on_surf_def fun_eq_iff)

lemma cell_pos_less:
  fixes w :: nat
  assumes "x < w" "y < h"
  shows "y * w + x < w * h"
proof -
  have "y * w + x < Suc y * w" using assms by simp
  also have "\<dots> \<le> h * w" using assms by (intro mult_le_mono1) simp
  finally show ?thesis by (simp add: mult.commute)
qed

lemma cell_pos_inj: "x < w \<Longrightarrow> x' < w \<Longrightarrow> y * w + x = y' * w + x' \<longleftrightarrow> y = y' \<and> x = (x' :: nat)"
  by (metis add.commute div_mult_self1 div_less add.right_neutral mod_mult_self1 mod_less mult_is_0 not_less_zero add_left_cancel)

lemma surf_at_set:
  assumes "surf_ok s" "on_surf s x y" "on_surf s x' y'"
  shows "surf_at (surf_set s x y c) x' y' = (if x' = x \<and> y' = y then c else surf_at s x' y')"
proof -
  let ?w = "nat (sf_w s)"
  have b: "nat x < ?w" "nat x' < ?w" "nat y < nat (sf_h s)" using assms by (simp_all add: on_surf_def)
  have "nat y * ?w + nat x < length (sf_cells s)" using cell_pos_less[OF b(1,3)] assms(1) by (simp add: surf_ok_def)
  moreover have "nat y * ?w + nat x = nat y' * ?w + nat x' \<longleftrightarrow> y = y' \<and> x = x'"
    using cell_pos_inj[OF b(1,2)] assms by (auto simp: on_surf_def)
  ultimately show ?thesis by (auto simp: surf_at_def surf_set_def nth_list_update)
qed

end
