(* ===== verification/Surface_Inv.thy ===== *)
theory Surface_Inv
  imports Surface
begin

text \<open>
  What painting through a view can do to a surface.  \<open>paired\<close> is the rule the frame
  difference relies on: no half of a wide character without the other.  \<open>painted\<close> is what
  a view promises to the rest of the screen; \<open>draws\<close> is everything an application can do
  with the view it is given.
\<close>

section \<open>Writing one cell\<close>

definition row_widths :: "surface \<Rightarrow> int \<Rightarrow> int \<Rightarrow> nat" where
  "row_widths s y x = c_width (surf_at s x y)"

definition paired :: "surface \<Rightarrow> bool" where
  "paired s \<longleftrightarrow> (\<forall>y. 0 \<le> y \<and> y < sf_h s \<longrightarrow> pairs (sf_w s) (row_widths s y))"

text \<open>The cells beside a clip, which hold the other half of a wide character cut by its edge.\<close>

definition beside :: "rect \<Rightarrow> int \<Rightarrow> int \<Rightarrow> bool" where
  "beside r x y \<longleftrightarrow> 0 < rw r \<and> ry r \<le> y \<and> y < ry r + rh r \<and> (x = rx r - 1 \<or> x = rx r + rw r)"

definition painted :: "rect \<Rightarrow> surface \<Rightarrow> surface \<Rightarrow> bool" where
  "painted clip s s' \<longleftrightarrow> sf_w s' = sf_w s \<and> sf_h s' = sf_h s \<and> (surf_ok s \<longrightarrow> surf_ok s'
     \<and> (\<forall>x y. on_surf s x y \<and> \<not> contains clip x y \<longrightarrow>
          surf_at s' x y = surf_at s x y
          \<or> beside clip x y \<and> c_width (surf_at s x y) \<noteq> 1 \<and> surf_at s' x y = cell_init))"

lemma painted_refl [simp]: "painted clip s s"
  by (simp add: painted_def)

lemma painted_trans [trans]:
  assumes "painted clip a b" "painted clip b c"
  shows "painted clip a c"
  using assms by (fastforce simp: painted_def on_surf_def cell_init_def)

text \<open>The cell written and the two halves it may orphan.\<close>

lemma cleanup_orphan_sel [simp]: "sf_w (cleanup_orphan s x y) = sf_w s" "sf_h (cleanup_orphan s x y) = sf_h s"
  "surf_ok (cleanup_orphan s x y) = surf_ok s" "on_surf (cleanup_orphan s x y) = on_surf s"
  by (simp_all add: cleanup_orphan_def Let_def)

lemma cleanup_orphan_at:
  assumes "surf_ok s" "on_surf s ox oy" "on_surf s x y"
  shows "surf_at (cleanup_orphan s ox oy) x y =
    (if y = oy \<and> (x = ox - 1 \<and> c_width (surf_at s x y) = 2 \<or> x = ox + 1 \<and> c_width (surf_at s x y) = 0)
     then cell_init else surf_at s x y)"
proof -
  define s1 where "s1 = (if ox > 0 \<and> c_width (surf_at s (ox - 1) oy) = 2 then surf_set s (ox - 1) oy cell_init else s)"
  have ok: "surf_ok s1" "on_surf s1 = on_surf s" "sf_w s1 = sf_w s" using assms(1) by (simp_all add: s1_def)
  have 1: "surf_at s1 x' y' = (if y' = oy \<and> x' = ox - 1 \<and> c_width (surf_at s x' y') = 2 then cell_init else surf_at s x' y')"
    if "on_surf s x' y'" for x' y'
    using assms(1,2) that surf_at_set[of s "ox - 1" oy x' y' cell_init] by (auto simp: s1_def on_surf_def)
  have "cleanup_orphan s ox oy = (if ox + 1 < sf_w s1 \<and> c_width (surf_at s1 (ox + 1) oy) = 0
      then surf_set s1 (ox + 1) oy cell_init else s1)"
    by (simp add: cleanup_orphan_def Let_def s1_def)
  moreover have "surf_at (surf_set s1 (ox + 1) oy cell_init) x y = (if x = ox + 1 \<and> y = oy then cell_init else surf_at s1 x y)"
    if "ox + 1 < sf_w s" using surf_at_set[OF ok(1), of "ox + 1" oy x y cell_init] assms(2,3) that ok(2)
    by (auto simp: on_surf_def fun_eq_iff)
  moreover have "surf_at s1 (ox + 1) oy = surf_at s (ox + 1) oy" if "ox + 1 < sf_w s"
    using 1[of "ox + 1" oy] assms(2) that by (auto simp: on_surf_def)
  ultimately show ?thesis using 1[OF assms(3)] assms(3) ok(3) by (auto simp: on_surf_def)
qed

lemma write1_at:
  assumes "surf_ok s" "on_surf s ox oy" "on_surf s x y"
  shows "surf_at (surf_set (cleanup_orphan s ox oy) ox oy c) x y =
    (if y = oy \<and> x = ox then c
     else if y = oy \<and> (x = ox - 1 \<and> c_width (surf_at s x y) = 2 \<or> x = ox + 1 \<and> c_width (surf_at s x y) = 0)
     then cell_init else surf_at s x y)"
  using assms surf_at_set[of "cleanup_orphan s ox oy" ox oy x y c] cleanup_orphan_at[OF assms] by auto

lemma write2_at:
  assumes "surf_ok s" "on_surf s ox oy" "on_surf s (ox + 1) oy" "on_surf s x y"
  shows "surf_at (surf_set (surf_set (cleanup_orphan (cleanup_orphan s ox oy) (ox + 1) oy) ox oy c) (ox + 1) oy d) x y =
    (if y = oy \<and> x = ox then c else if y = oy \<and> x = ox + 1 then d
     else if y = oy \<and> (x = ox - 1 \<and> c_width (surf_at s x y) = 2 \<or> x = ox + 2 \<and> c_width (surf_at s x y) = 0)
     then cell_init else surf_at s x y)"
proof -
  let ?s = "cleanup_orphan s ox oy" and ?t = "cleanup_orphan (cleanup_orphan s ox oy) (ox + 1) oy"
  have t: "surf_at ?t x y = (if y = oy \<and> (x = ox \<and> c_width (surf_at ?s x y) = 2 \<or> x = ox + 2 \<and> c_width (surf_at ?s x y) = 0)
      then cell_init else surf_at ?s x y)"
    using cleanup_orphan_at[of ?s "ox + 1" oy x y] assms by (simp add: add.commute)
  have f: "surf_at (surf_set (surf_set ?t ox oy c) (ox + 1) oy d) x y =
      (if x = ox + 1 \<and> y = oy then d else if x = ox \<and> y = oy then c else surf_at ?t x y)"
    using surf_at_set[of "surf_set ?t ox oy c" "ox + 1" oy x y d] surf_at_set[of ?t ox oy x y c] assms
    by (simp only: surf_set_sel cleanup_orphan_sel split: if_split)
  note u = cleanup_orphan_at[OF assms(1,2,4)]
  consider "y \<noteq> oy" | "y = oy" "x = ox \<or> x = ox + 1" | "y = oy" "x = ox + 2" | "y = oy" "x \<noteq> ox" "x \<noteq> ox + 1" "x \<noteq> ox + 2"
    by blast
  then show ?thesis unfolding f t u by cases (auto simp: cell_init_def)
qed

lemma on_surfI: "view_map s clip x y = Some (ox, oy) \<Longrightarrow> on_surf s ox oy \<and> contains clip ox oy
    \<and> ox = rx clip + x \<and> oy = ry clip + y \<and> 0 \<le> x \<and> x < rw clip \<and> 0 \<le> y \<and> y < rh clip"
  by (auto simp: view_map_def Let_def on_surf_def contains_def split: if_splits)

text \<open>Both ways of writing keep the promises of a view.\<close>

lemma write1_painted:
  assumes "on_surf s ox oy" "contains clip ox oy"
  shows "painted clip s (surf_set (cleanup_orphan s ox oy) ox oy c)"
proof -
  have "surf_at (surf_set (cleanup_orphan s ox oy) ox oy c) x y = surf_at s x y
      \<or> beside clip x y \<and> c_width (surf_at s x y) \<noteq> 1 \<and> surf_at (surf_set (cleanup_orphan s ox oy) ox oy c) x y = cell_init"
    if "surf_ok s" "on_surf s x y" "\<not> contains clip x y" for x y
    using write1_at[OF that(1) assms(1) that(2), of c] that(3) assms(2) by (auto simp: contains_def beside_def)
  then show ?thesis by (simp add: painted_def)
qed

lemma write2_painted:
  assumes "on_surf s ox oy" "on_surf s (ox + 1) oy" "contains clip ox oy" "contains clip (ox + 1) oy"
  shows "painted clip s (surf_set (surf_set (cleanup_orphan (cleanup_orphan s ox oy) (ox + 1) oy) ox oy c) (ox + 1) oy d)"
proof -
  let ?s = "surf_set (surf_set (cleanup_orphan (cleanup_orphan s ox oy) (ox + 1) oy) ox oy c) (ox + 1) oy d"
  have "surf_at ?s x y = surf_at s x y
      \<or> beside clip x y \<and> c_width (surf_at s x y) \<noteq> 1 \<and> surf_at ?s x y = cell_init"
    if "surf_ok s" "on_surf s x y" "\<not> contains clip x y" for x y
    using write2_at[OF that(1) assms(1,2) that(2), of c d] that(3) assms(3,4) by (auto simp: contains_def beside_def)
  then show ?thesis by (simp add: painted_def)
qed

lemma paired_rowI:
  assumes "paired s" "sf_w s' = sf_w s" "sf_h s' = sf_h s"
    and "\<And>x y. on_surf s x y \<Longrightarrow> y \<noteq> oy \<Longrightarrow> surf_at s' x y = surf_at s x y"
    and "pairs (sf_w s) f" "\<And>x. on_surf s x oy \<Longrightarrow> row_widths s' oy x = f x"
  shows "paired s'"
proof -
  have "pairs (sf_w s) (row_widths s' y)" if y: "0 \<le> y" "y < sf_h s" for y
  proof (cases "y = oy")
    case True
    then have "pairs (sf_w s) (row_widths s' y) = pairs (sf_w s) f"
      using assms(6) y by (intro pairs_cong) (simp add: on_surf_def)
    then show ?thesis using assms(5) by simp
  next
    case False
    then have "pairs (sf_w s) (row_widths s' y) = pairs (sf_w s) (row_widths s y)"
      using assms(4) y by (intro pairs_cong) (simp add: on_surf_def row_widths_def)
    then show ?thesis using assms(1) y by (simp add: paired_def)
  qed
  then show ?thesis by (simp add: paired_def assms(2,3))
qed

lemma write1_paired:
  assumes "surf_ok s" "paired s" "on_surf s ox oy" "c_width c = 1"
  shows "paired (surf_set (cleanup_orphan s ox oy) ox oy c)"
proof (rule paired_rowI[OF assms(2), where oy = oy])
  let ?f = "row_widths s oy"
  show "pairs (sf_w s) (\<lambda>x. if x = ox then 1 else if x = ox - 1 \<and> ?f x = 2 \<or> x = ox + 1 \<and> ?f x = 0 then 1 else ?f x)"
    using assms by (intro pairs_write1) (auto simp: paired_def on_surf_def)
qed (use write1_at[OF assms(1,3)] assms(4) in \<open>auto simp: row_widths_def cell_init_def\<close>)

lemma write2_paired:
  assumes "surf_ok s" "paired s" "on_surf s ox oy" "on_surf s (ox + 1) oy" "c_width c = 2" "c_width d = 0"
  shows "paired (surf_set (surf_set (cleanup_orphan (cleanup_orphan s ox oy) (ox + 1) oy) ox oy c) (ox + 1) oy d)"
proof (rule paired_rowI[OF assms(2), where oy = oy])
  let ?f = "row_widths s oy"
  show "pairs (sf_w s) (\<lambda>x. if x = ox then 2 else if x = ox + 1 then 0
      else if x = ox - 1 \<and> ?f x = 2 \<or> x = ox + 2 \<and> ?f x = 0 then 1 else ?f x)"
    using assms by (intro pairs_write2) (auto simp: paired_def on_surf_def)
qed (use write2_at[OF assms(1,3,4)] assms(5,6) in \<open>auto simp: row_widths_def cell_init_def\<close>)

section \<open>The operations of a view\<close>

text \<open>\<open>good_paint\<close>: confined to the clip, and keeps the halves together.\<close>

definition good_paint :: "rect \<Rightarrow> surface \<Rightarrow> surface \<Rightarrow> bool" where
  "good_paint clip s s' \<longleftrightarrow> painted clip s s' \<and> (surf_ok s \<longrightarrow> paired s \<longrightarrow> paired s')"

lemma good_paint_refl [simp]: "good_paint clip s s"
  by (simp add: good_paint_def)

lemma good_paint_trans [trans]: "good_paint clip a b \<Longrightarrow> good_paint clip b c \<Longrightarrow> good_paint clip a c"
proof -
  assume a: "good_paint clip a b" "good_paint clip b c"
  have "painted clip a c" using painted_trans a unfolding good_paint_def by blast
  moreover have "surf_ok a \<longrightarrow> surf_ok b" using a(1) unfolding good_paint_def painted_def by blast
  ultimately show ?thesis using a unfolding good_paint_def by blast
qed

lemma good_paint_foldl: "(\<And>s x. good_paint clip s (f s x)) \<Longrightarrow> good_paint clip s (foldl f s xs)"
  by (induction xs arbitrary: s) (auto intro: good_paint_trans)

lemma view_put_good: "good_paint clip s (view_put amb clip s x y ch st)"
proof (cases "view_map s clip x y")
  case (Some p)
  obtain ox oy where p: "p = (ox, oy)" by (cases p)
  note m = on_surfI[OF Some[unfolded p]]
  have w: "char_width amb ch \<in> {0, 1, 2}" by (rule char_width_range)
  show ?thesis
  proof (cases "char_width amb ch = 2")
    case True
    have "good_paint clip s (surf_set (surf_set (cleanup_orphan (cleanup_orphan s ox oy) (ox + 1) oy) ox oy c) (ox + 1) oy d)"
      if "c_width c = 2" "c_width d = 0" "x + 1 < rw clip" "ox + 1 < sf_w s" for c d
      using m that write2_painted[of s ox oy clip c d] write2_paired[of s ox oy c d]
      by (auto simp: good_paint_def on_surf_def contains_def)
    then show ?thesis using True
      by (auto simp: view_put_def Some p Let_def glyph_cell_def kContinuation_def)
  next
    case False
    have "good_paint clip s (surf_set (cleanup_orphan s ox oy) ox oy c)" if "c_width c = 1" for c
      using m that write1_painted[of s ox oy clip c] write1_paired[of s ox oy c] by (auto simp: good_paint_def)
    then show ?thesis using False w by (auto simp: view_put_def Some p Let_def glyph_cell_def)
  qed
qed (simp add: view_put_def)

lemma view_text_good: "good_paint clip s (fst (view_text amb clip s x y u st))"
proof -
  have "good_paint clip s (fst (view_text_loop amb clip s col y u st i))" for col i
  proof (induction amb clip s col y u st i rule: view_text_loop.induct)
    case (1 amb clip s col y u st i)
    show ?case
      using 1 view_put_good[of clip s amb col y "fst (utf8_decode u i)" st]
      by (subst view_text_loop.simps) (auto simp: Let_def prod_eq_iff intro: good_paint_trans)
  qed
  then show ?thesis by (simp add: view_text_def split: prod.splits) (metis fst_conv)
qed

lemma fill_cell_good: "good_paint clip s (fill_cell clip st s x y)"
proof (cases "view_map s clip x y")
  case (Some p)
  obtain ox oy where p: "p = (ox, oy)" by (cases p)
  note m = on_surfI[OF Some[unfolded p]]
  have "c_width (styled st) = 1" by (simp add: styled_def cell_init_def)
  then show ?thesis using m write1_painted[of s ox oy clip "styled st"] write1_paired[of s ox oy "styled st"]
    by (auto simp: fill_cell_def Some p good_paint_def)
qed (simp add: fill_cell_def)

lemma view_fill_good: "good_paint clip s (view_fill clip s r st)"
  unfolding view_fill_def Let_def by (intro good_paint_foldl fill_cell_good)

lemma view_box_good: "good_paint clip s (view_box amb clip s r b st)"
  unfolding view_box_def by (rule good_paint_foldl) (auto simp: view_put_good split: prod.splits)

text \<open>A part of a view is a view of the same promises.\<close>

lemma view_sub_within:
  assumes "0 < rw (view_sub clip r)" "0 < rh (view_sub clip r)"
  shows "rx clip \<le> rx (view_sub clip r)" "rx (view_sub clip r) + rw (view_sub clip r) \<le> rx clip + rw clip"
    "ry clip \<le> ry (view_sub clip r)" "ry (view_sub clip r) + rh (view_sub clip r) \<le> ry clip + rh clip"
  using assms by (simp_all add: view_sub_def Let_def max_def min_def split: if_splits)

lemma good_paint_sub:
  assumes "good_paint (view_sub clip r) s s'"
  shows "good_paint clip s s'"
proof -
  let ?c = "view_sub clip r"
  have sub: "contains ?c x y \<Longrightarrow> contains clip x y" for x y
    using view_sub_within[of clip r] by (auto simp: contains_def)
  have side: "beside ?c x y \<Longrightarrow> \<not> contains clip x y \<Longrightarrow> beside clip x y" for x y
    using view_sub_within[of clip r] by (auto simp: contains_def beside_def)
  show ?thesis using assms sub side unfolding good_paint_def painted_def by metis
qed

section \<open>What an application can do\<close>

inductive draws :: "bool \<Rightarrow> rect \<Rightarrow> surface \<Rightarrow> surface \<Rightarrow> bool" for amb :: bool where
  d_none: "draws amb clip s s"
| d_put: "draws amb clip s (view_put amb clip s x y ch st)"
| d_text: "draws amb clip s (fst (view_text amb clip s x y u st))"
| d_fill: "draws amb clip s (view_fill clip s r st)"
| d_box: "draws amb clip s (view_box amb clip s r b st)"
| d_sub: "draws amb (view_sub clip r) s s' \<Longrightarrow> draws amb clip s s'"
| d_then: "draws amb clip s s' \<Longrightarrow> draws amb clip s' s'' \<Longrightarrow> draws amb clip s s''"

lemma draws_good: "draws amb clip s s' \<Longrightarrow> good_paint clip s s'"
  by (induction rule: draws.induct)
    (auto intro: good_paint_trans good_paint_sub simp: view_put_good view_text_good view_fill_good view_box_good)

lemma draws_foldl: "(\<And>s x. draws amb clip s (f s x)) \<Longrightarrow> draws amb clip s (foldl f s xs)"
  by (induction xs arbitrary: s) (auto intro: d_none d_then)

text \<open>One more operation after others: a painting routine is read off its source line by line.\<close>

lemma draws_put_after: "draws amb clip s t \<Longrightarrow> draws amb clip s (view_put amb clip t x y ch st)"
  and draws_text_after: "draws amb clip s t \<Longrightarrow> draws amb clip s (fst (view_text amb clip t x y u st))"
  and draws_fill_after: "draws amb clip s t \<Longrightarrow> draws amb clip s (view_fill clip t r st)"
  and draws_box_after: "draws amb clip s t \<Longrightarrow> draws amb clip s (view_box amb clip t r b st)"
  by (erule d_then, rule draws.intros)+

lemma draws_sub_text_after: "draws amb clip s t \<Longrightarrow> draws amb clip s (fst (view_text amb (view_sub clip r) t x y u st))"
  by (erule d_then) (rule d_sub, rule d_text)

lemma draws_foldl_after:
  "draws amb clip s t \<Longrightarrow> (\<And>s x. draws amb clip s (f s x)) \<Longrightarrow> draws amb clip s (foldl f t xs)"
  by (erule d_then) (rule draws_foldl)

lemma draws_if: "draws amb clip s a \<Longrightarrow> draws amb clip s b \<Longrightarrow> draws amb clip s (if c then a else b)"
  by simp

lemmas draws_after = d_none draws_if draws_put_after draws_text_after draws_fill_after draws_box_after
  draws_sub_text_after draws_foldl_after

text \<open>No operation writes a cell wider than two columns.\<close>

definition thin :: "surface \<Rightarrow> bool" where
  "thin s \<longleftrightarrow> (\<forall>c \<in> set (sf_cells s). c_width c \<le> 2)"

lemma thin_set: "thin s \<Longrightarrow> c_width c \<le> 2 \<Longrightarrow> thin (surf_set s x y c)"
  using set_update_subset_insert[of "sf_cells s"] by (fastforce simp: thin_def surf_set_def)

lemma thin_cleanup: "thin s \<Longrightarrow> thin (cleanup_orphan s x y)"
  by (auto simp: cleanup_orphan_def Let_def cell_init_def intro!: thin_set)

lemma thin_put: "thin s \<Longrightarrow> thin (view_put amb clip s x y ch st)"
proof -
  have w: "c_width (glyph_cell ch st (char_width amb ch)) \<le> 2"
    using char_width_range[of amb ch] by (auto simp: glyph_cell_def)
  show "thin s \<Longrightarrow> thin (view_put amb clip s x y ch st)"
    unfolding view_put_def Let_def
    by (auto simp: kContinuation_def glyph_cell_def intro!: thin_set thin_cleanup w[unfolded glyph_cell_def cell.simps] split: option.splits)
qed

lemma thin_foldl: "thin s \<Longrightarrow> (\<And>s x. thin s \<Longrightarrow> thin (f s x)) \<Longrightarrow> thin (foldl f s xs)"
  by (induction xs arbitrary: s) auto

lemma thin_text_loop: "thin s \<Longrightarrow> thin (fst (view_text_loop amb clip s col y u st i))"
proof (induction amb clip s col y u st i rule: view_text_loop.induct)
  case (1 amb clip s col y u st i)
  then show ?case by (subst view_text_loop.simps) (auto simp: Let_def prod_eq_iff thin_put)
qed

lemma thin_text: "thin s \<Longrightarrow> thin (fst (view_text amb clip s x y u st))"
  using thin_text_loop[of s amb clip x y u st 0] by (auto simp: view_text_def split: prod.splits)

lemma thin_fill: "thin s \<Longrightarrow> thin (view_fill clip s r st)"
  unfolding view_fill_def Let_def fill_cell_def
  by (intro thin_foldl) (auto simp: styled_def cell_init_def intro!: thin_set thin_cleanup split: option.splits)

lemma thin_box: "thin s \<Longrightarrow> thin (view_box amb clip s r b st)"
  unfolding view_box_def by (rule thin_foldl) (auto simp: thin_put split: prod.splits)

lemma draws_thin: "draws amb clip s s' \<Longrightarrow> thin s \<Longrightarrow> thin s'"
  by (induction rule: draws.induct) (auto simp: thin_put thin_text thin_fill thin_box)

lemma thin_at: "surf_ok s \<Longrightarrow> thin s \<Longrightarrow> on_surf s x y \<Longrightarrow> c_width (surf_at s x y) \<le> 2"
  using cell_pos_less[of "nat x" "nat (sf_w s)" "nat y" "nat (sf_h s)"]
  by (simp add: thin_def surf_at_def surf_ok_def on_surf_def)

lemma surface_new_ok: "surf_ok (surface_new w h)" "paired (surface_new w h)"
proof -
  show "surf_ok (surface_new w h)" by (simp add: surface_new_def surface_resize_def surf_ok_def)
  have "surf_at (surface_new w h) x y = cell_init" if "0 \<le> x" "x < sf_w (surface_new w h)" "0 \<le> y" "y < sf_h (surface_new w h)" for x y
    using that cell_pos_less[of "nat x" "nat w" "nat y" "nat h"]
    by (simp add: surf_at_def surface_new_def surface_resize_def max_def split: if_splits)
  then have "pairs (sf_w (surface_new w h)) (row_widths (surface_new w h) y) = pairs (sf_w (surface_new w h)) (\<lambda>_. 1)"
    if "0 \<le> y" "y < sf_h (surface_new w h)" for y
    using that by (intro pairs_cong) (simp add: row_widths_def cell_init_def)
  then show "paired (surface_new w h)" by (simp add: paired_def)
qed

lemma surface_new_size [simp]: "sf_w (surface_new w h) = max 0 w" "sf_h (surface_new w h) = max 0 h"
  by (simp_all add: surface_new_def surface_resize_def)

lemma surface_new_thin: "thin (surface_new w h)"
  by (simp add: thin_def surface_new_def surface_resize_def cell_init_def)

section \<open>Properties\<close>

text \<open>
  C17.  Views confine.  Whatever an application does with the view it is given, in any order and
  through any views it cuts out of it: the surface keeps its size, every wide character on it
  is whole, and no cell outside the view changes, but for the other half, just beside the
  view, of a wide character its edge cuts, which becomes a blank.
\<close>

theorem view_confined:
  assumes "draws amb clip s s'" and "surf_ok s" and "paired s"
  shows "surf_ok s' \<and> paired s' \<and> sf_w s' = sf_w s \<and> sf_h s' = sf_h s
    \<and> (\<forall>x y. on_surf s x y \<and> \<not> contains clip x y \<longrightarrow> surf_at s' x y = surf_at s x y
          \<or> beside clip x y \<and> c_width (surf_at s x y) \<noteq> 1 \<and> surf_at s' x y = cell_init)"
  using draws_good[OF assms(1)] assms(2,3) by (simp add: good_paint_def painted_def)

theorem view_confined_witness:
  "surf_at (view_put False (mk_rect 1 0 2 1) (surface_new 4 1) 0 0 0x4E2D style_init) 3 0 = cell_init"
proof -
  let ?s = "surface_new 4 1" and ?v = "mk_rect 1 0 2 1"
  have c: "\<not> contains ?v 3 0" "on_surf ?s 3 0" "surf_at ?s 3 0 = cell_init" by code_simp+
  have "draws False ?v ?s (view_put False ?v ?s 0 0 0x4E2D style_init)" by (rule d_put)
  from view_confined[OF this surface_new_ok] show ?thesis using c by metis
qed

end
