(* ===== verification/Terminal_Render.thy ===== *)
theory Terminal_Render
  imports Terminal_Bar Surface_Inv
begin

text \<open>
  \<open>draw_bar\<close> and \<open>render\<close> of \<open>src/apps/terminal.cpp\<close>: the window of a terminal, painted
  through the view it is given, its bar on the first row and below it the history and the
  screen of the active tab.
\<close>

section \<open>Painting\<close>

definition slot_style :: "terminal \<Rightarrow> slot \<Rightarrow> style" where
  "slot_style T s =
     (case sl_kind s of
        SlotNew \<Rightarrow> style_init\<lparr>st_fg := Indexed 2, st_attrs := attr_Bold\<rparr>
      | SlotClose \<Rightarrow> style_init\<lparr>st_fg := Indexed 1\<rparr>
      | SlotSettings \<Rightarrow> if tm_mode T = ModeEditingPath then style_init\<lparr>st_attrs := attr_Reverse\<rparr> else style_init
      | SlotSelect \<Rightarrow>
          if sl_tab s = tm_active T
          then style_init\<lparr>st_attrs := (if tm_mode T = ModeRenaming then attr_Reverse OR attr_Underline else attr_Reverse)\<rparr>
          else style_init\<lparr>st_attrs := attr_Dim\<rparr>)"

definition slot_filled :: "terminal \<Rightarrow> slot \<Rightarrow> bool" where
  "slot_filled T s \<longleftrightarrow> sl_kind s = SlotSettings \<and> tm_mode T = ModeEditingPath \<or> sl_kind s = SlotSelect \<and> sl_tab s = tm_active T"

definition draw_slot :: "bool \<Rightarrow> terminal \<Rightarrow> rect \<Rightarrow> surface \<Rightarrow> slot \<Rightarrow> surface" where
  "draw_slot amb T v s sl =
     (let st = slot_style T sl;
          s1 = (if slot_filled T sl then view_fill v s (mk_rect (sl_x sl) 0 (sl_w sl) kBarRows) st else s)
      in fst (view_text amb v s1 (sl_x sl) 0 (sl_text sl) st))"

definition draw_bar :: "bool \<Rightarrow> terminal \<Rightarrow> rect \<Rightarrow> surface \<Rightarrow> surface" where
  "draw_bar amb T v s = foldl (draw_slot amb T v) s (bar_slots amb T)"

text \<open>One row of cells: the second half of a wide character is drawn with the first.\<close>

definition render_cell :: "bool \<Rightarrow> rect \<Rightarrow> int \<Rightarrow> (int \<Rightarrow> scell) \<Rightarrow> surface \<Rightarrow> int \<Rightarrow> surface" where
  "render_cell amb v vy line s x =
     (if s_width (line x) = 0 then s else view_put amb v s x vy (s_ch (line x)) (s_style (line x)))"

definition render_row :: "bool \<Rightarrow> rect \<Rightarrow> surface \<Rightarrow> int \<Rightarrow> (int \<Rightarrow> scell) \<Rightarrow> int \<Rightarrow> surface" where
  "render_row amb v s vy line n = foldl (render_cell amb v vy line) s [0..min n (rw v) - 1]"

definition tab_back :: "term_tab \<Rightarrow> nat" where
  "tab_back t = (case sc_history (tb_screen t) of Some h \<Rightarrow> sb_offset h | None \<Rightarrow> 0)"

definition tab_line :: "term_tab \<Rightarrow> int \<Rightarrow> line" where
  "tab_line t y = (case sc_history (tb_screen t) of Some h \<Rightarrow> sb_at h (sb_size h - sb_offset h + nat y) | None \<Rightarrow> [])"

text \<open>The loop over the rows; \<open>break\<close> below the last row of the screen.\<close>

fun render_rows :: "bool \<Rightarrow> term_tab \<Rightarrow> rect \<Rightarrow> surface \<Rightarrow> int list \<Rightarrow> surface" where
  "render_rows amb t v s [] = s"
| "render_rows amb t v s (y # ys) =
     (if nat y < tab_back t then
        let line = tab_line t y
        in render_rows amb t v (render_row amb v s (kBarRows + y) (\<lambda>x. line ! nat x) (int (length line))) ys
      else
        let gy = y - int (tab_back t) in
        if gy \<ge> sc_rows (tb_screen t) then s
        else render_rows amb t v
               (render_row amb v s (kBarRows + y) (\<lambda>x. screen_at (tb_screen t) x gy) (sc_cols (tb_screen t))) ys)"

definition exit_message :: "pty \<Rightarrow> bytes" where
  "exit_message p =
     str ''[processus '' @
     (if py_signalled p then str ''tue par le signal '' @ to_string (py_code p)
      else str ''termine (code '' @ to_string (py_code p) @ str '')'') @
     str '' - Entree ou clic pour fermer]''"

definition term_render :: "bool \<Rightarrow> terminal \<Rightarrow> rect \<Rightarrow> surface \<Rightarrow> surface" where
  "term_render amb T v s =
     (let s1 = draw_bar amb T v s; t = active_tab T in
      if tb_spawn_error t \<noteq> []
      then fst (view_text amb v s1 0 kBarRows (tb_spawn_error t) (style_init\<lparr>st_fg := Indexed 1\<rparr>))
      else
        let s2 = render_rows amb t v s1 [0..rh v - kBarRows - 1] in
        if py_exited (tb_pty t)
        then fst (view_text amb v s2 0 (rh v - 1) (exit_message (tb_pty t)) (style_init\<lparr>st_attrs := attr_Reverse\<rparr>))
        else s2)"

section \<open>Nothing is painted outside the view\<close>

lemma draw_slot_draws: "draws amb v s (draw_slot amb T v s sl)"
  unfolding draw_slot_def Let_def by (intro draws_after)

lemma draw_bar_draws: "draws amb v s (draw_bar amb T v s)"
  unfolding draw_bar_def by (rule draws_foldl) (rule draw_slot_draws)

lemma render_cell_draws: "draws amb v s (render_cell amb v vy line s x)"
  unfolding render_cell_def by (intro draws_after)

lemma render_row_draws: "draws amb v s (render_row amb v s vy line n)"
  unfolding render_row_def by (rule draws_foldl) (rule render_cell_draws)

lemma render_rows_draws: "draws amb v s (render_rows amb t v s ys)"
  by (induction amb t v s ys rule: render_rows.induct) (auto simp: Let_def intro: d_none d_then[OF render_row_draws])

lemma term_render_draws: "draws amb v s (term_render amb T v s)"
  unfolding term_render_def Let_def
  by (intro draws_if draws_text_after d_then[OF draw_bar_draws render_rows_draws] draw_bar_draws)

section \<open>The screen of the guest is what the view shows\<close>

definition shown_cell :: "(int \<Rightarrow> scell) \<Rightarrow> int \<Rightarrow> cell" where
  "shown_cell line x =
     (if s_width (line x) = 0 then kContinuation\<lparr>c_bg := st_bg (s_style (line (x - 1)))\<rparr>
      else glyph_cell (s_ch (line x)) (s_style (line x)) (int (s_width (line x))))"

text \<open>A row that can be drawn: its halves are together and its widths are those of its characters.\<close>

definition drawable :: "bool \<Rightarrow> int \<Rightarrow> (int \<Rightarrow> scell) \<Rightarrow> bool" where
  "drawable amb n line \<longleftrightarrow> pairs n (\<lambda>x. s_width (line x))
     \<and> (\<forall>x \<in> {0..<n}. s_width (line x) \<noteq> 0 \<longrightarrow> char_width amb (s_ch (line x)) = int (s_width (line x)))"

text \<open>The row \<open>oy\<close> of \<open>t\<close>, painted up to column \<open>k\<close>, and the rest of \<open>s\<close>.\<close>

definition row_shown :: "rect \<Rightarrow> surface \<Rightarrow> int \<Rightarrow> (int \<Rightarrow> scell) \<Rightarrow> int \<Rightarrow> int \<Rightarrow> surface \<Rightarrow> bool" where
  "row_shown v s oy line n k t \<longleftrightarrow> surf_ok t \<and> sf_w t = sf_w s \<and> sf_h t = sf_h s
     \<and> (\<forall>x. 0 \<le> x \<and> x < n \<and> (x < k \<or> x = k \<and> s_width (line x) = 0) \<longrightarrow> surf_at t (rx v + x) oy = shown_cell line x)
     \<and> (\<forall>x y. on_surf s x y \<and> y \<noteq> oy \<longrightarrow> surf_at t x y = surf_at s x y)"

lemma shown_cell_width: "c_width (shown_cell line x) = s_width (line x)"
  by (simp add: shown_cell_def kContinuation_def glyph_cell_def)

lemma render_cell_shown:
  assumes dr: "drawable amb n line" and vy: "0 \<le> vy" "vy < rh v" and row: "0 \<le> ry v + vy" "ry v + vy < sf_h s"
    and cols: "0 \<le> rx v" "n \<le> rw v" "rx v + n \<le> sf_w s"
    and t: "row_shown v s (ry v + vy) line n k t" and k: "0 \<le> k" "k < n"
  shows "row_shown v s (ry v + vy) line n (k + 1) (render_cell amb v vy line t k)"
proof -
  let ?w = "\<lambda>x. s_width (line x)" and ?oy = "ry v + vy" and ?c = "glyph_cell (s_ch (line k)) (s_style (line k)) (int (s_width (line k)))"
  have p: "?w x = 2 \<longrightarrow> x + 1 < n \<and> ?w (x + 1) = 0" "?w x = 0 \<longrightarrow> 0 < x \<and> ?w (x - 1) = 2" if "0 \<le> x" "x < n" for x
    using dr that by (auto simp: drawable_def pairs_def)
  have cw: "?w k \<noteq> 0 \<Longrightarrow> char_width amb (s_ch (line k)) = int (?w k)" using dr k by (simp add: drawable_def)
  have on: "on_surf t x y \<longleftrightarrow> on_surf s x y" for x y using t by (simp add: row_shown_def on_surf_def)
  have ok: "surf_ok t" using t by (simp add: row_shown_def)
  have ons: "on_surf t (rx v + x) ?oy" if "0 \<le> x" "x < n" for x using that row cols by (simp only: on) (simp add: on_surf_def)
  have old: "surf_at t (rx v + x) ?oy = shown_cell line x" if "0 \<le> x" "x < k" for x
    using t that k by (simp add: row_shown_def)
  have vm: "view_map t v k vy = Some (rx v + k, ?oy)"
    using ons[OF k] vy k cols by (simp add: view_map_def Let_def on_surf_def)
  consider "?w k = 0" | "?w k = 1" | "?w k = 2" using cw char_width_range[of amb "s_ch (line k)"] by force
  then show ?thesis
  proof cases
    case 1
    moreover have "x \<noteq> k + 1" if "x < n" "?w x = 0" for x using p(2)[of x] that 1 k by auto
    ultimately show ?thesis using t unfolding row_shown_def render_cell_def by fastforce
  next
    case 2
    let ?t = "surf_set (cleanup_orphan t (rx v + k) ?oy) (rx v + k) ?oy ?c"
    have "render_cell amb v vy line t k = ?t" using 2 cw by (simp add: render_cell_def view_put_def vm Let_def)
    moreover note at = write1_at[OF ok ons[OF k], of _ _ ?c]
    have "surf_at ?t (rx v + x) ?oy = shown_cell line x" if x: "0 \<le> x" "x < n" "x < k + 1 \<or> x = k + 1 \<and> ?w x = 0" for x
    proof -
      have "x \<le> k" using x p(2)[of x] 2 by auto
      moreover have "?w x \<noteq> 2" if "x = k - 1" using p(1)[of x] x 2 that by auto
      ultimately show ?thesis using at[OF ons[OF x(1,2)]] old[of x] x(1) 2 shown_cell_width[of line x]
        by (cases "x = k") (auto simp: shown_cell_def)
    qed
    moreover have "surf_at ?t x y = surf_at s x y" if "on_surf s x y" "y \<noteq> ?oy" for x y
      using at[of x y] that t by (simp add: on row_shown_def)
    ultimately show ?thesis using t by (simp add: row_shown_def)
  next
    case 3
    let ?d = "kContinuation\<lparr>c_bg := st_bg (s_style (line k))\<rparr>"
    let ?t = "surf_set (surf_set (cleanup_orphan (cleanup_orphan t (rx v + k) ?oy) (rx v + k + 1) ?oy) (rx v + k) ?oy ?c) (rx v + k + 1) ?oy ?d"
    have k1: "k + 1 < n" "?w (k + 1) = 0" using p(1)[OF k] 3 by auto
    have "rx v + k + 1 < sf_w t" using k1(1) cols t by (simp add: row_shown_def)
    then have "render_cell amb v vy line t k = ?t" using 3 cw k1(1) cols(2) by (simp add: render_cell_def view_put_def vm Let_def)
    moreover have on1: "on_surf t (rx v + k + 1) ?oy" using ons[of "k + 1"] k k1 by (simp add: add.assoc)
    note at = write2_at[OF ok ons[OF k] on1, of _ _ ?c ?d]
    have "surf_at ?t (rx v + x) ?oy = shown_cell line x" if x: "0 \<le> x" "x < n" "x < k + 1 \<or> x = k + 1 \<and> ?w x = 0" for x
    proof -
      have "?w x \<noteq> 2" if "x = k - 1" using p(1)[of x] x 3 that by auto
      then show ?thesis using at[OF ons[OF x(1,2)]] old[of x] x 3 k1 shown_cell_width[of line x]
        by (cases "x = k"; cases "x = k + 1") (auto simp: shown_cell_def)
    qed
    moreover have "surf_at ?t x y = surf_at s x y" if "on_surf s x y" "y \<noteq> ?oy" for x y
      using at[of x y] that t by (simp add: on row_shown_def)
    ultimately show ?thesis using t by (simp add: row_shown_def)
  qed
qed

lemma render_row_shown:
  assumes dr: "drawable amb n line" and vy: "0 \<le> vy" "vy < rh v" and row: "0 \<le> ry v + vy" "ry v + vy < sf_h s"
    and cols: "0 \<le> rx v" "n \<le> rw v" "rx v + n \<le> sf_w s" and s: "surf_ok s" and n: "0 \<le> n"
  shows "row_shown v s (ry v + vy) line n n (render_row amb v s vy line n)"
proof -
  have "int k \<le> n \<Longrightarrow> row_shown v s (ry v + vy) line n (int k) (foldl (render_cell amb v vy line) s [0..int k - 1])" for k
  proof (induction k)
    case 0
    have "s_width (line 0) \<noteq> 0" if "0 < n" using dr that by (auto simp: drawable_def pairs_def)
    then show ?case using s by (auto simp: row_shown_def)
  next
    case (Suc k)
    have "[0..int (Suc k) - 1] = [0..int k - 1] @ [int k]" by (simp add: upto_rec2)
    then show ?case using render_cell_shown[OF dr vy row cols, of "int k"] Suc by (simp add: add.commute)
  qed
  from this[of "nat n"] show ?thesis using n cols(2) by (simp add: render_row_def)
qed

text \<open>A row, whatever it holds, is painted on its own row of the surface.\<close>

lemma view_put_row:
  assumes "surf_ok s" "on_surf s a b" "b \<noteq> ry v + y"
  shows "surf_at (view_put amb v s x y ch st) a b = surf_at s a b"
proof (cases "view_map s v x y")
  case (Some p)
  then obtain ox oy where m: "view_map s v x y = Some (ox, oy)" by (cases p) auto
  note o = on_surfI[OF m]
  show ?thesis
  proof (cases "char_width amb ch = 2")
    case True
    show ?thesis
    proof (cases "x + 1 \<ge> rw v \<or> ox + 1 \<ge> sf_w s")
      case False
      then have "on_surf s (ox + 1) oy" using o by (auto simp: on_surf_def)
      from write2_at[OF assms(1) conjunct1[OF o] this assms(2)] show ?thesis using o assms(3) True False by (simp add: view_put_def m Let_def)
    qed (simp add: view_put_def m Let_def True)
  next
    case False
    show ?thesis using write1_at[OF assms(1) conjunct1[OF o] assms(2)] o assms(3) False by (simp add: view_put_def m Let_def)
  qed
qed (simp add: view_put_def)

definition row_only :: "int \<Rightarrow> surface \<Rightarrow> surface \<Rightarrow> bool" where
  "row_only oy s t \<longleftrightarrow> surf_ok t \<and> sf_w t = sf_w s \<and> sf_h t = sf_h s
     \<and> (\<forall>x y. on_surf s x y \<and> y \<noteq> oy \<longrightarrow> surf_at t x y = surf_at s x y)"

lemma render_row_only:
  assumes "surf_ok s"
  shows "row_only (ry v + vy) s (render_row amb v s vy line n)"
proof -
  have step: "row_only (ry v + vy) s (render_cell amb v vy line t x)" if t: "row_only (ry v + vy) s t" for t x
  proof -
    have ok: "surf_ok t" and on: "on_surf t = on_surf s" using t by (auto simp: row_only_def on_surf_def fun_eq_iff)
    have "surf_ok (render_cell amb v vy line t x)" "sf_w (render_cell amb v vy line t x) = sf_w t" "sf_h (render_cell amb v vy line t x) = sf_h t"
      using draws_good[OF render_cell_draws[of amb v t vy line x]] ok by (simp_all add: good_paint_def painted_def)
    moreover have "surf_at (render_cell amb v vy line t x) a b = surf_at t a b" if "on_surf s a b" "b \<noteq> ry v + vy" for a b
      using view_put_row[OF ok, of a b] that on by (simp add: render_cell_def)
    ultimately show ?thesis using t by (simp add: row_only_def)
  qed
  have "row_only (ry v + vy) s (foldl (render_cell amb v vy line) t xs)" if "row_only (ry v + vy) s t" for t xs
    using that by (induction xs arbitrary: t) (simp_all add: step)
  then show ?thesis using assms by (simp add: render_row_def row_only_def)
qed

text \<open>The drawable rows above \<open>a\<close> of a screen, shown below the bar.\<close>

definition page_shown :: "bool \<Rightarrow> rect \<Rightarrow> screen \<Rightarrow> int \<Rightarrow> surface \<Rightarrow> bool" where
  "page_shown amb v sc a t \<longleftrightarrow> (\<forall>x y. on_page sc x y \<and> y < a \<and> drawable amb (sc_cols sc) (\<lambda>x. screen_at sc x y) \<longrightarrow>
     surf_at t (rx v + x) (ry v + kBarRows + y) = shown_cell (\<lambda>x. screen_at sc x y) x)"

text \<open>A view on a surface with room for the bar and the screen.\<close>

definition view_holds :: "rect \<Rightarrow> surface \<Rightarrow> screen \<Rightarrow> bool" where
  "view_holds v s sc \<longleftrightarrow> 0 \<le> rx v \<and> 0 \<le> ry v \<and> rx v + rw v \<le> sf_w s \<and> ry v + rh v \<le> sf_h s
     \<and> sc_cols sc \<le> rw v \<and> sc_rows sc + kBarRows \<le> rh v"

lemma render_rows_shown:
  assumes "tab_back t = 0" "surf_ok s" "view_holds v s (tb_screen t)"
    and "0 \<le> a" "a \<le> sc_rows (tb_screen t)" "page_shown amb v (tb_screen t) a s"
  shows "page_shown amb v (tb_screen t) (sc_rows (tb_screen t)) (render_rows amb t v s [a..rh v - kBarRows - 1])"
  using assms
proof (induction "nat (sc_rows (tb_screen t) - a)" arbitrary: a s)
  case 0
  then have "render_rows amb t v s [a..rh v - kBarRows - 1] = s"
    by (cases "[a..rh v - kBarRows - 1]") (auto simp: upto.simps split: if_splits)
  then show ?case using 0 by simp
next
  case (Suc d)
  let ?sc = "tb_screen t" and ?line = "\<lambda>x. screen_at (tb_screen t) x a"
  let ?s = "render_row amb v s (kBarRows + a) ?line (sc_cols ?sc)"
  have a: "a < sc_rows ?sc" using Suc.hyps(2) by simp
  then have l: "[a..rh v - kBarRows - 1] = a # [a + 1..rh v - kBarRows - 1]"
    using Suc.prems by (subst upto.simps) (simp add: view_holds_def kBarRows_def)
  have r: "surf_ok ?s" "sf_w ?s = sf_w s" "sf_h ?s = sf_h s"
    "\<And>x y. on_surf s x y \<Longrightarrow> y \<noteq> ry v + (kBarRows + a) \<Longrightarrow> surf_at ?s x y = surf_at s x y"
    using render_row_only[OF Suc.prems(2), of v "kBarRows + a"] by (simp_all add: row_only_def)
  have new: "surf_at ?s (rx v + x) (ry v + (kBarRows + a)) = shown_cell ?line x"
    if dr: "drawable amb (sc_cols ?sc) ?line" and x: "on_page ?sc x a" for x
  proof -
    have "row_shown v s (ry v + (kBarRows + a)) ?line (sc_cols ?sc) (sc_cols ?sc) ?s"
      using Suc.prems a x by (intro render_row_shown[OF dr]) (auto simp: view_holds_def kBarRows_def on_page_def)
    then show ?thesis using x by (simp add: row_shown_def on_page_def)
  qed
  have on: "on_surf s (rx v + x) (ry v + kBarRows + y)" if "on_page ?sc x y" for x y
    using that Suc.prems(3) by (simp add: view_holds_def on_surf_def on_page_def kBarRows_def)
  have "page_shown amb v ?sc (a + 1) ?s"
    unfolding page_shown_def
  proof (intro allI impI, elim conjE)
    fix x y assume p: "on_page ?sc x y" "y < a + 1" "drawable amb (sc_cols ?sc) (\<lambda>x. screen_at ?sc x y)"
    show "surf_at ?s (rx v + x) (ry v + kBarRows + y) = shown_cell (\<lambda>x. screen_at ?sc x y) x"
    proof (cases "y = a")
      case False
      then show ?thesis using r(4)[OF on[OF p(1)]] p Suc.prems(6) by (simp add: page_shown_def)
    qed (use p new in \<open>simp add: add.assoc\<close>)
  qed
  moreover have "view_holds v ?s ?sc" using Suc.prems(3) r(2,3) by (simp add: view_holds_def)
  moreover have "d = nat (sc_rows ?sc - (a + 1))" using Suc.hyps(2) by simp
  ultimately have "page_shown amb v ?sc (sc_rows ?sc) (render_rows amb t v ?s [a + 1..rh v - kBarRows - 1])"
    using Suc.hyps(1)[of "a + 1" ?s] Suc.prems r(1) a by simp
  then show ?case using a Suc.prems(1) by (simp add: l Let_def)
qed

lemma term_render_shows:
  assumes "tab_back (active_tab T) = 0" "tb_spawn_error (active_tab T) = []"
    and "\<not> py_exited (tb_pty (active_tab T))" "surf_ok s" "view_holds v s (tb_screen (active_tab T))"
  shows "page_shown amb v (tb_screen (active_tab T)) (sc_rows (tb_screen (active_tab T))) (term_render amb T v s)"
proof -
  let ?sc = "tb_screen (active_tab T)" and ?s = "draw_bar amb T v s"
  have b: "surf_ok ?s" "sf_w ?s = sf_w s" "sf_h ?s = sf_h s"
    using draws_good[OF draw_bar_draws[of amb v s T]] assms(4) by (simp_all add: good_paint_def painted_def)
  have 0: "page_shown amb v ?sc 0 ?s" by (auto simp: page_shown_def on_page_def)
  show ?thesis
  proof (cases "0 \<le> sc_rows ?sc")
    case True
    then have "page_shown amb v ?sc (sc_rows ?sc) (render_rows amb (active_tab T) v ?s [0..rh v - kBarRows - 1])"
      using assms b 0 by (intro render_rows_shown) (auto simp: view_holds_def)
    then show ?thesis using assms by (simp add: term_render_def Let_def)
  qed (auto simp: page_shown_def on_page_def)
qed

text \<open>
  A reachable terminal fits a view of the size its window was last given, as long as that has room
  for the bar and one row more.
\<close>

lemma reachable_holds:
  assumes "(term_step amb)\<^sup>*\<^sup>* (terminal_init argv) T" "tm_host T \<noteq> None"
    and "rw v = sz_w (tm_size T)" "rh v = sz_h (tm_size T)" "1 \<le> rw v" "kBarRows < rh v"
    and "0 \<le> rx v" "0 \<le> ry v" "rx v + rw v \<le> sf_w s" "ry v + rh v \<le> sf_h s"
  shows "view_holds v s (tb_screen (active_tab T))"
proof -
  have "term_ok T" using term_steps_ok[OF assms(1) terminal_init_ok] .
  then have "fits T (active_tab T)" by (simp add: term_ok_def active_tab_def tab_at_def list_all_length)
  then show ?thesis using assms(2-) by (simp add: fits_def tab_sized_def view_holds_def kBarRows_def)
qed

text \<open>Rows of single-width characters are drawable, and so are the blank rows of a new screen.\<close>

lemma narrow_drawable:
  assumes "\<And>x. 0 \<le> x \<Longrightarrow> x < n \<Longrightarrow> s_width (line x) = 1 \<and> char_width amb (s_ch (line x)) = 1"
  shows "drawable amb n line"
  using assms by (simp add: drawable_def pairs_def)

section \<open>A terminal that shows a wide character\<close>

lemma reshape_blank:
  assumes "0 < a" "0 < b" "erased s = scell_init" "sc_cols s = a" "sc_rows s = b"
  shows "reshape s (replicate (nat a * nat b) scell_init) c r = replicate (nat c * nat r) scell_init"
proof -
  have "reshape_cell s (replicate (nat a * nat b) scell_init) c r y x = scell_init" if "0 \<le> y" "0 \<le> x" for x y
  proof (cases "y < b \<and> x < a")
    case True
    then have "nat x < nat a" "nat y < nat b" using that by auto
    then have "nat y * nat a + nat x < nat b * nat a" by (simp only: cell_before)
    then show ?thesis using assms by (simp add: reshape_cell_def Let_def mult.commute scell_init_def)
  qed (use assms in \<open>auto simp: reshape_cell_def Let_def\<close>)
  then have "map (reshape_cell s (replicate (nat a * nat b) scell_init) c r y) [0..c - 1] = replicate (nat c) scell_init" if "0 \<le> y" for y
    using that by (intro replicate_eqI) (auto simp: image_iff)
  then have "map (\<lambda>y. map (reshape_cell s (replicate (nat a * nat b) scell_init) c r y) [0..c - 1]) [0..r - 1]
      = replicate (nat r) (replicate (nat c) scell_init)"
    by (intro replicate_eqI) (auto simp: image_iff)
  moreover have "concat (replicate n (replicate m x)) = replicate (m * n) x" for n m and x :: scell
    by (induction n) (simp_all add: replicate_add)
  ultimately show ?thesis unfolding reshape_def by simp
qed

lemma resize_blank:
  assumes "1 \<le> a" "1 \<le> b" "1 \<le> c" "1 \<le> r"
  shows "resize ((screen_init a b)\<lparr>sc_history := H\<rparr>) c r = (screen_init c r)\<lparr>sc_history := H\<rparr>"
proof (cases "c = a \<and> r = b")
  case False
  have "reshape ((screen_init a b)\<lparr>sc_history := H\<rparr>) (replicate (nat a * nat b) scell_init) c r = replicate (nat c * nat r) scell_init"
    using assms by (intro reshape_blank) (simp_all add: erased_def screen_init_def reset_tabs_def Let_def scell_init_def style_init_def)
  then show ?thesis using assms False
    by (auto simp: resize_def screen_init_def reset_tabs_def Let_def clampi_def saved_init_def)
qed (use assms in \<open>simp add: resize_def screen_init_def reset_tabs_def Let_def\<close>)

definition showing_os :: os where
  "showing_os = \<lparr>os_login_shell = [0x2F], os_spawn = Inr (5, 77), os_token = 3, os_wait = (\<lambda>_. StillRunning)\<rparr>"

text \<open>A terminal attached, resized to two columns, whose guest has written a wide character.\<close>

definition showing :: terminal where
  "showing = fst (on_io False (on_resize (attach showing_os (terminal_init []) \<lparr>h_start_dir = [], h_configured = []\<rparr>)
     \<lparr>sz_w = 2, sz_h = 2\<rparr>) 3 [Got [0xE4, 0xB8, 0xAD]])"

lemma showing_reached: "(term_step False)\<^sup>*\<^sup>* (terminal_init []) showing"
proof -
  let ?h = "\<lparr>h_start_dir = [], h_configured = []\<rparr>" and ?z = "\<lparr>sz_w = 2, sz_h = 2\<rparr>"
  let ?a = "attach showing_os (terminal_init []) ?h"
  have "term_step False (terminal_init []) ?a" by (rule t_attach) (simp add: terminal_init_def)
  moreover have "term_step False ?a (on_resize ?a ?z)" by (rule t_resize)
  moreover have "term_step False (on_resize ?a ?z) showing" unfolding showing_def by (rule t_io)
  ultimately show ?thesis by (meson converse_rtranclp_into_rtranclp rtranclp.rtrancl_refl)
qed

lemma han_feed: "snd (vt_feed parser_init [0xE4, 0xB8, 0xAD]) = [Print 0x4E2D]"
  by code_simp

lemma showing_before:
  fixes h z
  defines "h \<equiv> \<lparr>h_start_dir = [], h_configured = []\<rparr>" and "z \<equiv> \<lparr>sz_w = 2, sz_h = 2\<rparr>"
  defines "A \<equiv> on_resize (attach showing_os (terminal_init []) h) z"
  shows "tm_host A = Some h" "tm_size A = z" "tm_feeding A = None" "tm_active A = 0"
    "\<exists>t. tm_tabs A = [t] \<and> tb_watching t \<and> tb_token t = 3 \<and> tb_parser t = parser_init \<and> tb_spawn_error t = []
      \<and> \<not> py_exited (tb_pty t) \<and> tb_screen t = (screen_init 2 1)\<lparr>sc_history := Some (scrollback_init kDefaultScrollbackLines)\<rparr>"
proof -
  note d = A_def h_def z_def on_resize_def attach_def relayout_def retitle_def open_tab_into_def terminal_init_def showing_os_def
    pty_spawn_def ask_host_def tab_at_def set_tab_at_def Let_def kBarRows_def
  show "tm_host A = Some h" "tm_size A = z" "tm_feeding A = None" "tm_active A = 0" by (simp_all add: d)
  show "\<exists>t. tm_tabs A = [t] \<and> tb_watching t \<and> tb_token t = 3 \<and> tb_parser t = parser_init \<and> tb_spawn_error t = []
      \<and> \<not> py_exited (tb_pty t) \<and> tb_screen t = (screen_init 2 1)\<lparr>sc_history := Some (scrollback_init kDefaultScrollbackLines)\<rparr>"
    by (simp add: d tab_init_def resize_blank pty_resize_def pty_init_def)
qed

lemma showing_tab:
  shows "tm_host showing \<noteq> None" "tm_size showing = \<lparr>sz_w = 2, sz_h = 2\<rparr>"
    "tb_screen (active_tab showing) = print False ((screen_init 2 1)\<lparr>sc_history := Some (scrollback_init kDefaultScrollbackLines)\<rparr>) 0x4E2D"
    "tb_spawn_error (active_tab showing) = []" "\<not> py_exited (tb_pty (active_tab showing))"
proof -
  define A where "A = on_resize (attach showing_os (terminal_init []) \<lparr>h_start_dir = [], h_configured = []\<rparr>) \<lparr>sz_w = 2, sz_h = 2\<rparr>"
  note b = showing_before[folded A_def]
  obtain t where t: "tm_tabs A = [t]" "tb_watching t" "tb_token t = 3" "tb_parser t = parser_init" "tb_spawn_error t = []"
    "\<not> py_exited (tb_pty t)" "tb_screen t = (screen_init 2 1)\<lparr>sc_history := Some (scrollback_init kDefaultScrollbackLines)\<rparr>"
    using b(5) by blast
  have "find_if (\<lambda>t. tb_watching t \<and> tb_token t = 3) (tm_tabs A) = Some 0" using t by simp
  from on_io_tab[OF b(3) this, of False "[Got [0xE4, 0xB8, 0xAD]]"] obtain cs where
    s: "showing = A\<lparr>tm_tabs := (tm_tabs A)[0 := tab_feed False t [0xE4, 0xB8, 0xAD]], tm_calls := tm_calls A @ cs\<rparr>"
    using t(1) by (auto simp: showing_def A_def[symmetric] tab_at_def)
  obtain p where "vt_feed parser_init [0xE4, 0xB8, 0xAD] = (p, [Print 0x4E2D])" using han_feed by (metis prod.collapse)
  then have f: "tab_feed False t [0xE4, 0xB8, 0xAD] = tab_call False (t\<lparr>tb_parser := p\<rparr>) (Print 0x4E2D)"
    using t(4) by (simp add: tab_feed_def)
  show "tm_host showing \<noteq> None" "tm_size showing = \<lparr>sz_w = 2, sz_h = 2\<rparr>" using b(1,2) by (simp_all add: s)
  show "tb_screen (active_tab showing) = print False ((screen_init 2 1)\<lparr>sc_history := Some (scrollback_init kDefaultScrollbackLines)\<rparr>) 0x4E2D"
    "tb_spawn_error (active_tab showing) = []" "\<not> py_exited (tb_pty (active_tab showing))"
    using b(4) t by (simp_all add: s active_tab_def tab_at_def f tab_screen_def)
qed

text \<open>The screen of the two columns.\<close>

lemma han_screen:
  "screen_at (print False ((screen_init 2 1)\<lparr>sc_history := H\<rparr>) 0x4E2D) 0 0 = \<lparr>s_ch = 0x4E2D, s_width = 2, s_style = style_init\<rparr>"
  "s_width (screen_at (print False ((screen_init 2 1)\<lparr>sc_history := H\<rparr>) 0x4E2D) 1 0) = 0"
  "sc_cols (print False ((screen_init 2 1)\<lparr>sc_history := H\<rparr>) 0x4E2D) = 2"
  "sc_rows (print False ((screen_init 2 1)\<lparr>sc_history := H\<rparr>) 0x4E2D) = 1"
  "sc_history (print False ((screen_init 2 1)\<lparr>sc_history := H\<rparr>) 0x4E2D) = H"
  by code_simp+

lemma han_drawable: "drawable False 2 (\<lambda>x. screen_at (print False ((screen_init 2 1)\<lparr>sc_history := H\<rparr>) 0x4E2D) x 0)"
proof -
  let ?sc = "print False ((screen_init 2 1)\<lparr>sc_history := H\<rparr>) 0x4E2D"
  have two: "x = 0 \<or> x = 1" if "0 \<le> x" "x < 2" for x :: int using that by auto
  have "char_width False 0x4E2D = 2" by code_simp
  then have "s_width (screen_at ?sc x 0) \<noteq> 0 \<longrightarrow> char_width False (s_ch (screen_at ?sc x 0)) = int (s_width (screen_at ?sc x 0))"
    if "0 \<le> x" "x < 2" for x using two[OF that] han_screen(1,2) by auto
  moreover have "pairs 2 (\<lambda>x. s_width (screen_at ?sc x 0))" unfolding pairs_def using han_screen(1,2) two by fastforce
  ultimately show ?thesis by (simp add: drawable_def)
qed

section \<open>Properties\<close>

text \<open>
  C18.  The window shows the guest.  For every state a terminal can reach, once it is attached, while its
  active tab runs, has started and is not scrolled back, and on any view of the size its window was last
  given (a column and a row under the bar at least) that lies on the surface: the row of the screen is on the
  view, below the bar, cell by cell, each with its character, its style and its width, wide characters
  included.  This is said of the rows in which every wide character has its two halves and every width is
  that of its character, whatever the others hold: inserting and deleting characters can leave half a
  wide character behind (\<open>insert_chars_wipes_moved\<close>), and half a character is not drawn.
\<close>

theorem terminal_shows_guest:
  assumes "(term_step amb)\<^sup>*\<^sup>* (terminal_init argv) T" and "tm_host T \<noteq> None"
    and "rw v = sz_w (tm_size T)" and "rh v = sz_h (tm_size T)" and "1 \<le> rw v" and "kBarRows < rh v"
    and "surf_ok s" and "0 \<le> rx v" and "0 \<le> ry v" and "rx v + rw v \<le> sf_w s" and "ry v + rh v \<le> sf_h s"
    and "tab_back (active_tab T) = 0" and "tb_spawn_error (active_tab T) = []" and "\<not> py_exited (tb_pty (active_tab T))"
    and "drawable amb (sc_cols (tb_screen (active_tab T))) (\<lambda>x. screen_at (tb_screen (active_tab T)) x y)"
    and "on_page (tb_screen (active_tab T)) x y"
  shows "surf_at (term_render amb T v s) (rx v + x) (ry v + kBarRows + y)
    = shown_cell (\<lambda>x. screen_at (tb_screen (active_tab T)) x y) x"
  using term_render_shows[OF assms(12-14,7) reachable_holds[OF assms(1-6,8-11)], of amb] assms(15,16)
  by (simp add: page_shown_def on_page_def)

theorem terminal_shows_guest_witness:
  "surf_at (term_render False showing (mk_rect 0 0 2 2) (surface_new 2 2)) 0 1 = glyph_cell 0x4E2D style_init 2"
proof -
  note h = han_screen[of "Some (scrollback_init kDefaultScrollbackLines)"]
  have "tab_back (active_tab showing) = 0" by (simp add: tab_back_def showing_tab(3) h(5)) (simp add: scrollback_init_def)
  then have "surf_at (term_render False showing (mk_rect 0 0 2 2) (surface_new 2 2)) (rx (mk_rect 0 0 2 2) + 0) (ry (mk_rect 0 0 2 2) + kBarRows + 0)
      = shown_cell (\<lambda>x. screen_at (tb_screen (active_tab showing)) x 0) 0"
    using showing_tab han_drawable h by (intro terminal_shows_guest[OF showing_reached]) (simp_all add: kBarRows_def surface_new_ok on_page_def)
  then show ?thesis by (simp add: showing_tab(3) h shown_cell_def kBarRows_def)
qed

end
