(* ===== verification/Profile.thy ===== *)
theory Profile
  imports Cell
begin

text \<open>
  \<open>src/render/profile.cpp\<close>: what a client's terminal can show, the reduction of colours
  to it, and the shortest sequence that takes the pen from one style to another.
\<close>

datatype color_depth = Mono16 | Indexed256 | TrueColor

record output_profile =
  pf_depth :: color_depth
  pf_utf8 :: bool

definition quantize_256 :: "byte \<Rightarrow> byte \<Rightarrow> byte \<Rightarrow> byte" where
  "quantize_256 r g b =
     (let q = (\<lambda>v :: byte. cdiv (int (unat v) * 5) 255)
      in word_of_int (16 + 36 * q r + 6 * q g + q b))"

definition quantize_16 :: "byte \<Rightarrow> byte \<Rightarrow> byte \<Rightarrow> int" where
  "quantize_16 r g b = (if r > 127 then 1 else 0) + (if g > 127 then 2 else 0) + (if b > 127 then 4 else 0)"

definition indexed_to_rgb :: "byte \<Rightarrow> byte \<times> byte \<times> byte" where
  "indexed_to_rgb idx =
     (if idx < 16 then
        let lo = (if idx AND 8 \<noteq> 0 then 255 else 128)
        in (if idx AND 1 \<noteq> 0 then lo else 0, if idx AND 2 \<noteq> 0 then lo else 0, if idx AND 4 \<noteq> 0 then lo else 0)
      else if idx < 232 then
        let v = unat idx - 16; steps = [0, 95, 135, 175, 215, 255]
        in (steps ! (v div 36 mod 6), steps ! (v div 6 mod 6), steps ! (v mod 6))
      else let v = word_of_int (8 + (int (unat idx) - 232) * 10) in (v, v, v))"

definition rgb_of :: "color \<Rightarrow> byte \<times> byte \<times> byte" where
  "rgb_of c = (case c of ColDefault \<Rightarrow> (0, 0, 0) | Indexed i \<Rightarrow> indexed_to_rgb i | Rgb r g b \<Rightarrow> (r, g, b))"

definition quantize_color :: "color \<Rightarrow> color_depth \<Rightarrow> color" where
  "quantize_color c d =
     (if c = ColDefault then c
      else if d = TrueColor then c
      else let (r, g, b) = rgb_of c in
        if d = Indexed256 then (case c of Indexed i \<Rightarrow> c | _ \<Rightarrow> Indexed (quantize_256 r g b))
        else Indexed (word_of_int (quantize_16 r g b)))"

definition csi_m :: "bytes \<Rightarrow> bytes" where
  "csi_m body = 0x1B # str ''['' @ body @ str ''m''"

definition byte_num :: "byte \<Rightarrow> bytes" where
  "byte_num b = to_string (int (unat b))"

definition color_idx :: "color \<Rightarrow> byte" where
  "color_idx c = (case c of Indexed i \<Rightarrow> i | _ \<Rightarrow> 0)"

definition color_code :: "color \<Rightarrow> bool \<Rightarrow> output_profile \<Rightarrow> bytes" where
  "color_code c foreground p =
     (let base = (if foreground then 38 else 48); simple = (if foreground then 30 else 40);
          reset = (if foreground then 39 else 49)
      in if c = ColDefault then csi_m (to_string reset)
         else if pf_depth p = TrueColor then
           let (r, g, b) = rgb_of c
           in csi_m (to_string base @ str '';2;'' @ byte_num r @ str '';'' @ byte_num g @ str '';'' @ byte_num b)
         else
           let q = quantize_color c (pf_depth p)
           in if pf_depth p = Indexed256 then csi_m (to_string base @ str '';5;'' @ byte_num (color_idx q))
              else csi_m (to_string (simple + int (unat (color_idx q)))))"

definition has_sub :: "bytes \<Rightarrow> bytes \<Rightarrow> bool" where
  "has_sub hay needle \<longleftrightarrow> find_from hay needle 0 \<noteq> None"

definition profile_detect :: "bytes \<Rightarrow> bytes \<Rightarrow> bool \<Rightarrow> output_profile" where
  "profile_detect tm colorterm utf8 =
     \<lparr>pf_depth = (if has_sub colorterm (str ''truecolor'') \<or> has_sub colorterm (str ''24bit'') then TrueColor
                  else if has_sub tm (str ''256color'') then Indexed256 else Mono16),
      pf_utf8 = utf8\<rparr>"

definition sgr_codes :: "(16 word \<times> int) list" where
  "sgr_codes = [(attr_Bold, 1), (attr_Dim, 2), (attr_Italic, 3), (attr_Underline, 4), (attr_Blink, 5),
     (attr_Reverse, 7), (attr_Hidden, 8), (attr_Strike, 9)]"

definition sgr_transition :: "style \<Rightarrow> style \<Rightarrow> output_profile \<Rightarrow> bytes" where
  "sgr_transition fr to p =
     (if fr = to then []
      else let reset = (st_attrs fr AND NOT (st_attrs to) \<noteq> 0);
               base = (if reset then style_init else fr)
           in (if reset then csi_m (str ''0'') else [])
              @ concat (map (\<lambda>(bit, code). if st_attrs to AND bit \<noteq> 0 \<and> st_attrs base AND bit = 0
                                           then csi_m (to_string code) else []) sgr_codes)
              @ (if st_fg base \<noteq> st_fg to then color_code (st_fg to) True p else [])
              @ (if st_bg base \<noteq> st_bg to then color_code (st_bg to) False p else []))"

end
