(* ===== verification/Sgr_Read.thy ===== *)
theory Sgr_Read
  imports Profile Vt_Attrs Vt_Parser
begin

text \<open>
  The pen seen from the other side: the sequences \<open>sgr_transition\<close> sends, read by the
  program's own parser and SGR interpreter, take the pen of a terminal from one style to
  the other, with the colours the profile can show.
\<close>

section \<open>Sequences that set the pen\<close>

definition pen_call :: "style \<Rightarrow> sink_call \<Rightarrow> style" where
  "pen_call st c = (case c of Csi ps ints f \<Rightarrow> if ints = [] \<and> f = 0x6D then apply_sgr ps st else st | _ \<Rightarrow> st)"

definition is_sgr :: "sink_call \<Rightarrow> bool" where
  "is_sgr c \<longleftrightarrow> (\<exists>ps. c = Csi ps [] 0x6D)"

definition takes_pen :: "bytes \<Rightarrow> style \<Rightarrow> style \<Rightarrow> bool" where
  "takes_pen bs a b \<longleftrightarrow> (\<forall>p. p_state p = Ground \<and> p_need p = 0 \<longrightarrow>
     (\<exists>p' cs. vt_feed p bs = (p', cs) \<and> p_state p' = Ground \<and> p_need p' = 0 \<and> list_all is_sgr cs
        \<and> foldl pen_call a cs = b))"

lemma takes_pen_nil [simp]: "takes_pen [] a a"
  by (simp add: takes_pen_def)

lemma takes_pen_append: "takes_pen bs a b \<Longrightarrow> takes_pen bs' b c \<Longrightarrow> takes_pen (bs @ bs') a c"
  unfolding takes_pen_def by (fastforce simp: vt_feed_append Let_def)

lemma takes_pen_csi:
  assumes "ns \<noteq> []" "length ns \<le> kMaxParams" "\<forall>n \<in> set ns. n \<le> 65535"
  shows "takes_pen (csi_m (csi_args ns)) a (apply_sgr (map (\<lambda>n. prm (int n) False) ns) a)"
proof -
  have f: "is_final 0x6D" by (simp add: is_final_def)
  have e: "csi_m (csi_args ns) = [0x1B, 0x5B] @ csi_args ns @ [0x6D]" by (simp add: csi_m_def str_def)
  show ?thesis unfolding takes_pen_def e
  proof (intro allI impI)
    fix p :: parser assume p: "p_state p = Ground \<and> p_need p = 0"
    obtain p' where "vt_feed p ([0x1B, 0x5B] @ csi_args ns @ [0x6D])
        = (p', [Csi (map (\<lambda>n. \<lparr>pm_value = int n, pm_sub = False\<rparr>) ns) [] 0x6D])" "p_state p' = Ground" "p_need p' = 0"
      using vt_feed_csi[OF _ _ assms f] p by blast
    then show "\<exists>p' cs. vt_feed p ([0x1B, 0x5B] @ csi_args ns @ [0x6D]) = (p', cs) \<and> p_state p' = Ground \<and> p_need p' = 0
        \<and> list_all is_sgr cs \<and> foldl pen_call a cs = apply_sgr (map (\<lambda>n. prm (int n) False) ns) a"
      by (simp add: is_sgr_def pen_call_def prm_def)
  qed
qed

lemma apply_sgr_one:
  assumes "0 \<le> c" "c \<noteq> 38" "c \<noteq> 48" "c \<noteq> 58" "c \<noteq> 4"
  shows "apply_sgr [prm c False] st = sgr_code c st"
  using assms by (simp add: prm_def apply_sgr_def sgr_loop.simps group_end.simps)

lemma apply_sgr_four: "apply_sgr [prm 4 False] st = st\<lparr>st_attrs := st_attrs st OR attr_Underline\<rparr>"
  by (simp add: prm_def apply_sgr_def sgr_loop.simps group_end.simps)

lemma takes_pen_code:
  assumes "0 \<le> c" "c \<le> 65535"
  shows "takes_pen (csi_m (to_string c)) a (apply_sgr [prm c False] a)"
  using takes_pen_csi[of "[nat c]" a] assms by (simp add: to_string_def kMaxParams_def nat_le_iff)

section \<open>Colours\<close>

definition shown_color :: "color_depth \<Rightarrow> color \<Rightarrow> color" where
  "shown_color d c =
     (if c = ColDefault then ColDefault
      else if d = TrueColor then (case rgb_of c of (r, g, b) \<Rightarrow> Rgb r g b)
      else quantize_color c d)"

lemma sgr_background_forms:
  "apply_sgr [prm 48 False, prm 5 False, prm n False] st
      = (if is_byte n then st\<lparr>st_bg := Indexed (word_of_int n)\<rparr> else st)"
  "apply_sgr [prm 48 False, prm 2 False, prm r False, prm g False, prm b False] st
      = (if is_byte r \<and> is_byte g \<and> is_byte b
         then st\<lparr>st_bg := Rgb (word_of_int r) (word_of_int g) (word_of_int b)\<rparr> else st)"
  "apply_sgr [prm 38 False, prm 5 False, prm n False] st
      = (if is_byte n then st\<lparr>st_fg := Indexed (word_of_int n)\<rparr> else st)"
  "apply_sgr [prm 38 False, prm 2 False, prm r False, prm g False, prm b False] st
      = (if is_byte r \<and> is_byte g \<and> is_byte b
         then st\<lparr>st_fg := Rgb (word_of_int r) (word_of_int g) (word_of_int b)\<rparr> else st)"
  by (simp_all add: prm_def apply_sgr_def sgr_loop.simps group_end.simps flat_extent_def read_extended_def
      numeral_eq_Suc)

lemma byte_params: "is_byte (int (unat (b :: byte)))" "word_of_int (int (unat b)) = b" "unat b \<le> 65535"
proof -
  have "unat b < 256" by (rule unat_byte_lt)
  then show "is_byte (int (unat b))" "unat b \<le> 65535" unfolding is_byte_def by linarith+
  show "word_of_int (int (unat b)) = b" by simp
qed

lemma byte_num_digits: "byte_num b = nat_digits (unat b)"
  by (simp add: byte_num_def to_string_def del: of_nat_unat)

lemma takes_pen_indexed:
  "takes_pen (csi_m (str ''38;5;'' @ byte_num i)) a (a\<lparr>st_fg := Indexed i\<rparr>)"
  "takes_pen (csi_m (str ''48;5;'' @ byte_num i)) a (a\<lparr>st_bg := Indexed i\<rparr>)"
  using takes_pen_csi[of "[38, 5, unat i]" a] takes_pen_csi[of "[48, 5, unat i]" a] byte_params[of i]
  by (simp_all add: kMaxParams_def byte_num_digits sgr_background_forms nat_digits.simps str_def del: of_nat_unat)

lemma takes_pen_rgb:
  "takes_pen (csi_m (str ''38;2;'' @ byte_num r @ str '';'' @ byte_num g @ str '';'' @ byte_num b)) a (a\<lparr>st_fg := Rgb r g b\<rparr>)"
  "takes_pen (csi_m (str ''48;2;'' @ byte_num r @ str '';'' @ byte_num g @ str '';'' @ byte_num b)) a (a\<lparr>st_bg := Rgb r g b\<rparr>)"
  using takes_pen_csi[of "[38, 2, unat r, unat g, unat b]" a] takes_pen_csi[of "[48, 2, unat r, unat g, unat b]" a]
    byte_params[of r] byte_params[of g] byte_params[of b]
  by (simp_all add: kMaxParams_def byte_num_digits sgr_background_forms nat_digits.simps str_def del: of_nat_unat)

lemma quantize_16_range: "0 \<le> quantize_16 r g b" "quantize_16 r g b \<le> 7"
  by (simp_all add: quantize_16_def)

lemma quantize_mono: "c \<noteq> ColDefault \<Longrightarrow> \<exists>i. quantize_color c Mono16 = Indexed i \<and> unat i \<le> 7"
proof -
  assume "c \<noteq> ColDefault"
  moreover obtain r g b where "rgb_of c = (r, g, b)" using prod_cases3 by blast
  moreover have "unat (word_of_int (quantize_16 r g b) :: byte) \<le> 7"
    using quantize_16_range[of r g b] by (simp add: unat_word_ariths unsigned_of_int take_bit_int_eq_self nat_le_iff)
  ultimately show ?thesis by (simp add: quantize_color_def)
qed

lemma quantize_256_indexed: "c \<noteq> ColDefault \<Longrightarrow> \<exists>i. quantize_color c Indexed256 = Indexed i"
  by (cases c) (simp_all add: quantize_color_def rgb_of_def split: prod.splits)

lemma takes_pen_mono:
  assumes "unat (i :: byte) \<le> 7"
  shows "takes_pen (csi_m (to_string (30 + int (unat i)))) a (a\<lparr>st_fg := Indexed i\<rparr>)"
    "takes_pen (csi_m (to_string (40 + int (unat i)))) a (a\<lparr>st_bg := Indexed i\<rparr>)"
proof -
  have "sgr_code (30 + int (unat i)) a = a\<lparr>st_fg := Indexed i\<rparr>" "sgr_code (40 + int (unat i)) a = a\<lparr>st_bg := Indexed i\<rparr>"
    using assms byte_params(2)[of i] by (simp_all add: sgr_code_def Let_def del: of_nat_unat)
  then show "takes_pen (csi_m (to_string (30 + int (unat i)))) a (a\<lparr>st_fg := Indexed i\<rparr>)"
    "takes_pen (csi_m (to_string (40 + int (unat i)))) a (a\<lparr>st_bg := Indexed i\<rparr>)"
    using takes_pen_code[of "30 + int (unat i)" a] takes_pen_code[of "40 + int (unat i)" a] assms
      apply_sgr_one[of "30 + int (unat i)" a] apply_sgr_one[of "40 + int (unat i)" a] by (simp_all del: of_nat_unat)
qed

lemma takes_pen_default:
  "takes_pen (csi_m (to_string 39)) a (a\<lparr>st_fg := ColDefault\<rparr>)"
  "takes_pen (csi_m (to_string 49)) a (a\<lparr>st_bg := ColDefault\<rparr>)"
  using takes_pen_code[of 39 a] takes_pen_code[of 49 a] by (simp_all add: apply_sgr_one sgr_code_def)

lemma color_base: "to_string 38 @ str '';5;'' = str ''38;5;''" "to_string 48 @ str '';5;'' = str ''48;5;''"
  "to_string 38 @ str '';2;'' = str ''38;2;''" "to_string 48 @ str '';2;'' = str ''48;2;''"
  by (simp_all add: to_string_def nat_digits.simps str_def)

lemma takes_pen_color:
  "takes_pen (color_code c True p) a (a\<lparr>st_fg := shown_color (pf_depth p) c\<rparr>)"
  "takes_pen (color_code c False p) a (a\<lparr>st_bg := shown_color (pf_depth p) c\<rparr>)"
proof -
  have "takes_pen (color_code c True p) a (a\<lparr>st_fg := shown_color (pf_depth p) c\<rparr>)
      \<and> takes_pen (color_code c False p) a (a\<lparr>st_bg := shown_color (pf_depth p) c\<rparr>)"
  proof (cases "c = ColDefault")
    case True
    then show ?thesis using takes_pen_default by (simp add: color_code_def shown_color_def)
  next
    case False
    show ?thesis
    proof (cases "pf_depth p")
      case TrueColor
      obtain r g b where "rgb_of c = (r, g, b)" using prod_cases3 by blast
      then show ?thesis using False TrueColor takes_pen_rgb[of r g b a]
        by (simp add: color_code_def shown_color_def flip: color_base)
    next
      case Indexed256
      obtain i where "quantize_color c Indexed256 = Indexed i" using quantize_256_indexed[OF False] by blast
      then show ?thesis using False Indexed256 takes_pen_indexed[of i a]
        by (simp add: color_code_def shown_color_def color_idx_def Let_def flip: color_base)
    next
      case Mono16
      obtain i where "quantize_color c Mono16 = Indexed i" "unat i \<le> 7" using quantize_mono[OF False] by blast
      then show ?thesis using False Mono16 takes_pen_mono[of i a]
        by (simp add: color_code_def shown_color_def color_idx_def Let_def del: of_nat_unat)
    qed
  qed
  then show "takes_pen (color_code c True p) a (a\<lparr>st_fg := shown_color (pf_depth p) c\<rparr>)"
    "takes_pen (color_code c False p) a (a\<lparr>st_bg := shown_color (pf_depth p) c\<rparr>)" by simp_all
qed

section \<open>Attributes\<close>

definition attr_set :: "16 word \<Rightarrow> 16 word \<Rightarrow> (16 word \<times> int) list \<Rightarrow> 16 word \<Rightarrow> 16 word" where
  "attr_set to base cs w = foldl (\<lambda>w (bit, code). if to AND bit \<noteq> 0 \<and> base AND bit = 0 then w OR bit else w) w cs"

lemma takes_pen_attr: "(b, c) \<in> set sgr_codes \<Longrightarrow> takes_pen (csi_m (to_string c)) a (a\<lparr>st_attrs := st_attrs a OR b\<rparr>)"
proof -
  assume "(b, c) \<in> set sgr_codes"
  moreover from this have "apply_sgr [prm c False] a = a\<lparr>st_attrs := st_attrs a OR b\<rparr>"
    by (auto simp: sgr_codes_def apply_sgr_one apply_sgr_four sgr_code_def)
  moreover from calculation(1) have "0 \<le> c" "c \<le> 65535" by (auto simp: sgr_codes_def)
  ultimately show ?thesis using takes_pen_code[of c a] by simp
qed

lemma takes_pen_attrs:
  assumes "set cs \<subseteq> set sgr_codes"
  shows "takes_pen (concat (map (\<lambda>(bit, code). if to AND bit \<noteq> 0 \<and> base AND bit = 0 then csi_m (to_string code) else []) cs))
    a (a\<lparr>st_attrs := attr_set to base cs (st_attrs a)\<rparr>)"
  using assms
proof (induction cs arbitrary: a)
  case (Cons bc cs)
  obtain b c where bc: "bc = (b, c)" by (cases bc)
  show ?case
  proof (cases "to AND b \<noteq> 0 \<and> base AND b = 0")
    case True
    have "takes_pen (csi_m (to_string c)) a (a\<lparr>st_attrs := st_attrs a OR b\<rparr>)" using Cons.prems by (intro takes_pen_attr) (simp add: bc)
    from takes_pen_append[OF this Cons.IH] Cons.prems show ?thesis using True by (simp add: bc attr_set_def)
  next
    case False
    then show ?thesis using Cons by (auto simp: bc attr_set_def)
  qed
qed (simp add: attr_set_def)


lemma push_one_eq: "n < 16 \<Longrightarrow> k < 16 \<Longrightarrow> (push_bit n 1 :: 16 word) = push_bit k 1 \<longleftrightarrow> n = k"
proof
  assume n: "n < 16" and e: "(push_bit n 1 :: 16 word) = push_bit k 1"
  have "bit (push_bit n 1 :: 16 word) n" using n by (simp add: bit_exp_iff)
  then show "n = k" unfolding e by (simp add: bit_exp_iff)
qed simp

lemma and_push_one: "(w :: 16 word) AND 2 ^ k \<noteq> 0 \<longleftrightarrow> bit w k"
  using bit_iff_and_push_bit_not_eq_0[of w k] by (simp add: push_bit_of_1)

lemma attr_set_bit:
  assumes "\<forall>b \<in> fst ` set cs. \<exists>k < 16. b = push_bit k 1" "n < 16"
  shows "bit (attr_set to base cs w) n \<longleftrightarrow> bit w n \<or> bit to n \<and> \<not> bit base n \<and> push_bit n 1 \<in> fst ` set cs"
  using assms(1)
proof (induction cs arbitrary: w)
  case (Cons bc cs)
  obtain k where k: "fst bc = push_bit k 1" "k < 16" using Cons.prems by auto
  define w' where "w' = (if bit to k \<and> \<not> bit base k then w OR push_bit k 1 else w)"
  have "attr_set to base (bc # cs) w = attr_set to base cs w'"
    using k and_push_one[of to k] and_push_one[of base k] by (cases bc) (auto simp: attr_set_def w'_def)
  moreover have "bit w' n \<longleftrightarrow> bit w n \<or> n = k \<and> bit to k \<and> \<not> bit base k"
    using k(2) assms(2) by (auto simp: w'_def bit_or_iff bit_exp_iff)
  ultimately show ?case using Cons.IH[of w'] Cons.prems push_one_eq[OF assms(2) k(2)] k(1) by auto
qed (simp add: attr_set_def)

lemma attr_bits: "fst ` set sgr_codes = (\<lambda>k. push_bit k 1) ` {..<8}"
proof -
  have "{..<8 :: nat} = {0, 1, 2, 3, 4, 5, 6, 7}" by auto
  then show ?thesis
    by (simp add: sgr_codes_def attr_Bold_def attr_Dim_def attr_Italic_def attr_Underline_def attr_Blink_def
        attr_Reverse_def attr_Hidden_def attr_Strike_def insert_commute)
qed

text \<open>The attributes the program knows, the low eight bits.\<close>

definition known_attrs :: "16 word \<Rightarrow> bool" where
  "known_attrs w \<longleftrightarrow> (\<forall>n \<ge> 8. \<not> bit w n)"

lemma attr_set_all:
  assumes "base AND NOT to = 0" "known_attrs to"
  shows "attr_set to base sgr_codes base = to"
proof (rule bit_word_eqI)
  fix n assume "n < LENGTH(16)"
  then have n: "n < 16" by simp
  have sub: "bit base n \<Longrightarrow> bit to n"
    using arg_cong[OF assms(1), of "\<lambda>w. bit w n"] n by (auto simp: bit_and_iff bit_not_iff)
  have "push_bit n 1 \<in> fst ` set sgr_codes" if "bit to n"
    using that assms(2) unfolding attr_bits known_attrs_def by (metis imageI lessThan_iff linorder_not_le)
  moreover have "\<forall>b \<in> fst ` set sgr_codes. \<exists>k < 16. b = push_bit k 1" unfolding attr_bits by force
  ultimately show "bit (attr_set to base sgr_codes base) n = bit to n" using attr_set_bit[OF _ n] sub by blast
qed

section \<open>The transition\<close>

definition shown_style :: "output_profile \<Rightarrow> style \<Rightarrow> style" where
  "shown_style p st = \<lparr>st_fg = shown_color (pf_depth p) (st_fg st), st_bg = shown_color (pf_depth p) (st_bg st),
     st_attrs = st_attrs st\<rparr>"

lemma takes_pen_if: "takes_pen bs a b \<Longrightarrow> (\<not> c \<Longrightarrow> a = b) \<Longrightarrow> takes_pen (if c then bs else []) a b"
  by auto

lemma sgr_transition_takes:
  assumes "known_attrs (st_attrs to)"
  shows "takes_pen (sgr_transition fr to p) (shown_style p fr) (shown_style p to)"
proof (cases "fr = to")
  case False
  let ?s = "shown_style p"
  define reset where "reset = (st_attrs fr AND NOT (st_attrs to) \<noteq> 0)"
  define base where "base = (if reset then style_init else fr)"
  have si: "?s style_init = style_init" by (simp add: shown_style_def style_init_def shown_color_def)
  have b0: "st_attrs base AND NOT (st_attrs to) = 0" by (auto simp: base_def reset_def style_init_def)
  let ?b1 = "(?s base)\<lparr>st_attrs := st_attrs to\<rparr>"
  let ?b2 = "?b1\<lparr>st_fg := shown_color (pf_depth p) (st_fg to)\<rparr>"
  have 0: "takes_pen (if reset then csi_m (str ''0'') else []) (?s fr) (?s base)"
    using takes_pen_code[of 0 "?s fr"] si
    by (auto simp: base_def apply_sgr_one sgr_code_def to_string_def nat_digits.simps str_def)
  have 1: "takes_pen (concat (map (\<lambda>(bit, code). if st_attrs to AND bit \<noteq> 0 \<and> st_attrs base AND bit = 0
      then csi_m (to_string code) else []) sgr_codes)) (?s base) ?b1"
    using takes_pen_attrs[OF subset_refl, of "st_attrs to" "st_attrs base" "?s base"] attr_set_all[OF b0 assms]
    by (simp add: shown_style_def)
  have 2: "takes_pen (if st_fg base \<noteq> st_fg to then color_code (st_fg to) True p else []) ?b1 ?b2"
    by (rule takes_pen_if[OF takes_pen_color(1)]) (simp add: shown_style_def)
  have 3: "takes_pen (if st_bg base \<noteq> st_bg to then color_code (st_bg to) False p else []) ?b2
      (?b2\<lparr>st_bg := shown_color (pf_depth p) (st_bg to)\<rparr>)"
    by (rule takes_pen_if[OF takes_pen_color(2)]) (simp add: shown_style_def)
  have "?b2\<lparr>st_bg := shown_color (pf_depth p) (st_bg to)\<rparr> = ?s to" by (simp add: shown_style_def)
  then show ?thesis using takes_pen_append[OF 0 takes_pen_append[OF 1 takes_pen_append[OF 2 3]]] False
    by (simp add: sgr_transition_def Let_def reset_def[symmetric] base_def[symmetric])
qed (simp add: sgr_transition_def)

section \<open>Properties\<close>

text \<open>
  C29.  The pen sent is the pen read.  The escape sequences a change of style is written as, fed
  to a terminal whose pen is the old style, leave its pen at the new one, with the colours the
  depth of the client allows; they print nothing and leave the parser at rest.
\<close>

theorem sgr_read_back:
  assumes "known_attrs (st_attrs to)"
  shows "takes_pen (sgr_transition fr to p) (shown_style p fr) (shown_style p to)"
  by (rule sgr_transition_takes[OF assms])

theorem sgr_read_back_witness:
  "takes_pen (sgr_transition style_init \<lparr>st_fg = Rgb 1 2 3, st_bg = Rgb 9 9 9, st_attrs = attr_Bold OR attr_Reverse\<rparr>
      \<lparr>pf_depth = TrueColor, pf_utf8 = True\<rparr>) style_init
    \<lparr>st_fg = Rgb 1 2 3, st_bg = Rgb 9 9 9, st_attrs = attr_Bold OR attr_Reverse\<rparr>"
proof -
  let ?to = "\<lparr>st_fg = Rgb 1 2 3, st_bg = Rgb 9 9 9, st_attrs = attr_Bold OR attr_Reverse\<rparr>"
  let ?p = "\<lparr>pf_depth = TrueColor, pf_utf8 = True\<rparr>"
  have "known_attrs (st_attrs ?to)" 
    by (simp only: known_attrs_def attr_Bold_def attr_Reverse_def style.simps bit_or_iff bit_push_bit_iff bit_1_iff) auto
  then have "takes_pen (sgr_transition style_init ?to ?p) (shown_style ?p style_init) (shown_style ?p ?to)" by (rule sgr_read_back)
  moreover have "shown_style ?p style_init = style_init" "shown_style ?p ?to = ?to" by code_simp+
  ultimately show ?thesis by simp
qed

end
