(* ===== verification/Theme.thy ===== *)
theory Theme
  imports Profile
begin

text \<open>
  \<open>src/render/theme.cpp\<close> and \<open>gauge.cpp\<close>: the three palettes of the desktop, one per colour
  depth, and the bar of a gauge.
\<close>

record theme =
  th_desktop_bg :: color
  th_desktop_sign :: color
  th_panel_bg :: color
  th_panel_fg :: color
  th_accent :: color
  th_title_focus_bg :: color
  th_title_focus_fg :: color
  th_title_blur_bg :: color
  th_title_blur_fg :: color
  th_border_focus :: color
  th_border_blur :: color
  th_modal_bg :: color
  th_modal_fg :: color

definition theme_defaults :: theme where
  "theme_defaults = \<lparr>th_desktop_bg = Rgb 0x20 0x30 0x50, th_desktop_sign = Rgb 0x2C 0x40 0x68,
     th_panel_bg = Rgb 0x0C 0x0E 0x14, th_panel_fg = Rgb 0xC8 0xD0 0xDC, th_accent = Rgb 0x4A 0x9E 0xFF,
     th_title_focus_bg = Rgb 0x1E 0x5A 0xA8, th_title_focus_fg = Rgb 0xFF 0xFF 0xFF,
     th_title_blur_bg = Rgb 0x2C 0x32 0x40, th_title_blur_fg = Rgb 0x9A 0xA4 0xB4,
     th_border_focus = Rgb 0x4A 0x9E 0xFF, th_border_blur = Rgb 0x50 0x58 0x68,
     th_modal_bg = Rgb 0x28 0x2E 0x3C, th_modal_fg = Rgb 0xF0 0xF4 0xFA\<rparr>"

definition theme_indexed256 :: theme where
  "theme_indexed256 = \<lparr>th_desktop_bg = Indexed 17, th_desktop_sign = Indexed 18,
     th_panel_bg = Indexed 234, th_panel_fg = Indexed 252, th_accent = Indexed 75,
     th_title_focus_bg = Indexed 25, th_title_focus_fg = Indexed 231,
     th_title_blur_bg = Indexed 238, th_title_blur_fg = Indexed 145,
     th_border_focus = Indexed 75, th_border_blur = Indexed 240,
     th_modal_bg = Indexed 236, th_modal_fg = Indexed 255\<rparr>"

definition theme_mono16 :: theme where
  "theme_mono16 = \<lparr>th_desktop_bg = Indexed 4, th_desktop_sign = Indexed 12,
     th_panel_bg = Indexed 0, th_panel_fg = Indexed 7, th_accent = Indexed 6,
     th_title_focus_bg = Indexed 6, th_title_focus_fg = Indexed 0,
     th_title_blur_bg = Indexed 0, th_title_blur_fg = Indexed 7,
     th_border_focus = Indexed 7, th_border_blur = Indexed 4,
     th_modal_bg = Indexed 7, th_modal_fg = Indexed 0\<rparr>"

definition for_profile :: "theme \<Rightarrow> output_profile \<Rightarrow> theme" where
  "for_profile t p = (case pf_depth p of TrueColor \<Rightarrow> t | Indexed256 \<Rightarrow> theme_indexed256 | Mono16 \<Rightarrow> theme_mono16)"

definition gauge_bar :: "int \<Rightarrow> int \<Rightarrow> border \<Rightarrow> bytes" where
  "gauge_bar percent width b =
     (let full = (if b = BorderUnicode then [0xE2, 0x96, 0x88] else str ''#'');
          empty = (if b = BorderUnicode then [0xE2, 0x96, 0x91] else str ''-'');
          filled = cdiv (width * clampi percent 0 100) 100
      in concat (map (\<lambda>i. if i < filled then full else empty) [0..width - 1]))"

text \<open>The distinctions a palette has to keep once reduced to a depth: the desktop from the
  panel, a title bar that has the focus from one that has not, a text from its ground.\<close>

definition keeps_distinctions :: "theme \<Rightarrow> color_depth \<Rightarrow> bool" where
  "keeps_distinctions t d \<longleftrightarrow> (let q = (\<lambda>c. quantize_color c d) in
     q (th_desktop_bg t) \<noteq> q (th_panel_bg t) \<and> q (th_title_focus_bg t) \<noteq> q (th_title_blur_bg t)
     \<and> q (th_panel_fg t) \<noteq> q (th_panel_bg t) \<and> q (th_title_focus_fg t) \<noteq> q (th_title_focus_bg t)
     \<and> q (th_title_blur_fg t) \<noteq> q (th_title_blur_bg t) \<and> q (th_border_focus t) \<noteq> q (th_border_blur t)
     \<and> q (th_modal_fg t) \<noteq> q (th_modal_bg t))"

lemma themes_keep_distinctions:
  "keeps_distinctions (for_profile theme_defaults \<lparr>pf_depth = d, pf_utf8 = u\<rparr>) d"
  by (cases d) (simp_all add: keeps_distinctions_def for_profile_def theme_defaults_def theme_indexed256_def theme_mono16_def
      quantize_color_def rgb_of_def indexed_to_rgb_def quantize_16_def Let_def)

text \<open>The signature of the desktop is not one of them: in sixteen colours it has the colour
  of the ground it is written on.\<close>

lemma mono16_sign_invisible:
  "quantize_color (th_desktop_sign theme_mono16) Mono16 = quantize_color (th_desktop_bg theme_mono16) Mono16"
  by (simp add: theme_mono16_def quantize_color_def rgb_of_def indexed_to_rgb_def quantize_16_def Let_def)

end
