(* ===== verification/Menu.thy ===== *)
theory Menu
  imports Surface_Inv Theme Input
begin

text \<open>
  \<open>src/app/catalog.cpp\<close> and \<open>src/shell/menu.cpp\<close>: the applications the desktop offers and its
  launcher.  The menu keeps the whole list, the part of it the query lets through, and a selection;
  the rectangle laid out at the last composition is what drawing and hit testing both read.
\<close>

section \<open>Model\<close>

datatype catalog_app = MakeTerminal | MakeFiles | MakeEditor

record catalog_entry =
  ce_id :: bytes
  ce_label :: bytes
  ce_make :: catalog_app

definition catalog :: "catalog_entry list" where
  "catalog =
     [\<lparr>ce_id = str ''terminal'', ce_label = str ''Terminal'', ce_make = MakeTerminal\<rparr>,
      \<lparr>ce_id = str ''fichiers'', ce_label = str ''Fichiers'', ce_make = MakeFiles\<rparr>,
      \<lparr>ce_id = str ''editeur'', ce_label = str ''Editeur'', ce_make = MakeEditor\<rparr>]"

definition catalog_find :: "bytes \<Rightarrow> catalog_entry option" where
  "catalog_find i = find (\<lambda>e. ce_id e = i) catalog"

record menu_item =
  mi_id :: bytes
  mi_label :: bytes
  mi_enabled :: bool

definition item :: "bytes \<Rightarrow> bytes \<Rightarrow> menu_item" where
  "item i l = \<lparr>mi_id = i, mi_label = l, mi_enabled = True\<rparr>"

record menu =
  mn_open :: bool
  mn_anchored :: bool
  mn_anchor_x :: int
  mn_anchor_y :: int
  mn_query :: bytes
  mn_extra :: "menu_item list"
  mn_all :: "menu_item list"
  mn_shown :: "menu_item list"
  mn_sel :: int
  mn_rect :: rect

definition menu_init :: menu where
  "menu_init = \<lparr>mn_open = False, mn_anchored = False, mn_anchor_x = 0, mn_anchor_y = 0, mn_query = [], mn_extra = [],
     mn_all = [], mn_shown = [], mn_sel = 0, mn_rect = mk_rect 0 0 0 0\<rparr>"

definition kMenuWidth :: int where "kMenuWidth = 34"
definition kMenuChrome :: int where "kMenuChrome = 4"

definition lower :: "byte \<Rightarrow> byte" where
  "lower c = (if 0x41 \<le> c \<and> c \<le> 0x5A then c - 0x41 + 0x61 else c)"

definition contains_fold :: "bytes \<Rightarrow> bytes \<Rightarrow> bool" where
  "contains_fold hay needle \<longleftrightarrow> needle = [] \<or>
     length needle \<le> length hay \<and>
     list_ex (\<lambda>i. map lower (take (length needle) (drop i hay)) = map lower needle) [0..<length hay - length needle + 1]"

definition refilter :: "menu \<Rightarrow> menu" where
  "refilter m =
     (let shown = filter (\<lambda>it. contains_fold (mi_label it) (mn_query m)) (mn_all m)
      in m\<lparr>mn_shown := shown, mn_sel := max 0 (min (mn_sel m) (int (length shown) - 1))\<rparr>)"

definition set_extra_items :: "menu \<Rightarrow> menu_item list \<Rightarrow> menu" where
  "set_extra_items m xs = m\<lparr>mn_extra := xs\<rparr>"

definition menu_table :: "menu_item list" where
  "menu_table = map (\<lambda>e. item (str ''app:'' @ ce_id e) (ce_label e)) catalog @
     [item (str ''panel:top'') (str ''Panneau : haut''),
      item (str ''panel:bottom'') (str ''Panneau : bas''),
      item (str ''panel:left'') (str ''Panneau : gauche''),
      item (str ''panel:right'') (str ''Panneau : droite''),
      item (str ''wm:tile'') (str ''Ranger les fenetres''),
      item (str ''session:detach'') (str ''Quitter''),
      item (str ''session:quit'') (str ''Fermer la session'')]"

definition menu_open :: "menu \<Rightarrow> menu" where
  "menu_open m = refilter (m\<lparr>mn_open := True, mn_anchored := False, mn_query := [], mn_sel := 0,
     mn_all := menu_table @ mn_extra m\<rparr>)"

definition menu_open_at :: "menu \<Rightarrow> int \<Rightarrow> int \<Rightarrow> menu" where
  "menu_open_at m x y = (menu_open m)\<lparr>mn_anchored := True, mn_anchor_x := x, mn_anchor_y := y\<rparr>"

definition menu_close :: "menu \<Rightarrow> menu" where
  "menu_close m = m\<lparr>mn_open := False, mn_query := [], mn_shown := [], mn_sel := 0\<rparr>"

definition menu_type :: "menu \<Rightarrow> char32 \<Rightarrow> menu" where
  "menu_type m c = (if c < 32 \<or> c > 126 then m else refilter (m\<lparr>mn_query := mn_query m @ [ucast c]\<rparr>))"

definition menu_backspace :: "menu \<Rightarrow> menu" where
  "menu_backspace m = (if mn_query m = [] then m else refilter (m\<lparr>mn_query := butlast (mn_query m)\<rparr>))"

definition menu_move :: "menu \<Rightarrow> int \<Rightarrow> menu" where
  "menu_move m delta =
     (if mn_shown m = [] then m
      else let n = int (length (mn_shown m)) in m\<lparr>mn_sel := crem (crem (mn_sel m + delta) n + n) n\<rparr>)"

definition menu_selected :: "menu \<Rightarrow> menu_item option" where
  "menu_selected m =
     (if \<not> mn_open m \<or> mn_shown m = [] then None
      else if mn_sel m < 0 \<or> mn_sel m \<ge> int (length (mn_shown m)) then None
      else Some (mn_shown m ! nat (mn_sel m)))"

definition menu_rect :: "menu \<Rightarrow> int \<Rightarrow> int \<Rightarrow> rect" where
  "menu_rect m cols rows =
     (let want = int (if mn_shown m = [] then length (mn_all m) else length (mn_shown m));
          h = max (min (rows - 1) (want + kMenuChrome)) (kMenuChrome + 1);
          w = min cols kMenuWidth
      in if mn_anchored m then
           let x1 = (if mn_anchor_x m + w > cols then cols - w else mn_anchor_x m);
               y1 = (if mn_anchor_y m + h > rows then rows - h else mn_anchor_y m)
           in mk_rect (if x1 < 0 then 0 else x1) (if y1 < 0 then 0 else y1) w h
         else let y = rows - 1 - h in mk_rect 0 (if y < 0 then 0 else y) w h)"

definition menu_layout :: "menu \<Rightarrow> int \<Rightarrow> int \<Rightarrow> menu" where
  "menu_layout m cols rows = m\<lparr>mn_rect := menu_rect m cols rows\<rparr>"

text \<open>The rows of entries on the screen, as \<open>draw\<close> goes through them: row and index.\<close>

definition menu_draw_rows :: "menu \<Rightarrow> (int \<times> int) list" where
  "menu_draw_rows m =
     (let rows_for_items = rh (mn_rect m) - kMenuChrome;
          first = (if mn_sel m \<ge> rows_for_items then mn_sel m - rows_for_items + 1 else 0)
      in map (\<lambda>i. (ry (mn_rect m) + 3 + i, first + i))
           (takeWhile (\<lambda>i. first + i < int (length (mn_shown m))) [0..rows_for_items - 1]))"

definition menu_draw :: "bool \<Rightarrow> rect \<Rightarrow> surface \<Rightarrow> menu \<Rightarrow> theme \<Rightarrow> border \<Rightarrow> surface" where
  "menu_draw amb v s m th b =
     (if \<not> mn_open m then s
      else
        let r = mn_rect m;
            st = style_init\<lparr>st_bg := th_modal_bg th, st_fg := th_modal_fg th\<rparr>;
            s1 = view_box amb v (view_fill v s r st) r b st;
            inner_x = rx r + 1; inner_w = rw r - 2
        in if inner_w \<le> 0 then s1
           else
             let sel = st\<lparr>st_bg := th_accent th, st_fg := th_modal_bg th\<rparr>;
                 dim = st\<lparr>st_fg := th_border_blur th\<rparr>;
                 s2 = fst (view_text amb v s1 inner_x (ry r + 1) (str ''> '' @ mn_query m) st);
                 s3 = foldl (\<lambda>s i. view_put amb v s (inner_x + i) (ry r + 2) 0x2D st) s2 [0..inner_w - 1]
             in foldl (\<lambda>s (y, idx).
                   let it = mn_shown m ! nat idx in
                   fst (view_text amb v s inner_x y (mi_label it)
                     (if idx = mn_sel m then sel else if mi_enabled it then st else dim)))
                 s3 (menu_draw_rows m))"

datatype menu_where = MHNone | MHBody | MHSearch | MHItem int

definition menu_hit :: "menu \<Rightarrow> int \<Rightarrow> int \<Rightarrow> menu_where" where
  "menu_hit m x y =
     (if \<not> mn_open m \<or> \<not> contains (mn_rect m) x y then MHNone
      else if y = ry (mn_rect m) + 1 then MHSearch
      else
        let rows_for_items = rh (mn_rect m) - kMenuChrome;
            first = (if mn_sel m \<ge> rows_for_items then mn_sel m - rows_for_items + 1 else 0);
            row = y - (ry (mn_rect m) + 3)
        in if row \<ge> 0 \<and> row < rows_for_items \<and> first + row < int (length (mn_shown m))
           then MHItem (first + row) else MHBody)"

section \<open>The invariant\<close>

definition menu_ok :: "menu \<Rightarrow> bool" where
  "menu_ok m \<longleftrightarrow> 0 \<le> mn_sel m \<and> mn_sel m \<le> max 0 (int (length (mn_shown m)) - 1)
     \<and> set (mn_shown m) \<subseteq> set (mn_all m)"

lemma menu_init_ok [simp]: "menu_ok menu_init"
  by (simp add: menu_ok_def menu_init_def)

lemma refilter_ok [simp]: "menu_ok (refilter m)"
  by (auto simp: menu_ok_def refilter_def Let_def)

lemma menu_ok_upd [simp]:
  "menu_ok (m\<lparr>mn_anchored := b\<rparr>) = menu_ok m" "menu_ok (m\<lparr>mn_anchor_x := i\<rparr>) = menu_ok m"
  "menu_ok (m\<lparr>mn_anchor_y := i\<rparr>) = menu_ok m" "menu_ok (m\<lparr>mn_rect := r\<rparr>) = menu_ok m"
  "menu_ok (m\<lparr>mn_extra := xs\<rparr>) = menu_ok m"
  by (simp_all add: menu_ok_def)

lemma menu_ops_ok [inv_intros]:
  "menu_ok (menu_open m)" "menu_ok (menu_open_at m x y)" "menu_ok (menu_close m)"
  "menu_ok m \<Longrightarrow> menu_ok (menu_type m c)" "menu_ok m \<Longrightarrow> menu_ok (menu_backspace m)"
  "menu_ok m \<Longrightarrow> menu_ok (menu_layout m w h)" "menu_ok m \<Longrightarrow> menu_ok (set_extra_items m xs)"
  by (simp_all add: menu_open_def menu_open_at_def menu_type_def menu_backspace_def menu_layout_def set_extra_items_def)
    (simp add: menu_close_def menu_ok_def)

lemma menu_move_ok [inv_intros]: "menu_ok m \<Longrightarrow> menu_ok (menu_move m d)"
proof (cases "mn_shown m = []")
  case False
  then have n: "0 < int (length (mn_shown m))" by simp
  assume "menu_ok m"
  then show ?thesis using False pos_mod_bound[OF n, of "mn_sel m + d"] pos_mod_sign[OF n, of "mn_sel m + d"]
    by (simp add: menu_ok_def menu_move_def Let_def crem_wrap[OF n] del: of_nat_0_less_iff)
qed (simp add: menu_move_def)

lemma menu_selected_some: "menu_ok m \<Longrightarrow> mn_open m \<Longrightarrow> mn_shown m \<noteq> [] \<Longrightarrow> menu_selected m = Some (mn_shown m ! nat (mn_sel m))"
  by (auto simp: menu_ok_def menu_selected_def)

section \<open>What is clicked is what is drawn\<close>

lemma takeWhile_upto: "takeWhile (\<lambda>i. f + i < n) [a..b] = [a..min b (n - f - 1)]" for a b f n :: int
proof (induction "nat (b - a + 1)" arbitrary: a)
  case (Suc k)
  then have u: "[a..b] = a # [a + 1..b]" by (simp add: upto_rec1)
  have ih: "takeWhile (\<lambda>i. f + i < n) [a + 1..b] = [a + 1..min b (n - f - 1)]" using Suc(1)[of "a + 1"] Suc(2) by simp
  show ?case
  proof (cases "f + a < n")
    case True
    then have "[a..min b (n - f - 1)] = a # [a + 1..min b (n - f - 1)]" using Suc(2) by (simp add: upto_rec1)
    then show ?thesis using u ih True by simp
  qed (use u in simp)
qed simp

lemma menu_draw_rows_iff:
  "(y, idx) \<in> set (menu_draw_rows m) \<longleftrightarrow>
     (let k = rh (mn_rect m) - kMenuChrome; first = (if mn_sel m \<ge> k then mn_sel m - k + 1 else 0); row = y - (ry (mn_rect m) + 3)
      in 0 \<le> row \<and> row < k \<and> idx = first + row \<and> idx < int (length (mn_shown m)))"
  by (auto simp: menu_draw_rows_def Let_def takeWhile_upto image_iff intro!: bexI[of _ "y - (ry (mn_rect m) + 3)"])

lemma menu_hit_drawn:
  assumes "mn_open m" "contains (mn_rect m) x y"
  shows "menu_hit m x y = MHItem idx \<longleftrightarrow> (y, idx) \<in> set (menu_draw_rows m)"
  using assms by (auto simp: menu_draw_rows_iff menu_hit_def Let_def)

lemma menu_selection_drawn:
  assumes "menu_ok m" "mn_shown m \<noteq> []" "kMenuChrome < rh (mn_rect m)"
  shows "\<exists>y. (y, mn_sel m) \<in> set (menu_draw_rows m) \<and> ry (mn_rect m) < y \<and> y < ry (mn_rect m) + rh (mn_rect m)"
proof -
  let ?k = "rh (mn_rect m) - kMenuChrome"
  let ?row = "if mn_sel m \<ge> ?k then ?k - 1 else mn_sel m"
  have "(ry (mn_rect m) + 3 + ?row, mn_sel m) \<in> set (menu_draw_rows m)"
    using assms by (cases "mn_shown m") (auto simp: menu_draw_rows_iff Let_def menu_ok_def)
  moreover have "ry (mn_rect m) < ry (mn_rect m) + 3 + ?row" "ry (mn_rect m) + 3 + ?row < ry (mn_rect m) + rh (mn_rect m)"
    using assms by (auto simp: menu_ok_def kMenuChrome_def)
  ultimately show ?thesis by blast
qed

lemma menu_layout_tall: "kMenuChrome < rh (mn_rect (menu_layout m cols rows))"
  by (simp add: menu_layout_def menu_rect_def Let_def kMenuChrome_def)

lemma menu_draw_draws: "draws amb v s (menu_draw amb v s m th b)"
  unfolding menu_draw_def Let_def by (intro draws_after) (auto intro!: draws_after split: prod.splits)

section \<open>Properties\<close>

text \<open>
  What is clicked in the menu is what is drawn there, and the selection is always on the screen.
  However the list was filtered and the selection moved, once laid out: a cell of the menu answers an
  entry exactly when that entry's label is drawn on its row, and when there is an entry at all the
  selected one is drawn on a row inside the frame, and is the one the Return key takes.
\<close>

theorem menu_click_where_drawn:
  assumes "menu_ok m" "mn_open m" "m' = menu_layout m cols rows"
  shows "(contains (mn_rect m') x y \<longrightarrow> (menu_hit m' x y = MHItem idx \<longleftrightarrow> (y, idx) \<in> set (menu_draw_rows m')))
     \<and> (mn_shown m \<noteq> [] \<longrightarrow> menu_selected m' = Some (mn_shown m ! nat (mn_sel m))
          \<and> (\<exists>y. (y, mn_sel m) \<in> set (menu_draw_rows m') \<and> ry (mn_rect m') < y \<and> y < ry (mn_rect m') + rh (mn_rect m')))"
proof -
  have m': "menu_ok m'" "mn_open m'" "mn_shown m' = mn_shown m" "mn_sel m' = mn_sel m"
    using assms by (simp_all add: menu_layout_def)
  have "kMenuChrome < rh (mn_rect m')" unfolding assms(3) by (rule menu_layout_tall)
  then show ?thesis using menu_hit_drawn[OF m'(2), of x y idx] menu_selection_drawn[OF m'(1)] menu_selected_some[OF m'(1,2)] m'(3,4)
    by simp
qed

theorem menu_click_where_drawn_witness:
  "menu_hit (menu_layout (menu_open menu_init) 80 24) 5 12 = MHItem 0"
proof -
  have h: "menu_ok (menu_open menu_init)" "mn_open (menu_open menu_init)"
    by (rule menu_ops_ok(1)) (simp add: menu_open_def refilter_def Let_def)
  have "contains (mn_rect (menu_layout (menu_open menu_init) 80 24)) 5 12"
    "(12, 0) \<in> set (menu_draw_rows (menu_layout (menu_open menu_init) 80 24))" by code_simp+
  then show ?thesis using menu_click_where_drawn[OF h refl, of 80 24 5 12 0] by simp
qed

end
