(* ===== verification/Lines.thy ===== *)
theory Lines
  imports Prelude
begin

text \<open>
  Texts cut at their line ends.  Four parts of the program hold the same loop, which looks
  for the next \<open>'\n'\<close> from a position and takes what is before it: the editor's buffer, the
  configuration file, the update state, the body of a dialogue.  \<open>split_lines\<close> is that loop,
  \<open>cut_lines\<close> and \<open>join_lines\<close> the specification it is shown to meet.
\<close>

definition nl :: byte where "nl = 0x0A"

lemma find_sub_bounds: "find_sub i needle xs = Some k \<Longrightarrow> i \<le> k \<and> k \<le> i + length xs"
  by (induction i needle xs rule: find_sub.induct) (auto split: if_splits)

lemma find_from_bounds: "find_from s needle i = Some k \<Longrightarrow> i \<le> k \<and> k \<le> length s"
  unfolding find_from_def by (auto split: if_splits dest: find_sub_bounds)

function lines_loop :: "bytes \<Rightarrow> nat \<Rightarrow> bytes list" where
  "lines_loop s start =
     (if start \<le> length s then
        (case find_from s [nl] start of
           None \<Rightarrow> [drop start s]
         | Some k \<Rightarrow> take (k - start) (drop start s) # lines_loop s (k + 1))
      else [])"
  by pat_completeness auto
termination
  by (relation "measure (\<lambda>(s, i). Suc (length s) - i)") (auto dest: find_from_bounds)

declare lines_loop.simps [simp del]

definition split_lines :: "bytes \<Rightarrow> bytes list" where
  "split_lines s = lines_loop s 0"

text \<open>A search finds the first occurrence.\<close>

lemma find_sub_first: "find_sub i needle xs = Some k \<Longrightarrow> i \<le> j \<Longrightarrow> j < k \<Longrightarrow> \<not> occurs needle xs (j - i)"
proof (induction i needle xs rule: find_sub.induct)
  case (2 i needle x xs)
  show ?case
  proof (cases "j = i")
    case False
    then have j: "Suc i \<le> j" using 2(3) by simp
    then have "\<not> occurs needle xs (j - Suc i)" using 2 by (auto split: if_splits)
    moreover have "j - i = Suc (j - Suc i)" using j by simp
    ultimately show ?thesis by (simp add: occurs_def)
  qed (use 2 in \<open>auto simp: occurs_def split: if_splits\<close>)
qed (auto split: if_splits)

lemma find_from_first: "find_from s needle i = Some k \<Longrightarrow> i \<le> j \<Longrightarrow> j < k \<Longrightarrow> \<not> occurs needle s j"
  using find_sub_first[of i needle "drop i s" k j] by (auto simp: find_from_def occurs_def split: if_splits)

section \<open>Specification\<close>

fun cut_lines :: "bytes \<Rightarrow> bytes list" where
  "cut_lines [] = [[]]"
| "cut_lines (c # cs) =
     (if c = nl then [] # cut_lines cs
      else (case cut_lines cs of l # ls \<Rightarrow> (c # l) # ls | [] \<Rightarrow> [[c]]))"

fun join_lines :: "bytes list \<Rightarrow> bytes" where
  "join_lines [] = []"
| "join_lines [l] = l"
| "join_lines (l # ls) = l @ nl # join_lines ls"

lemma cut_lines_ne [simp]: "cut_lines s \<noteq> []"
  by (induction s) (auto split: list.splits)

lemma join_lines_Cons: "join_lines (l # ls) = (if ls = [] then l else l @ nl # join_lines ls)"
  by (cases ls) auto

lemma join_cut [simp]: "join_lines (cut_lines s) = s"
proof (induction s)
  case (Cons c cs)
  then show ?case by (cases "cut_lines cs") (auto simp: join_lines_Cons)
qed simp

lemma cut_lines_clean: "l \<in> set (cut_lines s) \<Longrightarrow> nl \<notin> set l"
proof (induction s arbitrary: l)
  case (Cons c cs)
  then show ?case by (cases "cut_lines cs") (auto split: if_splits)
qed simp

lemma cut_lines_end: "nl \<notin> set s \<Longrightarrow> cut_lines s = [s]"
  by (induction s) auto

lemma cut_lines_app: "nl \<notin> set l \<Longrightarrow> cut_lines (l @ nl # s) = l # cut_lines s"
  by (induction l) (auto split: list.splits)

lemma cut_join: "ls \<noteq> [] \<Longrightarrow> (\<forall>l \<in> set ls. nl \<notin> set l) \<Longrightarrow> cut_lines (join_lines ls) = ls"
  by (induction ls rule: join_lines.induct) (auto simp: cut_lines_end cut_lines_app)

lemma find_sub_one: "find_sub i [c] xs = (if c \<in> set xs then Some (i + length (takeWhile (\<lambda>x. x \<noteq> c) xs)) else None)"
  by (induction xs arbitrary: i) auto

lemma takeWhile_less: "x \<in> set xs \<Longrightarrow> \<not> P x \<Longrightarrow> length (takeWhile P xs) < length xs"
  by (induction xs) auto

lemma cut_lines_rec:
  "cut_lines s = (if nl \<in> set s then let k = length (takeWhile (\<lambda>x. x \<noteq> nl) s) in take k s # cut_lines (drop (Suc k) s)
     else [s])"
proof (cases "nl \<in> set s")
  case True
  let ?k = "length (takeWhile (\<lambda>x. x \<noteq> nl) s)"
  have k: "take ?k s = takeWhile (\<lambda>x. x \<noteq> nl) s" by (rule takeWhile_eq_take[symmetric])
  have d: "drop ?k s = nl # drop (Suc ?k) s"
  proof -
    have "dropWhile (\<lambda>x. x \<noteq> nl) s = drop ?k s" by (simp add: dropWhile_eq_drop)
    moreover have "dropWhile (\<lambda>x. x \<noteq> nl) s \<noteq> []" using True by simp
    moreover have "hd (dropWhile (\<lambda>x. x \<noteq> nl) s) = nl" using hd_dropWhile[of "\<lambda>x. x \<noteq> nl" s] True by simp
    ultimately show ?thesis by (metis drop_Suc drop_tl list.collapse)
  qed
  have "nl \<notin> set (take ?k s)" unfolding k using set_takeWhileD by fastforce
  then show ?thesis using cut_lines_app[of "take ?k s" "drop (Suc ?k) s"] d append_take_drop_id[of ?k s] True
    by (simp add: Let_def)
qed (simp add: cut_lines_end)

text \<open>The loop is the specification.\<close>

lemma lines_loop_cut: "i \<le> length s \<Longrightarrow> lines_loop s i = cut_lines (drop i s)"
proof (induction s i rule: lines_loop.induct)
  case (1 s i)
  let ?k = "length (takeWhile (\<lambda>x. x \<noteq> nl) (drop i s))"
  have f: "find_from s [nl] i = (if nl \<in> set (drop i s) then Some (i + ?k) else None)"
    using 1(2) by (simp add: find_from_def find_sub_one)
  show ?case
  proof (cases "nl \<in> set (drop i s)")
    case True
    have b: "?k < length (drop i s)" using takeWhile_less[OF True, of "\<lambda>x. x \<noteq> nl"] by simp
    then have "lines_loop s (i + ?k + 1) = cut_lines (drop (Suc ?k) (drop i s))"
      using 1(1)[of "i + ?k"] 1(2) f True by (simp add: add.commute)
    then show ?thesis using 1(2) f True b by (subst lines_loop.simps) (simp add: cut_lines_rec[of "drop i s"] Let_def)
  next
    case False
    then show ?thesis using 1(2) f by (subst lines_loop.simps) (simp add: cut_lines_end)
  qed
qed

lemma split_lines_cut [simp]: "split_lines s = cut_lines s"
  by (simp add: split_lines_def lines_loop_cut)

end
