(* ===== verification/Config.thy ===== *)
theory Config
  imports Lines
begin

text \<open>
  \<open>src/daemon/config.cpp\<close>: the settings the user chooses, their text form, and their file.
  The disk is a map from paths to contents with the directories made; what the environment and
  the system answer are arguments.
\<close>

section \<open>Model\<close>

definition is_blank :: "byte \<Rightarrow> bool" where
  "is_blank c \<longleftrightarrow> c = 0x20 \<or> c = 0x09"

definition cfg_trim :: "bytes \<Rightarrow> bytes" where
  "cfg_trim s = rev (dropWhile (\<lambda>c. is_blank c \<or> c = 0x0D) (rev (dropWhile is_blank s)))"

record desktop_config =
  start_dir :: bytes

definition config_init :: desktop_config where
  "config_init = \<lparr>start_dir = []\<rparr>"

definition config_line :: "desktop_config \<Rightarrow> bytes \<Rightarrow> desktop_config" where
  "config_line out ligne =
     (let net = cfg_trim ligne in
      if net = [] \<or> hd net = 0x23 then out
      else (case find_from net [0x3D] 0 of
          None \<Rightarrow> out
        | Some egal \<Rightarrow>
            let cle = cfg_trim (take egal net); valeur = cfg_trim (drop (egal + 1) net) in
            if cle = [] then out
            else if cle = str ''start_dir'' then out\<lparr>start_dir := valeur\<rparr>
            else out))"

definition parse_config :: "bytes \<Rightarrow> desktop_config" where
  "parse_config texte = foldl config_line config_init (split_lines texte)"

definition config_banner :: "bytes list" where
  "config_banner =
     [str ''# Reglages du bureau termos. Modifiable a la main ; le demon le relit'',
      str ''# a son demarrage et le reecrit quand on change un reglage depuis le'',
      str ''# bureau. Une ligne inconnue est ignoree, pas effacee au prochain tour.'']"

definition render_config :: "desktop_config \<Rightarrow> bytes" where
  "render_config c =
     concat (map (\<lambda>l. l @ [nl]) config_banner) @
     (if start_dir c \<noteq> [] then str ''start_dir = '' @ start_dir c @ [nl] else [])"

record disk =
  dk_files :: "bytes \<rightharpoonup> bytes"
  dk_made :: "bytes list"

definition kConfigMax :: nat where "kConfigMax = 64 * 1024"

definition load_config :: "disk \<Rightarrow> bytes \<Rightarrow> desktop_config" where
  "load_config d path =
     (if path = [] then config_init
      else (case dk_files d path of None \<Rightarrow> config_init | Some buf \<Rightarrow> parse_config (take kConfigMax buf)))"

text \<open>The directories \<open>save_config\<close> makes: every prefix of the path that ends at a separator.\<close>

definition rfind :: "byte \<Rightarrow> bytes \<Rightarrow> nat option" where
  "rfind c s = (if c \<in> set s then Some (length s - 1 - length (takeWhile (\<lambda>x. x \<noteq> c) (rev s))) else None)"

definition config_dirs :: "bytes \<Rightarrow> bytes list" where
  "config_dirs path =
     (case rfind 0x2F path of
        None \<Rightarrow> []
      | Some slash \<Rightarrow>
          if slash = 0 then []
          else let dir = take slash path in
            map (\<lambda>i. take i dir) (filter (\<lambda>i. \<not> (i < length dir \<and> dir ! i \<noteq> 0x2F)) [1..<length dir + 1]))"

text \<open>
  How writing goes: the stream does not open; the insertion itself fails, with what had reached
  the temporary file; or the stream is closed with so many bytes on the disk, and the rename
  succeeds or not.  What the stream's destructor could not flush is not reported to the code.
\<close>

datatype write_outcome = WNoOpen | WBad nat | WClosed nat bool

definition save_config :: "write_outcome \<Rightarrow> disk \<Rightarrow> bytes \<Rightarrow> desktop_config \<Rightarrow> disk \<times> bool" where
  "save_config w d path c =
     (if path = [] then (d, False)
      else
        let d1 = d\<lparr>dk_made := dk_made d @ config_dirs path\<rparr>;
            tmp = path @ str ''.tmp'';
            put = (\<lambda>n. (dk_files d1)(tmp \<mapsto> take n (render_config c)))
        in (case w of
              WNoOpen \<Rightarrow> (d1, False)
            | WBad n \<Rightarrow> (d1\<lparr>dk_files := put n\<rparr>, False)
            | WClosed n renamed \<Rightarrow>
                if \<not> renamed then (d1\<lparr>dk_files := (put n)(tmp := None)\<rparr>, False)
                else (d1\<lparr>dk_files := (put n)(tmp := None, path := put n tmp)\<rparr>, True)))"

definition expand_home :: "bytes \<Rightarrow> bytes \<Rightarrow> bytes" where
  "expand_home p home =
     (if p = [] \<or> p ! 0 \<noteq> 0x7E then p
      else if length p = 1 then home
      else if p ! 1 \<noteq> 0x2F then p
      else home @ drop 1 p)"

record settings =
  set_path :: bytes
  set_home :: bytes
  set_config :: desktop_config

definition settings_open :: "disk \<Rightarrow> bytes \<Rightarrow> bytes \<Rightarrow> settings" where
  "settings_open d path home = \<lparr>set_path = path, set_home = home, set_config = load_config d path\<rparr>"

definition settings_start_dir :: "settings \<Rightarrow> bytes" where
  "settings_start_dir s =
     (if start_dir (set_config s) = [] then set_home s else expand_home (start_dir (set_config s)) (set_home s))"

definition set_start_dir :: "write_outcome \<Rightarrow> disk \<Rightarrow> settings \<Rightarrow> bytes \<Rightarrow> settings \<times> disk \<times> bool" where
  "set_start_dir w d s dir =
     (let s1 = s\<lparr>set_config := (set_config s)\<lparr>start_dir := dir\<rparr>\<rparr>
      in (s1, save_config w d (set_path s1) (set_config s1)))"

text \<open>\<open>src/common/paths.cpp\<close>; the two variables of the environment are the arguments.\<close>

definition user_data_dir :: "bytes option \<Rightarrow> bytes option \<Rightarrow> bytes" where
  "user_data_dir xdg home =
     (case xdg of
        Some x \<Rightarrow> if x \<noteq> [] then x @ str ''/termos''
          else (case home of None \<Rightarrow> [] | Some h \<Rightarrow> if h = [] then [] else h @ str ''/.local/share/termos'')
      | None \<Rightarrow> (case home of None \<Rightarrow> [] | Some h \<Rightarrow> if h = [] then [] else h @ str ''/.local/share/termos''))"

definition desktop_config_path :: "bytes option \<Rightarrow> bytes option \<Rightarrow> bytes" where
  "desktop_config_path xdg home = (let dir = user_data_dir xdg home in if dir = [] then [] else dir @ str ''/config'')"

section \<open>Lemmas\<close>

lemma drop_ends:
  obtains t where "v = rev (dropWhile P (rev v)) @ t" "\<forall>c \<in> set t. P c"
    "rev (dropWhile P (rev v)) = [] \<or> \<not> P (last (rev (dropWhile P (rev v))))"
proof
  show "v = rev (dropWhile P (rev v)) @ rev (takeWhile P (rev v))"
    by (metis rev_append rev_rev_ident takeWhile_dropWhile_id)
  show "\<forall>c \<in> set (rev (takeWhile P (rev v))). P c" by (auto dest: set_takeWhileD)
  show "rev (dropWhile P (rev v)) = [] \<or> \<not> P (last (rev (dropWhile P (rev v))))"
    using hd_dropWhile[of P "rev v"] by (auto simp: last_rev)
qed

lemma drop_tail: "\<forall>c \<in> set t. P c \<Longrightarrow> rev (dropWhile P (rev (u @ t))) = rev (dropWhile P (rev u))"
  using dropWhile_append2[of "rev t" P "rev u"] by simp

lemma drop_tail_app: "v \<noteq> [] \<Longrightarrow> \<not> P (last v) \<Longrightarrow> rev (dropWhile P (rev (u @ v))) = u @ v"
  by (cases v rule: rev_cases) auto

text \<open>Trimming a value that stands after other text trims its end only; its front is trimmed later.\<close>

lemma cfg_trim_cut:
  assumes "v = u @ t" "\<forall>c \<in> set t. is_blank c \<or> c = 0x0D" "u = [] \<or> \<not> (is_blank (last u) \<or> last u = 0x0D)"
  shows "cfg_trim v = cfg_trim u"
proof (cases "u = []")
  case True
  have "dropWhile (\<lambda>c. is_blank c \<or> c = 0x0D) (rev (dropWhile is_blank t)) = []"
    using assms(2) by (auto dest: set_dropWhileD)
  then show ?thesis using True assms(1) by (simp add: cfg_trim_def)
next
  case False
  then have "\<not> is_blank (last u)" "last u \<in> set u" using assms(3) by auto
  then have "dropWhile is_blank v = dropWhile is_blank u @ t" using assms(1) by (simp add: dropWhile_append1)
  then show ?thesis unfolding cfg_trim_def using drop_tail[OF assms(2), of "dropWhile is_blank u"] by simp
qed

lemma config_line_start_dir: "config_line out (str ''start_dir = '' @ v) = out\<lparr>start_dir := cfg_trim v\<rparr>"
proof -
  let ?P = "\<lambda>c. is_blank c \<or> c = 0x0D"
  let ?k = "str ''start_dir''"
  define u where "u = rev (dropWhile ?P (rev v))"
  obtain t where v: "v = u @ t" "\<forall>c \<in> set t. ?P c" "u = [] \<or> \<not> ?P (last u)"
    unfolding u_def by (rule drop_ends)
  have s: "str ''start_dir = '' @ v = (?k @ [0x20, 0x3D, 0x20] @ u) @ t" using v(1) by (simp add: str_def)
  have "dropWhile is_blank ((?k @ [0x20, 0x3D, 0x20] @ u) @ t) = (?k @ [0x20, 0x3D, 0x20] @ u) @ t" by (simp add: str_def is_blank_def)
  then have net: "cfg_trim ((?k @ [0x20, 0x3D, 0x20] @ u) @ t) = (if u = [] then ?k @ [0x20, 0x3D] else ?k @ [0x20, 0x3D, 0x20] @ u)"
    unfolding cfg_trim_def drop_tail[OF v(2)]
    using drop_tail_app[of u ?P "?k @ [0x20, 0x3D, 0x20]"] v(3) drop_tail[OF v(2), of "?k @ [0x20, 0x3D, 0x20] @ u"]
    by (auto simp: is_blank_def str_def)
  have f: "find_from (?k @ [0x20, 0x3D] @ x) [0x3D] 0 = Some 10" for x
    by (simp add: find_from_def find_sub_one str_def)
  have k: "cfg_trim (take 10 (?k @ [0x20, 0x3D] @ x)) = ?k" for x by (simp add: str_def cfg_trim_def is_blank_def)
  have "drop 11 (?k @ [0x20, 0x3D] @ x) = x" for x by (simp add: str_def)
  moreover have "cfg_trim (0x20 # u) = cfg_trim u" "cfg_trim [] = []" by (simp_all add: cfg_trim_def is_blank_def)
  moreover have "cfg_trim v = cfg_trim u" by (rule cfg_trim_cut[OF v])
  ultimately show ?thesis unfolding s config_line_def net Let_def using f[of "[]"] f[of "0x20 # u"] k[of "[]"] k[of "0x20 # u"]
    by (simp add: str_def)
qed

lemma config_line_comment: "l \<in> set config_banner \<Longrightarrow> config_line out l = out"
  by (auto simp: config_banner_def config_line_def Let_def str_def cfg_trim_def is_blank_def)

lemma config_line_empty: "config_line out [] = out"
  by (simp add: config_line_def cfg_trim_def)

lemma cut_lines_concat:
  "\<forall>l \<in> set ls. nl \<notin> set l \<Longrightarrow> cut_lines (concat (map (\<lambda>l. l @ [nl]) ls) @ s) = ls @ cut_lines s"
  by (induction ls) (auto simp: cut_lines_app)

lemma banner_clean: "\<forall>l \<in> set config_banner. nl \<notin> set l"
  by (simp add: config_banner_def str_def nl_def)

lemma parse_render:
  assumes "nl \<notin> set (start_dir c)"
  shows "parse_config (render_config c) = c\<lparr>start_dir := cfg_trim (start_dir c)\<rparr>"
proof -
  have b: "foldl config_line config_init config_banner = config_init"
    using config_line_comment by (simp add: config_banner_def)
  show ?thesis
  proof (cases "start_dir c = []")
    case True
    then have "config_init = c\<lparr>start_dir := cfg_trim (start_dir c)\<rparr>" by (simp add: config_init_def cfg_trim_def)
    then show ?thesis using True cut_lines_concat[OF banner_clean, of "[]"]
      by (simp add: parse_config_def render_config_def b config_line_empty)
  next
    case False
    have "nl \<notin> set (str ''start_dir = '' @ start_dir c)" using assms by (simp add: str_def nl_def)
    then have "cut_lines (str ''start_dir = '' @ start_dir c @ [nl]) = [str ''start_dir = '' @ start_dir c, []]"
      using cut_lines_app[of "str ''start_dir = '' @ start_dir c" "[]"] by simp
    then show ?thesis using False
      by (simp add: parse_config_def render_config_def cut_lines_concat[OF banner_clean] b config_line_empty
          config_line_start_dir config_init_def)
  qed
qed

section \<open>Properties\<close>

text \<open>
  C32.  A setting survives a restart.  The user chose a start directory, any text without a line end.
  Whether or not writing succeeds, the running daemon uses it as it was written; when writing is reported
  as failed the file that was there is untouched; and when the file was written whole and is no longer
  than what is read back, the next daemon finds that directory without the blanks at its two ends.
\<close>

theorem config_roundtrip:
  assumes "nl \<notin> set dir" "set_start_dir w d s dir = (s', d', saved)"
  shows "start_dir (set_config s') = dir
     \<and> (\<not> saved \<longrightarrow> dk_files d' (set_path s) = dk_files d (set_path s))
     \<and> (saved \<and> w = WClosed n True \<and> length (render_config (set_config s')) \<le> min n kConfigMax
          \<longrightarrow> start_dir (set_config (settings_open d' (set_path s) home)) = cfg_trim dir)"
proof -
  let ?c = "(set_config s)\<lparr>start_dir := dir\<rparr>"
  have s': "set_config s' = ?c" "save_config w d (set_path s) ?c = (d', saved)"
    using assms(2) by (auto simp: set_start_dir_def Let_def)
  have p: "start_dir (parse_config (render_config ?c)) = cfg_trim dir" using parse_render[of ?c] assms(1) by simp
  have "set_path s @ str ''.tmp'' \<noteq> set_path s" by (simp add: str_def)
  then show ?thesis using s' p
    by (auto simp: save_config_def settings_open_def load_config_def Let_def split: if_splits write_outcome.splits)
qed

theorem config_roundtrip_witness:
  "start_dir (set_config (settings_open
     (fst (snd (set_start_dir (WClosed 4096 True) \<lparr>dk_files = Map.empty, dk_made = []\<rparr>
        \<lparr>set_path = str ''/c'', set_home = str ''/h'', set_config = config_init\<rparr> (str ''~/dev''))))
     (str ''/c'') (str ''/h''))) = str ''~/dev''"
proof -
  have t: "nl \<notin> set (str ''~/dev'')" "cfg_trim (str ''~/dev'') = str ''~/dev''"
    by (simp_all add: cfg_trim_def str_def is_blank_def nl_def)
  let ?r = "set_start_dir (WClosed 4096 True) \<lparr>dk_files = Map.empty, dk_made = []\<rparr>
        \<lparr>set_path = str ''/c'', set_home = str ''/h'', set_config = config_init\<rparr> (str ''~/dev'')"
  obtain s' d' b where r: "?r = (s', d', b)" by (cases ?r)
  have b: "b" "length (render_config (set_config s')) \<le> min 4096 kConfigMax"
    using r by (auto simp: set_start_dir_def save_config_def Let_def str_def render_config_def config_banner_def kConfigMax_def)
  show ?thesis using config_roundtrip[OF t(1) r, of 4096 "str ''/h''"] r b t(2) by simp
qed

end
