(* ===== verification/Wm_Geometry.thy ===== *)
theory Wm_Geometry
  imports Cell
begin

text \<open>
  The geometry of the window manager: \<open>src/wm/window.cpp\<close> (client area, minimum frame,
  clamping), \<open>layout.cpp\<close> (work area), \<open>tile.cpp\<close> (tiling and half-screen snapping),
  the magnet of \<open>manager.cpp\<close>, and the decorations with their hit test
  (\<open>decor.cpp\<close>, \<open>hittest.cpp\<close>).  All of it is pure arithmetic on rectangles.
\<close>

section \<open>Frames\<close>

definition client_rect :: "rect \<Rightarrow> rect" where
  "client_rect f = mk_rect (rx f + 1) (ry f + 1) (max 0 (rw f - 2)) (max 0 (rh f - 2))"

text \<open>\<open>frame_min\<close> on the answer of \<open>app.min_size()\<close>.\<close>

definition frame_min :: "size \<Rightarrow> size" where
  "frame_min m = \<lparr>sz_w = max (sz_w m + 2) 16, sz_h = max (sz_h m + 2) 5\<rparr>"

definition clamp_to :: "rect \<Rightarrow> rect \<Rightarrow> size \<Rightarrow> rect" where
  "clamp_to frame work mn =
     (let w = max (sz_w mn) (min (rw frame) (rw work));
          h = max (sz_h mn) (min (rh frame) (rh work));
          x = max (rx work) (min (rx frame) (rx work + rw work - w));
          y = max (ry work) (min (ry frame) (ry work + rh work - h))
      in mk_rect x y w h)"

datatype panel_edge = EdgeTop | EdgeBottom | EdgeLeft | EdgeRight

fun work_area :: "int \<Rightarrow> int \<Rightarrow> panel_edge \<Rightarrow> int \<Rightarrow> rect" where
  "work_area cols rows EdgeTop t = mk_rect 0 t cols (rows - t)"
| "work_area cols rows EdgeBottom t = mk_rect 0 0 cols (rows - t)"
| "work_area cols rows EdgeLeft t = mk_rect t 0 (cols - t) rows"
| "work_area cols rows EdgeRight t = mk_rect 0 0 (cols - t) rows"

section \<open>Tiling\<close>

function columns_from :: "int \<Rightarrow> nat \<Rightarrow> nat" where
  "columns_from n c = (if int c * int c < n then columns_from n (Suc c) else c)"
  by pat_completeness auto
termination
proof (relation "measure (\<lambda>(n, c). nat n - c)", simp)
  fix n :: int and c :: nat
  assume "int c * int c < n"
  moreover have "int c \<le> int c * int c" by (cases c) simp_all
  ultimately show "((n, Suc c), (n, c)) \<in> measure (\<lambda>(n, c). nat n - c)" by simp
qed

declare columns_from.simps [simp del]

definition columns_for :: "int \<Rightarrow> int" where
  "columns_for n = int (columns_from n 1)"

definition split :: "int \<Rightarrow> int \<Rightarrow> int list" where
  "split tot parts =
     (if parts \<le> 0 then []
      else let base = cdiv tot parts; extra = crem tot parts
           in map (\<lambda>i. max 1 (base + (if i < extra then 1 else 0))) [0..parts - 1])"

text \<open>The inner loop over the rows of a column and the outer loop over the columns.\<close>

fun tile_column :: "int \<Rightarrow> int \<Rightarrow> int \<Rightarrow> int list \<Rightarrow> rect list" where
  "tile_column x y w [] = []"
| "tile_column x y w (h # hs) = mk_rect x y w h # tile_column x (y + h) w hs"

fun tile_columns :: "rect \<Rightarrow> int \<Rightarrow> (int \<times> int) list \<Rightarrow> rect list" where
  "tile_columns work x [] = []"
| "tile_columns work x ((rows, w) # cs) =
     tile_column x (ry work) w (split (rh work) rows) @ tile_columns work (x + w) cs"

definition tile_rects :: "rect \<Rightarrow> int \<Rightarrow> rect list" where
  "tile_rects work count =
     (if count \<le> 0 \<or> rw work \<le> 0 \<or> rh work \<le> 0 then []
      else let cols = columns_for count
           in tile_columns work (rx work) (zip (split count cols) (split (rw work) cols)))"

datatype snap_dir = SnapLeft | SnapRight | SnapUp | SnapDown

fun snap_rect :: "rect \<Rightarrow> snap_dir \<Rightarrow> rect" where
  "snap_rect work SnapLeft = mk_rect (rx work) (ry work) (rw work - cdiv (rw work) 2) (rh work)"
| "snap_rect work SnapRight =
     (let w1 = rw work - cdiv (rw work) 2 in mk_rect (rx work + w1) (ry work) (rw work - w1) (rh work))"
| "snap_rect work SnapUp = mk_rect (rx work) (ry work) (rw work) (rh work - cdiv (rh work) 2)"
| "snap_rect work SnapDown =
     (let h1 = rh work - cdiv (rh work) 2 in mk_rect (rx work) (ry work + h1) (rw work) (rh work - h1))"

fun snap_opposite :: "rect \<Rightarrow> snap_dir \<Rightarrow> rect" where
  "snap_opposite work SnapLeft = snap_rect work SnapRight"
| "snap_opposite work SnapRight = snap_rect work SnapLeft"
| "snap_opposite work SnapUp = snap_rect work SnapDown"
| "snap_opposite work SnapDown = snap_rect work SnapUp"

text \<open>The magnet: an edge close to an edge of the work area sticks to it.\<close>

definition distance :: "int \<Rightarrow> int \<Rightarrow> int" where
  "distance a b = (if a > b then a - b else b - a)"

definition snap :: "rect \<Rightarrow> rect \<Rightarrow> int \<Rightarrow> rect" where
  "snap r work tolerance =
     (let x = (if distance (rx r) (rx work) \<le> tolerance then rx work
               else if distance (rx r + rw r) (rx work + rw work) \<le> tolerance
               then rx work + rw work - rw r else rx r);
          y = (if distance (ry r) (ry work) \<le> tolerance then ry work
               else if distance (ry r + rh r) (ry work + rh work) \<le> tolerance
               then ry work + rh work - rh r else ry r)
      in r\<lparr>rx := x, ry := y\<rparr>)"

section \<open>Decorations and hit testing\<close>

record decor =
  dm_title_bar :: rect
  dm_title_text :: rect
  dm_buttons :: rect
  dm_button_count :: int
  dm_client :: rect

definition kButtonWidth :: int where "kButtonWidth = 3"
definition kTitleMargin :: int where "kTitleMargin = 2"

text \<open>The loop \<open>for (candidate = 3; candidate >= 1; --candidate)\<close>.\<close>

definition button_count :: "rect \<Rightarrow> int" where
  "button_count frame =
     (case find (\<lambda>candidate. rw frame \<ge> 7 + kButtonWidth * candidate) [3, 2, 1] of
        Some n \<Rightarrow> n | None \<Rightarrow> 0)"

definition decor_metrics :: "rect \<Rightarrow> decor" where
  "decor_metrics frame =
     (let n = button_count frame;
          bx = rx frame + rw frame - 1 - kButtonWidth * n;
          title_x = rx frame + kTitleMargin;
          title_end = (if n > 0 then bx - 1 else rx frame + rw frame - 1)
      in \<lparr>dm_title_bar = mk_rect (rx frame) (ry frame) (rw frame) 1,
          dm_title_text = mk_rect title_x (ry frame) (max 0 (title_end - title_x)) 1,
          dm_buttons = mk_rect bx (ry frame) (kButtonWidth * n) 1,
          dm_button_count = n,
          dm_client = client_rect frame\<rparr>)"

datatype win_hit =
    HitNone | HitFrame | HitTitleBar | ButtonMinimize | ButtonMaximize | ButtonClose
  | HitEdgeRight | HitEdgeBottom | CornerBR | HitClient int int

text \<open>\<open>hit_window\<close> on the display rectangle of a window.  The local coordinates travel
  with \<open>HitClient\<close>, the only result they are valid for.\<close>

definition hit_window :: "rect \<Rightarrow> int \<Rightarrow> int \<Rightarrow> win_hit" where
  "hit_window f x y =
     (if \<not> contains f x y then HitNone
      else let m = decor_metrics f in
        if x = rx f + rw f - 1 \<and> y = ry f + rh f - 1 \<and> rh f \<ge> 2 then CornerBR
        else if y = ry (dm_title_bar m) then
          if dm_button_count m > 0 \<and> x \<ge> rx (dm_buttons m) \<and> x < rx (dm_buttons m) + rw (dm_buttons m)
          then let slot = cdiv (x - rx (dm_buttons m)) 3; which = 3 - dm_button_count m + slot
               in if which = 0 then ButtonMinimize else if which = 1 then ButtonMaximize else ButtonClose
          else HitTitleBar
        else if x = rx f + rw f - 1 then HitEdgeRight
        else if y = ry f + rh f - 1 then HitEdgeBottom
        else if contains (dm_client m) x y
        then HitClient (x - rx (dm_client m)) (y - ry (dm_client m))
        else HitFrame)"

section \<open>Tiling covers the work area exactly\<close>

lemma columns_from_spec:
  "1 \<le> c \<Longrightarrow> c \<le> columns_from n c \<and> n \<le> int (columns_from n c) * int (columns_from n c)
    \<and> (columns_from n c = c \<or> int (columns_from n c - 1) * int (columns_from n c - 1) < n)"
proof (induction n c rule: columns_from.induct)
  case (1 n c)
  show ?case
  proof (cases "int c * int c < n")
    case True
    then have "columns_from n c = columns_from n (Suc c)" by (simp add: columns_from.simps)
    then show ?thesis using "1.IH"[OF True] True by (auto simp: Suc_le_eq)
  next
    case False
    then show ?thesis by (simp add: columns_from.simps)
  qed
qed

lemma columns_for_spec: "1 \<le> columns_for n" "n \<le> columns_for n * columns_for n"
  using columns_from_spec[of 1 n] by (simp_all add: columns_for_def)

lemma columns_for_le: "1 \<le> n \<Longrightarrow> columns_for n \<le> n"
proof -
  assume n: "1 \<le> n"
  let ?c = "columns_from n 1"
  have c: "1 \<le> ?c" "?c = 1 \<or> int (?c - 1) * int (?c - 1) < n" using columns_from_spec[of 1 n, OF le_refl] by blast+
  have "int (?c - 1) \<le> int (?c - 1) * int (?c - 1)" by (cases "?c - 1") simp_all
  then show ?thesis using c n by (auto simp: columns_for_def of_nat_diff)
qed

lemma sum_first:
  "0 \<le> e \<Longrightarrow> e \<le> int k \<Longrightarrow> sum_list (map (\<lambda>i. b + (if i < e then 1 else 0)) [0..int k - 1]) = int k * b + e"
proof (induction k arbitrary: e)
  case (Suc k)
  have s: "[0..int k] = [0..int k - 1] @ [int k]" by (simp add: upto_rec2)
  show ?case
  proof (cases "e \<le> int k")
    case True
    then show ?thesis using Suc.IH[of e] Suc.prems by (simp add: s algebra_simps)
  next
    case False
    then have e: "e = int k + 1" using Suc.prems by simp
    have "map (\<lambda>i. b + (if i < e then 1 else 0)) [0..int k - 1]
        = map (\<lambda>i. b + (if i < int k then 1 else 0)) [0..int k - 1]"
      by (auto simp: e)
    then show ?thesis using Suc.IH[of "int k"] by (simp add: s e algebra_simps del: map_eq_conv)
  qed
qed simp

lemma split_spec:
  assumes "0 < parts" "parts \<le> tot"
  shows "sum_list (split tot parts) = tot" "\<forall>x \<in> set (split tot parts). 1 \<le> x"
    "int (length (split tot parts)) = parts"
proof -
  have b: "1 \<le> tot div parts" using assms by (simp add: pos_imp_zdiv_pos_iff int_one_le_iff_zero_less)
  then have "split tot parts
      = map (\<lambda>i. tot div parts + (if i < tot mod parts then 1 else 0)) [0..int (nat parts) - 1]"
    using assms by (auto simp: split_def Let_def)
  moreover have "0 \<le> tot mod parts" "tot mod parts \<le> int (nat parts)"
    using assms pos_mod_bound[of parts tot] by (simp, linarith)
  ultimately show "sum_list (split tot parts) = tot"
    using sum_first[of "tot mod parts" "nat parts" "tot div parts"] assms by simp
  show "\<forall>x \<in> set (split tot parts). 1 \<le> x" by (auto simp: split_def Let_def)
  show "int (length (split tot parts)) = parts" using assms by (simp add: split_def Let_def)
qed

lemma split_max:
  assumes "0 < parts" "parts \<le> tot" "tot \<le> parts * parts" "x \<in> set (split tot parts)"
  shows "x \<le> parts"
proof -
  obtain i where x: "x = max 1 (tot div parts + (if i < tot mod parts then 1 else 0))" "0 \<le> i"
    using assms(1,2,4) by (auto simp: split_def Let_def split: if_splits)
  have q: "tot div parts \<le> parts"
    using zdiv_mono1[OF assms(3) assms(1)] assms(1) by simp
  have "tot div parts < parts" if "0 < tot mod parts"
  proof (rule ccontr)
    assume "\<not> tot div parts < parts"
    then have "parts * parts \<le> tot div parts * parts" using assms(1) by (simp add: mult_right_mono)
    then show False using that assms(3) div_mult_mod_eq[of tot parts] by linarith
  qed
  then show ?thesis using q x assms(1) by (auto split: if_splits)
qed

lemma tile_column_count:
  "\<forall>h \<in> set hs. 0 \<le> h \<Longrightarrow>
   length (filter (\<lambda>r. contains r px py) (tile_column x y w hs))
     = (if contains (mk_rect x y w (sum_list hs)) px py then 1 else 0)"
proof (induction hs arbitrary: y)
  case Nil
  then show ?case by (simp add: contains_def)
next
  case (Cons h hs)
  then have "0 \<le> h" "0 \<le> sum_list hs" by (auto intro: sum_list_nonneg)
  then show ?case using Cons.IH[of "y + h"] Cons.prems by (auto simp: contains_def)
qed

lemma tile_columns_count:
  assumes "\<forall>(r, w) \<in> set cs. 1 \<le> r \<and> r \<le> rh work \<and> 0 \<le> w"
  shows "length (filter (\<lambda>r. contains r px py) (tile_columns work x cs))
     = (if contains (mk_rect x (ry work) (sum_list (map snd cs)) (rh work)) px py then 1 else 0)"
  using assms
proof (induction cs arbitrary: x)
  case Nil
  then show ?case by (simp add: contains_def)
next
  case (Cons c cs)
  obtain r w where c: "c = (r, w)" by (cases c)
  have "0 \<le> sum_list (map snd cs)" using Cons.prems by (intro sum_list_nonneg) auto
  moreover have "sum_list (split (rh work) r) = rh work" "\<forall>h \<in> set (split (rh work) r). 0 \<le> h" "0 \<le> w"
    using Cons.prems split_spec[of r "rh work"] by (auto simp: c)
  ultimately show ?case using Cons.IH[of "x + w"] Cons.prems tile_column_count[of "split (rh work) r" px py x "ry work" w]
    by (auto simp: c contains_def)
qed

lemma length_tile_column [simp]: "length (tile_column x y w hs) = length hs"
  by (induction hs arbitrary: y) simp_all

lemma length_tile_columns:
  "\<forall>(r, w) \<in> set cs. 0 \<le> r \<Longrightarrow> int (length (tile_columns work x cs)) = sum_list (map fst cs)"
proof (induction cs arbitrary: x)
  case (Cons c cs)
  then show ?case by (cases c) (auto simp: split_def Let_def)
qed simp


text \<open>One axis of \<open>clamp_to\<close>.\<close>

lemma clamp_axis:
  fixes m a W p X w x :: int
  assumes w: "w = max m (min a W)" and x: "x = max X (min p (X + W - w))"
  shows "m \<le> w" "X \<le> x" "m \<le> W \<longrightarrow> x + w \<le> X + W" "max m (min w W) = w"
    "max X (min x (X + W - w)) = x"
  unfolding x by (simp_all add: w max_def min_def)

section \<open>Properties\<close>

text \<open>
  C33.  Tiling yields one rectangle per window and they fill the work area without
  hole or overlap: every cell of the work area lies in exactly one of them, every
  other cell in none.  The area only has to offer one cell per column and row of
  the grid.
\<close>

theorem tile_rects_partition:
  assumes "0 < count" and "columns_for count \<le> rw work" and "columns_for count \<le> rh work"
  shows "int (length (tile_rects work count)) = count
    \<and> length (filter (\<lambda>r. contains r px py) (tile_rects work count)) = (if contains work px py then 1 else 0)"
proof (rule conjI)
  let ?c = "columns_for count"
  let ?cs = "zip (split count ?c) (split (rw work) ?c)"
  have c: "0 < ?c" "?c \<le> count" "count \<le> ?c * ?c"
    using columns_for_spec[of count] columns_for_le[of count] assms(1) by linarith+
  note s1 = split_spec[OF c(1,2)] and s2 = split_spec[OF c(1) assms(2)]
  have len: "length (split count ?c) = length (split (rw work) ?c)" using s1(3) s2(3) by linarith
  have t: "tile_rects work count = tile_columns work (rx work) ?cs"
    using assms c by (simp add: tile_rects_def Let_def)
  have cs: "\<forall>(r, w) \<in> set ?cs. 1 \<le> r \<and> r \<le> rh work \<and> 0 \<le> w"
    using s1(2) s2(2) split_max[OF c] assms(3) by (fastforce dest: set_zip_leftD set_zip_rightD)
  have f: "map fst ?cs = split count ?c" "map snd ?cs = split (rw work) ?c" using len by simp_all
  show "int (length (tile_rects work count)) = count"
    using length_tile_columns[of ?cs work "rx work"] cs s1(1) f(1) by (fastforce simp: t)
  show "length (filter (\<lambda>r. contains r px py) (tile_rects work count)) = (if contains work px py then 1 else 0)"
    using tile_columns_count[OF cs, of px py "rx work"] s2(1) f(2) by (simp add: t contains_def)
qed

theorem tile_rects_partition_witness:
  "length (filter (\<lambda>r. contains r 40 10) (tile_rects (mk_rect 0 1 80 23) 3)) = 1"
proof -
  have "columns_for 3 = 2" by (simp add: columns_for_def columns_from.simps)
  then show ?thesis using tile_rects_partition[of 3 "mk_rect 0 1 80 23" 40 10] by (simp add: contains_def)
qed

text \<open>
  Snapping back to back: the half a window is snapped to and the half offered to
  the other one cover the work area, each cell exactly once.
\<close>

theorem snap_halves:
  assumes "0 \<le> rw work" and "0 \<le> rh work"
  shows "(contains work px py \<longleftrightarrow> contains (snap_rect work d) px py \<or> contains (snap_opposite work d) px py)
    \<and> \<not> (contains (snap_rect work d) px py \<and> contains (snap_opposite work d) px py)"
  using assms by (cases d) (auto simp: contains_def Let_def)

theorem snap_halves_witness:
  "contains (snap_rect (mk_rect 0 0 5 2) SnapLeft) 2 1 \<and> \<not> contains (snap_opposite (mk_rect 0 0 5 2) SnapLeft) 2 1"
  using snap_halves[where work = "mk_rect 0 0 5 2" and d = SnapLeft and px = 2 and py = 1] by (simp add: contains_def)

text \<open>
  Clamping: the frame never goes below its minimum, starts inside the work area,
  fits in it whenever the minimum does, and clamping again changes nothing.
\<close>

theorem clamp_to_fits:
  assumes "c = clamp_to f work mn"
  shows "sz_w mn \<le> rw c \<and> sz_h mn \<le> rh c \<and> rx work \<le> rx c \<and> ry work \<le> ry c
    \<and> (sz_w mn \<le> rw work \<longrightarrow> rx c + rw c \<le> rx work + rw work)
    \<and> (sz_h mn \<le> rh work \<longrightarrow> ry c + rh c \<le> ry work + rh work)
    \<and> clamp_to c work mn = c"
proof -
  have w: "rw c = max (sz_w mn) (min (rw f) (rw work))" "rh c = max (sz_h mn) (min (rh f) (rh work))"
    and x: "rx c = max (rx work) (min (rx f) (rx work + rw work - rw c))"
      "ry c = max (ry work) (min (ry f) (ry work + rh work - rh c))"
    by (simp_all add: assms clamp_to_def Let_def)
  have "clamp_to c work mn = mk_rect (rx c) (ry c) (rw c) (rh c)"
    using clamp_axis[OF w(1) x(1)] clamp_axis[OF w(2) x(2)] by (simp add: clamp_to_def Let_def)
  also have "\<dots> = c" by (simp add: assms clamp_to_def Let_def)
  finally show ?thesis using clamp_axis[OF w(1) x(1)] clamp_axis[OF w(2) x(2)] by simp
qed

theorem clamp_to_fits_witness:
  "clamp_to (mk_rect 70 20 44 14) (mk_rect 0 1 80 23) \<lparr>sz_w = 16, sz_h = 5\<rparr> = mk_rect 36 10 44 14"
  using clamp_to_fits[OF refl, where f = "mk_rect 70 20 44 14" and work = "mk_rect 0 1 80 23" and mn = "\<lparr>sz_w = 16, sz_h = 5\<rparr>"]
  by (simp add: clamp_to_def)

text \<open>
  The hit test is the inverse of the decoration geometry: a click is on a button
  exactly when it falls in that button's three cells, on the client area exactly when
  the client rectangle contains it (with its coordinates relative to that rectangle),
  and nowhere exactly when it is outside the frame.
\<close>

theorem hit_window_inverse:
  assumes "2 \<le> rw f" and "2 \<le> rh f"
  shows "(hit_window f x y = HitNone \<longleftrightarrow> \<not> contains f x y)
    \<and> (hit_window f x y = HitClient lx ly \<longleftrightarrow>
      contains (client_rect f) x y \<and> lx = x - rx (client_rect f) \<and> ly = y - ry (client_rect f))
    \<and> (hit_window f x y \<in> {ButtonMinimize, ButtonMaximize, ButtonClose} \<longleftrightarrow>
      contains (dm_buttons (decor_metrics f)) x y)
    \<and> (hit_window f x y = ButtonClose \<longleftrightarrow>
      0 < button_count f \<and> contains (mk_rect (rx f + rw f - 4) (ry f) 3 1) x y)"
proof (intro conjI)
  let ?n = "button_count f"
  have n: "0 \<le> ?n" "?n \<le> 3" "0 < ?n \<Longrightarrow> 7 + 3 * ?n \<le> rw f"
    by (auto simp: button_count_def kButtonWidth_def)
  have n3: "?n = 0 \<or> ?n = 1 \<or> ?n = 2 \<or> ?n = 3" using n by linarith
  have cl: "contains (client_rect f) x y \<longleftrightarrow>
      rx f < x \<and> x < rx f + rw f - 1 \<and> ry f < y \<and> y < ry f + rh f - 1"
    using assms by (auto simp: contains_def client_rect_def)
  show "hit_window f x y = HitNone \<longleftrightarrow> \<not> contains f x y"
    by (simp add: hit_window_def Let_def)
  show "hit_window f x y = HitClient lx ly \<longleftrightarrow>
      contains (client_rect f) x y \<and> lx = x - rx (client_rect f) \<and> ly = y - ry (client_rect f)"
    using assms unfolding cl
    by (auto simp: hit_window_def decor_metrics_def Let_def cl contains_def[of f])
  show "hit_window f x y \<in> {ButtonMinimize, ButtonMaximize, ButtonClose} \<longleftrightarrow>
      contains (dm_buttons (decor_metrics f)) x y"
    using assms n by (auto simp: hit_window_def decor_metrics_def Let_def contains_def kButtonWidth_def)
  show "hit_window f x y = ButtonClose \<longleftrightarrow>
      0 < ?n \<and> contains (mk_rect (rx f + rw f - 4) (ry f) 3 1) x y"
    using n3 n(3) assms
    by (elim disjE) (auto simp: hit_window_def decor_metrics_def Let_def contains_def kButtonWidth_def)
qed

theorem hit_window_inverse_witness:
  "hit_window (mk_rect 2 1 44 14) 43 1 = ButtonClose \<and> hit_window (mk_rect 2 1 44 14) 5 4 = HitClient 2 2"
  using hit_window_inverse[of "mk_rect 2 1 44 14" 43 1] hit_window_inverse[of "mk_rect 2 1 44 14" 5 4 2 2]
  by (simp add: button_count_def kButtonWidth_def contains_def client_rect_def)

end
