(* ===== verification/Wm_Manager.thy ===== *)
theory Wm_Manager
  imports Wm_Geometry "HOL-Library.Multiset"
begin

text \<open>
  \<open>src/wm/manager.cpp\<close> and the functions of \<open>layout.cpp\<close> that read windows: the window
  stack with its operations.  A window is a record, the stack a list whose last element
  is in front.  A pointer to a window is its identifier: identifiers are never reused,
  which is part of the invariant.  Of an application the manager only calls
  \<open>min_size()\<close>, so the \<open>app\<close> pointer is the optional answer to that call.
\<close>

section \<open>State\<close>

datatype win_mode = Normal | Minimized | Maximized | Fullscreen

record window =
  w_id :: "32 word"
  w_title :: bytes
  w_app_id :: bytes
  w_user_rect :: rect
  w_display_rect :: rect
  w_mode :: win_mode
  w_before_fullscreen :: win_mode
  w_app :: "size option"
  w_sent_size :: size
  w_close_requested :: bool

record wm =
  wm_stack :: "window list"
  wm_next_id :: "32 word"
  wm_focused :: "32 word"
  wm_cascade :: int

definition kMaxWindows :: nat where "kMaxWindows = 64"

definition wm_init :: wm where
  "wm_init = \<lparr>wm_stack = [], wm_next_id = 1, wm_focused = 0, wm_cascade = 0\<rparr>"

text \<open>\<open>frame_min(*w.app)\<close>.  A window always has an application, so the second branch is
  never taken; it carries the answer of the base class.\<close>

definition win_min :: "window \<Rightarrow> size" where
  "win_min w = frame_min (case w_app w of Some m \<Rightarrow> m | None \<Rightarrow> \<lparr>sz_w = 10, sz_h = 3\<rparr>)"

section \<open>Layout\<close>

definition display_rect_for :: "window \<Rightarrow> rect \<Rightarrow> int \<Rightarrow> int \<Rightarrow> rect" where
  "display_rect_for w work cols rows =
     (case w_mode w of
        Maximized \<Rightarrow> work
      | Fullscreen \<Rightarrow> mk_rect 0 0 cols rows
      | _ \<Rightarrow> clamp_to (w_user_rect w) work (win_min w))"

definition relayout :: "wm \<Rightarrow> rect \<Rightarrow> int \<Rightarrow> int \<Rightarrow> wm" where
  "relayout m work cols rows =
     m\<lparr>wm_stack := map (\<lambda>w. w\<lparr>w_display_rect := display_rect_for w work cols rows\<rparr>) (wm_stack m)\<rparr>"

section \<open>Operations\<close>

definition wm_index :: "wm \<Rightarrow> 32 word \<Rightarrow> nat option" where
  "wm_index m i = find_if (\<lambda>w. w_id w = i) (wm_stack m)"

definition wm_find :: "wm \<Rightarrow> 32 word \<Rightarrow> window option" where
  "wm_find m i = map_option ((!) (wm_stack m)) (wm_index m i)"

definition raise :: "wm \<Rightarrow> 32 word \<Rightarrow> wm" where
  "raise m i =
     (case wm_index m i of
        None \<Rightarrow> m
      | Some k \<Rightarrow>
          if k + 1 = length (wm_stack m) then m
          else m\<lparr>wm_stack := take k (wm_stack m) @ rotate_at 1 (drop k (wm_stack m))\<rparr>)"

definition leave_fullscreen :: "32 word \<Rightarrow> window \<Rightarrow> window" where
  "leave_fullscreen i w =
     (if w_id w \<noteq> i \<and> w_mode w = Fullscreen then w\<lparr>w_mode := w_before_fullscreen w\<rparr> else w)"

definition focus :: "wm \<Rightarrow> 32 word \<Rightarrow> wm" where
  "focus m i = (raise (m\<lparr>wm_stack := map (leave_fullscreen i) (wm_stack m)\<rparr>) i)\<lparr>wm_focused := i\<rparr>"

definition kDefaultRect :: rect where "kDefaultRect = mk_rect 2 1 44 14"
definition kCascadeDx :: int where "kCascadeDx = 2"
definition kCascadeDy :: int where "kCascadeDy = 1"

definition next_cascade :: "rect \<Rightarrow> int \<Rightarrow> int" where
  "next_cascade work c =
     (let c' = c + 1;
          next_x = rx kDefaultRect + kCascadeDx * c';
          next_y = ry kDefaultRect + kCascadeDy * c'
      in if next_x + rw kDefaultRect > rx work + rw work \<or> next_y + rh kDefaultRect > ry work + rh work
         then 0 else c')"

definition new_window :: "wm \<Rightarrow> size \<Rightarrow> rect \<Rightarrow> window" where
  "new_window m app work =
     (let user = mk_rect (rx kDefaultRect + kCascadeDx * wm_cascade m)
                   (ry kDefaultRect + kCascadeDy * wm_cascade m) (rw kDefaultRect) (rh kDefaultRect)
      in \<lparr>w_id = wm_next_id m, w_title = [], w_app_id = [], w_user_rect = user,
          w_display_rect = clamp_to user work (frame_min app), w_mode = Normal,
          w_before_fullscreen = Normal, w_app = Some app, w_sent_size = \<lparr>sz_w = -1, sz_h = -1\<rparr>,
          w_close_requested = False\<rparr>)"

text \<open>\<open>open\<close>: the new state and the identifier of the window, \<open>None\<close> for \<open>nullptr\<close>.\<close>

definition wm_open :: "wm \<Rightarrow> size option \<Rightarrow> rect \<Rightarrow> wm \<times> 32 word option" where
  "wm_open m app work =
     (if length (wm_stack m) \<ge> kMaxWindows then (m, None)
      else (case app of
        None \<Rightarrow> (m, None)
      | Some a \<Rightarrow>
          let w = new_window m a work;
              m' = m\<lparr>wm_next_id := wm_next_id m + 1, wm_cascade := next_cascade work (wm_cascade m),
                     wm_stack := wm_stack m @ [w]\<rparr>
          in (focus m' (w_id w), Some (w_id w))))"

definition wm_close :: "wm \<Rightarrow> 32 word \<Rightarrow> wm \<times> bool" where
  "wm_close m i =
     (case wm_index m i of
        None \<Rightarrow> (m, False)
      | Some k \<Rightarrow>
          let st = take k (wm_stack m) @ drop (Suc k) (wm_stack m);
              m' = m\<lparr>wm_stack := st\<rparr>
          in (if wm_focused m = i
              then m'\<lparr>wm_focused := (if st = [] then 0 else w_id (last st))\<rparr> else m', True))"

definition set_rect :: "wm \<Rightarrow> 32 word \<Rightarrow> rect \<Rightarrow> rect \<Rightarrow> wm" where
  "set_rect m i user work =
     (case wm_index m i of
        None \<Rightarrow> m
      | Some k \<Rightarrow>
          let w = wm_stack m ! k in
          if w_app w = None then m
          else m\<lparr>wm_stack := (wm_stack m)[k := w\<lparr>w_user_rect := user,
                  w_display_rect := clamp_to user work (win_min w)\<rparr>]\<rparr>)"

text \<open>\<open>step\<close>: the loop over \<open>k = 1..n\<close> stops at the first window that is not minimised.\<close>

definition step_index :: "int \<Rightarrow> int \<Rightarrow> int \<Rightarrow> int \<Rightarrow> nat" where
  "step_index n start delta k = nat (crem (crem (start + delta * k) n + n) n)"

definition wm_step :: "int \<Rightarrow> wm \<Rightarrow> wm" where
  "wm_step delta m =
     (let n = int (length (wm_stack m)) in
      if n = 0 then m
      else let start = (case wm_index m (wm_focused m) of Some i \<Rightarrow> int i | None \<Rightarrow> n - 1);
               at = (\<lambda>k. wm_stack m ! step_index n start delta k)
           in (case find (\<lambda>k. w_mode (at k) \<noteq> Minimized) [1..n] of
                None \<Rightarrow> m
              | Some k \<Rightarrow> focus m (w_id (at k))))"

definition focus_next :: "wm \<Rightarrow> wm" where "focus_next = wm_step 1"
definition focus_prev :: "wm \<Rightarrow> wm" where "focus_prev = wm_step (-1)"

definition hit :: "wm \<Rightarrow> int \<Rightarrow> int \<Rightarrow> window option" where
  "hit m x y = find (\<lambda>w. w_mode w \<noteq> Minimized \<and> contains (w_display_rect w) x y) (rev (wm_stack m))"

definition set_mode :: "wm \<Rightarrow> 32 word \<Rightarrow> win_mode \<Rightarrow> rect \<Rightarrow> wm" where
  "set_mode m i md work =
     (case wm_index m i of
        None \<Rightarrow> m
      | Some k \<Rightarrow>
          let entering = (md = Fullscreen \<and> w_mode (wm_stack m ! k) \<noteq> Fullscreen);
              w = (if entering
                   then (wm_stack m ! k)\<lparr>w_before_fullscreen := w_mode (wm_stack m ! k)\<rparr>
                   else wm_stack m ! k);
              st = (if entering then map (leave_fullscreen i) (wm_stack m) else wm_stack m);
              w' = w\<lparr>w_mode := md\<rparr>;
              w'' = (case md of
                  Normal \<Rightarrow> w'\<lparr>w_display_rect := clamp_to (w_user_rect w') work (win_min w')\<rparr>
                | Maximized \<Rightarrow> w'\<lparr>w_display_rect := work\<rparr>
                | Fullscreen \<Rightarrow> w'\<lparr>w_display_rect := work\<rparr>
                | Minimized \<Rightarrow> w')
          in m\<lparr>wm_stack := st[k := w'']\<rparr>)"

section \<open>The invariant\<close>

definition window_ok :: "window \<Rightarrow> bool" where
  "window_ok w \<longleftrightarrow> w_before_fullscreen w \<noteq> Fullscreen \<and> w_app w \<noteq> None"

definition one_fullscreen :: "window list \<Rightarrow> bool" where
  "one_fullscreen st \<longleftrightarrow>
     (\<forall>v \<in> set st. \<forall>w \<in> set st. w_mode v = Fullscreen \<longrightarrow> w_mode w = Fullscreen \<longrightarrow> w_id v = w_id w)"

definition stack_ok :: "window list \<Rightarrow> 32 word \<Rightarrow> 32 word \<Rightarrow> bool" where
  "stack_ok st n f \<longleftrightarrow> distinct (map w_id st) \<and> length st \<le> kMaxWindows
     \<and> (\<forall>w \<in> set st. window_ok w \<and> 0 < w_id w \<and> w_id w < n)
     \<and> one_fullscreen st \<and> (f = 0 \<or> f \<in> w_id ` set st)"

definition wm_ok :: "wm \<Rightarrow> bool" where
  "wm_ok m \<longleftrightarrow> stack_ok (wm_stack m) (wm_next_id m) (wm_focused m)"

lemma wm_index_Some:
  "wm_index m i = Some k \<Longrightarrow> k < length (wm_stack m) \<and> w_id (wm_stack m ! k) = i"
  unfolding wm_index_def by (auto dest: find_if_Some)

lemma wm_index_None: "wm_index m i = None \<longleftrightarrow> i \<notin> w_id ` set (wm_stack m)"
  by (auto simp: wm_index_def find_if_None)

lemma raise_mset [simp]: "mset (wm_stack (raise m i)) = mset (wm_stack m)"
proof -
  have td: "mset (take j xs) + mset (drop j xs) = mset xs" for j and xs :: "window list"
    by (simp flip: mset_append)
  then have r: "mset (rotate_at j xs) = mset xs" for j and xs :: "window list"
    by (simp add: rotate_at_def union_commute)
  have "mset (take k st @ rotate_at 1 (drop k st)) = mset st" for k and st :: "window list"
    by (simp add: r td)
  then show ?thesis by (auto simp: raise_def split: option.splits)
qed

lemma raise_simps [simp]:
  "set (wm_stack (raise m i)) = set (wm_stack m)" "length (wm_stack (raise m i)) = length (wm_stack m)"
  "distinct (map w_id (wm_stack (raise m i))) = distinct (map w_id (wm_stack m))"
  "wm_next_id (raise m i) = wm_next_id m" "wm_focused (raise m i) = wm_focused m" "wm_cascade (raise m i) = wm_cascade m"
proof -
  show "set (wm_stack (raise m i)) = set (wm_stack m)" by (rule mset_eq_setD) simp
  show "length (wm_stack (raise m i)) = length (wm_stack m)" by (rule mset_eq_length) simp
  show "distinct (map w_id (wm_stack (raise m i))) = distinct (map w_id (wm_stack m))"
    by (rule mset_eq_imp_distinct_iff) simp
qed (auto simp: raise_def split: option.splits)

lemma leave_fullscreen_simps [simp]:
  "w_id (leave_fullscreen i w) = w_id w" "w_before_fullscreen (leave_fullscreen i w) = w_before_fullscreen w"
  "w_app (leave_fullscreen i w) = w_app w" "w_user_rect (leave_fullscreen i w) = w_user_rect w"
  by (simp_all add: leave_fullscreen_def)

lemma leave_fullscreen_mode:
  "window_ok w \<Longrightarrow> w_mode (leave_fullscreen i w) = Fullscreen \<Longrightarrow> w_id w = i"
  by (auto simp: leave_fullscreen_def window_ok_def split: if_splits)

lemma focus_stack_set: "set (wm_stack (focus m i)) = leave_fullscreen i ` set (wm_stack m)"
  by (simp add: focus_def)

lemma focus_ids: "w_id ` set (wm_stack (focus m i)) = w_id ` set (wm_stack m)"
  by (simp add: focus_stack_set image_image)

lemma focus_ok [inv_intros]:
  assumes "wm_ok m" "i \<in> w_id ` set (wm_stack m)"
  shows "wm_ok (focus m i)"
proof -
  have "distinct (map w_id (wm_stack (focus m i)))" "length (wm_stack (focus m i)) \<le> kMaxWindows"
    using assms by (simp_all add: focus_def wm_ok_def stack_ok_def comp_def)
  moreover have "\<forall>w \<in> set (wm_stack (focus m i)). window_ok w \<and> 0 < w_id w \<and> w_id w < wm_next_id m"
    using assms by (auto simp: focus_stack_set wm_ok_def stack_ok_def window_ok_def)
  moreover have "one_fullscreen (wm_stack (focus m i))"
    using assms leave_fullscreen_mode by (fastforce simp: focus_stack_set one_fullscreen_def wm_ok_def stack_ok_def)
  moreover have "wm_focused (focus m i) = i" "wm_next_id (focus m i) = wm_next_id m" by (simp_all add: focus_def)
  ultimately show ?thesis using assms(2) by (auto simp: wm_ok_def stack_ok_def focus_ids)
qed

lemma update_ok:
  assumes "wm_ok m" "k < length (wm_stack m)" "w_id w = w_id (wm_stack m ! k)" "window_ok w"
    "w_mode w = Fullscreen \<Longrightarrow> w_mode (wm_stack m ! k) = Fullscreen"
  shows "wm_ok (m\<lparr>wm_stack := (wm_stack m)[k := w]\<rparr>)"
proof -
  have ids: "map w_id ((wm_stack m)[k := w]) = map w_id (wm_stack m)"
    using assms(2,3) by (simp add: map_update list_update_same_conv)
  have mem: "v = w \<or> v \<in> set (wm_stack m)" if "v \<in> set ((wm_stack m)[k := w])" for v
    using that set_update_subset_insert by fastforce
  have k: "wm_stack m ! k \<in> set (wm_stack m)" using assms(2) by simp
  have "one_fullscreen ((wm_stack m)[k := w])"
    using assms(1,3,5) k unfolding one_fullscreen_def wm_ok_def stack_ok_def by (metis mem)
  moreover have "\<forall>v \<in> set ((wm_stack m)[k := w]). window_ok v \<and> 0 < w_id v \<and> w_id v < wm_next_id m"
    using assms(1,3,4) k by (auto simp: wm_ok_def stack_ok_def dest!: mem)
  moreover have "w_id ` set ((wm_stack m)[k := w]) = w_id ` set (wm_stack m)"
    using ids by (metis set_map)
  ultimately show ?thesis using assms(1) ids by (simp add: wm_ok_def stack_ok_def)
qed

lemma set_rect_ok [inv_intros]: "wm_ok m \<Longrightarrow> wm_ok (set_rect m i user work)"
proof (cases "wm_index m i")
  case (Some k)
  assume ok: "wm_ok m"
  have k: "k < length (wm_stack m)" using wm_index_Some[OF Some] by simp
  then have "window_ok (wm_stack m ! k)" using ok by (simp add: wm_ok_def stack_ok_def)
  then have "wm_ok (m\<lparr>wm_stack := (wm_stack m)[k := (wm_stack m ! k)\<lparr>w_user_rect := user,
      w_display_rect := clamp_to user work (win_min (wm_stack m ! k))\<rparr>]\<rparr>)"
    by (intro update_ok[OF ok k]) (simp_all add: window_ok_def)
  then show ?thesis using ok by (simp add: set_rect_def Some Let_def)
qed (simp add: set_rect_def)

lemma wm_step_focus:
  "wm_step delta m = m \<or> (\<exists>w \<in> set (wm_stack m). w_mode w \<noteq> Minimized \<and> wm_step delta m = focus m (w_id w))"
proof (cases "wm_stack m = []")
  case False
  let ?n = "int (length (wm_stack m))"
  have n: "0 < ?n" using False by simp
  have idx: "step_index ?n s delta k < length (wm_stack m)" for s k
    using pos_mod_bound[OF n, of "s + delta * k"] pos_mod_sign[OF n, of "s + delta * k"]
    by (simp add: step_index_def crem_wrap[OF n] nat_less_iff del: of_nat_0_less_iff)
  then show ?thesis using n
    by (auto simp: wm_step_def Let_def find_Some_iff split: option.splits)
qed (simp add: wm_step_def)


lemma set_mode_ok [inv_intros]: "wm_ok m \<Longrightarrow> wm_ok (set_mode m i md work)"
proof (cases "wm_index m i")
  case (Some k)
  assume ok: "wm_ok m"
  let ?w = "wm_stack m ! k"
  have k: "k < length (wm_stack m)" "w_id ?w = i" using wm_index_Some[OF Some] by simp_all
  then have w: "window_ok ?w" using ok by (simp add: wm_ok_def stack_ok_def)
  show ?thesis
  proof (cases "md = Fullscreen \<and> w_mode ?w \<noteq> Fullscreen")
    case False
    then show ?thesis using ok k w
      by (cases md) (auto simp: set_mode_def Some Let_def window_ok_def intro!: update_ok)
  next
    case True
    let ?w' = "?w\<lparr>w_before_fullscreen := w_mode ?w, w_mode := Fullscreen, w_display_rect := work\<rparr>"
    let ?st = "(map (leave_fullscreen i) (wm_stack m))[k := ?w']"
    have e: "set_mode m i md work = m\<lparr>wm_stack := ?st\<rparr>" using True by (simp add: set_mode_def Some Let_def)
    have ids: "map w_id ?st = map w_id (wm_stack m)"
      using k by (simp add: map_update comp_def list_update_same_conv)
    have mem: "v = ?w' \<or> v \<in> leave_fullscreen i ` set (wm_stack m)" if "v \<in> set ?st" for v
      using that set_update_subset_insert by fastforce
    have fs: "w_id v = i" if "v \<in> set ?st" "w_mode v = Fullscreen" for v
      using mem[OF that(1)] that(2) k ok leave_fullscreen_mode by (auto simp: wm_ok_def stack_ok_def)
    have wok: "window_ok v \<and> 0 < w_id v \<and> w_id v < wm_next_id m" if v: "v \<in> set ?st" for v
      using mem[OF v] ok k True nth_mem[OF k(1)] by (auto simp: wm_ok_def stack_ok_def window_ok_def)
    have "w_id ` set ?st = w_id ` set (wm_stack m)" using ids by (metis set_map)
    then show ?thesis using ok ids fs wok unfolding e by (auto simp: wm_ok_def stack_ok_def one_fullscreen_def)
  qed
qed (simp add: set_mode_def)

lemma relayout_ok [inv_intros]: "wm_ok (relayout m work cols rows) = wm_ok m"
proof -
  let ?f = "\<lambda>w. w\<lparr>w_display_rect := display_rect_for w work cols rows\<rparr>"
  have "map w_id (map ?f st) = map w_id st" for st by (simp add: comp_def)
  moreover have "w_id ` set (map ?f st) = w_id ` set st" for st by (simp add: image_image)
  moreover have "one_fullscreen (map ?f st) = one_fullscreen st" for st
    by (simp add: one_fullscreen_def)
  moreover have "(\<forall>w \<in> set (map ?f st). window_ok w \<and> 0 < w_id w \<and> w_id w < n)
      = (\<forall>w \<in> set st. window_ok w \<and> 0 < w_id w \<and> w_id w < n)" for st n
    by (simp add: window_ok_def)
  ultimately have "stack_ok (map ?f st) n f = stack_ok st n f" for st n f
    unfolding stack_ok_def by (simp only: length_map)
  then show ?thesis by (simp add: relayout_def wm_ok_def)
qed

lemma wm_step_ok [inv_intros]: "wm_ok m \<Longrightarrow> wm_ok (wm_step delta m)"
  using wm_step_focus[of delta m] focus_ok[of m] by auto

lemma wm_close_ok [inv_intros]: "wm_ok m \<Longrightarrow> wm_ok (fst (wm_close m i))"
proof (cases "wm_index m i")
  case (Some k)
  assume ok: "wm_ok m"
  let ?st = "take k (wm_stack m) @ drop (Suc k) (wm_stack m)"
  have k: "k < length (wm_stack m)" "w_id (wm_stack m ! k) = i" using wm_index_Some[OF Some] by simp_all
  have st: "wm_stack m = take k (wm_stack m) @ wm_stack m ! k # drop (Suc k) (wm_stack m)"
    using k(1) by (rule id_take_nth_drop)
  then have sub: "set (wm_stack m) = insert (wm_stack m ! k) (set ?st)"
    by (metis Un_insert_right list.simps(15) set_append)
  have d: "distinct (map w_id ?st)" "length ?st \<le> kMaxWindows"
    using ok arg_cong[OF st, of "map w_id"] k(1) by (auto simp: wm_ok_def stack_ok_def)
  have foc: "wm_focused m = i \<or> wm_focused m = 0 \<or> wm_focused m \<in> w_id ` set ?st"
    using ok k(2) unfolding wm_ok_def stack_ok_def sub by auto
  have "set ?st \<subseteq> set (wm_stack m)" using sub by blast
  then have all: "\<forall>w \<in> set ?st. window_ok w \<and> 0 < w_id w \<and> w_id w < wm_next_id m" "one_fullscreen ?st"
    using ok unfolding wm_ok_def stack_ok_def one_fullscreen_def by blast+
  have st': "stack_ok ?st (wm_next_id m) f" if "f = 0 \<or> f \<in> w_id ` set ?st" for f
    using that d all unfolding stack_ok_def by blast
  show ?thesis
  proof (cases "wm_focused m = i")
    case True
    have "w_id (last ?st) \<in> w_id ` set ?st" if "?st \<noteq> []" using that last_in_set by blast
    then show ?thesis using True st' by (auto simp: wm_close_def Some Let_def wm_ok_def simp del: last_append)
  next
    case False
    then show ?thesis using st' foc by (simp add: wm_close_def Some Let_def wm_ok_def)
  qed
qed (simp add: wm_close_def)

lemma one_fullscreen_snoc: "w_mode w \<noteq> Fullscreen \<Longrightarrow> one_fullscreen (st @ [w]) = one_fullscreen st"
  unfolding one_fullscreen_def set_append by auto

lemma wm_open_ok [inv_intros]:
  assumes ok: "wm_ok m" and "wm_next_id m \<noteq> -1" "wm_next_id m \<noteq> 0"
  shows "wm_ok (fst (wm_open m app work))"
proof (cases "length (wm_stack m) \<ge> kMaxWindows \<or> app = None")
  case False
  then obtain a where a: "app = Some a" by auto
  let ?w = "new_window m a work"
  let ?m = "m\<lparr>wm_next_id := wm_next_id m + 1, wm_cascade := next_cascade work (wm_cascade m),
               wm_stack := wm_stack m @ [?w]\<rparr>"
  have w: "window_ok ?w" "w_id ?w = wm_next_id m" "w_mode ?w = Normal"
    by (simp_all add: new_window_def Let_def window_ok_def)
  have lt: "wm_next_id m < wm_next_id m + 1" using assms(2) inc_less_eq_triv_imp not_less by blast
  have "wm_next_id m \<notin> w_id ` set (wm_stack m)" using ok by (auto simp: wm_ok_def stack_ok_def)
  moreover have "0 < wm_next_id m" using assms(3) by (simp add: word_gt_0)
  moreover have "one_fullscreen (wm_stack m @ [?w])"
    using ok w(3) by (simp add: wm_ok_def stack_ok_def one_fullscreen_snoc)
  moreover have "\<forall>v \<in> set (wm_stack m). window_ok v \<and> 0 < w_id v \<and> w_id v < wm_next_id m + 1"
    using ok less_trans[OF _ lt] unfolding wm_ok_def stack_ok_def by blast
  moreover have "distinct (map w_id (wm_stack m))" "wm_focused m = 0 \<or> wm_focused m \<in> w_id ` set (wm_stack m)"
    using ok by (simp_all add: wm_ok_def stack_ok_def)
  ultimately have "wm_ok ?m" using False w(1,2) lt by (auto simp: wm_ok_def stack_ok_def)
  then show ?thesis using False a w focus_ok[of ?m "w_id ?w"] by (simp add: wm_open_def Let_def)
qed (use ok in \<open>auto simp: wm_open_def split: option.splits\<close>)


text \<open>Runs of the manager; the counter is the number of windows opened so far.  The
  session only focuses windows it has found on the stack.\<close>

inductive wm_run :: "nat \<Rightarrow> wm \<Rightarrow> bool" where
  wr_init: "wm_run 0 wm_init"
| wr_open: "wm_run n m \<Longrightarrow> wm_run (Suc n) (fst (wm_open m app work))"
| wr_close: "wm_run n m \<Longrightarrow> wm_run n (fst (wm_close m i))"
| wr_focus: "wm_run n m \<Longrightarrow> i \<in> w_id ` set (wm_stack m) \<Longrightarrow> wm_run n (focus m i)"
| wr_raise: "wm_run n m \<Longrightarrow> wm_run n (raise m i)"
| wr_step: "wm_run n m \<Longrightarrow> wm_run n (wm_step delta m)"
| wr_rect: "wm_run n m \<Longrightarrow> wm_run n (set_rect m i user work)"
| wr_mode: "wm_run n m \<Longrightarrow> wm_run n (set_mode m i md work)"
| wr_layout: "wm_run n m \<Longrightarrow> wm_run n (relayout m work cols rows)"

lemma raise_ok [inv_intros]: "wm_ok (raise m i) = wm_ok m"
  by (simp add: wm_ok_def stack_ok_def one_fullscreen_def)

lemma wm_next_id_simps [simp]:
  "wm_next_id (focus m i) = wm_next_id m" "wm_next_id (wm_step delta m) = wm_next_id m"
  "wm_next_id (set_rect m i user work) = wm_next_id m" "wm_next_id (set_mode m i md work) = wm_next_id m"
  "wm_next_id (relayout m work cols rows) = wm_next_id m" "wm_next_id (fst (wm_close m i)) = wm_next_id m"
proof -
  show f: "wm_next_id (focus m i) = wm_next_id m" for i by (simp add: focus_def)
  show "wm_next_id (wm_step delta m) = wm_next_id m" using wm_step_focus[of delta m] f by auto
qed (auto simp: set_rect_def set_mode_def relayout_def wm_close_def Let_def split: option.splits)

lemma wm_open_next_id:
  "unat (wm_next_id m) \<le> Suc n \<Longrightarrow> Suc n < 2 ^ 32 - 1 \<Longrightarrow>
     unat (wm_next_id (fst (wm_open m app work))) \<le> Suc (Suc n)"
  "wm_next_id (fst (wm_open m app work)) = wm_next_id m \<or> wm_next_id (fst (wm_open m app work)) = wm_next_id m + 1"
  by (auto simp: wm_open_def Let_def unat_word_ariths split: option.splits)

lemma wm_run_ok: "wm_run n m \<Longrightarrow> n < 2 ^ 32 - 1 \<Longrightarrow> wm_ok m \<and> 0 < wm_next_id m \<and> unat (wm_next_id m) \<le> Suc n"
proof (induction rule: wm_run.induct)
  case wr_init
  then show ?case by (simp add: wm_ok_def stack_ok_def wm_init_def one_fullscreen_def)
next
  case (wr_open n m app work)
  then have ih: "wm_ok m" "0 < wm_next_id m" "unat (wm_next_id m) \<le> Suc n" by simp_all
  have ne: "wm_next_id m \<noteq> -1" using ih(3) wr_open.prems by (auto simp: unsigned_minus_1_eq_mask mask_eq_exp_minus_1)
  have "wm_next_id m + 1 \<noteq> 0" using ne max_word_wrap by blast
  then have "0 < wm_next_id (fst (wm_open m app work))"
    using wm_open_next_id(2)[of m app work] ih(2) by (auto simp: word_gt_0)
  then show ?case using wm_open_ok[OF ih(1) ne] ih wm_open_next_id(1)[OF ih(3)] wr_open.prems
    by (simp add: word_gt_0)
qed (simp_all add: inv_intros)


lemma map_leave_ids: "map w_id (filter (\<lambda>w. w_id w \<noteq> i) (map (leave_fullscreen j) st))
    = map w_id (filter (\<lambda>w. w_id w \<noteq> i) st)"
  by (induction st) simp_all

lemma raise_front:
  assumes "wm_index m i = Some k"
  shows "w_id (last (wm_stack (raise m i))) = i \<and> wm_stack (raise m i) \<noteq> []
    \<and> filter (\<lambda>w. w_id w \<noteq> i) (wm_stack (raise m i)) = filter (\<lambda>w. w_id w \<noteq> i) (wm_stack m)"
proof -
  have k: "k < length (wm_stack m)" "w_id (wm_stack m ! k) = i" using wm_index_Some[OF assms] by simp_all
  have d: "drop k (wm_stack m) = wm_stack m ! k # drop (Suc k) (wm_stack m)"
    using k(1) by (simp add: Cons_nth_drop_Suc)
  have st: "wm_stack m = take k (wm_stack m) @ wm_stack m ! k # drop (Suc k) (wm_stack m)"
    using k(1) by (rule id_take_nth_drop)
  have f: "filter (\<lambda>w. w_id w \<noteq> i) (take k (wm_stack m)) @ filter (\<lambda>w. w_id w \<noteq> i) (drop (Suc k) (wm_stack m))
      = filter (\<lambda>w. w_id w \<noteq> i) (wm_stack m)"
    using arg_cong[OF st, of "filter (\<lambda>w. w_id w \<noteq> i)"] k(2) by simp
  show ?thesis
  proof (cases "k + 1 = length (wm_stack m)")
    case True
    then have "last (wm_stack m) = wm_stack m ! k" "wm_stack m \<noteq> []"
      by (metis add_diff_cancel_right' k(1) last_conv_nth length_0_conv less_nat_zero_code, use k in auto)
    then show ?thesis using True k(2) by (simp add: raise_def assms)
  next
    case False
    then have "wm_stack (raise m i) = take k (wm_stack m) @ drop (Suc k) (wm_stack m) @ [wm_stack m ! k]"
      by (simp add: raise_def assms rotate_at_def d)
    then show ?thesis using k(2) f by simp
  qed
qed

lemma focus_in_front:
  assumes "i \<in> w_id ` set (wm_stack m)"
  shows "wm_focused (focus m i) = i \<and> w_id (last (wm_stack (focus m i))) = i
    \<and> map w_id (filter (\<lambda>w. w_id w \<noteq> i) (wm_stack (focus m i)))
      = map w_id (filter (\<lambda>w. w_id w \<noteq> i) (wm_stack m))"
proof -
  let ?m = "m\<lparr>wm_stack := map (leave_fullscreen i) (wm_stack m)\<rparr>"
  have "i \<in> w_id ` set (wm_stack ?m)" using assms by (simp add: image_image)
  then obtain k where "wm_index ?m i = Some k" using wm_index_None[of ?m i] by auto
  from raise_front[OF this] show ?thesis by (simp add: focus_def map_leave_ids)
qed

lemma step_surj:
  fixes n j s d :: int
  assumes "0 < n" "0 \<le> j" "j < n" "d = 1 \<or> d = -1"
  shows "\<exists>k \<in> set [1..n]. step_index n s d k = nat j"
proof -
  define k where "k = (d * (j - s) - 1) mod n + 1"
  have k: "k \<in> set [1..n]"
    using pos_mod_bound[OF assms(1), of "d * (j - s) - 1"] pos_mod_sign[OF assms(1), of "d * (j - s) - 1"]
    by (simp add: k_def)
  have "k mod n = (d * (j - s)) mod n" unfolding k_def by (simp add: mod_add_left_eq)
  then have "(s + d * k) mod n = (s + d * (d * (j - s))) mod n"
    by (metis mod_add_right_eq mod_mult_right_eq)
  also have "\<dots> = j" using assms by (elim disjE) simp_all
  finally show ?thesis using k by (intro bexI[of _ k]) (simp_all add: step_index_def crem_wrap[OF assms(1)])
qed

section \<open>Properties\<close>

text \<open>
  Every reachable window manager is well formed: identifiers are distinct and
  never zero, there are at most 64 windows, at most one is full screen, and the focus
  is on a window of the stack or nowhere.  The one bound is the width of the counter:
  fewer than 2^32 - 1 windows opened in the life of the session.
\<close>

theorem wm_invariant:
  assumes "wm_run n m" and "n < 2 ^ 32 - 1"
  shows "distinct (map w_id (wm_stack m)) \<and> 0 \<notin> w_id ` set (wm_stack m)
    \<and> length (wm_stack m) \<le> 64 \<and> one_fullscreen (wm_stack m)
    \<and> (wm_focused m = 0 \<or> wm_focused m \<in> w_id ` set (wm_stack m))"
  using wm_run_ok[OF assms] by (auto simp: wm_ok_def stack_ok_def kMaxWindows_def)

theorem wm_invariant_witness:
  "one_fullscreen (wm_stack (set_mode (fst (wm_open wm_init (Some \<lparr>sz_w = 20, sz_h = 6\<rparr>) (mk_rect 0 0 80 24)))
     1 Fullscreen (mk_rect 0 0 80 24)))"
  using wm_invariant[OF wr_mode[OF wr_open[OF wr_init]]] by simp

text \<open>
  Focusing a window brings it to the front, gives it the keyboard and leaves the
  order of all other windows unchanged.
\<close>

theorem focus_brings_to_front:
  assumes "i \<in> w_id ` set (wm_stack m)"
  shows "wm_focused (focus m i) = i \<and> w_id (last (wm_stack (focus m i))) = i
    \<and> map w_id (filter (\<lambda>w. w_id w \<noteq> i) (wm_stack (focus m i)))
      = map w_id (filter (\<lambda>w. w_id w \<noteq> i) (wm_stack m))"
  using assms by (rule focus_in_front)

theorem focus_brings_to_front_witness:
  "wm_focused (focus (fst (wm_open wm_init (Some \<lparr>sz_w = 20, sz_h = 6\<rparr>) (mk_rect 0 0 80 24))) 1) = 1"
  using focus_brings_to_front[of 1 "fst (wm_open wm_init (Some \<lparr>sz_w = 20, sz_h = 6\<rparr>) (mk_rect 0 0 80 24))"]
  by (simp add: wm_open_def wm_init_def kMaxWindows_def Let_def focus_ids new_window_def)

text \<open>
  Cycling the focus in either direction always lands on a visible window, which
  comes to the front, as long as one exists; when every window is minimised the
  operation changes nothing.
\<close>

theorem focus_cycle:
  assumes "d = 1 \<or> d = -1"
  shows "if \<exists>w \<in> set (wm_stack m). w_mode w \<noteq> Minimized
    then \<exists>w \<in> set (wm_stack m). w_mode w \<noteq> Minimized \<and> wm_focused (wm_step d m) = w_id w
      \<and> w_id (last (wm_stack (wm_step d m))) = w_id w
    else wm_step d m = m"
proof (cases "\<exists>w \<in> set (wm_stack m). w_mode w \<noteq> Minimized")
  case False
  then show ?thesis using wm_step_focus[of d m] by auto
next
  case True
  then obtain j where j: "j < length (wm_stack m)" "w_mode (wm_stack m ! j) \<noteq> Minimized"
    by (auto simp: in_set_conv_nth)
  let ?n = "int (length (wm_stack m))"
  define s where "s = (case wm_index m (wm_focused m) of Some i \<Rightarrow> int i | None \<Rightarrow> ?n - 1)"
  have n: "0 < ?n" using j by auto
  obtain k where "k \<in> set [1..?n]" "step_index ?n s d k = j"
    using step_surj[OF n, of "int j" d s] j assms by auto
  then have "find (\<lambda>k. w_mode (wm_stack m ! step_index ?n s d k) \<noteq> Minimized) [1..?n] \<noteq> None"
    using j(2) by (auto simp: find_None_iff)
  then obtain k' where k': "find (\<lambda>k. w_mode (wm_stack m ! step_index ?n s d k) \<noteq> Minimized) [1..?n] = Some k'"
    by blast
  let ?w = "wm_stack m ! step_index ?n s d k'"
  have "wm_step d m = focus m (w_id ?w)" using n k' by (simp add: wm_step_def Let_def s_def)
  moreover have "w_mode ?w \<noteq> Minimized" using k' by (auto simp: find_Some_iff)
  moreover have "?w \<in> set (wm_stack m)"
    using pos_mod_bound[OF n, of "s + d * k'"] pos_mod_sign[OF n, of "s + d * k'"]
    by (intro nth_mem) (simp add: step_index_def crem_wrap[OF n] nat_less_iff del: of_nat_0_less_iff)
  ultimately show ?thesis using True focus_in_front[of "w_id ?w" m] by auto
qed

theorem focus_cycle_witness:
  "wm_focused (wm_step (-1) (fst (wm_open (wm_init\<lparr>wm_next_id := 7\<rparr>) (Some \<lparr>sz_w = 20, sz_h = 6\<rparr>)
     (mk_rect 0 0 80 24)))) = 7"
proof -
  let ?m = "fst (wm_open (wm_init\<lparr>wm_next_id := 7\<rparr>) (Some \<lparr>sz_w = 20, sz_h = 6\<rparr>) (mk_rect 0 0 80 24))"
  have "\<exists>w. wm_stack ?m = [w] \<and> w_id w = 7 \<and> w_mode w = Normal"
    by (simp add: wm_open_def wm_init_def kMaxWindows_def Let_def focus_def raise_def wm_index_def
        leave_fullscreen_def new_window_def)
  then show ?thesis using focus_cycle[of "-1" ?m] by auto
qed

text \<open>
  Resizing the terminal is reversible: a layout depends on the wanted geometry
  and not on any earlier layout, so shrinking and then restoring the screen gives back
  exactly the original display rectangles.
\<close>

theorem relayout_reversible:
  "relayout (relayout m work' cols' rows') work cols rows = relayout m work cols rows
   \<and> map w_user_rect (wm_stack (relayout m work cols rows)) = map w_user_rect (wm_stack m)"
proof -
  have "display_rect_for (w\<lparr>w_display_rect := r\<rparr>) work cols rows = display_rect_for w work cols rows" for w r
    by (cases "w_mode w") (simp_all add: display_rect_for_def win_min_def)
  then show ?thesis by (simp add: relayout_def comp_def)
qed

text \<open>
  A click goes to the topmost window under it: the window \<open>hit\<close> returns contains
  the point and is not minimised, and no window above it does; it returns none only
  when no window qualifies.
\<close>

theorem hit_topmost:
  "case hit m x y of
     None \<Rightarrow> \<forall>w \<in> set (wm_stack m). w_mode w = Minimized \<or> \<not> contains (w_display_rect w) x y
   | Some w \<Rightarrow> \<exists>below above. wm_stack m = below @ w # above \<and> w_mode w \<noteq> Minimized
       \<and> contains (w_display_rect w) x y
       \<and> (\<forall>v \<in> set above. w_mode v = Minimized \<or> \<not> contains (w_display_rect v) x y)"
proof (cases "hit m x y")
  case None
  then have "\<forall>w \<in> set (wm_stack m). w_mode w = Minimized \<or> \<not> contains (w_display_rect w) x y"
    by (auto simp: hit_def find_None_iff)
  then show ?thesis by (simp add: None)
next
  case (Some w)
  then obtain i where i: "i < length (wm_stack m)" "rev (wm_stack m) ! i = w" "w_mode w \<noteq> Minimized"
      "contains (w_display_rect w) x y"
      "\<forall>j < i. \<not> (w_mode (rev (wm_stack m) ! j) \<noteq> Minimized \<and> contains (w_display_rect (rev (wm_stack m) ! j)) x y)"
    by (auto simp: hit_def find_Some_iff)
  have r: "rev (wm_stack m) = take i (rev (wm_stack m)) @ w # drop (Suc i) (rev (wm_stack m))"
    using i(1,2) id_take_nth_drop[of i "rev (wm_stack m)"] by simp
  then have "wm_stack m = rev (drop (Suc i) (rev (wm_stack m))) @ w # rev (take i (rev (wm_stack m)))"
    by (metis append.assoc append_Cons append_Nil rev.simps(2) rev_append rev_rev_ident)
  moreover have "\<forall>v \<in> set (rev (take i (rev (wm_stack m)))).
      w_mode v = Minimized \<or> \<not> contains (w_display_rect v) x y"
    using i(1,5) by (auto simp: in_set_conv_nth simp del: take_rev) blast
  ultimately show ?thesis unfolding Some option.case using i(3,4) by blast
qed

theorem hit_topmost_witness:
  "\<exists>below above. wm_stack (fst (wm_open wm_init (Some \<lparr>sz_w = 20, sz_h = 6\<rparr>) (mk_rect 0 0 80 24)))
     = below @ [new_window wm_init \<lparr>sz_w = 20, sz_h = 6\<rparr> (mk_rect 0 0 80 24)] @ above
     \<and> contains (clamp_to kDefaultRect (mk_rect 0 0 80 24) (frame_min \<lparr>sz_w = 20, sz_h = 6\<rparr>)) 10 10"
proof -
  let ?m = "fst (wm_open wm_init (Some \<lparr>sz_w = 20, sz_h = 6\<rparr>) (mk_rect 0 0 80 24))"
  let ?w = "new_window wm_init \<lparr>sz_w = 20, sz_h = 6\<rparr> (mk_rect 0 0 80 24)"
  have st: "wm_stack ?m = [?w]"
    by (simp add: wm_open_def wm_init_def kMaxWindows_def Let_def focus_def raise_def wm_index_def
        leave_fullscreen_def new_window_def)
  have r: "w_display_rect ?w = clamp_to kDefaultRect (mk_rect 0 0 80 24) (frame_min \<lparr>sz_w = 20, sz_h = 6\<rparr>)"
    by (simp add: new_window_def wm_init_def Let_def kDefaultRect_def)
  have "hit ?m 10 10 = Some ?w"
    unfolding hit_def st by (simp add: new_window_def wm_init_def Let_def kDefaultRect_def kCascadeDx_def
        kCascadeDy_def clamp_to_def frame_min_def contains_def)
  with hit_topmost[of ?m 10 10] r show ?thesis by auto
qed

end
