(* ===== verification/App.thy ===== *)
theory App
  imports Menu Config Wm_Manager
begin

text \<open>
  \<open>src/app/app.hpp\<close> and \<open>src/daemon/host.cpp\<close>: the interface between the desktop and an
  application, and the host through which the application reaches the desktop.  The desktop knows no
  type of application, so the applications are a type variable and their virtual methods a record of
  functions; each returns the application it leaves and the calls it made to its host.
\<close>

section \<open>Calls to the host\<close>

datatype 'a host_req =
    HSetTitle bytes
  | HRequestClose
  | HInvalidate
  | HWatch int "32 word"
  | HUnwatch "64 word"
  | HWatchChild int
  | HOpenApp 'a bytes
  | HSetStartDir bytes

text \<open>What a host answers: the key of the next descriptor watched, and the settings.\<close>

record host_view =
  hv_win :: "32 word"
  hv_gen :: "32 word"
  hv_start_dir :: bytes
  hv_configured :: bytes

definition make_key :: "32 word \<Rightarrow> 32 word \<Rightarrow> 64 word" where
  "make_key win gen = push_bit 32 (ucast win) OR ucast gen"

definition key_window :: "64 word \<Rightarrow> 32 word" where
  "key_window key = ucast (drop_bit 32 key)"

definition kGenFirstDynamic :: "32 word" where "kGenFirstDynamic = 16"

section \<open>Applications\<close>

record 'a app_ops =
  ap_make :: "catalog_app \<Rightarrow> 'a"
  ap_attach :: "host_view \<Rightarrow> 'a \<Rightarrow> 'a \<times> 'a host_req list"
  ap_render :: "bool \<Rightarrow> rect \<Rightarrow> 'a \<Rightarrow> surface \<Rightarrow> 'a \<times> surface"
  ap_key :: "key_event \<Rightarrow> host_view \<Rightarrow> 'a \<Rightarrow> 'a \<times> 'a host_req list"
  ap_mouse :: "mouse_event \<Rightarrow> host_view \<Rightarrow> 'a \<Rightarrow> 'a \<times> 'a host_req list"
  ap_paste :: "bytes \<Rightarrow> bool \<Rightarrow> host_view \<Rightarrow> 'a \<Rightarrow> 'a \<times> 'a host_req list"
  ap_resize :: "size \<Rightarrow> host_view \<Rightarrow> 'a \<Rightarrow> 'a \<times> 'a host_req list"
  ap_child_exit :: "int \<Rightarrow> host_view \<Rightarrow> 'a \<Rightarrow> 'a \<times> 'a host_req list"
  ap_command :: "bytes \<Rightarrow> host_view \<Rightarrow> 'a \<Rightarrow> 'a \<times> 'a host_req list"
  ap_io :: "64 word \<Rightarrow> 32 word \<Rightarrow> host_view \<Rightarrow> 'a \<Rightarrow> 'a \<times> 'a host_req list"
  ap_refresh :: "host_view \<Rightarrow> 'a \<Rightarrow> 'a \<times> 'a host_req list"
  ap_wants_cursor :: "'a \<Rightarrow> (int \<times> int) option"
  ap_min_size :: "'a \<Rightarrow> size"
  ap_refresh_ms :: "'a \<Rightarrow> int"
  ap_can_close :: "'a \<Rightarrow> bytes option"

section \<open>The host\<close>

datatype fd_call = FdWatch "64 word" int "32 word" | FdUnwatch int

text \<open>What the hosts of all the windows share with the session, and the descriptors each watches.\<close>

record 'a desk =
  dk_wm :: wm
  dk_apps :: "32 word \<rightharpoonup> 'a"
  dk_watched :: "32 word \<Rightarrow> (64 word \<times> int) list"
  dk_fds :: "fd_call list"
  dk_gen :: "32 word"
  dk_children :: "(int \<times> 32 word) list"
  dk_pending :: "('a \<times> bytes) list"
  dk_settings :: settings
  dk_disk :: disk
  dk_dirty :: bool

definition upd_win :: "(window \<Rightarrow> window) \<Rightarrow> 32 word \<Rightarrow> wm \<Rightarrow> wm" where
  "upd_win f i m = m\<lparr>wm_stack := map (\<lambda>w. if w_id w = i then f w else w) (wm_stack m)\<rparr>"

definition host_watch :: "32 word \<Rightarrow> int \<Rightarrow> 32 word \<Rightarrow> 'a desk \<Rightarrow> 'a desk" where
  "host_watch i fd events d =
     (let key = make_key i (dk_gen d)
      in d\<lparr>dk_gen := dk_gen d + 1, dk_watched := (dk_watched d)(i := dk_watched d i @ [(key, fd)]),
           dk_fds := dk_fds d @ [FdWatch key fd events]\<rparr>)"

definition host_unwatch :: "32 word \<Rightarrow> 64 word \<Rightarrow> 'a desk \<Rightarrow> 'a desk" where
  "host_unwatch i token d =
     (case find_if (\<lambda>p. fst p = token) (dk_watched d i) of
        None \<Rightarrow> d
      | Some k \<Rightarrow> d\<lparr>dk_fds := dk_fds d @ [FdUnwatch (snd (dk_watched d i ! k))],
                    dk_watched := (dk_watched d)(i := take k (dk_watched d i) @ drop (Suc k) (dk_watched d i))\<rparr>)"

definition host_unwatch_all :: "32 word \<Rightarrow> 'a desk \<Rightarrow> 'a desk" where
  "host_unwatch_all i d =
     d\<lparr>dk_fds := dk_fds d @ map (\<lambda>p. FdUnwatch (snd p)) (dk_watched d i), dk_watched := (dk_watched d)(i := [])\<rparr>"

definition host_owns :: "32 word \<Rightarrow> 64 word \<Rightarrow> 'a desk \<Rightarrow> bool" where
  "host_owns i key d \<longleftrightarrow> list_ex (\<lambda>p. fst p = key) (dk_watched d i)"

fun serve_req :: "write_outcome \<Rightarrow> 32 word \<Rightarrow> 'a desk \<Rightarrow> 'a host_req \<Rightarrow> 'a desk" where
  "serve_req w i d (HSetTitle t) = d\<lparr>dk_wm := upd_win (\<lambda>x. x\<lparr>w_title := t\<rparr>) i (dk_wm d)\<rparr>"
| "serve_req w i d HRequestClose = d\<lparr>dk_wm := upd_win (\<lambda>x. x\<lparr>w_close_requested := True\<rparr>) i (dk_wm d)\<rparr>"
| "serve_req w i d HInvalidate = d\<lparr>dk_dirty := True\<rparr>"
| "serve_req w i d (HWatch fd events) = host_watch i fd events d"
| "serve_req w i d (HUnwatch token) = host_unwatch i token d"
| "serve_req w i d (HWatchChild pid) = d\<lparr>dk_children := dk_children d @ [(pid, i)]\<rparr>"
| "serve_req w i d (HOpenApp a app_id) = d\<lparr>dk_pending := dk_pending d @ [(a, app_id)], dk_dirty := True\<rparr>"
| "serve_req w i d (HSetStartDir dir) =
     (let (s, dk, ok) = set_start_dir w (dk_disk d) (dk_settings d) dir in d\<lparr>dk_settings := s, dk_disk := dk\<rparr>)"

definition host_view_of :: "32 word \<Rightarrow> 'a desk \<Rightarrow> host_view" where
  "host_view_of i d = \<lparr>hv_win = i, hv_gen = dk_gen d, hv_start_dir = settings_start_dir (dk_settings d),
     hv_configured = start_dir (set_config (dk_settings d))\<rparr>"

text \<open>A call of a method of the application of window \<open>i\<close>; its minimal size is read again after it.\<close>

definition put_app :: "'a app_ops \<Rightarrow> 32 word \<Rightarrow> 'a \<Rightarrow> 'a desk \<Rightarrow> 'a desk" where
  "put_app ops i a d = d\<lparr>dk_apps := (dk_apps d)(i \<mapsto> a), dk_wm := upd_win (\<lambda>x. x\<lparr>w_app := Some (ap_min_size ops a)\<rparr>) i (dk_wm d)\<rparr>"

definition app_call ::
  "'a app_ops \<Rightarrow> write_outcome \<Rightarrow> (host_view \<Rightarrow> 'a \<Rightarrow> 'a \<times> 'a host_req list) \<Rightarrow> 32 word \<Rightarrow> 'a desk \<Rightarrow> 'a desk" where
  "app_call ops w f i d =
     (case dk_apps d i of
        None \<Rightarrow> d
      | Some a \<Rightarrow> let (a', reqs) = f (host_view_of i d) a in foldl (serve_req w i) (put_app ops i a' d) reqs)"

definition host_deliver :: "'a app_ops \<Rightarrow> write_outcome \<Rightarrow> 32 word \<Rightarrow> 64 word \<Rightarrow> 32 word \<Rightarrow> 'a desk \<Rightarrow> 'a desk" where
  "host_deliver ops w i key events d =
     (if host_owns i key d then app_call ops w (ap_io ops key events) i d else d)"

text \<open>
  What \<open>open_from_catalog\<close>, \<open>ensure_window\<close> and the pending applications share: a window for the
  application, its host, and \<open>attach\<close>.
\<close>

definition open_window :: "'a app_ops \<Rightarrow> write_outcome \<Rightarrow> rect \<Rightarrow> 'a \<Rightarrow> bytes \<Rightarrow> 'a desk \<Rightarrow> 'a desk \<times> 32 word" where
  "open_window ops w work a app_id d =
     (case wm_open (dk_wm d) (Some (ap_min_size ops a)) work of
        (m, None) \<Rightarrow> (d, 0)
      | (m, Some i) \<Rightarrow>
          let d1 = d\<lparr>dk_wm := upd_win (\<lambda>x. x\<lparr>w_app_id := app_id\<rparr>) i m, dk_apps := (dk_apps d)(i \<mapsto> a),
                dk_watched := (dk_watched d)(i := [])\<rparr>
          in (app_call ops w (ap_attach ops) i d1, i))"

definition close_window :: "32 word \<Rightarrow> 'a desk \<Rightarrow> 'a desk" where
  "close_window i d =
     (let d1 = host_unwatch_all i d
      in d1\<lparr>dk_children := filter (\<lambda>c. snd c \<noteq> i) (dk_children d1), dk_wm := fst (wm_close (dk_wm d1) i),
            dk_apps := (dk_apps d1)(i := None)\<rparr>)"

end
