(* ===== verification/Update_State.thy ===== *)
theory Update_State
  imports Lines
begin

text \<open>
  \<open>src/shell/update_state.cpp\<close>: the reader of the file the update scripts write.  The file is a
  sequence of \<open>key = value\<close> lines; the first occurrence of a key wins, what cannot be read is
  the field's default, and what is drawn is bounded.
\<close>

section \<open>Model\<close>

datatype update_status = UIdle | UChecking | UApplying | UUpToDate | UAvailable | URestartPending
  | UCheckFailed | UApplyFailed | UHistoryRewritten | UUpdatesDisabled

record update_state =
  us_status :: update_status
  us_prefix :: bytes
  us_source :: bytes
  us_installed_commit :: bytes
  us_previous_commit :: bytes
  us_remote_commit :: bytes
  us_installed_version :: bytes
  us_remote_version :: bytes
  us_commits_ahead :: int
  us_checked_at :: int
  us_pid :: int
  us_stage :: bytes
  us_progress :: int
  us_message :: bytes
  us_restart_pending :: bool
  us_notes :: "bytes list"

definition update_init :: update_state where
  "update_init = \<lparr>us_status = UIdle, us_prefix = [], us_source = [], us_installed_commit = [],
     us_previous_commit = [], us_remote_commit = [], us_installed_version = [], us_remote_version = [],
     us_commits_ahead = 0, us_checked_at = 0, us_pid = - 1, us_stage = [], us_progress = - 1,
     us_message = [], us_restart_pending = False, us_notes = []\<rparr>"

definition kMaxStateBytes :: nat where "kMaxStateBytes = 4096"
definition kMaxStateMessageBytes :: nat where "kMaxStateMessageBytes = 200"
definition kUpdateStateSchema :: int where "kUpdateStateSchema = 1"
definition kMaxUpdateNotes :: nat where "kMaxUpdateNotes = 6"
definition kMaxUpdateNoteChars :: nat where "kMaxUpdateNoteChars = 76"

definition is_space :: "byte \<Rightarrow> bool" where
  "is_space c \<longleftrightarrow> c = 0x20 \<or> c = 0x09 \<or> c = 0x0D"

definition us_trim :: "bytes \<Rightarrow> bytes" where
  "us_trim s = rev (dropWhile is_space (rev (dropWhile is_space s)))"

definition dec_digit :: "byte \<Rightarrow> bool" where
  "dec_digit c \<longleftrightarrow> 0x30 \<le> c \<and> c \<le> 0x39"

definition digit :: "byte \<Rightarrow> int" where
  "digit c = uint c - 48"

text \<open>The loop of \<open>read_int64\<close>, with its guard before the multiplication.\<close>

fun read_digits :: "int \<Rightarrow> bytes \<Rightarrow> int option" where
  "read_digits v [] = Some v"
| "read_digits v (c # cs) =
     (if \<not> dec_digit c then None
      else if v > (9223372036854775807 - digit c) div 10 then None
      else read_digits (v * 10 + digit c) cs)"

definition read_int64 :: "bytes \<Rightarrow> int option" where
  "read_int64 s =
     (case s of
        [] \<Rightarrow> None
      | c # cs \<Rightarrow>
          if c = 0x2D \<or> c = 0x2B then
            (if cs = [] then None else map_option (\<lambda>v. if c = 0x2D then - v else v) (read_digits 0 cs))
          else read_digits 0 s)"

definition clean_version :: "bytes \<Rightarrow> bytes" where
  "clean_version s =
     (if s = [] \<or> length s > 12 then []
      else if list_all (\<lambda>c. dec_digit c \<or> c = 0x2E) s then s else [])"

definition status_table :: "(bytes \<times> update_status) list" where
  "status_table =
     [(str ''idle'', UIdle), (str ''checking'', UChecking), (str ''applying'', UApplying),
      (str ''up-to-date'', UUpToDate), (str ''available'', UAvailable),
      (str ''restart-pending'', URestartPending), (str ''check-failed'', UCheckFailed),
      (str ''apply-failed'', UApplyFailed), (str ''history-rewritten'', UHistoryRewritten),
      (str ''updates-disabled'', UUpdatesDisabled)]"

definition read_status :: "bytes \<Rightarrow> update_status option" where
  "read_status s = map_of status_table s"

definition is_cont :: "byte \<Rightarrow> bool" where
  "is_cont c \<longleftrightarrow> c AND 0xC0 = 0x80"

definition clean_note :: "bytes \<Rightarrow> bytes" where
  "clean_note v =
     (let out = filter (\<lambda>u. u \<ge> 0x20 \<and> u \<noteq> 0x7F) v in
      if length out > kMaxUpdateNoteChars then rev (dropWhile is_cont (rev (take kMaxUpdateNoteChars out)))
      else out)"

fun note_digits :: "nat \<Rightarrow> bytes \<Rightarrow> nat" where
  "note_digits n [] = n"
| "note_digits n (c # cs) =
     (if \<not> dec_digit c then 0
      else let m = n * 10 + nat (digit c) in if m > 10000 then 0 else note_digits m cs)"

definition note_index :: "bytes \<Rightarrow> nat" where
  "note_index key =
     (let prefixe = str ''note_'' in
      if length key \<le> length prefixe \<or> take (length prefixe) key \<noteq> prefixe then 0
      else note_digits 0 (drop (length prefixe) key))"

text \<open>\<open>static_cast<pid_t>\<close> of a 64-bit value keeps its low 32 bits.\<close>

definition to_pid :: "int \<Rightarrow> int" where
  "to_pid v = sint (word_of_int v :: 32 word)"

record parse_acc =
  pa_seen :: "bytes list"
  pa_schema_ok :: bool
  pa_vu_restart :: bool
  pa_state :: update_state
  pa_notes :: "(nat \<times> bytes) list"

definition parse_acc_init :: parse_acc where
  "parse_acc_init = \<lparr>pa_seen = [], pa_schema_ok = False, pa_vu_restart = False, pa_state = update_init, pa_notes = []\<rparr>"

text \<open>The fields a key may set, in the order of the source.\<close>

definition state_field :: "int \<Rightarrow> bytes \<Rightarrow> bytes \<Rightarrow> update_state \<Rightarrow> update_state" where
  "state_field now key value u =
     (if key = str ''prefix'' then u\<lparr>us_prefix := value\<rparr>
      else if key = str ''source'' then u\<lparr>us_source := value\<rparr>
      else if key = str ''installed_commit'' then u\<lparr>us_installed_commit := value\<rparr>
      else if key = str ''previous_commit'' then u\<lparr>us_previous_commit := value\<rparr>
      else if key = str ''remote_commit'' then u\<lparr>us_remote_commit := value\<rparr>
      else if key = str ''installed_version'' then u\<lparr>us_installed_version := clean_version value\<rparr>
      else if key = str ''remote_version'' then u\<lparr>us_remote_version := clean_version value\<rparr>
      else if key = str ''commits_ahead'' then
        (case read_int64 value of Some v \<Rightarrow> if v > 0 \<and> v < 1000000 then u\<lparr>us_commits_ahead := v\<rparr> else u | None \<Rightarrow> u)
      else if key = str ''checked_at'' then
        (case read_int64 value of Some v \<Rightarrow> if v \<ge> 0 \<and> v \<le> now then u\<lparr>us_checked_at := v\<rparr> else u | None \<Rightarrow> u)
      else if key = str ''status'' then
        (case read_status value of Some st \<Rightarrow> u\<lparr>us_status := st\<rparr> | None \<Rightarrow> u)
      else if key = str ''restart_pending'' then u\<lparr>us_restart_pending := (value = str ''1'')\<rparr>
      else if key = str ''pid'' then
        (case read_int64 value of Some v \<Rightarrow> if v > 0 then u\<lparr>us_pid := to_pid v\<rparr> else u | None \<Rightarrow> u)
      else if key = str ''stage'' then u\<lparr>us_stage := take 40 value\<rparr>
      else if key = str ''progress'' then
        (case read_int64 value of Some v \<Rightarrow> if v \<ge> 0 \<and> v \<le> 100 then u\<lparr>us_progress := v\<rparr> else u | None \<Rightarrow> u)
      else if key = str ''message'' then u\<lparr>us_message := take kMaxStateMessageBytes value\<rparr>
      else u)"

definition field_keys :: "bytes list" where
  "field_keys = map str [''prefix'', ''source'', ''installed_commit'', ''previous_commit'', ''remote_commit'',
     ''installed_version'', ''remote_version'', ''commits_ahead'', ''checked_at'', ''status'', ''restart_pending'',
     ''pid'', ''stage'', ''progress'', ''message'']"

text \<open>The key and the value of a line, when it has both.\<close>

definition line_pair :: "bytes \<Rightarrow> (bytes \<times> bytes) option" where
  "line_pair line =
     (case find_from line [0x3D] 0 of
        None \<Rightarrow> None
      | Some eq \<Rightarrow> Some (us_trim (take eq line), us_trim (drop (eq + 1) line)))"

definition state_key :: "int \<Rightarrow> bytes \<Rightarrow> bytes \<Rightarrow> parse_acc \<Rightarrow> parse_acc" where
  "state_key now key value a =
     (if key = str ''schema'' then a\<lparr>pa_schema_ok := (read_int64 value = Some kUpdateStateSchema)\<rparr>
      else if key \<in> set field_keys then
        a\<lparr>pa_state := state_field now key value (pa_state a),
          pa_vu_restart := (key = str ''restart_pending'' \<or> pa_vu_restart a)\<rparr>
      else if note_index key \<noteq> 0 then a\<lparr>pa_notes := pa_notes a @ [(note_index key, clean_note value)]\<rparr>
      else a)"

definition state_line :: "int \<Rightarrow> parse_acc \<Rightarrow> bytes \<Rightarrow> parse_acc" where
  "state_line now a line =
     (case line_pair line of
        None \<Rightarrow> a
      | Some (key, value) \<Rightarrow>
          if key = [] \<or> key \<in> set (pa_seen a) then a
          else state_key now key value (a\<lparr>pa_seen := pa_seen a @ [key]\<rparr>))"

text \<open>The notes 1, 2, 3, \<dots> up to the first that is missing or empty.\<close>

fun gather_notes :: "(nat \<times> bytes) list \<Rightarrow> nat list \<Rightarrow> bytes list" where
  "gather_notes notes [] = []"
| "gather_notes notes (rang # rs) =
     (case map_of notes rang of
        None \<Rightarrow> []
      | Some v \<Rightarrow> if v = [] then [] else v # gather_notes notes rs)"

definition state_finish :: "parse_acc \<Rightarrow> update_state" where
  "state_finish a =
     (if \<not> pa_schema_ok a then update_init
      else
        let u = pa_state a;
            u1 = (if \<not> pa_vu_restart a \<and> us_status u = URestartPending then u\<lparr>us_restart_pending := True\<rparr> else u)
        in u1\<lparr>us_notes := gather_notes (pa_notes a) [1..<kMaxUpdateNotes + 1]\<rparr>)"

definition parse_update_state :: "bytes \<Rightarrow> int \<Rightarrow> update_state" where
  "parse_update_state raw now =
     (if length raw > kMaxStateBytes then update_init
      else state_finish (foldl (state_line now) parse_acc_init (split_lines raw)))"

section \<open>What is read stays within bounds\<close>

definition note_ok :: "bytes \<Rightarrow> bool" where
  "note_ok v \<longleftrightarrow> length v \<le> kMaxUpdateNoteChars \<and> list_all (\<lambda>u. 0x20 \<le> u \<and> u \<noteq> 0x7F) v"

definition version_ok :: "bytes \<Rightarrow> bool" where
  "version_ok v \<longleftrightarrow> length v \<le> 12 \<and> list_all (\<lambda>c. dec_digit c \<or> c = 0x2E) v"

definition fields_ok :: "int \<Rightarrow> update_state \<Rightarrow> bool" where
  "fields_ok now u \<longleftrightarrow>
     version_ok (us_installed_version u) \<and> version_ok (us_remote_version u)
     \<and> 0 \<le> us_commits_ahead u \<and> us_commits_ahead u < 1000000
     \<and> 0 \<le> us_checked_at u \<and> us_checked_at u \<le> max 0 now
     \<and> - 1 \<le> us_progress u \<and> us_progress u \<le> 100
     \<and> length (us_stage u) \<le> 40 \<and> length (us_message u) \<le> kMaxStateMessageBytes"

definition state_ok :: "int \<Rightarrow> update_state \<Rightarrow> bool" where
  "state_ok now u \<longleftrightarrow> fields_ok now u \<and> length (us_notes u) \<le> kMaxUpdateNotes
     \<and> list_all (\<lambda>v. v \<noteq> [] \<and> note_ok v) (us_notes u)"

lemma clean_version_ok [simp]: "version_ok (clean_version s)"
  by (auto simp: clean_version_def version_ok_def)

lemma rev_dropWhile_rev_subset: "set (rev (dropWhile P (rev xs))) \<subseteq> set xs"
  using set_dropWhileD by fastforce

lemma length_rev_dropWhile_rev: "length (rev (dropWhile P (rev xs))) \<le> length xs"
  using length_dropWhile_le[of P "rev xs"] by simp

lemma clean_note_ok [simp]: "note_ok (clean_note v)"
proof -
  let ?out = "filter (\<lambda>u. u \<ge> 0x20 \<and> u \<noteq> 0x7F) v"
  let ?cut = "rev (dropWhile is_cont (rev (take kMaxUpdateNoteChars ?out)))"
  have "set ?cut \<subseteq> set ?out" using rev_dropWhile_rev_subset[of is_cont "take kMaxUpdateNoteChars ?out"] set_take_subset by fast
  moreover have "length ?cut \<le> kMaxUpdateNoteChars"
    using length_rev_dropWhile_rev[of is_cont "take kMaxUpdateNoteChars ?out"] by simp
  ultimately show ?thesis unfolding note_ok_def clean_note_def Let_def list_all_iff by auto
qed

lemma update_init_ok [simp]: "fields_ok now update_init" "state_ok now update_init"
  by (simp_all add: fields_ok_def state_ok_def update_init_def version_ok_def)

lemma fields_ok_upd [simp]:
  "fields_ok now (u\<lparr>us_prefix := b\<rparr>) = fields_ok now u" "fields_ok now (u\<lparr>us_source := b\<rparr>) = fields_ok now u"
  "fields_ok now (u\<lparr>us_installed_commit := b\<rparr>) = fields_ok now u" "fields_ok now (u\<lparr>us_previous_commit := b\<rparr>) = fields_ok now u"
  "fields_ok now (u\<lparr>us_remote_commit := b\<rparr>) = fields_ok now u" "fields_ok now (u\<lparr>us_status := st\<rparr>) = fields_ok now u"
  "fields_ok now (u\<lparr>us_restart_pending := r\<rparr>) = fields_ok now u" "fields_ok now (u\<lparr>us_pid := p\<rparr>) = fields_ok now u"
  "fields_ok now (u\<lparr>us_notes := ns\<rparr>) = fields_ok now u"
  by (simp_all add: fields_ok_def)

lemma if_both: "P x \<Longrightarrow> P y \<Longrightarrow> P (if b then x else y)"
  by simp

lemma state_field_ok: "fields_ok now u \<Longrightarrow> fields_ok now (state_field now key value u)"
  unfolding state_field_def
  by (intro if_both[of "fields_ok now"]) (simp_all add: fields_ok_def split: option.split)

definition acc_ok :: "int \<Rightarrow> parse_acc \<Rightarrow> bool" where
  "acc_ok now a \<longleftrightarrow> fields_ok now (pa_state a) \<and> list_all (\<lambda>(_, v). note_ok v) (pa_notes a)"

lemma state_line_ok: "acc_ok now a \<Longrightarrow> acc_ok now (state_line now a line)"
  by (auto simp: state_line_def state_key_def acc_ok_def state_field_ok split: option.splits)

lemma state_lines_ok: "acc_ok now a \<Longrightarrow> acc_ok now (foldl (state_line now) a ls)"
  by (induction ls arbitrary: a) (auto simp: state_line_ok)

lemma gather_notes_ok:
  assumes "list_all (\<lambda>(_, v). note_ok v) notes"
  shows "length (gather_notes notes rs) \<le> length rs" "list_all (\<lambda>v. v \<noteq> [] \<and> note_ok v) (gather_notes notes rs)"
proof -
  have n: "note_ok v" if "map_of notes r = Some v" for r v
    using map_of_SomeD[OF that] assms by (auto simp: list_all_iff)
  show "length (gather_notes notes rs) \<le> length rs" by (induction rs) (auto split: option.splits)
  show "list_all (\<lambda>v. v \<noteq> [] \<and> note_ok v) (gather_notes notes rs)" by (induction rs) (auto split: option.splits dest: n)
qed

lemma state_finish_ok: "acc_ok now a \<Longrightarrow> state_ok now (state_finish a)"
proof -
  assume a: "acc_ok now a"
  let ?ns = "gather_notes (pa_notes a) [1..<kMaxUpdateNotes + 1]"
  have "length ?ns \<le> kMaxUpdateNotes" "list_all (\<lambda>v. v \<noteq> [] \<and> note_ok v) ?ns"
    using gather_notes_ok[of "pa_notes a" "[1..<kMaxUpdateNotes + 1]"] a by (simp_all add: acc_ok_def del: upt_Suc)
  then show ?thesis using a by (simp add: state_finish_def acc_ok_def state_ok_def[of now "_\<lparr>us_notes := _\<rparr>"] Let_def del: upt_Suc)
qed

section \<open>The first occurrence of a key wins\<close>

definition line_key :: "bytes \<Rightarrow> bytes option" where
  "line_key line = (case line_pair line of Some (k, _) \<Rightarrow> if k = [] then None else Some k | None \<Rightarrow> None)"

lemma state_key_seen [simp]: "pa_seen (state_key now key value a) = pa_seen a"
  by (simp add: state_key_def)

lemma state_line_seen:
  "set (pa_seen (state_line now a line)) = set (pa_seen a) \<union> set_option (line_key line)"
  by (auto simp: state_line_def line_key_def split: option.splits)

lemma state_lines_seen:
  "set (pa_seen (foldl (state_line now) a ls)) = set (pa_seen a) \<union> (\<Union>l \<in> set ls. set_option (line_key l))"
  by (induction ls arbitrary: a) (auto simp: state_line_seen)

lemma state_line_again: "set_option (line_key line) \<subseteq> set (pa_seen a) \<Longrightarrow> state_line now a line = a"
  by (auto simp: state_line_def line_key_def split: option.splits if_splits)

lemma state_lines_again:
  "(\<Union>l \<in> set ls. set_option (line_key l)) \<subseteq> set (pa_seen a) \<Longrightarrow> foldl (state_line now) a ls = a"
  by (induction ls) (auto simp: state_line_again)

lemma cut_lines_append: "cut_lines (s @ nl # t) = cut_lines s @ cut_lines t"
proof (induction s)
  case (Cons c s)
  then show ?case by (cases "cut_lines s") auto
qed simp

section \<open>Properties\<close>

text \<open>
  C31.  Whatever the file holds, what the daemon draws from it is bounded: at most six notes, none empty
  nor longer than 76 bytes nor holding a control byte, versions of at most twelve digits and dots, a
  percentage or \<open>-1\<close>, a date of check that is not in the future, short stage and message.
\<close>

theorem update_state_bounded: "state_ok now (parse_update_state raw now)"
proof -
  have "acc_ok now parse_acc_init" by (simp add: acc_ok_def parse_acc_init_def)
  then show ?thesis by (simp add: parse_update_state_def state_finish_ok state_lines_ok)
qed

text \<open>
  The first value of a key stands: lines added at the end of a file, within the 4096 bytes that are read,
  that only repeat keys it already has are without effect.  (A line smuggled in before a key, or with a
  key the file has not, is read.)
\<close>

theorem update_state_no_forgery:
  assumes "length (raw @ nl # extra) \<le> kMaxStateBytes"
    "(\<Union>l \<in> set (split_lines extra). set_option (line_key l)) \<subseteq> (\<Union>l \<in> set (split_lines raw). set_option (line_key l))"
  shows "parse_update_state (raw @ nl # extra) now = parse_update_state raw now"
proof -
  let ?a = "foldl (state_line now) parse_acc_init (cut_lines raw)"
  have "(\<Union>l \<in> set (cut_lines extra). set_option (line_key l)) \<subseteq> set (pa_seen ?a)"
    using assms(2) by (auto simp: state_lines_seen)
  then have "foldl (state_line now) ?a (cut_lines extra) = ?a" by (rule state_lines_again)
  then show ?thesis using assms(1) by (simp add: parse_update_state_def cut_lines_append)
qed

theorem update_state_no_forgery_witness:
  "us_status (parse_update_state (str ''schema=1'' @ [nl] @ str ''status=idle'' @ nl # str ''status=available'') 0) = UIdle"
proof -
  let ?raw = "str ''schema=1'' @ [nl] @ str ''status=idle''" and ?x = "str ''status=available''"
  have h: "length (?raw @ nl # ?x) \<le> kMaxStateBytes"
    "(\<Union>l \<in> set (split_lines ?x). set_option (line_key l)) \<subseteq> (\<Union>l \<in> set (split_lines ?raw). set_option (line_key l))"
    by code_simp+
  have "us_status (parse_update_state ?raw 0) = UIdle" by code_simp
  then show ?thesis using update_state_no_forgery[OF h, of 0] by simp
qed

text \<open>
  The bound on a note cuts characters in two.  A note of 74 letters, a two-byte character and one
  letter more is cut to its first 76 bytes, which hold that character whole; then its continuation byte
  goes and its lead byte stays, so that the note drawn ends with half a character.
\<close>

theorem clean_note_splits_character:
  "clean_note (replicate 74 0x61 @ [0xC3, 0xA9, 0x61]) = replicate 74 0x61 @ [0xC3]"
  by code_simp

end
