(* ===== verification/Procstat.thy ===== *)
theory Procstat
  imports Update_State Vt_Parser
begin

text \<open>
  \<open>src/apps/monitor/procstat.cpp\<close>: the readers of \<open>/proc/stat\<close>, \<open>/proc/meminfo\<close>, \<open>/proc/loadavg\<close>,
  \<open>/proc/net/dev\<close> and \<open>/proc/<pid>/stat\<close>.  Counters are \<open>uint64_t\<close>, so their arithmetic wraps.
\<close>

section \<open>Readers\<close>

record cpu_times =
  ct_busy :: "64 word"
  ct_total :: "64 word"

record mem_info =
  mi_total :: "64 word"
  mi_available :: "64 word"

record net_totals =
  nt_rx :: "64 word"
  nt_tx :: "64 word"

record proc_info =
  pr_pid :: int
  pr_name :: bytes
  pr_ticks :: "64 word"
  pr_rss :: "64 word"

record proc_row =
  rw_pid :: int
  rw_name :: bytes
  rw_cpu :: int
  rw_rss_kb :: "64 word"

definition push_digit :: "64 word \<Rightarrow> byte \<Rightarrow> 64 word" where
  "push_digit v c = v * 10 + ucast (c - 0x30)"

function numbers_of :: "bytes \<Rightarrow> 64 word list" where
  "numbers_of [] = []"
| "numbers_of (c # cs) =
     (if \<not> dec_digit c then numbers_of cs
      else foldl push_digit 0 (takeWhile dec_digit (c # cs)) # numbers_of (dropWhile dec_digit (c # cs)))"
  by pat_completeness auto
termination
  by (relation "measure length") (auto simp: le_imp_less_Suc length_dropWhile_le)

declare numbers_of.simps(2) [simp del]

text \<open>The lines of a text; what follows the last line end is one only if it is not empty.\<close>

function lines_from :: "bytes \<Rightarrow> nat \<Rightarrow> bytes list" where
  "lines_from t start =
     (if start \<le> length t then
        (case find_from t [nl] start of
           None \<Rightarrow> if start < length t then [drop start t] else []
         | Some k \<Rightarrow> take (k - start) (drop start t) # lines_from t (k + 1))
      else [])"
  by pat_completeness auto
termination
  by (relation "measure (\<lambda>(s, i). Suc (length s) - i)") (auto dest: find_from_bounds)

declare lines_from.simps [simp del]

definition lines_of :: "bytes \<Rightarrow> bytes list" where
  "lines_of t = lines_from t 0"

definition cpu_line :: "bytes \<Rightarrow> cpu_times list" where
  "cpu_line l =
     (if take 3 l \<noteq> str ''cpu'' then []
      else (case find_if ((=) 0x20) l of
          None \<Rightarrow> []
        | Some sp \<Rightarrow>
            let n = numbers_of (drop sp l); total = sum_list n
            in if length n < 5 then [] else [\<lparr>ct_busy = total - n ! 3 - n ! 4, ct_total = total\<rparr>]))"

definition parse_cpu_times :: "bytes \<Rightarrow> cpu_times list" where
  "parse_cpu_times t = concat (map cpu_line (lines_of t))"

definition cpu_percent :: "cpu_times \<Rightarrow> cpu_times \<Rightarrow> int" where
  "cpu_percent before after =
     (if ct_total after \<le> ct_total before \<or> ct_busy after < ct_busy before then 0
      else
        let elapsed = ct_total after - ct_total before; busy = ct_busy after - ct_busy before
        in uint (min (busy * 100 div elapsed) 100))"

definition mem_line :: "(mem_info \<times> 64 word \<times> bool) \<Rightarrow> bytes \<Rightarrow> (mem_info \<times> 64 word \<times> bool)" where
  "mem_line acc l =
     (case acc of (m, free, saw) \<Rightarrow>
        (case numbers_of l of
           [] \<Rightarrow> acc
         | n # _ \<Rightarrow>
             let m1 = (if take 9 l = str ''MemTotal:'' then m\<lparr>mi_total := n\<rparr> else m);
                 f1 = (if take 8 l = str ''MemFree:'' then n else free)
             in if take 13 l = str ''MemAvailable:'' then (m1\<lparr>mi_available := n\<rparr>, f1, True) else (m1, f1, saw)))"

definition parse_meminfo :: "bytes \<Rightarrow> mem_info" where
  "parse_meminfo t =
     (case foldl mem_line (\<lparr>mi_total = 0, mi_available = 0\<rparr>, 0, False) (lines_of t) of (m, free, saw) \<Rightarrow>
        if saw then m else m\<lparr>mi_available := free\<rparr>)"

text \<open>
  Two digits at most after the point, the first worth ten; a missing one counts as zero.  The
  accumulators of the source are \<open>int\<close>: integers here.
\<close>

fun load_frac :: "nat \<Rightarrow> int \<Rightarrow> bytes \<Rightarrow> int \<times> bytes" where
  "load_frac 0 frac t = (frac, t)"
| "load_frac (Suc d) frac t =
     (case t of
        c # cs \<Rightarrow> if dec_digit c then load_frac d (frac * 10 + digit c) cs else load_frac d (frac * 10) t
      | [] \<Rightarrow> load_frac d (frac * 10) t)"

definition load_field :: "bytes \<Rightarrow> (int \<times> bytes) option" where
  "load_field t0 =
     (let t = dropWhile (\<lambda>c. c = 0x20 \<or> c = 0x09) t0 in
      if t = [] \<or> \<not> dec_digit (hd t) then None
      else
        let whole = foldl (\<lambda>v c. v * 10 + digit c) 0 (takeWhile dec_digit t); r = dropWhile dec_digit t
        in if r \<noteq> [] \<and> hd r = 0x2E then
             let (frac, r1) = load_frac 2 0 (tl r) in Some (whole * 100 + frac, dropWhile dec_digit r1)
           else Some (whole * 100, r))"

fun load_fields :: "nat \<Rightarrow> bytes \<Rightarrow> int list" where
  "load_fields 0 t = []"
| "load_fields (Suc k) t =
     (case load_field t of None \<Rightarrow> replicate (Suc k) 0 | Some (v, r) \<Rightarrow> v # load_fields k r)"

definition parse_loadavg :: "bytes \<Rightarrow> int list" where
  "parse_loadavg t = load_fields 3 t"

definition rfind_byte :: "byte \<Rightarrow> bytes \<Rightarrow> nat option" where
  "rfind_byte c t = map_option (\<lambda>k. length t - 1 - k) (find_if ((=) c) (rev t))"

definition parse_process_stat :: "bytes \<Rightarrow> proc_info option" where
  "parse_process_stat t =
     (case (find_if ((=) 0x28) t, rfind_byte 0x29 t) of
        (Some op, Some cl) \<Rightarrow>
          if cl < op then None
          else
            let head = numbers_of (take op t); tail = numbers_of (drop (cl + 1) t)
            in if head = [] \<or> length tail < 21 then None
               else Some \<lparr>pr_pid = sint (ucast (hd head) :: 32 word), pr_name = take (cl - op - 1) (drop (op + 1) t),
                      pr_ticks = tail ! 10 + tail ! 11, pr_rss = tail ! 20\<rparr>
      | _ \<Rightarrow> None)"

definition net_line :: "net_totals \<Rightarrow> bytes \<Rightarrow> net_totals" where
  "net_line t l =
     (case find_if ((=) 0x3A) l of
        None \<Rightarrow> t
      | Some colon \<Rightarrow>
          let name = dropWhile ((=) 0x20) (take colon l); n = numbers_of (drop (colon + 1) l)
          in if name = str ''lo'' \<or> length n < 9 then t
             else \<lparr>nt_rx = nt_rx t + n ! 0, nt_tx = nt_tx t + n ! 8\<rparr>)"

definition parse_netdev :: "bytes \<Rightarrow> net_totals" where
  "parse_netdev t = foldl net_line \<lparr>nt_rx = 0, nt_tx = 0\<rparr> (lines_of t)"

section \<open>Reading what was written\<close>

lemma cpu_percent_bounds: "0 \<le> cpu_percent a b \<and> cpu_percent a b \<le> 100"
proof -
  have "uint (min x 100) \<le> uint (100 :: 64 word)" for x :: "64 word"
    unfolding word_le_def[symmetric] by (rule min.cobounded2)
  then show ?thesis unfolding cpu_percent_def Let_def by simp
qed

lemma nat_digits_dec: "list_all dec_digit (nat_digits n)"
  using nat_digits_digits[of n] by (simp add: list_all_iff is_digit_def dec_digit_def)

lemma digit_word: "k < 10 \<Longrightarrow> ucast (word_of_nat (48 + k) - 0x30 :: byte) = (word_of_nat k :: 64 word)"
  by (simp add: unsigned_of_nat take_bit_nat_eq_self)

lemma push_digits: "foldl push_digit 0 (nat_digits n) = word_of_nat n"
proof (induction n rule: nat_digits.induct)
  case (1 n)
  show ?case
  proof (cases "n < 10")
    case False
    have "foldl push_digit 0 (nat_digits n) = word_of_nat (n div 10) * 10 + word_of_nat (n mod 10)"
      using 1[OF False] False digit_word[of "n mod 10"]
      by (subst nat_digits.simps) (simp add: push_digit_def[of "word_of_nat (n div 10)"] del: of_nat_add)
    also have "\<dots> = word_of_nat n" by (metis div_mult_mod_eq of_nat_add of_nat_mult of_nat_numeral)
    finally show ?thesis .
  qed (simp add: nat_digits.simps push_digit_def digit_word del: of_nat_add)
qed

lemma numbers_skip: "list_all (\<lambda>c. \<not> dec_digit c) u \<Longrightarrow> numbers_of (u @ t) = numbers_of t"
  by (induction u) (simp_all add: numbers_of.simps(2))

lemma numbers_digits:
  assumes "t = [] \<or> \<not> dec_digit (hd t)"
  shows "numbers_of (nat_digits n @ t) = word_of_nat n # numbers_of t"
proof -
  have l: "\<forall>c \<in> set (nat_digits n). dec_digit c" using nat_digits_dec by (simp add: list_all_iff)
  have t: "takeWhile dec_digit t = []" "dropWhile dec_digit t = t" using assms by (cases t; auto)+
  have "takeWhile dec_digit (nat_digits n @ t) = nat_digits n" "dropWhile dec_digit (nat_digits n @ t) = t"
    using l t by (simp_all add: takeWhile_append2 dropWhile_append2)
  moreover obtain c cs where "nat_digits n @ t = c # cs" "dec_digit c"
    using nat_digits_nonempty[of n] l by (cases "nat_digits n") auto
  ultimately show ?thesis using push_digits[of n] by (simp add: numbers_of.simps(2))
qed

definition spaced :: "nat list \<Rightarrow> bytes" where
  "spaced ns = concat (map (\<lambda>n. 0x20 # nat_digits n) ns)"

lemma spaced_simps [simp]: "spaced [] = []" "spaced (n # ns) = 0x20 # nat_digits n @ spaced ns"
  by (simp_all add: spaced_def)

lemma spaced_hd: "spaced ns = [] \<or> \<not> dec_digit (hd (spaced ns))"
  by (cases ns) (simp_all add: dec_digit_def)

lemma numbers_spaced: "numbers_of (spaced ns) = map word_of_nat ns"
proof (induction ns)
  case (Cons n ns)
  have "numbers_of (0x20 # t) = numbers_of t" for t by (simp add: numbers_of.simps(2) dec_digit_def)
  then show ?case using Cons numbers_digits[OF spaced_hd[of ns], of n] by simp
qed simp

lemma spaced_bytes: "c \<in> set (spaced ns) \<Longrightarrow> c = 0x20 \<or> dec_digit c"
  using nat_digits_dec by (induction ns) (auto simp: list_all_iff)

lemma find_if_here: "list_all (\<lambda>c. \<not> p c) u \<Longrightarrow> p c \<Longrightarrow> find_if p (u @ c # t) = Some (length u)"
  by (induction u) auto

text \<open>What the kernel writes in \<open>/proc/<pid>/stat\<close>: the name between brackets, as it is.\<close>

definition stat_line :: "nat \<Rightarrow> bytes \<Rightarrow> byte \<Rightarrow> nat list \<Rightarrow> bytes" where
  "stat_line pid name state fs = nat_digits pid @ str '' ('' @ name @ str '') '' @ state # spaced fs @ [nl]"

lemma rfind_here: "list_all (\<lambda>x. c \<noteq> x) t \<Longrightarrow> rfind_byte c (u @ c # t) = Some (length u)"
  using find_if_here[of "(=) c" "rev t" c "rev u"] by (simp add: rfind_byte_def list_all_iff)

lemma stat_line_read:
  assumes "20 < length fs" "\<not> dec_digit state" "state \<noteq> 0x29"
  shows "parse_process_stat (stat_line pid name state fs) =
    Some \<lparr>pr_pid = sint (word_of_nat pid :: 32 word), pr_name = name,
      pr_ticks = word_of_nat (fs ! 10) + word_of_nat (fs ! 11), pr_rss = word_of_nat (fs ! 20)\<rparr>"
proof -
  let ?head = "nat_digits pid @ [0x20]" and ?tail = "0x20 # state # spaced fs @ [nl]"
  have line: "stat_line pid name state fs = ?head @ 0x28 # name @ 0x29 # ?tail" by (simp add: stat_line_def str_def)
  have "\<not> dec_digit 0x28" "\<not> dec_digit 0x29" "\<not> dec_digit 0x20" "\<not> dec_digit nl" by (simp_all add: dec_digit_def nl_def)
  note nd = this
  have "list_all (\<lambda>c. 0x28 \<noteq> c) ?head" using nat_digits_dec[of pid] nd by (auto simp: list_all_iff)
  then have op: "find_if ((=) 0x28) (stat_line pid name state fs) = Some (length ?head)"
    using find_if_here[of "(=) 0x28" ?head "0x28" "name @ 0x29 # ?tail"] line by (simp add: list_all_iff)
  have "list_all (\<lambda>c. 0x29 \<noteq> c) ?tail" using assms(3) nd by (auto simp: list_all_iff nl_def dest!: spaced_bytes)
  then have cl: "rfind_byte 0x29 (stat_line pid name state fs) = Some (length (?head @ 0x28 # name))"
    using rfind_here[of "0x29" ?tail "?head @ 0x28 # name"] line by simp
  have n1: "numbers_of ?head = [word_of_nat pid]"
    using numbers_digits[of "[0x20]" pid] nd by (simp add: numbers_of.simps(2))
  have "numbers_of (spaced fs @ [nl]) = map word_of_nat fs" for fs
  proof (induction fs)
    case (Cons n ns)
    have h: "spaced ns @ [nl] = [] \<or> \<not> dec_digit (hd (spaced ns @ [nl]))" using nd by (cases ns) simp_all
    show ?case using Cons numbers_digits[OF h, of n] nd by (simp add: numbers_of.simps(2))
  qed (simp add: numbers_of.simps(2) nd)
  then have n2: "numbers_of ?tail = map word_of_nat fs" using nd assms(2) by (simp add: numbers_of.simps(2))
  have "ucast (word_of_nat pid :: 64 word) = (word_of_nat pid :: 32 word)"
    by (simp add: unsigned_of_nat word_of_nat_eq_iff)
  moreover have "take (length ?head) (stat_line pid name state fs) = ?head" using line by simp
  moreover have "drop (length (?head @ 0x28 # name) + 1) (stat_line pid name state fs) = ?tail"
    unfolding line by (simp add: numeral_3_eq_3 numeral_eq_Suc)
  moreover have "take (length (?head @ 0x28 # name) - length ?head - 1) (drop (length ?head + 1) (stat_line pid name state fs)) = name"
    using line by simp
  ultimately show ?thesis unfolding parse_process_stat_def op cl prod.case option.case Let_def using n1 n2 assms(1) by simp
qed

section \<open>Properties\<close>

text \<open>
  What the kernel writes about a process is what the monitor reads, whatever the name of the
  process is: spaces, digits and brackets in it shift no field.
\<close>

theorem procstat_roundtrip:
  assumes "20 < length fs" "\<not> dec_digit state" "state \<noteq> 0x29" "pid < 2 ^ 31" "list_all (\<lambda>n. n < 2 ^ 63) fs"
  shows "\<exists>p. parse_process_stat (stat_line pid name state fs) = Some p \<and> pr_pid p = int pid \<and> pr_name p = name
    \<and> unat (pr_ticks p) = fs ! 10 + fs ! 11 \<and> unat (pr_rss p) = fs ! 20"
proof -
  have small: "fs ! k < 2 ^ 63" if "k < 21" for k using that assms(1,5) by (simp add: list_all_length)
  have "unat (word_of_nat (fs ! 10) + word_of_nat (fs ! 11) :: 64 word) = fs ! 10 + fs ! 11"
    using small[of 10] small[of 11] by (simp add: unat_of_nat take_bit_nat_eq_self flip: of_nat_add)
  moreover have "unat (word_of_nat (fs ! 20) :: 64 word) = fs ! 20"
    using small[of 20] by (simp add: unat_of_nat take_bit_nat_eq_self)
  moreover have "sint (word_of_nat pid :: 32 word) = int pid"
    using assms(4) by (simp add: signed_of_nat signed_take_bit_int_eq_self)
  ultimately show ?thesis using stat_line_read[OF assms(1-3), of pid name] by simp
qed

theorem procstat_roundtrip_witness:
  "\<exists>p. parse_process_stat (stat_line 42 (str ''a) (1 b'') 0x53 (replicate 10 7 @ [3, 4] @ replicate 8 0 @ [5])) = Some p
    \<and> pr_pid p = 42 \<and> pr_name p = str ''a) (1 b'' \<and> unat (pr_ticks p) = 7 \<and> unat (pr_rss p) = 5"
  using procstat_roundtrip[of "replicate 10 7 @ [3, 4] @ replicate 8 0 @ [5]" "0x53" 42 "str ''a) (1 b''"]
  by (simp add: dec_digit_def nth_append list_all_iff)

end
