(* ===== verification/Wm_Draw.thy ===== *)
theory Wm_Draw
  imports Wm_Manager Surface_Inv Theme
begin

text \<open>\<open>draw_decor\<close> of \<open>src/wm/decor.cpp\<close>: the frame of a window.\<close>

definition button_labels :: "bool \<Rightarrow> bytes list" where
  "button_labels uni = [str ''[_]'',
     if uni then str ''['' @ [0xE2, 0x96, 0xA1] @ str '']'' else str ''[o]'',
     if uni then str ''['' @ [0xC3, 0x97] @ str '']'' else str ''[x]'']"

definition draw_decor :: "bool \<Rightarrow> rect \<Rightarrow> surface \<Rightarrow> window \<Rightarrow> bool \<Rightarrow> theme \<Rightarrow> border \<Rightarrow> surface" where
  "draw_decor amb v s w focused th b =
     (let f = w_display_rect w in
      if rw f \<le> 0 \<or> rh f \<le> 0 then s
      else
        let uni = (b = BorderUnicode); m = decor_metrics f;
            frame_st = style_init\<lparr>st_bg := th_panel_bg th,
              st_fg := (if focused then th_border_focus th else th_border_blur th)\<rparr>;
            s1 = view_box amb v (view_fill v s f frame_st) f b frame_st;
            title_st = style_init\<lparr>st_bg := (if focused then th_title_focus_bg th else th_title_blur_bg th),
              st_fg := (if focused then th_title_focus_fg th else th_title_blur_fg th)\<rparr>;
            s2 = view_fill v s1 (dm_title_bar m) title_st;
            s3 = (if rw (dm_title_text m) > 0
                  then fst (view_text amb (view_sub v (dm_title_text m)) s2 0 0 (w_title w) title_st) else s2);
            s4 = foldl (\<lambda>s i. fst (view_text amb
                     (view_sub v (mk_rect (rx (dm_buttons m) + kButtonWidth * i) (ry (dm_buttons m)) kButtonWidth 1))
                     s 0 0 (button_labels uni ! nat (3 - dm_button_count m + i)) title_st))
                   s3 [0..dm_button_count m - 1]
        in if rh f \<ge> 2
           then view_put amb v s4 (rx f + rw f - 1) (ry f + rh f - 1) (if uni then 0x25E2 else 0x23)
                  (frame_st\<lparr>st_fg := th_accent th\<rparr>)
           else s4)"

lemma draw_decor_draws: "draws amb v s (draw_decor amb v s w focused th b)"
  unfolding draw_decor_def Let_def by (intro draws_after)

end
