(* ===== verification/Sysinfo.thy ===== *)
theory Sysinfo
  imports Procstat Wm_Draw "HOL-Library.Product_Lexorder"
begin

text \<open>
  \<open>src/shell/sysinfo.cpp\<close>: the counters drawn behind the windows, and the signature of the desktop.
  What \<open>/proc\<close> holds is an argument: the names in the directory and the content of each file (a file
  that cannot be opened reads as empty); so is the size of a page.
\<close>

section \<open>Sampling\<close>

record sys_info =
  si_prev_cpu :: "cpu_times list"
  si_prev_procs :: "proc_info list"
  si_prev_net :: net_totals
  si_sampled :: bool
  si_last_ms :: int
  si_cores :: "int list"
  si_mem :: mem_info
  si_load :: "int list"
  si_rx :: "64 word"
  si_tx :: "64 word"
  si_rows :: "proc_row list"

definition sysinfo_init :: sys_info where
  "sysinfo_init = \<lparr>si_prev_cpu = [], si_prev_procs = [], si_prev_net = \<lparr>nt_rx = 0, nt_tx = 0\<rparr>, si_sampled = False, si_last_ms = 0,
     si_cores = [], si_mem = \<lparr>mi_total = 0, mi_available = 0\<rparr>, si_load = [0, 0, 0], si_rx = 0, si_tx = 0, si_rows = []\<rparr>"

definition kPeriodMs :: int where "kPeriodMs = 1000"

definition page_kb :: "64 word \<Rightarrow> 64 word" where
  "page_kb page_size = (let v = page_size div 1024 in if v = 0 then 4 else v)"

definition rate_of :: "64 word \<Rightarrow> 64 word \<Rightarrow> int \<Rightarrow> 64 word" where
  "rate_of now before elapsed_ms = (if now \<ge> before then (now - before) * 1000 div word_of_int elapsed_ms else 0)"

definition row_of :: "64 word \<Rightarrow> 64 word \<Rightarrow> proc_info list \<Rightarrow> proc_info \<Rightarrow> proc_row" where
  "row_of pages elapsed prev p =
     \<lparr>rw_pid = pr_pid p, rw_name = pr_name p,
      rw_cpu = (case find (\<lambda>q. pr_pid q = pr_pid p) prev of
                  Some q \<Rightarrow> if elapsed > 0 \<and> pr_ticks p \<ge> pr_ticks q
                            then uint (min ((pr_ticks p - pr_ticks q) * 100 div elapsed) 100) else 0
                | None \<Rightarrow> 0),
      rw_rss_kb = pr_rss p * pages\<rparr>"

definition row_order :: "proc_row \<Rightarrow> int \<times> int" where
  "row_order r = (- rw_cpu r, rw_pid r)"

definition sysinfo_apply ::
  "64 word \<Rightarrow> int \<Rightarrow> bytes \<Rightarrow> bytes \<Rightarrow> bytes \<Rightarrow> bytes \<Rightarrow> proc_info list \<Rightarrow> sys_info \<Rightarrow> sys_info" where
  "sysinfo_apply page_size now stat meminfo loadavg netdev procs s =
     (if si_sampled s \<and> now - si_last_ms s < kPeriodMs then s
      else
        let cpu = parse_cpu_times stat; net = parse_netdev netdev;
            s1 = s\<lparr>si_mem := parse_meminfo meminfo, si_load := parse_loadavg loadavg,
                   si_cores := replicate (length cpu) 0, si_rows := [], si_rx := 0, si_tx := 0\<rparr>;
            s2 = (if si_sampled s \<and> length (si_prev_cpu s) = length cpu then
                    let ms = max 1 (now - si_last_ms s);
                        elapsed = (if cpu = [] then 0
                                   else if ct_total (hd cpu) > ct_total (hd (si_prev_cpu s))
                                   then ct_total (hd cpu) - ct_total (hd (si_prev_cpu s)) else 0)
                    in s1\<lparr>si_cores := map2 cpu_percent (si_prev_cpu s) cpu,
                          si_rx := rate_of (nt_rx net) (nt_rx (si_prev_net s)) ms,
                          si_tx := rate_of (nt_tx net) (nt_tx (si_prev_net s)) ms,
                          si_rows := sort_key row_order (map (row_of (page_kb page_size) elapsed (si_prev_procs s)) procs)\<rparr>
                  else s1)
        in s2\<lparr>si_prev_cpu := cpu, si_prev_procs := procs, si_prev_net := net, si_last_ms := now, si_sampled := True\<rparr>)"

record proc_fs =
  fs_names :: "bytes list option"
  fs_read :: "bytes \<Rightarrow> bytes"
  fs_page :: "64 word"

definition proc_list :: "proc_fs \<Rightarrow> proc_info list" where
  "proc_list fs =
     (case fs_names fs of
        None \<Rightarrow> []
      | Some names \<Rightarrow>
          List.map_filter (\<lambda>n. parse_process_stat (fs_read fs (str ''/proc/'' @ n @ str ''/stat'')))
            (filter (\<lambda>n. n \<noteq> [] \<and> dec_digit (hd n)) names))"

definition sysinfo_refresh :: "proc_fs \<Rightarrow> int \<Rightarrow> sys_info \<Rightarrow> sys_info" where
  "sysinfo_refresh fs now s =
     (if si_sampled s \<and> now - si_last_ms s < kPeriodMs then s
      else sysinfo_apply (fs_page fs) now (fs_read fs (str ''/proc/stat'')) (fs_read fs (str ''/proc/meminfo''))
             (fs_read fs (str ''/proc/loadavg'')) (fs_read fs (str ''/proc/net/dev'')) (proc_list fs) s)"

section \<open>Drawing\<close>

definition gauge_color :: "int \<Rightarrow> color" where
  "gauge_color percent = (if percent \<ge> 85 then Indexed 1 else if percent \<ge> 60 then Indexed 3 else Indexed 2)"

definition run :: "int \<Rightarrow> bytes \<Rightarrow> bytes" where
  "run n u = concat (replicate (nat n) u)"

definition sys_frame :: "bool \<Rightarrow> rect \<Rightarrow> surface \<Rightarrow> rect \<Rightarrow> bytes \<Rightarrow> style \<Rightarrow> style \<Rightarrow> border \<Rightarrow> surface" where
  "sys_frame amb v s r title st bg b =
     (if rw r < 4 \<or> rh r < 2 then s
      else
        let uni = (b = BorderUnicode);
            h = (if uni then [0xE2, 0x94, 0x80] else str ''-''); vv = (if uni then [0xE2, 0x94, 0x82] else str ''|'');
            corner = (\<lambda>c. if uni then [0xE2, 0x94, c] else str ''+'');
            s1 = view_fill v s r bg;
            used = 1 + 1 + int (length title) + 1;
            s2 = fst (view_text amb v s1 (rx r) (ry r)
                   (corner 0x8C @ str '' '' @ title @ str '' '' @ run (rw r - 1 - used) h @ corner 0x90) st);
            s3 = foldl (\<lambda>s y. fst (view_text amb v (fst (view_text amb v s (rx r) y vv st)) (rx r + rw r - 1) y vv st)) s2
                   [ry r + 1..ry r + rh r - 2]
        in fst (view_text amb v s3 (rx r) (ry r + rh r - 1) (corner 0x94 @ run (rw r - 2) h @ corner 0x98) st))"

definition counter_box ::
  "bool \<Rightarrow> rect \<Rightarrow> surface \<Rightarrow> rect \<Rightarrow> bytes \<Rightarrow> bytes \<Rightarrow> int \<Rightarrow> style \<Rightarrow> style \<Rightarrow> style \<Rightarrow> border \<Rightarrow> surface" where
  "counter_box amb v s r title val percent chrome body bg b =
     (let s1 = sys_frame amb v s r title chrome bg b in
      if rh r < 3 \<or> rw r < 6 then s1
      else
        let s2 = fst (view_text amb v s1 (rx r + 2) (ry r + 1) val body)
        in fst (view_text amb v s2 (rx r + 2) (ry r + 2) (gauge_bar percent (rw r - 4) b) (body\<lparr>st_fg := gauge_color percent\<rparr>)))"

definition rate_text :: "64 word \<Rightarrow> bytes" where
  "rate_text r =
     (if r \<ge> 1024 * 1024 then to_string (uint (r div (1024 * 1024))) @ str ''Mo/s''
      else if r \<ge> 1024 then to_string (uint (r div 1024)) @ str ''Ko/s''
      else to_string (uint r) @ str ''o/s'')"

definition two_decimals :: "int \<Rightarrow> bytes" where
  "two_decimals h =
     to_string (cdiv h 100) @ str ''.'' @ (if crem h 100 < 10 then str ''0'' else []) @ to_string (crem h 100)"

definition kMaxRows :: nat where "kMaxRows = 5"

definition draw_network ::
  "bool \<Rightarrow> rect \<Rightarrow> surface \<Rightarrow> sys_info \<Rightarrow> int \<Rightarrow> int \<Rightarrow> bool \<Rightarrow> style \<Rightarrow> style \<Rightarrow> style \<Rightarrow> border \<Rightarrow> surface" where
  "draw_network amb v s si y bw two chrome body bg b =
     (let arrow = (\<lambda>c a. if b = BorderUnicode then [0xE2, 0x86, c] else str a);
          at = (\<lambda>k. if k < length (si_load si) then si_load si ! k else 0);
          s1 = sys_frame amb v s (mk_rect 0 y bw 4) (str ''RESEAU'') chrome bg b;
          s2 = fst (view_text amb v s1 2 (y + 1) (arrow 0x93 ''v'' @ str '' '' @ rate_text (si_rx si)) body);
          s3 = fst (view_text amb v s2 2 (y + 2) (arrow 0x91 ''^'' @ str '' '' @ rate_text (si_tx si)) body)
      in if two then
           let s4 = sys_frame amb v s3 (mk_rect bw y (rw v - bw) 4) (str ''CHARGE'') chrome bg b;
               s5 = fst (view_text amb v s4 (bw + 2) (y + 1) (two_decimals (at 0)) body)
           in fst (view_text amb v s5 (bw + 2) (y + 2) (two_decimals (at 1) @ str '' '' @ two_decimals (at 2)) body)
         else s3)"

fun draw_procs :: "bool \<Rightarrow> rect \<Rightarrow> surface \<Rightarrow> int \<Rightarrow> int \<Rightarrow> style \<Rightarrow> style \<Rightarrow> proc_row list \<Rightarrow> surface" where
  "draw_procs amb v s line stop chrome body [] = s"
| "draw_procs amb v s line stop chrome body (r # rs) =
     (if line \<ge> stop then s
      else
        let s1 = fst (view_text amb v s 2 line (to_string (rw_cpu r) @ str ''%'') (body\<lparr>st_fg := gauge_color (rw_cpu r)\<rparr>));
            s2 = fst (view_text amb v s1 (2 + 5) line (to_string (uint (rw_rss_kb r div 1024)) @ str ''Mo  '' @ rw_name r) chrome)
        in draw_procs amb v s2 (line + 1) stop chrome body rs)"

definition mem_percent :: "mem_info \<Rightarrow> int" where
  "mem_percent m =
     (let used = (if mi_total m > mi_available m then mi_total m - mi_available m else 0)
      in if mi_total m = 0 then 0 else sint (ucast (used * 100 div mi_total m) :: 32 word))"

definition sysinfo_draw :: "bool \<Rightarrow> rect \<Rightarrow> surface \<Rightarrow> sys_info \<Rightarrow> theme \<Rightarrow> border \<Rightarrow> surface" where
  "sysinfo_draw amb v s si th b =
     (let w = rw v; h = rh v in
      if w < 24 \<or> h < 8 then s
      else
        let chrome = style_init\<lparr>st_fg := th_panel_fg th\<rparr>;
            body = style_init\<lparr>st_fg := th_panel_fg th, st_attrs := attr_Bold\<rparr>;
            bg = style_init\<lparr>st_bg := th_desktop_bg th\<rparr>;
            two = (w \<ge> 26); bw = (if two then cdiv w 2 else w); bh = 4;
            cpu = (case si_cores si of [] \<Rightarrow> 0 | c # _ \<Rightarrow> c); mem = mem_percent (si_mem si);
            s1 = counter_box amb v s (mk_rect 0 0 bw bh) (str ''CPU'') (to_string cpu @ str ''%'') cpu chrome body bg b;
            (s2, y) = (if two then
                (counter_box amb v s1 (mk_rect bw 0 (w - bw) bh) (str ''MEM'') (to_string mem @ str ''%'') mem chrome body bg b, bh)
              else
                (counter_box amb v s1 (mk_rect 0 bh bw bh) (str ''MEM'') (to_string mem @ str ''%'') mem chrome body bg b, bh + bh));
            (s3, y1) = (if y + bh \<le> h then (draw_network amb v s2 si y bw two chrome body bg b, y + bh) else (s2, y));
            want = int (min kMaxRows (length (si_rows si))) + 2
        in if y1 + 3 \<le> h then
             let box_h = min want (h - y1);
                 s4 = sys_frame amb v s3 (mk_rect 0 y1 w box_h) (str ''PROCESSUS'') chrome bg b
             in draw_procs amb v s4 (y1 + 1) (y1 + box_h - 1) chrome body (take kMaxRows (si_rows si))
           else s3)"

definition glyph_rows :: "char \<Rightarrow> string list" where
  "glyph_rows c =
     (if c = CHR ''T'' then [''###'', '' # '', '' # '', '' # '', '' # '']
      else if c = CHR ''E'' then [''###'', ''#  '', ''###'', ''#  '', ''###'']
      else if c = CHR ''R'' then [''## '', ''# #'', ''## '', ''# #'', ''# #'']
      else if c = CHR ''M'' then [''###'', ''###'', ''# #'', ''# #'', ''# #'']
      else if c = CHR ''O'' then [''###'', ''# #'', ''# #'', ''# #'', ''###'']
      else if c = CHR ''S'' then [''###'', ''#  '', ''###'', ''  #'', ''###'']
      else replicate 5 ''   '')"

definition banner_cells :: "(int \<times> int) list" where
  "banner_cells =
     [(int p * 4 + int i, int row). row \<leftarrow> [0..<5], p \<leftarrow> [0..<6], i \<leftarrow> [0..<3], glyph_rows (''TERMOS'' ! p) ! row ! i = CHR ''#'']"

definition draw_banner :: "bool \<Rightarrow> rect \<Rightarrow> surface \<Rightarrow> theme \<Rightarrow> border \<Rightarrow> surface" where
  "draw_banner amb v s th b =
     (let word_w = 6 * (3 + 1) - 1 in
      if rw v < word_w \<or> rh v < 5 then s
      else
        let x0 = cdiv (rw v - word_w) 2; y0 = cdiv (rh v - 5) 2;
            block = (if b = BorderUnicode then [0xE2, 0x96, 0x88] else str ''#'')
        in foldl (\<lambda>s (dx, dy). fst (view_text amb v s (x0 + dx) (y0 + dy) block (style_init\<lparr>st_fg := th_desktop_sign th\<rparr>)))
             s banner_cells)"

section \<open>What the counters can show\<close>

lemma sys_frame_draws: "draws amb v s (sys_frame amb v s r t st bg b)"
  unfolding sys_frame_def Let_def by (intro draws_after)

lemma counter_box_draws: "draws amb v s (counter_box amb v s r t val p c d e b)"
  unfolding counter_box_def Let_def by (intro draws_after sys_frame_draws)

lemma draw_network_draws: "draws amb v s (draw_network amb v s si y bw two c d e b)"
  unfolding draw_network_def Let_def by (intro draws_after d_then[OF _ sys_frame_draws] sys_frame_draws)

lemma draw_procs_draws: "draws amb v s (draw_procs amb v s l stop c d rs)"
proof (induction rs arbitrary: s l)
  case (Cons r rs)
  show ?case by (auto simp: Let_def intro!: d_then[OF _ Cons.IH] draws_after)
qed (simp add: d_none)

lemma sysinfo_draw_draws: "draws amb v s (sysinfo_draw amb v s si th b)"
  unfolding sysinfo_draw_def Let_def
  by (auto intro!: d_none d_then[OF _ draw_procs_draws] d_then[OF _ draw_network_draws] d_then[OF _ counter_box_draws]
      d_then[OF _ sys_frame_draws])

lemma draw_banner_draws: "draws amb v s (draw_banner amb v s th b)"
  unfolding draw_banner_def Let_def by (auto intro!: draws_after split: prod.splits)

definition sysinfo_ok :: "sys_info \<Rightarrow> bool" where
  "sysinfo_ok s \<longleftrightarrow> list_all (\<lambda>p. 0 \<le> p \<and> p \<le> 100) (si_cores s)
     \<and> list_all (\<lambda>r. 0 \<le> rw_cpu r \<and> rw_cpu r \<le> 100) (si_rows s) \<and> sorted (map row_order (si_rows s))
     \<and> length (si_cores s) = length (si_prev_cpu s)"

lemma row_of_bounds: "0 \<le> rw_cpu (row_of pages e prev p) \<and> rw_cpu (row_of pages e prev p) \<le> 100"
proof -
  have "uint (min x 100) \<le> uint (100 :: 64 word)" for x :: "64 word"
    unfolding word_le_def[symmetric] by (rule min.cobounded2)
  then show ?thesis by (auto simp: row_of_def split: option.split)
qed

lemma sysinfo_apply_ok [inv_intros]: "sysinfo_ok s \<Longrightarrow> sysinfo_ok (sysinfo_apply pg now st mi la nd procs s)"
  using cpu_percent_bounds row_of_bounds
  by (auto simp: sysinfo_ok_def sysinfo_apply_def Let_def list_all_iff)

lemma sysinfo_refresh_ok [inv_intros]: "sysinfo_ok s \<Longrightarrow> sysinfo_ok (sysinfo_refresh fs now s)"
  by (simp add: sysinfo_refresh_def sysinfo_apply_ok)

lemma sysinfo_init_ok: "sysinfo_ok sysinfo_init"
  by (simp add: sysinfo_ok_def sysinfo_init_def)

section \<open>Properties\<close>

text \<open>
  The counters stay readable.  Whatever \<open>/proc\<close> holds, counters that go back, wrap or
  vanish included, after any sequence of samples the load of each core and of each process is between
  0 and 100, and the processes are in decreasing order of their load, then by pid.
\<close>

theorem sysinfo_bounded:
  "let s = foldl (\<lambda>s (fs, now). sysinfo_refresh fs now s) sysinfo_init samples in
     list_all (\<lambda>p. 0 \<le> p \<and> p \<le> 100) (si_cores s)
     \<and> list_all (\<lambda>r. 0 \<le> rw_cpu r \<and> rw_cpu r \<le> 100) (si_rows s)
     \<and> sorted_wrt (\<lambda>a b. rw_cpu b < rw_cpu a \<or> rw_cpu a = rw_cpu b \<and> rw_pid a \<le> rw_pid b) (si_rows s)"
proof -
  define s where "s = foldl (\<lambda>s (fs, now). sysinfo_refresh fs now s) sysinfo_init samples"
  have "sysinfo_ok t \<Longrightarrow> sysinfo_ok (foldl (\<lambda>s (fs, now). sysinfo_refresh fs now s) t samples)" for t
    by (induction samples arbitrary: t) (auto simp: sysinfo_refresh_ok split: prod.splits)
  then have ok: "sysinfo_ok s" using sysinfo_init_ok by (simp add: s_def)
  then have "sorted_wrt (\<lambda>a b. row_order a \<le> row_order b) (si_rows s)" by (simp add: sysinfo_ok_def sorted_map)
  then have "sorted_wrt (\<lambda>a b. rw_cpu b < rw_cpu a \<or> rw_cpu a = rw_cpu b \<and> rw_pid a \<le> rw_pid b) (si_rows s)"
    by (rule sorted_wrt_mono_rel[rotated]) (auto simp: row_order_def)
  then show ?thesis using ok unfolding s_def[symmetric] by (simp add: sysinfo_ok_def)
qed

end
