(* ===== verification/Update_Service.thy ===== *)
theory Update_Service
  imports Update_State
begin

text \<open>
  \<open>src/shell/update_service.cpp\<close>: the update service of a session.  It reads the state file and
  asks for a child to be started; it never forks nor reaps.  What the platform answers (clocks, the
  file read, \<open>stat\<close>, \<open>kill(pid, 0)\<close>, the launcher) is the record \<open>update_env\<close>, an argument of
  every operation; the launches asked for are recorded with the pid they were given.
\<close>

section \<open>Model\<close>

record update_env =
  ue_wall :: int
  ue_steady :: int
  ue_read :: "bytes \<Rightarrow> bytes option"
  ue_stat :: "bytes \<Rightarrow> (nat \<times> nat) option"
  ue_alive :: "int \<Rightarrow> bool"
  ue_launch :: "bytes list \<Rightarrow> int"

record update_entry =
  en_label :: bytes
  en_enabled :: bool
  en_id :: bytes

record update_service =
  sv_path :: bytes
  sv_self_exe :: bytes
  sv_state :: update_state
  sv_loaded :: bool
  sv_stale :: bool
  sv_message :: bytes
  sv_child :: int
  sv_manual :: bool
  sv_report :: bytes
  sv_have_deadline :: bool
  sv_deadline :: int
  sv_wants_restart :: bool
  sv_restart_needed :: bool
  sv_launches :: "(bytes list \<times> int) list"

definition service_init :: "bytes \<Rightarrow> bytes \<Rightarrow> update_service" where
  "service_init path self_exe = \<lparr>sv_path = path, sv_self_exe = self_exe, sv_state = update_init, sv_loaded = False,
     sv_stale = False, sv_message = [], sv_child = - 1, sv_manual = False, sv_report = [], sv_have_deadline = False,
     sv_deadline = 0, sv_wants_restart = False, sv_restart_needed = False, sv_launches = []\<rparr>"

definition kPeriodSeconds :: int where "kPeriodSeconds = 86400"
definition kFloorSeconds :: int where "kFloorSeconds = 30"

definition pid_alive :: "update_env \<Rightarrow> int \<Rightarrow> bool" where
  "pid_alive env pid \<longleftrightarrow> pid > 0 \<and> ue_alive env pid"

definition read_capped :: "update_env \<Rightarrow> bytes \<Rightarrow> bytes" where
  "read_capped env path = (case ue_read env path of None \<Rightarrow> [] | Some b \<Rightarrow> take (kMaxStateBytes + 1) b)"

definition running_is_installed :: "update_env \<Rightarrow> update_service \<Rightarrow> bool" where
  "running_is_installed env s \<longleftrightarrow> us_prefix (sv_state s) \<noteq> []
     \<and> (case (ue_stat env (sv_self_exe s), ue_stat env (us_prefix (sv_state s) @ str ''/libexec/termos'')) of
          (Some a, Some b) \<Rightarrow> a = b | _ \<Rightarrow> False)"

definition updater_path :: "update_service \<Rightarrow> bytes" where
  "updater_path s = (if us_prefix (sv_state s) = [] then [] else us_prefix (sv_state s) @ str ''/libexec/termos-update'')"

definition in_progress :: "update_status \<Rightarrow> bool" where
  "in_progress st \<longleftrightarrow> st = UChecking \<or> st = UApplying"

definition sv_reload :: "update_env \<Rightarrow> update_service \<Rightarrow> update_service" where
  "sv_reload env s =
     (let u = parse_update_state (read_capped env (sv_path s)) (ue_wall env);
          s1 = s\<lparr>sv_state := u, sv_stale := False\<rparr>;
          s2 = (if in_progress (us_status u) \<and> sv_child s1 < 0 \<and> \<not> pid_alive env (us_pid u)
                then s1\<lparr>sv_stale := True, sv_message := str ''mise a jour interrompue''\<rparr>
                else if \<not> in_progress (us_status u) then s1\<lparr>sv_message := us_message u\<rparr>
                else s1);
          s3 = s2\<lparr>sv_restart_needed := (us_restart_pending u \<and> \<not> running_is_installed env s2)\<rparr>
      in if us_status u = URestartPending \<and> \<not> sv_restart_needed s3
         then s3\<lparr>sv_state := u\<lparr>us_status := UUpToDate\<rparr>\<rparr> else s3)"

definition schedule_from :: "update_env \<Rightarrow> int \<Rightarrow> update_service \<Rightarrow> update_service" where
  "schedule_from env checked_at s =
     (let elapsed = (if checked_at > 0 then ue_wall env - checked_at else kPeriodSeconds);
          left = min (max (kPeriodSeconds - elapsed) 0) kPeriodSeconds;
          delay = max left kFloorSeconds
      in s\<lparr>sv_deadline := ue_steady env + delay * 1000000000, sv_have_deadline := True\<rparr>)"

definition sv_launch :: "update_env \<Rightarrow> bytes \<Rightarrow> bool \<Rightarrow> update_service \<Rightarrow> update_service" where
  "sv_launch env mode manual s =
     (let exe = updater_path s in
      if exe = [] then s
      else let argv = [exe, mode]; pid = ue_launch env argv; s1 = s\<lparr>sv_launches := sv_launches s @ [(argv, pid)]\<rparr>
        in if pid > 0 then s1\<lparr>sv_child := pid, sv_manual := manual, sv_have_deadline := False\<rparr> else s1)"

definition sv_tick :: "update_env \<Rightarrow> update_service \<Rightarrow> update_service" where
  "sv_tick env s =
     (let s1 = sv_reload env s in
      if us_status (sv_state s1) = UUpdatesDisabled \<or> sv_child s1 > 0 \<or> updater_path s1 = []
      then s1\<lparr>sv_have_deadline := False\<rparr>
      else if \<not> sv_loaded s1 then (schedule_from env (us_checked_at (sv_state s1)) s1)\<lparr>sv_loaded := True\<rparr>
      else
        let s2 = (if \<not> sv_have_deadline s1 then schedule_from env (us_checked_at (sv_state s1)) s1 else s1) in
        if ue_steady env \<ge> sv_deadline s2 then
          let s3 = sv_launch env (str ''--check'') False (s2\<lparr>sv_have_deadline := False\<rparr>)
          in if sv_child s3 < 0 then schedule_from env 0 s3 else s3
        else s2)"

definition sv_delay_ms :: "update_env \<Rightarrow> update_service \<Rightarrow> int" where
  "sv_delay_ms env s =
     (if \<not> sv_have_deadline s then - 1
      else let ms = (sv_deadline s - ue_steady env) div 1000000 in if ms \<le> 0 then 0 else ms)"

definition working :: "update_service \<Rightarrow> bool" where
  "working s \<longleftrightarrow> sv_child s > 0 \<or> \<not> sv_stale s \<and> in_progress (us_status (sv_state s))"

definition mk_entry :: "string \<Rightarrow> bool \<Rightarrow> string \<Rightarrow> update_entry" where
  "mk_entry l e i = \<lparr>en_label = str l, en_enabled = e, en_id = str i\<rparr>"

definition sv_entry :: "update_service \<Rightarrow> update_entry" where
  "sv_entry s =
     (let u = sv_state s in
      if us_status u = UUpdatesDisabled then
        \<lparr>en_label = str ''Mise a jour indisponible ('' @
           (if us_message u = [] then str ''raison inconnue'' else us_message u) @ str '')'',
         en_enabled = False, en_id = str ''update:check''\<rparr>
      else if working s then
        (if us_status u = UApplying then mk_entry ''Mise a jour en cours...'' False ''update:apply''
         else mk_entry ''Verification en cours...'' False ''update:check'')
      else if sv_restart_needed s then mk_entry ''Redemarrer pour terminer'' True ''update:restart''
      else if us_status u = UHistoryRewritten \<or> us_installed_commit u = str ''unknown''
        then mk_entry ''Reinstaller depuis GitHub'' True ''update:apply''
      else if us_status u = UAvailable then mk_entry ''Mettre a jour'' True ''update:apply''
      else mk_entry ''Verifier les mises a jour'' True ''update:check'')"

definition sv_badge :: "update_service \<Rightarrow> bool" where
  "sv_badge s =
     (let e = sv_entry s in en_enabled e \<and> (en_id e = str ''update:apply'' \<or> en_id e = str ''update:restart'')
        \<and> (us_status (sv_state s) = UAvailable \<or> sv_restart_needed s))"

definition sv_run :: "update_env \<Rightarrow> bytes \<Rightarrow> update_service \<Rightarrow> update_service" where
  "sv_run env i s =
     (if \<not> en_enabled (sv_entry s) then s
      else if sv_child s > 0 then s
      else if i = str ''update:restart'' then (if sv_restart_needed s then s\<lparr>sv_wants_restart := True\<rparr> else s)
      else if i = str ''update:check'' then sv_launch env (str ''--check'') True s
      else if i = str ''update:apply'' then sv_launch env (str ''--apply'') True s
      else s)"

definition short_commit :: "bytes \<Rightarrow> bytes" where
  "short_commit c = (if c = [] \<or> c = str ''unknown'' then [] else take 7 c)"

definition progress_line :: "update_service \<Rightarrow> bytes" where
  "progress_line s =
     (if \<not> working s then []
      else (if us_status (sv_state s) = UChecking then str ''Verification en cours'' else str ''Mise a jour en cours'') @
        (if us_stage (sv_state s) \<noteq> [] then str '' : '' @ us_stage (sv_state s) else []) @ str ''...'')"

definition progress_percent :: "update_service \<Rightarrow> int" where
  "progress_percent s = (if working s then us_progress (sv_state s) else - 1)"

definition sv_news :: "update_service \<Rightarrow> bytes" where
  "sv_news s =
     (let n = us_commits_ahead (sv_state s) in
      if n \<le> 0 then [] else to_string n @ (if n > 1 then str '' nouveautes'' else str '' nouveaute''))"

definition version_line :: "update_service \<Rightarrow> bytes" where
  "version_line s =
     (let u = sv_state s in
      if us_installed_version u \<noteq> [] \<and> us_remote_version u \<noteq> []
      then str ''Version '' @ us_installed_version u @ str '' -> '' @ us_remote_version u
      else let a = short_commit (us_installed_commit u); b = short_commit (us_remote_commit u)
        in if a = [] \<or> b = [] then [] else a @ str '' -> '' @ b)"

definition take_report :: "update_service \<Rightarrow> update_service \<times> bytes" where
  "take_report s = (s\<lparr>sv_report := []\<rparr>, sv_report s)"

definition build_report :: "update_service \<Rightarrow> update_service" where
  "build_report s =
     (let u = sv_state s;
          why = (if sv_message s = [] then str ''raison inconnue'' else take 60 (sv_message s))
      in s\<lparr>sv_report :=
        (case us_status u of
           UUpToDate \<Rightarrow>
             if us_installed_version u = [] then str ''Vous etes a jour.''
             else str ''Vous etes a jour, en version '' @ us_installed_version u @ str ''.''
         | UAvailable \<Rightarrow>
             str ''Mise a jour disponible'' @ (if sv_news s \<noteq> [] then str '' : '' @ sv_news s else []) @ str ''.'' @
             (if version_line s \<noteq> [] then nl # version_line s else []) @
             (if us_notes u \<noteq> [] then nl # concat (map (\<lambda>n. nl # str ''  - '' @ n) (us_notes u)) else [])
         | URestartPending \<Rightarrow> str ''Mise a jour installee. Redemarrez pour terminer.''
         | UHistoryRewritten \<Rightarrow> str ''Historique reecrit : une reinstallation est necessaire.''
         | UCheckFailed \<Rightarrow> str ''Verification impossible : '' @ why
         | UApplyFailed \<Rightarrow> str ''Mise a jour echouee : '' @ why
         | UUpdatesDisabled \<Rightarrow> str ''Mise a jour indisponible : '' @ why
         | _ \<Rightarrow> str ''Verification sans resultat, voir update.log'')\<rparr>)"

definition sv_owns :: "update_service \<Rightarrow> int \<Rightarrow> bool" where
  "sv_owns s pid \<longleftrightarrow> sv_child s > 0 \<and> pid = sv_child s"

definition sv_child_exit :: "update_env \<Rightarrow> int \<Rightarrow> int \<Rightarrow> update_service \<Rightarrow> update_service" where
  "sv_child_exit env pid status s =
     (if \<not> sv_owns s pid then s
      else
        let before = us_status (sv_state s);
            s1 = sv_reload env (s\<lparr>sv_child := - 1\<rparr>);
            silent = (us_status (sv_state s1) = before \<and> status \<noteq> 0);
            s2 = (if silent then s1\<lparr>sv_message := str ''echec de la mise a jour, voir update.log''\<rparr> else s1);
            s3 = (if sv_manual s2
                  then if silent then s2\<lparr>sv_report := str ''Echec, voir update.log''\<rparr> else build_report s2
                  else s2)
        in schedule_from env (us_checked_at (sv_state s3)) (s3\<lparr>sv_manual := False\<rparr>))"

section \<open>Runs of the service\<close>

datatype service_event = SvTick update_env | SvRun update_env bytes | SvExit update_env int int

fun sv_step :: "update_service \<Rightarrow> service_event \<Rightarrow> update_service" where
  "sv_step s (SvTick env) = sv_tick env s"
| "sv_step s (SvRun env i) = sv_run env i s"
| "sv_step s (SvExit env pid status) = sv_child_exit env pid status s"

text \<open>How many of our children an event ended.\<close>

fun sv_ended :: "update_service \<Rightarrow> service_event \<Rightarrow> nat" where
  "sv_ended s (SvExit env pid status) = (if sv_owns s pid then 1 else 0)"
| "sv_ended s _ = 0"

fun sv_run_all :: "update_service \<Rightarrow> nat \<Rightarrow> service_event list \<Rightarrow> update_service \<times> nat" where
  "sv_run_all s n [] = (s, n)"
| "sv_run_all s n (e # es) = sv_run_all (sv_step s e) (n + sv_ended s e) es"

definition sv_started :: "update_service \<Rightarrow> nat" where
  "sv_started s = length (filter (\<lambda>(_, pid). pid > 0) (sv_launches s))"

definition sv_ok :: "update_service \<Rightarrow> bool" where
  "sv_ok s \<longleftrightarrow> (sv_child s > 0 \<or> sv_child s = - 1) \<and> (sv_child s > 0 \<longrightarrow> \<not> sv_have_deadline s)"

lemma sv_reload_same [simp]:
  "sv_child (sv_reload env s) = sv_child s" "sv_launches (sv_reload env s) = sv_launches s"
  "sv_have_deadline (sv_reload env s) = sv_have_deadline s" "sv_deadline (sv_reload env s) = sv_deadline s"
  "sv_wants_restart (sv_reload env s) = sv_wants_restart s" "sv_manual (sv_reload env s) = sv_manual s"
  "sv_report (sv_reload env s) = sv_report s" "sv_loaded (sv_reload env s) = sv_loaded s"
  by (simp_all add: sv_reload_def Let_def)

lemma schedule_from_same [simp]:
  "sv_child (schedule_from env c s) = sv_child s" "sv_launches (schedule_from env c s) = sv_launches s"
  "sv_have_deadline (schedule_from env c s)" "sv_state (schedule_from env c s) = sv_state s"
  "sv_wants_restart (schedule_from env c s) = sv_wants_restart s"
  by (simp_all add: schedule_from_def Let_def)

lemma build_report_same [simp]:
  "sv_child (build_report s) = sv_child s" "sv_launches (build_report s) = sv_launches s"
  "sv_state (build_report s) = sv_state s"
  by (simp_all add: build_report_def Let_def)

text \<open>How many children live, and whether a deadline runs.\<close>

definition sv_counts :: "nat \<Rightarrow> update_service \<Rightarrow> bool" where
  "sv_counts n s \<longleftrightarrow> sv_ok s \<and> sv_started s = n + (if sv_child s > 0 then 1 else 0)"

lemma sv_counts_cong:
  "sv_counts n s \<Longrightarrow> sv_child s' = sv_child s \<Longrightarrow> sv_launches s' = sv_launches s
   \<Longrightarrow> (sv_child s > 0 \<Longrightarrow> \<not> sv_have_deadline s') \<Longrightarrow> sv_counts n s'"
  by (auto simp: sv_counts_def sv_ok_def sv_started_def)

lemma sv_launch_counts: "sv_counts n s \<Longrightarrow> sv_child s = - 1 \<Longrightarrow> sv_counts n (sv_launch env mode m s)"
  by (simp add: sv_counts_def sv_launch_def sv_ok_def sv_started_def Let_def)

lemma sv_tick_counts: "sv_counts n s \<Longrightarrow> sv_counts n (sv_tick env s)"
proof -
  assume s: "sv_counts n s"
  let ?s = "sv_reload env s"
  show ?thesis
  proof (cases "us_status (sv_state ?s) = UUpdatesDisabled \<or> sv_child ?s > 0 \<or> updater_path ?s = [] \<or> \<not> sv_loaded ?s")
    case True
    then have "sv_tick env s = ?s\<lparr>sv_have_deadline := False\<rparr>
      \<or> sv_tick env s = (schedule_from env (us_checked_at (sv_state ?s)) ?s)\<lparr>sv_loaded := True\<rparr> \<and> \<not> sv_child s > 0"
      by (auto simp: sv_tick_def Let_def)
    then show ?thesis by (auto intro: sv_counts_cong[OF s])
  next
    case False
    define t where "t = (if \<not> sv_have_deadline ?s then schedule_from env (us_checked_at (sv_state ?s)) ?s else ?s)"
    have c: "sv_child s = - 1" using s False by (simp add: sv_counts_def sv_ok_def)
    have t: "sv_counts n t" "sv_child t = - 1" using s c by (simp_all add: t_def sv_counts_def sv_ok_def sv_started_def)
    then have u: "sv_counts n (t\<lparr>sv_have_deadline := False\<rparr>)" by (simp add: sv_counts_def sv_ok_def sv_started_def)
    note l = sv_launch_counts[OF u, of env "str ''--check''" False]
    let ?l = "sv_launch env (str ''--check'') False (t\<lparr>sv_have_deadline := False\<rparr>)"
    have "sv_counts n (schedule_from env 0 ?l)" if "sv_child ?l < 0" using l t(2) that
      by (simp add: sv_counts_def sv_ok_def sv_started_def)
    moreover have "sv_tick env s = (if ue_steady env \<ge> sv_deadline t
        then if sv_child ?l < 0 then schedule_from env 0 ?l else ?l else t)"
      using False unfolding sv_tick_def Let_def t_def by auto
    ultimately show ?thesis using l t by simp
  qed
qed

lemma sv_run_counts: "sv_counts n s \<Longrightarrow> sv_counts n (sv_run env i s)"
proof -
  assume s: "sv_counts n s"
  have "sv_counts n (s\<lparr>sv_wants_restart := True\<rparr>)" using s by (simp add: sv_counts_def sv_ok_def sv_started_def)
  moreover have "sv_counts n (sv_launch env m True s)" if "\<not> sv_child s > 0" for m
    using sv_launch_counts[OF s] s that by (simp add: sv_counts_def sv_ok_def)
  ultimately show ?thesis using s by (simp add: sv_run_def)
qed

lemma sv_child_exit_counts:
  "sv_counts n s \<Longrightarrow> sv_counts (n + (if sv_owns s pid then 1 else 0)) (sv_child_exit env pid st s)"
  by (auto simp: sv_child_exit_def Let_def sv_counts_def sv_ok_def sv_started_def sv_owns_def)

lemma sv_step_counts: "sv_counts n s \<Longrightarrow> sv_counts (n + sv_ended s e) (sv_step s e)"
proof (cases e)
  case (SvExit env pid st)
  then show "sv_counts n s \<Longrightarrow> ?thesis" using sv_child_exit_counts[of n s pid env st] by simp
qed (simp_all add: sv_tick_counts sv_run_counts)

lemma sv_run_all_counts: "sv_counts n s \<Longrightarrow> sv_run_all s n es = (s', n') \<Longrightarrow> sv_counts n' s'"
  by (induction es arbitrary: s n) (auto intro: sv_step_counts)

section \<open>The timetable\<close>

lemma schedule_from_window:
  "ue_steady env + kFloorSeconds * 1000000000 \<le> sv_deadline (schedule_from env c s)"
  "sv_deadline (schedule_from env c s) \<le> ue_steady env + kPeriodSeconds * 1000000000"
  by (simp_all add: schedule_from_def Let_def kPeriodSeconds_def kFloorSeconds_def)

text \<open>A tick that finds the service idle, with an installation and its first tick behind it.\<close>

definition sv_idle :: "update_env \<Rightarrow> update_service \<Rightarrow> bool" where
  "sv_idle env s \<longleftrightarrow> sv_loaded s \<and> sv_child s = - 1 \<and> updater_path (sv_reload env s) \<noteq> []
     \<and> us_status (sv_state (sv_reload env s)) \<noteq> UUpdatesDisabled"

lemma schedule_from_deadline: "kFloorSeconds * 1000000000 \<le> sv_deadline (schedule_from env c s) - ue_steady env"
  using schedule_from_window(1)[of env c s] by simp

lemma sv_tick_due:
  assumes "sv_idle env s" "sv_have_deadline s" "sv_deadline s \<le> ue_steady env"
  shows "\<exists>exe pid. sv_launches (sv_tick env s) = sv_launches s @ [([exe, str ''--check''], pid)]
     \<and> (if pid > 0 then sv_child (sv_tick env s) = pid
        else sv_have_deadline (sv_tick env s) \<and> sv_deadline (sv_tick env s) = ue_steady env + kFloorSeconds * 1000000000)"
proof -
  let ?s = "sv_reload env s"
  let ?l = "sv_launch env (str ''--check'') False (?s\<lparr>sv_have_deadline := False\<rparr>)"
  have u: "updater_path (?s\<lparr>sv_have_deadline := False\<rparr>) = updater_path ?s" by (simp add: updater_path_def)
  have "sv_tick env s = (if sv_child ?l < 0 then schedule_from env 0 ?l else ?l)"
    using assms by (simp add: sv_tick_def Let_def sv_idle_def)
  then show ?thesis using assms(1) by (auto simp: sv_launch_def Let_def u sv_idle_def schedule_from_def kPeriodSeconds_def kFloorSeconds_def)
qed

lemma sv_tick_not_due:
  assumes "sv_child s \<noteq> - 1 \<or> \<not> sv_loaded s \<or> \<not> sv_have_deadline s \<or> ue_steady env < sv_deadline s" "sv_ok s"
  shows "sv_launches (sv_tick env s) = sv_launches s"
proof -
  have f: "\<not> sv_deadline (schedule_from env c t) \<le> ue_steady env" for c t
    using schedule_from_deadline[of env c t] by (simp add: kFloorSeconds_def)
  show ?thesis using assms unfolding sv_tick_def Let_def sv_ok_def by (auto simp: f)
qed

section \<open>Properties\<close>

text \<open>
  C30.  One worker at a time.  Whatever sequence of ticks, menu commands and child deaths, in whatever
  environment, the children started outnumber by at most one those of ours that have ended: exactly by
  the child the service holds.  While it holds one, no deadline runs.
\<close>

theorem update_one_worker:
  "case sv_run_all (service_init path exe) 0 es of (s, ended) \<Rightarrow>
     sv_started s = ended + (if sv_child s > 0 then 1 else 0) \<and> \<not> (sv_child s > 0 \<and> sv_have_deadline s)"
proof -
  have "sv_counts 0 (service_init path exe)" by (simp add: sv_counts_def sv_ok_def sv_started_def service_init_def)
  from sv_run_all_counts[OF this] show ?thesis by (auto simp: sv_counts_def sv_ok_def split: prod.splits)
qed

text \<open>
  C36.  The automatic check is started when it is due and not before.  At a tick where the service is
  idle and its deadline has passed, exactly one \<open>--check\<close> is asked for, and when it cannot be started
  a new deadline runs, thirty seconds ahead; at any other tick nothing is asked for.
\<close>

theorem update_check_due:
  assumes "sv_ok s"
  shows "if sv_idle env s \<and> sv_have_deadline s \<and> sv_deadline s \<le> ue_steady env
     then (\<exists>exe pid. sv_launches (sv_tick env s) = sv_launches s @ [([exe, str ''--check''], pid)]
        \<and> (if pid > 0 then sv_child (sv_tick env s) = pid
        else sv_have_deadline (sv_tick env s) \<and> sv_deadline (sv_tick env s) = ue_steady env + kFloorSeconds * 1000000000))
     else sv_launches (sv_tick env s) = sv_launches s"
proof (cases "sv_idle env s \<and> sv_have_deadline s \<and> sv_deadline s \<le> ue_steady env")
  case True
  then show ?thesis using sv_tick_due[of env s] by simp
next
  case False
  have "sv_launches (sv_tick env s) = sv_launches s"
  proof (cases "sv_child s \<noteq> - 1 \<or> \<not> sv_loaded s \<or> \<not> sv_have_deadline s \<or> ue_steady env < sv_deadline s")
    case True
    then show ?thesis using sv_tick_not_due[OF _ assms] by simp
  next
    case False
    with \<open>\<not> (sv_idle env s \<and> _ \<and> _)\<close> have "updater_path (sv_reload env s) = []
        \<or> us_status (sv_state (sv_reload env s)) = UUpdatesDisabled" by (auto simp: sv_idle_def)
    then show ?thesis by (auto simp: sv_tick_def Let_def)
  qed
  then show ?thesis using False by simp
qed

text \<open>A service whose deadline has passed, and an environment where starting the child fails.\<close>

definition due_service :: update_service where
  "due_service = (service_init (str ''/s'') (str ''/x''))\<lparr>sv_loaded := True, sv_have_deadline := True, sv_deadline := 5\<rparr>"

definition due_env :: update_env where
  "due_env = \<lparr>ue_wall = 1000, ue_steady = 7, ue_read = (\<lambda>p. Some (str ''schema=1'' @ [nl] @ str ''prefix=/p'')),
     ue_stat = (\<lambda>p. None), ue_alive = (\<lambda>p. False), ue_launch = (\<lambda>argv. - 1)\<rparr>"

theorem update_check_due_witness:
  "\<exists>exe pid. sv_launches (sv_tick due_env due_service) = [([exe, str ''--check''], pid)]"
proof -
  have h: "sv_ok due_service" "sv_idle due_env due_service" "sv_have_deadline due_service" "sv_deadline due_service \<le> ue_steady due_env"
    "sv_launches due_service = []" by code_simp+
  show ?thesis using update_check_due[OF h(1), of due_env] h(2-5) by auto
qed

end
