(* ===== verification/Modal.thy ===== *)
theory Modal
  imports Lines Surface_Inv Theme Width
begin

text \<open>
  \<open>src/shell/modal.cpp\<close>: the dialogue of the desktop, one question at a time.  The geometry of the
  two buttons is computed from the rectangle laid out last, and is what drawing and hit testing read.
\<close>

section \<open>Model\<close>

datatype modal_style = MQuestion | MInfo | MProgress

record modal =
  md_open :: bool
  md_style :: modal_style
  md_cancel_label :: bytes
  md_confirm_label :: bytes
  md_question :: bytes
  md_target :: "32 word"
  md_confirm :: bool
  md_percent :: int
  md_rect :: rect

definition modal_init :: modal where
  "modal_init = \<lparr>md_open = False, md_style = MQuestion, md_cancel_label = [], md_confirm_label = [], md_question = [],
     md_target = 0, md_confirm = False, md_percent = - 1, md_rect = mk_rect 0 0 0 0\<rparr>"

definition kCancel :: bytes where "kCancel = str ''Annuler''"
definition kConfirm :: bytes where "kConfirm = str ''Confirmer''"
definition kAcknowledge :: bytes where "kAcknowledge = str ''[ OK ]''"
definition kChromeHeight :: int where "kChromeHeight = 5"
definition kButtonsChrome :: int where "kButtonsChrome = 5"

definition modal_button :: "bytes \<Rightarrow> bytes" where
  "modal_button label = str ''[ '' @ label @ str '' ]''"

definition kMinWidth :: int where
  "kMinWidth = int (length (modal_button kCancel)) + int (length (modal_button kConfirm)) + kButtonsChrome"

definition body_lines :: "bytes \<Rightarrow> bytes list" where
  "body_lines s = split_lines s"

text \<open>A question is ignored while another, or an answer, is open.\<close>

definition modal_busy :: "modal \<Rightarrow> bool" where
  "modal_busy m \<longleftrightarrow> md_open m \<and> md_style m \<noteq> MProgress"

definition modal_ask_as :: "modal \<Rightarrow> bytes \<Rightarrow> 32 word \<Rightarrow> bytes \<Rightarrow> bytes \<Rightarrow> modal" where
  "modal_ask_as m q target cancel confirm =
     (if modal_busy m then m
      else m\<lparr>md_open := True, md_style := MQuestion, md_cancel_label := cancel, md_confirm_label := confirm,
        md_question := q, md_target := target, md_confirm := False, md_percent := - 1\<rparr>)"

definition modal_ask :: "modal \<Rightarrow> bytes \<Rightarrow> 32 word \<Rightarrow> modal" where
  "modal_ask m q target = modal_ask_as m q target kCancel kConfirm"

definition modal_progress :: "modal \<Rightarrow> bytes \<Rightarrow> modal" where
  "modal_progress m q =
     (if modal_busy m then m
      else m\<lparr>md_open := True, md_style := MProgress, md_question := q, md_target := 0, md_confirm := False,
        md_percent := - 1\<rparr>)"

definition modal_set_progress :: "modal \<Rightarrow> int \<Rightarrow> modal" where
  "modal_set_progress m p = m\<lparr>md_percent := p\<rparr>"

definition modal_set_body :: "modal \<Rightarrow> bytes \<Rightarrow> modal" where
  "modal_set_body m q = (if md_open m then m\<lparr>md_question := q\<rparr> else m)"

definition modal_inform :: "modal \<Rightarrow> bytes \<Rightarrow> modal" where
  "modal_inform m q =
     (if modal_busy m then m
      else m\<lparr>md_open := True, md_style := MInfo, md_question := q, md_target := 0, md_confirm := True,
        md_percent := - 1\<rparr>)"

definition modal_dismiss :: "modal \<Rightarrow> modal" where
  "modal_dismiss m = m\<lparr>md_open := False, md_style := MQuestion, md_cancel_label := [], md_confirm_label := [],
     md_question := [], md_target := 0, md_confirm := False, md_percent := - 1\<rparr>"

definition modal_focus_next :: "modal \<Rightarrow> modal" where
  "modal_focus_next m = (if md_style m = MQuestion then m\<lparr>md_confirm := \<not> md_confirm m\<rparr> else m)"

definition modal_min_width :: "modal \<Rightarrow> int" where
  "modal_min_width m =
     (if md_style m \<noteq> MQuestion then kMinWidth
      else max kMinWidth (int (length (modal_button (md_cancel_label m)) + length (modal_button (md_confirm_label m)))
        + kButtonsChrome))"

definition modal_rect :: "modal \<Rightarrow> int \<Rightarrow> int \<Rightarrow> rect" where
  "modal_rect m cols rows =
     (let lines = body_lines (md_question m);
          longest = foldl (\<lambda>n l. max n (length l)) 0 lines;
          fl = modal_min_width m;
          want = int longest + 4;
          w1 = max fl want;
          w2 = min w1 (max fl (cols - 4));
          w = min w2 cols;
          h = min (kChromeHeight + int (length lines)) rows
      in mk_rect (cdiv (cols - w) 2) (cdiv (rows - h) 2) w h)"

definition modal_layout :: "modal \<Rightarrow> int \<Rightarrow> int \<Rightarrow> modal" where
  "modal_layout m cols rows = m\<lparr>md_rect := modal_rect m cols rows\<rparr>"

definition buttons_y :: "modal \<Rightarrow> int" where
  "buttons_y m = ry (md_rect m) + int (length (body_lines (md_question m))) + 2"

definition button_widths :: "modal \<Rightarrow> int \<times> int" where
  "button_widths m =
     (let wa = int (length (modal_button (md_cancel_label m)));
          wk = int (length (modal_button (md_confirm_label m)));
          room = max 0 (rw (md_rect m) - kButtonsChrome)
      in if wa + wk \<le> room then (wa, wk)
         else let moitie = cdiv room 2 in
           if wa \<le> moitie then (wa, room - wa)
           else if wk \<le> room - moitie then (room - wk, wk)
           else (moitie, room - moitie))"

definition confirm_rect :: "modal \<Rightarrow> rect" where
  "confirm_rect m = (let w = snd (button_widths m) in
     mk_rect (rx (md_rect m) + rw (md_rect m) - 2 - w) (buttons_y m) w 1)"

definition cancel_rect :: "modal \<Rightarrow> rect" where
  "cancel_rect m = (let (wa, wk) = button_widths m in
     mk_rect (rx (md_rect m) + rw (md_rect m) - 3 - wk - wa) (buttons_y m) wa 1)"

definition modal_draw_progress :: "bool \<Rightarrow> rect \<Rightarrow> surface \<Rightarrow> modal \<Rightarrow> theme \<Rightarrow> border \<Rightarrow> style \<Rightarrow> surface" where
  "modal_draw_progress amb v s m th b st =
     (if md_percent m \<ge> 0 then
        let r = md_rect m; pc = to_string (md_percent m) @ str ''%''; chiffre = 4; barre = rw r - 4 - chiffre - 2 in
        if barre \<ge> 4 then
          let s1 = fst (view_text amb v s (rx r + 2) (buttons_y m) (gauge_bar (md_percent m) barre b) (st\<lparr>st_fg := th_accent th\<rparr>))
          in fst (view_text amb v s1 (rx r + 2 + barre + 2 + (chiffre - int (length pc))) (buttons_y m) pc st)
        else s
      else s)"

definition modal_draw :: "bool \<Rightarrow> rect \<Rightarrow> surface \<Rightarrow> modal \<Rightarrow> theme \<Rightarrow> border \<Rightarrow> surface" where
  "modal_draw amb v s m th b =
     (if \<not> md_open m then s
      else
        let r = md_rect m;
            st = style_init\<lparr>st_bg := th_modal_bg th, st_fg := th_modal_fg th\<rparr>;
            hot = st\<lparr>st_bg := th_accent th, st_fg := th_modal_bg th\<rparr>;
            s1 = view_box amb v (view_fill v s r st) r b st;
            lines = body_lines (md_question m);
            s2 = foldl (\<lambda>s i. fst (view_text amb v s (rx r + 2) (ry r + 1 + int i)
                    (elide_to_cells amb (lines ! i) (rw r - 4) (str ''~'')) st)) s1 [0..<length lines]
        in case md_style m of
             MProgress \<Rightarrow> modal_draw_progress amb v s2 m th b st
           | MInfo \<Rightarrow> fst (view_text amb v s2 (rx r + cdiv (rw r - 6) 2) (ry (confirm_rect m)) kAcknowledge hot)
           | MQuestion \<Rightarrow>
               let c = cancel_rect m; k = confirm_rect m;
                   s3 = fst (view_text amb v s2 (rx c) (ry c) (elide_to_cells amb (modal_button (md_cancel_label m)) (rw c) (str ''~''))
                          (if md_confirm m then st else hot))
               in fst (view_text amb v s3 (rx k) (ry k) (elide_to_cells amb (modal_button (md_confirm_label m)) (rw k) (str ''~''))
                    (if md_confirm m then hot else st)))"

datatype modal_where = DHNone | DHBody | DHCancel | DHConfirm

definition modal_hit :: "modal \<Rightarrow> int \<Rightarrow> int \<Rightarrow> modal_where" where
  "modal_hit m x y =
     (if \<not> md_open m \<or> \<not> contains (md_rect m) x y then DHNone
      else if md_style m = MProgress then DHBody
      else if md_style m = MInfo then (if ry (confirm_rect m) = y then DHConfirm else DHBody)
      else if contains (cancel_rect m) x y then DHCancel
      else if contains (confirm_rect m) x y then DHConfirm
      else DHBody)"

section \<open>Geometry\<close>

text \<open>A box centred in a space that can hold it stays inside.\<close>

lemma centred: "w \<le> c \<Longrightarrow> 0 \<le> cdiv (c - w) 2 \<and> cdiv (c - w) 2 + w \<le> c"
  by auto

lemma button_widths_fit:
  assumes "7 \<le> rw (md_rect m)"
  shows "0 < fst (button_widths m)" "0 < snd (button_widths m)"
    "fst (button_widths m) + snd (button_widths m) \<le> rw (md_rect m) - kButtonsChrome"
proof -
  let ?room = "max 0 (rw (md_rect m) - kButtonsChrome)"
  have l: "0 < int (length (modal_button x))" for x by (simp add: modal_button_def str_def)
  have r: "2 \<le> ?room" "?room = rw (md_rect m) - kButtonsChrome" using assms by (simp_all add: kButtonsChrome_def)
  have "?room div 2 \<le> ?room - 1" "1 \<le> ?room div 2" "cdiv ?room 2 = ?room div 2"
    using r(1) by (auto simp del: max.absorb1)
  then show "0 < fst (button_widths m)" "0 < snd (button_widths m)"
    "fst (button_widths m) + snd (button_widths m) \<le> rw (md_rect m) - kButtonsChrome"
    using l[of "md_cancel_label m"] l[of "md_confirm_label m"] r
    by (auto simp: button_widths_def Let_def)
qed

lemma modal_buttons_inside:
  assumes "7 \<le> rw (md_rect m)"
  shows "rx (md_rect m) + 2 \<le> rx (cancel_rect m)" "rx (cancel_rect m) + rw (cancel_rect m) < rx (confirm_rect m)"
    "rx (confirm_rect m) + rw (confirm_rect m) = rx (md_rect m) + rw (md_rect m) - 2"
    "0 < rw (cancel_rect m)" "0 < rw (confirm_rect m)"
  using button_widths_fit[OF assms]
  by (auto simp: cancel_rect_def confirm_rect_def Let_def kButtonsChrome_def split: prod.splits)

lemma modal_rect_size:
  assumes "7 \<le> cols"
  shows "7 \<le> rw (modal_rect m cols rows)" "rw (modal_rect m cols rows) \<le> cols" "0 \<le> rx (modal_rect m cols rows)"
    "rx (modal_rect m cols rows) + rw (modal_rect m cols rows) \<le> cols"
proof -
  have k: "20 \<le> kMinWidth" by (simp add: kMinWidth_def modal_button_def kCancel_def kConfirm_def kButtonsChrome_def str_def)
  then have "20 \<le> modal_min_width m" by (simp add: modal_min_width_def max.coboundedI1)
  then show w: "7 \<le> rw (modal_rect m cols rows)" "rw (modal_rect m cols rows) \<le> cols"
    using assms by (auto simp: modal_rect_def Let_def le_max_iff_disj)
  have x: "rx (modal_rect m cols rows) = cdiv (cols - rw (modal_rect m cols rows)) 2"
    unfolding modal_rect_def Let_def mk_rect_sel by (rule refl)
  show "0 \<le> rx (modal_rect m cols rows)" "rx (modal_rect m cols rows) + rw (modal_rect m cols rows) \<le> cols"
    unfolding x using centred[OF w(2)] by blast+
qed

lemma modal_rect_height:
  assumes "kChromeHeight + int (length (body_lines (md_question m))) \<le> rows"
  shows "rh (modal_rect m cols rows) = kChromeHeight + int (length (body_lines (md_question m)))"
    "0 \<le> ry (modal_rect m cols rows)" "ry (modal_rect m cols rows) + rh (modal_rect m cols rows) \<le> rows"
  using assms by (simp_all add: modal_rect_def Let_def)

lemma modal_draw_draws: "draws amb v s (modal_draw amb v s m th b)"
proof -
  have "draws amb v t (modal_draw_progress amb v t m th b st)" for t st
    unfolding modal_draw_progress_def Let_def by (intro draws_after)
  then show ?thesis unfolding modal_draw_def Let_def
    by (cases "md_style m") (auto intro!: draws_after d_then[OF _ \<open>\<And>t st. draws amb v t (modal_draw_progress amb v t m th b st)\<close>])
qed

section \<open>Properties\<close>

text \<open>
  A question can always be answered with the mouse.  On a screen at least seven columns wide and
  tall enough for the question, whatever the labels of its buttons, both buttons are there: not empty,
  inside the frame and off its border, apart from each other, and each cell of a button answers as
  that button.
\<close>

theorem modal_buttons_reachable:
  assumes "7 \<le> cols" "kChromeHeight + int (length (body_lines (md_question m))) \<le> rows"
    "md_open m" "md_style m = MQuestion" "m' = modal_layout m cols rows"
  shows "0 < rw (cancel_rect m') \<and> 0 < rw (confirm_rect m')
     \<and> (\<forall>x y. contains (cancel_rect m') x y \<longrightarrow> modal_hit m' x y = DHCancel)
     \<and> (\<forall>x y. contains (confirm_rect m') x y \<longrightarrow> modal_hit m' x y = DHConfirm)
     \<and> (\<forall>x y. contains (cancel_rect m') x y \<or> contains (confirm_rect m') x y \<longrightarrow>
          0 < x \<and> x < cols - 1 \<and> 0 < y \<and> y < rows - 1)"
proof -
  have r: "md_rect m' = modal_rect m cols rows" "md_question m' = md_question m" "md_open m'" "md_style m' = MQuestion"
    using assms(3-5) by (simp_all add: modal_layout_def)
  note sz = modal_rect_size[OF assms(1), of m rows] modal_rect_height[OF assms(2), of cols]
  have b: "7 \<le> rw (md_rect m')" using sz r by simp
  note i = modal_buttons_inside[OF b]
  have y: "ry (cancel_rect m') = buttons_y m'" "ry (confirm_rect m') = buttons_y m'" "rh (cancel_rect m') = 1" "rh (confirm_rect m') = 1"
    by (simp_all add: cancel_rect_def confirm_rect_def Let_def split: prod.splits)
  have "buttons_y m' = ry (md_rect m') + rh (md_rect m') - 3"
    using sz r by (simp add: buttons_y_def kChromeHeight_def)
  have in_frame: "contains (md_rect m') x y \<and> rx (md_rect m') + 2 \<le> x \<and> x < rx (md_rect m') + rw (md_rect m') - 2
      \<and> y = ry (md_rect m') + rh (md_rect m') - 3" if "contains (cancel_rect m') x y \<or> contains (confirm_rect m') x y" for x y
    using that i y \<open>buttons_y m' = _\<close> sz r by (auto simp: contains_def kChromeHeight_def)
  have apart: "\<not> (contains (cancel_rect m') x y \<and> contains (confirm_rect m') x y)" for x y
    using i by (auto simp: contains_def)
  have "modal_hit m' x y = DHCancel" if "contains (cancel_rect m') x y" for x y
    using in_frame[of x y] that r(3,4) unfolding modal_hit_def by (simp only:) auto
  moreover have "modal_hit m' x y = DHConfirm" if "contains (confirm_rect m') x y" for x y
    using in_frame[of x y] apart[of x y] that r(3,4) unfolding modal_hit_def by (simp only:) auto
  moreover have "0 < x \<and> x < cols - 1 \<and> 0 < y \<and> y < rows - 1"
    if "contains (cancel_rect m') x y \<or> contains (confirm_rect m') x y" for x y
    using in_frame[OF that] sz r by (auto simp: kChromeHeight_def)
  ultimately show ?thesis using i by blast
qed

theorem modal_buttons_reachable_witness:
  "modal_hit (modal_layout (modal_ask modal_init (str ''Fermer ?'') 3) 40 12) 12 6 = DHCancel"
proof -
  let ?m = "modal_ask modal_init (str ''Fermer ?'') 3" and ?l = "modal_layout (modal_ask modal_init (str ''Fermer ?'') 3) 40 12"
  have h: "7 \<le> (40 :: int)" "kChromeHeight + int (length (body_lines (md_question ?m))) \<le> 12" "md_open ?m" "md_style ?m = MQuestion"
    by code_simp+
  have "contains (cancel_rect ?l) 12 6" by code_simp
  then show ?thesis using modal_buttons_reachable[OF h refl] by blast
qed

end
