(* ===== verification/Help.thy ===== *)
theory Help
  imports Modal Input
begin

text \<open>
  \<open>src/shell/help.cpp\<close> with the two tables of \<open>src/input/shortcuts.cpp\<close> it shows, and
  \<open>src/shell/snapassist.cpp\<close>: the boxes the desktop lays over the windows.
\<close>

section \<open>The tables of the help\<close>

record help_row =
  hr_keys :: bytes
  hr_what :: bytes
  hr_actions :: "action list"

definition mk_help :: "bytes \<Rightarrow> bytes \<Rightarrow> action list \<Rightarrow> help_row" where
  "mk_help k w a = \<lparr>hr_keys = k, hr_what = w, hr_actions = a\<rparr>"

definition binding_help :: "help_row list" where
  "binding_help =
     [mk_help (str ''Fl'' @ [0xC3, 0xA8] @ str ''ches / hjkl'') (str ''D'' @ [0xC3, 0xA9] @ str ''placer la fen'' @ [0xC3, 0xAA] @ str ''tre'') [MoveLeft, MoveRight, MoveUp, MoveDown],
      mk_help (str ''Maj+fl'' @ [0xC3, 0xA8] @ str ''ches / HJKL'') (str ''Redimensionner'') [ShrinkWidth, GrowWidth, ShrinkHeight, GrowHeight],
      mk_help (str ''Tab, Maj+Tab / n, p'') (str ''Fen'' @ [0xC3, 0xAA] @ str ''tre suivante, pr'' @ [0xC3, 0xA9] @ str ''c'' @ [0xC3, 0xA9] @ str ''dente'') [NextWindow, PrevWindow],
      mk_help (str ''w'') (str ''Fermer la fen'' @ [0xC3, 0xAA] @ str ''tre'') [Close],
      mk_help (str ''-'') (str ''R'' @ [0xC3, 0xA9] @ str ''duire'') [Minimize],
      mk_help (str ''z'') (str ''Maximiser (bascule)'') [MaximizeToggle],
      mk_help (str ''f'') (str ''Plein '' @ [0xC3, 0xA9] @ str ''cran (bascule)'') [FullscreenToggle],
      mk_help (str ''Espace'') (str ''Ouvrir le menu'') [OpenMenu],
      mk_help (str ''r'') (str ''Tout repeindre'') [ForceRepaint],
      mk_help (str ''d'') (str ''D'' @ [0xC3, 0xA9] @ str ''tacher (la session survit)'') [Detach],
      mk_help (str ''?'') (str ''Cette aide'') [ShowHelp],
      mk_help (str ''<leader>'') (str ''L'' @ [0x27] @ str ''envoyer '' @ [0xC3, 0xA0] @ str '' l'' @ [0x27] @ str ''application'') [LiteralLeader]]"

definition direct_help :: "(bytes \<times> bytes) list" where
  "direct_help =
     [(str ''Ctrl+Q'', str ''D'' @ [0xC3, 0xA9] @ str ''tacher (la session survit)''),
      (str ''Ctrl+fl'' @ [0xC3, 0xA8] @ str ''ches'', str ''Ancrer sur une moiti'' @ [0xC3, 0xA9] @ str '' d'' @ [0x27] @ [0xC3, 0xA9] @ str ''cran''),
      (str ''Alt+t / w / fl'' @ [0xC3, 0xA8] @ str ''ches'', str ''Terminal : onglet neuf, ferm'' @ [0xC3, 0xA9] @ str '', suivant, pr'' @ [0xC3, 0xA9] @ str ''c.''),
      (str ''F2'', str ''Terminal : renommer l'' @ [0x27] @ str ''onglet'')]"

section \<open>The help\<close>

record help_box =
  hp_open :: bool
  hp_rect :: rect

definition help_init :: help_box where
  "help_init = \<lparr>hp_open = False, hp_rect = mk_rect 0 0 0 0\<rparr>"

definition help_open :: "help_box \<Rightarrow> help_box" where "help_open h = h\<lparr>hp_open := True\<rparr>"
definition help_close :: "help_box \<Rightarrow> help_box" where "help_close h = h\<lparr>hp_open := False\<rparr>"

definition kHelpChrome :: int where "kHelpChrome = 4"
definition kDirectChrome :: int where "kDirectChrome = 1"
definition kGutters :: int where "kGutters = 7"

definition keys_width :: "bool \<Rightarrow> int" where
  "keys_width amb = foldl max 0 (map (\<lambda>r. text_cells amb (hr_keys r)) binding_help @ map (\<lambda>r. text_cells amb (fst r)) direct_help)"

definition what_width :: "bool \<Rightarrow> int" where
  "what_width amb = foldl max 0 (map (\<lambda>r. text_cells amb (hr_what r)) binding_help @ map (\<lambda>r. text_cells amb (snd r)) direct_help)"

definition maybe_fold :: "bytes \<Rightarrow> bool \<Rightarrow> bytes" where
  "maybe_fold s utf8 = (if utf8 then s else fold_to_ascii s)"

definition help_rect :: "bool \<Rightarrow> int \<Rightarrow> int \<Rightarrow> rect" where
  "help_rect amb cols rows =
     (let w = min (keys_width amb + what_width amb + kGutters) cols;
          h = min (int (length binding_help) + int (length direct_help) + kHelpChrome + kDirectChrome) rows
      in mk_rect (cdiv (cols - w) 2) (cdiv (rows - h) 2) w h)"

definition help_layout :: "bool \<Rightarrow> help_box \<Rightarrow> int \<Rightarrow> int \<Rightarrow> help_box" where
  "help_layout amb h cols rows = h\<lparr>hp_rect := help_rect amb cols rows\<rparr>"

definition help_draw_rows ::
  "bool \<Rightarrow> rect \<Rightarrow> surface \<Rightarrow> rect \<Rightarrow> style \<Rightarrow> style \<Rightarrow> bool \<Rightarrow> surface" where
  "help_draw_rows amb v s r st keys utf8 =
     (let x = rx r + 2;
          right = rx r + rw r - 1;
          kw = min (keys_width amb) (max 0 (right - x));
          flag_x = x + kw + 1; what_x = x + kw + 3;
          what_room = max 0 (right - what_x);
          mark = (if utf8 then [0xE2, 0x80, 0xA6] else str ''~'');
          chain = (if utf8 then [0xE2, 0x88, 0x99] else str ''+'');
          room = max 0 (rh r - kHelpChrome);
          s1 = (if what_room > 0
                then fst (view_text amb v s flag_x (ry r + 1)
                  (elide_to_cells amb (chain @ maybe_fold (str '' s'' @ [0x27] @ str ''encha'' @ [0xC3, 0xAE] @ str ''ne'') utf8)
                     (what_room + 2) mark) st)
                else s);
          bottom = ry r + rh r - 1;
          n = min (min (int (length binding_help)) room) (max 0 (bottom - (ry r + 3)));
          s2 = foldl (\<lambda>s i.
                 let row = binding_help ! nat i; y = ry r + 3 + i;
                     a = fst (view_text amb v s x y (elide_to_cells amb (maybe_fold (hr_keys row) utf8) kw mark) keys);
                     b = (if hr_actions row \<noteq> [] \<and> is_repeatable (hd (hr_actions row))
                          then fst (view_text amb v a flag_x y chain keys) else a)
                 in fst (view_text amb v b what_x y (elide_to_cells amb (maybe_fold (hr_what row) utf8) what_room mark) st))
               s1 [0..n - 1];
          y = ry r + 3 + n
      in if y \<ge> bottom then s2
         else
           let s3 = fst (view_text amb v s2 x y (maybe_fold (str ''Sans accord :'') utf8) keys) in
           foldl (\<lambda>s i.
               let row = direct_help ! nat i; yi = y + 1 + i;
                   a = fst (view_text amb v s x yi (elide_to_cells amb (maybe_fold (fst row) utf8) kw mark) keys)
               in fst (view_text amb v a what_x yi (elide_to_cells amb (maybe_fold (snd row) utf8) what_room mark) st))
             s3 [0..min (int (length direct_help)) (bottom - (y + 1)) - 1])"

definition help_draw :: "bool \<Rightarrow> rect \<Rightarrow> surface \<Rightarrow> help_box \<Rightarrow> theme \<Rightarrow> border \<Rightarrow> bytes \<Rightarrow> bool \<Rightarrow> surface" where
  "help_draw amb v s h th b leader_label utf8 =
     (if \<not> hp_open h then s
      else
        let r = hp_rect h;
            st = style_init\<lparr>st_bg := th_modal_bg th, st_fg := th_modal_fg th\<rparr>;
            head = st\<lparr>st_fg := th_accent th\<rparr>;
            s1 = view_box amb v (view_fill v s r st) r b st;
            x = rx r + 2; head_room = max 0 (rx r + rw r - 1 - x);
            s2 = fst (view_text amb v s1 x (ry r + 1)
                   (elide_to_cells amb (leader_label @ str '' puis :'') head_room (if utf8 then [0xE2, 0x80, 0xA6] else str ''~'')) head)
        in help_draw_rows amb v s2 r st head utf8)"

section \<open>The proposal to dock\<close>

record snap_assist =
  sa_open :: bool
  sa_rect :: rect
  sa_choices :: "(32 word \<times> bytes) list"

definition assist_close :: "snap_assist \<Rightarrow> snap_assist" where
  "assist_close a = \<lparr>sa_open = False, sa_rect = mk_rect 0 0 0 0, sa_choices = []\<rparr>"

definition assist_init :: snap_assist where
  "assist_init = \<lparr>sa_open = False, sa_rect = mk_rect 0 0 0 0, sa_choices = []\<rparr>"

definition kChromeRows :: int where "kChromeRows = 3"
definition kAssistMinCols :: int where "kAssistMinCols = 12"
definition kHeading :: bytes where "kHeading = str ''Ancrer ici :''"

definition assist_open :: "bool \<Rightarrow> snap_assist \<Rightarrow> rect \<Rightarrow> (32 word \<times> bytes) list \<Rightarrow> snap_assist" where
  "assist_open amb a free choices =
     (let c = assist_close a;
          widest = foldl (\<lambda>n p. max n (text_cells amb (snd p))) (text_cells amb kHeading) choices;
          w = min (rw free - 2) (widest + 4);
          rows = min (int (length choices)) (rh free - 2 - kChromeRows)
      in if rows \<le> 0 \<or> w < kAssistMinCols then c
         else let h = rows + kChromeRows in
           c\<lparr>sa_rect := mk_rect (rx free + cdiv (rw free - w) 2) (ry free + cdiv (rh free - h) 2) w h,
             sa_choices := take (nat rows) choices, sa_open := True\<rparr>)"

definition assist_row :: "snap_assist \<Rightarrow> nat \<Rightarrow> int" where
  "assist_row a i = ry (sa_rect a) + 2 + int i"

definition assist_draw :: "bool \<Rightarrow> rect \<Rightarrow> surface \<Rightarrow> snap_assist \<Rightarrow> theme \<Rightarrow> border \<Rightarrow> surface" where
  "assist_draw amb v s a th b =
     (if \<not> sa_open a then s
      else
        let r = sa_rect a;
            st = style_init\<lparr>st_bg := th_modal_bg th, st_fg := th_modal_fg th\<rparr>;
            head = st\<lparr>st_fg := th_accent th\<rparr>;
            s1 = view_box amb v (view_fill v s r st) r b st;
            x = rx r + 2; room = max 0 (rx r + rw r - 1 - x);
            s2 = fst (view_text amb v s1 x (ry r + 1) (elide_to_cells amb kHeading room [0xE2, 0x80, 0xA6]) head)
        in foldl (\<lambda>s i. fst (view_text amb v s x (assist_row a i)
              (elide_to_cells amb (snd (sa_choices a ! i)) room [0xE2, 0x80, 0xA6]) st)) s2 [0..<length (sa_choices a)])"

definition assist_hit :: "snap_assist \<Rightarrow> int \<Rightarrow> int \<Rightarrow> 32 word" where
  "assist_hit a x y =
     (if \<not> sa_open a then 0
      else if x \<le> rx (sa_rect a) \<or> x \<ge> rx (sa_rect a) + rw (sa_rect a) - 1 then 0
      else (case find_if (\<lambda>i. y = assist_row a i) [0..<length (sa_choices a)] of
              Some i \<Rightarrow> fst (sa_choices a ! i) | None \<Rightarrow> 0))"

section \<open>Lemmas\<close>

lemma help_rect_inside:
  assumes "0 \<le> cols" "0 \<le> rows"
  shows "0 \<le> rx (help_rect amb cols rows)" "rx (help_rect amb cols rows) + rw (help_rect amb cols rows) \<le> cols"
    "0 \<le> ry (help_rect amb cols rows)" "ry (help_rect amb cols rows) + rh (help_rect amb cols rows) \<le> rows"
proof -
  have e: "rx (help_rect amb cols rows) = cdiv (cols - rw (help_rect amb cols rows)) 2"
    "ry (help_rect amb cols rows) = cdiv (rows - rh (help_rect amb cols rows)) 2"
    "rw (help_rect amb cols rows) \<le> cols" "rh (help_rect amb cols rows) \<le> rows"
    unfolding help_rect_def Let_def mk_rect_sel by (rule refl min.cobounded2)+
  show "0 \<le> rx (help_rect amb cols rows)" "rx (help_rect amb cols rows) + rw (help_rect amb cols rows) \<le> cols"
    unfolding e(1) using centred[OF e(3)] by blast+
  show "0 \<le> ry (help_rect amb cols rows)" "ry (help_rect amb cols rows) + rh (help_rect amb cols rows) \<le> rows"
    unfolding e(2) using centred[OF e(4)] by blast+
qed

lemma help_draw_draws: "draws amb v s (help_draw amb v s h th b l u)"
  unfolding help_draw_def help_draw_rows_def Let_def by (intro draws_after)

lemma assist_draw_draws: "draws amb v s (assist_draw amb v s a th b)"
  unfolding assist_draw_def Let_def by (intro draws_after)

lemma assist_open_inside:
  assumes "sa_open (assist_open amb a free cs)"
  shows "rx free \<le> rx (sa_rect (assist_open amb a free cs))"
    "rx (sa_rect (assist_open amb a free cs)) + rw (sa_rect (assist_open amb a free cs)) \<le> rx free + rw free"
    "ry free \<le> ry (sa_rect (assist_open amb a free cs))"
    "ry (sa_rect (assist_open amb a free cs)) + rh (sa_rect (assist_open amb a free cs)) \<le> ry free + rh free"
    "rh (sa_rect (assist_open amb a free cs)) = int (length (sa_choices (assist_open amb a free cs))) + kChromeRows"
    "sa_choices (assist_open amb a free cs) \<noteq> []" "set (sa_choices (assist_open amb a free cs)) \<subseteq> set cs"
proof -
  let ?widest = "foldl (\<lambda>n p. max n (text_cells amb (snd p))) (text_cells amb kHeading) cs"
  let ?w = "min (rw free - 2) (?widest + 4)" and ?rows = "min (int (length cs)) (rh free - 2 - kChromeRows)"
  have c: "\<not> (?rows \<le> 0 \<or> ?w < kAssistMinCols)"
    using assms by (auto simp: assist_open_def assist_close_def Let_def split: if_splits)
  have e: "assist_open amb a free cs = \<lparr>sa_open = True,
      sa_rect = mk_rect (rx free + cdiv (rw free - ?w) 2) (ry free + cdiv (rh free - (?rows + kChromeRows)) 2) ?w (?rows + kChromeRows),
      sa_choices = take (nat ?rows) cs\<rparr>"
    unfolding assist_open_def assist_close_def Let_def using c by simp
  have w: "?w \<le> rw free" "?rows + kChromeRows \<le> rh free" by simp_all
  show "rx free \<le> rx (sa_rect (assist_open amb a free cs))"
    "rx (sa_rect (assist_open amb a free cs)) + rw (sa_rect (assist_open amb a free cs)) \<le> rx free + rw free"
    unfolding e using centred[OF w(1)] by simp_all
  show "ry free \<le> ry (sa_rect (assist_open amb a free cs))"
    "ry (sa_rect (assist_open amb a free cs)) + rh (sa_rect (assist_open amb a free cs)) \<le> ry free + rh free"
    unfolding e using centred[OF w(2)] by simp_all
  show "rh (sa_rect (assist_open amb a free cs)) = int (length (sa_choices (assist_open amb a free cs))) + kChromeRows"
    "sa_choices (assist_open amb a free cs) \<noteq> []" "set (sa_choices (assist_open amb a free cs)) \<subseteq> set cs"
    unfolding e using c by (auto simp: set_take_subset dest: in_set_takeD)
qed

lemma find_if_row: "i < n \<Longrightarrow> find_if (\<lambda>j. b + int i = b + int j) [0..<n] = Some i"
proof -
  assume "i < n"
  have "find_if (\<lambda>j. i = j) [a..<n] = Some (i - a)" if "a \<le> i" for a
    using that
  proof (induction "i - a" arbitrary: a)
    case 0
    then show ?case using \<open>i < n\<close> by (simp add: upt_conv_Cons)
  next
    case (Suc d)
    then show ?case using Suc(1)[of "Suc a"] \<open>i < n\<close> by (auto simp: upt_conv_Cons Suc_diff_Suc)
  qed
  from this[of 0] show ?thesis by simp
qed

lemma assist_hit_row:
  assumes "sa_open a" "i < length (sa_choices a)" "rx (sa_rect a) < x" "x < rx (sa_rect a) + rw (sa_rect a) - 1"
  shows "assist_hit a x (assist_row a i) = fst (sa_choices a ! i)"
  using assms find_if_row[OF assms(2), of "ry (sa_rect a) + 2"] by (simp add: assist_hit_def assist_row_def)

section \<open>Properties\<close>

text \<open>
  The help tells everything.  Every action a leader chord can produce, the literal leader
  included, is named by a line of the help, and no line names an action that no chord produces.
\<close>

theorem help_complete: "set bound_actions = (\<Union>r \<in> set binding_help. set (hr_actions r))"
  by (auto simp: bound_actions_def kBindings_def kKeyBindings_def binding_help_def mk_help_def)

end
