(* ===== verification/Panel.thy ===== *)
theory Panel
  imports Menu Wm_Manager Terminal_Bar
begin

text \<open>
  \<open>src/shell/panel.cpp\<close> and \<open>clock.cpp\<close>: the task bar.  \<open>layout\<close> places a list of items once, and
  \<open>draw\<close> and \<open>hit\<close> read that list.
\<close>

section \<open>The clock\<close>

record clock =
  ck_text :: bytes
  ck_date :: bytes
  ck_primed :: bool

definition clock_init :: clock where
  "clock_init = \<lparr>ck_text = [], ck_date = [], ck_primed = False\<rparr>"

definition two_digits :: "nat \<Rightarrow> bytes" where
  "two_digits n = (if n < 10 then 0x30 # nat_digits n else nat_digits n)"

text \<open>\<open>localtime_r\<close> gives the hour and the minute, \<open>strftime\<close> the date.\<close>

definition clock_update :: "nat \<Rightarrow> nat \<Rightarrow> bytes \<Rightarrow> clock \<Rightarrow> clock \<times> bool" where
  "clock_update hour minute date c =
     (let buf = two_digits hour @ str '':'' @ two_digits minute
      in (\<lparr>ck_text = buf, ck_date = date, ck_primed = True\<rparr>,
          \<not> ck_primed c \<or> ck_text c \<noteq> buf \<or> ck_date c \<noteq> date))"

section \<open>Entries\<close>

datatype panel_what = PHNone | PHBody | PHMenuButton | PHPinned | PHTask | PHOverflow | PHClock | PHHint | PHUpdate

record panel_entry =
  pe_catalog :: int
  pe_label :: bytes
  pe_target :: "32 word"
  pe_count :: int
  pe_focused :: bool
  pe_minimized :: bool

record panel_item =
  pi_what :: panel_what
  pi_index :: int
  pi_win :: "32 word"
  pi_focused :: bool
  pi_rect :: rect
  pi_text :: bytes

definition mk_item :: "panel_what \<Rightarrow> int \<Rightarrow> 32 word \<Rightarrow> bool \<Rightarrow> rect \<Rightarrow> bytes \<Rightarrow> panel_item" where
  "mk_item k i w f r t = \<lparr>pi_what = k, pi_index = i, pi_win = w, pi_focused = f, pi_rect = r, pi_text = t\<rparr>"

record panel =
  pn_edge :: panel_edge
  pn_rect :: rect
  pn_utf8 :: bool
  pn_hint :: bytes
  pn_badge :: bool
  pn_items :: "panel_item list"

definition panel_init :: panel where
  "panel_init = \<lparr>pn_edge = EdgeBottom, pn_rect = mk_rect 0 0 0 0, pn_utf8 = False, pn_hint = [], pn_badge = False, pn_items = []\<rparr>"

definition kLabelCells :: int where "kLabelCells = 8"
definition kClockCells :: int where "kClockCells = 5"
definition kVerticalCols :: int where "kVerticalCols = 16"

definition update_glyph :: "bool \<Rightarrow> bytes" where
  "update_glyph utf8 = (if utf8 then [0xE2, 0x86, 0x91] else str ''^'')"

definition panel_elide :: "bool \<Rightarrow> bytes \<Rightarrow> int \<Rightarrow> bool \<Rightarrow> bytes" where
  "panel_elide amb s cells utf8 = elide_to_cells amb s cells (if utf8 then [0xE2, 0x80, 0xA6] else str ''~'')"

definition gather :: "wm \<Rightarrow> (window \<Rightarrow> bool) \<Rightarrow> panel_entry \<Rightarrow> panel_entry" where
  "gather m belongs e =
     (let ws = filter belongs (wm_stack m);
          ids = map w_id ws;
          e1 = e\<lparr>pe_count := int (length ids)\<rparr>
      in if ws = [] then e1
         else
           let at0 = find_if (\<lambda>i. i = wm_focused m) ids;
               e2 = e1\<lparr>pe_focused := (at0 \<noteq> None), pe_minimized := list_all (\<lambda>w. w_mode w = Minimized) ws,
                 pe_target := (case at0 of Some k \<Rightarrow> ids ! ((k + 1) mod length ids) | None \<Rightarrow> last ids)\<rparr>
           in if length ws = 1 \<and> w_title (last ws) \<noteq> [] then e2\<lparr>pe_label := w_title (last ws)\<rparr> else e2)"

definition mk_entry0 :: "int \<Rightarrow> bytes \<Rightarrow> panel_entry" where
  "mk_entry0 ci label = \<lparr>pe_catalog = ci, pe_label = label, pe_target = 0, pe_count = 0, pe_focused = False, pe_minimized = False\<rparr>"

definition build_entries :: "wm \<Rightarrow> panel_entry list" where
  "build_entries m =
     map (\<lambda>(ci, c). gather m (\<lambda>w. w_app_id w = ce_id c) (mk_entry0 (int ci) (ce_label c))) (enumerate 0 catalog) @
     map (\<lambda>w. gather m (\<lambda>o1. w_id o1 = w_id w) (mk_entry0 (- 1) (w_title w)))
       (filter (\<lambda>w. \<not> list_ex (\<lambda>c. w_app_id w = ce_id c) catalog) (wm_stack m))"

definition entry_mark :: "panel_entry \<Rightarrow> bool \<Rightarrow> bytes" where
  "entry_mark e utf8 =
     (if pe_count e > 0 then
        (if pe_minimized e then str ''_''
         else if pe_focused e then (if utf8 then [0xE2, 0x97, 0x8F] else str ''*'')
         else if utf8 then [0xE2, 0x97, 0x8B] else str ''o'')
      else str '' '')"

definition entry_text :: "bool \<Rightarrow> bool \<Rightarrow> panel_entry \<Rightarrow> int \<Rightarrow> bytes" where
  "entry_text amb utf8 e label_cells =
     entry_mark e utf8 @ panel_elide amb (pe_label e) label_cells utf8 @
     (if pe_count e > 1 then str ''('' @ to_string (pe_count e) @ str '')'' else [])"

definition entry_item :: "bool \<Rightarrow> bool \<Rightarrow> int \<Rightarrow> panel_entry \<Rightarrow> int \<Rightarrow> rect \<Rightarrow> panel_item" where
  "entry_item amb utf8 i e label r =
     (let live = pe_count e > 0
      in mk_item (if live then PHTask else PHPinned) (if live then i else pe_catalog e) (pe_target e) (pe_focused e) r
           (entry_text amb utf8 e label))"

section \<open>Layout\<close>

fun horizontal :: "panel_edge \<Rightarrow> bool" where
  "horizontal EdgeTop = True" | "horizontal EdgeBottom = True" | "horizontal _ = False"

definition thickness :: "panel \<Rightarrow> int" where
  "thickness p = (if horizontal (pn_edge p) then 1 else kVerticalCols)"

fun panel_rect :: "panel_edge \<Rightarrow> int \<Rightarrow> int \<Rightarrow> rect" where
  "panel_rect EdgeTop cols rows = mk_rect 0 0 cols 1"
| "panel_rect EdgeBottom cols rows = mk_rect 0 (rows - 1) cols 1"
| "panel_rect EdgeLeft cols rows = mk_rect 0 0 kVerticalCols rows"
| "panel_rect EdgeRight cols rows = mk_rect (cols - kVerticalCols) 0 kVerticalCols rows"

definition menu_mark :: "bool \<Rightarrow> bytes" where
  "menu_mark utf8 = (if utf8 then [0xE2, 0x98, 0xB0] @ str '' termos'' else str ''termos'')"

text \<open>How many texts of given widths fit before \<open>stop\<close>, one cell apart.\<close>

fun fits_loop :: "int \<Rightarrow> int \<Rightarrow> int list \<Rightarrow> nat" where
  "fits_loop stop cx [] = 0"
| "fits_loop stop cx (w # ws) = (if cx + w > stop then 0 else Suc (fits_loop stop (cx + w + 1) ws))"

definition fits :: "bool \<Rightarrow> bool \<Rightarrow> panel_entry list \<Rightarrow> int \<Rightarrow> int \<Rightarrow> int \<Rightarrow> nat" where
  "fits amb utf8 es start stop cells = fits_loop stop start (map (\<lambda>e. text_cells amb (entry_text amb utf8 e cells)) es)"

text \<open>The widest label that costs no entry.\<close>

fun stretch :: "(int \<Rightarrow> nat) \<Rightarrow> nat \<Rightarrow> int \<Rightarrow> int list \<Rightarrow> int" where
  "stretch f shown label [] = label"
| "stretch f shown label (c # cs) = (if f c < shown then label else stretch f shown c cs)"

fun place :: "bool \<Rightarrow> bool \<Rightarrow> int \<Rightarrow> int \<Rightarrow> int \<Rightarrow> int \<Rightarrow> panel_entry list \<Rightarrow> panel_item list" where
  "place amb utf8 y label i x [] = []"
| "place amb utf8 y label i x (e # es) =
     (let cw = text_cells amb (entry_text amb utf8 e label)
      in entry_item amb utf8 i e label (mk_rect x y cw 1) # place amb utf8 y label (i + 1) (x + cw + 1) es)"

definition overflow_text :: "bool \<Rightarrow> nat \<Rightarrow> bytes" where
  "overflow_text utf8 n = (if utf8 then [0xC2, 0xBB] else str ''>'') @ to_string (int n)"

definition layout_horizontal :: "bool \<Rightarrow> panel \<Rightarrow> wm \<Rightarrow> panel_item list" where
  "layout_horizontal amb p m =
     (let utf8 = pn_utf8 p; y = ry (pn_rect p); right = rx (pn_rect p) + rw (pn_rect p);
          clock_x = right - kClockCells - 1;
          clock_left = (if pn_badge p then clock_x - 2 else clock_x);
          x0 = rx (pn_rect p) + 1;
          menu_w = text_cells amb (menu_mark utf8);
          start_x = x0 + menu_w + 1;
          entries = build_entries m; tot = length entries;
          fit = (\<lambda>stop cells. fits amb utf8 entries start_x stop cells);
          hint_w = (if pn_hint p = [] then 0 else text_cells amb (pn_hint p));
          show_hint = (hint_w > 0 \<and> fit (clock_left - 1 - hint_w - 1) kLabelCells = tot);
          end0 = (if show_hint then clock_left - 1 - hint_w - 1 else clock_left - 1);
          shown0 = fit end0 kLabelCells;
          over_w = 1 + int (length (to_string (int tot)));
          stop = (if shown0 < tot then clock_left - 1 - over_w - 1 else end0);
          shown = (if shown0 < tot then fit stop kLabelCells else shown0);
          longest = foldl (\<lambda>n e. max n (text_cells amb (pe_label e))) kLabelCells entries;
          label = stretch (fit stop) shown kLabelCells [kLabelCells + 1..longest];
          hidden = tot - shown;
          over = overflow_text utf8 hidden; w = text_cells amb over
      in mk_item PHClock (- 1) 0 False (mk_rect clock_x y kClockCells 1) [] #
         (if pn_badge p then [mk_item PHUpdate (- 1) 0 False (mk_rect (clock_x - 2) y 1 1) (update_glyph utf8)] else []) @
         [mk_item PHMenuButton (- 1) 0 False (mk_rect x0 y menu_w 1) (menu_mark utf8)] @
         place amb utf8 y label 0 start_x (take shown entries) @
         (if hidden > 0 then [mk_item PHOverflow (int hidden) 0 False (mk_rect (clock_left - 1 - w) y w 1) over] else []) @
         (if show_hint then [mk_item PHHint (- 1) 0 False (mk_rect (clock_left - 1 - hint_w) y hint_w 1) (pn_hint p)] else []))"

definition layout_vertical :: "bool \<Rightarrow> panel \<Rightarrow> wm \<Rightarrow> panel_item list" where
  "layout_vertical amb p m =
     (let utf8 = pn_utf8 p; x = rx (pn_rect p); w = rw (pn_rect p); h = rh (pn_rect p); bottom = ry (pn_rect p) + h;
          clock_h = (if h \<ge> 3 then 2 else 1);
          badge_h = (if pn_badge p \<and> h \<ge> clock_h + 2 then 1 else 0);
          y0 = ry (pn_rect p) + 1;
          entries = build_entries m; tot = int (length entries);
          room0 = max 0 (bottom - clock_h - badge_h - y0);
          hint_w = (if pn_hint p = [] then 0 else text_cells amb (pn_hint p));
          show_hint = (hint_w > 0 \<and> hint_w \<le> w \<and> tot \<le> room0 - 1);
          room1 = (if show_hint then room0 - 1 else room0);
          room = (if tot > room1 then max 0 (room1 - 1) else room1);
          shown = min tot room;
          hidden = tot - shown
      in mk_item PHClock (- 1) 0 False (mk_rect x (bottom - clock_h) w clock_h) [] #
         (if badge_h > 0 then [mk_item PHUpdate (- 1) 0 False (mk_rect x (bottom - clock_h - 1) w 1) (update_glyph utf8)] else []) @
         [mk_item PHMenuButton (- 1) 0 False (mk_rect x (ry (pn_rect p)) w 1) (menu_mark utf8)] @
         map (\<lambda>i. entry_item amb utf8 i (entries ! nat i) (w - 2) (mk_rect x (y0 + i) w 1)) [0..shown - 1] @
         (if hidden > 0 then [mk_item PHOverflow hidden 0 False (mk_rect x (y0 + shown) w 1) (overflow_text utf8 (nat hidden))] else []) @
         (if show_hint then [mk_item PHHint (- 1) 0 False (mk_rect x (bottom - clock_h - badge_h - 1) w 1) (pn_hint p)] else []))"

definition panel_layout :: "bool \<Rightarrow> panel \<Rightarrow> wm \<Rightarrow> int \<Rightarrow> int \<Rightarrow> bool \<Rightarrow> panel" where
  "panel_layout amb p m cols rows utf8 =
     (let p1 = p\<lparr>pn_utf8 := utf8, pn_rect := panel_rect (pn_edge p) cols rows, pn_items := []\<rparr>
      in if rw (pn_rect p1) \<le> 0 \<or> rh (pn_rect p1) \<le> 0 then p1
         else p1\<lparr>pn_items := (if horizontal (pn_edge p1) then layout_horizontal amb p1 m else layout_vertical amb p1 m)\<rparr>)"

definition item_draw :: "bool \<Rightarrow> rect \<Rightarrow> style \<Rightarrow> style \<Rightarrow> bytes \<Rightarrow> bytes \<Rightarrow> surface \<Rightarrow> panel_item \<Rightarrow> surface" where
  "item_draw amb v base hot clock_text date_text s it =
     (let r = pi_rect it in
      if pi_what it = PHClock then
        (if rh r \<ge> 2 then
           fst (view_text amb v (fst (view_text amb v s (rx r + 1) (ry r) date_text base)) (rx r + 1) (ry r + 1) clock_text base)
         else fst (view_text amb v s (rx r + max 0 (kClockCells - text_cells amb clock_text)) (ry r) clock_text base))
      else fst (view_text amb v s (rx r) (ry r) (pi_text it)
        (if pi_focused it \<or> pi_what it = PHHint \<or> pi_what it = PHUpdate then hot else base)))"

definition panel_draw :: "bool \<Rightarrow> rect \<Rightarrow> surface \<Rightarrow> panel \<Rightarrow> theme \<Rightarrow> bytes \<Rightarrow> bytes \<Rightarrow> surface" where
  "panel_draw amb v s p th clock_text date_text =
     (let base = style_init\<lparr>st_bg := th_panel_bg th, st_fg := th_panel_fg th\<rparr>
      in foldl (item_draw amb v base (base\<lparr>st_fg := th_accent th\<rparr>) clock_text date_text)
           (view_fill v s (pn_rect p) base) (pn_items p))"

definition panel_hit :: "panel \<Rightarrow> int \<Rightarrow> int \<Rightarrow> panel_what \<times> int \<times> 32 word" where
  "panel_hit p x y =
     (if \<not> contains (pn_rect p) x y then (PHNone, - 1, 0)
      else (case find (\<lambda>it. contains (pi_rect it) x y) (pn_items p) of
              Some it \<Rightarrow> (pi_what it, pi_index it, pi_win it)
            | None \<Rightarrow> (PHBody, - 1, 0)))"

section \<open>What is clicked is what was laid out\<close>

definition left_of :: "panel_item \<Rightarrow> panel_item \<Rightarrow> bool" where
  "left_of a b \<longleftrightarrow> rx (pi_rect a) + rw (pi_rect a) \<le> rx (pi_rect b)"

definition in_span :: "int \<Rightarrow> int \<Rightarrow> int \<Rightarrow> panel_item \<Rightarrow> bool" where
  "in_span lo hi y a \<longleftrightarrow> lo \<le> rx (pi_rect a) \<and> rx (pi_rect a) + rw (pi_rect a) \<le> hi \<and> ry (pi_rect a) = y \<and> rh (pi_rect a) = 1"

definition item_apart :: "panel_item \<Rightarrow> panel_item \<Rightarrow> bool" where
  "item_apart a b \<longleftrightarrow> (\<forall>x y. \<not> (contains (pi_rect a) x y \<and> contains (pi_rect b) x y))"

lemma mk_item_sel [simp]:
  "pi_what (mk_item k i w f r t) = k" "pi_rect (mk_item k i w f r t) = r" "pi_win (mk_item k i w f r t) = w"
  "pi_index (mk_item k i w f r t) = i" "pi_rect (entry_item amb u j e l r) = r"
  by (simp_all add: mk_item_def entry_item_def Let_def)

lemma span_apart: "in_span lo hi y a \<Longrightarrow> in_span lo' hi' y' b \<Longrightarrow> hi \<le> lo' \<or> hi' \<le> lo \<Longrightarrow> item_apart a b"
  by (auto simp: in_span_def item_apart_def contains_def)

lemma left_of_apart: "left_of a b \<Longrightarrow> item_apart a b"
  by (auto simp: left_of_def item_apart_def contains_def)

lemma text_cells_nonneg: "0 \<le> text_cells amb s"
  using text_loop_le[of 0 amb s 0] by (simp add: text_cells_def)

lemma fits_take: "n \<le> fits_loop stop x ws \<Longrightarrow> fits_loop stop x (take n ws) = n"
proof (induction stop x ws arbitrary: n rule: fits_loop.induct)
  case (2 stop cx w ws)
  then show ?case by (cases n) (auto split: if_splits)
qed simp

lemma fits_le: "fits_loop stop x ws \<le> length ws"
  by (induction stop x ws rule: fits_loop.induct) auto

lemma place_span:
  assumes "fits_loop stop x (map (\<lambda>e. text_cells amb (entry_text amb u e label)) es) = length es"
  shows "list_all (in_span x stop y) (place amb u y label i x es) \<and> sorted_wrt left_of (place amb u y label i x es)"
  using assms
proof (induction es arbitrary: i x)
  case (Cons e es)
  let ?w = "text_cells amb (entry_text amb u e label)"
  let ?r = "place amb u y label (i + 1) (x + ?w + 1) es"
  have f: "x + ?w \<le> stop" "fits_loop stop (x + ?w + 1) (map (\<lambda>e. text_cells amb (entry_text amb u e label)) es) = length es"
    using Cons.prems by (auto split: if_splits)
  from Cons.IH[OF f(2), of "i + 1"] have r: "list_all (in_span (x + ?w + 1) stop y) ?r" "sorted_wrt left_of ?r" by auto
  have "list_all (in_span x stop y) ?r"
    using r(1) by (rule list.pred_mono_strong) (use text_cells_nonneg[of amb "entry_text amb u e label"] in \<open>simp add: in_span_def\<close>)
  moreover have "left_of (entry_item amb u i e label (mk_rect x y ?w 1)) b" if "b \<in> set ?r" for b
    using r(1) that by (auto simp: list_all_iff in_span_def left_of_def)
  moreover have "in_span x stop y (entry_item amb u i e label (mk_rect x y ?w 1))" using f(1) by (simp add: in_span_def)
  ultimately show ?case using r by (simp add: Let_def)
qed simp

lemma stretch_keeps: "shown \<le> f label \<Longrightarrow> shown \<le> f (stretch f shown label cs)"
  by (induction cs arbitrary: label) auto

lemma sorted_apart: "sorted_wrt left_of its \<Longrightarrow> sorted_wrt item_apart its"
  by (rule sorted_wrt_mono_rel[OF left_of_apart])

lemma build_entries_length: "3 \<le> length (build_entries m)" "length (build_entries m) \<le> 3 + length (wm_stack m)"
  by (simp_all add: build_entries_def catalog_def)

text \<open>Widths of the texts of the bar when ambiguous characters are narrow.\<close>

lemma digits_mono: "n \<le> k \<Longrightarrow> length (nat_digits n) \<le> length (nat_digits k)"
proof (induction n arbitrary: k rule: nat_digits.induct)
  case (1 n)
  show ?case
  proof (cases "n < 10")
    case True
    then show ?thesis using nat_digits_nonempty[of k] by (simp add: nat_digits.simps[of n] Suc_le_eq)
  next
    case False
    then have k: "\<not> k < 10" using 1(2) by simp
    have "length (nat_digits (n div 10)) \<le> length (nat_digits (k div 10))" using 1(1)[OF False, of "k div 10"] 1(2) by (simp add: div_le_mono)
    then show ?thesis using False k by (simp add: nat_digits.simps[of n] nat_digits.simps[of k])
  qed
qed

lemma text_loop_digits:
  assumes "list_all (\<lambda>b. 0x20 \<le> b \<and> b < 0x7F) ds"
  shows "text_loop amb (pre @ ds) (length pre) n = n + int (length ds)"
  using assms
proof (induction ds arbitrary: pre n)
  case (Cons d ds)
  have "text_loop amb (pre @ d # ds) (length pre) n = text_loop amb (pre @ d # ds) (length pre + 1) (n + 1)"
    using Cons.prems by (intro text_loop_ascii) (simp_all add: nth_append)
  also have "\<dots> = n + 1 + int (length ds)" using Cons.IH[of "pre @ [d]" "n + 1"] Cons.prems by simp
  finally show ?case by simp
qed (subst text_loop.simps, simp)

lemma overflow_cells: "text_cells False (overflow_text u k) = 1 + int (length (nat_digits k))"
proof -
  let ?m = "if u then [0xC2, 0xBB] else str ''>'' :: bytes"
  have d: "utf8_decode (?m @ nat_digits k) 0 = (if u then (0xBB, 2) else (0x3E, 1))"
    using utf8_decode_encode[of "0xBB" "[]" "nat_digits k"] utf8_decode_encode[of "0x3E" "[]" "nat_digits k"]
    by (simp add: is_scalar_def is_surrogate_def encode_utf8_def str_def)
  have c: "char_width False 0xBB = 1" "char_width False 0x3E = 1" by code_simp+
  have "text_loop False (?m @ nat_digits k) 0 0 = text_loop False (?m @ nat_digits k) (length ?m) 1"
    by (subst text_loop.simps) (simp add: d c str_def numeral_2_eq_2)
  then show ?thesis using text_loop_digits[OF digits_printable, of False ?m k 1]
    by (simp add: text_cells_def overflow_text_def to_string_def)
qed

lemma menu_mark_cells: "text_cells False (menu_mark u) = (if u then 8 else 6)"
proof -
  have "text_cells False (menu_mark True) = 8" "text_cells False (menu_mark False) = 6" by code_simp+
  then show ?thesis by (cases u) simp_all
qed

lemma sorted_find:
  assumes "sorted_wrt item_apart its" "it \<in> set its" "contains (pi_rect it) x y"
  shows "find (\<lambda>it. contains (pi_rect it) x y) its = Some it"
  using assms by (induction its) (auto simp: item_apart_def)

section \<open>Horizontal bar\<close>

lemma layout_horizontal_apart:
  assumes "40 \<le> cols" "length (wm_stack m) \<le> kMaxWindows" "pn_rect p = mk_rect 0 y cols 1"
  shows "sorted_wrt item_apart (layout_horizontal False p m) \<and> list_all (in_span 0 cols y) (layout_horizontal False p m)"
proof -
  define u where "u = pn_utf8 p"
  define clock_x where "clock_x = cols - kClockCells - 1"
  define left where "left = (if pn_badge p then clock_x - 2 else clock_x)"
  define menu_w where "menu_w = text_cells False (menu_mark u)"
  define start where "start = 1 + menu_w + 1"
  define es where "es = build_entries m"
  define fit where "fit = (\<lambda>stop cells. fits False u es start stop cells)"
  define hint_w where "hint_w = (if pn_hint p = [] then 0 else text_cells False (pn_hint p))"
  define hint where "hint \<longleftrightarrow> hint_w > 0 \<and> fit (left - 1 - hint_w - 1) kLabelCells = length es"
  define end0 where "end0 = (if hint then left - 1 - hint_w - 1 else left - 1)"
  define shown0 where "shown0 = fit end0 kLabelCells"
  define over_w where "over_w = 1 + int (length (to_string (int (length es))))"
  define stop where "stop = (if shown0 < length es then left - 1 - over_w - 1 else end0)"
  define shown where "shown = (if shown0 < length es then fit stop kLabelCells else shown0)"
  define label where "label = stretch (fit stop) shown kLabelCells
    [kLabelCells + 1..foldl (\<lambda>n e. max n (text_cells False (pe_label e))) kLabelCells es]"
  define over where "over = overflow_text u (length es - shown)"
  define w where "w = text_cells False over"
  define clock where "clock = mk_item PHClock (- 1) 0 False (mk_rect clock_x y kClockCells 1) []"
  define badge where "badge = mk_item PHUpdate (- 1) 0 False (mk_rect (clock_x - 2) y 1 1) (update_glyph u)"
  define men where "men = mk_item PHMenuButton (- 1) 0 False (mk_rect 1 y menu_w 1) (menu_mark u)"
  define tasks where "tasks = place False u y label 0 start (take shown es)"
  define ov where "ov = mk_item PHOverflow (int (length es - shown)) 0 False (mk_rect (left - 1 - w) y w 1) over"
  define hi where "hi = mk_item PHHint (- 1) 0 False (mk_rect (left - 1 - hint_w) y hint_w 1) (pn_hint p)"
  have L: "layout_horizontal False p m = clock # (if pn_badge p then [badge] else []) @ [men] @ tasks @
      (if length es - shown > 0 then [ov] else []) @ (if hint then [hi] else [])"
    unfolding layout_horizontal_def Let_def assms(3) mk_rect_sel clock_def badge_def men_def tasks_def ov_def hi_def
      over_def w_def label_def shown_def stop_def over_w_def shown0_def end0_def hint_def hint_w_def fit_def es_def start_def menu_w_def
      left_def clock_x_def u_def
    by (simp only: add_0)
  have fit_stop: "shown = fit stop kLabelCells" by (simp add: shown_def stop_def shown0_def)
  have "shown \<le> fit stop label" unfolding label_def by (rule stretch_keeps) (simp add: fit_stop)
  then have "shown \<le> fits_loop stop start (map (\<lambda>e. text_cells False (entry_text False u e label)) es)"
    by (simp add: fit_def fits_def)
  from fits_take[OF this] have f: "fits_loop stop start (map (\<lambda>e. text_cells False (entry_text False u e label)) (take shown es)) = length (take shown es)"
    using fits_le[of stop start "map (\<lambda>e. text_cells False (entry_text False u e kLabelCells)) es"]
    by (simp add: take_map fit_stop fit_def fits_def)
  note tasks = place_span[OF f, of y 0, folded tasks_def]
  have m: "menu_w \<le> 8" "0 \<le> menu_w" by (simp_all add: menu_w_def menu_mark_cells)
  have es: "3 \<le> length es" "length es \<le> 67" using build_entries_length[of m] assms(2) by (simp_all add: es_def kMaxWindows_def)
  have ow: "over_w \<le> 3" using digits_9[of "length es"] es by (simp add: over_w_def to_string_def)
  have ow0: "0 \<le> over_w" by (simp add: over_w_def)
  have wo: "w \<le> over_w" unfolding w_def over_def overflow_cells over_w_def using digits_mono[of "length es - shown" "length es"]
    by (simp add: to_string_def)
  have cl: "clock_x = cols - 6" "cols - 8 \<le> left" "left \<le> clock_x" by (simp_all add: clock_x_def kClockCells_def left_def)
  have h1: "start \<le> left - 1 - hint_w - 1 \<and> shown = length es \<and> stop = left - 1 - hint_w - 1" if hint
  proof -
    obtain e es' where e: "es = e # es'" using es(1) by (cases es) auto
    have "fit (left - 1 - hint_w - 1) kLabelCells = length es" using that by (simp add: hint_def)
    moreover from this have "start + text_cells False (entry_text False u e kLabelCells) \<le> left - 1 - hint_w - 1"
      by (auto simp: fit_def fits_def e split: if_splits)
    ultimately show ?thesis using text_cells_nonneg[of False "entry_text False u e kLabelCells"] that
      by (simp add: end0_def shown0_def shown_def stop_def)
  qed
  have stop: "stop \<le> left - 1" "hint \<Longrightarrow> stop \<le> left - 1 - hint_w" "length es - shown > 0 \<Longrightarrow> stop \<le> left - 1 - w"
    using h1 wo ow ow0 by (auto simp: stop_def end0_def hint_def shown_def split: if_splits)
  have s: "in_span clock_x cols y clock" "in_span (clock_x - 2) (clock_x - 1) y badge" "in_span 1 (1 + menu_w) y men"
    "list_all (in_span start stop y) tasks" "in_span (left - 1 - w) (left - 1) y ov" "in_span (left - 1 - hint_w) (left - 1) y hi"
    using tasks by (simp_all add: in_span_def clock_def badge_def men_def ov_def hi_def clock_x_def kClockCells_def)
  have rng: "1 + menu_w \<le> start" "start \<le> left - 1 - w" "0 \<le> start" using m ow wo cl assms(1) by (auto simp: start_def)
  have one: "\<not> (length es - shown > 0 \<and> hint)" using h1 by auto
  have tA: "item_apart a b" if "a \<in> set tasks" "in_span lo hi y b" "hi \<le> start \<or> stop \<le> lo" for a b lo hi
    using span_apart[of start stop y a lo hi y b] s(4) that by (auto simp: list_all_iff)
  have tA': "item_apart b a" if "a \<in> set tasks" "in_span lo hi y b" "hi \<le> start \<or> stop \<le> lo" for a b lo hi
    using tA[OF that] by (auto simp: item_apart_def)
  have all: "list_all (in_span 0 cols y) tasks"
    using s(4) by (rule list.pred_mono_strong) (use stop(1) cl rng in \<open>auto simp: in_span_def\<close>)
  have h0: "hint \<Longrightarrow> 0 \<le> left - 1 - hint_w" using h1 m by (simp add: start_def)
  have A: "list_all (in_span 0 cols y) (layout_horizontal False p m)"
    unfolding L using all s cl rng m assms(1) stop h0 by (auto simp: in_span_def)
  have "sorted_wrt item_apart tasks" using tasks by (simp add: sorted_apart)
  moreover have "item_apart clock men" "item_apart badge men" "item_apart men ov" "pn_badge p \<Longrightarrow> item_apart badge ov"
    "item_apart clock ov" "pn_badge p \<Longrightarrow> item_apart clock badge"
    using s cl rng m assms(1) by (auto simp: item_apart_def in_span_def contains_def left_def)
  moreover have "hint \<Longrightarrow> item_apart men hi" "hint \<Longrightarrow> item_apart clock hi" "hint \<Longrightarrow> pn_badge p \<Longrightarrow> item_apart badge hi"
    using s cl h1 m by (auto simp: item_apart_def in_span_def contains_def start_def left_def)
  moreover have "item_apart clock a" "item_apart men a" if "a \<in> set tasks" for a
    using tA'[OF that s(1)] tA'[OF that s(3)] stop(1) cl rng by auto
  moreover have "pn_badge p \<Longrightarrow> item_apart badge a" if "a \<in> set tasks" for a
    using tA'[OF that s(2)] stop(1) by (auto simp: left_def)
  moreover have "length es - shown > 0 \<Longrightarrow> item_apart a ov" "hint \<Longrightarrow> item_apart a hi" if "a \<in> set tasks" for a
    using tA[OF that s(5)] tA[OF that s(6)] stop by auto
  ultimately have "sorted_wrt item_apart (layout_horizontal False p m)"
    unfolding L using one by (auto simp: sorted_wrt_append)
  then show ?thesis using A by simp
qed

section \<open>Vertical bar\<close>

lemma rows_apart: "ry (pi_rect a) + rh (pi_rect a) \<le> ry (pi_rect b) \<or> ry (pi_rect b) + rh (pi_rect b) \<le> ry (pi_rect a) \<Longrightarrow> item_apart a b"
  by (auto simp: item_apart_def contains_def)

lemma sorted_rows: "sorted_wrt item_apart (map (\<lambda>i. entry_item amb u i (f i) l (mk_rect x (y0 + i) w 1)) [a..b])"
  unfolding sorted_wrt_map
  by (rule sorted_wrt_mono_rel[of _ "(<)"]) (auto intro!: rows_apart simp: strict_sorted_iff[symmetric])

lemma layout_vertical_apart:
  assumes "12 \<le> rows" "pn_rect p = mk_rect x 0 w rows"
  shows "sorted_wrt item_apart (layout_vertical amb p m)"
proof -
  define badge_h :: int where "badge_h = (if pn_badge p \<and> rows \<ge> 2 + 2 then 1 else 0)"
  define tot where "tot = int (length (build_entries m))"
  define room0 where "room0 = max 0 (rows - 2 - badge_h - 1)"
  define hint_w where "hint_w = (if pn_hint p = [] then 0 else text_cells amb (pn_hint p))"
  define hint where "hint \<longleftrightarrow> hint_w > 0 \<and> hint_w \<le> w \<and> tot \<le> room0 - 1"
  define room1 where "room1 = (if hint then room0 - 1 else room0)"
  define room where "room = (if tot > room1 then max 0 (room1 - 1) else room1)"
  define shown where "shown = min tot room"
  define tasks where "tasks = map (\<lambda>i. entry_item amb (pn_utf8 p) i (build_entries m ! nat i) (w - 2) (mk_rect x (1 + i) w 1)) [0..shown - 1]"
  let ?clock = "mk_item PHClock (- 1) 0 False (mk_rect x (rows - 2) w 2) []"
  let ?badge = "mk_item PHUpdate (- 1) 0 False (mk_rect x (rows - 2 - 1) w 1) (update_glyph (pn_utf8 p))"
  let ?men = "mk_item PHMenuButton (- 1) 0 False (mk_rect x 0 w 1) (menu_mark (pn_utf8 p))"
  let ?ov = "mk_item PHOverflow (tot - shown) 0 False (mk_rect x (1 + shown) w 1) (overflow_text (pn_utf8 p) (nat (tot - shown)))"
  let ?hi = "mk_item PHHint (- 1) 0 False (mk_rect x (rows - 2 - badge_h - 1) w 1) (pn_hint p)"
  have ge3: "(if rows \<ge> 3 then 2 else 1) = (2 :: int)" using assms(1) by simp
  have L: "layout_vertical amb p m = ?clock # (if badge_h > 0 then [?badge] else []) @ [?men] @ tasks @
      (if tot - shown > 0 then [?ov] else []) @ (if hint then [?hi] else [])"
    unfolding layout_vertical_def Let_def assms(2) mk_rect_sel add_0 ge3 tasks_def shown_def room_def room1_def hint_def hint_w_def
      room0_def tot_def badge_h_def by (rule refl)
  have b: "0 \<le> badge_h" "badge_h \<le> 1" "room0 = rows - 3 - badge_h" using assms(1) by (simp_all add: badge_h_def room0_def)
  have t: "ry (pi_rect a) \<ge> 1 \<and> ry (pi_rect a) + rh (pi_rect a) \<le> 1 + shown" if "a \<in> set tasks" for a
    using that by (auto simp: tasks_def)
  have sh: "0 \<le> shown" "shown \<le> room0" "hint \<Longrightarrow> shown \<le> room0 - 1 \<and> tot - shown = 0" "tot - shown > 0 \<Longrightarrow> shown \<le> room0 - 1"
    using b assms(1) by (auto simp: shown_def room_def room1_def hint_def tot_def min_def max_def split: if_splits)
  have "sorted_wrt item_apart tasks" unfolding tasks_def by (rule sorted_rows)
  then show ?thesis unfolding L using t b sh assms(1)
    by (auto simp: sorted_wrt_append intro!: rows_apart dest!: t)
qed

section \<open>Properties\<close>

text \<open>
  What is clicked on the bar is what is drawn there.  On any screen the desktop composes on, on any
  edge, with or without the reminder and the badge: no two items laid out share a cell, so that a click
  on any cell of an item answers that item, with its rank and its window, and every other cell of the
  bar answers the bar itself.
\<close>

theorem panel_click_where_drawn:
  assumes "40 \<le> cols" "12 \<le> rows" "wm_ok m" "p' = panel_layout False p m cols rows utf8"
  shows "(it \<in> set (pn_items p') \<and> contains (pi_rect it) x y \<and> contains (pn_rect p') x y
        \<longrightarrow> panel_hit p' x y = (pi_what it, pi_index it, pi_win it))
     \<and> (contains (pn_rect p') x y \<and> \<not> list_ex (\<lambda>it. contains (pi_rect it) x y) (pn_items p') \<longrightarrow> panel_hit p' x y = (PHBody, - 1, 0))"
proof -
  let ?p = "p\<lparr>pn_utf8 := utf8, pn_rect := panel_rect (pn_edge p) cols rows, pn_items := []\<rparr>"
  have len: "length (wm_stack m) \<le> kMaxWindows" using assms(3) by (simp add: wm_ok_def stack_ok_def)
  have "sorted_wrt item_apart (if horizontal (pn_edge ?p) then layout_horizontal False ?p m else layout_vertical False ?p m)"
    using layout_horizontal_apart[OF assms(1) len, of ?p] layout_vertical_apart[OF assms(2), of ?p]
    by (cases "pn_edge p") simp_all
  then have "sorted_wrt item_apart (pn_items p')" by (simp add: assms(4) panel_layout_def Let_def)
  note found = sorted_find[OF this]
  have "find (\<lambda>it. contains (pi_rect it) x y) (pn_items p') = None"
    if "\<not> list_ex (\<lambda>it. contains (pi_rect it) x y) (pn_items p')"
    using that by (simp add: find_None_iff list_ex_iff)
  then show ?thesis using found by (auto simp: panel_hit_def)
qed

theorem panel_click_where_drawn_witness:
  "panel_hit (panel_layout False panel_init wm_init 80 24 False) 3 23 = (PHMenuButton, - 1, 0)"
proof -
  let ?p = "panel_layout False panel_init wm_init 80 24 False"
  let ?it = "mk_item PHMenuButton (- 1) 0 False (mk_rect 1 23 6 1) (str ''termos'')"
  have ok: "wm_ok wm_init" by (simp add: wm_ok_def stack_ok_def wm_init_def one_fullscreen_def)
  have "pn_items ?p ! 1 = ?it" "1 < length (pn_items ?p)" "contains (pi_rect ?it) 3 23" "contains (pn_rect ?p) 3 23" by code_simp+
  moreover from this have "?it \<in> set (pn_items ?p)" by (metis nth_mem)
  ultimately show ?thesis
    using panel_click_where_drawn[of 80 24 wm_init ?p panel_init False ?it 3 23, OF _ _ ok refl] by simp
qed

end
