(* ===== verification/Session.thy ===== *)
theory Session
  imports App Sysinfo Update_Service Help Panel
begin

text \<open>
  \<open>src/daemon/session.cpp\<close>: the desktop of a user.  Its state is the window manager with the
  applications and their hosts (\<open>desk\<close>), the shell over it (panel, menu, dialogue, help, proposal to
  dock, update service) and the state of the gestures.  Every handler is here; composition is in
  \<open>Session_Render\<close>.  Clocks, \<open>/proc\<close>, the update service's environment and how a write of the settings goes
  are the record \<open>session_env\<close>; times are in nanoseconds of the steady clock.
\<close>

section \<open>State\<close>

datatype modal_kind = CloseWindow | QuitSession | ApplyUpdate | ApplyRunning | RestartForUpdate | Information

datatype drag_state = DragIdle | DragMoving "32 word" int int rect | DragResizing "32 word" rect

record session_env =
  en_update :: update_env
  en_write :: write_outcome
  en_hour :: nat
  en_minute :: nat
  en_date :: bytes
  en_proc :: proc_fs

abbreviation steady_now :: "session_env \<Rightarrow> int" where
  "steady_now env \<equiv> ue_steady (en_update env)"

record 'a session =
  se_desk :: "'a desk"
  se_drag :: drag_state
  se_drag_stamp :: int
  se_out :: output_profile
  se_theme :: theme
  se_quit :: bool
  se_panel :: panel
  se_clock :: clock
  se_menu :: menu
  se_modal :: modal
  se_update :: update_service
  se_help :: help_box
  se_leader :: leader_dispatch
  se_leader_stamp :: int
  se_repeat_until :: int
  se_seeded :: bool
  se_last_click :: int
  se_click_x :: int
  se_click_y :: int
  se_repaint :: bool
  se_detach :: bool
  se_kind :: modal_kind
  se_last_work :: rect
  se_cursor :: "(int \<times> int) option"
  se_grab :: "32 word"
  se_assist :: snap_assist
  se_assist_rect :: rect
  se_sys :: sys_info

abbreviation se_wm :: "'a session \<Rightarrow> wm" where
  "se_wm s \<equiv> dk_wm (se_desk s)"

definition upd_desk :: "('a desk \<Rightarrow> 'a desk) \<Rightarrow> 'a session \<Rightarrow> 'a session" where
  "upd_desk f s = s\<lparr>se_desk := f (se_desk s)\<rparr>"

definition upd_wm :: "(wm \<Rightarrow> wm) \<Rightarrow> 'a session \<Rightarrow> 'a session" where
  "upd_wm f s = upd_desk (\<lambda>d. d\<lparr>dk_wm := f (dk_wm d)\<rparr>) s"

definition set_dirty :: "'a session \<Rightarrow> 'a session" where
  "set_dirty s = upd_desk (\<lambda>d. d\<lparr>dk_dirty := True\<rparr>) s"

definition to_app :: "'a app_ops \<Rightarrow> session_env \<Rightarrow> (host_view \<Rightarrow> 'a \<Rightarrow> 'a \<times> 'a host_req list) \<Rightarrow> 32 word \<Rightarrow> 'a session \<Rightarrow> 'a session" where
  "to_app ops env f i s = upd_desk (app_call ops (en_write env) f i) s"

definition ms :: "int \<Rightarrow> int" where "ms n = n * 1000000"

definition kDragWatchdog :: int where "kDragWatchdog = ms 2000"
definition kHelpDelay :: int where "kHelpDelay = ms 500"
definition kRepeatWindow :: int where "kRepeatWindow = ms 1500"
definition kDoubleClick :: int where "kDoubleClick = ms 600"
definition kDefaultApp :: bytes where "kDefaultApp = str ''terminal''"

definition update_state_path :: "bytes option \<Rightarrow> bytes option \<Rightarrow> bytes" where
  "update_state_path xdg home = (let dir = user_data_dir xdg home in if dir = [] then [] else dir @ str ''/state'')"

definition session_init :: "session_env \<Rightarrow> bytes \<Rightarrow> bytes \<Rightarrow> disk \<Rightarrow> bytes \<Rightarrow> 'a session" where
  "session_init env state_path config_path dsk home =
     (let out = \<lparr>pf_depth = Mono16, pf_utf8 = False\<rparr> in
      \<lparr>se_desk = \<lparr>dk_wm = wm_init, dk_apps = Map.empty, dk_watched = (\<lambda>_. []), dk_fds = [], dk_gen = kGenFirstDynamic,
         dk_children = [], dk_pending = [], dk_settings = settings_open dsk config_path home, dk_disk = dsk, dk_dirty = False\<rparr>,
       se_drag = DragIdle, se_drag_stamp = 0, se_out = out, se_theme = for_profile theme_defaults out, se_quit = False,
       se_panel = panel_init, se_clock = clock_init, se_menu = menu_init, se_modal = modal_init,
       se_update = sv_tick (en_update env) (service_init state_path (str ''/proc/self/exe'')),
       se_help = help_init, se_leader = \<lparr>ld_leader = 0x61, ld_phase = LeaderIdle\<rparr>, se_leader_stamp = 0, se_repeat_until = 0,
       se_seeded = False, se_last_click = 0, se_click_x = - 1, se_click_y = - 1, se_repaint = False, se_detach = False,
       se_kind = CloseWindow, se_last_work = mk_rect 0 0 80 23, se_cursor = None, se_grab = 0, se_assist = assist_init,
       se_assist_rect = mk_rect 0 0 0 0, se_sys = sysinfo_init\<rparr>)"

section \<open>Updates and flags\<close>

definition refresh_update_modal :: "'a session \<Rightarrow> 'a session" where
  "refresh_update_modal s =
     (if se_kind s \<noteq> ApplyRunning \<or> \<not> md_open (se_modal s) then s
      else
        let p = progress_line (se_update s);
            m1 = (if p \<noteq> [] then modal_set_body (se_modal s) p else se_modal s)
        in s\<lparr>se_modal := modal_set_progress m1 (progress_percent (se_update s))\<rparr>)"

definition tick_update :: "session_env \<Rightarrow> 'a session \<Rightarrow> 'a session" where
  "tick_update env s = set_dirty (refresh_update_modal (s\<lparr>se_update := sv_tick (en_update env) (se_update s)\<rparr>))"

definition take_repaint :: "'a session \<Rightarrow> 'a session \<times> bool" where
  "take_repaint s = (s\<lparr>se_repaint := False\<rparr>, se_repaint s)"

definition take_detach :: "'a session \<Rightarrow> 'a session \<times> bool" where
  "take_detach s = (s\<lparr>se_detach := False\<rparr>, se_detach s)"

definition help_delay_ms :: "session_env \<Rightarrow> 'a session \<Rightarrow> int" where
  "help_delay_ms env s =
     (if ld_phase (se_leader s) \<noteq> LeaderArmed \<or> hp_open (se_help s) then - 1
      else let due = se_leader_stamp s + kHelpDelay
        in if steady_now env \<ge> due then 0 else (due - steady_now env) div 1000000)"

definition leader_upper :: "'a session \<Rightarrow> byte" where
  "leader_upper s =
     (let c = ld_leader (se_leader s) in if 0x61 \<le> c \<and> c \<le> 0x7A then ucast (c - 0x61 + 0x41) else ucast c)"

definition leader_label :: "'a session \<Rightarrow> bytes" where
  "leader_label s = str ''Ctrl+'' @ [leader_upper s]"

definition panel_hint :: "'a session \<Rightarrow> bytes" where
  "panel_hint s = str ''^'' @ [leader_upper s] @ str '' = aide''"

definition session_border :: "'a session \<Rightarrow> border" where
  "session_border s = (if pf_utf8 (se_out s) then BorderUnicode else BorderAscii)"

definition set_output :: "output_profile \<Rightarrow> 'a session \<Rightarrow> 'a session" where
  "set_output p s = s\<lparr>se_out := p, se_theme := for_profile theme_defaults p\<rparr>"

section \<open>Windows\<close>

definition open_from_catalog :: "'a app_ops \<Rightarrow> session_env \<Rightarrow> bytes \<Rightarrow> 'a session \<Rightarrow> 'a session" where
  "open_from_catalog ops env i s =
     (case catalog_find i of
        None \<Rightarrow> s
      | Some e \<Rightarrow> upd_desk (\<lambda>d. fst (open_window ops (en_write env) (se_last_work s) (ap_make ops (ce_make e)) (ce_id e) d)) s)"

definition focus_or_open :: "'a app_ops \<Rightarrow> session_env \<Rightarrow> bytes \<Rightarrow> 'a session \<Rightarrow> 'a session" where
  "focus_or_open ops env app_id s =
     (case find (\<lambda>w. w_app_id w = app_id) (wm_stack (se_wm s)) of
        Some w \<Rightarrow>
          set_dirty (upd_wm (\<lambda>m. focus (if w_mode w = Minimized then set_mode m (w_id w) Normal (se_last_work s) else m) (w_id w)) s)
      | None \<Rightarrow> set_dirty (open_from_catalog ops env app_id s))"

definition cancel_drag :: "'a session \<Rightarrow> 'a session" where
  "cancel_drag s =
     (case se_drag s of
        DragMoving win dx dy origin \<Rightarrow> (upd_wm (upd_win (\<lambda>w. w\<lparr>w_user_rect := origin\<rparr>) win) s)\<lparr>se_drag := DragIdle\<rparr>
      | _ \<Rightarrow> s\<lparr>se_drag := DragIdle\<rparr>)"

definition watchdog :: "session_env \<Rightarrow> 'a session \<Rightarrow> 'a session" where
  "watchdog env s =
     (if se_drag s = DragIdle then s
      else if steady_now env - se_drag_stamp s \<ge> kDragWatchdog then cancel_drag s else s)"

definition request_close :: "'a app_ops \<Rightarrow> 32 word \<Rightarrow> 'a session \<Rightarrow> 'a session" where
  "request_close ops i s =
     (let s1 = cancel_drag s in
      case dk_apps (se_desk s1) i of
        None \<Rightarrow> s1
      | Some a \<Rightarrow>
          (case ap_can_close ops a of
             None \<Rightarrow> upd_desk (close_window i) s1
           | Some q \<Rightarrow> set_dirty (s1\<lparr>se_modal := modal_ask (se_modal s1) q i\<rparr>)))"

definition assist_candidates :: "wm \<Rightarrow> 32 word \<Rightarrow> rect \<Rightarrow> (32 word \<times> bytes) list" where
  "assist_candidates m snapped free =
     (let ws = filter (\<lambda>w. \<not> (w_id w = snapped \<or> w_mode w = Minimized)) (rev (wm_stack m))
      in if list_ex (\<lambda>w. w_display_rect w = free) ws then [] else map (\<lambda>w. (w_id w, w_title w)) ws)"

definition snap_focused :: "bool \<Rightarrow> snap_dir \<Rightarrow> 'a session \<Rightarrow> 'a session" where
  "snap_focused amb d s =
     (case wm_find (se_wm s) (wm_focused (se_wm s)) of
        None \<Rightarrow> s
      | Some w \<Rightarrow>
          let work = se_last_work s;
              s1 = upd_wm (\<lambda>m. set_rect (set_mode m (w_id w) Normal work) (w_id w) (snap_rect work d) work) s;
              free = snap_opposite work d
          in set_dirty (s1\<lparr>se_assist_rect := free,
               se_assist := assist_open amb (se_assist s1) free (assist_candidates (se_wm s1) (w_id w) free)\<rparr>))"

definition dock_into_free_half :: "32 word \<Rightarrow> 'a session \<Rightarrow> 'a session" where
  "dock_into_free_half i s =
     (let s1 = s\<lparr>se_assist := assist_close (se_assist s)\<rparr> in
      case wm_find (se_wm s) i of
        None \<Rightarrow> s1
      | Some w \<Rightarrow> set_dirty (upd_wm (\<lambda>m. focus (set_rect (set_mode m i Normal (se_last_work s)) i (se_assist_rect s) (se_last_work s)) i) s1))"

definition tile_windows :: "'a session \<Rightarrow> 'a session" where
  "tile_windows s =
     (let visible = map w_id (filter (\<lambda>w. w_mode w \<noteq> Minimized) (wm_stack (se_wm s))); work = se_last_work s in
      if visible = [] then s
      else
        let s1 = s\<lparr>se_assist := assist_close (se_assist s)\<rparr>;
            cells = tile_rects work (int (length visible))
        in set_dirty (upd_wm (\<lambda>m. foldl (\<lambda>m (i, c). set_rect (set_mode m i Normal work) i c work) m (zip visible cells)) s1))"

section \<open>The menu and the questions\<close>

definition restart_question :: "'a session \<Rightarrow> bytes" where
  "restart_question s =
     (let windows = length (wm_stack (se_wm s)); procs = length (dk_children (se_desk s)) in
      str ''Redemarrer maintenant ? '' @ to_string (int windows) @ (if windows > 1 then str '' fenetres'' else str '' fenetre'') @
      (if procs > 0 then str '' et '' @ to_string (int procs) @ str '' processus en cours'' else []) @ str '' seront fermes.'')"

definition refresh_menu_extras :: "'a session \<Rightarrow> 'a session" where
  "refresh_menu_extras s =
     (let e = sv_entry (se_update s);
          items = \<lparr>mi_id = en_id e, mi_label = en_label e, mi_enabled = en_enabled e\<rparr> #
            (if en_id e = str ''update:restart'' \<and> en_enabled e
             then [item (str ''update:check'') (str ''Verifier les mises a jour'')] else [])
      in s\<lparr>se_menu := set_extra_items (se_menu s) items\<rparr>)"

definition apply_question :: "update_service \<Rightarrow> bytes" where
  "apply_question u =
     str ''Installer la mise a jour ?'' @ (if sv_news u \<noteq> [] then str '' '' @ sv_news u @ str ''.'' else []) @
     (if version_line u \<noteq> [] then nl # version_line u else []) @ nl # str ''Vos fenetres restent ouvertes.''"

definition run_update_command :: "session_env \<Rightarrow> bytes \<Rightarrow> 'a session \<Rightarrow> 'a session" where
  "run_update_command env i s =
     (let e = sv_entry (se_update s) in
      if \<not> en_enabled e then s
      else if i \<noteq> en_id e \<and> i \<noteq> str ''update:check'' then s
      else if i = str ''update:check'' then set_dirty (s\<lparr>se_update := sv_run (en_update env) (str ''update:check'') (se_update s)\<rparr>)
      else if i = str ''update:restart'' then
        set_dirty (s\<lparr>se_kind := RestartForUpdate, se_modal := modal_ask (se_modal s) (restart_question s) 0\<rparr>)
      else if i = str ''update:apply'' then
        set_dirty (s\<lparr>se_kind := ApplyUpdate, se_modal := modal_ask (se_modal s) (apply_question (se_update s)) 0\<rparr>)
      else s)"

definition starts :: "bytes \<Rightarrow> bytes \<Rightarrow> bool" where
  "starts i pre \<longleftrightarrow> length i > length pre \<and> take (length pre) i = pre"

definition run_menu :: "'a app_ops \<Rightarrow> session_env \<Rightarrow> bytes \<Rightarrow> 'a session \<Rightarrow> 'a session" where
  "run_menu ops env i s =
     (let s1 = set_dirty (s\<lparr>se_menu := menu_close (se_menu s)\<rparr>) in
      if starts i (str ''app:'') then open_from_catalog ops env (drop 4 i) s1
      else if starts i (str ''panel:'') then
        let w = drop 6 i;
            edge = (if w = str ''top'' then EdgeTop else if w = str ''bottom'' then EdgeBottom else if w = str ''left'' then EdgeLeft
                    else if w = str ''right'' then EdgeRight else pn_edge (se_panel s1))
        in s1\<lparr>se_panel := (se_panel s1)\<lparr>pn_edge := edge\<rparr>, se_repaint := True\<rparr>
      else if starts i (str ''cmd:'') then
        (case wm_find (se_wm s1) (wm_focused (se_wm s1)) of
           Some w \<Rightarrow> to_app ops env (ap_command ops (drop 4 i)) (w_id w) s1 | None \<Rightarrow> s1)
      else if i = str ''wm:tile'' then tile_windows s1
      else if i = str ''session:detach'' then s1\<lparr>se_detach := True\<rparr>
      else if take 7 i = str ''update:'' then run_update_command env i s1
      else if i = str ''session:quit'' then
        set_dirty (s1\<lparr>se_kind := QuitSession,
          se_modal := modal_ask (se_modal s1) (str ''Fermer la session ? Toutes les fenetres seront perdues.'') 0\<rparr>)
      else s1)"

definition menu_key :: "'a app_ops \<Rightarrow> session_env \<Rightarrow> key_event \<Rightarrow> 'a session \<Rightarrow> 'a session" where
  "menu_key ops env k s =
     (let with = (\<lambda>m. set_dirty (s\<lparr>se_menu := m\<rparr>)); m = se_menu s in
      case k_key k of
        KEscape \<Rightarrow> with (menu_close m)
      | KEnter \<Rightarrow> (case menu_selected m of Some it \<Rightarrow> run_menu ops env (mi_id it) s | None \<Rightarrow> with (menu_close m))
      | KUp \<Rightarrow> with (menu_move m (- 1))
      | KDown \<Rightarrow> with (menu_move m 1)
      | KBackspace \<Rightarrow> with (menu_backspace m)
      | KChar \<Rightarrow> if k_mods k AND mod_Ctrl \<noteq> 0 then with (menu_close m) else with (menu_type m (k_ch k))
      | _ \<Rightarrow> set_dirty s)"

definition answer_modal :: "session_env \<Rightarrow> bool \<Rightarrow> 'a session \<Rightarrow> 'a session" where
  "answer_modal env confirmed s =
     (if confirmed \<and> se_kind s = ApplyUpdate then
        let u = sv_run (en_update env) (str ''update:apply'') (se_update s)
        in set_dirty (s\<lparr>se_update := u, se_modal := modal_progress (modal_dismiss (se_modal s)) (progress_line u),
             se_kind := ApplyRunning\<rparr>)
      else
        let s1 = (if \<not> confirmed then s
                  else case se_kind s of
                    QuitSession \<Rightarrow> s\<lparr>se_quit := True\<rparr>
                  | RestartForUpdate \<Rightarrow> s\<lparr>se_update := sv_run (en_update env) (str ''update:restart'') (se_update s)\<rparr>
                  | Information \<Rightarrow> s
                  | _ \<Rightarrow> (case wm_find (se_wm s) (md_target (se_modal s)) of
                           Some w \<Rightarrow> upd_desk (close_window (w_id w)) s | None \<Rightarrow> s))
        in set_dirty (s1\<lparr>se_kind := CloseWindow, se_modal := modal_dismiss (se_modal s1)\<rparr>))"

section \<open>Actions of the keyboard\<close>

definition move_rect :: "action \<Rightarrow> size \<Rightarrow> rect \<Rightarrow> rect option" where
  "move_rect a fmin r =
     (case a of
        MoveLeft \<Rightarrow> Some (r\<lparr>rx := rx r - 1\<rparr>)
      | MoveRight \<Rightarrow> Some (r\<lparr>rx := rx r + 1\<rparr>)
      | MoveUp \<Rightarrow> Some (r\<lparr>ry := ry r - 1\<rparr>)
      | MoveDown \<Rightarrow> Some (r\<lparr>ry := ry r + 1\<rparr>)
      | GrowWidth \<Rightarrow> Some (r\<lparr>rw := rw r + 1\<rparr>)
      | ShrinkWidth \<Rightarrow> Some (r\<lparr>rw := max (sz_w fmin) (rw r - 1)\<rparr>)
      | GrowHeight \<Rightarrow> Some (r\<lparr>rh := rh r + 1\<rparr>)
      | ShrinkHeight \<Rightarrow> Some (r\<lparr>rh := max (sz_h fmin) (rh r - 1)\<rparr>)
      | _ \<Rightarrow> None)"

definition window_action :: "'a app_ops \<Rightarrow> session_env \<Rightarrow> action \<Rightarrow> window \<Rightarrow> 'a session \<Rightarrow> 'a session" where
  "window_action ops env a w s =
     (let work = se_last_work s in
      case a of
        LiteralLeader \<Rightarrow> to_app ops env (ap_key ops (mk_key KChar (ld_leader (se_leader s)) mod_Ctrl)) (w_id w) s
      | Close \<Rightarrow> request_close ops (w_id w) s
      | Minimize \<Rightarrow> upd_wm (\<lambda>m. set_mode m (w_id w) Minimized work) s
      | MaximizeToggle \<Rightarrow> upd_wm (\<lambda>m. set_mode m (w_id w) (if w_mode w = Maximized then Normal else Maximized) work) s
      | FullscreenToggle \<Rightarrow>
          (upd_wm (\<lambda>m. set_mode m (w_id w) (if w_mode w = Fullscreen then Normal else Fullscreen) work) s)\<lparr>se_repaint := True\<rparr>
      | _ \<Rightarrow> (case move_rect a (win_min w) (w_user_rect w) of
               None \<Rightarrow> s
             | Some r \<Rightarrow> upd_wm (upd_win (\<lambda>x. x\<lparr>w_user_rect := clamp_to r work (win_min w)\<rparr>) (w_id w)) s))"

definition do_action :: "'a app_ops \<Rightarrow> bool \<Rightarrow> session_env \<Rightarrow> action \<Rightarrow> 'a session \<Rightarrow> 'a session" where
  "do_action ops amb env a s0 =
     (let s = set_dirty s0 in
      case a of
        Input.SnapLeft \<Rightarrow> snap_focused amb Wm_Geometry.SnapLeft s
      | Input.SnapRight \<Rightarrow> snap_focused amb Wm_Geometry.SnapRight s
      | Input.SnapUp \<Rightarrow> snap_focused amb Wm_Geometry.SnapUp s
      | Input.SnapDown \<Rightarrow> snap_focused amb Wm_Geometry.SnapDown s
      | OpenMenu \<Rightarrow> (let s1 = refresh_menu_extras s in s1\<lparr>se_menu := menu_open (se_menu s1)\<rparr>)
      | ForceRepaint \<Rightarrow> s\<lparr>se_repaint := True\<rparr>
      | Detach \<Rightarrow> s\<lparr>se_detach := True\<rparr>
      | ShowHelp \<Rightarrow> s\<lparr>se_help := help_open (se_help s)\<rparr>
      | NextWindow \<Rightarrow> upd_wm focus_next s
      | PrevWindow \<Rightarrow> upd_wm focus_prev s
      | _ \<Rightarrow> (case wm_find (se_wm s) (wm_focused (se_wm s)) of
               None \<Rightarrow> s | Some w \<Rightarrow> window_action ops env a w s))"

section \<open>Time, children and descriptors\<close>

definition take_dirty :: "session_env \<Rightarrow> 'a session \<Rightarrow> 'a session \<times> bool" where
  "take_dirty env s =
     (let (c, changed) = clock_update (en_hour env) (en_minute env) (en_date env) (se_clock s);
          s1 = (if changed then set_dirty (s\<lparr>se_clock := c\<rparr>) else s\<lparr>se_clock := c\<rparr>);
          s2 = (if help_delay_ms env s1 = 0 then set_dirty (s1\<lparr>se_help := help_open (se_help s1)\<rparr>) else s1)
      in (upd_desk (\<lambda>d. d\<lparr>dk_dirty := False\<rparr>) s2, dk_dirty (se_desk s2)))"

definition refresh_app :: "'a app_ops \<Rightarrow> session_env \<Rightarrow> 'a session \<Rightarrow> 32 word \<Rightarrow> 'a session" where
  "refresh_app ops env s i =
     (case dk_apps (se_desk s) i of
        Some a \<Rightarrow> if ap_refresh_ms ops a \<ge> 0 then to_app ops env (ap_refresh ops) i s else s
      | None \<Rightarrow> s)"

definition mark_refresh_due :: "'a app_ops \<Rightarrow> session_env \<Rightarrow> 'a session \<Rightarrow> 'a session" where
  "mark_refresh_due ops env s =
     (let s1 = refresh_update_modal ((set_dirty s)\<lparr>se_update := sv_tick (en_update env) (se_update s)\<rparr>)
      in foldl (refresh_app ops env) s1 (map w_id (wm_stack (se_wm s1))))"

definition refresh_delay_ms :: "'a app_ops \<Rightarrow> 'a session \<Rightarrow> int" where
  "refresh_delay_ms ops s =
     foldl (\<lambda>best w. case dk_apps (se_desk s) (w_id w) of
        None \<Rightarrow> best
      | Some a \<Rightarrow> let want = ap_refresh_ms ops a in
          if want < 0 then best else if best < 0 \<or> want < best then want else best) 1000 (wm_stack (se_wm s))"

text \<open>What the end of the updater tells the user.\<close>

definition report_update :: "'a session \<Rightarrow> 'a session" where
  "report_update s =
     (if sv_report (se_update s) = [] then s
      else
        let (u, report) = take_report (se_update s); s1 = s\<lparr>se_update := u\<rparr>; e = sv_entry u in
        if se_kind s1 = ApplyRunning \<and> sv_restart_needed u then
          s1\<lparr>se_kind := RestartForUpdate,
             se_modal := modal_ask_as (se_modal s1) (report @ nl # restart_question s1) 0 (str ''Plus tard'') (str ''Redemarrer'')\<rparr>
        else if en_enabled e \<and> en_id e = str ''update:apply'' then
          s1\<lparr>se_kind := ApplyUpdate, se_modal := modal_ask_as (se_modal s1) report 0 (str ''Plus tard'') (en_label e)\<rparr>
        else s1\<lparr>se_kind := Information, se_modal := modal_inform (se_modal s1) report\<rparr>)"

definition session_child_exit :: "'a app_ops \<Rightarrow> session_env \<Rightarrow> int \<Rightarrow> int \<Rightarrow> 'a session \<Rightarrow> 'a session" where
  "session_child_exit ops env pid status s =
     (if sv_owns (se_update s) pid then
        set_dirty (report_update (s\<lparr>se_update := sv_child_exit (en_update env) pid status (se_update s)\<rparr>))
      else (case find_if (\<lambda>c. fst c = pid) (dk_children (se_desk s)) of
          None \<Rightarrow> s
        | Some k \<Rightarrow>
            let cs = dk_children (se_desk s); win = snd (cs ! k);
                s1 = upd_desk (\<lambda>d. d\<lparr>dk_children := take k cs @ drop (Suc k) cs\<rparr>) s
            in (case wm_find (se_wm s1) win of
                  None \<Rightarrow> s1
                | Some w \<Rightarrow> set_dirty (to_app ops env (ap_child_exit ops status) win s1))))"

definition on_fd_event :: "'a app_ops \<Rightarrow> session_env \<Rightarrow> 64 word \<Rightarrow> 32 word \<Rightarrow> 'a session \<Rightarrow> 'a session" where
  "on_fd_event ops env key events s =
     (case wm_find (se_wm s) (key_window key) of
        None \<Rightarrow> s
      | Some w \<Rightarrow> upd_desk (host_deliver ops (en_write env) (w_id w) key events) s)"

section \<open>The mouse\<close>

definition local_event :: "mouse_event \<Rightarrow> int \<Rightarrow> int \<Rightarrow> mouse_event" where
  "local_event m lx ly = m\<lparr>m_x := lx, m_y := ly\<rparr>"

text \<open>A gesture on the frame of a window, while it lasts.\<close>

definition drag_moving :: "session_env \<Rightarrow> mouse_event \<Rightarrow> 32 word \<Rightarrow> int \<Rightarrow> int \<Rightarrow> rect \<Rightarrow> 'a session \<Rightarrow> 'a session" where
  "drag_moving env m win dx dy origin s =
     (case wm_find (se_wm s) win of
        None \<Rightarrow> cancel_drag s
      | Some w \<Rightarrow>
          let r = (w_user_rect w)\<lparr>rx := m_x m - dx, ry := m_y m - dy\<rparr>;
              fin = (m_action m = Release);
              r1 = (if fin \<and> r \<noteq> origin then snap r (se_last_work s) 1 else r);
              s1 = upd_wm (upd_win (\<lambda>x. x\<lparr>w_user_rect := r1\<rparr>) win) (s\<lparr>se_drag_stamp := steady_now env\<rparr>)
          in if fin then s1\<lparr>se_drag := DragIdle\<rparr> else s1)"

definition drag_resizing :: "session_env \<Rightarrow> mouse_event \<Rightarrow> 32 word \<Rightarrow> rect \<Rightarrow> 'a session \<Rightarrow> 'a session" where
  "drag_resizing env m win outline s =
     (case wm_find (se_wm s) win of
        None \<Rightarrow> cancel_drag s
      | Some w \<Rightarrow>
          let o1 = outline\<lparr>rw := m_x m - rx outline + 1, rh := m_y m - ry outline + 1\<rparr>;
              s1 = s\<lparr>se_drag_stamp := steady_now env, se_drag := DragResizing win o1\<rparr>
          in if m_action m = Release
             then (upd_wm (upd_win (\<lambda>x. x\<lparr>w_user_rect := o1\<rparr>) win) s1)\<lparr>se_drag := DragIdle\<rparr> else s1)"

definition mouse_wheel :: "'a app_ops \<Rightarrow> session_env \<Rightarrow> mouse_event \<Rightarrow> 'a session \<Rightarrow> 'a session" where
  "mouse_wheel ops env m s =
     (if md_open (se_modal s) \<or> mn_open (se_menu s) then s
      else (case hit (se_wm s) (m_x m) (m_y m) of
          None \<Rightarrow> s
        | Some w \<Rightarrow>
            (case hit_window (w_display_rect w) (m_x m) (m_y m) of
               HitClient lx ly \<Rightarrow> set_dirty (to_app ops env (ap_mouse ops (local_event m lx ly)) (w_id w) s)
             | _ \<Rightarrow> s)))"

definition mouse_held :: "'a app_ops \<Rightarrow> session_env \<Rightarrow> mouse_event \<Rightarrow> 'a session \<Rightarrow> 'a session" where
  "mouse_held ops env m s =
     (let s1 = (case wm_find (se_wm s) (se_grab s) of
                  None \<Rightarrow> s
                | Some w \<Rightarrow>
                    let cr = client_rect (w_display_rect w)
                    in set_dirty (to_app ops env (ap_mouse ops (local_event m (m_x m - rx cr) (m_y m - ry cr))) (w_id w) s))
      in if m_action m = Release then s1\<lparr>se_grab := 0\<rparr> else s1)"

definition press_task :: "'a app_ops \<Rightarrow> session_env \<Rightarrow> mouse_event \<Rightarrow> 32 word \<Rightarrow> 'a session \<Rightarrow> 'a session" where
  "press_task ops env m win s =
     (case wm_find (se_wm s) win of
        None \<Rightarrow> s
      | Some t \<Rightarrow>
          if m_button m = 2 then (if w_app_id t \<noteq> [] then open_from_catalog ops env (w_app_id t) s else s)
          else if w_mode t = Minimized then upd_wm (\<lambda>wm. focus (set_mode wm (w_id t) Normal (se_last_work s)) (w_id t)) s
          else if wm_focused (se_wm s) = w_id t then upd_wm (\<lambda>wm. set_mode wm (w_id t) Minimized (se_last_work s)) s
          else upd_wm (\<lambda>wm. focus wm (w_id t)) s)"

definition press_panel :: "'a app_ops \<Rightarrow> session_env \<Rightarrow> mouse_event \<Rightarrow> panel_what \<Rightarrow> int \<Rightarrow> 32 word \<Rightarrow> 'a session \<Rightarrow> 'a session" where
  "press_panel ops env m what rank win s0 =
     (let s = set_dirty s0 in
      case what of
        PHMenuButton \<Rightarrow> (let s1 = refresh_menu_extras s in s1\<lparr>se_menu := menu_open (se_menu s1)\<rparr>)
      | PHUpdate \<Rightarrow> run_update_command env (en_id (sv_entry (se_update s))) s
      | PHHint \<Rightarrow> s\<lparr>se_help := help_open (se_help s)\<rparr>
      | PHPinned \<Rightarrow>
          if rank \<ge> 0 \<and> rank < int (length catalog) then
            let app = ce_id (catalog ! nat rank) in
            if m_button m = 2 then open_from_catalog ops env app s else focus_or_open ops env app s
          else s
      | PHTask \<Rightarrow> press_task ops env m win s
      | _ \<Rightarrow> s)"

definition press_window :: "'a app_ops \<Rightarrow> session_env \<Rightarrow> mouse_event \<Rightarrow> window \<Rightarrow> 'a session \<Rightarrow> 'a session" where
  "press_window ops env m w s0 =
     (let s = (if wm_focused (se_wm s0) \<noteq> w_id w then upd_wm (\<lambda>wm. focus wm (w_id w)) s0 else s0);
          now = steady_now env; work = se_last_work s; i = w_id w;
          doubled = (m_x m = se_click_x s \<and> m_y m = se_click_y s \<and> now - se_last_click s \<le> kDoubleClick);
          s1 = s\<lparr>se_drag_stamp := now, se_last_click := now, se_click_x := (if doubled then - 1 else m_x m), se_click_y := m_y m\<rparr>;
          toggle = upd_wm (\<lambda>wm. set_mode wm i (if w_mode w = Maximized then Normal else Maximized) work) s1
      in case hit_window (w_display_rect w) (m_x m) (m_y m) of
           HitTitleBar \<Rightarrow>
             if doubled then toggle
             else if w_mode w \<noteq> Normal then s1
             else s1\<lparr>se_drag := DragMoving i (m_x m - rx (w_display_rect w)) (m_y m - ry (w_display_rect w)) (w_user_rect w)\<rparr>
         | ButtonMinimize \<Rightarrow> upd_wm (\<lambda>wm. set_mode wm i Minimized work) s1
         | ButtonMaximize \<Rightarrow> toggle
         | ButtonClose \<Rightarrow> request_close ops i s1
         | HitEdgeRight \<Rightarrow> s1\<lparr>se_drag := DragResizing i (w_display_rect w)\<rparr>
         | HitEdgeBottom \<Rightarrow> s1\<lparr>se_drag := DragResizing i (w_display_rect w)\<rparr>
         | CornerBR \<Rightarrow> s1\<lparr>se_drag := DragResizing i (w_display_rect w)\<rparr>
         | HitClient lx ly \<Rightarrow> to_app ops env (ap_mouse ops (local_event m lx ly)) i (s1\<lparr>se_grab := i\<rparr>)
         | _ \<Rightarrow> s1)"

text \<open>A press, when nothing covers the panel and the windows.\<close>

definition press_desktop :: "'a app_ops \<Rightarrow> session_env \<Rightarrow> mouse_event \<Rightarrow> 'a session \<Rightarrow> 'a session" where
  "press_desktop ops env m s =
     (case panel_hit (se_panel s) (m_x m) (m_y m) of (what, rank, win) \<Rightarrow>
        if what \<noteq> PHNone then press_panel ops env m what rank win s
        else (case hit (se_wm s) (m_x m) (m_y m) of
            None \<Rightarrow>
              if m_button m = 2 then
                let s1 = refresh_menu_extras s in set_dirty (s1\<lparr>se_menu := menu_open_at (se_menu s1) (m_x m) (m_y m)\<rparr>)
              else s
          | Some w \<Rightarrow> press_window ops env m w s))"

definition mouse_press :: "'a app_ops \<Rightarrow> session_env \<Rightarrow> mouse_event \<Rightarrow> 'a session \<Rightarrow> 'a session" where
  "mouse_press ops env m s =
     (if md_open (se_modal s) then
        (case modal_hit (se_modal s) (m_x m) (m_y m) of
           DHConfirm \<Rightarrow> set_dirty (answer_modal env True s)
         | DHCancel \<Rightarrow> set_dirty (answer_modal env False s)
         | _ \<Rightarrow> set_dirty s)
      else if hp_open (se_help s) then set_dirty (s\<lparr>se_help := help_close (se_help s)\<rparr>)
      else if mn_open (se_menu s) then
        (case menu_hit (se_menu s) (m_x m) (m_y m) of
           MHItem idx \<Rightarrow>
             if idx \<ge> 0 \<and> idx < int (length (mn_shown (se_menu s)))
             then run_menu ops env (mi_id (mn_shown (se_menu s) ! nat idx)) s else s
         | MHNone \<Rightarrow> set_dirty (s\<lparr>se_menu := menu_close (se_menu s)\<rparr>)
         | _ \<Rightarrow> set_dirty s)
      else if sa_open (se_assist s) then
        let picked = assist_hit (se_assist s) (m_x m) (m_y m) in
        if picked \<noteq> 0 then dock_into_free_half picked s
        else press_desktop ops env m (set_dirty (s\<lparr>se_assist := assist_close (se_assist s)\<rparr>))
      else press_desktop ops env m s)"

definition on_mouse :: "'a app_ops \<Rightarrow> session_env \<Rightarrow> mouse_event \<Rightarrow> 'a session \<Rightarrow> 'a session" where
  "on_mouse ops env m s =
     (if m_action m = Motion \<and> m_button m = 3 then cancel_drag s
      else if m_action m = Press \<and> se_drag s \<noteq> DragIdle then cancel_drag s
      else (case se_drag s of
          DragMoving win dx dy origin \<Rightarrow> drag_moving env m win dx dy origin s
        | DragResizing win outline \<Rightarrow> drag_resizing env m win outline s
        | DragIdle \<Rightarrow>
            if m_action m = WheelUp \<or> m_action m = WheelDown then mouse_wheel ops env m s
            else if se_grab s \<noteq> 0 \<and> m_action m \<noteq> Press then mouse_held ops env m s
            else if m_action m \<noteq> Press then s
            else mouse_press ops env m s))"

section \<open>The keyboard\<close>

definition modal_key :: "session_env \<Rightarrow> key_event \<Rightarrow> 'a session \<Rightarrow> 'a session" where
  "modal_key env k s =
     (case k_key k of
        KEscape \<Rightarrow> set_dirty (s\<lparr>se_modal := modal_dismiss (se_modal s)\<rparr>)
      | KTab \<Rightarrow> set_dirty (s\<lparr>se_modal := modal_focus_next (se_modal s)\<rparr>)
      | KBackTab \<Rightarrow> set_dirty (s\<lparr>se_modal := modal_focus_next (se_modal s)\<rparr>)
      | KLeft \<Rightarrow> set_dirty (s\<lparr>se_modal := modal_focus_next (se_modal s)\<rparr>)
      | KRight \<Rightarrow> set_dirty (s\<lparr>se_modal := modal_focus_next (se_modal s)\<rparr>)
      | KEnter \<Rightarrow> set_dirty (answer_modal env (md_confirm (se_modal s)) s)
      | _ \<Rightarrow> set_dirty s)"

definition arrow_dir :: "key \<Rightarrow> snap_dir option" where
  "arrow_dir k = (case k of KLeft \<Rightarrow> Some Wm_Geometry.SnapLeft | KRight \<Rightarrow> Some Wm_Geometry.SnapRight
     | KUp \<Rightarrow> Some Wm_Geometry.SnapUp | KDown \<Rightarrow> Some Wm_Geometry.SnapDown | _ \<Rightarrow> None)"

definition leader_key :: "'a app_ops \<Rightarrow> bool \<Rightarrow> session_env \<Rightarrow> key_event \<Rightarrow> 'a session \<Rightarrow> 'a session" where
  "leader_key ops amb env k s =
     (let (ld, lr) = leader_feed (se_leader s) k; s1 = s\<lparr>se_leader := ld\<rparr> in
      case lr_action lr of
        Some a \<Rightarrow>
          let s2 = do_action ops amb env a s1
          in if ld_phase (se_leader s2) = LeaderRepeating then s2\<lparr>se_repeat_until := steady_now env + kRepeatWindow\<rparr> else s2
      | None \<Rightarrow>
          if lr_consumed lr then
            (if ld_phase ld = LeaderArmed then s1\<lparr>se_leader_stamp := steady_now env\<rparr> else s1)
          else (case wm_find (se_wm s1) (wm_focused (se_wm s1)) of
              Some w \<Rightarrow> to_app ops env (ap_key ops k) (w_id w) s1
            | None \<Rightarrow> s1))"

definition on_key :: "'a app_ops \<Rightarrow> bool \<Rightarrow> session_env \<Rightarrow> key_event \<Rightarrow> 'a session \<Rightarrow> 'a session" where
  "on_key ops amb env k s =
     (if se_drag s \<noteq> DragIdle then cancel_drag s
      else if k_key k = KChar \<and> k_ch k = 0x71 \<and> k_mods k AND mod_Ctrl \<noteq> 0 then s\<lparr>se_detach := True\<rparr>
      else if md_open (se_modal s) then modal_key env k s
      else if mn_open (se_menu s) then menu_key ops env k s
      else
        let s1 = (if ld_phase (se_leader s) = LeaderRepeating \<and> steady_now env > se_repeat_until s
                  then s\<lparr>se_leader := leader_reset (se_leader s)\<rparr> else s);
            s2 = (if hp_open (se_help s1) then set_dirty (s1\<lparr>se_help := help_close (se_help s1)\<rparr>) else s1);
            s3 = (if sa_open (se_assist s2) then set_dirty (s2\<lparr>se_assist := assist_close (se_assist s2)\<rparr>) else s2)
        in (case arrow_dir (k_key k) of
              Some d \<Rightarrow> if k_mods k AND 0x07 = mod_Ctrl
                         then snap_focused amb d (s3\<lparr>se_leader := leader_reset (se_leader s3)\<rparr>)
                         else leader_key ops amb env k s3
            | None \<Rightarrow> leader_key ops amb env k s3))"

definition on_paste :: "'a app_ops \<Rightarrow> session_env \<Rightarrow> bytes \<Rightarrow> bool \<Rightarrow> 'a session \<Rightarrow> 'a session" where
  "on_paste ops env u complete s =
     (let s1 = (if se_drag s \<noteq> DragIdle then cancel_drag s else s) in
      if md_open (se_modal s1) \<or> mn_open (se_menu s1) then s1
      else (case wm_find (se_wm s1) (wm_focused (se_wm s1)) of
          None \<Rightarrow> s1
        | Some w \<Rightarrow> set_dirty (to_app ops env (ap_paste ops u complete) (w_id w) s1)))"

definition on_focus :: "bool \<Rightarrow> 'a session \<Rightarrow> 'a session" where
  "on_focus focused s = (if focused then s else cancel_drag s)"

definition on_input :: "'a app_ops \<Rightarrow> bool \<Rightarrow> session_env \<Rightarrow> input_event \<Rightarrow> 'a session \<Rightarrow> 'a session" where
  "on_input ops amb env e s0 =
     (let s = watchdog env s0 in
      case e of
        EvKey k \<Rightarrow> on_key ops amb env k s
      | EvMouse m \<Rightarrow> on_mouse ops env m s
      | EvPaste u complete \<Rightarrow> on_paste ops env u complete s
      | EvFocus f \<Rightarrow> on_focus f s)"

end
