(* ===== verification/App_Inv.thy ===== *)
theory App_Inv
  imports App
begin

text \<open>
  What the hosts and the manager keep together: every window has its application, descriptors and
  children belong to windows that exist, and a descriptor's key names its window.
\<close>

section \<open>Identifiers of windows\<close>

definition wm_ids :: "wm \<Rightarrow> 32 word set" where
  "wm_ids m = set (map w_id (wm_stack m))"

lemma ids_map: "map w_id (wm_stack m') = map w_id (wm_stack m) \<Longrightarrow> wm_ids m' = wm_ids m"
  by (simp add: wm_ids_def)

lemma wm_ids_simps [simp]:
  "wm_ids (focus m i) = wm_ids m" "wm_ids (wm_step delta m) = wm_ids m" "wm_ids (set_rect m i r work) = wm_ids m"
  "wm_ids (set_mode m i md work) = wm_ids m" "wm_ids (relayout m work cols rows) = wm_ids m"
proof -
  show f: "wm_ids (focus m i) = wm_ids m" for i using focus_ids[of m i] by (simp add: wm_ids_def)
  show "wm_ids (wm_step delta m) = wm_ids m" using wm_step_focus[of delta m] f by metis
  have up: "map w_id (st[k := w]) = map w_id st" if "k < length st" "w_id w = w_id (st ! k)" for st k w
    using that by (simp add: map_update list_update_same_conv)
  show "wm_ids (set_rect m i r work) = wm_ids m"
    by (auto simp: set_rect_def Let_def dest!: wm_index_Some intro!: ids_map up split: option.splits)
  show "wm_ids (set_mode m i md work) = wm_ids m"
  proof (cases "wm_index m i")
    case (Some k)
    note k = wm_index_Some[OF Some]
    let ?st = "if md = Fullscreen \<and> w_mode (wm_stack m ! k) \<noteq> Fullscreen then map (leave_fullscreen i) (wm_stack m) else wm_stack m"
    have "map w_id ?st = map w_id (wm_stack m)" by simp
    then show ?thesis unfolding set_mode_def Some option.case Let_def
      by (intro ids_map) (use k in \<open>auto simp: map_update list_update_same_conv comp_def split: win_mode.splits\<close>)
  qed (simp add: set_mode_def)
  show "wm_ids (relayout m work cols rows) = wm_ids m" by (simp add: relayout_def wm_ids_def image_image)
qed

lemma wm_find_in: "wm_find m i = Some w \<Longrightarrow> w \<in> set (wm_stack m) \<and> w_id w = i"
  unfolding wm_find_def by (auto dest!: wm_index_Some simp: split: option.splits)

lemma wm_find_None: "wm_find m i = None \<longleftrightarrow> i \<notin> wm_ids m"
  by (auto simp: wm_find_def wm_index_None wm_ids_def split: option.splits)

lemma wm_index_ids: "wm_index m i = None \<longleftrightarrow> i \<notin> wm_ids m"
  by (simp add: wm_index_None wm_ids_def)

text \<open>A change of a window that touches neither its identifier nor its mode.\<close>

definition mild :: "(window \<Rightarrow> window) \<Rightarrow> bool" where
  "mild f \<longleftrightarrow> (\<forall>w. w_id (f w) = w_id w \<and> w_mode (f w) = w_mode w \<and> w_before_fullscreen (f w) = w_before_fullscreen w
     \<and> (w_app w \<noteq> None \<longrightarrow> w_app (f w) \<noteq> None))"

lemma upd_win_simps [simp]:
  "wm_next_id (upd_win f i m) = wm_next_id m" "wm_focused (upd_win f i m) = wm_focused m"
  by (simp_all add: upd_win_def)

lemma upd_win_ids: "mild f \<Longrightarrow> map w_id (wm_stack (upd_win f i m)) = map w_id (wm_stack m)"
  by (simp add: upd_win_def mild_def)

lemma upd_win_ok:
  assumes "mild f"
  shows "wm_ids (upd_win f i m) = wm_ids m" "wm_ok m \<Longrightarrow> wm_ok (upd_win f i m)"
proof -
  show ids: "wm_ids (upd_win f i m) = wm_ids m" by (rule ids_map[OF upd_win_ids[OF assms]])
  assume ok: "wm_ok m"
  let ?g = "\<lambda>w. if w_id w = i then f w else w"
  have g: "w_id (?g w) = w_id w" "w_mode (?g w) = w_mode w" for w using assms by (simp_all add: mild_def)
  have "one_fullscreen (map ?g (wm_stack m))"
    using ok unfolding one_fullscreen_def wm_ok_def stack_ok_def set_map by (auto simp only: ball_simps image_iff bex_simps g) 
  moreover have wk: "window_ok (?g w)" if "window_ok w" for w using that assms by (simp add: mild_def window_ok_def)
  have "window_ok v \<and> 0 < w_id v \<and> w_id v < wm_next_id m" if v: "v \<in> set (map ?g (wm_stack m))" for v
  proof -
    obtain w where w: "w \<in> set (wm_stack m)" "v = ?g w" using v by auto
    then have "window_ok w \<and> 0 < w_id w \<and> w_id w < wm_next_id m" using ok by (simp add: wm_ok_def stack_ok_def)
    then show ?thesis using wk[of w] g(1)[of w] unfolding w(2) by metis
  qed
  moreover have "wm_stack (upd_win f i m) = map ?g (wm_stack m)" by (simp add: upd_win_def)
  moreover have "wm_focused m = 0 \<or> wm_focused m \<in> w_id ` set (wm_stack (upd_win f i m))"
    using ok ids by (simp add: wm_ok_def stack_ok_def wm_ids_def)
  ultimately show "wm_ok (upd_win f i m)"
    using ok unfolding wm_ok_def stack_ok_def upd_win_simps upd_win_ids[OF assms] by simp
qed

lemma mild_intros [intro]:
  "mild (\<lambda>x. x\<lparr>w_title := t\<rparr>)" "mild (\<lambda>x. x\<lparr>w_close_requested := b\<rparr>)" "mild (\<lambda>x. x\<lparr>w_app := Some z\<rparr>)"
  "mild (\<lambda>x. x\<lparr>w_app_id := t\<rparr>)" "mild (\<lambda>x. x\<lparr>w_user_rect := r\<rparr>)" "mild (\<lambda>x. x\<lparr>w_sent_size := z\<rparr>)"
  by (simp_all add: mild_def)

section \<open>The invariant of the desk\<close>

definition hosts_ok :: "'a desk \<Rightarrow> bool" where
  "hosts_ok d \<longleftrightarrow> dom (dk_apps d) = wm_ids (dk_wm d)
     \<and> (\<forall>i. i \<notin> wm_ids (dk_wm d) \<longrightarrow> dk_watched d i = [])
     \<and> (\<forall>i. list_all (\<lambda>p. key_window (fst p) = i) (dk_watched d i))
     \<and> snd ` set (dk_children d) \<subseteq> wm_ids (dk_wm d)"

definition desk_ok :: "'a desk \<Rightarrow> bool" where
  "desk_ok d \<longleftrightarrow> wm_ok (dk_wm d) \<and> wm_next_id (dk_wm d) \<noteq> 0 \<and> hosts_ok d"

text \<open>The same windows, and no identifier handed out.\<close>

definition same_windows :: "'a desk \<Rightarrow> 'a desk \<Rightarrow> bool" where
  "same_windows d d' \<longleftrightarrow> wm_ids (dk_wm d') = wm_ids (dk_wm d) \<and> wm_next_id (dk_wm d') = wm_next_id (dk_wm d)"

lemma same_windows_trans: "same_windows a b \<Longrightarrow> same_windows b c \<Longrightarrow> same_windows a c"
  by (simp add: same_windows_def)

lemma key_of_window [simp]: "key_window (make_key i g) = i"
proof (rule bit_word_eqI)
  fix n
  assume "n < LENGTH(32)"
  then show "bit (key_window (make_key i g)) n = bit i n"
    using bit_imp_le_length[of g "32 + n"] by (auto simp: key_window_def make_key_def bit_simps)
qed

lemma desk_wm_ok:
  assumes "desk_ok d" "wm_ok (f (dk_wm d))" "wm_ids (f (dk_wm d)) = wm_ids (dk_wm d)" "wm_next_id (f (dk_wm d)) = wm_next_id (dk_wm d)"
  shows "desk_ok (d\<lparr>dk_wm := f (dk_wm d)\<rparr>)" "same_windows d (d\<lparr>dk_wm := f (dk_wm d)\<rparr>)"
  using assms by (simp_all add: desk_ok_def hosts_ok_def same_windows_def)

lemma host_watch_ok: "desk_ok d \<Longrightarrow> i \<in> wm_ids (dk_wm d) \<Longrightarrow> desk_ok (host_watch i fd ev d)"
  by (auto simp: desk_ok_def hosts_ok_def host_watch_def Let_def)

lemma host_unwatch_ok: "desk_ok d \<Longrightarrow> desk_ok (host_unwatch i t d)"
proof (cases "find_if (\<lambda>p. fst p = t) (dk_watched d i)")
  case (Some k)
  assume d: "desk_ok d"
  have "set (take k (dk_watched d i) @ drop (Suc k) (dk_watched d i)) \<subseteq> set (dk_watched d i)"
    using set_take_subset set_drop_subset by fastforce
  moreover have "list_all (\<lambda>p. key_window (fst p) = i) (dk_watched d i)" using d by (simp add: desk_ok_def hosts_ok_def)
  ultimately have "list_all (\<lambda>p. key_window (fst p) = i) (take k (dk_watched d i) @ drop (Suc k) (dk_watched d i))"
    unfolding list_all_iff by blast
  then show ?thesis using d by (auto simp: desk_ok_def hosts_ok_def host_unwatch_def Some)
qed (simp add: host_unwatch_def)

lemma serve_req_ok:
  assumes "desk_ok d" "i \<in> wm_ids (dk_wm d)"
  shows "desk_ok (serve_req w i d r) \<and> same_windows d (serve_req w i d r)"
proof (cases r)
  case (HSetTitle t)
  have "mild (\<lambda>x. x\<lparr>w_title := t\<rparr>)" by blast
  then show ?thesis using HSetTitle desk_wm_ok[of d "upd_win (\<lambda>x. x\<lparr>w_title := t\<rparr>) i"] assms upd_win_ok by (simp add: desk_ok_def)
next
  case HRequestClose
  have "mild (\<lambda>x. x\<lparr>w_close_requested := True\<rparr>)" by blast
  then show ?thesis using HRequestClose desk_wm_ok[of d "upd_win (\<lambda>x. x\<lparr>w_close_requested := True\<rparr>) i"] assms upd_win_ok by (simp add: desk_ok_def)
next
  case (HUnwatch t)
  then show ?thesis using assms host_unwatch_ok[of d i t] by (auto simp: same_windows_def host_unwatch_def split: option.splits)
next
  case (HWatch fd ev)
  then show ?thesis using assms host_watch_ok[of d i fd ev] by (simp add: same_windows_def host_watch_def Let_def)
qed (use assms in \<open>auto simp: desk_ok_def hosts_ok_def same_windows_def split: prod.splits\<close>)

lemma serve_reqs_ok:
  "desk_ok d \<Longrightarrow> i \<in> wm_ids (dk_wm d) \<Longrightarrow> desk_ok (foldl (serve_req w i) d rs) \<and> same_windows d (foldl (serve_req w i) d rs)"
proof (induction rs arbitrary: d)
  case (Cons r rs)
  have a: "desk_ok (serve_req w i d r)" "same_windows d (serve_req w i d r)" using serve_req_ok[OF Cons.prems] by simp_all
  then have "i \<in> wm_ids (dk_wm (serve_req w i d r))" using Cons.prems by (simp add: same_windows_def)
  then show ?case using Cons.IH[OF a(1)] same_windows_trans[OF a(2)] by simp
qed (simp add: same_windows_def)

lemma put_app_ok: "desk_ok d \<Longrightarrow> i \<in> wm_ids (dk_wm d) \<Longrightarrow> desk_ok (put_app ops i a d) \<and> same_windows d (put_app ops i a d)"
proof -
  assume d: "desk_ok d" "i \<in> wm_ids (dk_wm d)"
  have "mild (\<lambda>x. x\<lparr>w_app := Some (ap_min_size ops a)\<rparr>)" by blast
  note u = upd_win_ok[OF this]
  show ?thesis using d u by (auto simp: desk_ok_def hosts_ok_def same_windows_def put_app_def)
qed

lemma app_call_ok: "desk_ok d \<Longrightarrow> desk_ok (app_call ops w f i d) \<and> same_windows d (app_call ops w f i d)"
proof (cases "dk_apps d i")
  case (Some a)
  assume d: "desk_ok d"
  then have i: "i \<in> wm_ids (dk_wm d)" using Some by (auto simp: desk_ok_def hosts_ok_def)
  obtain a' reqs where f: "f (host_view_of i d) a = (a', reqs)" by fastforce
  note p = put_app_ok[OF d i, of ops a']
  then have "i \<in> wm_ids (dk_wm (put_app ops i a' d))" using i by (simp add: same_windows_def)
  from serve_reqs_ok[OF conjunct1[OF p] this] have "desk_ok (foldl (serve_req w i) (put_app ops i a' d) reqs)"
    "same_windows (put_app ops i a' d) (foldl (serve_req w i) (put_app ops i a' d) reqs)" by simp_all
  then show ?thesis using same_windows_trans[OF conjunct2[OF p]] Some f by (simp add: app_call_def)
qed (simp add: app_call_def same_windows_def)

lemma host_deliver_ok: "desk_ok d \<Longrightarrow> desk_ok (host_deliver ops w i k ev d) \<and> same_windows d (host_deliver ops w i k ev d)"
  using app_call_ok[of d ops w "ap_io ops k ev" i] by (simp add: host_deliver_def) (simp add: same_windows_def)

lemma wm_close_ids: "wm_ok m \<Longrightarrow> wm_ids (fst (wm_close m i)) = wm_ids m - {i}"
proof (cases "wm_index m i")
  case (Some k)
  assume ok: "wm_ok m"
  note k = wm_index_Some[OF Some]
  have s: "wm_stack m = take k (wm_stack m) @ wm_stack m ! k # drop (Suc k) (wm_stack m)" using k by (simp add: id_take_nth_drop)
  have "distinct (map w_id (wm_stack m))" using ok by (simp add: wm_ok_def stack_ok_def)
  then have "i \<notin> set (map w_id (take k (wm_stack m)))" "i \<notin> set (map w_id (drop (Suc k) (wm_stack m)))"
    using k by (subst (asm) s, auto)+
  moreover have "wm_ids m = set (map w_id (take k (wm_stack m))) \<union> {i} \<union> set (map w_id (drop (Suc k) (wm_stack m)))"
    using k unfolding wm_ids_def by (subst s) auto
  moreover have "wm_ids (fst (wm_close m i)) = set (map w_id (take k (wm_stack m))) \<union> set (map w_id (drop (Suc k) (wm_stack m)))"
    by (auto simp: wm_close_def Some Let_def wm_ids_def)
  ultimately show ?thesis by auto
next
  case None
  then show ?thesis by (simp add: wm_close_def) (simp add: wm_index_ids)
qed

lemma close_window_ok:
  assumes "desk_ok d"
  shows "desk_ok (close_window i d)" "wm_ids (dk_wm (close_window i d)) = wm_ids (dk_wm d) - {i}"
    "wm_next_id (dk_wm (close_window i d)) = wm_next_id (dk_wm d)"
proof -
  have m: "wm_ok (dk_wm d)" using assms by (simp add: desk_ok_def)
  note c = wm_close_ids[OF m, of i] wm_close_ok[OF m, of i]
  show "wm_ids (dk_wm (close_window i d)) = wm_ids (dk_wm d) - {i}" "wm_next_id (dk_wm (close_window i d)) = wm_next_id (dk_wm d)"
    using c by (simp_all add: close_window_def host_unwatch_all_def Let_def)
  show "desk_ok (close_window i d)" using assms c by (auto simp: desk_ok_def hosts_ok_def close_window_def host_unwatch_all_def Let_def)
qed

lemma wm_open_some:
  assumes "wm_open m app work = (m', Some i)" "wm_ok m"
  shows "wm_ids m' = insert i (wm_ids m)" "i = wm_next_id m" "wm_next_id m' = wm_next_id m + 1" "i \<notin> wm_ids m"
proof -
  show e: "i = wm_next_id m" "wm_next_id m' = wm_next_id m + 1"
    using assms(1) by (auto simp: wm_open_def Let_def new_window_def split: option.splits if_splits)
  obtain w c where w: "m' = focus (m\<lparr>wm_next_id := wm_next_id m + 1, wm_cascade := c, wm_stack := wm_stack m @ [w]\<rparr>) i" "w_id w = i"
    using assms(1) by (auto simp: wm_open_def Let_def split: option.splits if_splits)
  show "wm_ids m' = insert i (wm_ids m)" unfolding w(1) wm_ids_simps by (simp add: wm_ids_def w(2))
  show "i \<notin> wm_ids m" using e(1) assms(2) by (auto simp: wm_ok_def stack_ok_def wm_ids_def)
qed

lemma wm_open_none: "wm_open m app work = (m', None) \<Longrightarrow> m' = m"
  by (auto simp: wm_open_def Let_def split: option.splits if_splits)

lemma open_window_ok:
  assumes "desk_ok d" "wm_next_id (dk_wm d) \<noteq> - 1"
  shows "desk_ok (fst (open_window ops w work a app_id d))"
    "unat (wm_next_id (dk_wm (fst (open_window ops w work a app_id d)))) \<le> unat (wm_next_id (dk_wm d)) + 1"
    "unat (wm_next_id (dk_wm d)) \<le> unat (wm_next_id (dk_wm (fst (open_window ops w work a app_id d))))"
    "wm_ids (dk_wm (fst (open_window ops w work a app_id d))) \<subseteq> insert (wm_next_id (dk_wm d)) (wm_ids (dk_wm d))"
proof -
  let ?out = "fst (open_window ops w work a app_id d)"
  let ?open = "wm_open (dk_wm d) (Some (ap_min_size ops a)) work"
  have m: "wm_ok (dk_wm d)" "wm_next_id (dk_wm d) \<noteq> 0" using assms by (simp_all add: desk_ok_def)
  have "desk_ok ?out \<and> unat (wm_next_id (dk_wm ?out)) \<le> unat (wm_next_id (dk_wm d)) + 1
      \<and> unat (wm_next_id (dk_wm d)) \<le> unat (wm_next_id (dk_wm ?out))
      \<and> wm_ids (dk_wm ?out) \<subseteq> insert (wm_next_id (dk_wm d)) (wm_ids (dk_wm d))"
  proof (cases "snd ?open")
    case None
    then obtain m' where "?open = (m', None)" by (cases ?open) auto
    then show ?thesis using assms by (auto simp: open_window_def)
  next
    case (Some i)
    then obtain m' where o1: "?open = (m', Some i)" by (cases ?open) auto
    note s = wm_open_some[OF o1 m(1)]
    have ok: "wm_ok m'" using wm_open_ok[OF m(1) assms(2) m(2), of "Some (ap_min_size ops a)" work] o1 by simp
    define d1 where "d1 = d\<lparr>dk_wm := upd_win (\<lambda>x. x\<lparr>w_app_id := app_id\<rparr>) i m', dk_apps := (dk_apps d)(i \<mapsto> a),
                dk_watched := (dk_watched d)(i := [])\<rparr>"
    have "mild (\<lambda>x. x\<lparr>w_app_id := app_id\<rparr>)" by blast
    note u = upd_win_ok[OF this]
    have n: "wm_next_id m' \<noteq> 0" using s(3) assms(2) max_word_wrap[of "wm_next_id (dk_wm d)"] by auto
    have d1: "desk_ok d1" using assms ok u s n by (auto simp: desk_ok_def hosts_ok_def d1_def)
    have nn: "wm_next_id (dk_wm d1) = wm_next_id (dk_wm d) + 1" by (simp add: d1_def s(3))
    have "unat (wm_next_id (dk_wm d) + 1) = unat (wm_next_id (dk_wm d)) + 1"
      using unatSuc[of "wm_next_id (dk_wm d)"] n s(3) by (simp add: add.commute)
    moreover have "wm_ids (dk_wm d1) = insert (wm_next_id (dk_wm d)) (wm_ids (dk_wm d))" using u s by (simp add: d1_def)
    moreover have "fst (open_window ops w work a app_id d) = app_call ops w (ap_attach ops) i d1"
      by (simp add: open_window_def o1 d1_def Let_def)
    ultimately show ?thesis using app_call_ok[OF d1, of ops w "ap_attach ops" i] nn by (simp add: same_windows_def)
  qed
  then show "desk_ok ?out" "unat (wm_next_id (dk_wm ?out)) \<le> unat (wm_next_id (dk_wm d)) + 1"
    "unat (wm_next_id (dk_wm d)) \<le> unat (wm_next_id (dk_wm ?out))"
    "wm_ids (dk_wm ?out) \<subseteq> insert (wm_next_id (dk_wm d)) (wm_ids (dk_wm d))" by simp_all
qed

end
