(* ===== verification/Session_Inv.thy ===== *)
theory Session_Inv
  imports Session App_Inv
begin

text \<open>
  The invariant of the session, kept by every handler.  \<open>good b s s'\<close>: from a well-formed state with
  identifiers left, the step gives a well-formed state and hands out no identifier, or one if \<open>b\<close>.
\<close>

section \<open>Steps that keep the invariant\<close>

definition se_ok :: "'a session \<Rightarrow> bool" where
  "se_ok s \<longleftrightarrow> desk_ok (se_desk s) \<and> menu_ok (se_menu s)"

definition opened :: "'a session \<Rightarrow> nat" where
  "opened s = unat (wm_next_id (se_wm s))"

text \<open>The windows after a step are windows from before it, or have an identifier handed out since.\<close>

definition fresh_only :: "'a session \<Rightarrow> 'a session \<Rightarrow> bool" where
  "fresh_only s s' \<longleftrightarrow> opened s \<le> opened s' \<and> (\<forall>i \<in> wm_ids (se_wm s'). i \<in> wm_ids (se_wm s) \<or> opened s \<le> unat i)"

definition good :: "bool \<Rightarrow> 'a session \<Rightarrow> 'a session \<Rightarrow> bool" where
  "good b s s' \<longleftrightarrow> (se_ok s \<longrightarrow> opened s + of_bool b < 2 ^ 32
     \<longrightarrow> se_ok s' \<and> opened s' \<le> opened s + of_bool b \<and> fresh_only s s')"

lemma fresh_only_refl [simp]: "fresh_only s s"
  by (simp add: fresh_only_def)

lemma fresh_only_trans: "fresh_only s t \<Longrightarrow> fresh_only t u \<Longrightarrow> fresh_only s u"
  unfolding fresh_only_def by (meson order.trans)

lemma se_ok_upd [simp]:
  "se_ok (s\<lparr>se_drag := a1\<rparr>) = se_ok s" "se_ok (s\<lparr>se_drag_stamp := a2\<rparr>) = se_ok s" "se_ok (s\<lparr>se_out := a3\<rparr>) = se_ok s"
  "se_ok (s\<lparr>se_theme := a4\<rparr>) = se_ok s" "se_ok (s\<lparr>se_quit := a5\<rparr>) = se_ok s" "se_ok (s\<lparr>se_panel := a6\<rparr>) = se_ok s"
  "se_ok (s\<lparr>se_clock := a7\<rparr>) = se_ok s" "se_ok (s\<lparr>se_modal := a8\<rparr>) = se_ok s" "se_ok (s\<lparr>se_update := a9\<rparr>) = se_ok s"
  "se_ok (s\<lparr>se_help := b1\<rparr>) = se_ok s" "se_ok (s\<lparr>se_leader := b2\<rparr>) = se_ok s" "se_ok (s\<lparr>se_leader_stamp := b3\<rparr>) = se_ok s"
  "se_ok (s\<lparr>se_repeat_until := b4\<rparr>) = se_ok s" "se_ok (s\<lparr>se_seeded := b5\<rparr>) = se_ok s" "se_ok (s\<lparr>se_last_click := b6\<rparr>) = se_ok s"
  "se_ok (s\<lparr>se_click_x := b7\<rparr>) = se_ok s" "se_ok (s\<lparr>se_click_y := b8\<rparr>) = se_ok s" "se_ok (s\<lparr>se_repaint := b9\<rparr>) = se_ok s"
  "se_ok (s\<lparr>se_detach := c1\<rparr>) = se_ok s" "se_ok (s\<lparr>se_kind := c2\<rparr>) = se_ok s" "se_ok (s\<lparr>se_last_work := c3\<rparr>) = se_ok s"
  "se_ok (s\<lparr>se_cursor := c4\<rparr>) = se_ok s" "se_ok (s\<lparr>se_grab := c5\<rparr>) = se_ok s" "se_ok (s\<lparr>se_assist := c6\<rparr>) = se_ok s"
  "se_ok (s\<lparr>se_assist_rect := c7\<rparr>) = se_ok s" "se_ok (s\<lparr>se_sys := c8\<rparr>) = se_ok s"
  by (simp_all add: se_ok_def)

lemma good_upd [simp]:
  "good b s (t\<lparr>se_drag := a1\<rparr>) = good b s t" "good b s (t\<lparr>se_drag_stamp := a2\<rparr>) = good b s t"
  "good b s (t\<lparr>se_out := a3\<rparr>) = good b s t" "good b s (t\<lparr>se_theme := a4\<rparr>) = good b s t"
  "good b s (t\<lparr>se_quit := a5\<rparr>) = good b s t" "good b s (t\<lparr>se_panel := a6\<rparr>) = good b s t"
  "good b s (t\<lparr>se_clock := a7\<rparr>) = good b s t" "good b s (t\<lparr>se_modal := a8\<rparr>) = good b s t"
  "good b s (t\<lparr>se_update := a9\<rparr>) = good b s t" "good b s (t\<lparr>se_help := b1\<rparr>) = good b s t"
  "good b s (t\<lparr>se_leader := b2\<rparr>) = good b s t" "good b s (t\<lparr>se_leader_stamp := b3\<rparr>) = good b s t"
  "good b s (t\<lparr>se_repeat_until := b4\<rparr>) = good b s t" "good b s (t\<lparr>se_seeded := b5\<rparr>) = good b s t"
  "good b s (t\<lparr>se_last_click := b6\<rparr>) = good b s t" "good b s (t\<lparr>se_click_x := b7\<rparr>) = good b s t"
  "good b s (t\<lparr>se_click_y := b8\<rparr>) = good b s t" "good b s (t\<lparr>se_repaint := b9\<rparr>) = good b s t"
  "good b s (t\<lparr>se_detach := c1\<rparr>) = good b s t" "good b s (t\<lparr>se_kind := c2\<rparr>) = good b s t"
  "good b s (t\<lparr>se_last_work := c3\<rparr>) = good b s t" "good b s (t\<lparr>se_cursor := c4\<rparr>) = good b s t"
  "good b s (t\<lparr>se_grab := c5\<rparr>) = good b s t" "good b s (t\<lparr>se_assist := c6\<rparr>) = good b s t"
  "good b s (t\<lparr>se_assist_rect := c7\<rparr>) = good b s t" "good b s (t\<lparr>se_sys := c8\<rparr>) = good b s t"
  by (simp_all add: good_def opened_def fresh_only_def)


lemma good_refl [simp]: "good b s s"
  by (simp add: good_def)

lemma good_weak: "good False s t \<Longrightarrow> good b s t"
  by (auto simp: good_def)

lemma good_then: "good b s t \<Longrightarrow> good False t u \<Longrightarrow> good b s u"
  by (auto simp: good_def split: if_splits intro: fresh_only_trans)

lemma good_after: "good False s t \<Longrightarrow> good b t u \<Longrightarrow> good b s u"
  by (auto simp: good_def split: if_splits intro: fresh_only_trans)

text \<open>The elementary steps, each as a rule that peels it off the state reached.\<close>

named_theorems good_intros

lemma good_set_dirty [simp]: "good b s (set_dirty t) = good b s t"
  by (simp add: good_def se_ok_def set_dirty_def upd_desk_def opened_def desk_ok_def hosts_ok_def fresh_only_def)

lemma good_desk:
  assumes "good b s t" "\<And>d. desk_ok d \<Longrightarrow> desk_ok (f d) \<and> same_windows d (f d)"
  shows "good b s (upd_desk f t)"
  using assms(1) assms(2)[of "se_desk t"]
  by (auto simp: good_def se_ok_def upd_desk_def opened_def same_windows_def fresh_only_def)

lemma good_to_app [good_intros]: "good b s t \<Longrightarrow> good b s (to_app ops env f i t)"
  unfolding to_app_def by (rule good_desk) (simp_all add: app_call_ok)

lemma good_wm:
  assumes "good b s t" "wm_ok (se_wm t) \<Longrightarrow> wm_ok (f (se_wm t))" "wm_ids (f (se_wm t)) = wm_ids (se_wm t)"
    "wm_next_id (f (se_wm t)) = wm_next_id (se_wm t)"
  shows "good b s (upd_wm f t)"
  using assms desk_wm_ok[of "se_desk t" f]
  by (auto simp: good_def se_ok_def upd_wm_def upd_desk_def opened_def same_windows_def desk_ok_def fresh_only_def)

lemma good_win [good_intros]: "good b s t \<Longrightarrow> good b s (upd_wm (upd_win (\<lambda>x. x\<lparr>w_user_rect := r\<rparr>) i) t)"
  using upd_win_ok[OF mild_intros(5)] by (intro good_wm) simp_all

lemma good_mode [good_intros]: "good b s t \<Longrightarrow> good b s (upd_wm (\<lambda>m. set_mode m i md work) t)"
  by (rule good_wm) (simp_all add: set_mode_ok)

lemma focus_in_ok: "wm_ok m \<Longrightarrow> i \<in> wm_ids m \<Longrightarrow> wm_ok (focus m i)"
  by (simp add: focus_ok wm_ids_def)

lemma good_focus [good_intros]: "i \<in> wm_ids (se_wm t) \<Longrightarrow> good b s t \<Longrightarrow> good b s (upd_wm (\<lambda>m. focus m i) t)"
  by (rule good_wm) (simp_all add: focus_in_ok)

lemma good_mode_focus [good_intros]:
  "i \<in> wm_ids (se_wm t) \<Longrightarrow> good b s t \<Longrightarrow> good b s (upd_wm (\<lambda>m. focus (set_mode m j md work) i) t)"
  by (rule good_wm) (simp_all add: focus_in_ok set_mode_ok)

lemma good_place [good_intros]: "good b s t \<Longrightarrow> good b s (upd_wm (\<lambda>m. set_rect (set_mode m i md work) i r work) t)"
  by (rule good_wm) (simp_all add: set_mode_ok set_rect_ok)

lemma good_place_focus [good_intros]:
  "i \<in> wm_ids (se_wm t) \<Longrightarrow> good b s t
    \<Longrightarrow> good b s (upd_wm (\<lambda>m. focus (set_rect (set_mode m i md work) i r work) i) t)"
  by (rule good_wm) (simp_all add: focus_in_ok set_mode_ok set_rect_ok)

lemma good_step [good_intros]: "good b s t \<Longrightarrow> good b s (upd_wm focus_next t)" "good b s t \<Longrightarrow> good b s (upd_wm focus_prev t)"
  by (auto intro!: good_wm simp: focus_next_def focus_prev_def wm_step_ok)

lemma good_menu: "good b s t \<Longrightarrow> (menu_ok (se_menu t) \<Longrightarrow> menu_ok m) \<Longrightarrow> good b s (t\<lparr>se_menu := m\<rparr>)"
  by (auto simp: good_def se_ok_def opened_def fresh_only_def)

lemma good_menus [good_intros]:
  "good b s t \<Longrightarrow> good b s (t\<lparr>se_menu := menu_close (se_menu t)\<rparr>)"
  "good b s t \<Longrightarrow> good b s (t\<lparr>se_menu := menu_open (se_menu t)\<rparr>)"
  "good b s t \<Longrightarrow> good b s (t\<lparr>se_menu := menu_open_at (se_menu t) x y\<rparr>)"
  "good b s t \<Longrightarrow> good b s (t\<lparr>se_menu := menu_move (se_menu t) k\<rparr>)"
  "good b s t \<Longrightarrow> good b s (t\<lparr>se_menu := menu_backspace (se_menu t)\<rparr>)"
  "good b s t \<Longrightarrow> good b s (t\<lparr>se_menu := menu_type (se_menu t) c\<rparr>)"
  "good b s t \<Longrightarrow> good b s (t\<lparr>se_menu := set_extra_items (se_menu t) items\<rparr>)"
  by (rule good_menu; simp add: inv_intros)+

lemma good_close [good_intros]: "good b s t \<Longrightarrow> good b s (upd_desk (close_window i) t)"
  using close_window_ok[of "se_desk t" i] by (auto simp: good_def se_ok_def upd_desk_def opened_def fresh_only_def)

lemma good_open [good_intros]: "good False s t \<Longrightarrow> good True s (upd_desk (\<lambda>d. fst (open_window ops w work a app_id d)) t)"
proof -
  assume t: "good False s t"
  have "wm_next_id (se_wm t) \<noteq> - 1" if "opened t + 1 < 2 ^ 32"
    using that by (auto simp: opened_def unsigned_minus_1_eq_mask mask_eq_exp_minus_1)
  then show ?thesis using t open_window_ok[of "se_desk t" ops w work a app_id]
    by (auto simp: good_def se_ok_def upd_desk_def opened_def fresh_only_def dest!: subsetD[where B = "insert _ _"])
qed

lemma find_in: "wm_find m i = Some w \<Longrightarrow> i \<in> wm_ids m" "wm_find m i = Some w \<Longrightarrow> w_id w = i"
  using wm_find_None[of m i] wm_find_in[of m i w] by auto

section \<open>Handlers\<close>

lemma cancel_drag_good [good_intros]: "good b s t \<Longrightarrow> good b s (cancel_drag t)"
  by (auto simp: cancel_drag_def split: drag_state.split intro!: good_intros)

lemma watchdog_good [good_intros]: "good b s t \<Longrightarrow> good b s (watchdog env t)"
  by (simp add: watchdog_def cancel_drag_good)

lemma open_from_catalog_good [good_intros]: "good False s t \<Longrightarrow> good True s (open_from_catalog ops env i t)"
  by (auto simp: open_from_catalog_def good_weak split: option.split intro!: good_intros)

lemma request_close_good [good_intros]: "good b s t \<Longrightarrow> good b s (request_close ops i t)"
  by (auto simp: request_close_def Let_def split: option.split intro!: good_intros)

lemma snap_focused_good [good_intros]: "good b s t \<Longrightarrow> good b s (snap_focused amb d t)"
  by (auto simp: snap_focused_def Let_def split: option.split intro!: good_intros)

lemma dock_good [good_intros]: "good b s t \<Longrightarrow> good b s (dock_into_free_half i t)"
  by (auto simp: dock_into_free_half_def Let_def find_in split: option.split intro!: good_intros)

lemma tile_good [good_intros]: "good b s t \<Longrightarrow> good b s (tile_windows t)"
proof -
  let ?f = "\<lambda>work m (i, c). set_rect (set_mode m i Normal work) i c work"
  have "(wm_ok m \<longrightarrow> wm_ok (foldl (?f work) m xs)) \<and> wm_ids (foldl (?f work) m xs) = wm_ids m
      \<and> wm_next_id (foldl (?f work) m xs) = wm_next_id m" for work m xs
    by (induction xs arbitrary: m) (auto simp: set_rect_ok set_mode_ok split: prod.splits)
  then have "good b s t \<Longrightarrow> good b s (upd_wm (\<lambda>m. foldl (?f work) m xs) t)" for work xs t
    by (intro good_wm) simp_all
  moreover assume "good b s t"
  ultimately show ?thesis by (simp add: tile_windows_def Let_def)
qed

lemma focus_or_open_good [good_intros]: "good False s t \<Longrightarrow> good True s (focus_or_open ops env i t)"
proof (cases "find (\<lambda>w. w_app_id w = i) (wm_stack (se_wm t))")
  case (Some w)
  assume t: "good False s t"
  have "w_id w \<in> wm_ids (se_wm t)" using Some by (auto simp: find_Some_iff wm_ids_def)
  then show ?thesis using Some good_weak[OF t, of True] by (cases "w_mode w = Minimized") (simp_all add: focus_or_open_def good_intros)
qed (simp add: focus_or_open_def open_from_catalog_good)

lemma extras_good [good_intros]: "good b s t \<Longrightarrow> good b s (refresh_menu_extras t)"
  unfolding refresh_menu_extras_def Let_def by (rule good_intros)

lemma run_update_good [good_intros]: "good b s t \<Longrightarrow> good b s (run_update_command env i t)"
  by (simp add: run_update_command_def Let_def)

lemma run_menu_good [good_intros]: "good False s t \<Longrightarrow> good True s (run_menu ops env i t)"
proof -
  assume t: "good False s t"
  define u where "u = set_dirty (t\<lparr>se_menu := menu_close (se_menu t)\<rparr>)"
  have u: "good False s u" using t by (simp add: u_def good_intros)
  show ?thesis unfolding run_menu_def Let_def u_def[symmetric] using u good_weak[OF u, of True]
    by (simp add: good_intros split: option.split)
qed

lemma menu_key_good [good_intros]: "good False s t \<Longrightarrow> good True s (menu_key ops env k t)"
proof -
  assume t: "good False s t"
  show ?thesis using run_menu_good[OF t] good_weak[OF t, of True] unfolding menu_key_def Let_def
    by (cases "k_key k") (auto simp: good_intros split: option.split)
qed

lemma answer_modal_good [good_intros]: "good b s t \<Longrightarrow> good b s (answer_modal env c t)"
  by (auto simp: answer_modal_def Let_def split: modal_kind.split option.split intro!: good_intros)

lemma window_action_good [good_intros]: "good b s t \<Longrightarrow> good b s (window_action ops env a w t)"
  unfolding window_action_def Let_def by (cases a) (simp_all add: good_intros split: option.split)

lemma do_action_good [good_intros]: "good b s t \<Longrightarrow> good b s (do_action ops amb env a t)"
proof -
  assume "good b s t"
  then have t: "good b s (set_dirty t)" by simp
  show ?thesis unfolding do_action_def Let_def using t
    by (cases a) (simp_all add: good_intros split: option.split del: good_set_dirty)
qed

lemma fold_good: "(\<And>t x. good b s t \<Longrightarrow> good b s (f t x)) \<Longrightarrow> good b s t \<Longrightarrow> good b s (foldl f t xs)"
  by (induction xs arbitrary: t) auto

lemma refresh_modal_good [simp]: "good b s (refresh_update_modal t) = good b s t"
  by (simp add: refresh_update_modal_def Let_def)

lemma tick_update_good [good_intros]: "good b s t \<Longrightarrow> good b s (tick_update env t)"
  by (simp add: tick_update_def)

lemma mark_refresh_good [good_intros]: "good b s t \<Longrightarrow> good b s (mark_refresh_due ops env t)"
proof -
  assume t: "good b s t"
  have "good b s u \<Longrightarrow> good b s (refresh_app ops env u i)" for u i
    by (auto simp: refresh_app_def split: option.split intro: good_intros)
  from fold_good[of b s "refresh_app ops env", OF this] t show ?thesis
    unfolding mark_refresh_due_def Let_def by simp
qed

lemma report_good [simp]: "good b s (report_update t) = good b s t"
  by (simp add: report_update_def Let_def split: prod.split)

lemma good_reaped: "good b s t
    \<Longrightarrow> good b s (upd_desk (\<lambda>d. d\<lparr>dk_children := take k (dk_children (se_desk t)) @ drop (Suc k) (dk_children (se_desk t))\<rparr>) t)"
proof -
  have "snd ` set (take k cs @ drop (Suc k) cs) \<subseteq> snd ` set cs" for cs :: "(int \<times> 32 word) list"
    using set_take_subset[of k cs] set_drop_subset[of "Suc k" cs] by (simp add: image_mono flip: image_Un)
  from subset_trans[OF this] show "good b s t \<Longrightarrow> ?thesis"
    unfolding good_def se_ok_def upd_desk_def opened_def desk_ok_def hosts_ok_def fresh_only_def by simp
qed

lemma child_exit_good [good_intros]: "good b s t \<Longrightarrow> good b s (session_child_exit ops env pid st t)"
  by (simp add: session_child_exit_def Let_def good_reaped good_to_app split: option.split)

lemma fd_event_good [good_intros]: "good b s t \<Longrightarrow> good b s (on_fd_event ops env k ev t)"
  by (auto simp: on_fd_event_def split: option.split intro!: good_desk host_deliver_ok)

lemma hit_in: "hit m x y = Some w \<Longrightarrow> w_id w \<in> wm_ids m"
  by (auto simp: hit_def find_Some_iff wm_ids_def) (metis in_set_conv_nth set_rev length_rev image_eqI)

lemma drag_good [good_intros]:
  "good b s t \<Longrightarrow> good b s (drag_moving env m w dx dy r t)" "good b s t \<Longrightarrow> good b s (drag_resizing env m w r t)"
  by (simp_all add: drag_moving_def drag_resizing_def Let_def good_intros split: option.split)

lemma wheel_good [good_intros]: "good b s t \<Longrightarrow> good b s (mouse_wheel ops env m t)"
  by (simp add: mouse_wheel_def good_intros split: option.split win_hit.split)

lemma held_good [good_intros]: "good b s t \<Longrightarrow> good b s (mouse_held ops env m t)"
  by (simp add: mouse_held_def Let_def good_intros split: option.split)

lemma press_task_good [good_intros]: "good False s t \<Longrightarrow> good True s (press_task ops env m win t)"
  using good_weak[of s t True]
  by (auto simp: press_task_def find_in split: option.split intro: good_intros)

lemma press_panel_good [good_intros]: "good False s t \<Longrightarrow> good True s (press_panel ops env m what rank win t)"
proof -
  assume t: "good False s t"
  define u where "u = set_dirty t"
  have u: "good False s u" using t by (simp add: u_def)
  show ?thesis unfolding press_panel_def Let_def u_def[symmetric] using u good_weak[OF u, of True]
    by (cases what) (simp_all add: good_intros)
qed

lemma press_window_good:
  assumes "w_id w \<in> wm_ids (se_wm t)" "good b s t"
  shows "good b s (press_window ops env m w t)"
proof -
  define u where "u = (if wm_focused (se_wm t) \<noteq> w_id w then upd_wm (\<lambda>wm. focus wm (w_id w)) t else t)"
  have u: "good b s u" using assms by (simp add: u_def good_focus)
  show ?thesis unfolding press_window_def u_def[symmetric] Let_def using u
    by (simp add: good_intros split: win_hit.split)
qed

lemma press_desktop_good [good_intros]: "good False s t \<Longrightarrow> good True s (press_desktop ops env m t)"
proof -
  assume t: "good False s t"
  obtain what rank win where p: "panel_hit (se_panel t) (m_x m) (m_y m) = (what, rank, win)" by (metis prod_cases3)
  show ?thesis unfolding press_desktop_def p Let_def using t good_weak[OF t, of True]
    by (auto simp: hit_in split: option.split intro: good_intros press_window_good)
qed

lemma mouse_press_good [good_intros]: "good False s t \<Longrightarrow> good True s (mouse_press ops env m t)"
proof -
  assume t: "good False s t"
  show ?thesis unfolding mouse_press_def Let_def using t good_weak[OF t, of True]
    by (simp add: good_intros split: modal_where.split menu_where.split)
qed

lemma on_mouse_good [good_intros]: "good False s t \<Longrightarrow> good True s (on_mouse ops env m t)"
proof -
  assume t: "good False s t"
  show ?thesis unfolding on_mouse_def using t good_weak[OF t, of True]
    by (simp add: good_intros split: drag_state.split)
qed

lemma modal_key_good [good_intros]: "good b s t \<Longrightarrow> good b s (modal_key env k t)"
  unfolding modal_key_def by (cases "k_key k") (simp_all add: good_intros)

lemma leader_key_good [good_intros]: "good b s t \<Longrightarrow> good b s (leader_key ops amb env k t)"
proof -
  assume t: "good b s t"
  obtain ld lr where l: "leader_feed (se_leader t) k = (ld, lr)" by fastforce
  show ?thesis unfolding leader_key_def l Let_def using t by (simp add: good_intros split: option.split)
qed

lemma on_key_good [good_intros]: "good False s t \<Longrightarrow> good True s (on_key ops amb env k t)"
proof -
  assume t: "good False s t"
  show ?thesis unfolding on_key_def Let_def using t good_weak[OF t, of True]
    by (simp add: good_intros split: option.split)
qed

lemma on_paste_good [good_intros]: "good b s t \<Longrightarrow> good b s (on_paste ops env u c t)"
  unfolding on_paste_def Let_def by (simp add: good_intros split: option.split)

lemma on_input_good [good_intros]: "good False s t \<Longrightarrow> good True s (on_input ops amb env e t)"
proof -
  assume "good False s t"
  then have t: "good False s (watchdog env t)" by (rule good_intros)
  show ?thesis unfolding on_input_def Let_def on_focus_def using t good_weak[OF t, of True]
    by (cases e) (simp_all add: good_intros)
qed

end
