(* ===== verification/Session_Render.thy ===== *)
theory Session_Render
  imports Session Wm_Draw
begin

text \<open>
  \<open>Session::render\<close> of \<open>src/daemon/session.cpp\<close>: the composition of a frame.  It also serves what
  applications asked for (one window opened, one close request), decides the geometry of every window
  and where the caret is.  The surface it fills is an argument and a result.
\<close>

definition kMinCols :: int where "kMinCols = 40"
definition kMinRows :: int where "kMinRows = 12"
definition kFullWarning :: bytes where "kFullWarning = str ''terminal trop petit - 40x12 minimum''"
definition kShortWarning :: bytes where "kShortWarning = str ''trop petit''"

definition ensure_window :: "'a app_ops \<Rightarrow> session_env \<Rightarrow> 'a session \<Rightarrow> 'a session" where
  "ensure_window ops env s = (if se_seeded s then s else open_from_catalog ops env kDefaultApp (s\<lparr>se_seeded := True\<rparr>))"

text \<open>An application asked for by another: one per frame.\<close>

definition serve_pending :: "'a app_ops \<Rightarrow> session_env \<Rightarrow> 'a session \<Rightarrow> 'a session" where
  "serve_pending ops env s =
     (case dk_pending (se_desk s) of
        [] \<Rightarrow> s
      | (a, app_id) # rest \<Rightarrow>
          set_dirty (upd_desk (\<lambda>d. fst (open_window ops (en_write env) (se_last_work s) a app_id (d\<lparr>dk_pending := rest\<rparr>))) s))"

text \<open>A window whose application asked to be closed: one per frame, through \<open>request_close\<close>.\<close>

definition serve_close :: "'a app_ops \<Rightarrow> 'a session \<Rightarrow> 'a session" where
  "serve_close ops s =
     (case find w_close_requested (wm_stack (se_wm s)) of
        None \<Rightarrow> s
      | Some w \<Rightarrow> request_close ops (w_id w) (upd_wm (upd_win (\<lambda>x. x\<lparr>w_close_requested := False\<rparr>) (w_id w)) s))"

definition draw_empty_hint :: "bool \<Rightarrow> rect \<Rightarrow> surface \<Rightarrow> rect \<Rightarrow> 'a session \<Rightarrow> surface" where
  "draw_empty_hint amb v o1 work s =
     (let burger = (if pf_utf8 (se_out s) then [0xE2, 0x98, 0xB0] else str ''='');
          st = style_init\<lparr>st_fg := th_panel_fg (se_theme s), st_bg := th_desktop_bg (se_theme s)\<rparr>;
          top = ry work + cdiv (rh work - 2) 2;
          line = (\<lambda>o2 (i, l). let u = elide_to_cells amb l (rw work) [];
                    x = rx work + cdiv (rw work - text_cells amb u) 2
                  in fst (view_text amb v o2 (if x < rx work then rx work else x) (top + i) u st))
      in foldl line o1 [(0, str ''Bureau vide''), (1, str ''Clic droit ici, ou '' @ burger @ str '' en bas, pour ouvrir le menu'')])"

definition caret_of :: "'a app_ops \<Rightarrow> 32 word \<Rightarrow> window \<Rightarrow> 'a \<Rightarrow> (int \<times> int) option \<Rightarrow> (int \<times> int) option" where
  "caret_of ops focused w a old =
     (let cr = client_rect (w_display_rect w) in
      if w_id w \<noteq> focused then old
      else (case ap_wants_cursor ops a of
          None \<Rightarrow> old
        | Some (x, y) \<Rightarrow>
            if rx cr + x \<ge> rx cr \<and> rx cr + x < rx cr + rw cr \<and> ry cr + y \<ge> ry cr \<and> ry cr + y < ry cr + rh cr
            then Some (rx cr + x, ry cr + y) else old))"

text \<open>The size of its view, told to an application whose view has changed.\<close>

definition tell_size :: "'a app_ops \<Rightarrow> session_env \<Rightarrow> window \<Rightarrow> 'a session \<Rightarrow> 'a session" where
  "tell_size ops env w s =
     (let cr = client_rect (w_display_rect w); cs = \<lparr>sz_w = rw cr, sz_h = rh cr\<rparr>
      in if cs \<noteq> w_sent_size w
         then upd_wm (upd_win (\<lambda>x. x\<lparr>w_sent_size := cs\<rparr>) (w_id w)) (to_app ops env (ap_resize ops cs) (w_id w) s) else s)"

definition render_window ::
  "'a app_ops \<Rightarrow> bool \<Rightarrow> session_env \<Rightarrow> rect \<Rightarrow> 32 word \<Rightarrow> ('a session \<times> surface) \<Rightarrow> 32 word \<Rightarrow> ('a session \<times> surface)" where
  "render_window ops amb env v focused so i =
     (case so of (s, o1) \<Rightarrow>
        (case wm_find (se_wm s) i of
           None \<Rightarrow> (s, o1)
         | Some w0 \<Rightarrow>
             if w_mode w0 = Minimized then (s, o1)
             else
               let s1 = tell_size ops env w0 s; cr = client_rect (w_display_rect w0) in
               (case (wm_find (se_wm s1) i, dk_apps (se_desk s1) i) of
                  (Some w, Some a) \<Rightarrow>
                    let o2 = draw_decor amb v o1 w (i = focused) (se_theme s1) (session_border s1);
                        (a', o3) = ap_render ops amb (view_sub v cr) a o2
                    in ((upd_desk (put_app ops i a') s1)\<lparr>se_cursor := caret_of ops focused w a' (se_cursor s1)\<rparr>, o3)
                | _ \<Rightarrow> (s1, o1))))"

definition draw_outline :: "bool \<Rightarrow> rect \<Rightarrow> rect \<Rightarrow> 'a session \<Rightarrow> surface \<Rightarrow> surface" where
  "draw_outline amb v work s o1 =
     (case se_drag s of
        DragResizing win outline \<Rightarrow>
          (case wm_find (se_wm s) win of
             None \<Rightarrow> o1
           | Some w \<Rightarrow> view_box amb v o1 (clamp_to outline work (win_min w)) (session_border s)
                         (style_init\<lparr>st_fg := th_accent (se_theme s), st_bg := th_desktop_bg (se_theme s)\<rparr>))
      | _ \<Rightarrow> o1)"

text \<open>The background: the signature, the counters over it, the hint of an empty desktop.\<close>

definition draw_back :: "bool \<Rightarrow> rect \<Rightarrow> rect \<Rightarrow> 'a session \<Rightarrow> surface \<Rightarrow> surface" where
  "draw_back amb v work s o1 =
     (let th = se_theme s; b = session_border s;
          o2 = draw_banner amb (view_sub v work) o1 th b;
          cw = min 36 (cdiv (rw work) 2);
          o3 = (if cw \<ge> 24 \<and> rh work > 3 + 8
                then sysinfo_draw amb (view_sub v (mk_rect (rx work + rw work - cw - 1) (ry work + 3) cw (rh work - 3))) o2 (se_sys s) th b
                else o2)
      in if wm_stack (se_wm s) = [] then draw_empty_hint amb v o3 work s else o3)"

text \<open>What covers the windows, from the proposal to dock to the dialogue.\<close>

definition draw_shell :: "bool \<Rightarrow> rect \<Rightarrow> 32 word \<Rightarrow> int \<Rightarrow> int \<Rightarrow> 'a session \<Rightarrow> surface \<Rightarrow> 'a session \<times> surface" where
  "draw_shell amb v focused cols rows s o1 =
     (let th = se_theme s; b = session_border s;
          o2 = assist_draw amb v o1 (se_assist s) th b;
          p = panel_layout amb ((se_panel s)\<lparr>pn_hint := panel_hint s, pn_badge := sv_badge (se_update s)\<rparr>) (se_wm s)
                cols rows (pf_utf8 (se_out s));
          hidden = (case wm_find (se_wm s) focused of Some w \<Rightarrow> w_mode w = Fullscreen | None \<Rightarrow> False);
          o3 = (if hidden then o2 else panel_draw amb v o2 p th (ck_text (se_clock s)) (ck_date (se_clock s)));
          cur = (if mn_open (se_menu s) \<or> hp_open (se_help s) \<or> md_open (se_modal s) then None else se_cursor s);
          mn = menu_layout (se_menu s) cols rows; hp = help_layout amb (se_help s) cols rows; md = modal_layout (se_modal s) cols rows;
          o4 = menu_draw amb v o3 mn th b;
          o5 = help_draw amb v o4 hp th b (leader_label s) (pf_utf8 (se_out s))
      in (s\<lparr>se_panel := p, se_cursor := cur, se_menu := mn, se_help := hp, se_modal := md\<rparr>, modal_draw amb v o5 md th b))"

definition tick_clock :: "session_env \<Rightarrow> 'a session \<Rightarrow> 'a session" where
  "tick_clock env s =
     (let (c, changed) = clock_update (en_hour env) (en_minute env) (en_date env) (se_clock s)
      in if changed then set_dirty (s\<lparr>se_clock := c\<rparr>) else s\<lparr>se_clock := c\<rparr>)"

text \<open>What a frame changes before anything but the background is drawn; \<open>last_work_\<close> is the area it works in.\<close>

definition prepare_frame :: "'a app_ops \<Rightarrow> session_env \<Rightarrow> int \<Rightarrow> int \<Rightarrow> 'a session \<Rightarrow> 'a session" where
  "prepare_frame ops env cols rows s =
     (let s1 = serve_close ops (serve_pending ops env (tick_clock env s));
          work = work_area cols rows (pn_edge (se_panel s1)) (thickness (se_panel s1));
          s2 = ensure_window ops env (s1\<lparr>se_last_work := work\<rparr>);
          s3 = upd_wm (\<lambda>m. Wm_Manager.relayout m work cols rows) s2
      in s3\<lparr>se_sys := sysinfo_refresh (en_proc env) (steady_now env div 1000000) (se_sys s3)\<rparr>)"

definition render :: "'a app_ops \<Rightarrow> bool \<Rightarrow> session_env \<Rightarrow> surface \<Rightarrow> 'a session \<Rightarrow> 'a session \<times> surface" where
  "render ops amb env out s0 =
     (let s = (watchdog env s0)\<lparr>se_cursor := None\<rparr>; v = surface_root out; cols = sf_w out; rows = sf_h out;
          o1 = view_fill v out (mk_rect 0 0 cols rows) (style_init\<lparr>st_bg := th_desktop_bg (se_theme s)\<rparr>)
      in if cols < kMinCols \<or> rows < kMinRows then
           (s, fst (view_text amb v o1 0 0 (if cols \<ge> int (length kFullWarning) then kFullWarning else kShortWarning)
                      (style_init\<lparr>st_fg := th_panel_fg (se_theme s)\<rparr>)))
         else
           let s1 = prepare_frame ops env cols rows s; work = se_last_work s1; focused = wm_focused (se_wm s1);
               (s2, o2) = foldl (render_window ops amb env v focused) (s1, draw_back amb v work s1 o1) (map w_id (wm_stack (se_wm s1)))
           in draw_shell amb v focused cols rows s2 (draw_outline amb v work s2 o2))"

end
