(* ===== verification/Session_Run.thy ===== *)
theory Session_Run
  imports Session_Inv Session_Render
begin

text \<open>
  Whole runs of the session: any sequence of input, descriptor events, exits of children, ticks and
  frames keeps the invariant, and what each frame shows.
\<close>

section \<open>Frames keep the invariant\<close>

lemma good_pending [good_intros]: "good b s t \<Longrightarrow> good b s (upd_desk (\<lambda>d. d\<lparr>dk_pending := p\<rparr>) t)"
  by (rule good_desk) (auto simp: desk_ok_def hosts_ok_def same_windows_def)

lemma serve_pending_good [good_intros]: "good False s t \<Longrightarrow> good True s (serve_pending ops env t)"
proof (cases "dk_pending (se_desk t)")
  case (Cons p rest)
  assume t: "good False s t"
  obtain a i where p: "p = (a, i)" by fastforce
  have "good True s (upd_desk (\<lambda>d. fst (open_window ops w work a i d)) (upd_desk (\<lambda>d. d\<lparr>dk_pending := rest\<rparr>) t))" for w work
    using t by (intro good_intros)
  then show ?thesis using Cons p by (simp add: serve_pending_def upd_desk_def)
qed (simp add: serve_pending_def good_weak)

lemma serve_close_good [good_intros]: "good b s t \<Longrightarrow> good b s (serve_close ops t)"
  using upd_win_ok[OF mild_intros(2)]
  by (auto simp: serve_close_def split: option.split intro!: request_close_good good_wm)

lemma tick_clock_good [good_intros]: "good b s t \<Longrightarrow> good b s (tick_clock env t)"
  by (simp add: tick_clock_def split: prod.split)

lemma tell_size_good [good_intros]: "good b s t \<Longrightarrow> good b s (tell_size ops env w t)"
  using upd_win_ok[OF mild_intros(6)] by (auto simp: tell_size_def Let_def intro!: good_wm good_to_app)

lemma relayout_good [good_intros]: "good b s t \<Longrightarrow> good b s (upd_wm (\<lambda>m. Wm_Manager.relayout m work cols rows) t)"
  by (rule good_wm) (simp_all add: relayout_ok)

lemma put_app_same: "desk_ok d \<Longrightarrow> dk_apps d i \<noteq> None \<Longrightarrow> desk_ok (put_app ops i a d) \<and> same_windows d (put_app ops i a d)"
  by (rule put_app_ok) (auto simp: desk_ok_def hosts_ok_def)

lemma render_window_good [good_intros]: "good b s (fst so) \<Longrightarrow> good b s (fst (render_window ops amb env v f so i))"
proof -
  assume "good b s (fst so)"
  moreover obtain t o1 where so: "so = (t, o1)" by fastforce
  ultimately have t: "good b s t" by simp
  have "good b s (upd_desk (put_app ops i a') u)" if "good b s u" "dk_apps (se_desk u) i = Some a" for u a a'
    using that put_app_same[of "se_desk u" i ops a']
    by (auto simp: good_def se_ok_def upd_desk_def opened_def same_windows_def fresh_only_def)
  from this[OF tell_size_good[OF t]] tell_size_good[OF t, of ops env] t show ?thesis
    by (auto simp: render_window_def so Let_def split: option.split prod.split)
qed

lemma draw_shell_good [good_intros]: "good b s t \<Longrightarrow> good b s (fst (draw_shell amb v f cols rows t o1))"
  using good_menu[of b s "t\<lparr>se_panel := p, se_cursor := c\<rparr>" "menu_layout (se_menu t) cols rows" for p c]
  by (simp add: draw_shell_def Let_def inv_intros)

lemma ensure_good: "good True s (ensure_window ops env (s\<lparr>se_last_work := r\<rparr>))"
  unfolding ensure_window_def by (simp, intro impI good_intros) simp

lemma prepare_good: "\<exists>u. good True s u \<and> good True u (prepare_frame ops env cols rows s)"
proof -
  define s1 where "s1 = serve_close ops (serve_pending ops env (tick_clock env s))"
  have "good True s s1" unfolding s1_def by (intro good_intros) simp
  moreover have "good True s1 (prepare_frame ops env cols rows s)"
    unfolding prepare_frame_def s1_def[symmetric] Let_def good_upd by (intro relayout_good ensure_good)
  ultimately show ?thesis by blast
qed

lemma render_windows_good: "good b s (fst so) \<Longrightarrow> good b s (fst (foldl (render_window ops amb env v f) so is))"
  by (induction "is" arbitrary: so) (simp_all add: render_window_good)

lemma render_good: "\<exists>t. good True s t \<and> good True t (fst (render ops amb env out s))"
proof -
  define s0 where "s0 = (watchdog env s)\<lparr>se_cursor := None\<rparr>"
  have s0: "good False s s0" by (simp add: s0_def watchdog_good)
  obtain u where u: "good True s0 u" "good True u (prepare_frame ops env (sf_w out) (sf_h out) s0)" using prepare_good by blast
  let ?p = "prepare_frame ops env (sf_w out) (sf_h out) s0"
  have "good True u (fst (render ops amb env out s))" if "\<not> (sf_w out < kMinCols \<or> sf_h out < kMinRows)"
    using that render_windows_good[of True u "(?p, _)"] u(2)
    by (auto simp: render_def Let_def s0_def[symmetric] split: prod.splits intro!: draw_shell_good) (metis fst_conv)
  moreover have "fst (render ops amb env out s) = s0" if "sf_w out < kMinCols \<or> sf_h out < kMinRows"
    using that by (auto simp: render_def Let_def s0_def)
  ultimately show ?thesis using good_after[OF s0 u(1)] good_weak[OF s0, of True] by (metis good_refl)
qed

section \<open>Runs\<close>

datatype session_event =
    SeInput input_event
  | SeFd "64 word" "32 word"
  | SeChild int int
  | SeTickUpdate
  | SeRefresh
  | SeOutput output_profile
  | SeTakeDirty
  | SeRender surface

fun session_step :: "'a app_ops \<Rightarrow> bool \<Rightarrow> 'a session \<Rightarrow> session_env \<times> session_event \<Rightarrow> 'a session" where
  "session_step ops amb s (env, SeInput e) = on_input ops amb env e s"
| "session_step ops amb s (env, SeFd key events) = on_fd_event ops env key events s"
| "session_step ops amb s (env, SeChild pid status) = session_child_exit ops env pid status s"
| "session_step ops amb s (env, SeTickUpdate) = tick_update env s"
| "session_step ops amb s (env, SeRefresh) = mark_refresh_due ops env s"
| "session_step ops amb s (env, SeOutput p) = set_output p s"
| "session_step ops amb s (env, SeTakeDirty) = fst (take_dirty env s)"
| "session_step ops amb s (env, SeRender out) = fst (render ops amb env out s)"

lemma take_dirty_good [good_intros]: "good b s t \<Longrightarrow> good b s (fst (take_dirty env t))"
proof -
  have "good b s u \<Longrightarrow> good b s (upd_desk (\<lambda>d. d\<lparr>dk_dirty := False\<rparr>) u)" for u
    by (rule good_desk) (auto simp: desk_ok_def hosts_ok_def same_windows_def)
  then show "good b s t \<Longrightarrow> ?thesis" by (simp add: take_dirty_def Let_def split: prod.split)
qed

lemma session_step_ok:
  assumes "se_ok s" "opened s + 2 < 2 ^ 32"
  shows "se_ok (session_step ops amb s e) \<and> opened (session_step ops amb s e) \<le> opened s + 2
    \<and> fresh_only s (session_step ops amb s e)"
proof -
  obtain env v where e: "e = (env, v)" by fastforce
  have "good True s (session_step ops amb s e) \<or> (\<exists>t. good True s t \<and> good True t (session_step ops amb s e))"
  proof (cases v)
    case (SeRender out)
    then show ?thesis using render_good[of s ops amb env out] e by simp
  qed (simp_all add: e good_intros set_output_def)
  then show ?thesis using assms by (auto simp: good_def intro: fresh_only_trans)
qed

lemma session_run_ok:
  assumes "se_ok s" "opened s + 2 * length es < 2 ^ 32"
  shows "se_ok (foldl (session_step ops amb) s es) \<and> fresh_only s (foldl (session_step ops amb) s es)"
  using assms
proof (induction es arbitrary: s)
  case (Cons e es)
  have a: "se_ok (session_step ops amb s e)" "opened (session_step ops amb s e) \<le> opened s + 2" "fresh_only s (session_step ops amb s e)"
    using session_step_ok[of s ops amb e] Cons.prems by simp_all
  then show ?case using Cons.IH[OF a(1)] Cons.prems fresh_only_trans[OF a(3)] by simp
qed simp

lemma session_init_ok: "se_ok (session_init env p c d h) \<and> opened (session_init env p c d h) = 1"
  by (simp add: wm_ok_def stack_ok_def one_fullscreen_def session_init_def Let_def se_ok_def opened_def desk_ok_def hosts_ok_def menu_init_ok wm_init_def wm_ids_def)

end
