(* ===== verification/Session_Safe.thy ===== *)
theory Session_Safe
  imports Session_Run
begin

text \<open>
  Which applications a step of the session reaches.  \<open>present i s\<close>: window \<open>i\<close> still has its
  application; \<open>unsaved ops i s\<close>: it has one that wants a question asked before it is closed.
\<close>

section \<open>Steps that leave the applications alone\<close>

abbreviation se_apps :: "'a session \<Rightarrow> 32 word \<rightharpoonup> 'a" where
  "se_apps s \<equiv> dk_apps (se_desk s)"

lemma apps_basic [simp]:
  "se_apps (upd_wm f t) = se_apps t" "se_apps (set_dirty t) = se_apps t"
  by (simp_all add: upd_wm_def set_dirty_def upd_desk_def)

lemma apps_cancel [simp]: "se_apps (cancel_drag t) = se_apps t"
  by (simp add: cancel_drag_def split: drag_state.split)

lemma apps_same [simp]:
  "se_apps (watchdog env t) = se_apps t" "se_apps (snap_focused amb d t) = se_apps t"
  "se_apps (dock_into_free_half i t) = se_apps t" "se_apps (tile_windows t) = se_apps t"
  "se_apps (refresh_menu_extras t) = se_apps t" "se_apps (run_update_command env c t) = se_apps t"
  "se_apps (refresh_update_modal t) = se_apps t" "se_apps (tick_update env t) = se_apps t"
  "se_apps (report_update t) = se_apps t" "se_apps (set_output p t) = se_apps t" "se_apps (tick_clock env t) = se_apps t"
  "se_apps (fst (take_dirty env t)) = se_apps t" "se_apps (drag_moving env m w dx dy r t) = se_apps t"
  "se_apps (drag_resizing env m w r t) = se_apps t" "se_apps (on_focus f t) = se_apps t"
  by (simp_all add: watchdog_def snap_focused_def dock_into_free_half_def tile_windows_def refresh_menu_extras_def run_update_command_def
      refresh_update_modal_def tick_update_def report_update_def set_output_def tick_clock_def take_dirty_def drag_moving_def drag_resizing_def
      on_focus_def upd_desk_def Let_def split: option.split prod.split)

section \<open>A window with unsaved work\<close>

definition unsaved :: "'a app_ops \<Rightarrow> 32 word \<Rightarrow> 'a session \<Rightarrow> bool" where
  "unsaved ops i s \<longleftrightarrow> (case se_apps s i of Some a \<Rightarrow> ap_can_close ops a \<noteq> None | None \<Rightarrow> False)"

definition present :: "32 word \<Rightarrow> 'a session \<Rightarrow> bool" where
  "present i s \<longleftrightarrow> se_apps s i \<noteq> None"

lemma unsaved_present: "unsaved ops i s \<Longrightarrow> present i s"
  by (auto simp: unsaved_def present_def split: option.splits)

lemma unsaved_cong: "se_apps t = se_apps s \<Longrightarrow> unsaved ops i t = unsaved ops i s"
  by (simp add: unsaved_def)

lemma present_cong: "se_apps t = se_apps s \<Longrightarrow> present i t = present i s"
  by (simp add: present_def)

lemma apps_upd: "se_apps (t\<lparr>se_desk := d\<rparr>) = dk_apps d" by simp

named_theorems stays

lemma serve_apps [simp]: "dk_apps (serve_req w i d r) = dk_apps d"
  by (cases r) (auto simp: host_watch_def host_unwatch_def Let_def split: option.split prod.split)

lemma serves_apps [simp]: "dk_apps (foldl (serve_req w i) d rs) = dk_apps d"
  by (induction rs arbitrary: d) simp_all

lemma app_call_apps:
  "dk_apps (app_call ops w f i d) =
     (case dk_apps d i of None \<Rightarrow> dk_apps d | Some a \<Rightarrow> (dk_apps d)(i \<mapsto> fst (f (host_view_of i d) a)))"
  by (auto simp: app_call_def put_app_def split: option.split prod.split)

lemma present_app [stays]: "present i t \<Longrightarrow> present i (to_app ops env f j t)"
  by (auto simp: present_def to_app_def upd_desk_def app_call_apps split: option.split)

lemma present_open [stays]: "present i t \<Longrightarrow> present i (upd_desk (\<lambda>d. fst (open_window ops w work a app_id (d\<lparr>dk_pending := p\<rparr>))) t)"
  "present i t \<Longrightarrow> present i (upd_desk (\<lambda>d. fst (open_window ops w work a app_id d)) t)"
  by (auto simp: present_def upd_desk_def open_window_def Let_def app_call_apps split: option.split prod.split)

lemma present_simps [simp]:
  "present i (upd_wm f t) = present i t" "present i (set_dirty t) = present i t" "present i (cancel_drag t) = present i t"
  "present i (watchdog env t) = present i t" "present i (snap_focused amb d t) = present i t"
  "present i (dock_into_free_half j t) = present i t" "present i (tile_windows t) = present i t"
  "present i (refresh_menu_extras t) = present i t" "present i (run_update_command env c t) = present i t"
  "present i (refresh_update_modal t) = present i t" "present i (tick_update env t) = present i t"
  "present i (report_update t) = present i t" "present i (set_output p t) = present i t" "present i (tick_clock env t) = present i t"
  "present i (fst (take_dirty env t)) = present i t" "present i (drag_moving env m w dx dy r t) = present i t"
  "present i (drag_resizing env m w r t) = present i t" "present i (on_focus fb t) = present i t"
  by (simp_all only: present_def apps_basic apps_cancel apps_same)

lemma present_upd [simp]:
  "present i (t\<lparr>se_drag := a1\<rparr>) = present i t" "present i (t\<lparr>se_drag_stamp := a2\<rparr>) = present i t"
  "present i (t\<lparr>se_quit := a5\<rparr>) = present i t" "present i (t\<lparr>se_panel := a6\<rparr>) = present i t"
  "present i (t\<lparr>se_modal := a8\<rparr>) = present i t" "present i (t\<lparr>se_update := a9\<rparr>) = present i t"
  "present i (t\<lparr>se_help := b1\<rparr>) = present i t" "present i (t\<lparr>se_leader := b2\<rparr>) = present i t"
  "present i (t\<lparr>se_leader_stamp := b3\<rparr>) = present i t" "present i (t\<lparr>se_repeat_until := b4\<rparr>) = present i t"
  "present i (t\<lparr>se_seeded := b5\<rparr>) = present i t" "present i (t\<lparr>se_last_click := b6\<rparr>) = present i t"
  "present i (t\<lparr>se_click_x := b7\<rparr>) = present i t" "present i (t\<lparr>se_click_y := b8\<rparr>) = present i t"
  "present i (t\<lparr>se_repaint := b9\<rparr>) = present i t" "present i (t\<lparr>se_detach := c1\<rparr>) = present i t"
  "present i (t\<lparr>se_kind := c2\<rparr>) = present i t" "present i (t\<lparr>se_last_work := c3\<rparr>) = present i t"
  "present i (t\<lparr>se_cursor := c4\<rparr>) = present i t" "present i (t\<lparr>se_grab := c5\<rparr>) = present i t"
  "present i (t\<lparr>se_assist := c6\<rparr>) = present i t" "present i (t\<lparr>se_sys := c8\<rparr>) = present i t"
  "present i (t\<lparr>se_menu := c9\<rparr>) = present i t" "present i (t\<lparr>se_clock := d1\<rparr>) = present i t"
  by (simp_all add: present_def)

lemma unsaved_upd [simp]:
  "unsaved ops i (t\<lparr>se_drag_stamp := a2\<rparr>) = unsaved ops i t" "unsaved ops i (t\<lparr>se_last_click := b6\<rparr>) = unsaved ops i t"
  "unsaved ops i (t\<lparr>se_click_x := b7\<rparr>) = unsaved ops i t" "unsaved ops i (t\<lparr>se_click_y := b8\<rparr>) = unsaved ops i t"
  by (simp_all add: unsaved_def)

lemma catalog_stays [stays]: "present i t \<Longrightarrow> present i (open_from_catalog ops env c t)"
  by (simp add: open_from_catalog_def stays split: option.split)

lemma focus_or_open_stays [stays]: "present i t \<Longrightarrow> present i (focus_or_open ops env c t)"
  by (simp add: focus_or_open_def stays split: option.split)

lemma run_menu_stays [stays]: "present i t \<Longrightarrow> present i (run_menu ops env c t)"
  unfolding run_menu_def Let_def by (simp add: stays split: option.split)

lemma menu_key_stays [stays]: "present i t \<Longrightarrow> present i (menu_key ops env k t)"
  unfolding menu_key_def Let_def by (cases "k_key k") (auto simp: stays split: option.split)

lemma close_present: "present i t \<Longrightarrow> i \<noteq> j \<Longrightarrow> present i (upd_desk (close_window j) t)"
  by (simp add: present_def upd_desk_def close_window_def host_unwatch_all_def Let_def)

lemma request_close_stays: "unsaved ops i t \<Longrightarrow> present i (request_close ops j t)"
  using unsaved_present[of ops i t] close_present[of i "cancel_drag t" j]
  by (cases "i = j") (auto simp: request_close_def Let_def unsaved_def split: option.splits)

lemma answer_stays: "present i t \<Longrightarrow> md_target (se_modal t) \<noteq> i \<Longrightarrow> present i (answer_modal env c t)"
  by (auto simp: answer_modal_def Let_def close_present find_in split: modal_kind.split option.split)

lemma window_action_stays: "unsaved ops i t \<Longrightarrow> present i (window_action ops env a w t)"
  using unsaved_present[of ops i t] request_close_stays[of ops i t]
  unfolding window_action_def Let_def by (cases a) (simp_all add: stays split: option.split)

lemma do_action_stays: "unsaved ops i t \<Longrightarrow> present i (do_action ops amb env a t)"
proof -
  assume t: "unsaved ops i t"
  have d: "unsaved ops i (set_dirty t)" using t unsaved_cong[OF apps_basic(2), of ops i t] by simp
  show ?thesis using unsaved_present[OF t] window_action_stays[OF d]
    unfolding do_action_def Let_def by (cases a) (simp_all add: stays split: option.split)
qed

lemma refresh_stays [stays]: "present i t \<Longrightarrow> present i (mark_refresh_due ops env t)"
proof -
  have "present i u \<Longrightarrow> present i (refresh_app ops env u j)" for u j by (simp add: refresh_app_def stays split: option.split)
  then have "present i u \<Longrightarrow> present i (foldl (refresh_app ops env) u js)" for u js by (induction js arbitrary: u) auto
  then show "present i t \<Longrightarrow> ?thesis" by (simp add: mark_refresh_due_def Let_def)
qed

lemma present_children [simp]: "present i (upd_desk (\<lambda>d. d\<lparr>dk_children := c\<rparr>) t) = present i t"
  by (simp add: present_def upd_desk_def)

lemma child_exit_stays [stays]: "present i t \<Longrightarrow> present i (session_child_exit ops env pid st t)"
  by (simp add: session_child_exit_def Let_def stays split: option.split)

lemma fd_event_stays [stays]: "present i t \<Longrightarrow> present i (on_fd_event ops env k ev t)"
  by (auto simp: on_fd_event_def present_def upd_desk_def host_deliver_def app_call_apps split: option.split)

lemma wheel_stays [stays]: "present i t \<Longrightarrow> present i (mouse_wheel ops env m t)" "present i t \<Longrightarrow> present i (mouse_held ops env m t)"
  by (simp_all add: mouse_wheel_def mouse_held_def Let_def stays split: option.split win_hit.split)

lemma press_task_stays [stays]: "present i t \<Longrightarrow> present i (press_task ops env m w t)"
  by (simp add: press_task_def stays split: option.split)

lemma press_panel_stays [stays]: "present i t \<Longrightarrow> present i (press_panel ops env m what rank w t)"
  unfolding press_panel_def Let_def by (cases what) (simp_all add: stays)

lemma press_window_stays: "unsaved ops i t \<Longrightarrow> present i (press_window ops env m w t)"
proof -
  assume t: "unsaved ops i t"
  define u where "u = (if wm_focused (se_wm t) \<noteq> w_id w then upd_wm (\<lambda>wm. focus wm (w_id w)) t else t)"
  have u: "se_apps u = se_apps t" by (simp add: u_def)
  have p: "present i u" using unsaved_present[OF t] present_cong[OF u] by simp
  have "unsaved ops i u" using t unsaved_cong[OF u] by simp
  then show ?thesis using p unfolding press_window_def u_def[symmetric] Let_def
    by (simp add: stays request_close_stays split: win_hit.split)
qed

lemma press_desktop_stays: "unsaved ops i t \<Longrightarrow> present i (press_desktop ops env m t)"
  using unsaved_present[of ops i t] press_window_stays[of ops i t]
  by (simp add: press_desktop_def Let_def stays split: prod.split option.split)

lemma mouse_press_stays:
  assumes "unsaved ops i t" "\<not> (md_open (se_modal t) \<and> md_target (se_modal t) = i)"
  shows "present i (mouse_press ops env m t)"
proof -
  have "unsaved ops i (set_dirty (t\<lparr>se_assist := a\<rparr>))" for a
    using assms(1) unsaved_cong[of "set_dirty (t\<lparr>se_assist := a\<rparr>)" t] by simp
  from press_desktop_stays[OF this] press_desktop_stays[OF assms(1)] unsaved_present[OF assms(1)] assms(2) show ?thesis
    by (auto simp: mouse_press_def Let_def stays answer_stays split: modal_where.split menu_where.split)
qed

lemma on_mouse_stays:
  "unsaved ops i t \<Longrightarrow> \<not> (md_open (se_modal t) \<and> md_target (se_modal t) = i) \<Longrightarrow> present i (on_mouse ops env m t)"
  using unsaved_present[of ops i t] mouse_press_stays[of ops i t]
  by (simp add: on_mouse_def stays split: drag_state.split)

lemma leader_key_stays: "unsaved ops i t \<Longrightarrow> present i (leader_key ops amb env k t)"
proof -
  assume t: "unsaved ops i t"
  obtain ld lr where l: "leader_feed (se_leader t) k = (ld, lr)" by fastforce
  have "unsaved ops i (t\<lparr>se_leader := ld\<rparr>)" using t by (simp add: unsaved_def)
  from do_action_stays[OF this] unsaved_present[OF t] show ?thesis
    unfolding leader_key_def l Let_def by (simp add: stays split: option.split)
qed

lemma on_key_stays:
  assumes "unsaved ops i t" "\<not> (md_open (se_modal t) \<and> md_target (se_modal t) = i)"
  shows "present i (on_key ops amb env k t)"
proof -
  have l: "present i (leader_key ops amb env k u)" if "se_apps u = se_apps t" for u
    using leader_key_stays[of ops i u] unsaved_cong[OF that] assms(1) by simp
  have "present i (modal_key env k t)" if "md_target (se_modal t) \<noteq> i"
    using that unsaved_present[OF assms(1)] by (simp add: modal_key_def answer_stays split: key.split)
  then show ?thesis using assms(2) unsaved_present[OF assms(1)]
    by (auto simp: on_key_def Let_def stays intro!: l split: option.split)
qed

lemma on_input_stays:
  assumes "unsaved ops i t" "\<not> (md_open (se_modal t) \<and> md_target (se_modal t) = i)"
  shows "present i (on_input ops amb env e t)"
proof -
  have w: "unsaved ops i (watchdog env t)" using assms(1) unsaved_cong[OF apps_same(1), of ops i env t] by simp
  have m: "se_modal (watchdog env t) = se_modal t"
    by (simp add: watchdog_def cancel_drag_def upd_wm_def upd_desk_def split: drag_state.split)
  have "present i (on_paste ops env u c (watchdog env t))" for u c
    using unsaved_present[OF w] by (simp add: on_paste_def Let_def stays split: option.split)
  then show ?thesis using on_key_stays[OF w] on_mouse_stays[OF w] unsaved_present[OF assms(1)] assms(2) m
    by (auto simp: on_input_def Let_def split: input_event.split)
qed

end
