(* ===== verification/Editor_Buffer.thy ===== *)
theory Editor_Buffer
  imports Lines
begin

text \<open>
  \<open>src/apps/editor/buffer.cpp\<close>: the text of the editor, a list of lines.  The abstract text
  is one string with its line ends; a position (line, column) is an offset in it, and every
  editing operation is shown to be the insertion or the removal of bytes at that offset.
\<close>

section \<open>Model\<close>

type_synonym textpos = "nat \<times> nat"

record textbuf =
  tx_lines :: "bytes list"
  tx_modified :: bool
  tx_trailing :: bool

definition buf_init :: textbuf where
  "buf_init = \<lparr>tx_lines = [[]], tx_modified = False, tx_trailing = True\<rparr>"

text \<open>The loop of \<open>load\<close>: unlike the other ones, it drops what follows the last line end
  when that is empty.\<close>

function load_loop :: "bytes \<Rightarrow> nat \<Rightarrow> bytes list" where
  "load_loop s start =
     (if start \<le> length s then
        (case find_from s [nl] start of
           None \<Rightarrow> if start < length s then [drop start s] else []
         | Some k \<Rightarrow> take (k - start) (drop start s) # load_loop s (k + 1))
      else [])"
  by pat_completeness auto
termination
  by (relation "measure (\<lambda>(s, i). Suc (length s) - i)") (auto dest: find_from_bounds)

declare load_loop.simps [simp del]

definition buf_load :: "bytes \<Rightarrow> textbuf" where
  "buf_load s =
     (let ls = load_loop s 0
      in \<lparr>tx_lines = (if ls = [] then [[]] else ls), tx_modified = False,
          tx_trailing = (s = [] \<or> last s = nl)\<rparr>)"

definition buf_text :: "textbuf \<Rightarrow> bytes" where
  "buf_text b =
     concat (map (\<lambda>i. tx_lines b ! i @ (if i + 1 < length (tx_lines b) then [nl] else [])) [0..<length (tx_lines b)])
     @ (if tx_trailing b then [nl] else [])"

definition buf_line :: "textbuf \<Rightarrow> nat \<Rightarrow> bytes" where
  "buf_line b i = (if i \<ge> length (tx_lines b) then [] else tx_lines b ! i)"

definition mark_saved :: "textbuf \<Rightarrow> textbuf" where
  "mark_saved b = b\<lparr>tx_modified := False\<rparr>"

definition buf_clamp :: "textbuf \<Rightarrow> textpos \<Rightarrow> textpos" where
  "buf_clamp b p =
     (if tx_lines b = [] then (0, 0)
      else let l = (if fst p \<ge> length (tx_lines b) then length (tx_lines b) - 1 else fst p);
               n = length (tx_lines b ! l)
        in (l, if snd p > n then n else snd p))"

definition buf_insert :: "textbuf \<Rightarrow> textpos \<Rightarrow> bytes \<Rightarrow> textbuf \<times> textpos" where
  "buf_insert b at0 s =
     (let (l, c) = buf_clamp b at0 in
      if s = [] then (b, (l, c))
      else let x = tx_lines b ! l
        in (b\<lparr>tx_lines := (tx_lines b)[l := take c x @ s @ drop c x], tx_modified := True\<rparr>, (l, c + length s)))"

definition split_line :: "textbuf \<Rightarrow> textpos \<Rightarrow> textbuf \<times> textpos" where
  "split_line b at0 =
     (let (l, c) = buf_clamp b at0; x = tx_lines b ! l
      in (b\<lparr>tx_lines := take l (tx_lines b) @ take c x # drop c x # drop (l + 1) (tx_lines b), tx_modified := True\<rparr>,
          (l + 1, 0)))"

definition erase_before :: "textbuf \<Rightarrow> textpos \<Rightarrow> textbuf \<times> textpos" where
  "erase_before b at0 =
     (let (l, c) = buf_clamp b at0; ls = tx_lines b; x = ls ! l in
      if c > 0 then (b\<lparr>tx_lines := ls[l := take (c - 1) x @ drop c x], tx_modified := True\<rparr>, (l, c - 1))
      else if l = 0 then (b, (l, c))
      else (b\<lparr>tx_lines := take (l - 1) ls @ (ls ! (l - 1) @ x) # drop (l + 1) ls, tx_modified := True\<rparr>,
            (l - 1, length (ls ! (l - 1)))))"

definition erase_at :: "textbuf \<Rightarrow> textpos \<Rightarrow> textbuf \<times> textpos" where
  "erase_at b at0 =
     (let (l, c) = buf_clamp b at0; ls = tx_lines b; x = ls ! l in
      if c < length x then (b\<lparr>tx_lines := ls[l := take c x @ drop (c + 1) x], tx_modified := True\<rparr>, (l, c))
      else if l + 1 \<ge> length ls then (b, (l, c))
      else (b\<lparr>tx_lines := take l ls @ (x @ ls ! (l + 1)) # drop (l + 2) ls, tx_modified := True\<rparr>, (l, c)))"

text \<open>The inner loop of \<open>find\<close> over the lines of one pass, and its two passes.\<close>

fun find_pass :: "bytes list \<Rightarrow> bytes \<Rightarrow> (nat \<times> nat) list \<Rightarrow> textpos option" where
  "find_pass ls needle [] = None"
| "find_pass ls needle ((i, start) # rest) =
     (if start > length (ls ! i) then find_pass ls needle rest
      else (case find_from (ls ! i) needle start of
          Some k \<Rightarrow> Some (i, k)
        | None \<Rightarrow> find_pass ls needle rest))"

definition buf_find :: "textbuf \<Rightarrow> bytes \<Rightarrow> textpos \<Rightarrow> textpos option" where
  "buf_find b needle from0 =
     (let ls = tx_lines b in
      if needle = [] \<or> ls = [] then None
      else let (l, c) = buf_clamp b from0
        in (case find_pass ls needle (map (\<lambda>i. (i, if i = l then c else 0)) [l..<length ls]) of
              Some p \<Rightarrow> Some p
            | None \<Rightarrow> find_pass ls needle (map (\<lambda>i. (i, 0)) [0..<min (l + 1) (length ls)])))"

section \<open>The buffer as one text\<close>

definition flat :: "textbuf \<Rightarrow> bytes" where
  "flat b = join_lines (tx_lines b)"

text \<open>What stands before and after a line.\<close>

definition before_line :: "bytes list \<Rightarrow> nat \<Rightarrow> bytes" where
  "before_line ls l = concat (map (\<lambda>x. x @ [nl]) (take l ls))"

definition after_line :: "bytes list \<Rightarrow> nat \<Rightarrow> bytes" where
  "after_line ls l = concat (map ((#) nl) (drop (Suc l) ls))"

definition pos_offset :: "textbuf \<Rightarrow> textpos \<Rightarrow> nat" where
  "pos_offset b p = length (before_line (tx_lines b) (fst p)) + snd p"

definition buf_ok :: "textbuf \<Rightarrow> bool" where
  "buf_ok b \<longleftrightarrow> tx_lines b \<noteq> [] \<and> (\<forall>l \<in> set (tx_lines b). nl \<notin> set l)"

definition pos_ok :: "textbuf \<Rightarrow> textpos \<Rightarrow> bool" where
  "pos_ok b p \<longleftrightarrow> fst p < length (tx_lines b) \<and> snd p \<le> length (tx_lines b ! fst p)"

lemma join_tail: "join_lines (x # ls) = x @ concat (map ((#) nl) ls)"
  by (induction ls arbitrary: x) (auto simp: join_lines_Cons)

lemma join_split: "l < length ls \<Longrightarrow> join_lines ls = before_line ls l @ ls ! l @ after_line ls l"
proof (induction ls arbitrary: l)
  case (Cons x ls)
  then show ?case
    by (cases l) (auto simp: before_line_def after_line_def join_tail[symmetric] join_lines_Cons[of x ls] simp del: join_lines.simps)
qed simp

lemma join_around:
  "join_lines (take l ls @ ms @ drop k ls) =
     (if ms = [] then join_lines (take l ls @ drop k ls)
      else before_line ls l @ join_lines ms @ concat (map ((#) nl) (drop k ls)))"
proof (cases "ms = []")
  case False
  then obtain m ms' where m: "ms = m # ms'" by (cases ms) auto
  have "join_lines (xs @ m # ys) = concat (map (\<lambda>x. x @ [nl]) xs) @ join_lines (m # ys)" for xs ys
    by (induction xs) (auto simp: join_lines_Cons)
  then show ?thesis by (simp add: m before_line_def join_tail)
qed simp

lemma buf_clamp_ok: "tx_lines b \<noteq> [] \<Longrightarrow> pos_ok b (buf_clamp b p)"
  by (auto simp: buf_clamp_def pos_ok_def Let_def)

lemma buf_clamp_id [simp]: "pos_ok b p \<Longrightarrow> buf_clamp b p = p"
  by (cases p) (auto simp: buf_clamp_def pos_ok_def Let_def)

text \<open>The bytes around a position.\<close>

lemma flat_at:
  assumes "pos_ok b (l, c)"
  shows "take (pos_offset b (l, c)) (flat b) = before_line (tx_lines b) l @ take c (tx_lines b ! l)"
    and "drop (pos_offset b (l, c)) (flat b) = drop c (tx_lines b ! l) @ after_line (tx_lines b) l"
    and "pos_offset b (l, c) \<le> length (flat b)"
  using assms by (auto simp: flat_def pos_offset_def pos_ok_def join_split[of l])

lemma flat_upd:
  assumes "l < length (tx_lines b)"
  shows "join_lines ((tx_lines b)[l := x]) = before_line (tx_lines b) l @ x @ after_line (tx_lines b) l"
proof -
  have "(tx_lines b)[l := x] = take l (tx_lines b) @ [x] @ drop (Suc l) (tx_lines b)"
    using assms by (simp add: upd_conv_take_nth_drop)
  then show ?thesis using join_around[of l "tx_lines b" "[x]" "Suc l"] by (simp add: after_line_def)
qed

lemma before_line_upd: "before_line (ls[l := x]) l = before_line ls l"
  by (simp add: before_line_def)

text \<open>\<open>splice o k s t\<close>: the text with \<open>k\<close> bytes at offset \<open>o\<close> replaced by \<open>s\<close>.  An editing
  operation is one splice, and leaves the cursor behind what it put.\<close>

definition splice :: "nat \<Rightarrow> nat \<Rightarrow> bytes \<Rightarrow> bytes \<Rightarrow> bytes" where
  "splice o1 k s t = take o1 t @ s @ drop (o1 + k) t"

definition spliced :: "nat \<Rightarrow> nat \<Rightarrow> bytes \<Rightarrow> textbuf \<Rightarrow> textbuf \<times> textpos \<Rightarrow> bool" where
  "spliced o1 k s b r \<longleftrightarrow> flat (fst r) = splice o1 k s (flat b) \<and> pos_offset (fst r) (snd r) = o1 + length s
     \<and> pos_ok (fst r) (snd r) \<and> tx_trailing (fst r) = tx_trailing b"

lemma buf_insert_spliced:
  assumes "tx_lines b \<noteq> []"
  shows "spliced (pos_offset b (buf_clamp b at0)) 0 s b (buf_insert b at0 s)"
proof -
  obtain l c where p: "buf_clamp b at0 = (l, c)" by fastforce
  have ok: "pos_ok b (l, c)" using buf_clamp_ok[OF assms, of at0] p by simp
  then have l: "l < length (tx_lines b)" by (simp add: pos_ok_def)
  show ?thesis
    using ok l flat_at[OF ok] flat_upd[OF l, of "take c (tx_lines b ! l) @ s @ drop c (tx_lines b ! l)"]
    by (auto simp: buf_insert_def p Let_def spliced_def splice_def flat_def pos_offset_def pos_ok_def before_line_upd)
qed

lemma split_line_spliced:
  assumes "tx_lines b \<noteq> []"
  shows "spliced (pos_offset b (buf_clamp b at0)) 0 [nl] b (split_line b at0)"
proof -
  obtain l c where p: "buf_clamp b at0 = (l, c)" by fastforce
  have ok: "pos_ok b (l, c)" using buf_clamp_ok[OF assms, of at0] p by simp
  then have l: "l < length (tx_lines b)" "c \<le> length (tx_lines b ! l)" by (simp_all add: pos_ok_def)
  let ?x = "tx_lines b ! l"
  have "join_lines (take l (tx_lines b) @ [take c ?x, drop c ?x] @ drop (Suc l) (tx_lines b))
      = before_line (tx_lines b) l @ take c ?x @ nl # drop c ?x @ after_line (tx_lines b) l"
    by (subst join_around) (simp add: after_line_def)
  moreover have "before_line (take l (tx_lines b) @ take c ?x # drop c ?x # drop (Suc l) (tx_lines b)) (Suc l)
      = before_line (tx_lines b) l @ take c ?x @ [nl]"
    using l(1) by (simp add: before_line_def)
  ultimately show ?thesis using l flat_at[OF ok]
    by (simp add: split_line_def p Let_def spliced_def splice_def flat_def pos_offset_def pos_ok_def nth_append)
qed

text \<open>The line end before a line, and the one after it.\<close>

lemma before_line_Suc: "l < length ls \<Longrightarrow> before_line ls (Suc l) = before_line ls l @ ls ! l @ [nl]"
  by (simp add: before_line_def take_Suc_conv_app_nth)

lemma after_line_Suc: "Suc l < length ls \<Longrightarrow> after_line ls l = nl # ls ! Suc l @ after_line ls (Suc l)"
  by (simp add: after_line_def Cons_nth_drop_Suc[symmetric])

lemma erase_at_spliced:
  assumes "tx_lines b \<noteq> []"
  shows "spliced (pos_offset b (buf_clamp b at0)) 1 [] b (erase_at b at0)"
proof -
  obtain l c where p: "buf_clamp b at0 = (l, c)" by fastforce
  have ok: "pos_ok b (l, c)" using buf_clamp_ok[OF assms, of at0] p by simp
  then have l: "l < length (tx_lines b)" "c \<le> length (tx_lines b ! l)" by (simp_all add: pos_ok_def)
  let ?x = "tx_lines b ! l"
  have d: "drop (pos_offset b (l, c) + 1) (flat b) = drop 1 (drop c ?x @ after_line (tx_lines b) l)"
    using flat_at(2)[OF ok] by (metis drop_drop add.commute)
  consider "c < length ?x" | "c = length ?x" "l + 1 \<ge> length (tx_lines b)" | "c = length ?x" "l + 1 < length (tx_lines b)"
    using l by linarith
  then show ?thesis
  proof cases
    case 1
    then show ?thesis using l flat_at(1)[OF ok] d flat_upd[OF l(1), of "take c ?x @ drop (c + 1) ?x"]
      by (simp add: erase_at_def p Let_def spliced_def splice_def flat_def pos_offset_def pos_ok_def before_line_upd)
  next
    case 2
    then have "after_line (tx_lines b) l = []" by (simp add: after_line_def)
    then show ?thesis using 2 l flat_at[OF ok] d ok
      by (simp add: erase_at_def p Let_def spliced_def splice_def flat_def join_split[OF l(1)])
  next
    case 3
    have "join_lines (take l (tx_lines b) @ [?x @ tx_lines b ! Suc l] @ drop (Suc (Suc l)) (tx_lines b))
        = before_line (tx_lines b) l @ ?x @ tx_lines b ! Suc l @ after_line (tx_lines b) (Suc l)"
      by (subst join_around) (simp add: after_line_def)
    moreover have "before_line (take l (tx_lines b) @ (?x @ tx_lines b ! Suc l) # drop (Suc (Suc l)) (tx_lines b)) l
        = before_line (tx_lines b) l" using l(1) by (simp add: before_line_def)
    ultimately show ?thesis using 3 l flat_at(1)[OF ok] d after_line_Suc[of l "tx_lines b"]
      by (simp add: erase_at_def p Let_def spliced_def splice_def flat_def pos_offset_def pos_ok_def nth_append)
  qed
qed

lemma erase_before_spliced:
  assumes "tx_lines b \<noteq> []" "0 < pos_offset b (buf_clamp b at0)"
  shows "spliced (pos_offset b (buf_clamp b at0) - 1) 1 [] b (erase_before b at0)"
proof -
  obtain l c where p: "buf_clamp b at0 = (l, c)" by fastforce
  have ok: "pos_ok b (l, c)" using buf_clamp_ok[OF assms(1), of at0] p by simp
  then have l: "l < length (tx_lines b)" "c \<le> length (tx_lines b ! l)" by (simp_all add: pos_ok_def)
  let ?x = "tx_lines b ! l" and ?o = "pos_offset b (l, c)"
  have o1: "0 < ?o" using assms(2) p by simp
  have t: "take (?o - 1) (flat b) = butlast (before_line (tx_lines b) l @ take c ?x)"
    using flat_at(1,3)[OF ok] o1 by (metis butlast_take)
  show ?thesis
  proof (cases "0 < c")
    case True
    have "butlast (take c ?x) = take (c - 1) ?x" using True l by (simp add: butlast_take)
    moreover have "take c ?x \<noteq> []" using True l by auto
    ultimately show ?thesis
      using True l flat_at(2)[OF ok] t o1 flat_upd[OF l(1), of "take (c - 1) ?x @ drop c ?x"]
      by (simp add: erase_before_def p Let_def spliced_def splice_def flat_def pos_offset_def pos_ok_def before_line_upd butlast_append)
  next
    case False
    then have c: "c = 0" by simp
    then have "l \<noteq> 0" using o1 by (auto simp: pos_offset_def before_line_def)
    then obtain m where m: "l = Suc m" by (cases l) auto
    have ml: "m < length (tx_lines b)" using l m by simp
    have bl: "before_line (tx_lines b) l = before_line (tx_lines b) m @ tx_lines b ! m @ [nl]"
      unfolding m by (rule before_line_Suc[OF ml])
    have "join_lines (take m (tx_lines b) @ [tx_lines b ! m @ ?x] @ drop (Suc l) (tx_lines b))
        = before_line (tx_lines b) m @ tx_lines b ! m @ ?x @ after_line (tx_lines b) l"
      by (subst join_around) (simp add: after_line_def)
    moreover have "before_line (take m (tx_lines b) @ (tx_lines b ! m @ ?x) # drop (Suc l) (tx_lines b)) m
        = before_line (tx_lines b) m" using ml by (simp add: before_line_def)
    ultimately show ?thesis using l ml c m flat_at(2)[OF ok] t o1 bl
      by (simp add: erase_before_def p Let_def spliced_def splice_def flat_def pos_offset_def pos_ok_def nth_append butlast_append)
  qed
qed

lemma erase_before_start:
  assumes "tx_lines b \<noteq> []" "pos_offset b (buf_clamp b at0) = 0"
  shows "erase_before b at0 = (b, buf_clamp b at0)"
proof -
  obtain l c where p: "buf_clamp b at0 = (l, c)" by fastforce
  have "pos_ok b (l, c)" using buf_clamp_ok[OF assms(1), of at0] p by simp
  then have "c = 0" "l = 0"
    using assms(2) p by (auto simp: pos_offset_def pos_ok_def before_line_def)
  then show ?thesis by (simp add: erase_before_def p Let_def)
qed

section \<open>The invariant\<close>

lemma buf_init_ok [simp]: "buf_ok buf_init"
  by (simp add: buf_ok_def buf_init_def)

lemma buf_insert_ok [inv_intros]: "buf_ok b \<Longrightarrow> nl \<notin> set s \<Longrightarrow> buf_ok (fst (buf_insert b at0 s))"
proof -
  assume b: "buf_ok b" "nl \<notin> set s"
  obtain l c where p: "buf_clamp b at0 = (l, c)" by fastforce
  have l: "l < length (tx_lines b)" using buf_clamp_ok[of b at0] b p by (simp add: buf_ok_def pos_ok_def)
  have "nl \<notin> set (tx_lines b ! l)" using b l by (simp add: buf_ok_def)
  then have "nl \<notin> set (take c (tx_lines b ! l) @ s @ drop c (tx_lines b ! l))"
    using b set_take_subset set_drop_subset by fastforce
  then show ?thesis using b set_update_subset_insert[of "tx_lines b" l]
    by (fastforce simp: buf_insert_def p Let_def buf_ok_def)
qed

text \<open>The lines of the other operations are parts of old lines or two of them joined.\<close>

lemma clean_parts: "nl \<notin> set x \<Longrightarrow> nl \<notin> set (take c x)" "nl \<notin> set x \<Longrightarrow> nl \<notin> set (drop c x)"
  using set_take_subset set_drop_subset by fastforce+

lemma clean_lines: "(\<forall>l \<in> set ls. nl \<notin> set l) \<Longrightarrow> x \<in> set (take k ls) \<or> x \<in> set (drop k ls) \<Longrightarrow> nl \<notin> set x"
  by (auto dest: in_set_takeD in_set_dropD)

lemma clean_upd: "(\<forall>l \<in> set ls. nl \<notin> set l) \<Longrightarrow> nl \<notin> set x \<Longrightarrow> (\<forall>l \<in> set (ls[k := x]). nl \<notin> set l)"
  using set_update_subset_insert by fastforce

lemma edit_ok [inv_intros]:
  assumes "buf_ok b"
  shows "buf_ok (fst (split_line b at0))" "buf_ok (fst (erase_before b at0))" "buf_ok (fst (erase_at b at0))"
proof -
  obtain l c where p: "buf_clamp b at0 = (l, c)" by fastforce
  have l: "l < length (tx_lines b)" using buf_clamp_ok[of b at0] assms p by (simp add: buf_ok_def pos_ok_def)
  have a: "\<forall>l \<in> set (tx_lines b). nl \<notin> set l" using assms by (simp add: buf_ok_def)
  have x: "k < length (tx_lines b) \<Longrightarrow> nl \<notin> set (tx_lines b ! k)" for k using a by simp
  note c = clean_lines[OF a] clean_parts x
  show "buf_ok (fst (split_line b at0))" using l c assms by (auto simp: split_line_def p Let_def buf_ok_def)
  have u: "\<forall>x \<in> set ((tx_lines b)[l := take j (tx_lines b ! l) @ drop k (tx_lines b ! l)]). nl \<notin> set x" for j k
    by (rule clean_upd[OF a]) (simp add: clean_parts x[OF l])
  show "buf_ok (fst (erase_before b at0))" using l c assms u[of "c - 1" c]
    by (simp add: erase_before_def p Let_def buf_ok_def) (auto dest: clean_lines[OF a, rotated])
  show "buf_ok (fst (erase_at b at0))" using l c assms u[of c "c + 1"]
    by (simp add: erase_at_def p Let_def buf_ok_def) (auto dest: clean_lines[OF a, rotated])
qed

section \<open>Loading and saving\<close>

lemma buf_text_flat: "tx_lines b \<noteq> [] \<Longrightarrow> buf_text b = flat b @ (if tx_trailing b then [nl] else [])"
proof -
  have "concat (map (\<lambda>i. ls ! i @ (if i + 1 < length ls then [nl] else [])) [0..<length ls]) = join_lines ls" for ls
  proof (induction ls)
    case (Cons x ls)
    have "concat (map (\<lambda>i. (x # ls) ! i @ (if i + 1 < length (x # ls) then [nl] else [])) [0..<length (x # ls)])
        = (x @ (if ls = [] then [] else [nl])) @ concat (map (\<lambda>i. ls ! i @ (if i + 1 < length ls then [nl] else [])) [0..<length ls])"
      by (simp add: upt_conv_Cons map_Suc_upt[symmetric] o_def del: upt_Suc)
    then show ?case using Cons by (simp add: join_lines_Cons)
  qed simp
  then show ?thesis by (simp add: buf_text_def flat_def)
qed

lemma load_loop_cut:
  "i \<le> length s \<Longrightarrow> load_loop s i = (let ls = cut_lines (drop i s) in if last ls = [] then butlast ls else ls)"
proof (induction s i rule: load_loop.induct)
  case (1 s i)
  let ?k = "length (takeWhile (\<lambda>x. x \<noteq> nl) (drop i s))"
  have f: "find_from s [nl] i = (if nl \<in> set (drop i s) then Some (i + ?k) else None)"
    using 1(2) by (simp add: find_from_def find_sub_one)
  show ?case
  proof (cases "nl \<in> set (drop i s)")
    case True
    have b: "?k < length (drop i s)" using takeWhile_less[OF True, of "\<lambda>x. x \<noteq> nl"] by simp
    then have "load_loop s (i + ?k + 1) =
        (let ls = cut_lines (drop (Suc ?k) (drop i s)) in if last ls = [] then butlast ls else ls)"
      using 1(1)[of "i + ?k"] 1(2) f True by (simp add: add.commute)
    then show ?thesis using 1(2) f True b
      by (subst load_loop.simps) (simp add: cut_lines_rec[of "drop i s"] Let_def)
  next
    case False
    then show ?thesis using 1(2) f by (subst load_loop.simps) (simp add: cut_lines_end Let_def)
  qed
qed

lemma buf_load_ok [simp]: "buf_ok (buf_load s)"
proof -
  have "\<forall>l \<in> set (load_loop s 0). nl \<notin> set l"
    using cut_lines_clean[of _ s] by (auto simp: load_loop_cut Let_def dest: in_set_butlastD)
  then show ?thesis by (simp add: buf_load_def buf_ok_def Let_def)
qed

lemma last_cut: "last (cut_lines s) = [] \<longleftrightarrow> s = [] \<or> last s = nl"
proof (induction s)
  case (Cons c cs)
  obtain l ls where cut: "cut_lines cs = l # ls" using cut_lines_ne by (metis list.exhaust)
  have "cs = l \<and> nl \<notin> set cs" if "ls = []"
    using that join_cut[of cs] cut_lines_clean[of l cs] by (simp add: cut)
  then show ?case using Cons cut by (cases "ls = []") auto
qed simp

lemma join_butlast: "ls \<noteq> [] \<Longrightarrow> last ls = [] \<Longrightarrow> butlast ls \<noteq> [] \<Longrightarrow> join_lines ls = join_lines (butlast ls) @ [nl]"
proof -
  have "xs \<noteq> [] \<Longrightarrow> join_lines (xs @ [[]]) = join_lines xs @ [nl]" for xs
    by (induction xs) (auto simp: join_lines_Cons)
  then show "ls \<noteq> [] \<Longrightarrow> last ls = [] \<Longrightarrow> butlast ls \<noteq> [] \<Longrightarrow> ?thesis" by (metis append_butlast_last_id)
qed

text \<open>What was loaded is what is saved, but for the empty file, which gains a line end.\<close>

lemma load_text: "buf_text (buf_load s) = (if s = [] then [nl] else s)"
proof -
  let ?ls = "cut_lines s"
  have load: "load_loop s 0 = (if last ?ls = [] then butlast ?ls else ?ls)" by (simp add: load_loop_cut Let_def)
  have t: "tx_trailing (buf_load s) \<longleftrightarrow> last ?ls = []" by (simp add: buf_load_def Let_def last_cut)
  show ?thesis
  proof (cases "last ?ls = []")
    case False
    then have "tx_lines (buf_load s) = ?ls" by (simp add: buf_load_def load Let_def)
    moreover have "s \<noteq> []" using False by auto
    ultimately show ?thesis using False t by (simp add: buf_text_flat flat_def)
  next
    case True
    show ?thesis
    proof (cases "butlast ?ls = []")
      case b: True
      then have "?ls = [[]]" using True by (metis append_butlast_last_id append_Nil cut_lines_ne)
      then have "s = []" by (metis join_cut join_lines.simps(2))
      then show ?thesis using t load by (simp add: buf_text_flat flat_def buf_load_def Let_def)
    next
      case False
      then have "tx_lines (buf_load s) = butlast ?ls" using True by (simp add: buf_load_def load Let_def)
      moreover have "s = join_lines (butlast ?ls) @ [nl]" using join_butlast[of ?ls] True False by simp
      moreover have "s \<noteq> []" using False by auto
      ultimately show ?thesis using t True False by (simp add: buf_text_flat flat_def)
    qed
  qed
qed

section \<open>Searching\<close>

lemma find_pass_spec:
  assumes "needle \<noteq> []" "a \<le> n" "\<forall>i. a \<le> i \<and> i < n \<longrightarrow> g i \<le> length (ls ! i)"
  shows "case find_pass ls needle (map (\<lambda>i. (i, g i)) [a..<n]) of
      Some (i, k) \<Rightarrow> a \<le> i \<and> i < n \<and> g i \<le> k \<and> occurs needle (ls ! i) k
        \<and> (\<forall>j. g i \<le> j \<and> j < k \<longrightarrow> \<not> occurs needle (ls ! i) j)
        \<and> (\<forall>m j. a \<le> m \<and> m < i \<and> g m \<le> j \<longrightarrow> \<not> occurs needle (ls ! m) j)
    | None \<Rightarrow> \<forall>m j. a \<le> m \<and> m < n \<and> g m \<le> j \<longrightarrow> \<not> occurs needle (ls ! m) j"
  using assms(2,3)
proof (induction "n - a" arbitrary: a)
  case (Suc d)
  then have a: "a < n" "[a..<n] = a # [Suc a..<n]" by (simp_all add: upt_conv_Cons)
  have s: "g a \<le> length (ls ! a)" using Suc.prems a by simp
  have IH: "case find_pass ls needle (map (\<lambda>i. (i, g i)) [Suc a..<n]) of
      Some (i, k) \<Rightarrow> Suc a \<le> i \<and> i < n \<and> g i \<le> k \<and> occurs needle (ls ! i) k
        \<and> (\<forall>j. g i \<le> j \<and> j < k \<longrightarrow> \<not> occurs needle (ls ! i) j)
        \<and> (\<forall>m j. Suc a \<le> m \<and> m < i \<and> g m \<le> j \<longrightarrow> \<not> occurs needle (ls ! m) j)
    | None \<Rightarrow> \<forall>m j. Suc a \<le> m \<and> m < n \<and> g m \<le> j \<longrightarrow> \<not> occurs needle (ls ! m) j"
    using Suc.hyps(1)[of "Suc a"] Suc.hyps(2) Suc.prems a by simp
  have both: "\<not> occurs needle (ls ! m) j"
    if "\<forall>j \<ge> g a. \<not> occurs needle (ls ! a) j"
      "\<forall>m j. Suc a \<le> m \<and> m < e \<and> g m \<le> j \<longrightarrow> \<not> occurs needle (ls ! m) j" "a \<le> m" "m < e" "g m \<le> j" for m j e
    using that by (cases "m = a") auto
  show ?case
  proof (cases "find_from (ls ! a) needle (g a)")
    case None
    then have "find_pass ls needle (map (\<lambda>i. (i, g i)) [a..<n]) = find_pass ls needle (map (\<lambda>i. (i, g i)) [Suc a..<n])"
      using s a(2) by simp
    moreover have "\<forall>j \<ge> g a. \<not> occurs needle (ls ! a) j" using find_from_None[OF None assms(1)] by simp
    ultimately show ?thesis using IH both by (fastforce split: option.splits prod.splits)
  next
    case (Some k)
    note f = find_from_Some[OF Some] find_from_first[OF Some]
    have "find_pass ls needle (map (\<lambda>i. (i, g i)) [a..<n]) = Some (a, k)" using Some s a(2) by simp
    then show ?thesis using f a(1) by auto
  qed
qed auto

text \<open>The two passes of a search from a position inside the buffer.\<close>

lemma buf_find_passes:
  assumes "tx_lines b \<noteq> []" "needle \<noteq> []" "buf_clamp b from0 = (l0, c0)"
  shows "case buf_find b needle from0 of
      None \<Rightarrow> \<forall>m j. m < length (tx_lines b) \<longrightarrow> \<not> occurs needle (tx_lines b ! m) j
    | Some (l, k) \<Rightarrow> l < length (tx_lines b) \<and> occurs needle (tx_lines b ! l) k
        \<and> (\<forall>m j. m < length (tx_lines b) \<and> (l0 < m \<or> l0 = m \<and> c0 \<le> j) \<and> occurs needle (tx_lines b ! m) j
              \<longrightarrow> (l0 < l \<or> l0 = l \<and> c0 \<le> k) \<and> (l < m \<or> l = m \<and> k \<le> j))"
proof -
  let ?ls = "tx_lines b" and ?g = "\<lambda>i. if i = l0 then c0 else 0"
  let ?one = "find_pass ?ls needle (map (\<lambda>i. (i, ?g i)) [l0..<length ?ls])"
  let ?two = "find_pass ?ls needle (map (\<lambda>i. (i, 0)) [0..<min (l0 + 1) (length ?ls)])"
  have ok: "l0 < length ?ls" "c0 \<le> length (?ls ! l0)"
    using buf_clamp_ok[OF assms(1), of from0] assms(3) by (simp_all add: pos_ok_def)
  have f: "buf_find b needle from0 = (case ?one of Some p \<Rightarrow> Some p | None \<Rightarrow> ?two)"
    using assms by (simp add: buf_find_def Let_def)
  have 1: "case ?one of
      Some (i, k) \<Rightarrow> l0 \<le> i \<and> i < length ?ls \<and> ?g i \<le> k \<and> occurs needle (?ls ! i) k
        \<and> (\<forall>j. ?g i \<le> j \<and> j < k \<longrightarrow> \<not> occurs needle (?ls ! i) j)
        \<and> (\<forall>m j. l0 \<le> m \<and> m < i \<and> ?g m \<le> j \<longrightarrow> \<not> occurs needle (?ls ! m) j)
    | None \<Rightarrow> \<forall>m j. l0 \<le> m \<and> m < length ?ls \<and> ?g m \<le> j \<longrightarrow> \<not> occurs needle (?ls ! m) j"
    by (rule find_pass_spec[OF assms(2)]) (use ok in auto)
  show ?thesis
  proof (cases ?one)
    case None
    have none: "\<not> occurs needle (?ls ! m) j" if "m < length ?ls" "l0 < m \<or> l0 = m \<and> c0 \<le> j" for m j
    proof -
      have "l0 \<le> m \<and> m < length ?ls \<and> ?g m \<le> j" using that by auto
      then show ?thesis using 1 None by simp
    qed
    have 2: "case ?two of
        Some (i, k) \<Rightarrow> 0 \<le> i \<and> i < min (l0 + 1) (length ?ls) \<and> 0 \<le> k \<and> occurs needle (?ls ! i) k
          \<and> (\<forall>j. 0 \<le> j \<and> j < k \<longrightarrow> \<not> occurs needle (?ls ! i) j)
          \<and> (\<forall>m j. 0 \<le> m \<and> m < i \<and> 0 \<le> j \<longrightarrow> \<not> occurs needle (?ls ! m) j)
      | None \<Rightarrow> \<forall>m j. 0 \<le> m \<and> m < min (l0 + 1) (length ?ls) \<and> 0 \<le> j \<longrightarrow> \<not> occurs needle (?ls ! m) j"
      by (rule find_pass_spec[OF assms(2)]) auto
    have bf: "buf_find b needle from0 = ?two" using f None by simp
    show ?thesis
    proof (cases ?two)
      case two: None
      have "\<not> occurs needle (?ls ! m) j" if "m < length ?ls" for m j
        using 2 two none[OF that] that by (cases "m \<le> l0") auto
      then show ?thesis using bf two by simp
    next
      case (Some p)
      then show ?thesis using bf 2 none by (cases p) auto
    qed
  next
    case (Some p)
    obtain i k where p: "p = (i, k)" by (cases p)
    have bf: "buf_find b needle from0 = Some (i, k)" using f Some p by simp
    have h: "l0 \<le> i" "i < length ?ls" "?g i \<le> k" "occurs needle (?ls ! i) k"
      "\<And>j. ?g i \<le> j \<Longrightarrow> j < k \<Longrightarrow> \<not> occurs needle (?ls ! i) j"
      "\<And>m j. l0 \<le> m \<Longrightarrow> m < i \<Longrightarrow> ?g m \<le> j \<Longrightarrow> \<not> occurs needle (?ls ! m) j"
      using 1 Some p by auto
    have "i < m \<or> i = m \<and> k \<le> j" if "l0 < m \<or> l0 = m \<and> c0 \<le> j" "occurs needle (?ls ! m) j" for m j
    proof (rule ccontr)
      assume c: "\<not> (i < m \<or> i = m \<and> k \<le> j)"
      have gm: "l0 \<le> m" "?g m \<le> j" using that(1) by auto
      show False using c h(5)[of j] h(6)[of m j] gm that(2) by (cases "m = i") auto
    qed
    moreover have "l0 < i \<or> l0 = i \<and> c0 \<le> k" using h(1,3) by (auto split: if_splits)
    ultimately show ?thesis using bf h(2,4) by simp
  qed
qed

end
