(* ===== verification/Editor.thy ===== *)
theory Editor
  imports Editor_Buffer Terminal Surface_Inv
begin

text \<open>
  \<open>src/apps/editor/editor.cpp\<close>: the editor around its buffer.  What the file system answers
  to a save is an argument; the files replaced by a save are recorded in \<open>ed_saved\<close>, what
  is asked of the host in \<open>ed_calls\<close>.
\<close>

section \<open>Model\<close>

datatype editor_mode = EdNormal | EdSearching | EdConfirming

record editor =
  ed_buf :: textbuf
  ed_cur :: textpos
  ed_top :: nat
  ed_path :: bytes
  ed_status :: bytes
  ed_query :: bytes
  ed_mode :: editor_mode
  ed_size :: size
  ed_host :: bool
  ed_calls :: "host_call list"
  ed_saved :: "(bytes \<times> bytes) list"

definition editor_init :: editor where
  "editor_init = \<lparr>ed_buf = buf_init, ed_cur = (0, 0), ed_top = 0, ed_path = [], ed_status = [], ed_query = [],
     ed_mode = EdNormal, ed_size = \<lparr>sz_w = 60, sz_h = 20\<rparr>, ed_host = False, ed_calls = [], ed_saved = []\<rparr>"

text \<open>\<open>Editor(path)\<close>; what \<open>read_whole\<close> gives is the second argument.\<close>

definition editor_open :: "bytes \<Rightarrow> bytes \<Rightarrow> editor" where
  "editor_open path content = editor_init\<lparr>ed_path := path, ed_buf := buf_load content\<rparr>"

definition ed_attach :: "editor \<Rightarrow> editor" where
  "ed_attach e = e\<lparr>ed_host := True,
     ed_calls := ed_calls e @ [SetTitle (if ed_path e = [] then str ''Editeur'' else ed_path e)]\<rparr>"

definition rows_for_text :: "editor \<Rightarrow> nat" where
  "rows_for_text e = nat (max 1 (sz_h (ed_size e) - 1))"

definition settle :: "editor \<Rightarrow> editor" where
  "settle e =
     (let cur = buf_clamp (ed_buf e) (ed_cur e);
          rows = rows_for_text e;
          n = length (tx_lines (ed_buf e));
          t1 = (if fst cur < ed_top e then fst cur else ed_top e);
          t2 = (if fst cur \<ge> t1 + rows then fst cur - rows + 1 else t1);
          t3 = (if t2 + rows > n then if n > rows then n - rows else 0 else t2)
      in e\<lparr>ed_cur := cur, ed_top := t3\<rparr>)"

definition ed_resize :: "editor \<Rightarrow> size \<Rightarrow> editor" where
  "ed_resize e s = (if sz_w s \<le> 0 \<or> sz_h s \<le> 0 then e else settle (e\<lparr>ed_size := s\<rparr>))"

datatype save_result = SaveNoOpen bytes | SaveShort | SaveNoRename bytes | SaveDone

definition ed_save :: "save_result \<Rightarrow> editor \<Rightarrow> editor" where
  "ed_save r e =
     (if ed_path e = [] then e\<lparr>ed_status := str ''aucun fichier''\<rparr>
      else (case r of
          SaveNoOpen m \<Rightarrow> e\<lparr>ed_status := str ''ecriture impossible : '' @ m\<rparr>
        | SaveShort \<Rightarrow> e\<lparr>ed_status := str ''ecriture incomplete''\<rparr>
        | SaveNoRename m \<Rightarrow> e\<lparr>ed_status := str ''remplacement impossible : '' @ m\<rparr>
        | SaveDone \<Rightarrow> e\<lparr>ed_saved := ed_saved e @ [(ed_path e, buf_text (ed_buf e))],
                        ed_buf := mark_saved (ed_buf e), ed_status := str ''enregistre''\<rparr>))"

text \<open>\<open>can_close\<close>: the question asked, or \<open>None\<close> when closing is allowed.\<close>

definition ed_can_close :: "editor \<Rightarrow> bytes option" where
  "ed_can_close e =
     (if tx_modified (ed_buf e) then Some (str ''Le fichier a change. Fermer sans enregistrer ?'') else None)"

definition ask_close :: "editor \<Rightarrow> editor" where
  "ask_close e = (if ed_host e then e\<lparr>ed_calls := ed_calls e @ [RequestClose]\<rparr> else e)"

definition search_key :: "editor \<Rightarrow> key_event \<Rightarrow> editor" where
  "search_key e k =
     (case k_key k of
        KEnter \<Rightarrow>
          let e1 = e\<lparr>ed_mode := EdNormal\<rparr> in
          (case buf_find (ed_buf e1) (ed_query e1) (fst (ed_cur e1), snd (ed_cur e1) + 1) of
             Some p \<Rightarrow> settle (e1\<lparr>ed_cur := p, ed_status := []\<rparr>)
           | None \<Rightarrow> e1\<lparr>ed_status := str ''introuvable : '' @ ed_query e1\<rparr>)
      | KEscape \<Rightarrow> e\<lparr>ed_mode := EdNormal, ed_query := []\<rparr>
      | KBackspace \<Rightarrow> if ed_query e \<noteq> [] then e\<lparr>ed_query := butlast (ed_query e)\<rparr> else e
      | KChar \<Rightarrow> if k_ch k \<ge> 0x20 then e\<lparr>ed_query := ed_query e @ encode_utf8 (k_ch k)\<rparr> else e
      | _ \<Rightarrow> e)"

definition confirm_key :: "editor \<Rightarrow> key_event \<Rightarrow> editor" where
  "confirm_key e k =
     (if k_key k = KChar \<and> (k_ch k = 0x6F \<or> k_ch k = 0x4F \<or> k_ch k = 0x79 \<or> k_ch k = 0x59)
      then ask_close (e\<lparr>ed_mode := EdNormal\<rparr>)
      else e\<lparr>ed_mode := EdNormal\<rparr>)"

definition edit_with :: "(textbuf \<Rightarrow> textpos \<Rightarrow> textbuf \<times> textpos) \<Rightarrow> editor \<Rightarrow> editor" where
  "edit_with f e = (let (b, p) = f (ed_buf e) (ed_cur e) in e\<lparr>ed_buf := b, ed_cur := p\<rparr>)"

definition control_key :: "save_result \<Rightarrow> editor \<Rightarrow> char32 \<Rightarrow> editor" where
  "control_key r e ch =
     (if ch = 0x73 then ed_save r e
      else if ch = 0x78 then (if tx_modified (ed_buf e) then e\<lparr>ed_mode := EdConfirming\<rparr> else ask_close e)
      else if ch = 0x66 then e\<lparr>ed_mode := EdSearching, ed_query := []\<rparr>
      else e)"

text \<open>Where the keys that move the cursor take it.\<close>

definition move_cursor :: "editor \<Rightarrow> key \<Rightarrow> textpos" where
  "move_cursor e k =
     (let (l, c) = ed_cur e; n = length (tx_lines (ed_buf e)); rows = rows_for_text e in
      case k of
        KUp \<Rightarrow> (if l > 0 then l - 1 else l, c)
      | KDown \<Rightarrow> (if l + 1 < n then l + 1 else l, c)
      | KLeft \<Rightarrow> if c > 0 then (l, c - 1) else if l > 0 then (l - 1, length (buf_line (ed_buf e) (l - 1))) else (l, c)
      | KRight \<Rightarrow> if c < length (buf_line (ed_buf e) l) then (l, c + 1) else if l + 1 < n then (l + 1, 0) else (l, c)
      | KHome \<Rightarrow> (l, 0)
      | KEnd \<Rightarrow> (l, length (buf_line (ed_buf e) l))
      | KPgUp \<Rightarrow> (if l > rows then l - rows else 0, c)
      | KPgDn \<Rightarrow> (min (l + rows) (n - 1), c)
      | _ \<Rightarrow> (l, c))"

definition ed_key :: "save_result \<Rightarrow> editor \<Rightarrow> key_event \<Rightarrow> editor" where
  "ed_key r e k =
     (if ed_mode e = EdSearching then search_key e k
      else if ed_mode e = EdConfirming then confirm_key e k
      else if k_key k \<in> {KUp, KDown, KLeft, KRight, KHome, KEnd, KPgUp, KPgDn}
        then settle (e\<lparr>ed_cur := move_cursor e (k_key k)\<rparr>)
      else if k_key k = KEnter then settle (edit_with split_line e)
      else if k_key k = KBackspace then settle (edit_with erase_before e)
      else if k_key k = KDelete then settle (edit_with erase_at e)
      else if k_key k \<noteq> KChar then e
      else if k_mods k AND mod_Ctrl \<noteq> 0 then control_key r e (k_ch k)
      else if k_ch k < 0x20 then e
      else settle ((edit_with (\<lambda>b p. buf_insert b p (encode_utf8 (k_ch k))) e)\<lparr>ed_status := []\<rparr>))"

definition ed_wants_cursor :: "editor \<Rightarrow> (int \<times> int) option" where
  "ed_wants_cursor e =
     (if fst (ed_cur e) < ed_top e then None
      else let y = fst (ed_cur e) - ed_top e in
        if y \<ge> rows_for_text e then None else Some (int (snd (ed_cur e)), int y))"

definition bottom_line :: "editor \<Rightarrow> bytes" where
  "bottom_line e =
     (case ed_mode e of
        EdSearching \<Rightarrow> str ''chercher: '' @ ed_query e
      | EdConfirming \<Rightarrow> str ''quitter sans enregistrer ? (o/n)''
      | EdNormal \<Rightarrow>
          (if tx_modified (ed_buf e) then str ''*'' else str '' '') @
          (if ed_path e = [] then str ''(sans nom)'' else ed_path e) @ str ''  L'' @
          to_string (int (fst (ed_cur e)) + 1) @ str '' C'' @ to_string (int (snd (ed_cur e)) + 1) @
          (if ed_status e \<noteq> [] then str ''  '' @ ed_status e else []))"

definition ed_render :: "bool \<Rightarrow> editor \<Rightarrow> rect \<Rightarrow> surface \<Rightarrow> surface" where
  "ed_render amb e v s =
     (if rw v \<le> 0 \<or> rh v \<le> 0 then s
      else
        let n = min (rows_for_text e) (length (tx_lines (ed_buf e)) - ed_top e);
            s1 = foldl (\<lambda>s i. fst (view_text amb v s 0 (int i) (buf_line (ed_buf e) (ed_top e + i)) style_init)) s [0..<n];
            st = style_init\<lparr>st_attrs := attr_Reverse\<rparr>;
            s2 = view_fill v s1 (mk_rect 0 (rh v - 1) (rw v) 1) st
        in fst (view_text amb v s2 0 (rh v - 1) (bottom_line e) st))"

section \<open>The invariant\<close>

definition ed_shown :: "editor \<Rightarrow> bool" where
  "ed_shown e \<longleftrightarrow> pos_ok (ed_buf e) (ed_cur e) \<and> ed_top e \<le> fst (ed_cur e) \<and> fst (ed_cur e) < ed_top e + rows_for_text e"

definition ed_ok :: "editor \<Rightarrow> bool" where
  "ed_ok e \<longleftrightarrow> buf_ok (ed_buf e) \<and> ed_shown e"

lemma rows_pos: "1 \<le> rows_for_text e"
  by (simp add: rows_for_text_def)

lemma settle_ok: "buf_ok (ed_buf e) \<Longrightarrow> ed_ok (settle e)"
proof -
  assume b: "buf_ok (ed_buf e)"
  then have ne: "tx_lines (ed_buf e) \<noteq> []" by (simp add: buf_ok_def)
  obtain l c where p: "buf_clamp (ed_buf e) (ed_cur e) = (l, c)" by fastforce
  have ok: "pos_ok (ed_buf e) (l, c)" using buf_clamp_ok[OF ne, of "ed_cur e"] p by simp
  then have l: "l < length (tx_lines (ed_buf e))" by (simp add: pos_ok_def)
  have r: "rows_for_text (settle e) = rows_for_text e" "ed_buf (settle e) = ed_buf e" "ed_cur (settle e) = (l, c)"
    by (simp_all add: settle_def Let_def rows_for_text_def p)
  have "ed_top (settle e) \<le> l \<and> l < ed_top (settle e) + rows_for_text e"
    using l rows_pos[of e] by (auto simp: settle_def Let_def p)
  then show ?thesis using b ok r by (simp add: ed_ok_def ed_shown_def)
qed

lemma encode_replaces: "\<not> is_scalar c \<Longrightarrow> encode_utf8 c = encode_utf8 0xFFFD"
  by (auto simp: encode_utf8_def is_scalar_def is_surrogate_def Let_def)

lemma encode_no_nl:
  assumes "0x20 \<le> c"
  shows "nl \<notin> set (encode_utf8 c)"
proof -
  obtain d where d: "encode_utf8 c = encode_utf8 d" "is_scalar d" "0x20 \<le> d"
  proof (cases "is_scalar c")
    case False
    show thesis by (rule that[of "0xFFFD"]) (use False in \<open>simp_all add: encode_replaces is_scalar_def is_surrogate_def\<close>)
  qed (use assms that in blast)
  have u: "32 \<le> unat d" using d(3) by (simp add: word_le_nat_alt)
  have "10 \<notin> set (map unat (encode_utf8 d))" using u by (auto simp: encode_utf8_unat[OF d(2)])
  then have "10 \<notin> unat ` set (encode_utf8 d)" by simp
  moreover have "unat nl = 10" by (simp add: nl_def)
  ultimately show ?thesis using d(1) by (metis imageI)
qed

lemma edit_with_ok: "buf_ok (fst (f (ed_buf e) (ed_cur e))) \<Longrightarrow> buf_ok (ed_buf (edit_with f e))"
  by (auto simp: edit_with_def split: prod.splits)

lemma ed_ok_mode: "ed_ok (e\<lparr>ed_mode := m\<rparr>) = ed_ok e" "ed_ok (e\<lparr>ed_query := q\<rparr>) = ed_ok e"
  "ed_ok (e\<lparr>ed_status := s\<rparr>) = ed_ok e" "ed_ok (e\<lparr>ed_calls := cs\<rparr>) = ed_ok e" "ed_ok (e\<lparr>ed_saved := fs\<rparr>) = ed_ok e"
  "ed_ok (e\<lparr>ed_host := h\<rparr>) = ed_ok e" "ed_ok (e\<lparr>ed_buf := mark_saved (ed_buf e)\<rparr>) = ed_ok e"
  "ed_ok (e\<lparr>ed_saved := fs, ed_buf := mark_saved (ed_buf e)\<rparr>) = ed_ok e"
  by (simp_all add: ed_ok_def ed_shown_def rows_for_text_def buf_ok_def pos_ok_def mark_saved_def)

lemma ed_key_ok:
  assumes "ed_ok e"
  shows "ed_ok (ed_key r e k)"
proof -
  have b: "buf_ok (ed_buf e)" using assms by (simp add: ed_ok_def)
  have s: "ed_ok (settle e')" if "ed_buf e' = ed_buf e" for e' using settle_ok[of e'] b that by simp
  have "ed_ok (search_key e k)" using assms s
    by (auto simp: search_key_def Let_def ed_ok_mode split: key.splits option.splits)
  moreover have "ed_ok (confirm_key e k)" using assms by (simp add: confirm_key_def ask_close_def ed_ok_mode)
  moreover have "ed_ok (control_key r e ch)" for ch using assms
    by (auto simp: control_key_def ed_save_def ask_close_def ed_ok_mode split: save_result.splits)
  moreover have "ed_ok (settle (edit_with f e))" if "buf_ok (fst (f (ed_buf e) (ed_cur e)))" for f
    using settle_ok[of "edit_with f e"] edit_with_ok[of f e] that by simp
  moreover have "ed_ok (settle ((edit_with (\<lambda>b p. buf_insert b p (encode_utf8 (k_ch k))) e)\<lparr>ed_status := []\<rparr>))" if "0x20 \<le> k_ch k"
    by (rule settle_ok) (simp add: edit_with_ok buf_insert_ok[OF b encode_no_nl[OF that]])
  ultimately show ?thesis using assms s edit_ok[OF b]
    by (auto simp: ed_key_def not_less)
qed

lemma ed_resize_ok: "ed_ok e \<Longrightarrow> ed_ok (ed_resize e s)"
  using settle_ok[of "e\<lparr>ed_size := s\<rparr>"] by (simp add: ed_resize_def ed_ok_def)

lemma editor_open_ok: "ed_ok (editor_open path content)"
  by (simp add: ed_ok_def editor_open_def editor_init_def ed_shown_def pos_ok_def rows_for_text_def
      buf_load_ok[unfolded buf_ok_def] buf_ok_def)

lemma ed_render_draws: "draws amb v s (ed_render amb e v s)"
  unfolding ed_render_def Let_def by (intro draws_after)

section \<open>The editor as a text and an offset\<close>

text \<open>The abstract editor: one text and an offset in it.  A key that edits is one splice.\<close>

definition is_typed :: "key_event \<Rightarrow> bool" where
  "is_typed k \<longleftrightarrow> k_key k = KChar \<and> k_mods k AND mod_Ctrl = 0 \<and> 0x20 \<le> k_ch k"

definition text_key :: "key_event \<Rightarrow> bytes \<times> nat \<Rightarrow> bytes \<times> nat" where
  "text_key k to =
     (let (t, o1) = to in
      if k_key k = KEnter then (splice o1 0 [nl] t, o1 + 1)
      else if k_key k = KBackspace then (if o1 = 0 then (t, o1) else (splice (o1 - 1) 1 [] t, o1 - 1))
      else if k_key k = KDelete then (splice o1 1 [] t, o1)
      else (splice o1 0 (encode_utf8 (k_ch k)) t, o1 + length (encode_utf8 (k_ch k))))"

definition edits :: "key_event \<Rightarrow> bool" where
  "edits k \<longleftrightarrow> k_key k \<in> {KEnter, KBackspace, KDelete} \<or> is_typed k"

definition ed_abs :: "editor \<Rightarrow> bytes \<times> nat" where
  "ed_abs e = (flat (ed_buf e), pos_offset (ed_buf e) (ed_cur e))"

lemma settle_abs:
  assumes "pos_ok (ed_buf e) (ed_cur e)"
  shows "ed_abs (settle e) = ed_abs e" "ed_buf (settle e) = ed_buf e" "ed_mode (settle e) = ed_mode e"
  using assms by (simp_all add: settle_def Let_def ed_abs_def)

lemma edit_with_abs:
  assumes "spliced o1 k s (ed_buf e) (f (ed_buf e) (ed_cur e))"
  shows "ed_abs (settle (edit_with f e)) = (splice o1 k s (flat (ed_buf e)), o1 + length s)"
  using assms settle_abs(1)[of "edit_with f e"]
  by (auto simp: edit_with_def spliced_def ed_abs_def split: prod.splits)

lemma edit_status_abs: "pos_ok (ed_buf e) (ed_cur e) \<Longrightarrow> ed_abs (settle (e\<lparr>ed_status := s\<rparr>)) = ed_abs (settle e)"
  using settle_abs(1)[of e] settle_abs(1)[of "e\<lparr>ed_status := s\<rparr>"] by (simp add: ed_abs_def)

lemma ed_key_abs:
  assumes "ed_ok e" "ed_mode e = EdNormal" "edits k"
  shows "ed_abs (ed_key r e k) = text_key k (ed_abs e)"
proof -
  have b: "tx_lines (ed_buf e) \<noteq> []" and c: "buf_clamp (ed_buf e) (ed_cur e) = ed_cur e"
    and p: "pos_ok (ed_buf e) (ed_cur e)"
    using assms(1) by (simp_all add: ed_ok_def ed_shown_def buf_ok_def)
  note sp = buf_insert_spliced[OF b, of "ed_cur e", unfolded c] split_line_spliced[OF b, of "ed_cur e", unfolded c]
    erase_at_spliced[OF b, of "ed_cur e", unfolded c]
  consider "k_key k = KEnter" | "k_key k = KBackspace" | "k_key k = KDelete" | "is_typed k" using assms(3) by (auto simp: edits_def)
  then show ?thesis
  proof cases
    case 1
    then show ?thesis using edit_with_abs[of _ _ _ _ split_line, OF sp(2)] assms(2) by (simp add: ed_key_def text_key_def ed_abs_def)
  next
    case 2
    show ?thesis
    proof (cases "pos_offset (ed_buf e) (ed_cur e) = 0")
      case True
      then have "erase_before (ed_buf e) (ed_cur e) = (ed_buf e, ed_cur e)" using erase_before_start[OF b, of "ed_cur e"] c by simp
      then show ?thesis using 2 assms(2) True settle_abs(1)[OF p] by (simp add: ed_key_def text_key_def edit_with_def ed_abs_def)
    next
      case False
      then show ?thesis using 2 assms(2) edit_with_abs[of _ _ _ _ erase_before, OF erase_before_spliced[OF b, of "ed_cur e", unfolded c]]
        by (simp add: ed_key_def text_key_def ed_abs_def)
    qed
  next
    case 3
    then show ?thesis using edit_with_abs[of _ _ _ _ erase_at, OF sp(3)] assms(2) by (simp add: ed_key_def text_key_def ed_abs_def)
  next
    case 4
    let ?f = "\<lambda>b p. buf_insert b p (encode_utf8 (k_ch k))"
    have "pos_ok (ed_buf (edit_with ?f e)) (ed_cur (edit_with ?f e))"
      using sp(1)[of "encode_utf8 (k_ch k)"] by (auto simp: edit_with_def spliced_def split: prod.splits)
    then show ?thesis using 4 assms(2) edit_with_abs[of _ _ _ _ ?f, OF sp(1)] edit_status_abs[of "edit_with ?f e" "[]"]
      by (simp add: ed_key_def text_key_def is_typed_def ed_abs_def not_le[symmetric])
  qed
qed

lemma settle_buf [simp]: "ed_buf (settle e) = ed_buf e"
  by (simp add: settle_def Let_def)

lemma ed_key_keeps_text:
  assumes "ed_mode e \<noteq> EdNormal \<or> \<not> edits k"
  shows "flat (ed_buf (ed_key r e k)) = flat (ed_buf e)"
proof -
  have "ed_buf (search_key e k) = ed_buf e"
    by (auto simp: search_key_def Let_def split: key.splits option.splits)
  moreover have "ed_buf (confirm_key e k) = ed_buf e" by (simp add: confirm_key_def ask_close_def)
  moreover have "flat (ed_buf (control_key r e ch)) = flat (ed_buf e)" for ch
    by (auto simp: control_key_def ed_save_def ask_close_def mark_saved_def flat_def split: save_result.splits)
  ultimately show ?thesis using assms by (cases "ed_mode e") (auto simp: ed_key_def edits_def is_typed_def not_less)
qed

text \<open>A run of the editor: keys, each with what the file system would answer to a save, and resizes.\<close>

datatype ed_event = EdKey save_result key_event | EdResize size

fun ed_step :: "editor \<Rightarrow> ed_event \<Rightarrow> editor" where
  "ed_step e (EdKey r k) = ed_key r e k"
| "ed_step e (EdResize s) = ed_resize e s"

lemma ed_run_ok: "ed_ok e \<Longrightarrow> ed_ok (foldl ed_step e evs)"
proof (induction evs arbitrary: e)
  case (Cons a evs)
  then show ?case by (cases a) (simp_all add: ed_key_ok ed_resize_ok)
qed simp

section \<open>Properties\<close>

text \<open>
  C12.  Editing refines editing one text at an offset.  From any state the editor can be in, in its
  normal mode, Return, Backspace, Delete and a typed character change the buffer of lines and the
  cursor exactly as one splice changes a flat text and an offset in it, line joins and splits
  included; every other key, and every key of the search and the confirmation, leaves the text alone.
\<close>

theorem editor_refines_text:
  assumes "ed_ok e"
  shows "if ed_mode e = EdNormal \<and> edits k then ed_abs (ed_key r e k) = text_key k (ed_abs e)
     else fst (ed_abs (ed_key r e k)) = fst (ed_abs e)"
  using ed_key_abs[OF assms] ed_key_keeps_text[of e k r] by (auto simp: ed_abs_def)

text \<open>Two lines joined by Backspace at the start of the second.\<close>

definition two_lines :: editor where
  "two_lines = ed_key SaveShort (editor_open [0x66] [0x61, 0x0A, 0x62]) \<lparr>k_key = KDown, k_ch = 0, k_mods = 0\<rparr>"

theorem editor_refines_text_witness:
  "ed_ok two_lines \<and> ed_abs two_lines = ([0x61, 0x0A, 0x62], 2)
   \<and> ed_abs (ed_key SaveShort two_lines \<lparr>k_key = KBackspace, k_ch = 0, k_mods = 0\<rparr>) = ([0x61, 0x62], 1)"
proof -
  have ok: "ed_ok two_lines" unfolding two_lines_def by (intro ed_key_ok editor_open_ok)
  have "ed_abs two_lines = ([0x61, 0x0A, 0x62], 2)" "ed_mode two_lines = EdNormal" by code_simp+
  with ok show ?thesis using editor_refines_text[OF ok, of "\<lparr>k_key = KBackspace, k_ch = 0, k_mods = 0\<rparr>" SaveShort]
    by (simp add: edits_def text_key_def splice_def)
qed

text \<open>
  Whatever keys are typed, however saving goes and whatever the window's size becomes, the buffer
  keeps at least one line, no line holds a line end, the cursor stands in the text and on a row that
  is shown, and the editor reports it at that row.
\<close>

theorem editor_invariant:
  "ed_ok (foldl ed_step (editor_open path content) evs)
   \<and> (\<exists>x y. ed_wants_cursor (foldl ed_step (editor_open path content) evs) = Some (x, y) \<and> 0 \<le> y
        \<and> y < int (rows_for_text (foldl ed_step (editor_open path content) evs)))"
proof -
  let ?e = "foldl ed_step (editor_open path content) evs"
  have "ed_ok ?e" by (rule ed_run_ok[OF editor_open_ok])
  then show ?thesis by (auto simp: ed_wants_cursor_def ed_ok_def ed_shown_def Let_def)
qed

text \<open>
  C25.  Opening a file and saving it writes the bytes that were read, whether or not they end with a
  line end; an empty file becomes one line end.
\<close>

theorem editor_saves_what_it_read:
  assumes "path \<noteq> []"
  shows "ed_saved (ed_key SaveDone (editor_open path content) \<lparr>k_key = KChar, k_ch = 0x73, k_mods = mod_Ctrl\<rparr>)
     = [(path, if content = [] then [nl] else content)]"
  using assms load_text[of content]
  by (simp add: ed_key_def control_key_def ed_save_def editor_open_def editor_init_def mod_Ctrl_def)

theorem editor_saves_what_it_read_witness:
  "ed_saved (ed_key SaveDone (editor_open [0x66] [0x61, 0x0A]) \<lparr>k_key = KChar, k_ch = 0x73, k_mods = mod_Ctrl\<rparr>)
     = [([0x66], [0x61, 0x0A])]"
  using editor_saves_what_it_read[of "[0x66]" "[0x61, 0x0A]"] by simp

end
