(* ===== verification/Desktop_Apps.thy ===== *)
theory Desktop_Apps
  imports Session_Safe Editor Terminal_Render
begin

text \<open>
  The applications of the catalogue behind the interface of \<open>src/app/app.hpp\<close>: the terminal and the
  editor as they are modelled, any other through its own operations.  What the kernel answers to a
  terminal (\<open>os\<close>, the reads of a descriptor) and to a save of the editor are arguments.  The locale
  \<open>painter\<close> is what the composition of a frame relies on.
\<close>

section \<open>Dispatch\<close>

datatype 'o desk_app = DeskTerminal terminal | DeskEditor editor | DeskOther 'o

record app_world =
  aw_os :: os
  aw_reads :: "64 word \<Rightarrow> read_result list"
  aw_save :: save_result

fun call_req :: "host_call \<Rightarrow> 'a host_req list" where
  "call_req (SetTitle t) = [HSetTitle t]"
| "call_req RequestClose = [HRequestClose]"
| "call_req Invalidate = [HInvalidate]"
| "call_req (Watch fd) = [HWatch fd 1]"
| "call_req (Unwatch token) = [HUnwatch (word_of_nat token)]"
| "call_req (WatchChild pid) = [HWatchChild pid]"
| "call_req (SetStartDir dir) = [HSetStartDir dir]"
| "call_req (Spawn path argv cwd) = []"

definition host_of :: "host_view \<Rightarrow> host" where
  "host_of hv = \<lparr>h_start_dir = hv_start_dir hv, h_configured = hv_configured hv\<rparr>"

text \<open>The kernel as a terminal sees it: the next descriptor it has watched gets the next key of its window.\<close>

definition os_for :: "app_world \<Rightarrow> host_view \<Rightarrow> os" where
  "os_for w hv = (aw_os w)\<lparr>os_token := unat (make_key (hv_win hv) (hv_gen hv))\<rparr>"

definition term_do :: "(terminal \<Rightarrow> terminal) \<Rightarrow> host_view \<Rightarrow> terminal \<Rightarrow> 'o desk_app \<times> 'o desk_app host_req list" where
  "term_do f hv T =
     (let T1 = f (T\<lparr>tm_calls := [], tm_host := map_option (\<lambda>_. host_of hv) (tm_host T)\<rparr>)
      in (DeskTerminal T1, concat (map call_req (tm_calls T1))))"

definition ed_do :: "(editor \<Rightarrow> editor) \<Rightarrow> editor \<Rightarrow> 'o desk_app \<times> 'o desk_app host_req list" where
  "ed_do f e = (let e1 = f (e\<lparr>ed_calls := []\<rparr>) in (DeskEditor e1, concat (map call_req (ed_calls e1))))"

definition other_do ::
  "(host_view \<Rightarrow> 'o \<Rightarrow> 'o \<times> 'o host_req list) \<Rightarrow> host_view \<Rightarrow> 'o \<Rightarrow> 'o desk_app \<times> 'o desk_app host_req list" where
  "other_do f hv x = (let (y, rs) = f hv x in (DeskOther y, map (map_host_req DeskOther) rs))"

definition dispatch ::
  "(host_view \<Rightarrow> terminal \<Rightarrow> terminal) \<Rightarrow> (editor \<Rightarrow> editor) \<Rightarrow> (host_view \<Rightarrow> 'o \<Rightarrow> 'o \<times> 'o host_req list)
   \<Rightarrow> host_view \<Rightarrow> 'o desk_app \<Rightarrow> 'o desk_app \<times> 'o desk_app host_req list" where
  "dispatch f g h hv a =
     (case a of DeskTerminal T \<Rightarrow> term_do (f hv) hv T | DeskEditor e \<Rightarrow> ed_do g e | DeskOther x \<Rightarrow> other_do h hv x)"

definition desk_ops :: "bool \<Rightarrow> app_world \<Rightarrow> 'o app_ops \<Rightarrow> 'o desk_app app_ops" where
  "desk_ops amb w ops =
     \<lparr>ap_make = (\<lambda>c. case c of MakeTerminal \<Rightarrow> DeskTerminal (terminal_init []) | MakeEditor \<Rightarrow> DeskEditor editor_init
                     | MakeFiles \<Rightarrow> DeskOther (ap_make ops MakeFiles)),
      ap_attach = dispatch (\<lambda>hv T. Terminal.attach (os_for w hv) T (host_of hv)) ed_attach (ap_attach ops),
      ap_render = (\<lambda>b v a s. case a of
          DeskTerminal T \<Rightarrow> (a, term_render b T v s)
        | DeskEditor e \<Rightarrow> (a, ed_render b e v s)
        | DeskOther x \<Rightarrow> let (y, s') = ap_render ops b v x s in (DeskOther y, s')),
      ap_key = (\<lambda>k. dispatch (\<lambda>hv T. Terminal.on_key (os_for w hv) T k) (\<lambda>e. ed_key (aw_save w) e k) (ap_key ops k)),
      ap_mouse = (\<lambda>m. dispatch (\<lambda>hv T. Terminal.on_mouse (os_for w hv) amb T m) id (ap_mouse ops m)),
      ap_paste = (\<lambda>u c. dispatch (\<lambda>hv T. Terminal.on_paste T u c) id (ap_paste ops u c)),
      ap_resize = (\<lambda>z. dispatch (\<lambda>hv T. Terminal.on_resize T z) (\<lambda>e. ed_resize e z) (ap_resize ops z)),
      ap_child_exit = (\<lambda>st. dispatch (\<lambda>hv T. Terminal.on_child_exit (os_for w hv) T) id (ap_child_exit ops st)),
      ap_command = (\<lambda>c. dispatch (\<lambda>hv T. T) id (ap_command ops c)),
      ap_io = (\<lambda>token ev. dispatch (\<lambda>hv T. fst (Terminal.on_io amb T (unat token) (aw_reads w token))) id (ap_io ops token ev)),
      ap_refresh = dispatch (\<lambda>hv T. T) id (ap_refresh ops),
      ap_wants_cursor = (\<lambda>a. case a of DeskTerminal T \<Rightarrow> Terminal.wants_cursor amb T | DeskEditor e \<Rightarrow> ed_wants_cursor e
                             | DeskOther x \<Rightarrow> ap_wants_cursor ops x),
      ap_min_size = (\<lambda>a. case a of DeskTerminal T \<Rightarrow> \<lparr>sz_w = 20, sz_h = 6\<rparr> | DeskEditor e \<Rightarrow> \<lparr>sz_w = 24, sz_h = 6\<rparr>
                         | DeskOther x \<Rightarrow> ap_min_size ops x),
      ap_refresh_ms = (\<lambda>a. case a of DeskOther x \<Rightarrow> ap_refresh_ms ops x | _ \<Rightarrow> - 1),
      ap_can_close = (\<lambda>a. case a of
          DeskTerminal T \<Rightarrow> if Terminal.can_close T then None else Some (str ''Un processus tourne encore. Fermer quand meme ?'')
        | DeskEditor e \<Rightarrow> ed_can_close e
        | DeskOther x \<Rightarrow> ap_can_close ops x)\<rparr>"

section \<open>What composing a frame relies on\<close>

locale painter =
  fixes ops :: "'a app_ops"
  assumes render_draws: "draws amb v s (snd (ap_render ops amb v a s))"
begin

lemma window_draws: "draws amb v (snd so) (snd (render_window ops amb env v f so i))"
proof -
  obtain s o1 where so: "so = (s, o1)" by fastforce
  have "draws amb v o1 (snd (ap_render ops amb (view_sub v r) a (draw_decor amb v o1 w b th bd)))" for r a w b th bd
    by (rule d_then[OF draw_decor_draws d_sub[OF render_draws]])
  then have p: "draws amb v o1 o3" if "ap_render ops amb (view_sub v r) a (draw_decor amb v o1 w b th bd) = (a', o3)" for r a w b th bd a' o3
    by (metis that snd_conv)
  show ?thesis unfolding so render_window_def Let_def
    by (auto simp: d_none split: option.split prod.split dest: p)
qed

lemma windows_draw: "draws amb v (snd so) (snd (foldl (render_window ops amb env v f) so is))"
proof (induction "is" arbitrary: so)
  case (Cons i "is")
  show ?case using d_then[OF window_draws Cons.IH] by simp
qed (simp add: d_none)

end

lemma empty_hint_draws: "draws amb v o1 (draw_empty_hint amb v o1 work s)"
  unfolding draw_empty_hint_def Let_def by (simp add: draws_text_after d_none)

lemma draw_back_draws: "draws amb v o1 (draw_back amb v work s o1)"
  unfolding draw_back_def Let_def
  by (auto intro!: d_then[OF _ empty_hint_draws] d_then[OF _ d_sub[OF sysinfo_draw_draws]] d_sub[OF draw_banner_draws])

lemma draw_outline_draws: "draws amb v o1 (draw_outline amb v work s o1)"
  unfolding draw_outline_def by (auto intro: d_none d_box split: drag_state.split option.split)

lemma panel_draw_draws: "draws amb v o1 (panel_draw amb v o1 p th c d)"
  unfolding panel_draw_def Let_def by (rule d_then[OF d_fill draws_foldl]) (auto simp: item_draw_def Let_def intro!: draws_after)

lemma draw_shell_draws: "draws amb v o1 (snd (draw_shell amb v f cols rows s o1))"
  unfolding draw_shell_def Let_def
  by (auto intro!: d_then[OF _ modal_draw_draws] d_then[OF _ help_draw_draws] d_then[OF _ menu_draw_draws]
      d_then[OF _ panel_draw_draws] assist_draw_draws)

context painter begin

lemma frame_draws: "draws amb (surface_root out) out (snd (render ops amb env out s))"
proof -
  let ?v = "surface_root out"
  define o1 where "o1 = view_fill ?v out (mk_rect 0 0 (sf_w out) (sf_h out)) (style_init\<lparr>st_bg := th_desktop_bg (se_theme (watchdog env s))\<rparr>)"
  have o1: "draws amb ?v out o1" unfolding o1_def by (rule d_fill)
  have w: "draws amb ?v out o2" if "foldl (render_window ops amb env ?v f) (t, draw_back amb ?v work u o1) is = (t', o2)" for t t' u f work "is" o2
    using d_then[OF d_then[OF o1 draw_back_draws] windows_draw[of amb ?v "(t, draw_back amb ?v work u o1)" env f "is", unfolded snd_conv]] that by simp
  show ?thesis unfolding render_def Let_def
    by (auto simp: o1_def[symmetric] split: prod.split
        intro!: d_then[OF _ draw_shell_draws] d_then[OF _ draw_outline_draws] draws_text_after o1 dest: w)
qed

end

text \<open>The methods of \<open>App\<close> as the class defines them, for an application that draws nothing.\<close>

definition base_ops :: "unit app_ops" where
  "base_ops =
     \<lparr>ap_make = (\<lambda>_. ()), ap_attach = (\<lambda>_ a. (a, [])), ap_render = (\<lambda>_ _ a s. (a, s)), ap_key = (\<lambda>_ _ a. (a, [])),
      ap_mouse = (\<lambda>_ _ a. (a, [])), ap_paste = (\<lambda>_ _ _ a. (a, [])), ap_resize = (\<lambda>_ _ a. (a, [])),
      ap_child_exit = (\<lambda>_ _ a. (a, [])), ap_command = (\<lambda>_ _ a. (a, [])), ap_io = (\<lambda>_ _ _ a. (a, [])),
      ap_refresh = (\<lambda>_ a. (a, [])), ap_wants_cursor = (\<lambda>_. None), ap_min_size = (\<lambda>_. \<lparr>sz_w = 10, sz_h = 3\<rparr>),
      ap_refresh_ms = (\<lambda>_. - 1), ap_can_close = (\<lambda>_. None)\<rparr>"

lemma desk_painter:
  assumes "\<And>b v x s. draws b v s (snd (ap_render ops b v x s))"
  shows "painter (desk_ops amb w ops)"
proof
  fix b v s a
  show "draws b v s (snd (ap_render (desk_ops amb w ops) b v a s))"
  proof (cases a)
    case (DeskOther x)
    then show ?thesis using assms[of b v s x] by (simp add: desk_ops_def split: prod.split) (metis snd_conv)
  qed (simp_all add: desk_ops_def term_render_draws ed_render_draws)
qed

lemma base_draws: "draws b v s (snd (ap_render base_ops b v x s))"
  by (simp add: base_ops_def d_none)

interpretation desktop: painter "desk_ops amb w base_ops" for amb w
  by (rule desk_painter) (rule base_draws)

end
