(* ===== verification/Session_Caret.thy ===== *)
theory Session_Caret
  imports Desktop_Apps
begin

text \<open>
  Where the caret is after a frame.  Drawing a window may change its title, its minimal size and the
  size its application was told, never where it is: \<open>places\<close> is what the windows keep through it.
\<close>

section \<open>Windows stay in place while they are drawn\<close>

definition places :: "wm \<Rightarrow> (32 word \<times> win_mode \<times> rect) list" where
  "places m = map (\<lambda>w. (w_id w, w_mode w, w_display_rect w)) (wm_stack m)"

lemma find_if_ids: "find_if (\<lambda>w. w_id w = i) ws = find_if (\<lambda>p. fst p = i) (map (\<lambda>w. (w_id w, w_mode w, w_display_rect w)) ws)"
  by (induction ws) auto

lemma places_find:
  assumes "places m' = places m" "wm_find m i = Some w"
  shows "\<exists>w'. wm_find m' i = Some w' \<and> w_mode w' = w_mode w \<and> w_display_rect w' = w_display_rect w"
proof -
  have eq: "wm_index m' i = wm_index m i" using assms(1) by (simp add: wm_index_def find_if_ids places_def)
  obtain k where k: "wm_index m i = Some k" "w = wm_stack m ! k" using assms(2) by (auto simp: wm_find_def)
  have l: "k < length (wm_stack m)" "k < length (wm_stack m')"
    using wm_index_Some[OF k(1)] wm_index_Some[of m' i k] eq k(1) by auto
  have "places m' ! k = places m ! k" using assms(1) by simp
  then show ?thesis using l k eq by (simp add: places_def wm_find_def)
qed

definition still :: "(window \<Rightarrow> window) \<Rightarrow> bool" where
  "still f \<longleftrightarrow> (\<forall>w. w_id (f w) = w_id w \<and> w_mode (f w) = w_mode w \<and> w_display_rect (f w) = w_display_rect w)"

lemma places_upd: "still f \<Longrightarrow> places (upd_win f i m) = places m"
  by (simp add: places_def upd_win_def still_def)

definition settled :: "'a desk \<Rightarrow> 'a desk \<Rightarrow> bool" where
  "settled d d' \<longleftrightarrow> places (dk_wm d') = places (dk_wm d) \<and> wm_focused (dk_wm d') = wm_focused (dk_wm d)"

lemma settled_refl [simp]: "settled d d"
  by (simp add: settled_def)

lemma settled_trans: "settled a b \<Longrightarrow> settled b c \<Longrightarrow> settled a c"
  by (simp add: settled_def)

lemma serve_settled: "settled d (serve_req w i d r)"
  by (cases r) (auto simp: settled_def host_watch_def host_unwatch_def Let_def still_def places_upd split: option.split prod.split)

lemma serves_settled: "settled d (foldl (serve_req w i) d rs)"
  by (induction rs arbitrary: d) (auto intro: settled_trans serve_settled)

lemma put_app_settled: "settled d (put_app ops i a d)"
  by (simp add: settled_def put_app_def places_upd still_def)

lemma app_call_settled: "settled d (app_call ops w f i d)"
  by (auto simp: app_call_def Let_def split: option.split prod.split intro: settled_trans[OF put_app_settled serves_settled])

lemma tell_size_settled: "settled (se_desk s) (se_desk (tell_size ops env w s))"
proof -
  have "settled d (d\<lparr>dk_wm := upd_win (\<lambda>x. x\<lparr>w_sent_size := z\<rparr>) i (dk_wm d)\<rparr>)" for d :: "'a desk" and z i
    by (simp add: settled_def places_upd still_def)
  then show ?thesis by (auto simp: tell_size_def Let_def to_app_def upd_wm_def upd_desk_def intro: settled_trans[OF app_call_settled])
qed

lemma tell_size_cursor [simp]: "se_cursor (tell_size ops env w s) = se_cursor s"
  by (simp add: tell_size_def Let_def to_app_def upd_wm_def upd_desk_def)

section \<open>The caret\<close>

definition caret_ok :: "'a session \<Rightarrow> bool" where
  "caret_ok s \<longleftrightarrow> (case se_cursor s of
      None \<Rightarrow> True
    | Some (x, y) \<Rightarrow>
        (case wm_find (se_wm s) (wm_focused (se_wm s)) of
           None \<Rightarrow> False
         | Some w \<Rightarrow> w_mode w \<noteq> Minimized \<and> contains (client_rect (w_display_rect w)) x y))"

lemma caret_settled:
  assumes "caret_ok s" "settled (se_desk s) (se_desk t)" "se_cursor t = se_cursor s"
  shows "caret_ok t"
proof (cases "se_cursor s")
  case (Some p)
  obtain x y where p: "p = (x, y)" by fastforce
  obtain w where w: "wm_find (se_wm s) (wm_focused (se_wm s)) = Some w" "w_mode w \<noteq> Minimized" "contains (client_rect (w_display_rect w)) x y"
    using assms(1) Some p by (auto simp: caret_ok_def split: option.splits)
  have e: "places (se_wm t) = places (se_wm s)" "wm_focused (se_wm t) = wm_focused (se_wm s)" using assms(2) by (simp_all add: settled_def)
  show ?thesis using places_find[OF e(1) w(1)] w e(2) assms(3) Some p by (auto simp: caret_ok_def)
qed (use assms in \<open>simp add: caret_ok_def\<close>)

lemma caret_of_cases:
  "caret_of ops f w a old = old \<or> (\<exists>x y. caret_of ops f w a old = Some (x, y) \<and> w_id w = f \<and> contains (client_rect (w_display_rect w)) x y)"
  by (auto simp: caret_of_def Let_def contains_def split: option.splits)

lemma render_window_caret:
  assumes "caret_ok (fst so)" "wm_focused (se_wm (fst so)) = f"
  shows "caret_ok (fst (render_window ops amb env v f so i)) \<and> wm_focused (se_wm (fst (render_window ops amb env v f so i))) = f"
proof -
  obtain s o1 where so: "so = (s, o1)" by fastforce
  show ?thesis
  proof (cases "\<exists>w0. wm_find (se_wm s) i = Some w0 \<and> w_mode w0 \<noteq> Minimized")
    case True
    then obtain w0 where w0: "wm_find (se_wm s) i = Some w0" "w_mode w0 \<noteq> Minimized" by blast
    define s1 where "s1 = tell_size ops env w0 s"
    have st: "settled (se_desk s) (se_desk s1)" unfolding s1_def by (rule tell_size_settled)
    have c1: "caret_ok s1" using caret_settled[OF _ st] assms so by (simp add: s1_def)
    have f1: "wm_focused (se_wm s1) = f" using st assms so by (simp add: settled_def)
    obtain w1 where w1: "wm_find (se_wm s1) i = Some w1" "w_mode w1 \<noteq> Minimized" "w_display_rect w1 = w_display_rect w0"
      using places_find[OF _ w0(1)] st w0(2) by (force simp: settled_def)
    show ?thesis
    proof (cases "dk_apps (se_desk s1) i")
      case None
      then show ?thesis using w0 w1 c1 f1 by (simp add: render_window_def so s1_def[symmetric])
    next
      case (Some a)
      obtain a' o3 where r: "ap_render ops amb (view_sub v (client_rect (w_display_rect w0))) a
          (draw_decor amb v o1 w1 (i = f) (se_theme s1) (session_border s1)) = (a', o3)" by fastforce
      define t where "t = upd_desk (put_app ops i a') s1"
      have t: "settled (se_desk s1) (se_desk t)" unfolding t_def upd_desk_def using put_app_settled by simp
      have ct: "caret_ok t" "wm_focused (se_wm t) = f" "se_cursor t = se_cursor s1"
        using caret_settled[OF c1 t] t f1 by (simp_all add: t_def upd_desk_def settled_def)
      obtain w2 where w2: "wm_find (se_wm t) i = Some w2" "w_mode w2 \<noteq> Minimized" "w_display_rect w2 = w_display_rect w1"
        using places_find[OF _ w1(1)] t w1(2) by (force simp: settled_def)
      have id: "w_id w1 = i" using find_in(2)[OF w1(1)] .
      have "caret_ok (t\<lparr>se_cursor := caret_of ops f w1 a' (se_cursor s1)\<rparr>)"
        using caret_of_cases[of ops f w1 a' "se_cursor s1"]
      proof
        assume "caret_of ops f w1 a' (se_cursor s1) = se_cursor s1"
        then show ?thesis using ct by (auto simp: caret_ok_def split: option.splits)
      next
        assume "\<exists>x y. caret_of ops f w1 a' (se_cursor s1) = Some (x, y) \<and> w_id w1 = f \<and> contains (client_rect (w_display_rect w1)) x y"
        then show ?thesis using w2 ct(2) id by (auto simp: caret_ok_def)
      qed
      then show ?thesis using w0 w1 Some r ct(2) by (simp add: render_window_def so s1_def[symmetric] t_def[symmetric] Let_def)
    qed
  qed (use assms so in \<open>auto simp: render_window_def split: option.split\<close>)
qed

lemma render_windows_caret:
  "caret_ok (fst so) \<Longrightarrow> wm_focused (se_wm (fst so)) = f \<Longrightarrow> caret_ok (fst (foldl (render_window ops amb env v f) so is))"
proof (induction "is" arbitrary: so)
  case (Cons i "is")
  show ?case using Cons.IH[of "render_window ops amb env v f so i"] render_window_caret[OF Cons.prems, of ops amb env v i] by simp
qed simp

lemma upd_cursor [simp]: "se_cursor (upd_desk f s) = se_cursor s" "se_cursor (upd_wm g s) = se_cursor s" "se_cursor (set_dirty s) = se_cursor s"
  by (simp_all add: upd_desk_def upd_wm_def set_dirty_def)

lemma prepare_cursor: "se_cursor (prepare_frame ops env cols rows s) = se_cursor s"
proof -
  have "se_cursor (tick_clock env s) = se_cursor s" for s :: "'a session" by (simp add: tick_clock_def split: prod.split)
  moreover have "se_cursor (serve_pending ops env s) = se_cursor s" for s by (simp add: serve_pending_def split: list.split prod.split)
  moreover have "se_cursor (serve_close ops s) = se_cursor s" for s
    by (simp add: serve_close_def request_close_def cancel_drag_def Let_def split: option.split drag_state.split)
  moreover have "se_cursor (ensure_window ops env s) = se_cursor s" for s
    by (simp add: ensure_window_def open_from_catalog_def split: option.split)
  ultimately show ?thesis by (simp add: prepare_frame_def Let_def)
qed

lemma draw_shell_caret:
  assumes "caret_ok s" "fst (draw_shell amb v f cols rows s o1) = t"
  shows "caret_ok t \<and> (mn_open (se_menu t) \<or> hp_open (se_help t) \<or> md_open (se_modal t) \<longrightarrow> se_cursor t = None)"
  using assms by (auto simp: draw_shell_def Let_def caret_ok_def menu_layout_def help_layout_def modal_layout_def split: option.splits if_splits)

lemma render_caret:
  fixes ops :: "'a app_ops"
  assumes "sf_w out \<ge> kMinCols" "sf_h out \<ge> kMinRows" "fst (render ops amb env out s) = t"
  shows "caret_ok t \<and> (mn_open (se_menu t) \<or> hp_open (se_help t) \<or> md_open (se_modal t) \<longrightarrow> se_cursor t = None)"
proof -
  define s1 where "s1 = prepare_frame ops env (sf_w out) (sf_h out) ((watchdog env s)\<lparr>se_cursor := None\<rparr>)"
  have "caret_ok s1" by (simp add: caret_ok_def s1_def prepare_cursor)
  then have w: "caret_ok (fst (foldl (render_window ops amb env v (wm_focused (se_wm s1))) (s1, o2) is))" for v o2 "is"
    by (intro render_windows_caret) simp_all
  show ?thesis using assms
    by (auto simp: render_def Let_def s1_def[symmetric] split: prod.splits) (metis draw_shell_caret w fst_conv)+
qed

end
