(* ===== verification/Diff.thy ===== *)
theory Diff
  imports Profile Surface_Inv
begin

text \<open>
  \<open>src/render/diff.cpp\<close>: what is sent to a client's terminal so that it shows the next
  frame, given the one it shows.  The body of a frame is a list of orders (place the
  cursor, change the pen, draw a glyph, erase to the end of the line); \<open>order_bytes\<close> is
  what each of them sends.
\<close>

section \<open>Model\<close>

record differ =
  df_profile :: output_profile
  df_prev :: surface
  df_valid :: bool
  df_last_target :: "int \<times> int"
  df_last_shown :: bool
  df_first :: bool

definition differ_new :: "output_profile \<Rightarrow> differ" where
  "differ_new p = \<lparr>df_profile = p, df_prev = surface_new 0 0, df_valid = False, df_last_target = (0, 0),
     df_last_shown = False, df_first = True\<rparr>"

definition differ_invalidate :: "differ \<Rightarrow> differ" where
  "differ_invalidate d = d\<lparr>df_valid := False\<rparr>"

datatype order = Cup int int | Sgr style style | Glyph char32 nat | EraseTail

definition cup :: "int \<Rightarrow> int \<Rightarrow> bytes" where
  "cup x y = 0x1B # str ''['' @ to_string (y + 1) @ str '';'' @ to_string (x + 1) @ str ''H''"

fun order_bytes :: "output_profile \<Rightarrow> order \<Rightarrow> bytes" where
  "order_bytes p (Cup x y) = cup x y"
| "order_bytes p (Sgr a b) = sgr_transition a b p"
| "order_bytes p (Glyph ch w) = encode_utf8 ch"
| "order_bytes p EraseTail = 0x1B # str ''[K''"

definition style_of :: "cell \<Rightarrow> style" where
  "style_of c = \<lparr>st_fg = c_fg c, st_bg = c_bg c, st_attrs = c_attrs c\<rparr>"

definition kMinErasableTail :: int where "kMinErasableTail = 4"

text \<open>The pen, and where the terminal's cursor is when that is known.\<close>

type_synonym pen = "style \<times> (int \<times> int) option"

definition place :: "int \<Rightarrow> int \<Rightarrow> pen \<Rightarrow> order list" where
  "place x y p = (if snd p = Some (x, y) then [] else [Cup x y])"

definition emit_cell :: "int \<Rightarrow> int \<Rightarrow> cell \<Rightarrow> pen \<Rightarrow> order list \<times> pen" where
  "emit_cell y c cell p =
     (place c y p @ [Sgr (fst p) (style_of cell), Glyph (c_ch cell) (c_width cell)],
      (style_of cell, if c_ch cell \<ge> 0x80 then None else Some (c + int (c_width cell), y)))"

text \<open>The cells of a run, without the second halves.\<close>

fun emit_run :: "surface \<Rightarrow> int \<Rightarrow> int list \<Rightarrow> pen \<Rightarrow> order list \<times> pen" where
  "emit_run cur y [] p = ([], p)"
| "emit_run cur y (c # cs) p =
     (if c_width (surf_at cur c y) = 0 then emit_run cur y cs p
      else let (os, p1) = emit_cell y c (surf_at cur c y) p; (os', p2) = emit_run cur y cs p1 in (os @ os', p2))"

definition differs :: "bool \<Rightarrow> surface \<Rightarrow> surface \<Rightarrow> int \<Rightarrow> int \<Rightarrow> bool" where
  "differs full cur prev x y \<longleftrightarrow> full \<or> surf_at cur x y \<noteq> surf_at prev x y"

text \<open>The loops that look back for the head of a character, forward for the end of a run,
  and back from the right edge for the blank tail.\<close>

definition run_start :: "surface \<Rightarrow> int \<Rightarrow> int \<Rightarrow> int" where
  "run_start cur y x = (case List.find (\<lambda>c. c_width (surf_at cur c y) \<noteq> 0) (rev [1..x]) of Some c \<Rightarrow> c | None \<Rightarrow> 0)"

definition run_end :: "bool \<Rightarrow> surface \<Rightarrow> surface \<Rightarrow> int \<Rightarrow> int \<Rightarrow> int \<Rightarrow> int" where
  "run_end full cur prev content_end y x =
     x + 1 + int (length (takeWhile (\<lambda>c. differs full cur prev c y \<or> c_width (surf_at cur c y) = 0) [x + 1..content_end - 1]))"

definition tail_start :: "surface \<Rightarrow> int \<Rightarrow> int" where
  "tail_start cur y = (case List.find (\<lambda>c. surf_at cur c y \<noteq> cell_init) (rev [0..sf_w cur - 1]) of Some c \<Rightarrow> c + 1 | None \<Rightarrow> 0)"

function row_loop :: "bool \<Rightarrow> surface \<Rightarrow> surface \<Rightarrow> int \<Rightarrow> int \<Rightarrow> int \<Rightarrow> pen \<Rightarrow> order list \<times> pen \<times> bool" where
  "row_loop full cur prev content_end y x p =
     (if x < content_end then
        if \<not> differs full cur prev x y then row_loop full cur prev content_end y (x + 1) p
        else
          let stop = run_end full cur prev content_end y x;
              (os, p1) = emit_run cur y [run_start cur y x..stop - 1] p;
              (os', p2, any) = row_loop full cur prev content_end y stop p1
          in (os @ os', p2, True)
      else ([], p, False))"
  by pat_completeness auto
termination
  by (relation "measure (\<lambda>(full, cur, prev, content_end, y, x, p). nat (content_end - x))") (auto simp: run_end_def)

declare row_loop.simps [simp del]

definition erase_row :: "bool \<Rightarrow> surface \<Rightarrow> surface \<Rightarrow> int \<Rightarrow> pen \<Rightarrow> order list \<times> pen \<times> bool" where
  "erase_row full cur prev y p =
     (let t = tail_start cur y in
      if full \<or> (\<exists>c \<in> set [t..sf_w cur - 1]. surf_at cur c y \<noteq> surf_at prev c y) then
        let bg_default = (fst p)\<lparr>st_bg := ColDefault\<rparr>
        in (place t y p @ (if st_bg (fst p) \<noteq> ColDefault then [Sgr (fst p) bg_default] else []) @ [EraseTail],
            (if st_bg (fst p) \<noteq> ColDefault then bg_default else fst p, Some (t, y)), True)
      else ([], p, False))"

definition emit_row :: "bool \<Rightarrow> surface \<Rightarrow> surface \<Rightarrow> int \<Rightarrow> pen \<Rightarrow> order list \<times> pen \<times> bool" where
  "emit_row full cur prev y p =
     (let erase_tail = (sf_w cur - tail_start cur y \<ge> kMinErasableTail);
          content_end = (if erase_tail then tail_start cur y else sf_w cur);
          (os, p1, any) = row_loop full cur prev content_end y 0 p
      in if erase_tail
         then let (os', p2, any') = erase_row full cur prev y p1 in (os @ os', p2, any \<or> any')
         else (os, p1, any))"

fun emit_rows :: "bool \<Rightarrow> surface \<Rightarrow> surface \<Rightarrow> int list \<Rightarrow> pen \<Rightarrow> order list \<times> bool" where
  "emit_rows full cur prev [] p = ([], False)"
| "emit_rows full cur prev (y # ys) p =
     (let (os, p1, any) = emit_row full cur prev y p; (os', any') = emit_rows full cur prev ys p1
      in (os @ os', any \<or> any'))"

text \<open>\<open>frame\<close>: the new state and the orders of the body, \<open>None\<close> when nothing is sent; and the
  bytes.\<close>

definition frame_orders :: "differ \<Rightarrow> surface \<Rightarrow> (int \<times> int) option \<Rightarrow> differ \<times> order list option" where
  "frame_orders d cur cursor =
     (let resized = (sf_w (df_prev d) \<noteq> sf_w cur \<or> sf_h (df_prev d) \<noteq> sf_h cur);
          prev = (if resized then surface_resize (df_prev d) (sf_w cur) (sf_h cur) else df_prev d);
          full = (resized \<or> \<not> df_valid d);
          (body, any) = emit_rows full cur prev [0..sf_h cur - 1] (style_init, None);
          target = (case cursor of Some p \<Rightarrow> p | None \<Rightarrow> (0, 0));
          shown = (cursor \<noteq> None);
          cursor_changed = (df_first d \<or> target \<noteq> df_last_target d \<or> shown \<noteq> df_last_shown d)
      in if \<not> any \<and> \<not> full \<and> \<not> cursor_changed then (d, None)
         else (d\<lparr>df_prev := cur, df_valid := True, df_last_target := target, df_last_shown := shown, df_first := False\<rparr>,
               Some body))"

definition frame :: "differ \<Rightarrow> surface \<Rightarrow> (int \<times> int) option \<Rightarrow> differ \<times> bytes" where
  "frame d cur cursor =
     (case frame_orders d cur cursor of
        (d', None) \<Rightarrow> (d', [])
      | (d', Some body) \<Rightarrow>
          (d', 0x1B # str ''[?25l'' @ 0x1B # str ''[0m'' @ concat (map (order_bytes (df_profile d)) body)
            @ (case cursor of Some (x, y) \<Rightarrow> cup x y @ 0x1B # str ''[?25h'' | None \<Rightarrow> cup 0 0)))"

end
