(* ===== verification/Diff_Paint.thy ===== *)
theory Diff_Paint
  imports Diff
begin

text \<open>
  What a terminal makes of the orders of a frame.  A display is a grid of cells, a pen and
  a cursor; \<open>show_order\<close> is what one order does to it, or \<open>None\<close> when the order relies on
  something a terminal does not promise: drawing where the cursor is not known to be
  (after a character beyond ASCII, whose width terminals disagree on), changing the pen
  from a style it does not have, drawing outside the grid.  A half of a wide character
  whose other half is overwritten becomes \<open>junk\<close>, whatever the terminal puts there.
\<close>

section \<open>Displays\<close>

record display =
  dy_cell :: "int \<Rightarrow> int \<Rightarrow> cell"
  dy_pen :: style
  dy_cur :: "(int \<times> int) option"

definition draw_glyph :: "cell \<Rightarrow> (int \<Rightarrow> int \<Rightarrow> cell) \<Rightarrow> int \<Rightarrow> int \<Rightarrow> char32 \<Rightarrow> nat \<Rightarrow> style \<Rightarrow> int \<Rightarrow> int \<Rightarrow> cell" where
  "draw_glyph junk f x y ch w pen = (\<lambda>x' y'.
     if y' \<noteq> y then f x' y'
     else if x' = x then glyph_cell ch pen (int w)
     else if w = 2 \<and> x' = x + 1 then kContinuation
     else if x' = x - 1 \<and> c_width (f x' y') = 2 \<or> x' = x + int w \<and> c_width (f x' y') = 0 then junk
     else f x' y')"

definition erase_right :: "cell \<Rightarrow> (int \<Rightarrow> int \<Rightarrow> cell) \<Rightarrow> int \<Rightarrow> int \<Rightarrow> style \<Rightarrow> int \<Rightarrow> int \<Rightarrow> cell" where
  "erase_right junk f x y pen = (\<lambda>x' y'.
     if y' \<noteq> y then f x' y'
     else if x' \<ge> x then cell_init\<lparr>c_bg := st_bg pen\<rparr>
     else if x' = x - 1 \<and> c_width (f x' y') = 2 then junk
     else f x' y')"

fun show_order :: "cell \<Rightarrow> int \<Rightarrow> int \<Rightarrow> order \<Rightarrow> display \<Rightarrow> display option" where
  "show_order junk w h (Cup x y) d = Some (d\<lparr>dy_cur := Some (x, y)\<rparr>)"
| "show_order junk w h (Sgr a b) d = (if dy_pen d = a then Some (d\<lparr>dy_pen := b\<rparr>) else None)"
| "show_order junk w h (Glyph ch n) d =
     (case dy_cur d of
        None \<Rightarrow> None
      | Some (x, y) \<Rightarrow>
          if 0 \<le> x \<and> x + int n \<le> w \<and> 0 \<le> y \<and> y < h \<and> (n = 1 \<or> n = 2)
          then Some (d\<lparr>dy_cell := draw_glyph junk (dy_cell d) x y ch n (dy_pen d),
                       dy_cur := (if ch \<ge> 0x80 then None else Some (x + int n, y))\<rparr>)
          else None)"
| "show_order junk w h EraseTail d =
     (case dy_cur d of
        None \<Rightarrow> None
      | Some (x, y) \<Rightarrow>
          if 0 \<le> x \<and> x < w \<and> 0 \<le> y \<and> y < h
          then Some (d\<lparr>dy_cell := erase_right junk (dy_cell d) x y (dy_pen d)\<rparr>) else None)"

fun show_orders :: "cell \<Rightarrow> int \<Rightarrow> int \<Rightarrow> order list \<Rightarrow> display \<Rightarrow> display option" where
  "show_orders junk w h [] d = Some d"
| "show_orders junk w h (o1 # os) d =
     (case show_order junk w h o1 d of None \<Rightarrow> None | Some d1 \<Rightarrow> show_orders junk w h os d1)"

lemma show_orders_append:
  "show_orders junk w h (os @ os') d
     = (case show_orders junk w h os d of None \<Rightarrow> None | Some d1 \<Rightarrow> show_orders junk w h os' d1)"
  by (induction os arbitrary: d) (auto split: option.splits)

text \<open>A display shows a cell: the second half of a wide character has no look of its own.\<close>

definition same_cell :: "cell \<Rightarrow> cell \<Rightarrow> bool" where
  "same_cell a b \<longleftrightarrow> (if c_width b = 0 then c_width a = 0 else a = b)"

definition shows_surface :: "display \<Rightarrow> surface \<Rightarrow> bool" where
  "shows_surface d s \<longleftrightarrow> (\<forall>x y. on_surf s x y \<longrightarrow> same_cell (dy_cell d x y) (surf_at s x y))"

text \<open>A surface fit for a terminal: whole wide characters, no other width than 0, 1, 2.\<close>

definition surf_shown :: "surface \<Rightarrow> bool" where
  "surf_shown s \<longleftrightarrow> paired s \<and> (\<forall>x y. on_surf s x y \<longrightarrow> c_width (surf_at s x y) \<le> 2)"

section \<open>A row in progress\<close>

text \<open>Up to column \<open>k\<close> the row is right; from there on it is right or known to differ.\<close>

definition row_ok :: "bool \<Rightarrow> surface \<Rightarrow> surface \<Rightarrow> int \<Rightarrow> int \<Rightarrow> display \<Rightarrow> bool" where
  "row_ok full cur prev y k d \<longleftrightarrow> (\<forall>j. 0 \<le> j \<and> j < sf_w cur \<longrightarrow>
     same_cell (dy_cell d j y) (surf_at cur j y) \<or> k \<le> j \<and> differs full cur prev j y)"

definition pen_ok :: "pen \<Rightarrow> display \<Rightarrow> bool" where
  "pen_ok p d \<longleftrightarrow> dy_pen d = fst p \<and> (\<forall>q. snd p = Some q \<longrightarrow> dy_cur d = Some q)"

text \<open>What a part of a frame does: it can be shown, it leaves the other rows alone, and the
  pen and cursor are where it says.\<close>

definition shows_part :: "cell \<Rightarrow> int \<Rightarrow> int \<Rightarrow> int \<Rightarrow> order list \<Rightarrow> display \<Rightarrow> pen \<Rightarrow> display \<Rightarrow> bool" where
  "shows_part junk w h y os d p' d' \<longleftrightarrow> show_orders junk w h os d = Some d' \<and> pen_ok p' d'
     \<and> (\<forall>x y'. y' \<noteq> y \<longrightarrow> dy_cell d' x y' = dy_cell d x y')"

lemma shows_part_nil: "pen_ok p d \<Longrightarrow> shows_part junk w h y [] d p d"
  by (simp add: shows_part_def)

lemma shows_part_append:
  "shows_part junk w h y os d p d1 \<Longrightarrow> shows_part junk w h y os' d1 p' d2 \<Longrightarrow> shows_part junk w h y (os @ os') d p' d2"
  by (auto simp: shows_part_def show_orders_append)

lemma row_ok_mono: "row_ok full cur prev y k d \<Longrightarrow> k' \<le> k \<Longrightarrow> row_ok full cur prev y k' d"
  unfolding row_ok_def by (meson order_trans)

lemma place_shows:
  assumes "pen_ok p d"
  shows "show_orders junk w h (place x y p @ os) d = show_orders junk w h os (d\<lparr>dy_cur := Some (x, y)\<rparr>)"
proof -
  have "d\<lparr>dy_cur := Some (x, y)\<rparr> = d" if "snd p = Some (x, y)" using assms that by (cases d) (simp add: pen_ok_def)
  then show ?thesis by (auto simp: place_def)
qed

lemma glyph_of_cell: "glyph_cell (c_ch c) (style_of c) (int (c_width c)) = c"
  by (cases c) (simp add: glyph_cell_def style_of_def)

lemma emit_cell_shows:
  fixes cur y k
  defines "c \<equiv> surf_at cur k y"
  assumes "surf_shown cur" "on_surf cur k y" "c_width c \<noteq> 0" "pen_ok p d" "row_ok full cur prev y k d"
    and "emit_cell y k c p = (os, p')"
  shows "\<exists>d'. shows_part junk (sf_w cur) (sf_h cur) y os d p' d' \<and> row_ok full cur prev y (k + int (c_width c)) d'"
proof -
  let ?n = "c_width c"
  have pr: "pairs (sf_w cur) (row_widths cur y)" using assms(2,3) by (simp add: surf_shown_def paired_def on_surf_def)
  have n: "?n = 1 \<or> ?n = 2" using assms(2-4) by (fastforce simp: surf_shown_def c_def)
  have wide: "k + 1 < sf_w cur \<and> c_width (surf_at cur (k + 1) y) = 0" if "?n = 2"
    using pr assms(3) that by (auto simp: pairs_def row_widths_def on_surf_def c_def)
  have room: "k + int ?n \<le> sf_w cur" using n wide assms(3) by (auto simp: on_surf_def)
  have left: "c_width (dy_cell d (k - 1) y) \<noteq> 2" if "0 < k"
  proof
    assume w2: "c_width (dy_cell d (k - 1) y) = 2"
    have "same_cell (dy_cell d (k - 1) y) (surf_at cur (k - 1) y)"
      using assms(6)[unfolded row_ok_def, rule_format, of "k - 1"] assms(3) that by (auto simp: on_surf_def)
    then have "row_widths cur y (k - 1) = 2" using w2 by (auto simp: same_cell_def row_widths_def split: if_splits)
    then have "row_widths cur y k = 0"
      using pr[unfolded pairs_def, rule_format, of "k - 1"] assms(3) that by (auto simp: on_surf_def)
    then show False using assms(4) by (simp add: row_widths_def c_def)
  qed
  have right: "differs full cur prev j y"
    if "j = k + int ?n" "j < sf_w cur" "c_width (dy_cell d j y) = 0" for j
  proof (rule ccontr)
    assume "\<not> differs full cur prev j y"
    then have "same_cell (dy_cell d j y) (surf_at cur j y)"
      using assms(6)[unfolded row_ok_def, rule_format, of j] assms(3) that by (auto simp: on_surf_def)
    then have "row_widths cur y j = 0" using that(3) by (auto simp: same_cell_def row_widths_def split: if_splits)
    then have "row_widths cur y (j - 1) = 2" 
      using pr[unfolded pairs_def, rule_format, of j] that assms(3) by (auto simp: on_surf_def)
    then show False using n that(1) wide by (auto simp: row_widths_def c_def add.commute)
  qed
  define d' where "d' = d\<lparr>dy_cell := draw_glyph junk (dy_cell d) k y (c_ch c) ?n (style_of c), dy_pen := style_of c,
    dy_cur := (if c_ch c \<ge> 0x80 then None else Some (k + int ?n, y))\<rparr>"
  have os: "os = place k y p @ [Sgr (fst p) (style_of c), Glyph (c_ch c) ?n]"
    "p' = (style_of c, if c_ch c \<ge> 0x80 then None else Some (k + int ?n, y))"
    using assms(7) by (simp_all add: emit_cell_def)
  have "show_orders junk (sf_w cur) (sf_h cur) os d = Some d'"
    unfolding os(1) place_shows[OF assms(5)] using assms(3,5) room n
    by (cases d) (simp add: d'_def pen_ok_def on_surf_def)
  then have "shows_part junk (sf_w cur) (sf_h cur) y os d p' d'"
    by (auto simp: shows_part_def os(2) pen_ok_def d'_def draw_glyph_def)
  moreover have "row_ok full cur prev y (k + int ?n) d'"
    unfolding row_ok_def
  proof (intro allI impI)
    fix j assume j: "0 \<le> j \<and> j < sf_w cur"
    have old: "same_cell (dy_cell d j y) (surf_at cur j y) \<or> k \<le> j \<and> differs full cur prev j y"
      using assms(6) j by (simp add: row_ok_def)
    consider "j = k" | "j = k + 1" "?n = 2" | "j = k + int ?n" "c_width (dy_cell d j y) = 0"
      | "j = k - 1" "c_width (dy_cell d j y) = 2"
      | "j \<noteq> k" "\<not> (j = k + 1 \<and> ?n = 2)" "\<not> (j = k + int ?n \<and> c_width (dy_cell d j y) = 0)"
        "\<not> (j = k - 1 \<and> c_width (dy_cell d j y) = 2)"
      by argo
    then show "same_cell (dy_cell d' j y) (surf_at cur j y) \<or> k + int ?n \<le> j \<and> differs full cur prev j y"
    proof cases
      case 1
      then show ?thesis by (simp add: d'_def draw_glyph_def glyph_of_cell same_cell_def c_def)
    next
      case 2
      then show ?thesis using wide by (simp add: d'_def draw_glyph_def same_cell_def kContinuation_def)
    next
      case 3
      then show ?thesis using right j by simp
    next
      case 4
      then show ?thesis using left j by simp
    next
      case 5
      then have "dy_cell d' j y = dy_cell d j y" by (auto simp: d'_def draw_glyph_def)
      then show ?thesis using old n 5(1,2) by auto
    qed
  qed
  ultimately show ?thesis by blast
qed

lemma emit_run_shows:
  assumes "surf_shown cur" "0 \<le> y" "y < sf_h cur" "0 \<le> a" "b \<le> sf_w cur"
    and "a < b \<longrightarrow> c_width (surf_at cur a y) \<noteq> 0" "b < sf_w cur \<longrightarrow> c_width (surf_at cur b y) \<noteq> 0"
    and "pen_ok p d" "row_ok full cur prev y a d" "emit_run cur y [a..b - 1] p = (os, p')"
  shows "\<exists>d'. shows_part junk (sf_w cur) (sf_h cur) y os d p' d' \<and> row_ok full cur prev y (max a b) d'"
  using assms(4,6,8-10)
proof (induction "nat (b - a)" arbitrary: a p d os rule: less_induct)
  case less
  show ?case
  proof (cases "a < b")
    case False
    then have "os = []" "p' = p" "max a b = a" using less.prems(5) by simp_all
    then show ?thesis using less.prems(4) shows_part_nil[OF less.prems(3)] by (intro exI[of _ d]) simp
  next
    case True
    let ?c = "surf_at cur a y"
    have cells: "[a..b - 1] = a # [a + 1..b - 1]" using True by (simp add: upto_rec1)
    have s: "on_surf cur a y" using less.prems(1) True assms(2,3,5) by (simp add: on_surf_def)
    have w0: "c_width ?c \<noteq> 0" using less.prems(2) True by simp
    have pr: "pairs (sf_w cur) (row_widths cur y)" using assms(1-3) by (simp add: surf_shown_def paired_def)
    have n: "c_width ?c = 1 \<or> c_width ?c = 2" using assms(1) s w0 by (fastforce simp: surf_shown_def)
    have wide: "a + 1 < sf_w cur \<and> c_width (surf_at cur (a + 1) y) = 0" if "c_width ?c = 2"
      using pr[unfolded pairs_def, rule_format, of a] s that by (simp add: row_widths_def on_surf_def)
    let ?k = "a + int (c_width ?c)"
    have kb: "?k \<le> b" using n wide True assms(7) by (cases "a + 1 = b") auto
    have skip: "emit_run cur y [a + 1..b - 1] q = emit_run cur y [?k..b - 1] q" for q
    proof (cases "c_width ?c = 2")
      case True
      then have "a + 1 \<le> b - 1" "c_width (surf_at cur (a + 1) y) = 0" using kb wide by auto
      then show ?thesis using True by (simp add: upto_rec1[of "a + 1"] add.assoc)
    qed (use n in simp)
    obtain os1 p1 where e: "emit_cell y a ?c p = (os1, p1)" by (meson surj_pair)
    obtain os2 where r: "emit_run cur y [?k..b - 1] p1 = (os2, p')" "os = os1 @ os2"
      using less.prems(5) w0 by (auto simp: cells e skip split: prod.splits)
    obtain d1 where d1: "shows_part junk (sf_w cur) (sf_h cur) y os1 d p1 d1" "row_ok full cur prev y ?k d1"
      using emit_cell_shows[OF assms(1) s w0 less.prems(3,4) e] by blast
    have "?k < b \<longrightarrow> c_width (surf_at cur ?k y) \<noteq> 0"
    proof
      assume kb: "?k < b"
      have "row_widths cur y ?k = 0 \<Longrightarrow> row_widths cur y (?k - 1) = 2"
        using pr[unfolded pairs_def, rule_format, of ?k] kb less.prems(1) assms(5) by auto
      moreover have "?k - 1 = (if c_width ?c = 2 then a + 1 else a)" using n by auto
      ultimately show "c_width (surf_at cur ?k y) \<noteq> 0" using n wide by (auto simp: row_widths_def split: if_splits)
    qed
    moreover have "nat (b - ?k) < nat (b - a)" using w0 True by auto
    moreover have "pen_ok p1 d1" using d1(1) by (simp add: shows_part_def)
    ultimately obtain d2 where "shows_part junk (sf_w cur) (sf_h cur) y os2 d1 p' d2" "row_ok full cur prev y (max ?k b) d2"
      using less.hyps[of ?k p1 d1 os2] d1(2) r(1) less.prems(1) by auto
    then show ?thesis using shows_part_append[OF d1(1)] r(2) kb True by (intro exI[of _ d2]) (simp add: max_def)
  qed
qed

lemma find_SomeD: "List.find P xs = Some x \<Longrightarrow> x \<in> set xs \<and> P x"
  by (induction xs) (auto split: if_splits)

lemma run_start_head:
  assumes "surf_shown cur" "on_surf cur x y"
  shows "0 \<le> run_start cur y x" "run_start cur y x \<le> x" "c_width (surf_at cur (run_start cur y x) y) \<noteq> 0"
proof -
  have pr: "pairs (sf_w cur) (row_widths cur y)" using assms by (simp add: surf_shown_def paired_def on_surf_def)
  have z: "row_widths cur y 0 \<noteq> 0"
    using pr[unfolded pairs_def, rule_format, of 0] assms(2) by (auto simp: on_surf_def)
  have "0 \<le> run_start cur y x \<and> run_start cur y x \<le> x \<and> c_width (surf_at cur (run_start cur y x) y) \<noteq> 0"
  proof (cases "List.find (\<lambda>c. c_width (surf_at cur c y) \<noteq> 0) (rev [1..x])")
    case None
    then show ?thesis using z assms(2) by (simp add: run_start_def row_widths_def on_surf_def)
  next
    case (Some c)
    then have "c \<in> set (rev [1..x])" "c_width (surf_at cur c y) \<noteq> 0"
      using find_SomeD[OF Some] by simp_all
    moreover have "run_start cur y x = c" using Some by (simp only: run_start_def option.case)
    ultimately show ?thesis by simp
  qed
  then show "0 \<le> run_start cur y x" "run_start cur y x \<le> x" "c_width (surf_at cur (run_start cur y x) y) \<noteq> 0" by auto
qed

lemma run_end_bounds:
  fixes full cur prev e y x
  defines "r \<equiv> run_end full cur prev e y x"
  assumes "x < e"
  shows "x < r" "r \<le> e" "r < e \<longrightarrow> c_width (surf_at cur r y) \<noteq> 0"
proof -
  let ?P = "\<lambda>c. differs full cur prev c y \<or> c_width (surf_at cur c y) = 0"
  let ?l = "takeWhile ?P [x + 1..e - 1]"
  have le: "length ?l \<le> length [x + 1..e - 1]" by (rule length_takeWhile_le)
  show "x < r" by (simp add: r_def run_end_def)
  show "r \<le> e" using le assms(2) by (simp add: r_def run_end_def)
  show "r < e \<longrightarrow> c_width (surf_at cur r y) \<noteq> 0"
  proof
    assume "r < e"
    then have lt: "length ?l < length [x + 1..e - 1]" by (simp add: r_def run_end_def)
    then have "[x + 1..e - 1] ! length ?l = r" by (simp add: r_def run_end_def)
    then show "c_width (surf_at cur r y) \<noteq> 0" using nth_length_takeWhile[OF lt] by simp
  qed
qed

lemma row_loop_shows:
  assumes "surf_shown cur" "0 \<le> y" "y < sf_h cur" "e \<le> sf_w cur" "e < sf_w cur \<longrightarrow> c_width (surf_at cur e y) \<noteq> 0"
    and "0 \<le> x" "pen_ok p d" "row_ok full cur prev y x d" "row_loop full cur prev e y x p = (os, p', any)"
  shows "\<exists>d'. shows_part junk (sf_w cur) (sf_h cur) y os d p' d' \<and> row_ok full cur prev y (max x e) d'
    \<and> (\<not> any \<longrightarrow> os = [])"
  using assms(6-9)
proof (induction "nat (e - x)" arbitrary: x p d os any rule: less_induct)
  case less
  show ?case
  proof (cases "x < e")
    case False
    then have "os = []" "p' = p" "max x e = x" using less.prems(4) by (simp_all add: row_loop.simps)
    then show ?thesis using less.prems(3) shows_part_nil[OF less.prems(2)] by (intro exI[of _ d]) simp
  next
    case x: True
    show ?thesis
    proof (cases "differs full cur prev x y")
      case False
      have "row_ok full cur prev y (x + 1) d"
        using less.prems(3) False unfolding row_ok_def by (metis add1_zle_eq order_le_less)
      moreover have "row_loop full cur prev e y (x + 1) p = (os, p', any)"
        using less.prems(4) x False by (simp add: row_loop.simps[of full cur prev e y x])
      ultimately show ?thesis using less.hyps[of "x + 1" p d os any] less.prems(1,2) x by (simp add: max_def)
    next
      case True
      let ?a = "run_start cur y x" and ?b = "run_end full cur prev e y x"
      have s: "on_surf cur x y" using less.prems(1) x assms(2-4) by (simp add: on_surf_def)
      note h = run_start_head[OF assms(1) s] and r = run_end_bounds[OF x, of full cur prev y]
      obtain os1 p1 where e1: "emit_run cur y [?a..?b - 1] p = (os1, p1)" by (meson surj_pair)
      obtain os2 any2 where e2: "row_loop full cur prev e y ?b p1 = (os2, p', any2)" "os = os1 @ os2" "any"
        using less.prems(4) x True by (auto simp: row_loop.simps[of full cur prev e y x] e1 Let_def split: prod.splits)
      have "?b < sf_w cur \<longrightarrow> c_width (surf_at cur ?b y) \<noteq> 0" using r(2,3) assms(5) by (cases "?b = e") auto
      then obtain d1 where d1: "shows_part junk (sf_w cur) (sf_h cur) y os1 d p1 d1" "row_ok full cur prev y (max ?a ?b) d1"
        using emit_run_shows[OF assms(1-3) h(1) _ _ _ less.prems(2) row_ok_mono[OF less.prems(3) h(2)] e1] r(2) h(3) assms(4)
        by fastforce
      have "max ?a ?b = ?b" using h(2) r(1) by simp
      moreover have "pen_ok p1 d1" using d1(1) by (simp add: shows_part_def)
      ultimately obtain d2 where "shows_part junk (sf_w cur) (sf_h cur) y os2 d1 p' d2" "row_ok full cur prev y (max ?b e) d2"
        using less.hyps[of ?b p1 d1 os2 any2] d1(2) e2(1) r(1,2) less.prems(1) x by auto
      then show ?thesis using shows_part_append[OF d1(1)] e2(2,3) r(2) x by (intro exI[of _ d2]) (simp add: max_def)
    qed
  qed
qed

section \<open>Rows and frames\<close>

lemma tail_start_spec:
  assumes "0 \<le> sf_w cur"
  shows "0 \<le> tail_start cur y" "tail_start cur y \<le> sf_w cur"
    "tail_start cur y \<le> j \<Longrightarrow> j < sf_w cur \<Longrightarrow> surf_at cur j y = cell_init"
proof -
  let ?f = "List.find (\<lambda>c. surf_at cur c y \<noteq> cell_init) (rev [0..sf_w cur - 1])"
  have "0 \<le> tail_start cur y \<and> tail_start cur y \<le> sf_w cur
      \<and> (\<forall>j. tail_start cur y \<le> j \<and> j < sf_w cur \<longrightarrow> surf_at cur j y = cell_init)"
  proof (cases ?f)
    case None
    then have "\<forall>c \<in> set [0..sf_w cur - 1]. surf_at cur c y = cell_init" by (simp add: find_None_iff)
    then show ?thesis using assms None by (auto simp: tail_start_def)
  next
    case (Some c)
    let ?l = "rev [0..sf_w cur - 1]"
    obtain i where i: "i < length ?l" "?l ! i = c" "\<forall>k < i. surf_at cur (?l ! k) y = cell_init"
      using Some by (auto simp: find_Some_iff)
    have l: "?l ! k = sf_w cur - 1 - int k" if "k < length ?l" for k using that assms by (simp add: rev_nth)
    have c: "c = sf_w cur - 1 - int i" using i l by simp
    have "surf_at cur j y = cell_init" if "c + 1 \<le> j" "j < sf_w cur" for j
    proof -
      let ?k = "nat (sf_w cur - 1 - j)"
      have k: "?k < i" using that c by linarith
      have "0 \<le> c" using i(1) c by simp
      then have "?l ! ?k = j" using l[of ?k] k i(1) that \<open>0 \<le> c\<close> by simp
      then show ?thesis using i(3) k by metis
    qed
    then show ?thesis using c i(1) assms by (auto simp: tail_start_def Some)
  qed
  then show "0 \<le> tail_start cur y" "tail_start cur y \<le> sf_w cur"
    "tail_start cur y \<le> j \<Longrightarrow> j < sf_w cur \<Longrightarrow> surf_at cur j y = cell_init" by auto
qed

lemma erase_row_shows:
  assumes shown: "surf_shown cur" and "0 \<le> y" "y < sf_h cur" "tail_start cur y < sf_w cur" "pen_ok p d"
    and "row_ok full cur prev y (tail_start cur y) d" "erase_row full cur prev y p = (os, p', any)"
  shows "\<exists>d'. shows_part junk (sf_w cur) (sf_h cur) y os d p' d' \<and> row_ok full cur prev y (sf_w cur) d'
    \<and> (\<not> any \<longrightarrow> os = [])"
proof -
  let ?t = "tail_start cur y"
  have w: "0 \<le> sf_w cur" using assms(4) by (cases "0 \<le> sf_w cur") (auto simp: tail_start_def split: option.splits)
  note ts = tail_start_spec[OF w, of y]
  show ?thesis
  proof (cases "full \<or> (\<exists>c \<in> set [?t..sf_w cur - 1]. surf_at cur c y \<noteq> surf_at prev c y)")
    case False
    then have "\<not> differs full cur prev j y" if "?t \<le> j" "j < sf_w cur" for j using that by (auto simp: differs_def)
    then have "row_ok full cur prev y (sf_w cur) d" using assms(6) unfolding row_ok_def by (meson linorder_not_le)
    moreover have "os = []" "p' = p" using assms(7) False by (simp_all add: erase_row_def Let_def)
    ultimately show ?thesis using shows_part_nil[OF assms(5)] by (intro exI[of _ d]) simp
  next
    case True
    define b where "b = (if st_bg (fst p) \<noteq> ColDefault then (fst p)\<lparr>st_bg := ColDefault\<rparr> else fst p)"
    define d' where "d' = d\<lparr>dy_cell := erase_right junk (dy_cell d) ?t y b, dy_pen := b, dy_cur := Some (?t, y)\<rparr>"
    have os: "os = place ?t y p @ (if st_bg (fst p) \<noteq> ColDefault then [Sgr (fst p) b] else []) @ [EraseTail]"
      "p' = (b, Some (?t, y))" "any"
      using assms(7) True by (auto simp: erase_row_def Let_def b_def)
    have bd: "st_bg b = ColDefault" by (simp add: b_def)
    have "show_orders junk (sf_w cur) (sf_h cur) os d = Some d'"
      unfolding os(1) place_shows[OF assms(5)] using assms(2-5) ts(1)
      by (cases d) (simp add: d'_def b_def pen_ok_def)
    then have "shows_part junk (sf_w cur) (sf_h cur) y os d p' d'"
      by (auto simp: shows_part_def os(2) pen_ok_def d'_def erase_right_def)
    moreover have "row_ok full cur prev y (sf_w cur) d'" unfolding row_ok_def
    proof (intro allI impI)
      fix j assume j: "0 \<le> j \<and> j < sf_w cur"
      have old: "same_cell (dy_cell d j y) (surf_at cur j y)" if "j < ?t" using assms(6) j that by (auto simp: row_ok_def)
      consider "?t \<le> j" | "j = ?t - 1" "c_width (dy_cell d j y) = 2" | "j < ?t" "\<not> (j = ?t - 1 \<and> c_width (dy_cell d j y) = 2)"
        by linarith
      then show "same_cell (dy_cell d' j y) (surf_at cur j y) \<or> sf_w cur \<le> j \<and> differs full cur prev j y"
      proof cases
        case 1
        then show ?thesis using ts(3)[of j] j bd by (simp add: d'_def erase_right_def same_cell_def cell_init_def)
      next
        case 2
        have "same_cell (dy_cell d j y) (surf_at cur j y)" using old 2(1) by simp
        then have "row_widths cur y j = 2" using 2(2) by (auto simp: same_cell_def row_widths_def split: if_splits)
        then have "row_widths cur y ?t = 0"
          using shown[unfolded surf_shown_def paired_def pairs_def, THEN conjunct1, rule_format, of y j] 2(1) j assms(2,3)
          by simp
        then show ?thesis using ts(3)[of ?t] assms(4) by (simp add: row_widths_def cell_init_def)
      next
        case 3
        then show ?thesis using old by (auto simp: d'_def erase_right_def)
      qed
    qed
    ultimately show ?thesis using os(3) by blast
  qed
qed

lemma emit_row_shows:
  assumes "surf_shown cur" "0 \<le> y" "y < sf_h cur" "0 \<le> sf_w cur" "pen_ok p d" "row_ok full cur prev y 0 d"
    and "emit_row full cur prev y p = (os, p', any)"
  shows "\<exists>d'. shows_part junk (sf_w cur) (sf_h cur) y os d p' d' \<and> row_ok full cur prev y (sf_w cur) d'
    \<and> (\<not> any \<longrightarrow> os = [])"
proof -
  let ?t = "tail_start cur y"
  define er where "er = (sf_w cur - ?t \<ge> kMinErasableTail)"
  define e where "e = (if er then ?t else sf_w cur)"
  note ts = tail_start_spec[OF assms(4), of y]
  have e: "0 \<le> e" "e \<le> sf_w cur" "e < sf_w cur \<longrightarrow> c_width (surf_at cur e y) \<noteq> 0"
    using ts(1,2) ts(3)[of ?t] assms(4) by (auto simp: e_def cell_init_def)
  obtain os1 p1 any1 where r: "row_loop full cur prev e y 0 p = (os1, p1, any1)" by (metis prod_cases3)
  obtain d1 where d1: "shows_part junk (sf_w cur) (sf_h cur) y os1 d p1 d1" "row_ok full cur prev y e d1" "\<not> any1 \<longrightarrow> os1 = []"
    using row_loop_shows[OF assms(1-3) e(2,3) order_refl assms(5,6) r, of junk] e(1) by auto
  show ?thesis
  proof (cases er)
    case False
    then have "os = os1" "p' = p1" "any = any1" "e = sf_w cur"
      using assms(7) r by (simp_all add: emit_row_def Let_def er_def[symmetric] e_def)
    then show ?thesis using d1 by (intro exI[of _ d1]) simp
  next
    case True
    obtain os2 p2 any2 where r2: "erase_row full cur prev y p1 = (os2, p2, any2)" by (metis prod_cases3)
    have eq: "os = os1 @ os2" "p' = p2" "any = (any1 \<or> any2)" "e = ?t"
      using assms(7) r r2 True by (simp_all add: emit_row_def Let_def er_def[symmetric] e_def)
    have "?t < sf_w cur" using True by (simp add: er_def kMinErasableTail_def)
    moreover have "pen_ok p1 d1" using d1(1) by (simp add: shows_part_def)
    ultimately obtain d2 where "shows_part junk (sf_w cur) (sf_h cur) y os2 d1 p2 d2" "row_ok full cur prev y (sf_w cur) d2"
      "\<not> any2 \<longrightarrow> os2 = []"
      using erase_row_shows[OF assms(1-3) _ _ _ r2] d1(2) eq(4) by metis
    then show ?thesis using shows_part_append[OF d1(1)] d1(3) eq by (intro exI[of _ d2]) auto
  qed
qed

lemma emit_rows_shows:
  assumes "surf_shown cur" "0 \<le> sf_w cur" "\<forall>y \<in> set ys. 0 \<le> y \<and> y < sf_h cur" "distinct ys" "pen_ok p d"
    and "\<forall>y \<in> set ys. row_ok full cur prev y 0 d" "emit_rows full cur prev ys p = (os, any)"
  shows "\<exists>d'. show_orders junk (sf_w cur) (sf_h cur) os d = Some d' \<and> (\<forall>y \<in> set ys. row_ok full cur prev y (sf_w cur) d')
    \<and> (\<forall>x y. y \<notin> set ys \<longrightarrow> dy_cell d' x y = dy_cell d x y) \<and> (\<not> any \<longrightarrow> os = [])"
  using assms(3-7)
proof (induction ys arbitrary: p d os any)
  case (Cons y ys)
  obtain os1 p1 any1 where r: "emit_row full cur prev y p = (os1, p1, any1)" by (metis prod_cases3)
  obtain os2 any2 where r2: "emit_rows full cur prev ys p1 = (os2, any2)" by (meson surj_pair)
  have eq: "os = os1 @ os2" "any = (any1 \<or> any2)" using Cons.prems(5) by (simp_all add: r r2)
  obtain d1 where d1: "shows_part junk (sf_w cur) (sf_h cur) y os1 d p1 d1" "row_ok full cur prev y (sf_w cur) d1" "\<not> any1 \<longrightarrow> os1 = []"
    using emit_row_shows[OF assms(1) _ _ assms(2) Cons.prems(3) _ r] Cons.prems(1,4) by (metis list.set_intros(1))
  have same: "\<forall>x y'. y' \<noteq> y \<longrightarrow> dy_cell d1 x y' = dy_cell d x y'" and pen: "pen_ok p1 d1"
    and so: "show_orders junk (sf_w cur) (sf_h cur) os1 d = Some d1"
    using d1(1) by (simp_all add: shows_part_def)
  have "\<forall>y' \<in> set ys. row_ok full cur prev y' 0 d1"
    using Cons.prems(2,4) same unfolding row_ok_def by (metis distinct.simps(2) list.set_intros(2))
  then obtain d2 where d2: "show_orders junk (sf_w cur) (sf_h cur) os2 d1 = Some d2"
    "\<forall>y \<in> set ys. row_ok full cur prev y (sf_w cur) d2" "\<forall>x y. y \<notin> set ys \<longrightarrow> dy_cell d2 x y = dy_cell d1 x y"
    "\<not> any2 \<longrightarrow> os2 = []"
    using Cons.IH[OF _ _ pen _ r2] Cons.prems(1,2) by auto
  have "row_ok full cur prev y (sf_w cur) d2" using d1(2) d2(3) Cons.prems(2) by (simp add: row_ok_def)
  then show ?case using d2 so same d1(3) eq Cons.prems(2)
    by (intro exI[of _ d2]) (auto simp: show_orders_append)
qed simp

text \<open>What the differ believes of the terminal.\<close>

definition differ_knows :: "differ \<Rightarrow> display \<Rightarrow> bool" where
  "differ_knows df d \<longleftrightarrow> surf_ok (df_prev df) \<and> (df_valid df \<longrightarrow> shows_surface d (df_prev df))"

lemma frame_orders_shows:
  assumes "surf_ok cur" "surf_shown cur" "differ_knows df d" "frame_orders df cur cursor = (df', out)"
  shows "case out of
      None \<Rightarrow> df' = df \<and> shows_surface d cur
    | Some os \<Rightarrow> \<exists>d'. show_orders junk (sf_w cur) (sf_h cur) os (d\<lparr>dy_pen := style_init, dy_cur := None\<rparr>) = Some d'
        \<and> shows_surface d' cur \<and> differ_knows df' d'"
proof -
  define resized where "resized = (sf_w (df_prev df) \<noteq> sf_w cur \<or> sf_h (df_prev df) \<noteq> sf_h cur)"
  define prev where "prev = (if resized then surface_resize (df_prev df) (sf_w cur) (sf_h cur) else df_prev df)"
  define full where "full = (resized \<or> \<not> df_valid df)"
  obtain body any where b: "emit_rows full cur prev [0..sf_h cur - 1] (style_init, None) = (body, any)" by fastforce
  let ?d = "d\<lparr>dy_pen := style_init, dy_cur := None\<rparr>"
  have w: "0 \<le> sf_w cur" using assms(1) by (simp add: surf_ok_def)
  have start: "row_ok full cur prev y 0 ?d" if "0 \<le> y" "y < sf_h cur" for y
  proof (cases full)
    case True
    then show ?thesis by (simp add: row_ok_def differs_def)
  next
    case False
    then have "prev = df_prev df" "sf_w prev = sf_w cur" "sf_h prev = sf_h cur" "df_valid df"
      by (simp_all add: prev_def full_def resized_def)
    then have "same_cell (dy_cell d j y) (surf_at prev j y)" if "0 \<le> j" "j < sf_w cur" for j
      using assms(3) that \<open>0 \<le> y\<close> \<open>y < sf_h cur\<close> by (simp add: differ_knows_def shows_surface_def on_surf_def)
    then show ?thesis using False unfolding row_ok_def differs_def by fastforce
  qed
  obtain d' where d': "show_orders junk (sf_w cur) (sf_h cur) body ?d = Some d'"
    "\<forall>y \<in> set [0..sf_h cur - 1]. row_ok full cur prev y (sf_w cur) d'" "\<not> any \<longrightarrow> body = []"
    using emit_rows_shows[OF assms(2) w _ _ _ _ b, of ?d junk] start by (auto simp: pen_ok_def)
  have seen: "shows_surface d' cur" using d'(2) by (fastforce simp: shows_surface_def row_ok_def on_surf_def)
  have fo: "frame_orders df cur cursor = (df, None) \<and> \<not> any \<or> (\<exists>t sh. frame_orders df cur cursor
      = (df\<lparr>df_prev := cur, df_valid := True, df_last_target := t, df_last_shown := sh, df_first := False\<rparr>, Some body))"
    unfolding frame_orders_def Let_def resized_def[symmetric] prev_def[symmetric] full_def[symmetric] b prod.case
    by (simp only: split: if_split) blast
  show ?thesis
  proof (cases out)
    case None
    then have "df' = df" "\<not> any" using assms(4) fo by auto
    then have "dy_cell d' = dy_cell d" using d'(1,3) by auto
    then show ?thesis using None \<open>df' = df\<close> seen by (simp add: shows_surface_def)
  next
    case (Some os)
    then have "os = body" "df_prev df' = cur" using assms(4) fo by auto
    then show ?thesis using Some d'(1) seen assms(1) by (simp add: differ_knows_def)
  qed
qed

text \<open>A surface that has only been drawn on is fit for a terminal.\<close>

lemma draws_shown:
  assumes "draws amb clip s s'" "surf_ok s" "paired s" "thin s"
  shows "surf_ok s'" "surf_shown s'"
  using draws_good[OF assms(1)] draws_thin[OF assms(1,4)] assms(2,3) thin_at
  by (auto simp: good_paint_def painted_def surf_shown_def)

section \<open>Properties\<close>

text \<open>
  C16.  A frame paints the surface.  If the terminal shows what the differ believes, or the
  differ believes nothing, then the orders of the next frame can all be carried out, none of
  them relying on a cursor or a pen the terminal may not have, whatever the terminal puts in a
  half it lost, and the terminal then shows exactly the new surface; when no frame is sent,
  the terminal already does.
\<close>

theorem frame_paints:
  assumes "surf_ok cur" and "surf_shown cur" and "differ_knows df d"
  shows "case frame_orders df cur cursor of
      (df', None) \<Rightarrow> df' = df \<and> shows_surface d cur \<and> snd (frame df cur cursor) = []
    | (df', Some os) \<Rightarrow>
        \<exists>d'. show_orders junk (sf_w cur) (sf_h cur) os (d\<lparr>dy_pen := style_init, dy_cur := None\<rparr>) = Some d'
          \<and> shows_surface d' cur \<and> differ_knows df' d'"
proof -
  obtain df' out where f: "frame_orders df cur cursor = (df', out)" by fastforce
  show ?thesis using frame_orders_shows[OF assms f, of junk] by (cases out) (auto simp: f frame_def)
qed

theorem frame_paints_witness:
  "\<exists>os d'. snd (frame_orders (differ_new \<lparr>pf_depth = TrueColor, pf_utf8 = True\<rparr>) (view_put False (mk_rect 0 0 3 1) (surface_new 3 1) 0 0 0x4E2D style_init) None) = Some os
     \<and> shows_surface d' (view_put False (mk_rect 0 0 3 1) (surface_new 3 1) 0 0 0x4E2D style_init)
     \<and> show_orders cell_init 3 1 os \<lparr>dy_cell = \<lambda>_ _. kContinuation, dy_pen = style_init, dy_cur = None\<rparr> = Some d'"
proof -
  let ?s = "view_put False (mk_rect 0 0 3 1) (surface_new 3 1) 0 0 0x4E2D style_init"
  let ?d = "\<lparr>dy_cell = \<lambda>_ _. kContinuation, dy_pen = style_init, dy_cur = None\<rparr>"
  have g: "good_paint (mk_rect 0 0 3 1) (surface_new 3 1) ?s" by (rule view_put_good)
  have v: "sf_w ?s = 3" "sf_h ?s = 1" by code_simp+
  have "x \<in> {0, 1, 2} \<Longrightarrow> c_width (surf_at ?s x 0) \<le> 2" for x by safe code_simp+
  moreover have "x \<in> {0, 1, 2} \<and> y = 0" if "on_surf ?s x y" for x y using that by (auto simp: on_surf_def v)
  ultimately have "surf_shown ?s" using g surface_new_ok[of 3 1] unfolding surf_shown_def good_paint_def by blast
  moreover have "surf_ok ?s" using g surface_new_ok[of 3 1] by (simp add: good_paint_def painted_def)
  moreover have "differ_knows (differ_new \<lparr>pf_depth = TrueColor, pf_utf8 = True\<rparr>) ?d" by (simp add: differ_knows_def differ_new_def surface_new_ok)
  ultimately have "case frame_orders (differ_new \<lparr>pf_depth = TrueColor, pf_utf8 = True\<rparr>) ?s None of
      (df', None) \<Rightarrow> df' = differ_new \<lparr>pf_depth = TrueColor, pf_utf8 = True\<rparr> \<and> shows_surface ?d ?s \<and> snd (frame (differ_new \<lparr>pf_depth = TrueColor, pf_utf8 = True\<rparr>) ?s None) = []
    | (df', Some os) \<Rightarrow> \<exists>d'. show_orders cell_init (sf_w ?s) (sf_h ?s) os (?d\<lparr>dy_pen := style_init, dy_cur := None\<rparr>) = Some d'
          \<and> shows_surface d' ?s \<and> differ_knows df' d'"
    by (intro frame_paints)
  moreover obtain df' os where "frame_orders (differ_new \<lparr>pf_depth = TrueColor, pf_utf8 = True\<rparr>) ?s None = (df', Some os)"
    by (cases "frame_orders (differ_new \<lparr>pf_depth = TrueColor, pf_utf8 = True\<rparr>) ?s None")
      (auto simp: frame_orders_def differ_new_def Let_def split: prod.splits)
  ultimately show ?thesis by (auto simp: v)
qed

end
