(* ===== verification/Session_Props.thy ===== *)
theory Session_Props
  imports Session_Caret Diff_Paint
begin

text \<open>
  What the session promises: its invariant over any run, which applications an event reaches, that
  unsaved work is not closed without an answer, what is on the user's terminal after a frame; and two
  ways in which the answer to a question does something else than what was asked.
\<close>

section \<open>Shared lemmas\<close>

lemma open_window_other:
  assumes "desk_ok d" "i \<in> wm_ids (dk_wm d)"
  shows "dk_apps (fst (open_window ops w work a app_id d)) i = dk_apps d i"
proof -
  let ?open = "wm_open (dk_wm d) (Some (ap_min_size ops a)) work"
  have m: "wm_ok (dk_wm d)" using assms by (simp add: desk_ok_def)
  show ?thesis
  proof (cases "snd ?open")
    case None
    then show ?thesis by (cases ?open) (simp add: open_window_def)
  next
    case (Some j)
    then obtain m' where o1: "?open = (m', Some j)" by (cases ?open) auto
    then have "j \<noteq> i" using wm_open_some(4)[OF o1 m] assms(2) by blast
    then show ?thesis by (simp add: open_window_def o1 Let_def app_call_apps split: option.split)
  qed
qed

lemma unsaved_pending:
  assumes "se_ok s" "unsaved ops i s"
  shows "unsaved ops i (serve_pending ops env s)"
proof (cases "dk_pending (se_desk s)")
  case (Cons p rest)
  obtain a app_id where p: "p = (a, app_id)" by fastforce
  have d: "desk_ok ((se_desk s)\<lparr>dk_pending := rest\<rparr>)" using assms(1) by (simp add: se_ok_def desk_ok_def hosts_ok_def)
  have "i \<in> dom (se_apps s)" using unsaved_present[OF assms(2)] by (auto simp: present_def)
  then have "i \<in> wm_ids (dk_wm ((se_desk s)\<lparr>dk_pending := rest\<rparr>))" using assms(1) by (simp add: se_ok_def desk_ok_def hosts_ok_def)
  from open_window_other[OF d this] show ?thesis using assms(2) Cons p
    by (simp add: serve_pending_def unsaved_def upd_desk_def)
qed (use assms in \<open>simp add: serve_pending_def\<close>)

lemma serve_close_stays: "unsaved ops i t \<Longrightarrow> present i (serve_close ops t)"
  using unsaved_present[of ops i t] request_close_stays[of ops i "upd_wm f t" for f] unsaved_cong[OF apps_basic(1), of ops i _ t]
  by (auto simp: serve_close_def split: option.split)

lemma tell_size_stays: "present i t \<Longrightarrow> present i (tell_size ops env w t)"
  by (simp add: tell_size_def Let_def stays)

lemma put_app_stays: "present i t \<Longrightarrow> present i (upd_desk (put_app ops j a) t)"
  by (simp add: present_def upd_desk_def put_app_def)

lemma render_window_stays: "present i (fst so) \<Longrightarrow> present i (fst (render_window ops amb env v f so j))"
  by (auto simp: render_window_def Let_def tell_size_stays put_app_stays split: prod.splits option.split)

lemma render_windows_stay: "present i (fst so) \<Longrightarrow> present i (fst (foldl (render_window ops amb env v f) so is))"
  by (induction "is" arbitrary: so) (simp_all add: render_window_stays)

lemma prepare_stays:
  assumes "se_ok s" "unsaved ops i s"
  shows "present i (prepare_frame ops env cols rows s)"
proof -
  have c: "unsaved ops i (tick_clock env s)" using assms(2) unsaved_cong[OF apps_same(11), of ops i env s] by simp
  have "se_ok (tick_clock env s)" using assms(1) by (simp add: tick_clock_def se_ok_def set_dirty_def upd_desk_def desk_ok_def hosts_ok_def split: prod.split)
  from serve_close_stays[OF unsaved_pending[OF this c]] show ?thesis
    by (simp add: prepare_frame_def Let_def ensure_window_def stays)
qed

lemma good_ok: "good False s t \<Longrightarrow> se_ok s \<Longrightarrow> se_ok t"
  using unsigned_less[of "wm_next_id (se_wm s)"] by (simp add: good_def opened_def)

lemma render_stays:
  assumes "se_ok s" "unsaved ops i s"
  shows "present i (fst (render ops amb env out s))"
proof -
  define s0 where "s0 = (watchdog env s)\<lparr>se_cursor := None\<rparr>"
  have "good False s s0" by (simp add: s0_def watchdog_good)
  then have s0: "se_ok s0" "unsaved ops i s0"
    using assms good_ok unsaved_cong[OF apps_same(1), of ops i env s] by (auto simp: s0_def unsaved_def)
  have shell: "present i (fst (draw_shell amb v f cols rows t o1)) = present i t" for v f cols rows t o1
    by (simp add: draw_shell_def Let_def)
  show ?thesis using unsaved_present[OF s0(2)] render_windows_stay[of i "(prepare_frame ops env (sf_w out) (sf_h out) s0, _)"] prepare_stays[OF s0]
    by (auto simp: render_def Let_def s0_def[symmetric] shell split: prod.splits) (metis fst_conv)
qed

lemma session_step_stays:
  assumes "se_ok s" "unsaved ops i s" "\<not> (md_open (se_modal s) \<and> md_target (se_modal s) = i)"
  shows "present i (session_step ops amb s e)"
proof -
  obtain env v where e: "e = (env, v)" by fastforce
  show ?thesis using on_input_stays[OF assms(2,3)] render_stays[OF assms(1,2)] unsaved_present[OF assms(2)]
    by (cases v) (simp_all add: e stays)
qed

text \<open>With a dialogue open, an answer closes at most the window the question is about.\<close>

lemma answer_one: "se_apps (answer_modal env c u) i = se_apps u i \<or> se_apps (answer_modal env c u) i = None \<and> i = md_target (se_modal u)"
proof -
  have "w_id w = md_target (se_modal u)" if "wm_find (se_wm u) (md_target (se_modal u)) = Some w" for w
    using wm_find_in[OF that] by simp
  then show ?thesis by (auto simp: answer_modal_def Let_def close_window_def host_unwatch_all_def upd_desk_def split: modal_kind.split option.split)
qed

text \<open>Input while a dialogue is open: what may happen to one application.\<close>

definition captured :: "input_event \<Rightarrow> 'a session \<Rightarrow> 32 word \<Rightarrow> 'a session \<Rightarrow> bool" where
  "captured e s i t \<longleftrightarrow> se_apps t i = se_apps s i
     \<or> se_apps t i = None \<and> i = md_target (se_modal s)
     \<or> (\<exists>m. e = EvMouse m \<and> (m_action m = Motion \<or> m_action m = Release)) \<and> i = se_grab s \<and> i \<noteq> 0"

lemma held_apps: "i \<noteq> se_grab u \<Longrightarrow> se_apps (mouse_held ops env m u) i = se_apps u i"
proof -
  assume i: "i \<noteq> se_grab u"
  have "w_id w = se_grab u" if "wm_find (se_wm u) (se_grab u) = Some w" for w using wm_find_in[OF that] by simp
  then show ?thesis using i by (auto simp: mouse_held_def Let_def to_app_def upd_desk_def app_call_apps split: option.split)
qed

lemma modal_captures:
  assumes "md_open (se_modal t)"
  shows "captured e t i (on_input ops amb env e t)"
proof -
  define u where "u = watchdog env t"
  have u: "se_apps u = se_apps t" "md_open (se_modal u)" "se_grab u = se_grab t" "se_modal u = se_modal t"
    using assms(1) by (simp_all add: u_def watchdog_def cancel_drag_def upd_wm_def upd_desk_def split: drag_state.split)
  have a: "se_apps (answer_modal env c u) i = se_apps t i \<or> se_apps (answer_modal env c u) i = None \<and> i = md_target (se_modal t)" for c
    using answer_one[of env c u i] u by simp
  have "captured (EvKey k) t i (Session.on_key ops amb env k u)" for k
    using u a by (simp add: captured_def Session.on_key_def modal_key_def split: key.split)
  moreover have "captured (EvMouse m) t i (Session.on_mouse ops env m u)" for m
  proof -
    have "se_apps (mouse_wheel ops env m u) = se_apps u" using u(2) by (simp add: mouse_wheel_def)
    moreover have "se_apps (mouse_press ops env m u) i = se_apps t i \<or> se_apps (mouse_press ops env m u) i = None \<and> i = md_target (se_modal t)"
      using u a by (simp add: mouse_press_def split: modal_where.split)
    moreover have "captured (EvMouse m) t i (mouse_held ops env m u)" if "se_grab u \<noteq> 0" "m_action m \<noteq> Press"
      "m_action m \<noteq> WheelUp" "m_action m \<noteq> WheelDown"
      using held_apps[of i u ops env m] that u by (cases "m_action m") (auto simp: captured_def)
    ultimately show ?thesis using u
      by (auto simp: Session.on_mouse_def captured_def split: drag_state.split)
  qed
  moreover have "captured (EvPaste b c) t i (Session.on_paste ops env b c u)" for b c
  proof -
    have "md_open (se_modal (cancel_drag u))" using u(2) by (simp add: cancel_drag_def upd_wm_def upd_desk_def split: drag_state.split)
    then show ?thesis using u by (simp add: captured_def Session.on_paste_def Let_def)
  qed
  moreover have "captured (EvFocus f) t i (on_focus f u)" for f using u by (simp add: captured_def on_focus_def)
  ultimately show ?thesis unfolding on_input_def u_def[symmetric] Let_def by (cases e) simp_all
qed

text \<open>The leader dispatcher a key meets: a repetition whose time has passed is over.\<close>

definition leader_now :: "session_env \<Rightarrow> 'a session \<Rightarrow> leader_dispatch" where
  "leader_now env s =
     (if ld_phase (se_leader s) = LeaderRepeating \<and> steady_now env > se_repeat_until s then leader_reset (se_leader s) else se_leader s)"

text \<open>Keys the desktop takes for itself whatever the leader key is: Ctrl+Q, and an arrow with Ctrl alone.\<close>

definition desktop_key :: "key_event \<Rightarrow> bool" where
  "desktop_key k \<longleftrightarrow> k_key k = KChar \<and> k_ch k = 0x71 \<and> k_mods k AND mod_Ctrl \<noteq> 0
     \<or> arrow_dir (k_key k) \<noteq> None \<and> k_mods k AND 0x07 = mod_Ctrl"

lemma key_passes:
  assumes "se_drag s = DragIdle" "\<not> md_open (se_modal s)" "\<not> mn_open (se_menu s)" "\<not> desktop_key k"
    "leader_feed (leader_now env s) k = (ld, r)" "lr_action r = None" "\<not> lr_consumed r"
    "wm_find (se_wm s) (wm_focused (se_wm s)) = Some w"
  shows "\<exists>t. on_input ops amb env (EvKey k) s = to_app ops env (ap_key ops k) (w_id w) t
    \<and> se_apps t = se_apps s \<and> host_view_of i (se_desk t) = host_view_of i (se_desk s)"
proof -
  define s1 where "s1 = s\<lparr>se_leader := leader_now env s\<rparr>"
  define s2 where "s2 = (if hp_open (se_help s1) then set_dirty (s1\<lparr>se_help := help_close (se_help s1)\<rparr>) else s1)"
  define s3 where "s3 = (if sa_open (se_assist s2) then set_dirty (s2\<lparr>se_assist := assist_close (se_assist s2)\<rparr>) else s2)"
  have s2: "se_leader s2 = se_leader s1" "se_apps s2 = se_apps s1" "host_view_of i (se_desk s2) = host_view_of i (se_desk s1)"
    "se_wm s2 = se_wm s1" unfolding s2_def by (simp_all add: set_dirty_def upd_desk_def host_view_of_def)
  have "se_leader s3 = se_leader s2" "se_apps s3 = se_apps s2" "host_view_of i (se_desk s3) = host_view_of i (se_desk s2)"
    "se_wm s3 = se_wm s2" unfolding s3_def by (simp_all add: set_dirty_def upd_desk_def host_view_of_def)
  then have s3: "se_leader s3 = leader_now env s" "se_apps s3 = se_apps s" "host_view_of i (se_desk s3) = host_view_of i (se_desk s)"
    "se_wm s3 = se_wm s" using s2 by (simp_all add: s1_def)
  have l: "(if ld_phase (se_leader s) = LeaderRepeating \<and> steady_now env > se_repeat_until s
      then s\<lparr>se_leader := leader_reset (se_leader s)\<rparr> else s) = s1" by (simp add: s1_def leader_now_def)
  have "Session.on_key ops amb env k s = leader_key ops amb env k s3"
    using assms(1-4) unfolding desktop_key_def Session.on_key_def l Let_def s2_def[symmetric] s3_def[symmetric]
    by (auto split: option.split)
  then have "on_input ops amb env (EvKey k) s = leader_key ops amb env k s3"
    using assms(1) by (simp add: on_input_def watchdog_def)
  moreover have "leader_key ops amb env k s3 = to_app ops env (ap_key ops k) (w_id w) (s3\<lparr>se_leader := ld\<rparr>)"
    using assms(5-8) s3(1,4) by (simp add: leader_key_def)
  ultimately show ?thesis using s3 by (intro exI[of _ "s3\<lparr>se_leader := ld\<rparr>"]) simp
qed

text \<open>A key that is no command reaches the application that has the focus.\<close>

definition quiet :: "'a session \<Rightarrow> bool" where
  "quiet s \<longleftrightarrow> se_drag s = DragIdle \<and> \<not> md_open (se_modal s) \<and> \<not> mn_open (se_menu s) \<and> \<not> hp_open (se_help s)
     \<and> \<not> sa_open (se_assist s) \<and> ld_phase (se_leader s) = LeaderIdle"

lemma mask_ctrl: "k AND mod_Ctrl = 0 \<Longrightarrow> k AND 0x07 \<noteq> mod_Ctrl"
proof
  assume a: "k AND mod_Ctrl = 0" "k AND 0x07 = mod_Ctrl"
  have "mod_Ctrl = (k AND 0x07) AND mod_Ctrl" using a(2) by simp
  also have "\<dots> = (k AND mod_Ctrl) AND 0x07" by (simp add: ac_simps)
  finally show False using a(1) by (simp add: mod_Ctrl_def)
qed

lemma key_routed:
  assumes "quiet s" "k_mods k AND mod_Ctrl = 0"
  shows "on_input ops amb env (EvKey k) s =
    (case wm_find (se_wm s) (wm_focused (se_wm s)) of Some w \<Rightarrow> to_app ops env (ap_key ops k) (w_id w) s | None \<Rightarrow> s)"
proof -
  have "leader_feed (se_leader s) k = (se_leader s, mk_result False None)"
    using assms by (simp add: quiet_def leader_feed_def Let_def)
  then have "leader_key ops amb env k s =
    (case wm_find (se_wm s) (wm_focused (se_wm s)) of Some w \<Rightarrow> to_app ops env (ap_key ops k) (w_id w) s | None \<Rightarrow> s)"
    by (simp add: leader_key_def mk_result_def)
  then show ?thesis using assms mask_ctrl[OF assms(2)]
    by (simp add: on_input_def watchdog_def Session.on_key_def quiet_def split: option.split)
qed

section \<open>A desktop\<close>

definition calm_env :: session_env where
  "calm_env = \<lparr>en_update = \<lparr>ue_wall = 1000, ue_steady = 7, ue_read = (\<lambda>_. None), ue_stat = (\<lambda>_. None), ue_alive = (\<lambda>_. False),
       ue_launch = (\<lambda>_. - 1)\<rparr>, en_write = WNoOpen, en_hour = 12, en_minute = 0, en_date = [],
     en_proc = \<lparr>fs_names = None, fs_read = (\<lambda>_. []), fs_page = 4096\<rparr>\<rparr>"

definition calm_world :: app_world where
  "calm_world = \<lparr>aw_os = \<lparr>os_login_shell = str ''/bin/sh'', os_spawn = Inr (5, 7), os_token = 0, os_wait = (\<lambda>_. StillRunning)\<rparr>,
     aw_reads = (\<lambda>_. [Got (str ''hi''), Again]), aw_save = SaveDone\<rparr>"

abbreviation calm_ops :: "unit desk_app app_ops" where
  "calm_ops \<equiv> desk_ops False calm_world base_ops"

definition fresh_desk :: "unit desk_app session" where
  "fresh_desk = session_init calm_env [] [] \<lparr>dk_files = Map.empty, dk_made = []\<rparr> (str ''/root'')"

text \<open>A desktop where an editor has been opened and a character typed in it.\<close>

definition edited_desk :: "unit desk_app session" where
  "edited_desk = on_input calm_ops False calm_env (EvKey (mk_key KChar 0x61 0))
     (open_from_catalog calm_ops calm_env (str ''editeur'') fresh_desk)"

lemma fresh_ok: "se_ok fresh_desk" "opened fresh_desk = 1"
  unfolding fresh_desk_def using session_init_ok by (blast, simp add: session_init_ok)

lemma edited_ok: "se_ok edited_desk" "opened edited_desk \<le> 3"
proof -
  let ?s = "open_from_catalog calm_ops calm_env (str ''editeur'') fresh_desk"
  have s: "se_ok ?s" "opened ?s \<le> 2"
    using open_from_catalog_good[OF good_refl, of fresh_desk calm_ops calm_env "str ''editeur''"] fresh_ok by (simp_all add: good_def)
  then show "se_ok edited_desk" "opened edited_desk \<le> 3"
    using on_input_good[OF good_refl, of ?s calm_ops False calm_env "EvKey (mk_key KChar 0x61 0)"] unfolding edited_desk_def
    by (simp_all add: good_def)
qed

lemma fresh_wm: "se_wm fresh_desk = wm_init" "se_last_work fresh_desk = mk_rect 0 0 80 23" "quiet fresh_desk"
  by (simp_all add: fresh_desk_def session_init_def Let_def quiet_def modal_init_def menu_init_def help_init_def assist_init_def assist_close_def)

definition opened_editor :: editor where
  "opened_editor = ed_attach (editor_init\<lparr>ed_calls := []\<rparr>)"

lemma editor_entry: "catalog_find (str ''editeur'') = Some \<lparr>ce_id = str ''editeur'', ce_label = str ''Editeur'', ce_make = MakeEditor\<rparr>"
  by code_simp

lemma first_window:
  "snd (wm_open wm_init (Some \<lparr>sz_w = 24, sz_h = 6\<rparr>) (mk_rect 0 0 80 23)) = Some 1"
  "wm_focused (fst (wm_open wm_init (Some \<lparr>sz_w = 24, sz_h = 6\<rparr>) (mk_rect 0 0 80 23))) = 1"
  by code_simp+

lemma calm_calls [simp]:
  "ap_min_size calm_ops (DeskEditor e) = \<lparr>sz_w = 24, sz_h = 6\<rparr>" "ap_make calm_ops MakeEditor = DeskEditor editor_init"
  "ap_attach calm_ops hv (DeskEditor e) = ed_do ed_attach e" "ap_key calm_ops k hv (DeskEditor e) = ed_do (\<lambda>e. ed_key SaveDone e k) e"
  "ap_can_close calm_ops (DeskEditor e) = ed_can_close e"
  by (simp_all add: desk_ops_def dispatch_def calm_world_def)

lemma opened_desk:
  assumes "s = open_from_catalog calm_ops calm_env (str ''editeur'') fresh_desk"
  shows "se_apps s 1 = Some (DeskEditor opened_editor)" "quiet s" "wm_focused (se_wm s) = 1" "se_ok s"
proof -
  obtain m where m: "wm_open wm_init (Some \<lparr>sz_w = 24, sz_h = 6\<rparr>) (mk_rect 0 0 80 23) = (m, Some 1)" "wm_focused m = 1"
    using first_window by (metis prod.collapse)
  show "se_apps s 1 = Some (DeskEditor opened_editor)" "wm_focused (se_wm s) = 1" "quiet s"
    using app_call_settled[of _ calm_ops WNoOpen "ap_attach calm_ops" 1] fresh_wm m
    by (auto simp: assms open_from_catalog_def editor_entry upd_desk_def open_window_def app_call_apps ed_do_def opened_editor_def
        quiet_def calm_env_def settled_def Let_def)
  show "se_ok s" using open_from_catalog_good[OF good_refl, of fresh_desk calm_ops calm_env "str ''editeur''"] fresh_ok assms
    by (simp add: good_def)
qed

lemma edited_editor: "ed_can_close (ed_key SaveDone (opened_editor\<lparr>ed_calls := []\<rparr>) (mk_key KChar 0x61 0)) \<noteq> None"
  by code_simp

lemma edited_unsaved: "unsaved calm_ops 1 edited_desk" "\<not> md_open (se_modal edited_desk)"
proof -
  define s where "s = open_from_catalog calm_ops calm_env (str ''editeur'') fresh_desk"
  note o = opened_desk[OF s_def]
  have "1 \<in> wm_ids (se_wm s)" using o(1,4) by (auto simp: se_ok_def desk_ok_def hosts_ok_def)
  then obtain w where w: "wm_find (se_wm s) 1 = Some w" "w_id w = 1" using wm_find_None[of "se_wm s" 1] wm_find_in[of "se_wm s" 1] by fastforce
  have "k_mods (mk_key KChar 0x61 0) AND mod_Ctrl = 0" by (simp add: mk_key_def)
  from key_routed[OF o(2) this] have e: "edited_desk = to_app calm_ops calm_env (ap_key calm_ops (mk_key KChar 0x61 0)) 1 s"
    unfolding edited_desk_def s_def[symmetric] using o(3) w by simp
  show "unsaved calm_ops 1 edited_desk"
    using o(1) edited_editor unfolding e by (simp add: unsaved_def to_app_def upd_desk_def app_call_apps ed_do_def Let_def)
  show "\<not> md_open (se_modal edited_desk)" using o(2) unfolding e by (simp add: quiet_def to_app_def upd_desk_def)
qed

lemma quit_asked:
  "run_menu ops env (str ''session:quit'') s =
     (set_dirty (set_dirty (s\<lparr>se_menu := menu_close (se_menu s)\<rparr>)))\<lparr>se_kind := QuitSession,
       se_modal := modal_ask (se_modal s) (str ''Fermer la session ? Toutes les fenetres seront perdues.'') 0\<rparr>"
proof -
  have "\<not> starts (str ''session:quit'') (str ''app:'')" "\<not> starts (str ''session:quit'') (str ''panel:'')"
    "\<not> starts (str ''session:quit'') (str ''cmd:'')" "str ''session:quit'' \<noteq> str ''wm:tile''"
    "str ''session:quit'' \<noteq> str ''session:detach''" "take 7 (str ''session:quit'') \<noteq> str ''update:''" by code_simp+
  then show ?thesis by (simp add: run_menu_def Let_def set_dirty_def upd_desk_def)
qed

lemma request_close_asks:
  assumes "se_drag s = DragIdle" "\<not> md_open (se_modal s)" "se_apps s i = Some a" "ap_can_close ops a = Some q"
  shows "request_close ops i s = set_dirty (s\<lparr>se_drag := DragIdle, se_modal := modal_ask (se_modal s) q i\<rparr>)"
  using assms by (simp add: request_close_def cancel_drag_def Let_def)

lemma asked_modal:
  assumes "\<not> md_open m"
  shows "md_open (modal_ask m q i)" "md_question (modal_ask m q i) = q" "md_target (modal_ask m q i) = i"
  using assms by (simp_all add: modal_ask_def modal_ask_as_def modal_busy_def)

lemma dirty_sel [simp]: "se_modal (set_dirty s) = se_modal s" "se_kind (set_dirty s) = se_kind s" "se_drag (set_dirty s) = se_drag s"
  "se_quit (set_dirty s) = se_quit s" "se_wm (set_dirty s) = se_wm s" "se_update (set_dirty s) = se_update s"
  by (simp_all add: set_dirty_def upd_desk_def)

section \<open>Properties\<close>

text \<open>
  C4.  Unsaved work is not lost without an answer.  A window whose application wants a question asked
  before it is closed still has its application after any event, input, frame, exit of a process or
  message of another application, unless the dialogue open at that moment is about that very window.
\<close>

theorem unsaved_needs_answer:
  assumes "se_ok s" "se_apps s i = Some a" "ap_can_close ops a = Some q"
    and "\<not> (md_open (se_modal s) \<and> md_target (se_modal s) = i)"
  shows "se_apps (session_step ops amb s e) i \<noteq> None"
  using session_step_stays[OF assms(1) _ assms(4), of ops amb e] assms(2,3) by (simp add: unsaved_def present_def)

theorem unsaved_needs_answer_witness:
  "se_apps (session_step calm_ops False edited_desk (calm_env, SeInput (EvKey (mk_key KChar 0x71 mod_Ctrl)))) 1 \<noteq> None"
proof -
  obtain a q where "se_apps edited_desk 1 = Some a" "ap_can_close calm_ops a = Some q"
    using edited_unsaved(1) by (auto simp: unsaved_def split: option.splits)
  then show ?thesis using unsaved_needs_answer[OF edited_ok(1)] edited_unsaved(2) by blast
qed

text \<open>
  C3.  The invariant of the session.  Whatever the applications do, any sequence of input, descriptor
  events, exits of processes, ticks and frames leaves a well-formed session: the window manager's
  invariant, an application for exactly the windows that exist, descriptors and processes that belong to
  existing windows, a descriptor key that names its window, and a menu whose selection exists.
\<close>

theorem session_invariant:
  assumes "2 * length es < 2 ^ 32 - 1"
  shows "se_ok (foldl (session_step ops amb) (session_init env state_path config_path dsk home) es)"
  using session_run_ok[of "session_init env state_path config_path dsk home" es ops amb] session_init_ok assms
  by (metis (no_types) add.commute less_diff_conv)

theorem session_invariant_witness:
  "se_ok (foldl (session_step calm_ops False) fresh_desk [(calm_env, SeRender (surface_new 80 24)), (calm_env, SeInput (EvFocus True))])"
  unfolding fresh_desk_def by (rule session_invariant) simp

text \<open>
  C5.  A dialogue takes the keyboard and the mouse.  While one is open, whatever the user does, each
  application is left as it was, or it is the one the question is about and is closed by the answer;
  the one exception is the window in which a button was pressed before the dialogue opened and is still
  held, which goes on receiving the motion and the release of the mouse.
\<close>

theorem dialogue_captures_input:
  assumes "md_open (se_modal s)"
  shows "let t = on_input ops amb env e s in
      se_apps t i = se_apps s i
      \<or> se_apps t i = None \<and> i = md_target (se_modal s)
      \<or> (\<exists>m. e = EvMouse m \<and> (m_action m = Motion \<or> m_action m = Release)) \<and> i = se_grab s \<and> i \<noteq> 0"
  using modal_captures[OF assms] by (simp add: captured_def Let_def)

theorem dialogue_captures_input_witness:
  "se_apps (on_input calm_ops False calm_env (EvPaste (str ''rm'') True) (edited_desk\<lparr>se_modal := modal_ask modal_init (str ''?'') 2\<rparr>)) 1
    = se_apps edited_desk 1"
  using dialogue_captures_input[of "edited_desk\<lparr>se_modal := modal_ask modal_init (str ''?'') 2\<rparr>" calm_ops False calm_env "EvPaste (str ''rm'') True" 1]
    by (simp add: modal_init_def modal_ask_def modal_ask_as_def modal_busy_def Let_def)

text \<open>
  C24.  A key the desktop leaves alone reaches the application that has the focus, and only it.  No
  dialogue or menu is open and no window is being dragged; the key is neither Ctrl+Q nor an arrow with
  Ctrl alone, and the leader key neither takes it nor makes an action of it.  The help and the assistant,
  when they are open, close and let it through.
\<close>

theorem key_reaches_focused:
  assumes "se_drag s = DragIdle" "\<not> md_open (se_modal s)" "\<not> mn_open (se_menu s)" "\<not> desktop_key k"
    and "leader_feed (leader_now env s) k = (ld, r)" "lr_action r = None" "\<not> lr_consumed r"
    and "wm_find (se_wm s) (wm_focused (se_wm s)) = Some w" "se_apps s (w_id w) = Some a"
  shows "se_apps (on_input ops amb env (EvKey k) s) = (se_apps s)(w_id w \<mapsto> fst (ap_key ops k (host_view_of (w_id w) (se_desk s)) a))"
proof -
  obtain t where t: "on_input ops amb env (EvKey k) s = to_app ops env (ap_key ops k) (w_id w) t"
    "se_apps t = se_apps s" "host_view_of (w_id w) (se_desk t) = host_view_of (w_id w) (se_desk s)"
    using key_passes[OF assms(1-8)] by blast
  then show ?thesis using assms(9) by (simp add: to_app_def upd_desk_def app_call_apps)
qed

theorem key_reaches_focused_witness:
  "se_apps (on_input calm_ops False calm_env (EvKey (mk_key KChar 0x61 0)) (open_from_catalog calm_ops calm_env (str ''editeur'') fresh_desk)) 1
    = Some (DeskEditor (ed_key SaveDone (opened_editor\<lparr>ed_calls := []\<rparr>) (mk_key KChar 0x61 0)))"
proof -
  define s where "s = open_from_catalog calm_ops calm_env (str ''editeur'') fresh_desk"
  note o = opened_desk[OF s_def]
  have "1 \<in> wm_ids (se_wm s)" using o(1,4) by (auto simp: se_ok_def desk_ok_def hosts_ok_def)
  then obtain w where w: "wm_find (se_wm s) 1 = Some w" "w_id w = 1"
    using wm_find_None[of "se_wm s" 1] wm_find_in[of "se_wm s" 1] by fastforce
  let ?k = "mk_key KChar 0x61 0"
  have q: "se_drag s = DragIdle" "\<not> md_open (se_modal s)" "\<not> mn_open (se_menu s)" "ld_phase (se_leader s) = LeaderIdle"
    using o(2) by (simp_all add: quiet_def)
  have k: "\<not> desktop_key ?k" "leader_feed (leader_now calm_env s) ?k = (se_leader s, mk_result False None)"
    using q(4) by (simp_all add: desktop_key_def arrow_dir_def mk_key_def leader_now_def leader_feed_def Let_def)
  from key_reaches_focused[OF q(1-3) k _ _, of w "DeskEditor opened_editor" calm_ops False] show ?thesis
    unfolding s_def[symmetric] using o w by (simp add: ed_do_def Let_def mk_result_def)
qed

text \<open>
  C2.  The user sees the desktop.  Whatever the session, its terminals and its editors are, a frame
  composed on a surface, turned into orders for the attached client and carried out by the user's
  terminal leaves on it exactly the surface composed; other applications need only draw in their view.
\<close>

theorem desktop_on_display:
  assumes "\<And>b v x t. draws b v t (snd (ap_render others b v x t))"
    and "surf_ok out" "paired out" "thin out" "differ_knows df d"
  shows "\<exists>d'. (case snd (frame_orders df (snd (render (desk_ops amb w others) amb env out s)) cursor) of
        None \<Rightarrow> d' = d
      | Some os \<Rightarrow> show_orders junk (sf_w out) (sf_h out) os (d\<lparr>dy_pen := style_init, dy_cur := None\<rparr>) = Some d')
    \<and> shows_surface d' (snd (render (desk_ops amb w others) amb env out s))"
proof -
  let ?cur = "snd (render (desk_ops amb w others) amb env out s)"
  have dr: "draws amb (surface_root out) out ?cur" by (rule painter.frame_draws[OF desk_painter[OF assms(1)]])
  have sz: "sf_w ?cur = sf_w out" "sf_h ?cur = sf_h out" using draws_good[OF dr] by (simp_all add: good_paint_def painted_def)
  obtain df' o1 where f: "frame_orders df ?cur cursor = (df', o1)" by fastforce
  show ?thesis using frame_orders_shows[OF draws_shown[OF dr assms(2-4)] assms(5) f, of junk] sz f by (cases o1) auto
qed

theorem desktop_on_display_witness:
  "\<exists>d'. shows_surface d' (snd (render calm_ops False calm_env (surface_new 80 24) edited_desk))"
proof -
  have "differ_knows (differ_new \<lparr>pf_depth = TrueColor, pf_utf8 = True\<rparr>) \<lparr>dy_cell = \<lambda>_ _. kContinuation, dy_pen = style_init, dy_cur = None\<rparr>"
    by (simp add: differ_knows_def differ_new_def surface_new_ok)
  from desktop_on_display[OF base_draws surface_new_ok surface_new_thin this] show ?thesis by blast
qed

text \<open>
  C22.  The caret is in the window that has the focus: after a frame it is hidden, or it is inside the
  drawing area of that window, which is on the screen; and it is hidden whenever a menu, the help or a
  dialogue covers the windows.
\<close>

theorem caret_in_focused:
  assumes "kMinCols \<le> sf_w out" "kMinRows \<le> sf_h out" and "t = fst (render ops amb env out s)"
  shows "(case se_cursor t of
        None \<Rightarrow> True
      | Some (x, y) \<Rightarrow> (\<exists>w. wm_find (se_wm t) (wm_focused (se_wm t)) = Some w \<and> w_mode w \<noteq> Minimized
            \<and> contains (client_rect (w_display_rect w)) x y))
    \<and> (mn_open (se_menu t) \<or> hp_open (se_help t) \<or> md_open (se_modal t) \<longrightarrow> se_cursor t = None)"
  using render_caret[OF assms(1,2) assms(3)[symmetric]] by (auto simp: caret_ok_def split: option.splits)

theorem caret_in_focused_witness:
  "case se_cursor (fst (render calm_ops False calm_env (surface_new 80 24) fresh_desk)) of
     None \<Rightarrow> True
   | Some (x, y) \<Rightarrow> \<exists>w. wm_find (se_wm (fst (render calm_ops False calm_env (surface_new 80 24) fresh_desk)))
         (wm_focused (se_wm (fst (render calm_ops False calm_env (surface_new 80 24) fresh_desk)))) = Some w
       \<and> w_mode w \<noteq> Minimized \<and> contains (client_rect (w_display_rect w)) x y"
  using caret_in_focused[OF _ _ refl, of "surface_new 80 24" calm_ops False calm_env fresh_desk]
  by (simp only: surface_new_size kMinCols_def kMinRows_def)

text \<open>
  C23.  A closed window is not heard from again: until the 32-bit counter of identifiers goes round, its
  identifier is not given to another, so an event of a descriptor it had watched, however late it comes,
  changes nothing.
\<close>

theorem closed_window_silent:
  assumes "se_ok s" "i \<in> wm_ids (se_wm s)" "opened s + 2 * length es < 2 ^ 32" "key_window key = i"
    and "t = foldl (session_step ops amb) (upd_desk (close_window i) s) es"
  shows "i \<notin> wm_ids (se_wm t) \<and> on_fd_event ops env key events t = t"
proof -
  let ?c = "upd_desk (close_window i) s"
  have c: "se_ok ?c" "opened ?c = opened s" "i \<notin> wm_ids (se_wm ?c)"
    using assms(1) close_window_ok[of "se_desk s" i] by (simp_all add: se_ok_def upd_desk_def opened_def)
  have "w_id w < wm_next_id (se_wm s)" if "w \<in> set (wm_stack (se_wm s))" for w
    using assms(1) that by (simp add: se_ok_def desk_ok_def wm_ok_def stack_ok_def)
  then have "unat i < opened s" using assms(2) by (auto simp: wm_ids_def opened_def word_less_nat_alt)
  moreover have "fresh_only ?c t" using session_run_ok[of ?c es ops amb] c assms(3,5) by simp
  ultimately have "i \<notin> wm_ids (se_wm t)" using c(2,3) by (auto simp: fresh_only_def)
  then show ?thesis using wm_find_None[of "se_wm t" i] assms(4) by (simp add: on_fd_event_def)
qed

theorem closed_window_silent_witness:
  "on_fd_event calm_ops calm_env (make_key 1 16) 1 (upd_desk (close_window 1) edited_desk) = upd_desk (close_window 1) edited_desk"
proof -
  have "1 \<in> wm_ids (se_wm edited_desk)"
    using edited_ok(1) unsaved_present[OF edited_unsaved(1)] by (auto simp: se_ok_def desk_ok_def hosts_ok_def present_def)
  from closed_window_silent[OF edited_ok(1) this, of "[]" "make_key 1 16"] show ?thesis using edited_ok(2) by simp
qed

text \<open>
  A question about closing a window does what it asks.  Asking changes no application; refusing
  changes none; confirming closes that window and no other, and its descriptors are given back.
\<close>

theorem close_question_answered:
  assumes "se_ok s" "se_drag s = DragIdle" "\<not> md_open (se_modal s)" "se_kind s = CloseWindow"
    and "se_apps s i = Some a" "ap_can_close ops a = Some q" and "t = request_close ops i s"
  shows "md_question (se_modal t) = q \<and> se_apps t = se_apps s \<and> se_apps (answer_modal env False t) = se_apps s
    \<and> se_apps (answer_modal env True t) = (se_apps s)(i := None)
    \<and> wm_ids (se_wm (answer_modal env True t)) = wm_ids (se_wm s) - {i}
    \<and> dk_fds (se_desk (answer_modal env True t)) = dk_fds (se_desk s) @ map (\<lambda>p. FdUnwatch (snd p)) (dk_watched (se_desk s) i)"
proof -
  note t = assms(7)[unfolded request_close_asks[OF assms(2,3,5,6)]]
  have m: "se_modal t = modal_ask (se_modal s) q i" "se_kind t = CloseWindow" "se_wm t = se_wm s" "se_apps t = se_apps s"
    using t assms(4) by simp_all
  have d: "se_desk t = (se_desk s)\<lparr>dk_dirty := True\<rparr>" using t by (simp add: set_dirty_def upd_desk_def)
  have "i \<in> wm_ids (se_wm s)" using assms(1,5) by (auto simp: se_ok_def desk_ok_def hosts_ok_def)
  then obtain w where w: "wm_find (se_wm s) i = Some w" "w_id w = i"
    using wm_find_None[of "se_wm s" i] wm_find_in[of "se_wm s" i] by fastforce
  have "wm_ok (se_wm s)" using assms(1) by (simp add: se_ok_def desk_ok_def)
  note c = wm_close_ids[OF this, of i]
  show ?thesis using asked_modal[OF assms(3), of q i] m w c
    by (simp add: answer_modal_def upd_desk_def close_window_def host_unwatch_all_def set_dirty_def Let_def d)
qed

theorem close_question_answered_witness:
  "se_apps (answer_modal calm_env True (request_close calm_ops 1 (edited_desk\<lparr>se_kind := CloseWindow, se_drag := DragIdle\<rparr>)))
     = (se_apps edited_desk)(1 := None)"
proof -
  define s where "s = edited_desk\<lparr>se_kind := CloseWindow, se_drag := DragIdle\<rparr>"
  have s: "se_ok s" "se_drag s = DragIdle" "\<not> md_open (se_modal s)" "se_kind s = CloseWindow" "se_apps s = se_apps edited_desk"
    using edited_ok(1) edited_unsaved(2) by (simp_all add: s_def)
  obtain a q where "se_apps s 1 = Some a" "ap_can_close calm_ops a = Some q"
    using edited_unsaved(1) s(5) by (auto simp: unsaved_def split: option.splits)
  from close_question_answered[OF s(1-4) this refl] show ?thesis unfolding s_def[symmetric] s(5)[symmetric] by blast
qed

text \<open>
  C38.  Escape does not forget what was asked.  Leave the question about quitting the session with
  Escape, then close a window that asks first and confirm: the question on the screen is the window's,
  but the whole session is told to quit, and the window stays.
\<close>

theorem escape_then_close_quits:
  assumes "se_drag s = DragIdle" "\<not> md_open (se_modal s)" "se_apps s i = Some a" "ap_can_close ops a = Some q"
    and "t = request_close ops i (on_key ops amb env (mk_key KEscape 0 0) (run_menu ops env (str ''session:quit'') s))"
  shows "md_question (se_modal t) = q \<and> md_target (se_modal t) = i
    \<and> se_quit (answer_modal env True t) \<and> se_apps (answer_modal env True t) = se_apps s"
proof -
  define u where "u = on_key ops amb env (mk_key KEscape 0 0) (run_menu ops env (str ''session:quit'') s)"
  have u: "se_drag u = DragIdle" "\<not> md_open (se_modal u)" "se_apps u = se_apps s" "se_kind u = QuitSession"
    using assms(1,2) asked_modal(1)[OF assms(2)]
    by (simp_all add: u_def quit_asked Session.on_key_def modal_key_def mk_key_def modal_dismiss_def)
  have "t = set_dirty (u\<lparr>se_drag := DragIdle, se_modal := modal_ask (se_modal u) q i\<rparr>)"
    using request_close_asks[OF u(1,2), of i a ops q] u(3) assms(3-5) by (simp add: u_def)
  then show ?thesis using asked_modal[OF u(2), of q i] u by (simp add: answer_modal_def Let_def)
qed

theorem escape_then_close_quits_witness:
  "se_quit (answer_modal calm_env True (request_close calm_ops 1 (on_key calm_ops False calm_env (mk_key KEscape 0 0)
    (run_menu calm_ops calm_env (str ''session:quit'') (edited_desk\<lparr>se_drag := DragIdle\<rparr>)))))"
proof -
  obtain a q where "se_apps (edited_desk\<lparr>se_drag := DragIdle\<rparr>) 1 = Some a" "ap_can_close calm_ops a = Some q"
    using edited_unsaved(1) by (auto simp: unsaved_def split: option.splits)
  from escape_then_close_quits[OF _ _ this] show ?thesis using edited_unsaved(2) by simp
qed

text \<open>
  C39.  The end of an update check answers in the user's place.  When the updater reports while a question
  about closing a window is open, the question stays on the screen but what its answer means is replaced:
  confirming it then closes nothing.
\<close>

theorem report_takes_over_answer:
  assumes "sv_report (se_update s) \<noteq> []" "modal_busy (se_modal s)" "se_kind s = CloseWindow" and "t = report_update s"
  shows "se_modal t = se_modal s \<and> se_kind t \<in> {ApplyUpdate, Information} \<and> se_apps (answer_modal env True t) = se_apps s"
proof -
  have k: "se_modal t = se_modal s" "se_kind t \<in> {ApplyUpdate, Information}"
    using assms(1-3) unfolding assms(4)
    by (auto simp: report_update_def Let_def modal_ask_as_def modal_inform_def split: prod.split)
  have "se_apps t = se_apps s" by (simp add: assms(4))
  then show ?thesis using k by (auto simp: answer_modal_def Let_def)
qed

theorem report_takes_over_answer_witness:
  "se_kind (report_update (edited_desk\<lparr>se_kind := CloseWindow, se_modal := modal_ask modal_init [] 1,
     se_update := (service_init [] [])\<lparr>sv_report := [0x41]\<rparr>\<rparr>)) \<in> {ApplyUpdate, Information}"
proof -
  define s where "s = edited_desk\<lparr>se_kind := CloseWindow, se_modal := modal_ask modal_init [] 1, se_update := (service_init [] [])\<lparr>sv_report := [0x41]\<rparr>\<rparr>"
  have "modal_busy (modal_ask modal_init [] 1)" by code_simp
  then have "sv_report (se_update s) \<noteq> []" "modal_busy (se_modal s)" "se_kind s = CloseWindow" by (simp_all add: s_def)
  from report_takes_over_answer[OF this refl] show ?thesis unfolding s_def[symmetric] by blast
qed

end
