(* ===== verification/Session_Paste.thy ===== *)
theory Session_Paste
  imports Session_Props Terminal_Paste
begin

text \<open>
  A paste through the whole program: from the bytes the user's terminal sends, by the input
  parser, the session and the host of the window that has the focus, to the guest of a terminal.
\<close>

section \<open>The terminal, called by its host\<close>

text \<open>What \<open>Terminal.on_paste\<close> reads of a terminal does not include its host: \<open>hosted\<close> is the
  terminal as \<open>term_do\<close> hands it the call.\<close>

definition hosted :: "host option \<Rightarrow> host_call list \<Rightarrow> terminal \<Rightarrow> terminal" where
  "hosted h cs T = T\<lparr>tm_host := h, tm_calls := cs\<rparr>"

lemma hosted_simps [simp]:
  "tm_tabs (hosted h cs T) = tm_tabs T" "tm_active (hosted h cs T) = tm_active T" "tm_feeding (hosted h cs T) = tm_feeding T"
  "tm_mode (hosted h cs T) = tm_mode T" "tm_pasting (hosted h cs T) = tm_pasting T" "tm_bracketed (hosted h cs T) = tm_bracketed T"
  "active_tab (hosted h cs T) = active_tab T" "target (hosted h cs T) = target T" "at_rest (hosted h cs T) = at_rest T"
  "tm_calls (hosted h cs T) = cs" "hosted h cs (hosted h' cs' T) = hosted h cs T"
  by (simp_all add: hosted_def active_tab_def tab_at_def target_def at_rest_def split: option.split)




section \<open>The session, with a terminal in focus\<close>








section \<open>Properties\<close>





end
