(* ===== verification/Dir.thy ===== *)
theory Dir
  imports Update_State Procstat "HOL-Library.List_Lexorder" "HOL-Library.Multiset"
begin

text \<open>
  \<open>src/apps/files/dir.cpp\<close>: what a directory holds, read in one pass, sorted and filtered in memory,
  and the paths.  The file system is the record \<open>fs\<close>: one function per system call the sources make,
  on a state of the world that the model is abstract in.
\<close>

section \<open>The file system\<close>

datatype file_type = FtDir | FtReg | FtLnk | FtOther

datatype dirent_type = DtDir | DtReg | DtLnk | DtUnknown | DtOther

record file_stat =
  st_type :: file_type
  st_mode :: "32 word"
  st_size :: int
  st_mtime :: int

text \<open>Errors are \<open>errno\<close> values; \<open>fs_readdir\<close> stands for \<open>opendir\<close>, \<open>readdir\<close> until it gives nothing
  more, \<open>closedir\<close>.\<close>

record 'w fs =
  fs_lstat :: "bytes \<Rightarrow> 'w \<Rightarrow> int + file_stat"
  fs_stat :: "bytes \<Rightarrow> 'w \<Rightarrow> int + file_stat"
  fs_readdir :: "bytes \<Rightarrow> 'w \<Rightarrow> int + (bytes \<times> dirent_type) list"
  fs_readlink :: "bytes \<Rightarrow> nat \<Rightarrow> 'w \<Rightarrow> int + bytes"
  fs_mkdir :: "bytes \<Rightarrow> 32 word \<Rightarrow> 'w \<Rightarrow> int option \<times> 'w"
  fs_rmdir :: "bytes \<Rightarrow> 'w \<Rightarrow> int option \<times> 'w"
  fs_unlink :: "bytes \<Rightarrow> 'w \<Rightarrow> int option \<times> 'w"
  fs_rename :: "bytes \<Rightarrow> bytes \<Rightarrow> 'w \<Rightarrow> int option \<times> 'w"
  fs_open_read :: "bytes \<Rightarrow> 'w \<Rightarrow> (int + int) \<times> 'w"
  fs_create :: "bytes \<Rightarrow> 32 word \<Rightarrow> 'w \<Rightarrow> (int + int) \<times> 'w"
  fs_read :: "int \<Rightarrow> nat \<Rightarrow> 'w \<Rightarrow> (int + bytes) \<times> 'w"
  fs_write :: "int \<Rightarrow> bytes \<Rightarrow> 'w \<Rightarrow> (int + nat) \<times> 'w"
  fs_close :: "int \<Rightarrow> 'w \<Rightarrow> 'w"
  fs_strerror :: "int \<Rightarrow> bytes"

section \<open>Entries\<close>

datatype entry_kind = EkDir | EkFile | EkLink | EkOther

record dir_entry =
  de_name :: bytes
  de_kind :: entry_kind
  de_size :: "64 word"
  de_mtime :: "64 word"
  de_links_to_dir :: bool

datatype sort_by = ByName | BySize | ByTime

record dir_listing =
  dl_path :: bytes
  dl_entries :: "dir_entry list"
  dl_error :: bytes

definition slash :: byte where "slash = 0x2F"
definition kParent :: bytes where "kParent = str ''..''"

definition fold_char :: "byte \<Rightarrow> byte" where
  "fold_char c = (if 0x41 \<le> c \<and> c \<le> 0x5A then c - 0x41 + 0x61 else c)"

text \<open>\<open>char\<close> is signed where the program is built: the folded names compare as signed bytes, the raw
  names of the last resort as unsigned ones.\<close>

fun compare_folded :: "bytes \<Rightarrow> bytes \<Rightarrow> int" where
  "compare_folded [] [] = 0"
| "compare_folded [] (_ # _) = - 1"
| "compare_folded (_ # _) [] = 1"
| "compare_folded (a # as) (b # bs) =
     (let ca = fold_char a; cb = fold_char b
      in if ca \<noteq> cb then (if sint ca < sint cb then - 1 else 1) else compare_folded as bs)"

fun raw_less :: "bytes \<Rightarrow> bytes \<Rightarrow> bool" where
  "raw_less [] bs \<longleftrightarrow> bs \<noteq> []"
| "raw_less (a # as) [] \<longleftrightarrow> False"
| "raw_less (a # as) (b # bs) \<longleftrightarrow> (if a = b then raw_less as bs else a < b)"

definition kind_of_type :: "file_type \<Rightarrow> entry_kind" where
  "kind_of_type t = (case t of FtLnk \<Rightarrow> EkLink | FtDir \<Rightarrow> EkDir | FtReg \<Rightarrow> EkFile | FtOther \<Rightarrow> EkOther)"

definition kind_of :: "'w fs \<Rightarrow> 'w \<Rightarrow> bytes \<Rightarrow> dirent_type \<Rightarrow> entry_kind" where
  "kind_of fs w full d =
     (case d of
        DtDir \<Rightarrow> EkDir
      | DtReg \<Rightarrow> EkFile
      | DtLnk \<Rightarrow> EkLink
      | DtOther \<Rightarrow> EkOther
      | DtUnknown \<Rightarrow> (case fs_lstat fs full w of Inl _ \<Rightarrow> EkOther | Inr st \<Rightarrow> kind_of_type (st_type st)))"

definition is_dir_like :: "dir_entry \<Rightarrow> bool" where
  "is_dir_like e \<longleftrightarrow> de_kind e = EkDir \<or> de_links_to_dir e"

section \<open>Paths\<close>

text \<open>\<open>while (p.size() > 1 && p.back() == '/') p.pop_back()\<close>.\<close>

function strip_slashes :: "bytes \<Rightarrow> bytes" where
  "strip_slashes p = (if 1 < length p \<and> last p = slash then strip_slashes (butlast p) else p)"
  by pat_completeness auto
termination by (relation "measure length") auto

declare strip_slashes.simps [simp del]

definition parent_path :: "bytes \<Rightarrow> bytes" where
  "parent_path path =
     (let p = strip_slashes path
      in case rfind_byte slash p of
           None \<Rightarrow> [slash]
         | Some k \<Rightarrow> if k = 0 then [slash] else take k p)"

definition join_path :: "bytes \<Rightarrow> bytes \<Rightarrow> bytes" where
  "join_path dir name =
     (if dir = [] then name else if last dir = slash then dir @ name else dir @ [slash] @ name)"

section \<open>Sorting and filtering\<close>

definition name_less :: "sort_by \<Rightarrow> bool \<Rightarrow> bytes \<Rightarrow> bytes \<Rightarrow> bool" where
  "name_less k desc a b =
     (let c = compare_folded a b
      in if c \<noteq> 0 then (if k = ByName \<and> desc then c > 0 else c < 0)
         else if k = ByName \<and> desc then raw_less b a else raw_less a b)"

definition entry_less :: "sort_by \<Rightarrow> bool \<Rightarrow> dir_entry \<Rightarrow> dir_entry \<Rightarrow> bool" where
  "entry_less k desc a b =
     (let pa = (de_name a = kParent); pb = (de_name b = kParent); da = is_dir_like a; db = is_dir_like b
      in if pa \<noteq> pb then pa
         else if da \<noteq> db then da
         else if k = BySize \<and> de_size a \<noteq> de_size b then (if desc then de_size a > de_size b else de_size a < de_size b)
         else if k = ByTime \<and> de_mtime a \<noteq> de_mtime b then (if desc then de_mtime a > de_mtime b else de_mtime a < de_mtime b)
         else name_less k desc (de_name a) (de_name b))"

text \<open>\<open>std::stable_sort\<close>.\<close>

fun insert_sorted :: "('a \<Rightarrow> 'a \<Rightarrow> bool) \<Rightarrow> 'a \<Rightarrow> 'a list \<Rightarrow> 'a list" where
  "insert_sorted lt x [] = [x]"
| "insert_sorted lt x (y # ys) = (if lt y x then y # insert_sorted lt x ys else x # y # ys)"

definition stable_sort :: "('a \<Rightarrow> 'a \<Rightarrow> bool) \<Rightarrow> 'a list \<Rightarrow> 'a list" where
  "stable_sort lt xs = foldr (insert_sorted lt) xs []"

definition sort_entries :: "sort_by \<Rightarrow> bool \<Rightarrow> dir_entry list \<Rightarrow> dir_entry list" where
  "sort_entries k desc es = stable_sort (entry_less k desc) es"

definition filter_entries :: "dir_entry list \<Rightarrow> bytes \<Rightarrow> dir_entry list" where
  "filter_entries es needle =
     (if needle = [] then es
      else filter (\<lambda>e. de_name e = kParent \<or> find_from (map fold_char (de_name e)) (map fold_char needle) 0 \<noteq> None) es)"

section \<open>Reading a directory\<close>

definition read_entry :: "'w fs \<Rightarrow> 'w \<Rightarrow> bytes \<Rightarrow> bytes \<times> dirent_type \<Rightarrow> dir_entry" where
  "read_entry fs w path ent =
     (let (name, d) = ent; full = join_path path name; k = kind_of fs w full d
      in case fs_stat fs full w of
           Inl _ \<Rightarrow> \<lparr>de_name = name, de_kind = k, de_size = 0, de_mtime = 0, de_links_to_dir = False\<rparr>
         | Inr st \<Rightarrow>
             \<lparr>de_name = name, de_kind = k,
              de_size = (if st_type st = FtDir then 0 else word_of_int (st_size st)),
              de_mtime = word_of_int (st_mtime st),
              de_links_to_dir = (k = EkLink \<and> st_type st = FtDir)\<rparr>)"

definition listed :: "bool \<Rightarrow> bytes \<times> dirent_type \<Rightarrow> bool" where
  "listed show_hidden ent \<longleftrightarrow>
     fst ent \<noteq> str ''.'' \<and> fst ent \<noteq> kParent
     \<and> \<not> (\<not> show_hidden \<and> fst ent \<noteq> [] \<and> hd (fst ent) = 0x2E)"

definition parent_entry :: dir_entry where
  "parent_entry = \<lparr>de_name = kParent, de_kind = EkDir, de_size = 0, de_mtime = 0, de_links_to_dir = False\<rparr>"

definition read_dir :: "'w fs \<Rightarrow> 'w \<Rightarrow> bytes \<Rightarrow> bool \<Rightarrow> dir_listing" where
  "read_dir fs w path show_hidden =
     (case fs_readdir fs path w of
        Inl e \<Rightarrow> \<lparr>dl_path = path, dl_entries = [], dl_error = str ''lecture impossible : '' @ fs_strerror fs e\<rparr>
      | Inr ents \<Rightarrow>
          \<lparr>dl_path = path,
           dl_entries = sort_entries ByName False
             ((if path \<noteq> [slash] then [parent_entry] else [])
              @ map (read_entry fs w path) (filter (listed show_hidden) ents)),
           dl_error = []\<rparr>)"

section \<open>The order is total\<close>

text \<open>Comparing by a key and then, between equal keys, by another order.\<close>

definition layer :: "('a \<Rightarrow> 'k::linorder) \<Rightarrow> ('a \<Rightarrow> 'a \<Rightarrow> bool) \<Rightarrow> 'a \<Rightarrow> 'a \<Rightarrow> bool" where
  "layer f R a b = (if f a = f b then R a b else f a < f b)"

lemma layer_trans:
  assumes "\<And>a b c. R a b \<Longrightarrow> R b c \<Longrightarrow> R a c" "layer f R a b" "layer f R b c"
  shows "layer f R a c"
  using assms(2,3) assms(1)[of a b c] less_trans[of "f a" "f b" "f c"] by (auto simp: layer_def split: if_split_asm)

lemma layer_irrefl: "\<not> R a a \<Longrightarrow> \<not> layer f R a a"
  by (simp add: layer_def)

lemma layer_total: "R a b \<or> R b a \<Longrightarrow> layer f R a b \<or> layer f R b a"
  by (auto simp: layer_def)

definition fold_key :: "bytes \<Rightarrow> int list" where
  "fold_key s = map (\<lambda>c. sint (fold_char c)) s"

lemma sint_same: "sint (a :: byte) = sint b \<longleftrightarrow> a = b"
  by (auto intro: signed_word_eqI)

lemma uint_same: "uint (a :: 64 word) = uint b \<longleftrightarrow> a = b"
  by (auto intro: unsigned_word_eqI)

lemma Nil_less_iff: "bs \<noteq> [] \<longleftrightarrow> [] < (bs :: bytes)"
  by (cases bs) simp_all

lemma compare_folded_key:
  "compare_folded a b = (if fold_key a = fold_key b then 0 else if fold_key a < fold_key b then - 1 else 1)"
  by (induction a b rule: compare_folded.induct) (auto simp: fold_key_def Let_def sint_same)

lemma raw_less_iff: "raw_less a b \<longleftrightarrow> a < b"
  by (induction a b rule: raw_less.induct) (auto simp: Nil_less_iff)

lemma name_less_layer:
  "name_less k desc a b =
     (if k = ByName \<and> desc then layer fold_key (<) b a else layer fold_key (<) a b)"
  by (auto simp: name_less_def layer_def compare_folded_key raw_less_iff Let_def)

definition num_key :: "sort_by \<Rightarrow> bool \<Rightarrow> dir_entry \<Rightarrow> int" where
  "num_key k desc e =
     (let n = (case k of ByName \<Rightarrow> 0 | BySize \<Rightarrow> uint (de_size e) | ByTime \<Rightarrow> uint (de_mtime e))
      in if desc then - n else n)"

lemma entry_less_layer:
  "entry_less k desc =
     layer (\<lambda>e. de_name e \<noteq> kParent) (layer (\<lambda>e. \<not> is_dir_like e)
       (layer (num_key k desc) (\<lambda>a b. name_less k desc (de_name a) (de_name b))))"
  by (intro ext) (auto simp: entry_less_def layer_def num_key_def Let_def word_less_def uint_same split: sort_by.splits)

lemma name_less_trans:
  assumes "name_less k desc a b" "name_less k desc b c"
  shows "name_less k desc a c"
proof -
  have t: "layer fold_key (<) x z" if "layer fold_key (<) x y" "layer fold_key (<) y z" for x y z :: bytes
    by (rule layer_trans[OF less_trans that])
  show ?thesis using assms t[of a b c] t[of c b a] by (simp add: name_less_layer split: if_split_asm)
qed

lemma name_less_irrefl: "\<not> name_less k desc a a"
  by (simp add: name_less_layer layer_def)

lemma name_less_total: "a \<noteq> b \<Longrightarrow> name_less k desc a b \<or> name_less k desc b a"
  by (auto simp: name_less_layer layer_def)

lemma entry_less_trans: "entry_less k desc a b \<Longrightarrow> entry_less k desc b c \<Longrightarrow> entry_less k desc a c"
  unfolding entry_less_layer
  by (rule layer_trans[rotated], assumption, assumption,
      rule layer_trans[rotated], assumption, assumption,
      rule layer_trans[rotated], assumption, assumption, rule name_less_trans)

lemma entry_less_irrefl: "\<not> entry_less k desc a a"
  unfolding entry_less_layer by (intro layer_irrefl name_less_irrefl)

lemma entry_less_total: "de_name a \<noteq> de_name b \<Longrightarrow> entry_less k desc a b \<or> entry_less k desc b a"
  unfolding entry_less_layer by (intro layer_total name_less_total)

section \<open>Stable sorting\<close>

lemma insert_sorted_mset [simp]: "mset (insert_sorted lt x xs) = add_mset x (mset xs)"
  by (induction xs) auto

lemma stable_sort_mset [simp]: "mset (stable_sort lt xs) = mset xs"
  by (induction xs) (auto simp: stable_sort_def)

lemma stable_sort_set [simp]: "set (stable_sort lt xs) = set xs"
  by (metis set_mset_mset stable_sort_mset)

lemma stable_sort_length [simp]: "length (stable_sort lt xs) = length xs"
  by (metis size_mset stable_sort_mset)

lemma insert_sorted_set [simp]: "set (insert_sorted lt x xs) = insert x (set xs)"
  by (metis insert_sorted_mset set_mset_add_mset_insert set_mset_mset)

lemma insert_sorted_wrt:
  assumes "\<And>a b c. lt a b \<Longrightarrow> lt b c \<Longrightarrow> lt a c"
    and "\<And>y. y \<in> set xs \<Longrightarrow> lt x y \<or> lt y x"
  shows "sorted_wrt lt xs \<Longrightarrow> sorted_wrt lt (insert_sorted lt x xs)"
  using assms(2)
proof (induction xs)
  case (Cons y ys)
  show ?case
  proof (cases "lt y x")
    case True
    then show ?thesis using Cons by simp
  next
    case False
    then have xy: "lt x y" using Cons.prems(2)[of y] by simp
    have "lt x z" if "z \<in> set ys" for z
      using assms(1)[OF xy] Cons.prems(1) that by simp
    then show ?thesis using False xy Cons.prems(1) by simp
  qed
qed simp

lemma stable_sort_wrt:
  assumes "\<And>a b c. lt a b \<Longrightarrow> lt b c \<Longrightarrow> lt a c"
  shows "sorted_wrt (\<lambda>a b. lt a b \<or> lt b a) xs \<Longrightarrow> sorted_wrt lt (stable_sort lt xs)"
proof (induction xs)
  case (Cons x xs)
  have "lt x y \<or> lt y x" if "y \<in> set (stable_sort lt xs)" for y
    using Cons.prems that by simp
  moreover have "sorted_wrt lt (stable_sort lt xs)" using Cons by simp
  ultimately have "sorted_wrt lt (insert_sorted lt x (stable_sort lt xs))"
    using insert_sorted_wrt[of lt "stable_sort lt xs" x] assms by blast
  then show ?case by (simp add: stable_sort_def)
qed (simp add: stable_sort_def)

lemma sorted_wrt_unique:
  assumes "\<And>a b c. lt a b \<Longrightarrow> lt b c \<Longrightarrow> lt a c" "\<And>a. \<not> lt a a"
  shows "sorted_wrt lt xs \<Longrightarrow> sorted_wrt lt ys \<Longrightarrow> mset xs = mset ys \<Longrightarrow> xs = ys"
proof (induction xs arbitrary: ys)
  case (Cons x xs)
  obtain y zs where ys: "ys = y # zs" using Cons.prems(3) by (cases ys) auto
  have "x = y"
  proof (rule ccontr)
    assume "x \<noteq> y"
    have "set (x # xs) = set (y # zs)" using Cons.prems(3) ys by (metis set_mset_mset)
    then have "x \<in> set zs" "y \<in> set xs" using \<open>x \<noteq> y\<close> by auto
    then have "lt y x" "lt x y" using Cons.prems(1,2) ys by auto
    then show False using assms by blast
  qed
  then show ?case using Cons.IH[of zs] Cons.prems ys by simp
qed simp

lemma distinct_names_total:
  "distinct (map de_name es) \<Longrightarrow> sorted_wrt (\<lambda>a b. entry_less k desc a b \<or> entry_less k desc b a) es"
  by (induction es) (auto intro!: entry_less_total)

lemma sort_entries_sorted: "distinct (map de_name es) \<Longrightarrow> sorted_wrt (entry_less k desc) (sort_entries k desc es)"
  unfolding sort_entries_def by (rule stable_sort_wrt[OF entry_less_trans distinct_names_total])

lemma sort_entries_set [simp]: "set (sort_entries k desc es) = set es" "length (sort_entries k desc es) = length es"
  "mset (sort_entries k desc es) = mset es"
  by (simp_all add: sort_entries_def)

lemma strip_slashes_done: "last p \<noteq> slash \<Longrightarrow> strip_slashes p = p"
  by (simp add: strip_slashes.simps)

lemma join_path_split: "join_path d n = (if d = [] then n else (if last d = slash then butlast d else d) @ slash # n)"
  by (cases d rule: rev_cases) (simp_all add: join_path_def)

section \<open>Properties\<close>

text \<open>
  C35.  A listing never jumps: under every criterion and direction the entries shown are those that were
  read, in a strict order that their names settle, so that the order in which the kernel happens to
  return a directory changes nothing, and the way out, \<open>..\<close>, is the first line.
\<close>

theorem listing_settled:
  assumes "distinct (map de_name es)" and "mset fs = mset es"
  shows "sort_entries k desc fs = sort_entries k desc es
    \<and> mset (sort_entries k desc es) = mset es \<and> sorted_wrt (entry_less k desc) (sort_entries k desc es)
    \<and> (\<forall>e \<in> set es. de_name e = kParent \<longrightarrow> hd (sort_entries k desc es) = e)"
proof -
  let ?s = "sort_entries k desc es"
  have d: "distinct (map de_name fs)" using assms by (metis mset_map mset_eq_imp_distinct_iff)
  have eq: "sort_entries k desc fs = ?s"
    by (rule sorted_wrt_unique[OF entry_less_trans entry_less_irrefl sort_entries_sorted sort_entries_sorted])
       (use d assms in auto)
  have "hd ?s = e" if e: "e \<in> set es" "de_name e = kParent" for e
  proof -
    obtain x xs where s: "?s = x # xs" using e(1) by (metis sort_entries_set(1) list.set_cases)
    then have "e = x \<or> entry_less k desc x e"
      using sort_entries_sorted[OF assms(1), of k desc] e(1) by (metis sort_entries_set(1) set_ConsD sorted_wrt.simps(2))
    moreover have "e = x" if "entry_less k desc x e"
    proof -
      have "de_name x = kParent" using that e(2) by (auto simp: entry_less_def Let_def split: if_splits)
      moreover have "x \<in> set es" using s by (metis sort_entries_set(1) list.set_intros(1))
      ultimately show "e = x" using e assms(1) by (metis inj_on_def distinct_map)
    qed
    ultimately show ?thesis using s by auto
  qed
  then show ?thesis using eq sort_entries_sorted[OF assms(1)] by simp
qed

theorem listing_settled_witness:
  "sort_entries BySize True [parent_entry\<lparr>de_name := [0x61], de_kind := EkFile\<rparr>, parent_entry, parent_entry\<lparr>de_name := [0x41], de_kind := EkFile\<rparr>]
   = sort_entries BySize True [parent_entry, parent_entry\<lparr>de_name := [0x41], de_kind := EkFile\<rparr>, parent_entry\<lparr>de_name := [0x61], de_kind := EkFile\<rparr>]"
  using listing_settled[of "[parent_entry, parent_entry\<lparr>de_name := [0x41], de_kind := EkFile\<rparr>, parent_entry\<lparr>de_name := [0x61], de_kind := EkFile\<rparr>]"
      "[parent_entry\<lparr>de_name := [0x61], de_kind := EkFile\<rparr>, parent_entry, parent_entry\<lparr>de_name := [0x41], de_kind := EkFile\<rparr>]" BySize True]
  by (simp add: parent_entry_def kParent_def str_def)

text \<open>
  Down and up again is where one was: the parent of the path of an entry of a directory is the
  path of that directory, at the root and below it.
\<close>

theorem parent_of_join:
  assumes "d = [slash] \<or> d \<noteq> [] \<and> last d \<noteq> slash" and "n \<noteq> []" "slash \<notin> set n"
  shows "parent_path (join_path d n) = d"
proof -
  have l: "last n \<noteq> slash" using assms(2,3) last_in_set by metis
  have ns: "list_all (\<lambda>x. slash \<noteq> x) n" using assms(3) by (auto simp: list_all_iff)
  show ?thesis
  proof (cases "d = [slash]")
    case True
    then show ?thesis using l assms(2) rfind_here[OF ns, of "[]"]
      by (simp add: parent_path_def join_path_def strip_slashes_done Let_def)
  next
    case False
    then show ?thesis using l assms(1,2) rfind_here[OF ns, of d]
      by (simp add: parent_path_def join_path_def strip_slashes_done Let_def)
  qed
qed

theorem parent_of_join_witness: "parent_path (join_path (str ''/home/a'') (str ''b'')) = str ''/home/a''"
  by (rule parent_of_join) (simp_all add: str_def slash_def)

end
