(* ===== verification/Job.thy ===== *)
theory Job
  imports Dir
begin

text \<open>
  \<open>src/apps/files/job.cpp\<close>: copying, moving and deleting trees of files by slices.  \<open>step\<close> does one
  element of the stack or copies at most \<open>budget\<close> bytes.  The loops of \<open>read\<close> and \<open>write\<close>, which an
  interruption starts again, may not end: they are partial functions, \<open>None\<close> when they do not.
\<close>

section \<open>The job\<close>

datatype file_op = OpCopy | OpMove | OpDelete

record job_item =
  ji_from :: bytes
  ji_to :: bytes
  ji_rmdir_only :: bool

record job =
  jb_active :: bool
  jb_kind :: file_op
  jb_pending :: "job_item list"
  jb_current :: bytes
  jb_current_from :: bytes
  jb_current_to :: bytes
  jb_in :: int
  jb_out :: int
  jb_done :: int
  jb_failed :: int
  jb_error :: bytes

definition job_init :: job where
  "job_init = \<lparr>jb_active = False, jb_kind = OpCopy, jb_pending = [], jb_current = [], jb_current_from = [],
     jb_current_to = [], jb_in = - 1, jb_out = - 1, jb_done = 0, jb_failed = 0, jb_error = []\<rparr>"

definition kEINTR :: int where "kEINTR = 4"
definition kEEXIST :: int where "kEEXIST = 17"
definition kJobChunk :: nat where "kJobChunk = 64 * 1024"

definition base_name :: "bytes \<Rightarrow> bytes" where
  "base_name path = (let p = strip_slashes path in case rfind_byte slash p of None \<Rightarrow> p | Some k \<Rightarrow> drop (k + 1) p)"

definition close_both :: "'w fs \<Rightarrow> job \<Rightarrow> 'w \<Rightarrow> 'w" where
  "close_both fs j w =
     (let w1 = (if jb_in j \<ge> 0 then fs_close fs (jb_in j) w else w)
      in if jb_out j \<ge> 0 then fs_close fs (jb_out j) w1 else w1)"

definition job_cancel :: "'w fs \<Rightarrow> job \<Rightarrow> 'w \<Rightarrow> job \<times> 'w" where
  "job_cancel fs j w =
     (j\<lparr>jb_in := - 1, jb_out := - 1, jb_active := False, jb_pending := [], jb_current := [], jb_current_from := [],
        jb_current_to := [], jb_done := 0, jb_failed := 0, jb_error := []\<rparr>, close_both fs j w)"

definition job_start :: "'w fs \<Rightarrow> bytes list \<Rightarrow> bytes \<Rightarrow> file_op \<Rightarrow> job \<Rightarrow> 'w \<Rightarrow> job \<times> 'w" where
  "job_start fs sources dest kind j w =
     (let (j1, w1) = job_cancel fs j w;
          items = map (\<lambda>s. \<lparr>ji_from = s, ji_to = (if kind = OpDelete then [] else join_path dest (base_name s)),
                            ji_rmdir_only = False\<rparr>) (rev sources)
      in (j1\<lparr>jb_kind := kind, jb_pending := items, jb_active := items \<noteq> []\<rparr>, w1))"

definition job_fail :: "bytes \<Rightarrow> job \<Rightarrow> job" where
  "job_fail what j = j\<lparr>jb_failed := jb_failed j + 1, jb_error := (if jb_error j = [] then what else jb_error j)\<rparr>"

definition no_current :: "job \<Rightarrow> job" where
  "no_current j = j\<lparr>jb_in := - 1, jb_out := - 1, jb_current := [], jb_current_from := [], jb_current_to := []\<rparr>"

definition finish_current :: "'w fs \<Rightarrow> job \<Rightarrow> 'w \<Rightarrow> job \<times> 'w" where
  "finish_current fs j w =
     (let w1 = close_both fs j w;
          w2 = (if jb_kind j = OpMove \<and> jb_current_from j \<noteq> [] then snd (fs_unlink fs (jb_current_from j) w1) else w1)
      in (no_current (j\<lparr>jb_done := jb_done j + 1\<rparr>), w2))"

text \<open>A message of \<open>fail\<close>: the name and the reason.\<close>

definition failure :: "'w fs \<Rightarrow> bytes \<Rightarrow> int \<Rightarrow> bytes" where
  "failure fs name e = name @ str '' : '' @ fs_strerror fs e"

text \<open>What \<open>readdir\<close> gave, pushed on the stack.\<close>

definition child_items :: "file_op \<Rightarrow> job_item \<Rightarrow> (bytes \<times> dirent_type) list \<Rightarrow> job_item list" where
  "child_items kind it ents =
     map (\<lambda>e. \<lparr>ji_from = join_path (ji_from it) (fst e),
               ji_to = (if kind = OpDelete then [] else join_path (ji_to it) (fst e)), ji_rmdir_only = False\<rparr>)
         (filter (\<lambda>e. fst e \<noteq> str ''.'' \<and> fst e \<noteq> kParent) ents)"

section \<open>One element\<close>

definition take_rmdir :: "'w fs \<Rightarrow> job_item \<Rightarrow> job \<Rightarrow> 'w \<Rightarrow> job \<times> 'w" where
  "take_rmdir fs it j w =
     (case fs_rmdir fs (ji_from it) w of
        (Some e, w1) \<Rightarrow> (job_fail (failure fs (base_name (ji_from it)) e) j, w1)
      | (None, w1) \<Rightarrow> (if jb_kind j = OpDelete then j\<lparr>jb_done := jb_done j + 1\<rparr> else j, w1))"

definition open_dir :: "'w fs \<Rightarrow> job_item \<Rightarrow> job \<Rightarrow> 'w \<Rightarrow> job \<times> 'w" where
  "open_dir fs it j w =
     (let j1 = (if jb_kind j \<noteq> OpCopy
                then j\<lparr>jb_pending := jb_pending j @ [\<lparr>ji_from = ji_from it, ji_to = [], ji_rmdir_only = True\<rparr>]\<rparr> else j)
      in case fs_readdir fs (ji_from it) w of
           Inl e \<Rightarrow> (job_fail (failure fs (base_name (ji_from it)) e) j1, w)
         | Inr ents \<Rightarrow>
             (let j2 = j1\<lparr>jb_pending := jb_pending j1 @ child_items (jb_kind j) it ents\<rparr>
              in if jb_kind j \<noteq> OpDelete then j2\<lparr>jb_done := jb_done j2 + 1\<rparr> else j2, w))"

definition take_dir :: "'w fs \<Rightarrow> file_stat \<Rightarrow> job_item \<Rightarrow> job \<Rightarrow> 'w \<Rightarrow> job \<times> 'w" where
  "take_dir fs st it j w =
     (if jb_kind j = OpDelete then open_dir fs it j w
      else (case fs_mkdir fs (ji_to it) (st_mode st AND 0xFFF) w of
          (Some e, w1) \<Rightarrow> if e \<noteq> kEEXIST then (job_fail (failure fs (base_name (ji_from it)) e) j, w1) else open_dir fs it j w1
        | (None, w1) \<Rightarrow> open_dir fs it j w1))"

definition open_copy :: "'w fs \<Rightarrow> file_stat \<Rightarrow> job_item \<Rightarrow> job \<Rightarrow> 'w \<Rightarrow> job \<times> 'w" where
  "open_copy fs st it j w =
     (case fs_open_read fs (ji_from it) w of
        (Inl e, w1) \<Rightarrow> (job_fail (failure fs (base_name (ji_from it)) e) j, w1)
      | (Inr i, w1) \<Rightarrow>
          (case fs_create fs (ji_to it) (st_mode st AND 0xFFF) w1 of
             (Inl e, w2) \<Rightarrow> (job_fail (failure fs (base_name (ji_to it)) e) j, fs_close fs i w2)
           | (Inr o1, w2) \<Rightarrow>
               (j\<lparr>jb_in := i, jb_out := o1, jb_current := base_name (ji_from it), jb_current_from := ji_from it,
                  jb_current_to := ji_to it\<rparr>, w2)))"

definition take_file :: "'w fs \<Rightarrow> file_stat \<Rightarrow> job_item \<Rightarrow> job \<Rightarrow> 'w \<Rightarrow> job \<times> 'w" where
  "take_file fs st it j w =
     (case jb_kind j of
        OpDelete \<Rightarrow>
          (case fs_unlink fs (ji_from it) w of
             (Some e, w1) \<Rightarrow> (job_fail (failure fs (base_name (ji_from it)) e) j, w1)
           | (None, w1) \<Rightarrow> (j\<lparr>jb_done := jb_done j + 1\<rparr>, w1))
      | OpMove \<Rightarrow>
          (case fs_rename fs (ji_from it) (ji_to it) w of
             (None, w1) \<Rightarrow> (j\<lparr>jb_done := jb_done j + 1\<rparr>, w1)
           | (Some _, w1) \<Rightarrow> open_copy fs st it j w1)
      | OpCopy \<Rightarrow> open_copy fs st it j w)"

definition take_next :: "'w fs \<Rightarrow> job \<Rightarrow> 'w \<Rightarrow> bool \<times> job \<times> 'w" where
  "take_next fs j w =
     (if jb_pending j = [] then (False, j, w)
      else let it = last (jb_pending j); j1 = j\<lparr>jb_pending := butlast (jb_pending j)\<rparr>
        in (True,
            if ji_rmdir_only it then take_rmdir fs it j1 w
            else (case fs_lstat fs (ji_from it) w of
                Inl e \<Rightarrow> (job_fail (failure fs (base_name (ji_from it)) e) j1, w)
              | Inr st \<Rightarrow> if st_type st = FtDir then take_dir fs st it j1 w else take_file fs st it j1 w)))"

section \<open>A slice\<close>

text \<open>A copy that fails: the incomplete file does not stay.\<close>

definition abort_copy :: "'w fs \<Rightarrow> int \<Rightarrow> job \<Rightarrow> 'w \<Rightarrow> job \<times> 'w" where
  "abort_copy fs e j w =
     (let j1 = job_fail (failure fs (jb_current j) e) j;
          w1 = fs_close fs (jb_out j) (fs_close fs (jb_in j) w)
      in (no_current j1, snd (fs_unlink fs (jb_current_to j) w1)))"

partial_function (option) write_all :: "'w fs \<Rightarrow> int \<Rightarrow> bytes \<Rightarrow> 'w \<Rightarrow> (int option \<times> 'w) option" where
  "write_all fs fd data w =
     (if data = [] then Some (None, w)
      else (case fs_write fs fd data w of
          (Inl e, w1) \<Rightarrow> if e = kEINTR then write_all fs fd data w1 else Some (Some e, w1)
        | (Inr n, w1) \<Rightarrow> write_all fs fd (drop n data) w1))"

partial_function (option) copy_loop :: "'w fs \<Rightarrow> nat \<Rightarrow> nat \<Rightarrow> job \<Rightarrow> 'w \<Rightarrow> (job \<times> 'w) option" where
  "copy_loop fs budget moved j w =
     (if \<not> moved < budget then Some (j, w)
      else (case fs_read fs (jb_in j) (min kJobChunk (budget - moved)) w of
          (Inl e, w1) \<Rightarrow> if e = kEINTR then copy_loop fs budget moved j w1 else Some (abort_copy fs e j w1)
        | (Inr data, w1) \<Rightarrow>
            if data = [] then Some (finish_current fs j w1)
            else Option.bind (write_all fs (jb_out j) data w1)
              (\<lambda>r. case fst r of
                 Some e \<Rightarrow> Some (abort_copy fs e j (snd r))
               | None \<Rightarrow> copy_loop fs budget (moved + length data) j (snd r))))"

declare write_all.simps [code] copy_loop.simps [code]

definition job_step :: "'w fs \<Rightarrow> nat \<Rightarrow> job \<Rightarrow> 'w \<Rightarrow> (bool \<times> job \<times> 'w) option" where
  "job_step fs budget j w =
     (if \<not> jb_active j then Some (False, j, w)
      else
        let (more, j1, w1) = (if jb_in j < 0 then take_next fs j w else (True, j, w))
        in if \<not> more then Some (False, j1\<lparr>jb_active := False\<rparr>, w1)
           else if jb_in j1 < 0 then Some (True, j1, w1)
           else map_option (\<lambda>(j2, w2). (True, j2, w2)) (copy_loop fs budget 0 j1 w1))"

text \<open>Slices one after the other, with what the rest of the system does to the files before each.\<close>

fun job_run :: "'w fs \<Rightarrow> nat \<Rightarrow> (nat \<Rightarrow> 'w \<Rightarrow> 'w) \<Rightarrow> nat \<Rightarrow> job \<Rightarrow> 'w \<Rightarrow> (job \<times> 'w) option" where
  "job_run fs budget env 0 j w = Some (j, w)"
| "job_run fs budget env (Suc n) j w =
     (case job_step fs budget j (env 0 w) of
        None \<Rightarrow> None
      | Some (_, j1, w1) \<Rightarrow> job_run fs budget (\<lambda>k. env (Suc k)) n j1 w1)"

end
