(* ===== verification/Files.thy ===== *)
theory Files
  imports Job Width Input Surface
begin

text \<open>
  \<open>src/apps/files/files.cpp\<close>, the file manager: its two panes, navigation with its history, the path
  bar, marks, renaming, creating, the clipboard, the work in progress.  The state of the file system is
  carried along in \<open>fl_disk\<close>; the home directory, which \<open>getpwuid\<close> gives, is an argument.
\<close>

section \<open>State\<close>

datatype files_mode = FmNormal | FmRenaming | FmConfirming | FmCreating

datatype files_cmd =
    CmdOpen | CmdNewDir | CmdNewFile | CmdRename | CmdDelete | CmdCopy | CmdCut | CmdPaste | CmdSelectAll
  | CmdSplit | CmdPlaces | CmdHidden | CmdUp | CmdBack | CmdForward | CmdSortName | CmdSortSize | CmdSortTime | CmdStopJob

record fmenu_item =
  fm_cmd :: files_cmd
  fm_label :: bytes
  fm_keys :: bytes

text \<open>The marked names are a \<open>std::set\<close>, which is walked in the order of the names.\<close>

record pane =
  pn_listing :: dir_listing
  pn_visible :: "dir_entry list"
  pn_filter :: bytes
  pn_status :: bytes
  pn_marked :: "bytes set"
  pn_back :: "bytes list"
  pn_forward :: "bytes list"
  pn_sel :: nat
  pn_top :: nat
  pn_sort_by :: sort_by
  pn_sort_desc :: bool

datatype files_call = FcTitle bytes | FcOpenEditor bytes

record 'w files =
  fl_panes :: "nat \<Rightarrow> pane"
  fl_active :: nat
  fl_split :: bool
  fl_places :: bool
  fl_pressed :: bool
  fl_dragging :: bool
  fl_press_x :: int
  fl_press_y :: int
  fl_drag :: "bytes list"
  fl_menu_open :: bool
  fl_menu_rect :: rect
  fl_menu_shown :: "fmenu_item list"
  fl_show_hidden :: bool
  fl_mode :: files_mode
  fl_edit :: bytes
  fl_creating_dir :: bool
  fl_clipboard :: "bytes list"
  fl_clipboard_cut :: bool
  fl_job :: job
  fl_size :: size
  fl_attached :: bool
  fl_calls :: "files_call list"
  fl_disk :: 'w

definition kPlacesWidth :: int where "kPlacesWidth = 12"

definition pane_init :: "bytes \<Rightarrow> pane" where
  "pane_init path = \<lparr>pn_listing = \<lparr>dl_path = path, dl_entries = [], dl_error = []\<rparr>, pn_visible = [], pn_filter = [],
     pn_status = [], pn_marked = {}, pn_back = [], pn_forward = [], pn_sel = 0, pn_top = 0, pn_sort_by = ByName,
     pn_sort_desc = False\<rparr>"

definition pane_of :: "'w files \<Rightarrow> pane" where
  "pane_of f = fl_panes f (fl_active f)"

definition upd_pane :: "(pane \<Rightarrow> pane) \<Rightarrow> 'w files \<Rightarrow> 'w files" where
  "upd_pane g f = f\<lparr>fl_panes := (fl_panes f)(fl_active f := g (pane_of f))\<rparr>"

definition pn_path :: "pane \<Rightarrow> bytes" where
  "pn_path p = dl_path (pn_listing p)"

definition set_status :: "bytes \<Rightarrow> 'w files \<Rightarrow> 'w files" where
  "set_status s f = upd_pane (\<lambda>p. p\<lparr>pn_status := s\<rparr>) f"

section \<open>Geometry\<close>

definition places :: "bytes option \<Rightarrow> (bytes \<times> bytes) list" where
  "places home =
     [(str ''Racine'', str ''/'')]
     @ (case home of Some d \<Rightarrow> if d \<noteq> [] \<and> hd d = slash then [(str ''Maison'', d)] else [] | None \<Rightarrow> [])
     @ [(str ''Temporaire'', str ''/tmp''), (str ''Etc'', str ''/etc'')]"

definition pane_width :: "'w files \<Rightarrow> int" where
  "pane_width f =
     (let usable = max 1 (sz_w (fl_size f) - (if fl_places f then kPlacesWidth + 1 else 0))
      in if \<not> fl_split f then usable else max 1 (cdiv (usable - 1) 2))"

definition rows_for_list :: "'w files \<Rightarrow> int" where
  "rows_for_list f = max 1 (sz_h (fl_size f) - 3)"

record columns =
  co_name_w :: int
  co_size_x :: int
  co_size_w :: int
  co_date_x :: int
  co_date_w :: int

definition file_columns :: "int \<Rightarrow> columns" where
  "file_columns w =
     (let kSizeW = 9; kDateW = 10; kNameMin = 12
      in if w \<ge> kNameMin + 1 + kSizeW + 1 + kDateW then
           let date_x = w - kDateW; size_x = date_x - 1 - kSizeW
           in \<lparr>co_name_w = size_x - 1, co_size_x = size_x, co_size_w = kSizeW, co_date_x = date_x, co_date_w = kDateW\<rparr>
         else if w \<ge> kNameMin + 1 + kSizeW then
           let size_x = w - kSizeW
           in \<lparr>co_name_w = size_x - 1, co_size_x = size_x, co_size_w = kSizeW, co_date_x = 0, co_date_w = 0\<rparr>
         else \<lparr>co_name_w = w, co_size_x = 0, co_size_w = 0, co_date_x = 0, co_date_w = 0\<rparr>)"

section \<open>Panes\<close>

definition settle_pane :: "nat \<Rightarrow> pane \<Rightarrow> pane" where
  "settle_pane rows p =
     (let n = length (pn_visible p)
      in if n = 0 then p\<lparr>pn_sel := 0, pn_top := 0\<rparr>
         else
           let sel = (if pn_sel p \<ge> n then n - 1 else pn_sel p);
               top1 = (if sel < pn_top p then sel else pn_top p);
               top2 = (if sel \<ge> top1 + rows then sel - rows + 1 else top1);
               top3 = (if top2 + rows > n then (if n > rows then n - rows else 0) else top2)
           in p\<lparr>pn_sel := sel, pn_top := top3\<rparr>)"

definition select_name :: "bytes \<Rightarrow> pane \<Rightarrow> pane" where
  "select_name name p =
     (case find_if (\<lambda>e. de_name e = name) (pn_visible p) of Some i \<Rightarrow> p\<lparr>pn_sel := i\<rparr> | None \<Rightarrow> p)"

definition refilter_pane :: "nat \<Rightarrow> pane \<Rightarrow> pane" where
  "refilter_pane rows p =
     (let kept = (if pn_sel p < length (pn_visible p) then de_name (pn_visible p ! pn_sel p) else []);
          p1 = p\<lparr>pn_visible := sort_entries (pn_sort_by p) (pn_sort_desc p) (filter_entries (dl_entries (pn_listing p)) (pn_filter p))\<rparr>;
          p2 = (if kept \<noteq> [] then select_name kept p1 else p1);
          p3 = (if pn_filter p2 \<noteq> [] \<and> pn_sel p2 < length (pn_visible p2) \<and> de_name (pn_visible p2 ! pn_sel p2) = kParent
                   \<and> length (pn_visible p2) > 1
                then p2\<lparr>pn_sel := 1\<rparr> else p2)
      in settle_pane rows p3)"

definition list_rows :: "'w files \<Rightarrow> nat" where
  "list_rows f = nat (rows_for_list f)"

definition settle_files :: "'w files \<Rightarrow> 'w files" where
  "settle_files f = upd_pane (settle_pane (list_rows f)) f"

definition refilter :: "'w files \<Rightarrow> 'w files" where
  "refilter f = upd_pane (refilter_pane (list_rows f)) f"

definition sort_on :: "sort_by \<Rightarrow> 'w files \<Rightarrow> 'w files" where
  "sort_on k f =
     refilter (upd_pane (\<lambda>p. if pn_sort_by p = k then p\<lparr>pn_sort_desc := \<not> pn_sort_desc p\<rparr>
                              else p\<lparr>pn_sort_by := k, pn_sort_desc := False\<rparr>) f)"

definition reload_pane :: "'w fs \<Rightarrow> 'w files \<Rightarrow> pane \<Rightarrow> pane" where
  "reload_pane fs f p =
     (let l = read_dir fs (fl_disk f) (pn_path p) (fl_show_hidden f)
      in refilter_pane (list_rows f) (p\<lparr>pn_listing := l, pn_status := dl_error l\<rparr>))"

definition reload :: "'w fs \<Rightarrow> 'w files \<Rightarrow> 'w files" where
  "reload fs f =
     (let f1 = upd_pane (\<lambda>p. p\<lparr>pn_marked := {}\<rparr>) f
      in f1\<lparr>fl_panes := (fl_panes f1)(0 := reload_pane fs f1 (fl_panes f1 0), 1 := reload_pane fs f1 (fl_panes f1 1))\<rparr>)"

definition files_init :: "'w fs \<Rightarrow> bytes \<Rightarrow> 'w \<Rightarrow> 'w files" where
  "files_init fs start w =
     reload fs
       \<lparr>fl_panes = (\<lambda>_. pane_init [])(0 := pane_init start), fl_active = 0, fl_split = False, fl_places = False,
        fl_pressed = False, fl_dragging = False, fl_press_x = 0, fl_press_y = 0, fl_drag = [], fl_menu_open = False,
        fl_menu_rect = mk_rect 0 0 0 0, fl_menu_shown = [], fl_show_hidden = False, fl_mode = FmNormal, fl_edit = [],
        fl_creating_dir = True, fl_clipboard = [], fl_clipboard_cut = False, fl_job = job_init,
        fl_size = \<lparr>sz_w = 40, sz_h = 12\<rparr>, fl_attached = False, fl_calls = [], fl_disk = w\<rparr>"

definition files_attach :: "'w files \<Rightarrow> 'w files" where
  "files_attach f = f\<lparr>fl_attached := True, fl_calls := fl_calls f @ [FcTitle (str ''Fichiers'')]\<rparr>"

definition files_resize :: "size \<Rightarrow> 'w files \<Rightarrow> 'w files" where
  "files_resize s f = (if sz_w s \<le> 0 \<or> sz_h s \<le> 0 then f else settle_files (f\<lparr>fl_size := s\<rparr>))"

section \<open>Navigation\<close>

definition child_towards :: "bytes \<Rightarrow> bytes \<Rightarrow> bytes" where
  "child_towards path came_from = takeWhile ((\<noteq>) slash) (dropWhile ((=) slash) (drop (length path) came_from))"

definition files_load :: "'w fs \<Rightarrow> bytes \<Rightarrow> bytes \<Rightarrow> 'w files \<Rightarrow> bool \<times> 'w files" where
  "files_load fs path came_from f =
     (let probe = read_dir fs (fl_disk f) path (fl_show_hidden f)
      in if dl_error probe \<noteq> [] then (False, set_status (dl_error probe) f)
         else
           let f1 = refilter (upd_pane (\<lambda>p. p\<lparr>pn_listing := probe, pn_status := [], pn_filter := [], pn_marked := {},
                      pn_sel := 0, pn_top := 0, pn_visible := []\<rparr>) f)
           in (True,
               if length came_from > length path \<and> take (length path) came_from = path
               then settle_files (upd_pane (select_name (child_towards path came_from)) f1) else f1))"

definition go_to :: "'w fs \<Rightarrow> bytes \<Rightarrow> 'w files \<Rightarrow> 'w files" where
  "go_to fs path f =
     (let here = pn_path (pane_of f)
      in if path = here then f
         else case files_load fs path here f of
             (False, f1) \<Rightarrow> f1
           | (True, f1) \<Rightarrow> upd_pane (\<lambda>p. p\<lparr>pn_back := pn_back p @ [here], pn_forward := []\<rparr>) f1)"

definition go_back :: "'w fs \<Rightarrow> 'w files \<Rightarrow> 'w files" where
  "go_back fs f =
     (if pn_back (pane_of f) = [] then f
      else let here = pn_path (pane_of f)
        in case files_load fs (last (pn_back (pane_of f))) here f of
             (False, f1) \<Rightarrow> f1
           | (True, f1) \<Rightarrow> upd_pane (\<lambda>p. p\<lparr>pn_back := butlast (pn_back p), pn_forward := pn_forward p @ [here]\<rparr>) f1)"

definition go_forward :: "'w fs \<Rightarrow> 'w files \<Rightarrow> 'w files" where
  "go_forward fs f =
     (if pn_forward (pane_of f) = [] then f
      else let here = pn_path (pane_of f)
        in case files_load fs (last (pn_forward (pane_of f))) here f of
             (False, f1) \<Rightarrow> f1
           | (True, f1) \<Rightarrow> upd_pane (\<lambda>p. p\<lparr>pn_forward := butlast (pn_forward p), pn_back := pn_back p @ [here]\<rparr>) f1)"

definition go_up :: "'w fs \<Rightarrow> 'w files \<Rightarrow> 'w files" where
  "go_up fs f =
     (let up = parent_path (pn_path (pane_of f)) in if up = pn_path (pane_of f) then f else go_to fs up f)"

definition activate :: "'w fs \<Rightarrow> 'w files \<Rightarrow> 'w files" where
  "activate fs f =
     (let p = pane_of f
      in if pn_visible p = [] then f
         else
           let e = pn_visible p ! pn_sel p
           in if \<not> is_dir_like e then
                (if \<not> fl_attached f then f
                 else f\<lparr>fl_calls := fl_calls f @ [FcOpenEditor (join_path (pn_path p) (de_name e))]\<rparr>)
              else if de_name e = kParent then go_up fs f
              else go_to fs (join_path (pn_path p) (de_name e)) f)"

section \<open>The path bar\<close>

record segment =
  sg_x :: int
  sg_w :: int
  sg_path :: bytes

function path_names :: "bytes \<Rightarrow> bytes list" where
  "path_names p =
     (let q = dropWhile ((=) slash) p
      in if q = [] then [] else takeWhile ((\<noteq>) slash) q # path_names (dropWhile ((\<noteq>) slash) q))"
  by pat_completeness auto
termination
proof (relation "measure length", simp)
  fix p q :: bytes
  assume q: "q = dropWhile ((=) slash) p" "q \<noteq> []"
  then have "hd q \<noteq> slash" using hd_dropWhile[of "(=) slash" p] by auto
  then have "length (dropWhile ((\<noteq>) slash) q) < length q"
    using q(2) by (cases q) (auto simp: le_imp_less_Suc length_dropWhile_le)
  moreover have "length q \<le> length p" using q(1) length_dropWhile_le by blast
  ultimately show "(dropWhile ((\<noteq>) slash) q, p) \<in> measure length" by auto
qed

declare path_names.simps [simp del]

fun built_segments :: "bytes \<Rightarrow> bytes list \<Rightarrow> segment list" where
  "built_segments built [] = []"
| "built_segments built (n # ns) =
     (let b = built @ slash # n in \<lparr>sg_x = 0, sg_w = int (length n), sg_path = b\<rparr> # built_segments b ns)"

definition segment_cost :: "segment \<Rightarrow> int" where
  "segment_cost s = sg_w s + (if sg_path s = [slash] then 0 else 1)"

fun trim_segments :: "int \<Rightarrow> int \<Rightarrow> segment list \<Rightarrow> segment list" where
  "trim_segments w cost (s # t # ss) = (if cost > w then trim_segments w (cost - segment_cost s) (t # ss) else s # t # ss)"
| "trim_segments w cost ss = ss"

fun place_segments :: "int \<Rightarrow> segment list \<Rightarrow> segment list" where
  "place_segments x [] = []"
| "place_segments x (s # ss) = s\<lparr>sg_x := x\<rparr> # place_segments (x + segment_cost s) ss"

definition path_segments :: "bytes \<Rightarrow> int \<Rightarrow> segment list" where
  "path_segments p w =
     (let all = \<lparr>sg_x = 0, sg_w = 1, sg_path = [slash]\<rparr> # built_segments [] (path_names p);
          kept = trim_segments w (sum_list (map segment_cost all)) all
      in place_segments (if length kept < length all then 1 else 0) kept)"

section \<open>Marks\<close>

definition touchable_selection :: "'w files \<Rightarrow> bytes" where
  "touchable_selection f =
     (let p = pane_of f
      in if pn_visible p = [] then []
         else let name = de_name (pn_visible p ! pn_sel p) in if name = kParent then [] else name)"

definition markable_at :: "pane \<Rightarrow> nat \<Rightarrow> bytes" where
  "markable_at p i =
     (if i \<ge> length (pn_visible p) then []
      else if de_name (pn_visible p ! i) = kParent then [] else de_name (pn_visible p ! i))"

definition toggle_mark :: "nat \<Rightarrow> 'w files \<Rightarrow> 'w files" where
  "toggle_mark i f =
     (let name = markable_at (pane_of f) i
      in if name = [] then f
         else upd_pane (\<lambda>p. p\<lparr>pn_marked := (if name \<in> pn_marked p then pn_marked p - {name} else insert name (pn_marked p))\<rparr>) f)"

definition mark_range :: "nat \<Rightarrow> nat \<Rightarrow> 'w files \<Rightarrow> 'w files" where
  "mark_range a b f =
     upd_pane (\<lambda>p. p\<lparr>pn_marked := pn_marked p
       \<union> set (filter (\<lambda>n. n \<noteq> []) (map (markable_at p) [min a b ..< min (max a b + 1) (length (pn_visible p))]))\<rparr>) f"

definition targets :: "'w files \<Rightarrow> bytes list" where
  "targets f =
     (if pn_marked (pane_of f) \<noteq> {} then sorted_list_of_set (pn_marked (pane_of f))
      else let one = touchable_selection f in if one = [] then [] else [one])"

definition select_all :: "'w files \<Rightarrow> 'w files" where
  "select_all f =
     (if pn_marked (pane_of f) = {}
      then mark_range 0 (if pn_visible (pane_of f) = [] then 0 else length (pn_visible (pane_of f)) - 1) f
      else upd_pane (\<lambda>p. p\<lparr>pn_marked := {}\<rparr>) f)"

end
