(* ===== verification/Files_Input.thy ===== *)
theory Files_Input
  imports Files
begin

text \<open>
  \<open>src/apps/files/files.cpp\<close>, what the user does with files: renaming, creating, the clipboard, deleting,
  the work in progress, the menu, and the two handlers \<open>on_key\<close> and \<open>on_mouse\<close>.
\<close>

section \<open>Acting on files\<close>

definition set_mode_normal :: "'w files \<Rightarrow> 'w files" where
  "set_mode_normal f = f\<lparr>fl_mode := FmNormal\<rparr>"

text \<open>\<open>reload\<close>, and the name just made under the cursor.\<close>

definition reload_on :: "'w fs \<Rightarrow> bytes \<Rightarrow> 'w files \<Rightarrow> 'w files" where
  "reload_on fs name f = settle_files (upd_pane (select_name name) (reload fs f))"

definition commit_rename :: "'w fs \<Rightarrow> 'w files \<Rightarrow> 'w files" where
  "commit_rename fs f =
     (let from = touchable_selection f; f1 = set_mode_normal f; to = fl_edit f
      in if from = [] \<or> to = [] \<or> to = from then f1
         else if slash \<in> set to then set_status (str ''un nom ne peut pas contenir de barre'') f1
         else
           let src = join_path (pn_path (pane_of f)) from; dst = join_path (pn_path (pane_of f)) to
           in case fs_lstat fs dst (fl_disk f) of
                Inr _ \<Rightarrow> set_status (str ''ce nom est deja pris'') f1
              | Inl _ \<Rightarrow>
                  (case fs_rename fs src dst (fl_disk f) of
                     (Some e, w1) \<Rightarrow> set_status (str ''renommage impossible : '' @ fs_strerror fs e) (f1\<lparr>fl_disk := w1\<rparr>)
                   | (None, w1) \<Rightarrow> reload_on fs to (set_status [] (f1\<lparr>fl_disk := w1\<rparr>))))"

definition make_entry :: "'w fs \<Rightarrow> bool \<Rightarrow> bytes \<Rightarrow> 'w \<Rightarrow> int option \<times> 'w" where
  "make_entry fs dir p w =
     (if dir then fs_mkdir fs p 0x1ED w
      else (case fs_create fs p 0x1A4 w of
          (Inl e, w1) \<Rightarrow> (Some e, w1)
        | (Inr fd, w1) \<Rightarrow> (None, fs_close fs fd w1)))"

definition commit_create :: "'w fs \<Rightarrow> 'w files \<Rightarrow> 'w files" where
  "commit_create fs f =
     (let name = fl_edit f; f1 = f\<lparr>fl_mode := FmNormal, fl_edit := []\<rparr>
      in if name = [] then f1
         else if slash \<in> set name \<or> name = str ''.'' \<or> name = kParent then set_status (str ''nom invalide : '' @ name) f1
         else case make_entry fs (fl_creating_dir f) (join_path (pn_path (pane_of f)) name) (fl_disk f) of
                (Some e, w1) \<Rightarrow> set_status (str ''creation impossible : '' @ fs_strerror fs e) (f1\<lparr>fl_disk := w1\<rparr>)
              | (None, w1) \<Rightarrow> reload_on fs name (f1\<lparr>fl_disk := w1\<rparr>))"

definition stop_job :: "'w fs \<Rightarrow> 'w files \<Rightarrow> 'w files" where
  "stop_job fs f =
     (if \<not> jb_active (fl_job f) then f
      else let (j, w) = job_cancel fs (fl_job f) (fl_disk f)
        in set_status (str ''arrete apres '' @ to_string (jb_done (fl_job f)) @ str '' elements'')
             (reload fs (f\<lparr>fl_job := j, fl_disk := w\<rparr>)))"

definition begin_job :: "'w fs \<Rightarrow> bytes list \<Rightarrow> bytes \<Rightarrow> file_op \<Rightarrow> 'w files \<Rightarrow> 'w files" where
  "begin_job fs sources dest kind f =
     (let (j, w) = job_start fs sources dest kind (fl_job f) (fl_disk f) in f\<lparr>fl_job := j, fl_disk := w\<rparr>)"

definition take_clipboard :: "bool \<Rightarrow> 'w files \<Rightarrow> 'w files" where
  "take_clipboard moving f =
     (if targets f = [] then f
      else
        let clip = map (join_path (pn_path (pane_of f))) (targets f)
        in set_status (to_string (int (length clip)) @ (if moving then str '' a deplacer'' else str '' a copier''))
             (f\<lparr>fl_clipboard := clip, fl_clipboard_cut := moving\<rparr>))"

definition paste_clipboard :: "'w fs \<Rightarrow> 'w files \<Rightarrow> 'w files" where
  "paste_clipboard fs f =
     (if jb_active (fl_job f) then f
      else if fl_clipboard f = [] then set_status (str ''rien a coller'') f
      else
        let f1 = begin_job fs (fl_clipboard f) (pn_path (pane_of f)) (if fl_clipboard_cut f then OpMove else OpCopy) f
        in if fl_clipboard_cut f then f1\<lparr>fl_clipboard := []\<rparr> else f1)"

definition commit_delete :: "'w fs \<Rightarrow> 'w files \<Rightarrow> 'w files" where
  "commit_delete fs f =
     (let victims = targets f; f1 = set_mode_normal f
      in if victims = [] \<or> jb_active (fl_job f) then f1
         else begin_job fs (map (join_path (pn_path (pane_of f))) victims) [] OpDelete (set_status [] f1))"

definition files_can_close :: "'w files \<Rightarrow> bytes option" where
  "files_can_close f =
     (if jb_active (fl_job f) then Some (str ''Un travail sur les fichiers est en cours. Fermer quand meme ?'') else None)"

definition files_refresh_ms :: "'w files \<Rightarrow> int" where
  "files_refresh_ms f = (if jb_active (fl_job f) then 10 else - 1)"

text \<open>The end of a job: what is shown is read again, and the failures are told.\<close>

definition read_again :: "'w fs \<Rightarrow> 'w \<Rightarrow> bool \<Rightarrow> pane \<Rightarrow> pane" where
  "read_again fs w hidden p =
     (let probe = read_dir fs w (pn_path p) hidden in if dl_error probe = [] then p\<lparr>pn_listing := probe\<rparr> else p)"

definition job_over :: "'w fs \<Rightarrow> 'w files \<Rightarrow> 'w files" where
  "job_over fs f =
     (let j0 = fl_job f; (j, w) = job_cancel fs j0 (fl_disk f);
          f1 = refilter (f\<lparr>fl_job := j, fl_disk := w,
            fl_panes := (fl_panes f)(0 := read_again fs w (fl_show_hidden f) (fl_panes f 0),
                                     1 := read_again fs w (fl_show_hidden f) (fl_panes f 1))\<rparr>)
      in set_status (if jb_failed j0 > 0
           then to_string (jb_failed j0) @ str '' sur '' @ to_string (jb_done j0 + jb_failed j0) @ str '' ont echoue : '' @ jb_error j0
           else []) f1)"

definition files_refresh :: "'w fs \<Rightarrow> 'w files \<Rightarrow> 'w files option" where
  "files_refresh fs f =
     (if \<not> jb_active (fl_job f) then Some f
      else case job_step fs (1024 * 1024) (fl_job f) (fl_disk f) of
          None \<Rightarrow> None
        | Some (busy, j, w) \<Rightarrow>
            let f1 = f\<lparr>fl_job := j, fl_disk := w\<rparr> in Some (if busy then f1 else job_over fs f1))"

definition toggle_split :: "'w files \<Rightarrow> 'w files" where
  "toggle_split f =
     (if fl_split f
      then f\<lparr>fl_panes := (if fl_active f = 1 then (fl_panes f)(0 := fl_panes f 1) else fl_panes f), fl_active := 0, fl_split := False\<rparr>
      else f\<lparr>fl_panes := (fl_panes f)(1 := (fl_panes f 0)\<lparr>pn_marked := {}\<rparr>), fl_split := True\<rparr>)"

definition toggle_hidden :: "'w fs \<Rightarrow> 'w files \<Rightarrow> 'w files" where
  "toggle_hidden fs f = reload fs (f\<lparr>fl_show_hidden := \<not> fl_show_hidden f\<rparr>)"

definition ask_create :: "bool \<Rightarrow> 'w files \<Rightarrow> 'w files" where
  "ask_create dir f = f\<lparr>fl_creating_dir := dir, fl_edit := [], fl_mode := FmCreating\<rparr>"

definition ask_rename :: "'w files \<Rightarrow> 'w files" where
  "ask_rename f = (if touchable_selection f = [] then f else f\<lparr>fl_edit := touchable_selection f, fl_mode := FmRenaming\<rparr>)"

definition ask_delete :: "'w files \<Rightarrow> 'w files" where
  "ask_delete f = (if targets f = [] then f else f\<lparr>fl_mode := FmConfirming\<rparr>)"

section \<open>The menu\<close>

definition mk_fmenu :: "files_cmd \<Rightarrow> string \<Rightarrow> string \<Rightarrow> fmenu_item" where
  "mk_fmenu c l k = \<lparr>fm_cmd = c, fm_label = str l, fm_keys = str k\<rparr>"

definition files_menu_items :: "'w files \<Rightarrow> fmenu_item list" where
  "files_menu_items f =
     (if jb_active (fl_job f) then [mk_fmenu CmdStopJob ''Arreter le travail'' ''Echap''] else [])
     @ [mk_fmenu CmdOpen ''Ouvrir'' ''Entree'', mk_fmenu CmdNewDir ''Nouveau dossier'' ''F7'',
        mk_fmenu CmdNewFile ''Nouveau fichier'' ''Maj+F7'', mk_fmenu CmdRename ''Renommer'' ''F2'',
        mk_fmenu CmdDelete ''Supprimer'' ''Suppr'', mk_fmenu CmdCopy ''Copier'' ''Ctrl+C'',
        mk_fmenu CmdCut ''Couper'' ''Ctrl+X'', mk_fmenu CmdPaste ''Coller'' ''Ctrl+V'',
        mk_fmenu CmdSelectAll ''Tout selectionner'' ''Ctrl+A'', mk_fmenu CmdUp ''Dossier parent'' ''Ret.arr.'',
        mk_fmenu CmdBack ''Precedent'' ''Alt+gauche'', mk_fmenu CmdForward ''Suivant'' ''Alt+droite'',
        mk_fmenu CmdSplit ''Scinder la vue'' ''F3'', mk_fmenu CmdPlaces ''Raccourcis'' ''F9'',
        mk_fmenu CmdHidden ''Fichiers caches'' ''.'', mk_fmenu CmdSortName ''Trier par nom'' '''',
        mk_fmenu CmdSortSize ''Trier par taille'' '''', mk_fmenu CmdSortTime ''Trier par date'' '''']"

definition open_fmenu :: "bool \<Rightarrow> int \<Rightarrow> int \<Rightarrow> 'w files \<Rightarrow> 'w files" where
  "open_fmenu amb x y f =
     (let shown = files_menu_items f;
          widest = foldl (\<lambda>m it. max m (text_cells amb (fm_label it) + 2 + text_cells amb (fm_keys it))) 0 shown;
          w = min (max 1 (sz_w (fl_size f))) (widest + 4);
          h = min (max 1 (sz_h (fl_size f))) (int (length shown) + 2);
          px = min (max 0 x) (max 0 (sz_w (fl_size f) - w));
          py = min (max 0 y) (max 0 (sz_h (fl_size f) - h))
      in f\<lparr>fl_menu_shown := shown, fl_menu_rect := mk_rect px py w h, fl_menu_open := True\<rparr>)"

definition run_fmenu :: "'w fs \<Rightarrow> files_cmd \<Rightarrow> 'w files \<Rightarrow> 'w files" where
  "run_fmenu fs c f0 =
     (let f = f0\<lparr>fl_menu_open := False\<rparr>
      in case c of
          CmdOpen \<Rightarrow> activate fs f
        | CmdNewDir \<Rightarrow> ask_create True f
        | CmdNewFile \<Rightarrow> ask_create False f
        | CmdRename \<Rightarrow> ask_rename f
        | CmdDelete \<Rightarrow> ask_delete f
        | CmdCopy \<Rightarrow> take_clipboard False f
        | CmdCut \<Rightarrow> take_clipboard True f
        | CmdPaste \<Rightarrow> paste_clipboard fs f
        | CmdSelectAll \<Rightarrow> select_all f
        | CmdUp \<Rightarrow> go_up fs f
        | CmdBack \<Rightarrow> go_back fs f
        | CmdForward \<Rightarrow> go_forward fs f
        | CmdSplit \<Rightarrow> toggle_split f
        | CmdPlaces \<Rightarrow> f\<lparr>fl_places := \<not> fl_places f\<rparr>
        | CmdHidden \<Rightarrow> toggle_hidden fs f
        | CmdSortName \<Rightarrow> sort_on ByName f
        | CmdSortSize \<Rightarrow> sort_on BySize f
        | CmdSortTime \<Rightarrow> sort_on ByTime f
        | CmdStopJob \<Rightarrow> stop_job fs f)"

section \<open>The keyboard\<close>

definition is_ch :: "key_event \<Rightarrow> char32 \<Rightarrow> char32 \<Rightarrow> bool" where
  "is_ch k a b \<longleftrightarrow> k_ch k = a \<or> k_ch k = b"

definition has_mod :: "key_event \<Rightarrow> byte \<Rightarrow> bool" where
  "has_mod k m \<longleftrightarrow> k_mods k AND m \<noteq> 0"

definition entry_key :: "'w fs \<Rightarrow> key_event \<Rightarrow> 'w files \<Rightarrow> 'w files" where
  "entry_key fs k f =
     (case k_key k of
        KEnter \<Rightarrow> if fl_mode f = FmCreating then commit_create fs f else commit_rename fs f
      | KEscape \<Rightarrow> f\<lparr>fl_mode := FmNormal, fl_edit := []\<rparr>
      | KBackspace \<Rightarrow> if fl_edit f \<noteq> [] then f\<lparr>fl_edit := butlast (fl_edit f)\<rparr> else f
      | KChar \<Rightarrow> if k_ch k \<ge> 0x20 then f\<lparr>fl_edit := fl_edit f @ encode_utf8 (k_ch k)\<rparr> else f
      | _ \<Rightarrow> f)"

definition confirm_files :: "'w fs \<Rightarrow> key_event \<Rightarrow> 'w files \<Rightarrow> 'w files" where
  "confirm_files fs k f =
     (if k_key k = KChar \<and> (is_ch k 0x6F 0x4F \<or> is_ch k 0x79 0x59) then commit_delete fs f else set_mode_normal f)"

definition set_sel :: "nat \<Rightarrow> 'w files \<Rightarrow> 'w files" where
  "set_sel i f = settle_files (upd_pane (\<lambda>p. p\<lparr>pn_sel := i\<rparr>) f)"

definition last_row :: "pane \<Rightarrow> nat" where
  "last_row p = (if pn_visible p = [] then 0 else length (pn_visible p) - 1)"

definition move_sel :: "bool \<Rightarrow> (pane \<Rightarrow> nat) \<Rightarrow> 'w files \<Rightarrow> 'w files" where
  "move_sel shift g f =
     (let here = (\<lambda>x. mark_range (pn_sel (pane_of x)) (pn_sel (pane_of x)) x);
          f1 = (if shift then here f else f);
          f2 = upd_pane (\<lambda>p. p\<lparr>pn_sel := g p\<rparr>) f1
      in settle_files (if shift then here f2 else f2))"

definition row_up :: "pane \<Rightarrow> nat" where
  "row_up p = (if pn_sel p > 0 then pn_sel p - 1 else pn_sel p)"

definition row_down :: "pane \<Rightarrow> nat" where
  "row_down p = (if pn_sel p + 1 < length (pn_visible p) then pn_sel p + 1 else pn_sel p)"

definition escape_files :: "'w fs \<Rightarrow> 'w files \<Rightarrow> 'w files" where
  "escape_files fs f =
     (if jb_active (fl_job f) then stop_job fs f
      else if pn_filter (pane_of f) \<noteq> [] then refilter (upd_pane (\<lambda>p. p\<lparr>pn_filter := []\<rparr>) f)
      else upd_pane (\<lambda>p. p\<lparr>pn_marked := {}\<rparr>) f)"

definition char_files :: "'w fs \<Rightarrow> key_event \<Rightarrow> 'w files \<Rightarrow> 'w files" where
  "char_files fs k f =
     (if k_ch k = 0x2E \<and> pn_filter (pane_of f) = [] then toggle_hidden fs f
      else if k_ch k \<ge> 0x20 then refilter (upd_pane (\<lambda>p. p\<lparr>pn_filter := pn_filter p @ encode_utf8 (k_ch k)\<rparr>) f)
      else f)"

definition list_key :: "'w fs \<Rightarrow> key_event \<Rightarrow> 'w files \<Rightarrow> 'w files" where
  "list_key fs k f =
     (case k_key k of
        KUp \<Rightarrow> move_sel (has_mod k mod_Shift) row_up f
      | KDown \<Rightarrow> move_sel (has_mod k mod_Shift) row_down f
      | KPgUp \<Rightarrow> set_sel (if pn_sel (pane_of f) > list_rows f then pn_sel (pane_of f) - list_rows f else 0) f
      | KPgDn \<Rightarrow> set_sel (min (pn_sel (pane_of f) + list_rows f) (last_row (pane_of f))) f
      | KHome \<Rightarrow> set_sel 0 f
      | KEnd \<Rightarrow> set_sel (last_row (pane_of f)) f
      | KEnter \<Rightarrow> activate fs f
      | KF2 \<Rightarrow> ask_rename f
      | KF9 \<Rightarrow> f\<lparr>fl_places := \<not> fl_places f\<rparr>
      | KF3 \<Rightarrow> toggle_split f
      | KTab \<Rightarrow> if fl_split f then f\<lparr>fl_active := 1 - fl_active f\<rparr> else f
      | KF7 \<Rightarrow> ask_create (\<not> has_mod k mod_Shift) f
      | KDelete \<Rightarrow> ask_delete f
      | KEscape \<Rightarrow> escape_files fs f
      | KBackspace \<Rightarrow> if pn_filter (pane_of f) \<noteq> [] then refilter (upd_pane (\<lambda>p. p\<lparr>pn_filter := butlast (pn_filter p)\<rparr>) f)
                       else go_up fs f
      | KChar \<Rightarrow> char_files fs k f
      | _ \<Rightarrow> f)"

definition normal_key :: "'w fs \<Rightarrow> key_event \<Rightarrow> 'w files \<Rightarrow> 'w files" where
  "normal_key fs k f =
     (let ctrl = (k_key k = KChar \<and> has_mod k mod_Ctrl)
      in if ctrl \<and> is_ch k 0x63 0x43 then take_clipboard False f
         else if ctrl \<and> is_ch k 0x78 0x58 then take_clipboard True f
         else if ctrl \<and> is_ch k 0x76 0x56 then paste_clipboard fs f
         else if ctrl \<and> is_ch k 0x61 0x41 then select_all f
         else if k_key k = KChar \<and> k_ch k = 0x20 \<and> pn_filter (pane_of f) = [] then
           settle_files (upd_pane (\<lambda>p. p\<lparr>pn_sel := row_down p\<rparr>) (toggle_mark (pn_sel (pane_of f)) f))
         else if has_mod k mod_Alt \<and> k_key k = KLeft then go_back fs f
         else if has_mod k mod_Alt \<and> k_key k = KRight then go_forward fs f
         else list_key fs k f)"

definition files_key :: "'w fs \<Rightarrow> key_event \<Rightarrow> 'w files \<Rightarrow> 'w files" where
  "files_key fs k f =
     (if fl_menu_open f then (if k_key k = KEscape then f\<lparr>fl_menu_open := False\<rparr> else f)
      else case fl_mode f of
          FmRenaming \<Rightarrow> entry_key fs k f
        | FmCreating \<Rightarrow> entry_key fs k f
        | FmConfirming \<Rightarrow> confirm_files fs k f
        | FmNormal \<Rightarrow> normal_key fs k f)"

section \<open>The mouse\<close>

definition drop_target :: "int \<Rightarrow> bytes list \<Rightarrow> 'w files \<Rightarrow> bytes" where
  "drop_target y sources f =
     (let p = pane_of f; row = y - 2; hit = pn_top p + nat row; here = pn_path p
      in if row \<ge> 0 \<and> hit < length (pn_visible p) \<and> de_kind (pn_visible p ! hit) = EkDir then
           (if de_name (pn_visible p ! hit) = kParent then parent_path here
            else let target = join_path here (de_name (pn_visible p ! hit))
              in if target \<in> set sources then [] else target)
         else if list_ex (\<lambda>s. parent_path s = here) sources then [] else here)"

definition fmenu_mouse :: "'w fs \<Rightarrow> mouse_event \<Rightarrow> 'w files \<Rightarrow> 'w files" where
  "fmenu_mouse fs m f =
     (let r = fl_menu_rect f; row = m_y m - ry r - 1
      in if m_action m \<noteq> Press then f
         else if m_x m > rx r \<and> m_x m < rx r + rw r - 1 \<and> row \<ge> 0 \<and> nat row < length (fl_menu_shown f) \<and> row < rh r - 2
         then run_fmenu fs (fm_cmd (fl_menu_shown f ! nat row)) f
         else f\<lparr>fl_menu_open := False\<rparr>)"

text \<open>Which pane a click is for: the column inside it and the manager with that pane in charge, or
  nothing when it is on the partition.\<close>

definition pane_under :: "int \<Rightarrow> 'w files \<Rightarrow> (int \<times> 'w files) option" where
  "pane_under x f =
     (if \<not> fl_split f then Some (x, f)
      else if x > pane_width f then Some (x - pane_width f - 1, f\<lparr>fl_active := 1\<rparr>)
      else if x < pane_width f then Some (x, f\<lparr>fl_active := 0\<rparr>)
      else None)"

definition drag_motion :: "mouse_event \<Rightarrow> 'w files \<Rightarrow> 'w files" where
  "drag_motion m f =
     (if (m_x m \<noteq> fl_press_x f \<or> m_y m \<noteq> fl_press_y f) \<and> \<not> fl_dragging f
      then f\<lparr>fl_drag := map (join_path (pn_path (pane_of f))) (targets f), fl_dragging := targets f \<noteq> []\<rparr>
      else f)"

definition drag_release :: "'w fs \<Rightarrow> int \<Rightarrow> 'w files \<Rightarrow> 'w files" where
  "drag_release fs y f =
     (let taken = fl_drag f; f1 = f\<lparr>fl_pressed := False, fl_dragging := False, fl_drag := []\<rparr>
      in if \<not> fl_dragging f \<or> taken = [] then f1
         else let dest = drop_target y taken f1
           in if dest = [] \<or> jb_active (fl_job f1) then f1 else begin_job fs taken dest OpMove f1)"

definition header_click :: "int \<Rightarrow> 'w files \<Rightarrow> 'w files" where
  "header_click x f =
     (let c = file_columns (pane_width f)
      in if co_date_w c > 0 \<and> x \<ge> co_date_x c then sort_on ByTime f
         else if co_size_w c > 0 \<and> x \<ge> co_size_x c then sort_on BySize f
         else sort_on ByName f)"

definition bar_path_click :: "'w fs \<Rightarrow> int \<Rightarrow> 'w files \<Rightarrow> 'w files" where
  "bar_path_click fs x f =
     (case List.find (\<lambda>s. \<not> (x < sg_x s \<or> x \<ge> sg_x s + sg_w s)) (path_segments (pn_path (pane_of f)) (pane_width f)) of
        None \<Rightarrow> f
      | Some s \<Rightarrow> go_to fs (sg_path s) f)"

definition list_click :: "bool \<Rightarrow> 'w fs \<Rightarrow> mouse_event \<Rightarrow> 'w files \<Rightarrow> 'w files" where
  "list_click amb fs m f =
     (let p = pane_of f; row = m_y m - 2; in_list = (row \<ge> 0 \<and> nat row < list_rows f);
          hit = (if in_list then pn_top p + nat row else length (pn_visible p))
      in if m_button m = 2 then
           open_fmenu amb (m_x m) (m_y m) (if hit < length (pn_visible p) then set_sel hit f else f)
         else if \<not> in_list \<or> hit \<ge> length (pn_visible p) then f
         else if m_mods m AND mod_Ctrl \<noteq> 0 then set_sel hit (toggle_mark hit f)
         else if m_mods m AND mod_Shift \<noteq> 0 then set_sel hit (mark_range (pn_sel p) hit f)
         else
           let f1 = f\<lparr>fl_pressed := True, fl_press_x := m_x m, fl_press_y := m_y m\<rparr>
           in if hit = pn_sel p then activate fs f1 else set_sel hit f1)"

definition pane_mouse :: "bool \<Rightarrow> 'w fs \<Rightarrow> mouse_event \<Rightarrow> int \<Rightarrow> 'w files \<Rightarrow> 'w files" where
  "pane_mouse amb fs m x f =
     (if fl_pressed f \<and> m_action m = Motion then drag_motion m f
      else (case m_action m of
          Release \<Rightarrow> drag_release fs (m_y m) f
        | WheelUp \<Rightarrow> set_sel (if pn_sel (pane_of f) > 3 then pn_sel (pane_of f) - 3 else 0) f
        | WheelDown \<Rightarrow> set_sel (min (pn_sel (pane_of f) + 3) (last_row (pane_of f))) f
        | Motion \<Rightarrow> f
        | Press \<Rightarrow>
            if m_y m = 0 then bar_path_click fs x f
            else if m_y m = 1 then header_click x f
            else list_click amb fs m f))"

definition files_mouse :: "bool \<Rightarrow> 'w fs \<Rightarrow> bytes option \<Rightarrow> mouse_event \<Rightarrow> 'w files \<Rightarrow> 'w files" where
  "files_mouse amb fs home m f =
     (if fl_menu_open f then fmenu_mouse fs m f
      else if fl_places f \<and> m_x m < kPlacesWidth then
        (let row = m_y m - 2
         in if m_action m = Press \<and> row \<ge> 0 \<and> nat row < length (places home)
            then go_to fs (snd (places home ! nat row)) f else f)
      else if fl_places f \<and> m_x m = kPlacesWidth then f
      else (case pane_under (if fl_places f then m_x m - kPlacesWidth - 1 else m_x m) f of
          None \<Rightarrow> f
        | Some (x, f1) \<Rightarrow> pane_mouse amb fs m x f1))"

definition files_wants_cursor :: "'w files \<Rightarrow> (int \<times> int) option" where
  "files_wants_cursor f =
     (let p = pane_of f
      in if pn_visible p = [] then None
         else Some ((if fl_places f then kPlacesWidth + 1 else 0)
               + (if fl_split f \<and> fl_active f = 1 then pane_width f + 1 else 0),
             2 + int (pn_sel p - pn_top p)))"

section \<open>Events\<close>

text \<open>What can happen to the file manager; between two events others change the files.\<close>

datatype 'w fevent =
    FeKey key_event
  | FeMouse mouse_event
  | FeResize size
  | FeRefresh
  | FeWorld "'w \<Rightarrow> 'w"

fun files_on :: "bool \<Rightarrow> 'w fs \<Rightarrow> bytes option \<Rightarrow> 'w files \<Rightarrow> 'w fevent \<Rightarrow> 'w files option" where
  "files_on amb fs home f (FeKey k) = Some (files_key fs k f)"
| "files_on amb fs home f (FeMouse m) = Some (files_mouse amb fs home m f)"
| "files_on amb fs home f (FeResize s) = Some (files_resize s f)"
| "files_on amb fs home f FeRefresh = files_refresh fs f"
| "files_on amb fs home f (FeWorld g) = Some (f\<lparr>fl_disk := g (fl_disk f)\<rparr>)"

text \<open>A run of events that all return.\<close>

fun files_run :: "bool \<Rightarrow> 'w fs \<Rightarrow> bytes option \<Rightarrow> 'w files \<Rightarrow> 'w fevent list \<Rightarrow> 'w files option" where
  "files_run amb fs home f [] = Some f"
| "files_run amb fs home f (e # es) =
     (case files_on amb fs home f e of None \<Rightarrow> None | Some f1 \<Rightarrow> files_run amb fs home f1 es)"

end
