(* ===== verification/Job_Run.thy ===== *)
theory Job_Run
  imports Job
begin

text \<open>
  What running a job of \<open>src/apps/files/job.cpp\<close> does: it ends, and a copy leaves alone what was there.
  What it relies on of the kernel is a hypothesis each time; \<open>mem_fs\<close>, a file system in memory, shows
  that the hypotheses hold together.
\<close>

section \<open>Jobs end\<close>

text \<open>
  What is documented of the file system: a path of \<open>PATH_MAX\<close> bytes or more is refused, the names of a
  directory are not empty; and, for a copy, what is left to read of an open file goes down with each
  read that gives bytes or is interrupted, an interrupted write is not interrupted for ever, a write
  takes something.  \<open>apart\<close> says that two descriptors are of different files: \<open>O_EXCL\<close> gives a file that
  none had, reading keeps files what they are, and writing the one does not lengthen the other.
\<close>

definition paths_bounded :: "'w fs \<Rightarrow> bool" where
  "paths_bounded fs \<longleftrightarrow> (\<forall>p w. 4096 \<le> length p \<longrightarrow> (\<exists>e. fs_lstat fs p w = Inl e))"

definition names_proper :: "'w fs \<Rightarrow> bool" where
  "names_proper fs \<longleftrightarrow> (\<forall>p w ents. fs_readdir fs p w = Inr ents \<longrightarrow> (\<forall>e \<in> set ents. fst e \<noteq> []))"

definition files_end :: "'w fs \<Rightarrow> (int \<Rightarrow> 'w \<Rightarrow> nat) \<Rightarrow> ('w \<Rightarrow> nat) \<Rightarrow> (int \<Rightarrow> int \<Rightarrow> 'w \<Rightarrow> bool) \<Rightarrow> bool" where
  "files_end fs left signals apart \<longleftrightarrow>
     (\<forall>p q m i w r w1 w2. fs_open_read fs p w = (Inr i, w1) \<longrightarrow> fs_create fs q m w1 = (Inr r, w2) \<longrightarrow> apart i r w2)
     \<and> (\<forall>fd n w r w'. fs_read fs fd n w = (r, w') \<longrightarrow>
          (0 < n \<longrightarrow> r = Inl kEINTR \<or> (\<exists>d. r = Inr d \<and> d \<noteq> []) \<longrightarrow> left fd w' < left fd w) \<and> (\<forall>i k. apart i k w \<longrightarrow> apart i k w'))
     \<and> (\<forall>fd d w r w'. fs_write fs fd d w = (r, w') \<longrightarrow> d \<noteq> [] \<longrightarrow>
          (\<forall>i. apart i fd w \<longrightarrow> apart i fd w' \<and> left i w' \<le> left i w)
          \<and> (r = Inl kEINTR \<longrightarrow> signals w' < signals w) \<and> (\<forall>n. r = Inr n \<longrightarrow> 0 < n))"

lemma write_all_ends:
  assumes "files_end fs left signals apart" "apart i fd w"
  shows "\<exists>r w'. write_all fs fd data w = Some (r, w') \<and> apart i fd w' \<and> left i w' \<le> left i w"
  using assms(2)
proof (induction "length data" arbitrary: data w rule: less_induct)
  case outer: less
  show ?case using outer(2)
  proof (induction "signals w" arbitrary: w rule: less_induct)
    case (less w)
    show ?case
    proof (cases "data = []")
      case True
      then show ?thesis using less(2) by (subst write_all.simps) simp
    next
      case False
      obtain r w1 where r: "fs_write fs fd data w = (r, w1)" by fastforce
      have laws: "left i w1 \<le> left i w" "apart i fd w1" "r = Inl kEINTR \<Longrightarrow> signals w1 < signals w" "r = Inr n \<Longrightarrow> 0 < n" for n
        using assms(1) less(2) r False unfolding files_end_def by blast+
      show ?thesis
      proof (cases r)
        case (Inl e)
        show ?thesis
        proof (cases "e = kEINTR")
          case True
          from less(1)[OF laws(3) laws(2)] Inl True obtain r' w' where
            "write_all fs fd data w1 = Some (r', w')" "apart i fd w'" "left i w' \<le> left i w1" by blast
          then show ?thesis using False r Inl True laws(1) by (subst write_all.simps) (auto intro: le_trans)
        qed (use False r Inl laws(1,2) in \<open>subst write_all.simps, simp\<close>)
      next
        case (Inr n)
        from outer(1)[of "drop n data" w1] laws(2) laws(4)[OF Inr] False obtain r' w' where
          "write_all fs fd (drop n data) w1 = Some (r', w')" "apart i fd w'" "left i w' \<le> left i w1" by auto
        then show ?thesis using False r Inr laws(1) by (subst write_all.simps) (auto intro: le_trans)
      qed
    qed
  qed
qed

text \<open>What a slice of a copy leaves alone, and how it progresses.\<close>

definition slice_ok :: "(int \<Rightarrow> 'w \<Rightarrow> nat) \<Rightarrow> (int \<Rightarrow> int \<Rightarrow> 'w \<Rightarrow> bool) \<Rightarrow> bool \<Rightarrow> job \<Rightarrow> 'w \<Rightarrow> job \<Rightarrow> 'w \<Rightarrow> bool" where
  "slice_ok left apart strict j w j' w' \<longleftrightarrow>
     jb_pending j' = jb_pending j \<and> jb_kind j' = jb_kind j \<and> jb_active j' = jb_active j
     \<and> (jb_in j' < 0 \<or> jb_in j' = jb_in j \<and> apart (jb_in j') (jb_out j') w'
          \<and> (if strict then left (jb_in j) w' < left (jb_in j) w else left (jb_in j) w' \<le> left (jb_in j) w))"

lemma slice_abort: "slice_ok left apart s j w (fst (abort_copy fs e j w1)) (snd (abort_copy fs e j w1))"
  by (simp add: slice_ok_def abort_copy_def no_current_def job_fail_def Let_def)

lemma slice_finish: "slice_ok left apart s j w (fst (finish_current fs j w1)) (snd (finish_current fs j w1))"
  by (simp add: slice_ok_def finish_current_def no_current_def Let_def)

lemma slice_step: "slice_ok left apart False j w1 j' w' \<Longrightarrow> left (jb_in j) w1 < left (jb_in j) w \<Longrightarrow> slice_ok left apart s j w j' w'"
  by (auto simp: slice_ok_def)

lemma slice_weak: "slice_ok left apart True j w j' w' \<Longrightarrow> slice_ok left apart False j w j' w'"
  by (auto simp: slice_ok_def)

lemma copy_loop_ends:
  assumes "files_end fs left signals apart" "apart (jb_in j) (jb_out j) w"
  shows "\<exists>j' w'. copy_loop fs budget moved j w = Some (j', w') \<and> slice_ok left apart (moved < budget) j w j' w'"
  using assms(2)
proof (induction "left (jb_in j) w" arbitrary: moved w rule: less_induct)
  case (less w)
  show ?case
  proof (cases "moved < budget")
    case False
    then show ?thesis using less(2) by (subst copy_loop.simps) (simp add: slice_ok_def)
  next
    case True
    let ?n = "min kJobChunk (budget - moved)"
    obtain r w1 where r: "fs_read fs (jb_in j) ?n w = (r, w1)" by fastforce
    have n: "0 < ?n" using True by (simp add: kJobChunk_def)
    have dec: "left (jb_in j) w1 < left (jb_in j) w" if "r = Inl kEINTR \<or> (\<exists>d. r = Inr d \<and> d \<noteq> [])"
      using assms(1) r n that unfolding files_end_def by blast
    have ap: "apart (jb_in j) (jb_out j) w1" using assms(1) r less(2) unfolding files_end_def by blast
    have again: "\<exists>j' w'. copy_loop fs budget m j w2 = Some (j', w') \<and> slice_ok left apart True j w j' w'"
      if smaller: "left (jb_in j) w2 < left (jb_in j) w" and ap2: "apart (jb_in j) (jb_out j) w2" for m w2
    proof -
      obtain j' w' where c: "copy_loop fs budget m j w2 = Some (j', w')" "slice_ok left apart (m < budget) j w2 j' w'"
        using less(1)[OF smaller ap2, of m] by blast
      have "slice_ok left apart False j w2 j' w'" using c(2) slice_weak by (cases "m < budget") auto
      then show ?thesis using c(1) slice_step[where left=left and apart=apart] smaller by blast
    qed
    show ?thesis
    proof (cases r)
      case (Inl e)
      then show ?thesis
      proof (cases "e = kEINTR")
        case eintr: True
        then obtain j' w' where "copy_loop fs budget moved j w1 = Some (j', w')" "slice_ok left apart True j w j' w'"
          using again[OF dec ap] Inl by blast
        then show ?thesis using True r Inl eintr by (subst copy_loop.simps) simp
      next
        case False
        then show ?thesis using True r Inl slice_abort[of left apart True j w fs e w1]
          by (subst copy_loop.simps) (simp, metis prod.collapse)
      qed
    next
      case (Inr data)
      show ?thesis
      proof (cases "data = []")
        case nil: True
        then show ?thesis using True r Inr slice_finish[of left apart True j w fs w1]
          by (subst copy_loop.simps) (simp, metis prod.collapse)
      next
        case some: False
        obtain r2 w2 where w2: "write_all fs (jb_out j) data w1 = Some (r2, w2)" "apart (jb_in j) (jb_out j) w2"
          "left (jb_in j) w2 \<le> left (jb_in j) w1"
          using write_all_ends[OF assms(1) ap] by blast
        have lt: "left (jb_in j) w2 < left (jb_in j) w" using dec Inr some w2(3) by fastforce
        show ?thesis
        proof (cases r2)
          case None
          obtain j' w' where "copy_loop fs budget (moved + length data) j w2 = Some (j', w')" "slice_ok left apart True j w j' w'"
            using again[OF lt w2(2)] by blast
          then show ?thesis using True r Inr some w2(1) None by (subst copy_loop.simps) simp
        next
          case (Some e)
          then show ?thesis using True r Inr some w2(1) slice_abort[of left apart True j w fs e w2]
            by (subst copy_loop.simps) (simp, metis prod.collapse)
        qed
      qed
    qed
  qed
qed

text \<open>The weight of an element of the stack: what it is replaced by weighs less.\<close>

definition item_rank :: "job_item \<Rightarrow> nat" where
  "item_rank it = (if ji_rmdir_only it then 0 else Suc (4096 - length (ji_from it)))"

definition lighter :: "job_item \<Rightarrow> job \<Rightarrow> job \<Rightarrow> bool" where
  "lighter it j j' \<longleftrightarrow>
     (\<exists>cs. jb_pending j' = jb_pending j @ cs \<and> (\<forall>c \<in> set cs. item_rank c < item_rank it))
     \<and> jb_kind j' = jb_kind j \<and> jb_active j' = jb_active j \<and> (jb_kind j = OpDelete \<longrightarrow> jb_in j' = jb_in j)"

lemma lighter_same:
  assumes "jb_pending j' = jb_pending j" "jb_kind j' = jb_kind j" "jb_active j' = jb_active j"
    "jb_kind j = OpDelete \<longrightarrow> jb_in j' = jb_in j"
  shows "lighter it j j'"
  using assms by (auto simp: lighter_def)

lemma join_path_longer: "n \<noteq> [] \<Longrightarrow> length d < length (join_path d n)"
  by (auto simp: join_path_def)

lemma child_items_lighter:
  assumes "\<forall>e \<in> set ents. fst e \<noteq> []" "length (ji_from it) < 4096" "\<not> ji_rmdir_only it" "c \<in> set (child_items k it ents)"
  shows "item_rank c < item_rank it"
proof -
  obtain e where "e \<in> set ents" "ji_from c = join_path (ji_from it) (fst e)" "\<not> ji_rmdir_only c"
    using assms(4) by (auto simp: child_items_def)
  then show ?thesis using assms(1-3) join_path_longer[of "fst e" "ji_from it"] by (auto simp: item_rank_def)
qed

lemma open_dir_lighter:
  assumes "names_proper fs" "length (ji_from it) < 4096" "\<not> ji_rmdir_only it"
  shows "lighter it j (fst (open_dir fs it j w))"
proof -
  have m: "item_rank \<lparr>ji_from = ji_from it, ji_to = [], ji_rmdir_only = True\<rparr> < item_rank it"
    using assms(3) by (simp add: item_rank_def)
  show ?thesis
  proof (cases "fs_readdir fs (ji_from it) w")
    case (Inl e)
    then show ?thesis using m by (auto simp: lighter_def open_dir_def job_fail_def Let_def)
  next
    case (Inr ents)
    then have "\<forall>e \<in> set ents. fst e \<noteq> []" using assms(1) by (auto simp: names_proper_def)
    then show ?thesis using m Inr child_items_lighter[OF _ assms(2,3)]
      by (auto simp: lighter_def open_dir_def Let_def)
  qed
qed

lemma take_dir_lighter:
  assumes "names_proper fs" "length (ji_from it) < 4096" "\<not> ji_rmdir_only it"
  shows "lighter it j (fst (take_dir fs st it j w))"
  using open_dir_lighter[OF assms]
  by (auto simp: take_dir_def job_fail_def intro!: lighter_same split: prod.split option.split)

lemma take_file_lighter: "lighter it j (fst (take_file fs st it j w))"
  by (rule lighter_same)
     (auto simp: take_file_def open_copy_def job_fail_def split: file_op.split prod.split option.split sum.split)

lemma take_next_lighter:
  assumes "paths_bounded fs" "names_proper fs" "jb_pending j \<noteq> []"
  shows "lighter (last (jb_pending j)) (j\<lparr>jb_pending := butlast (jb_pending j)\<rparr>) (fst (snd (take_next fs j w)))"
proof -
  let ?it = "last (jb_pending j)"
  have l: "length (ji_from ?it) < 4096" if "fs_lstat fs (ji_from ?it) w = Inr st" for st
    using assms(1) that unfolding paths_bounded_def by (metis Inl_Inr_False not_le)
  have f: "lighter ?it j1 (job_fail m j1)" for m j1 by (rule lighter_same) (simp_all add: job_fail_def)
  have r: "lighter ?it j1 (fst (take_rmdir fs it j1 w))" for it j1
    by (rule lighter_same) (auto simp: take_rmdir_def job_fail_def split: prod.split option.split)
  show ?thesis using assms(3) l take_dir_lighter[OF assms(2)] take_file_lighter f r
    by (auto simp: take_next_def Let_def split: sum.split)
qed

definition job_weight :: "(int \<Rightarrow> 'w \<Rightarrow> nat) \<Rightarrow> job \<Rightarrow> 'w \<Rightarrow> nat multiset \<times> nat" where
  "job_weight left j w = (mset (map item_rank (jb_pending j)), if jb_in j < 0 then 0 else Suc (left (jb_in j) w))"

definition weight_order :: "((nat multiset \<times> nat) \<times> (nat multiset \<times> nat)) set" where
  "weight_order = mult less_than <*lex*> less_than"

lemma weight_order_wf: "wf weight_order"
  unfolding weight_order_def by (intro wf_lex_prod wf_mult) simp_all

lemma lighter_weight:
  assumes "lighter (last (jb_pending j)) (j\<lparr>jb_pending := butlast (jb_pending j)\<rparr>) j'" "jb_pending j \<noteq> []"
  shows "(job_weight left j' w', job_weight left j w) \<in> weight_order"
proof -
  let ?it = "last (jb_pending j)" and ?rest = "mset (map item_rank (butlast (jb_pending j)))"
  obtain cs where cs: "jb_pending j' = butlast (jb_pending j) @ cs" "\<forall>c \<in> set cs. item_rank c < item_rank ?it"
    using assms(1) by (auto simp: lighter_def)
  have p: "jb_pending j = butlast (jb_pending j) @ [?it]" using assms(2) by simp
  have "mset (map item_rank (jb_pending j)) = ?rest + {#item_rank ?it#}"
    by (subst p) simp
  moreover have "mset (map item_rank (jb_pending j')) = ?rest + mset (map item_rank cs)" using cs(1) by simp
  moreover have "(?rest + mset (map item_rank cs), ?rest + {#item_rank ?it#}) \<in> mult less_than"
    by (rule one_step_implies_mult) (use cs(2) in auto)
  ultimately show ?thesis by (simp add: job_weight_def weight_order_def)
qed

text \<open>A file that is opened is opened apart from the one it is copied to.\<close>

lemma take_next_apart:
  assumes "files_end fs left signals apart" "jb_in j < 0"
  shows "jb_in (fst (snd (take_next fs j w))) < 0
    \<or> apart (jb_in (fst (snd (take_next fs j w)))) (jb_out (fst (snd (take_next fs j w)))) (snd (snd (take_next fs j w)))"
proof -
  have o: "jb_in (fst (open_copy fs st it j1 w)) < 0
      \<or> apart (jb_in (fst (open_copy fs st it j1 w))) (jb_out (fst (open_copy fs st it j1 w))) (snd (open_copy fs st it j1 w))"
    if "jb_in j1 < 0" for st it j1 w
    using assms(1) that unfolding files_end_def
    by (auto simp: open_copy_def job_fail_def split: prod.split sum.split)
  have d: "jb_in (fst (open_dir fs it j1 w)) = jb_in j1" for it j1 w
    by (auto simp: open_dir_def job_fail_def Let_def split: sum.split)
  show ?thesis using assms(2) o d
    by (auto simp: take_next_def take_rmdir_def take_dir_def take_file_def job_fail_def Let_def
        split: prod.split option.split sum.split file_op.split)
qed

text \<open>Either only a deletion, which opens no file, or files that come to an end.\<close>

definition job_bounded :: "'w fs \<Rightarrow> (int \<Rightarrow> 'w \<Rightarrow> nat) \<Rightarrow> ('w \<Rightarrow> nat) \<Rightarrow> (int \<Rightarrow> int \<Rightarrow> 'w \<Rightarrow> bool) \<Rightarrow> job \<Rightarrow> 'w \<Rightarrow> bool" where
  "job_bounded fs left signals apart j w \<longleftrightarrow>
     jb_kind j = OpDelete \<and> jb_in j < 0
     \<or> files_end fs left signals apart \<and> (jb_in j < 0 \<or> apart (jb_in j) (jb_out j) w)"

lemma job_step_progress:
  assumes "0 < budget" "paths_bounded fs" "names_proper fs" "job_bounded fs left signals apart j w" "jb_active j"
  shows "\<exists>b j' w'. job_step fs budget j w = Some (b, j', w') \<and>
    (\<not> jb_active j' \<or> job_bounded fs left signals apart j' w' \<and> (job_weight left j' w', job_weight left j w) \<in> weight_order)"
proof (cases "jb_in j < 0 \<and> jb_pending j = []")
  case True
  then show ?thesis using assms(5) by (auto simp: job_step_def take_next_def)
next
  case notdone: False
  obtain b j1 w1 where n: "(if jb_in j < 0 then take_next fs j w else (True, j, w)) = (b, j1, w1)" by (metis prod_cases3)
  have b: "b" using n notdone by (auto simp: take_next_def Let_def split: if_splits)
  have l: "lighter (last (jb_pending j)) (j\<lparr>jb_pending := butlast (jb_pending j)\<rparr>) j1 \<and> jb_pending j \<noteq> []" if "jb_in j < 0"
    using n that notdone take_next_lighter[OF assms(2,3), of j w] by simp
  have same: "j1 = j" "w1 = w" if "\<not> jb_in j < 0" using n that by auto
  have ap: "jb_in j1 < 0 \<or> apart (jb_in j1) (jb_out j1) w1" if "jb_in j < 0" "files_end fs left signals apart"
    using take_next_apart[OF that(2,1), of w] n that(1) by simp
  have b1: "job_bounded fs left signals apart j1 w1"
    using assms(4) l same ap by (cases "jb_in j < 0") (auto simp: job_bounded_def lighter_def)
  show ?thesis
  proof (cases "jb_in j1 < 0")
    case True
    then have lt: "jb_in j < 0" using same by (cases "jb_in j < 0") auto
    have "job_step fs budget j w = Some (True, j1, w1)" using assms(5) n b True by (simp add: job_step_def)
    then show ?thesis using lighter_weight[of j j1 left w1 w] l[OF lt] b1 by auto
  next
    case False
    then have fe: "files_end fs left signals apart" "apart (jb_in j1) (jb_out j1) w1" using b1 by (auto simp: job_bounded_def)
    obtain j2 w2 where c: "copy_loop fs budget 0 j1 w1 = Some (j2, w2)" "slice_ok left apart True j1 w1 j2 w2"
      using copy_loop_ends[OF fe, of budget 0] assms(1) by auto
    have s: "job_step fs budget j w = Some (True, j2, w2)" using assms(5) n b False c(1) by (simp add: job_step_def)
    have b2: "job_bounded fs left signals apart j2 w2" using fe(1) c(2) by (auto simp: job_bounded_def slice_ok_def)
    have "(job_weight left j2 w2, job_weight left j w) \<in> weight_order"
    proof (cases "jb_in j < 0")
      case True
      have "jb_pending j2 = jb_pending j1" "jb_kind j2 = jb_kind j1" "jb_active j2 = jb_active j1"
        using c(2) by (auto simp: slice_ok_def)
      moreover have "jb_kind j \<noteq> OpDelete" using l[OF True] True False by (auto simp: lighter_def)
      ultimately have "lighter (last (jb_pending j)) (j\<lparr>jb_pending := butlast (jb_pending j)\<rparr>) j2"
        using l[OF True] by (simp add: lighter_def)
      then show ?thesis using lighter_weight[of j j2 left w2 w] l[OF True] by blast
    next
      case pos: False
      then show ?thesis using c(2) same by (auto simp: slice_ok_def job_weight_def weight_order_def)
    qed
    then show ?thesis using s b2 by blast
  qed
qed

text \<open>Nobody lengthens a file that is being read, nor makes one file of two that are open.\<close>

definition env_patient :: "(int \<Rightarrow> 'w \<Rightarrow> nat) \<Rightarrow> (int \<Rightarrow> int \<Rightarrow> 'w \<Rightarrow> bool) \<Rightarrow> (nat \<Rightarrow> 'w \<Rightarrow> 'w) \<Rightarrow> bool" where
  "env_patient left apart env \<longleftrightarrow>
     (\<forall>k i w. left i (env k w) \<le> left i w) \<and> (\<forall>k i r w. apart i r w \<longrightarrow> apart i r (env k w))"

lemma job_run_ends:
  assumes "0 < budget" "paths_bounded fs" "names_proper fs" "job_bounded fs left signals apart j w"
    "env_patient left apart env"
  shows "\<exists>n j' w'. job_run fs budget env n j w = Some (j', w') \<and> \<not> jb_active j'"
  using assms(4,5)
proof (induction "job_weight left j w" arbitrary: j w env rule: wf_induct_rule[OF weight_order_wf])
  case (1 j w)
  show ?case
  proof (cases "jb_active j")
    case False
    then show ?thesis by (intro exI[of _ 0]) simp
  next
    case True
    have "job_bounded fs left signals apart j (env 0 w)"
      using "1.prems" by (auto simp: job_bounded_def env_patient_def)
    then obtain b j1 w1 where s: "job_step fs budget j (env 0 w) = Some (b, j1, w1)"
      and p: "\<not> jb_active j1 \<or> job_bounded fs left signals apart j1 w1 \<and> (job_weight left j1 w1, job_weight left j (env 0 w)) \<in> weight_order"
      using job_step_progress[OF assms(1-3) _ True] by blast
    show ?thesis
    proof (cases "jb_active j1")
      case False
      then show ?thesis using s by (intro exI[of _ 1] exI[of _ j1] exI[of _ w1]) simp
    next
      case True
      have "left (jb_in j) (env 0 w) \<le> left (jb_in j) w" using "1.prems"(2) by (simp add: env_patient_def)
      then have "(job_weight left j1 w1, job_weight left j w) \<in> weight_order"
        using p True by (auto simp: job_weight_def weight_order_def)
      moreover have "env_patient left apart (\<lambda>k. env (Suc k))" using "1.prems"(2) by (simp add: env_patient_def)
      ultimately obtain n j' w' where
        "job_run fs budget (\<lambda>k. env (Suc k)) n j1 w1 = Some (j', w')" "\<not> jb_active j'"
        using "1.hyps" p True by blast
      then show ?thesis using s by (intro exI[of _ "Suc n"] exI[of _ j'] exI[of _ w']) simp
    qed
  qed
qed

section \<open>A copy leaves what was there\<close>

text \<open>
  What is documented of the calls a copy makes.  \<open>content\<close> is what a path holds, \<open>alias\<close> the paths that
  lead where it leads, \<open>target\<close> the path a descriptor was created under.  \<open>O_EXCL\<close> refuses a path that
  leads to something.
\<close>

definition files_alone :: "'w fs \<Rightarrow> (bytes \<Rightarrow> 'w \<Rightarrow> bytes option) \<Rightarrow> (bytes \<Rightarrow> bytes set) \<Rightarrow> (int \<Rightarrow> 'w \<Rightarrow> bytes) \<Rightarrow> bool" where
  "files_alone fs content alias target \<longleftrightarrow>
     (\<forall>p m w q. content q (snd (fs_mkdir fs p m w)) = content q w)
     \<and> (\<forall>p w q. content q (snd (fs_rmdir fs p w)) = content q w)
     \<and> (\<forall>p w q. content q (snd (fs_open_read fs p w)) = content q w)
     \<and> (\<forall>fd n w q i. content q (snd (fs_read fs fd n w)) = content q w \<and> target i (snd (fs_read fs fd n w)) = target i w)
     \<and> (\<forall>fd w q. content q (fs_close fs fd w) = content q w)
     \<and> (\<forall>p m w r w'. fs_create fs p m w = (r, w') \<longrightarrow>
          (case r of Inl _ \<Rightarrow> \<forall>q. content q w' = content q w
           | Inr fd \<Rightarrow> target fd w' = p \<and> (\<forall>q \<in> alias p. content q w = None) \<and> (\<forall>q. q \<notin> alias p \<longrightarrow> content q w' = content q w)))
     \<and> (\<forall>fd d w q i. target i (snd (fs_write fs fd d w)) = target i w
          \<and> (q \<notin> alias (target fd w) \<longrightarrow> content q (snd (fs_write fs fd d w)) = content q w))
     \<and> (\<forall>p w q. q \<notin> alias p \<longrightarrow> content q (snd (fs_unlink fs p w)) = content q w)"

text \<open>Whatever was there is there, and the file being written leads to none of it.\<close>

definition copy_safe ::
  "(bytes \<Rightarrow> 'w \<Rightarrow> bytes option) \<Rightarrow> (bytes \<Rightarrow> bytes set) \<Rightarrow> (int \<Rightarrow> 'w \<Rightarrow> bytes) \<Rightarrow> 'w \<Rightarrow> job \<Rightarrow> 'w \<Rightarrow> bool" where
  "copy_safe content alias target w0 j w \<longleftrightarrow>
     jb_kind j = OpCopy
     \<and> (\<forall>q. content q w0 \<noteq> None \<longrightarrow> content q w = content q w0)
     \<and> (jb_in j \<ge> 0 \<longrightarrow> target (jb_out j) w = jb_current_to j \<and> (\<forall>q \<in> alias (jb_current_to j). content q w0 = None))"

lemma files_aloneD:
  assumes "files_alone fs content alias target"
  shows "content q (snd (fs_mkdir fs p m w)) = content q w"
    "content q (snd (fs_open_read fs p w)) = content q w"
    "content q (snd (fs_read fs fd n w)) = content q w" "target i (snd (fs_read fs fd n w)) = target i w"
    "content q (fs_close fs fd w) = content q w"
    "target i (snd (fs_write fs fd d w)) = target i w"
    "q \<notin> alias (target fd w) \<Longrightarrow> content q (snd (fs_write fs fd d w)) = content q w"
    "q \<notin> alias p \<Longrightarrow> content q (snd (fs_unlink fs p w)) = content q w"
    "content q (snd (fs_rmdir fs p w)) = content q w"
  using assms unfolding files_alone_def by simp_all

lemma files_alone_create:
  assumes "files_alone fs content alias target" "fs_create fs p m w = (r, w')"
  shows "case r of Inl _ \<Rightarrow> content q w' = content q w
    | Inr fd \<Rightarrow> target fd w' = p \<and> (q \<in> alias p \<longrightarrow> content q w = None) \<and> (q \<notin> alias p \<longrightarrow> content q w' = content q w)"
  using assms unfolding files_alone_def by (cases r) fastforce+

lemma write_all_safe:
  assumes "write_all fs fd d w = Some (r, w')" "files_alone fs content alias target"
  shows "(\<forall>i. target i w' = target i w) \<and> (\<forall>q. q \<notin> alias (target fd w) \<longrightarrow> content q w' = content q w)"
proof -
  have "case rw of (r, w') \<Rightarrow> files_alone fs content alias target \<longrightarrow>
      (\<forall>i. target i w' = target i w) \<and> (\<forall>q. q \<notin> alias (target fd w) \<longrightarrow> content q w' = content q w)"
    if "write_all fs fd d w = Some rw" for rw
  proof (rule write_all.raw_induct[OF _ that], goal_cases)
    case (1 f fs fd d w rw)
    obtain a w1 where a: "fs_write fs fd d w = (a, w1)" by fastforce
    have f: "target i w1 = target i w" "q \<notin> alias (target fd w) \<Longrightarrow> content q w1 = content q w"
      if "files_alone fs content alias target" for i q
      using files_aloneD(6,7)[OF that] a by (metis snd_conv)+
    show ?case
    proof (cases "d = []")
      case False
      then show ?thesis using 1 a f by (cases a) (fastforce split: if_split_asm)+
    qed (use 1(2) in auto)
  qed
  from this[OF assms(1)] assms(2) show ?thesis by simp
qed

lemma copy_safe_weak:
  "copy_safe content alias target w0 j w \<Longrightarrow> jb_kind j = OpCopy" "copy_safe content alias target w0 j w \<Longrightarrow> content q w0 \<noteq> None \<Longrightarrow> content q w = content q w0"
  by (simp_all add: copy_safe_def)

lemma copy_safe_idle:
  assumes "copy_safe content alias target w0 j w" "jb_kind j' = OpCopy" "jb_in j' < 0" "\<And>q. content q w0 \<noteq> None \<Longrightarrow> content q w' = content q w"
  shows "copy_safe content alias target w0 j' w'"
  using assms by (auto simp: copy_safe_def)

lemma open_dir_world [simp]: "snd (open_dir fs it j w) = w" "jb_kind (fst (open_dir fs it j w)) = jb_kind j"
  "jb_in (fst (open_dir fs it j w)) = jb_in j"
  by (auto simp: open_dir_def job_fail_def Let_def split: sum.split)

lemma take_dir_safe:
  assumes "files_alone fs content alias target" "jb_kind j = OpCopy" "take_dir fs st it j w = (j', w')"
  shows "jb_kind j' = OpCopy \<and> jb_in j' = jb_in j \<and> content q w' = content q w"
proof -
  obtain r w1 where r: "fs_mkdir fs (ji_to it) (st_mode st AND 0xFFF) w = (r, w1)" by fastforce
  have c: "content q w1 = content q w" using files_aloneD(1)[OF assms(1)] r by (metis snd_conv)
  have o1: "open_dir fs it j w1 = (a, b) \<Longrightarrow> jb_kind a = OpCopy \<and> jb_in a = jb_in j \<and> b = w1" for a b
    using open_dir_world[of fs it j w1] assms(2) by simp
  show ?thesis using assms(2,3) r c o1 by (auto simp: take_dir_def job_fail_def split: option.splits if_splits)
qed

lemma open_copy_safe:
  assumes "files_alone fs content alias target" "copy_safe content alias target w0 j w" "jb_in j < 0"
  shows "copy_safe content alias target w0 (fst (open_copy fs st it j w)) (snd (open_copy fs st it j w))"
proof -
  obtain r w1 where r: "fs_open_read fs (ji_from it) w = (r, w1)" by fastforce
  have c1: "content q w1 = content q w" for q using files_aloneD(2)[OF assms(1)] r by (metis snd_conv)
  note k = copy_safe_weak(1)[OF assms(2)]
  show ?thesis
  proof (cases r)
    case (Inl e)
    then show ?thesis using r c1 k assms(3) by (auto simp: open_copy_def job_fail_def intro!: copy_safe_idle[OF assms(2)])
  next
    case (Inr i)
    obtain o1 w2 where o: "fs_create fs (ji_to it) (st_mode st AND 0xFFF) w1 = (o1, w2)" by fastforce
    note c2 = files_alone_create[OF assms(1) o]
    show ?thesis
    proof (cases o1)
      case Inl': (Inl e)
      have e: "open_copy fs st it j w = (job_fail (failure fs (base_name (ji_to it)) e) j, fs_close fs i w2)"
        using r o Inr Inl' by (simp add: open_copy_def)
      have c: "content q (fs_close fs i w2) = content q w" for q
        using c1[of q] c2[of q] Inl' files_aloneD(5)[OF assms(1), of q i w2] by simp
      show ?thesis unfolding e using c k assms(3) by (intro copy_safe_idle[OF assms(2)]) (simp_all add: job_fail_def)
    next
      case Inr': (Inr fd)
      have q: "q \<notin> alias (ji_to it) \<and> content q w2 = content q w0" if "content q w0 \<noteq> None" for q
        using c1[of q] c2[of q] copy_safe_weak(2)[OF assms(2) that] that Inr' by auto
      then have q': "\<forall>q \<in> alias (ji_to it). content q w0 = None" by blast
      have "target fd w2 = ji_to it" using c2 Inr' by simp
      moreover have "open_copy fs st it j w = (j\<lparr>jb_in := i, jb_out := fd, jb_current := base_name (ji_from it),
          jb_current_from := ji_from it, jb_current_to := ji_to it\<rparr>, w2)"
        using r o Inr Inr' by (simp add: open_copy_def)
      ultimately show ?thesis using k q q' by (auto simp: copy_safe_def)
    qed
  qed
qed

lemma take_next_safe:
  assumes "files_alone fs content alias target" "copy_safe content alias target w0 j w" "jb_in j < 0"
  shows "copy_safe content alias target w0 (fst (snd (take_next fs j w))) (snd (snd (take_next fs j w)))"
proof (cases "jb_pending j = []")
  case True
  then show ?thesis using assms(2) by (simp add: take_next_def)
next
  case False
  let ?j = "j\<lparr>jb_pending := butlast (jb_pending j)\<rparr>" and ?it = "last (jb_pending j)"
  have k: "jb_kind j = OpCopy" using assms(2) by (simp add: copy_safe_def)
  have s: "copy_safe content alias target w0 ?j w" using assms(2) by (simp add: copy_safe_def)
  show ?thesis
  proof (cases "ji_rmdir_only ?it")
    case True
    obtain r w1 where r: "fs_rmdir fs (ji_from ?it) w = (r, w1)" by fastforce
    have c: "content q w1 = content q w" for q using files_aloneD(9)[OF assms(1)] r by (metis snd_conv)
    show ?thesis using True False r c k assms(3)
      by (auto simp: take_next_def Let_def take_rmdir_def job_fail_def intro!: copy_safe_idle[OF s] split: option.split)
  next
    case no: False
    show ?thesis
    proof (cases "fs_lstat fs (ji_from ?it) w")
      case (Inl e)
      then show ?thesis using False no s assms(3) k by (auto simp: take_next_def Let_def job_fail_def intro!: copy_safe_idle[OF s])
    next
      case (Inr st)
      obtain a b where d: "take_dir fs st ?it ?j w = (a, b)" by fastforce
      have "copy_safe content alias target w0 a b"
        using take_dir_safe[OF assms(1) _ d] k assms(3) by (intro copy_safe_idle[OF s]) auto
      then show ?thesis using False no Inr open_copy_safe[OF assms(1) s] assms(3) k d
        by (auto simp: take_next_def Let_def take_file_def)
    qed
  qed
qed

lemma copy_loop_safe:
  assumes "copy_loop fs budget moved j w = Some (j', w')" "files_alone fs content alias target"
    "copy_safe content alias target w0 j w" "jb_in j \<ge> 0"
  shows "copy_safe content alias target w0 j' w'"
proof -
  have "files_alone fs content alias target \<longrightarrow> copy_safe content alias target w0 j w \<longrightarrow> jb_in j \<ge> 0 \<longrightarrow>
      copy_safe content alias target w0 (fst jw) (snd jw)"
    if "copy_loop fs budget moved j w = Some jw" for jw
  proof (rule copy_loop.raw_induct[OF _ that], goal_cases)
    case (1 f fs budget moved j w jw)
    note ih = 1(1) and body = 1(2)
    show ?case
    proof (intro impI)
      assume l: "files_alone fs content alias target" and s: "copy_safe content alias target w0 j w" and i: "jb_in j \<ge> 0"
      have k: "jb_kind j = OpCopy" using s by (simp add: copy_safe_def)
      obtain r w1 where r: "fs_read fs (jb_in j) (min kJobChunk (budget - moved)) w = (r, w1)" by fastforce
      have "content q w1 = content q w" "target a w1 = target a w" for q a using files_aloneD(3,4)[OF l] r by (metis snd_conv)+
      then have s1: "copy_safe content alias target w0 j w1" using s by (simp add: copy_safe_def)
      have ab: "copy_safe content alias target w0 (fst (abort_copy fs e j w2)) (snd (abort_copy fs e j w2))"
        if "copy_safe content alias target w0 j w2" for e w2
        by (rule copy_safe_idle[OF that])
           (use that i k in \<open>auto simp: abort_copy_def no_current_def job_fail_def Let_def copy_safe_def files_aloneD(5)[OF l]
              intro!: trans[OF files_aloneD(8)[OF l]]\<close>)
      have fin: "copy_safe content alias target w0 (fst (finish_current fs j w1)) (snd (finish_current fs j w1))"
        by (rule copy_safe_idle[OF s1])
           (use k in \<open>auto simp: finish_current_def close_both_def no_current_def Let_def files_aloneD(5)[OF l]\<close>)
      have wr: "copy_safe content alias target w0 j w2" if "write_all fs (jb_out j) d w1 = Some (a, w2)" for d a w2
      proof -
        have "q \<notin> alias (target (jb_out j) w1)" if "content q w0 \<noteq> None" for q
          using s1 i that by (auto simp: copy_safe_def)
        then show ?thesis using s1 write_all_safe[OF that l] by (auto simp: copy_safe_def)
      qed
      show "copy_safe content alias target w0 (fst jw) (snd jw)"
      proof (cases "moved < budget")
        case False
        then show ?thesis using body s by auto
      next
        case True
        show ?thesis
        proof (cases r)
          case (Inl e)
          then show ?thesis using body r True ih[of fs budget moved j w1 jw] l s1 i ab[OF s1, of e]
            by (auto split: if_split_asm)
        next
          case (Inr d)
          then show ?thesis
          proof (cases "d = []")
            case True
            then show ?thesis using body r Inr \<open>moved < budget\<close> fin by auto
          next
            case False
            then obtain a w2 where w2: "write_all fs (jb_out j) d w1 = Some (a, w2)"
              using body r Inr \<open>moved < budget\<close> by (auto simp: Option.bind_eq_Some_conv)
            then show ?thesis using body r Inr \<open>moved < budget\<close> False ih[of fs budget "moved + length d" j w2 jw] l wr[OF w2] i ab[OF wr[OF w2]]
              by (auto split: option.splits)
          qed
        qed
      qed
    qed
  qed
  from this[OF assms(1)] assms(2-4) show ?thesis by simp
qed

lemma job_step_safe:
  assumes "files_alone fs content alias target" "copy_safe content alias target w0 j w" "job_step fs budget j w = Some (b, j', w')"
  shows "copy_safe content alias target w0 j' w'"
proof -
  obtain more j1 w1 where n: "(if jb_in j < 0 then take_next fs j w else (True, j, w)) = (more, j1, w1)" by (metis prod_cases3)
  have s: "copy_safe content alias target w0 j1 w1"
    using n take_next_safe[OF assms(1,2)] assms(2) by (auto split: if_split_asm)
  have d: "copy_safe content alias target w0 (j1\<lparr>jb_active := a\<rparr>) w1" for a using s by (simp add: copy_safe_def)
  show ?thesis using assms(2,3) n s d copy_loop_safe[OF _ assms(1) s]
    by (auto simp: job_step_def split: if_split_asm)
qed

lemma job_run_safe:
  "files_alone fs content alias target \<Longrightarrow> copy_safe content alias target w0 j w \<Longrightarrow>
    job_run fs budget (\<lambda>_ w. w) n j w = Some (j', w') \<Longrightarrow> copy_safe content alias target w0 j' w'"
proof (induction n arbitrary: j w)
  case (Suc n)
  obtain b j1 w1 where s: "job_step fs budget j w = Some (b, j1, w1)" using Suc.prems(3) by (auto split: option.splits)
  show ?case using Suc.IH[OF Suc.prems(1) job_step_safe[OF Suc.prems(1,2) s]] Suc.prems(3) s by simp
qed simp

section \<open>A file system in memory\<close>

text \<open>What the hypotheses above ask for, as a concrete world: paths and what they hold, open descriptors.\<close>

datatype mem_node = MemDir | MemFile bytes

record mem =
  mem_nodes :: "(bytes \<times> mem_node) list"
  mem_open :: "int \<Rightarrow> bytes \<times> nat"
  mem_next :: nat

definition mem_put :: "bytes \<Rightarrow> mem_node \<Rightarrow> mem \<Rightarrow> mem" where
  "mem_put p x m = m\<lparr>mem_nodes := (p, x) # filter (\<lambda>y. fst y \<noteq> p) (mem_nodes m)\<rparr>"

definition mem_del :: "bytes \<Rightarrow> mem \<Rightarrow> mem" where
  "mem_del p m = m\<lparr>mem_nodes := filter (\<lambda>y. fst y \<noteq> p) (mem_nodes m)\<rparr>"

definition mem_fd :: "bytes \<Rightarrow> mem \<Rightarrow> (int + int) \<times> mem" where
  "mem_fd p m = (Inr (int (mem_next m)), m\<lparr>mem_open := (mem_open m)(int (mem_next m) := (p, 0)), mem_next := mem_next m + 1\<rparr>)"

definition mem_stat :: "bytes \<Rightarrow> mem \<Rightarrow> int + file_stat" where
  "mem_stat p m =
     (if 4096 \<le> length p then Inl 36
      else case map_of (mem_nodes m) p of
          None \<Rightarrow> Inl 2
        | Some MemDir \<Rightarrow> Inr \<lparr>st_type = FtDir, st_mode = 493, st_size = 0, st_mtime = 0\<rparr>
        | Some (MemFile d) \<Rightarrow> Inr \<lparr>st_type = FtReg, st_mode = 420, st_size = int (length d), st_mtime = 0\<rparr>)"

definition mem_readdir :: "bytes \<Rightarrow> mem \<Rightarrow> int + (bytes \<times> dirent_type) list" where
  "mem_readdir p m =
     Inr (map (\<lambda>y. (base_name (fst y), DtUnknown))
       (filter (\<lambda>y. parent_path (fst y) = p \<and> base_name (fst y) \<noteq> []) (mem_nodes m)))"

definition mem_fs :: "mem fs" where
  "mem_fs =
     \<lparr>fs_lstat = mem_stat, fs_stat = mem_stat, fs_readdir = mem_readdir, fs_readlink = (\<lambda>_ _ _. Inl 22),
      fs_mkdir = (\<lambda>p _ m. if map_of (mem_nodes m) p = None then (None, mem_put p MemDir m) else (Some kEEXIST, m)),
      fs_rmdir = (\<lambda>p m. if map_of (mem_nodes m) p \<noteq> Some MemDir then (Some 20, m)
          else if list_ex (\<lambda>y. parent_path (fst y) = p \<and> fst y \<noteq> p) (mem_nodes m) then (Some 39, m) else (None, mem_del p m)),
      fs_unlink = (\<lambda>p m. case map_of (mem_nodes m) p of Some (MemFile _) \<Rightarrow> (None, mem_del p m) | _ \<Rightarrow> (Some 2, m)),
      fs_rename = (\<lambda>p q m. case map_of (mem_nodes m) p of
          Some x \<Rightarrow> (None, mem_put q x (mem_del p m)) | None \<Rightarrow> (Some 2, m)),
      fs_open_read = (\<lambda>p m. case map_of (mem_nodes m) p of Some (MemFile _) \<Rightarrow> mem_fd p m | _ \<Rightarrow> (Inl 2, m)),
      fs_create = (\<lambda>p _ m. if map_of (mem_nodes m) p = None then mem_fd p (mem_put p (MemFile []) m) else (Inl kEEXIST, m)),
      fs_read = (\<lambda>fd n m. case mem_open m fd of (p, k) \<Rightarrow>
          (case map_of (mem_nodes m) p of
             Some (MemFile d) \<Rightarrow> (Inr (take n (drop k d)), m\<lparr>mem_open := (mem_open m)(fd := (p, k + n))\<rparr>)
           | _ \<Rightarrow> (Inl 9, m))),
      fs_write = (\<lambda>fd d m. case mem_open m fd of (p, k) \<Rightarrow>
          (case map_of (mem_nodes m) p of
             Some (MemFile e) \<Rightarrow> (Inr (length d), mem_put p (MemFile (e @ d)) m)
           | _ \<Rightarrow> (Inl 9, m))),
      fs_close = (\<lambda>_ m. m), fs_strerror = (\<lambda>_. str ''erreur'')\<rparr>"

definition mem_content :: "bytes \<Rightarrow> mem \<Rightarrow> bytes option" where
  "mem_content p m = (case map_of (mem_nodes m) p of Some (MemFile d) \<Rightarrow> Some d | _ \<Rightarrow> None)"

lemma mem_paths_bounded: "paths_bounded mem_fs"
  by (simp add: paths_bounded_def mem_fs_def mem_stat_def)

lemma mem_names_proper: "names_proper mem_fs"
  by (auto simp: names_proper_def mem_fs_def mem_readdir_def)

text \<open>What is left of an open file in memory, and two descriptors of different files.\<close>

definition mem_left :: "int \<Rightarrow> mem \<Rightarrow> nat" where
  "mem_left fd m = (case mem_open m fd of (p, k) \<Rightarrow> (case map_of (mem_nodes m) p of Some (MemFile d) \<Rightarrow> length d - k | _ \<Rightarrow> 0))"

definition mem_apart :: "int \<Rightarrow> int \<Rightarrow> mem \<Rightarrow> bool" where
  "mem_apart i k m \<longleftrightarrow> fst (mem_open m i) \<noteq> fst (mem_open m k)"

lemma map_of_filter_ne: "map_of (filter (\<lambda>y. fst y \<noteq> p) xs) q = (if q = p then None else map_of xs q)"
  by (induction xs) auto

lemma mem_put_of [simp]: "map_of (mem_nodes (mem_put p x m)) q = (if q = p then Some x else map_of (mem_nodes m) q)"
  by (simp add: mem_put_def map_of_filter_ne)

lemma mem_del_of [simp]: "map_of (mem_nodes (mem_del p m)) q = (if q = p then None else map_of (mem_nodes m) q)"
  by (simp add: mem_del_def map_of_filter_ne)

lemma mem_open_same [simp]: "mem_open (mem_put p x m) = mem_open m" "mem_open (mem_del p m) = mem_open m"
  "mem_next (mem_put p x m) = mem_next m"
  by (simp_all add: mem_put_def mem_del_def)

lemma mem_files_end: "files_end mem_fs mem_left (\<lambda>_. 0) mem_apart"
  unfolding files_end_def
  by (intro conjI allI impI)
     (auto simp: mem_fs_def mem_fd_def mem_left_def mem_apart_def kEINTR_def kEEXIST_def split: prod.splits option.splits mem_node.splits if_splits)

lemma mem_files_alone: "files_alone mem_fs mem_content (\<lambda>p. {p}) (\<lambda>fd m. fst (mem_open m fd))"
  unfolding files_alone_def
  by (intro conjI allI impI)
     (auto simp: mem_fs_def mem_content_def mem_fd_def split: prod.splits option.splits mem_node.splits if_splits)

text \<open>A directory copied into itself, in memory: \<open>/d\<close>, \<open>/d/d\<close>, \<open>/d/d/d\<close> and so on.\<close>

definition nested :: "nat \<Rightarrow> bytes" where
  "nested k = concat (replicate k [slash, 0x64])"

definition mem_nested :: "nat \<Rightarrow> mem" where
  "mem_nested n = \<lparr>mem_nodes = map (\<lambda>k. (nested k, MemDir)) (rev [1..<n + 1]), mem_open = (\<lambda>_. ([], 0)), mem_next = 0\<rparr>"

lemma nested_length [simp]: "length (nested k) = 2 * k"
  by (induction k) (simp_all add: nested_def)

lemma nested_Suc: "nested (Suc k) = nested k @ slash # [0x64]"
  by (induction k) (simp_all add: nested_def)

lemma nested_inject [simp]: "nested a = nested b \<longleftrightarrow> a = b"
  by (metis nested_length mult_cancel1 zero_neq_numeral)

lemma nested_parts:
  "strip_slashes (nested (Suc k)) = nested (Suc k)" "base_name (nested (Suc k)) = [0x64]"
  "parent_path (nested (Suc (Suc k))) = nested (Suc k)" "parent_path (nested (Suc 0)) = [slash]"
  "join_path (nested (Suc k)) [0x64] = nested (Suc (Suc k))"
proof -
  show s: "strip_slashes (nested (Suc k)) = nested (Suc k)" for k
    by (rule strip_slashes_done) (simp add: nested_Suc slash_def)
  have r: "rfind_byte slash (nested (Suc k)) = Some (2 * k)" for k
    using rfind_here[of slash "[0x64]" "nested k"] by (simp add: nested_Suc slash_def)
  show "base_name (nested (Suc k)) = [0x64]"
    unfolding base_name_def s Let_def r by (simp add: nested_Suc)
  show "parent_path (nested (Suc (Suc k))) = nested (Suc k)" "parent_path (nested (Suc 0)) = [slash]"
    unfolding parent_path_def s Let_def r by (simp_all add: nested_Suc[of "Suc k"])
  show "join_path (nested (Suc k)) [0x64] = nested (Suc (Suc k))"
    by (simp add: join_path_def nested_Suc[of "Suc k"]) (simp add: nested_Suc slash_def)
qed

lemma mem_nested_of: "map_of (mem_nodes (mem_nested n)) (nested k) = (if 1 \<le> k \<and> k \<le> n then Some MemDir else None)"
proof (induction n)
  case (Suc n)
  have "mem_nodes (mem_nested (Suc n)) = (nested (Suc n), MemDir) # mem_nodes (mem_nested n)"
    by (simp add: mem_nested_def)
  then show ?case using Suc by (auto simp: le_Suc_eq)
qed (simp add: mem_nested_def)

lemma mem_nested_put: "mem_put (nested (Suc n)) MemDir (mem_nested n) = mem_nested (Suc n)"
  by (auto simp: mem_put_def mem_nested_def filter_id_conv)

lemma mem_nested_children:
  "mem_readdir (nested (Suc n)) (mem_nested (Suc (Suc n))) = Inr [([0x64], DtUnknown)]"
proof -
  have p: "parent_path (nested k) = nested (Suc n) \<longleftrightarrow> k = Suc (Suc n)" if "1 \<le> k" for k
  proof (cases "k = 1")
    case True
    have "length [slash] \<noteq> length (nested (Suc n))" by simp
    then have "[slash] \<noteq> nested (Suc n)" by metis
    then show ?thesis using True nested_parts(4) by simp
  next
    case False
    then have k: "k = Suc (Suc (k - 2))" using that by simp
    show ?thesis by (subst k, subst nested_parts) (use that False in \<open>auto simp: nested_inject\<close>)
  qed
  have b: "base_name (nested k) \<noteq> []" if "1 \<le> k" for k
    using that nested_parts(2)[of "k - 1"] by simp
  have e: "mem_nodes (mem_nested (Suc (Suc n))) = (nested (Suc (Suc n)), MemDir) # map (\<lambda>k. (nested k, MemDir)) (rev [1..<Suc (Suc n)])"
    by (simp add: mem_nested_def)
  have f: "filter (\<lambda>y. parent_path (fst y) = nested (Suc n) \<and> base_name (fst y) \<noteq> [])
      (map (\<lambda>k. (nested k, MemDir)) (rev [1..<Suc (Suc n)])) = []"
    using p by (auto simp: filter_empty_conv)
  show ?thesis unfolding mem_readdir_def e using f p[of "Suc (Suc n)"] by (simp add: nested_parts)
qed

definition nesting :: "nat \<Rightarrow> job \<Rightarrow> bool" where
  "nesting n j \<longleftrightarrow> jb_active j \<and> jb_kind j = OpCopy \<and> jb_in j < 0
     \<and> jb_pending j = [\<lparr>ji_from = nested (Suc n), ji_to = nested (Suc (Suc n)), ji_rmdir_only = False\<rparr>]"

lemma nesting_step:
  assumes "nesting n j" "n < 2047"
  shows "\<exists>j'. job_step mem_fs budget j (mem_nested (Suc n)) = Some (True, j', mem_nested (Suc (Suc n))) \<and> nesting (Suc n) j'"
proof -
  have st: "mem_stat (nested (Suc n)) (mem_nested (Suc n)) = Inr \<lparr>st_type = FtDir, st_mode = 493, st_size = 0, st_mtime = 0\<rparr>"
    using assms(2) by (simp add: mem_stat_def mem_nested_of)
  show ?thesis using assms(1) st mem_nested_children[of n] mem_nested_put[of "Suc n"]
    by (simp add: job_step_def nesting_def take_next_def take_dir_def open_dir_def mem_fs_def mem_nested_of child_items_def
        nested_parts kParent_def str_def Let_def)
qed

lemma nesting_run:
  "nesting k j \<Longrightarrow> k + n < 2047 \<Longrightarrow>
    \<exists>j'. job_run mem_fs budget (\<lambda>_ w. w) n j (mem_nested (Suc k)) = Some (j', mem_nested (Suc (k + n))) \<and> nesting (k + n) j'"
proof (induction n arbitrary: k j)
  case (Suc n)
  obtain j1 where "job_step mem_fs budget j (mem_nested (Suc k)) = Some (True, j1, mem_nested (Suc (Suc k)))" "nesting (Suc k) j1"
    using nesting_step[OF Suc.prems(1)] Suc.prems(2) by fastforce
  then show ?case using Suc.IH[of "Suc k" j1] Suc.prems(2) by simp
qed simp

section \<open>Properties\<close>

text \<open>
  C7.  Every job ends: whatever is asked to be copied, moved or deleted and whatever the tree, even a
  copy of a directory into itself, there is a number of slices after which the job is no longer active.
  For a deletion this holds whatever the other programs of the system do between two slices, and takes
  only that paths have a maximal length and directories no empty name.  For a copy and a move it
  takes also that what a descriptor has still to give (bytes, and interruptions of a read) is finite
  and shrinks with each read, that a write takes something or is interrupted, and interrupted finitely
  often, that a file made with \<open>O_EXCL\<close> is not the one being read, so that writing it does not lengthen
  that one, and that no other program lengthens a file between two slices.
\<close>

theorem job_ends:
  assumes "0 < budget" "paths_bounded fs" "names_proper fs"
    and "kind = OpDelete \<or> files_end fs left signals apart \<and> env_patient left apart env"
    and "job_start fs sources dest kind j0 w0 = (j, w)"
  shows "\<exists>n j' w'. job_run fs budget env n j w = Some (j', w') \<and> \<not> jb_active j'"
proof (cases "kind = OpDelete")
  case True
  then have "jb_kind j = OpDelete" "jb_in j < 0" using assms(5) by (auto simp: job_start_def job_cancel_def Let_def)
  then show ?thesis
    using job_run_ends[OF assms(1-3), where left = "\<lambda>_ _. 0" and apart = "\<lambda>_ _ _. True" and signals = "\<lambda>_. 0"]
    by (simp add: job_bounded_def env_patient_def)
next
  case False
  then have "job_bounded fs left signals apart j w"
    using assms(4,5) by (auto simp: job_bounded_def job_start_def job_cancel_def Let_def)
  then show ?thesis using job_run_ends[OF assms(1-3)] assms(4) False by blast
qed

theorem job_ends_witness:
  "\<exists>n j' w'. job_run mem_fs 1 (\<lambda>_ m. m) n
      (fst (job_start mem_fs [str ''/a/f''] (str ''/b'') OpCopy job_init (mem_put (str ''/a/f'') (MemFile [1, 2, 3]) (mem_nested 3))))
      (snd (job_start mem_fs [str ''/a/f''] (str ''/b'') OpCopy job_init (mem_put (str ''/a/f'') (MemFile [1, 2, 3]) (mem_nested 3))))
      = Some (j', w') \<and> \<not> jb_active j'"
  by (rule job_ends[OF _ mem_paths_bounded mem_names_proper _ prod.collapse[symmetric]])
     (use mem_files_end in \<open>auto simp: env_patient_def\<close>)

text \<open>
  C8.  A copy never overwrites and never deletes: whatever is asked to be copied, wherever to, and after
  any number of slices, every file that was there when the job began holds what it held, the ones a copy
  had the name of and the sources included; what a failed copy takes away is only what it had made.
\<close>

theorem copy_keeps_files:
  assumes "files_alone fs content alias target"
    and "job_start fs sources dest OpCopy j w = (j1, w1)"
    and "job_run fs budget (\<lambda>_ w. w) n j1 w1 = Some (j2, w2)"
    and "content q w1 = Some c"
  shows "content q w2 = Some c"
proof -
  have "copy_safe content alias target w1 j1 w1"
    using assms(2) by (auto simp: copy_safe_def job_start_def job_cancel_def Let_def)
  from job_run_safe[OF assms(1) this assms(3)] show ?thesis using assms(4) by (simp add: copy_safe_def)
qed

theorem copy_keeps_files_witness:
  "\<exists>j2 w2. job_run mem_fs 1 (\<lambda>_ w. w) 1
      (fst (job_start mem_fs [str ''/a/f''] (str ''/b'') OpCopy job_init (mem_put (str ''/b/f'') (MemFile [2]) (mem_put (str ''/a/f'') (MemFile [1]) (mem_nested 0)))))
      (mem_put (str ''/b/f'') (MemFile [2]) (mem_put (str ''/a/f'') (MemFile [1]) (mem_nested 0))) = Some (j2, w2)
    \<and> mem_content (str ''/b/f'') w2 = Some [2]"
proof -
  let ?m = "mem_put (str ''/b/f'') (MemFile [2]) (mem_put (str ''/a/f'') (MemFile [1]) (mem_nested 0))"
  obtain j1 w1 where s: "job_start mem_fs [str ''/a/f''] (str ''/b'') OpCopy job_init ?m = (j1, w1)" by fastforce
  then have w1: "w1 = ?m" by (simp add: job_start_def job_cancel_def job_init_def close_both_def Let_def)
  have "\<exists>x. job_step mem_fs 1 j1 ?m = Some x"
    using s by (auto simp: job_start_def job_cancel_def job_init_def Let_def job_step_def take_next_def mem_fs_def mem_stat_def
        str_def take_file_def open_copy_def join_path_def base_name_def strip_slashes.simps rfind_byte_def slash_def job_fail_def
        mem_fd_def)
  then obtain x where "job_run mem_fs 1 (\<lambda>_ w. w) 1 j1 ?m = Some x" by (auto split: prod.splits)
  then obtain j2 w2 where r: "job_run mem_fs 1 (\<lambda>_ w. w) 1 j1 w1 = Some (j2, w2)" using w1 by (cases x) auto
  have "mem_content (str ''/b/f'') w1 = Some [2]" using w1 by (simp add: mem_content_def)
  from copy_keeps_files[OF mem_files_alone s r this] show ?thesis using r s w1 by auto
qed

text \<open>
  A directory copied into itself is not refused: each slice makes one more directory inside the
  last and finds it to be copied, down to the maximal length of a path.  In memory, \<open>/d\<close> copied into
  \<open>/d\<close>: after \<open>n\<close> slices \<open>n + 1\<close> directories are nested and the job still runs.
\<close>

theorem copy_into_itself:
  assumes "n < 2047"
  shows "\<exists>j w. job_run mem_fs budget (\<lambda>_ w. w) n (fst (job_start mem_fs [nested 1] (nested 1) OpCopy job_init (mem_nested 1))) (mem_nested 1)
      = Some (j, w) \<and> jb_active j \<and> map_of (mem_nodes w) (nested (n + 1)) = Some MemDir"
proof -
  have "nesting 0 (fst (job_start mem_fs [nested 1] (nested 1) OpCopy job_init (mem_nested 1)))"
    using nested_parts(2)[of 0] nested_parts(5)[of 0] by (simp add: nesting_def job_start_def job_cancel_def job_init_def Let_def)
  from nesting_run[OF this, of n budget] assms show ?thesis by (auto simp: nesting_def mem_nested_of)
qed

theorem copy_into_itself_witness:
  "\<exists>j w. job_run mem_fs 1 (\<lambda>_ w. w) 1000 (fst (job_start mem_fs [nested 1] (nested 1) OpCopy job_init (mem_nested 1))) (mem_nested 1)
      = Some (j, w) \<and> jb_active j \<and> map_of (mem_nodes w) (nested 1001) = Some MemDir"
  using copy_into_itself[of 1000 1] by simp

text \<open>
  C37.  A move, unlike a copy, overwrites without saying so.  The job never looks whether there is
  something where a file is to go: on any file system whose \<open>rename\<close> does what is documented of it, the
  name given to it then holding what the other held, a file moved into any directory of the same file
  system takes the place of whatever had its name there, and the job ends without counting a failure.
\<close>

theorem move_overwrites:
  assumes "\<And>p q w w'. fs_rename fs p q w = (None, w') \<Longrightarrow> content q w' = content p w"
    and "fs_lstat fs src w = Inr st" and "st_type st \<noteq> FtDir"
    and "fs_rename fs src (join_path dest (base_name src)) w = (None, w')"
    and "job_start fs [src] dest OpMove j0 w = (j, w)"
  shows "\<exists>j'. job_run fs budget (\<lambda>_ w. w) 2 j w = Some (j', w') \<and> \<not> jb_active j' \<and> jb_done j' = 1 \<and> jb_failed j' = 0
    \<and> content (join_path dest (base_name src)) w' = content src w"
  using assms(2-5) assms(1)[OF assms(4)]
  by (auto simp: numeral_2_eq_2 job_start_def job_cancel_def job_step_def take_next_def take_file_def Let_def split: file_op.splits)

theorem move_overwrites_witness:
  "\<exists>j w. job_run mem_fs 1 (\<lambda>_ w. w) 2 (fst (job_start mem_fs [str ''/a/f''] (str ''/b'') OpMove job_init
        (mem_put (str ''/b/f'') (MemFile [2]) (mem_put (str ''/a/f'') (MemFile [1]) (mem_nested 0)))))
      (mem_put (str ''/b/f'') (MemFile [2]) (mem_put (str ''/a/f'') (MemFile [1]) (mem_nested 0))) = Some (j, w)
    \<and> mem_content (str ''/b/f'') w = Some [1] \<and> jb_failed j = 0"
proof -
  let ?m = "mem_put (str ''/b/f'') (MemFile [2]) (mem_put (str ''/a/f'') (MemFile [1]) (mem_nested 0))"
  have t: "join_path (str ''/b'') (base_name (str ''/a/f'')) = str ''/b/f''"
    by (simp add: join_path_def base_name_def strip_slashes.simps rfind_byte_def slash_def str_def)
  have n: "str ''/a/f'' \<noteq> str ''/b/f''" by (simp add: str_def)
  obtain j where j: "job_start mem_fs [str ''/a/f''] (str ''/b'') OpMove job_init ?m = (j, ?m)"
    by (simp add: job_start_def job_cancel_def job_init_def close_both_def Let_def)
  have law: "mem_content q w' = mem_content p w" if "fs_rename mem_fs p q w = (None, w')" for p q w w'
    using that by (auto simp: mem_fs_def mem_content_def split: option.splits)
  have "fs_lstat mem_fs (str ''/a/f'') ?m = Inr \<lparr>st_type = FtReg, st_mode = 420, st_size = 1, st_mtime = 0\<rparr>"
    using n by (simp add: mem_fs_def mem_stat_def) (simp add: str_def)
  moreover have "fs_rename mem_fs (str ''/a/f'') (join_path (str ''/b'') (base_name (str ''/a/f''))) ?m
      = (None, mem_put (str ''/b/f'') (MemFile [1]) (mem_del (str ''/a/f'') ?m))"
    using n by (simp add: t mem_fs_def)
  ultimately show ?thesis
    using move_overwrites[of mem_fs mem_content, OF law _ _ _ j, of "\<lparr>st_type = FtReg, st_mode = 420, st_size = 1, st_mtime = 0\<rparr>" _ 1] j n t
    by (auto simp: mem_content_def)
qed

end
