(* ===== verification/Files_Inv.thy ===== *)
theory Files_Inv
  imports Files_Input Job_Run
begin

text \<open>
  The file manager under any sequence of events, whatever the file system answers: its selections stay
  inside its lists, the way out \<open>..\<close> is never acted upon, and nothing is deleted without the answer.
\<close>

section \<open>The invariant\<close>

definition marks_ok :: "pane \<Rightarrow> bool" where
  "marks_ok p \<longleftrightarrow> finite (pn_marked p) \<and> kParent \<notin> pn_marked p"

definition pane_ok :: "pane \<Rightarrow> bool" where
  "pane_ok p \<longleftrightarrow> marks_ok p
     \<and> (if pn_visible p = [] then pn_sel p = 0 \<and> pn_top p = 0 else pn_sel p < length (pn_visible p) \<and> pn_top p \<le> pn_sel p)"

text \<open>Between the change of a selection and \<open>settle\<close> only the marks of the active pane are in order.\<close>

definition files_weak :: "'w files \<Rightarrow> bool" where
  "files_weak f \<longleftrightarrow> (fl_active f = 0 \<or> fl_active f = 1 \<and> fl_split f)
     \<and> marks_ok (fl_panes f 0) \<and> marks_ok (fl_panes f 1)
     \<and> (fl_active f \<noteq> 0 \<longrightarrow> pane_ok (fl_panes f 0)) \<and> (fl_active f \<noteq> 1 \<longrightarrow> pane_ok (fl_panes f 1))"

definition files_ok :: "'w files \<Rightarrow> bool" where
  "files_ok f \<longleftrightarrow> files_weak f \<and> pane_ok (pane_of f)"

lemma list_rows_pos: "0 < list_rows f"
  by (simp add: list_rows_def rows_for_list_def)

lemma settle_pane_ok: "marks_ok p \<Longrightarrow> 0 < rows \<Longrightarrow> pane_ok (settle_pane rows p)"
  by (auto simp: settle_pane_def pane_ok_def marks_ok_def Let_def)

lemma pane_ok_marks: "pane_ok p \<Longrightarrow> marks_ok p"
  by (simp add: pane_ok_def)

lemma marks_ok_upd [simp]:
  "marks_ok (p\<lparr>pn_sel := a\<rparr>) = marks_ok p" "marks_ok (p\<lparr>pn_visible := vs\<rparr>) = marks_ok p"
  "marks_ok (p\<lparr>pn_filter := s\<rparr>) = marks_ok p" "marks_ok (p\<lparr>pn_status := s\<rparr>) = marks_ok p"
  "marks_ok (p\<lparr>pn_listing := l\<rparr>) = marks_ok p" "marks_ok (p\<lparr>pn_listing := l, pn_status := s\<rparr>) = marks_ok p"
  "marks_ok (p\<lparr>pn_marked := {}\<rparr>)"
  by (simp_all add: marks_ok_def)

lemma select_name_marks [simp]: "marks_ok (select_name n p) = marks_ok p"
  by (simp add: select_name_def split: option.split)

lemma refilter_pane_ok: "marks_ok p \<Longrightarrow> 0 < rows \<Longrightarrow> pane_ok (refilter_pane rows p)"
  unfolding refilter_pane_def Let_def by (rule settle_pane_ok) simp_all

lemma pane_ok_upd [simp]:
  "pane_ok (p\<lparr>pn_status := s\<rparr>) = pane_ok p" "pane_ok (p\<lparr>pn_listing := l\<rparr>) = pane_ok p"
  "pane_ok (p\<lparr>pn_filter := s\<rparr>) = pane_ok p"
  "pane_ok (p\<lparr>pn_back := a, pn_forward := b\<rparr>) = pane_ok p" "pane_ok (p\<lparr>pn_forward := b, pn_back := a\<rparr>) = pane_ok p"
  by (simp_all add: pane_ok_def marks_ok_def)

lemma pane_ok_unmark: "pane_ok p \<Longrightarrow> pane_ok (p\<lparr>pn_marked := {}\<rparr>)"
  by (simp add: pane_ok_def)

section \<open>Whole manager\<close>

lemma upd_pane_sel [simp]:
  "pane_of (upd_pane g f) = g (pane_of f)" "fl_active (upd_pane g f) = fl_active f" "fl_split (upd_pane g f) = fl_split f"
  "fl_job (upd_pane g f) = fl_job f" "fl_mode (upd_pane g f) = fl_mode f" "fl_disk (upd_pane g f) = fl_disk f"
  "fl_size (upd_pane g f) = fl_size f" "fl_panes (upd_pane g f) = (fl_panes f)(fl_active f := g (pane_of f))"
  by (simp_all add: upd_pane_def pane_of_def)

lemma files_ok_weak: "files_ok f \<Longrightarrow> files_weak f"
  by (simp add: files_ok_def)

lemma upd_pane_weak: "files_weak f \<Longrightarrow> (marks_ok (pane_of f) \<Longrightarrow> marks_ok (g (pane_of f))) \<Longrightarrow> files_weak (upd_pane g f)"
  by (cases "fl_active f = 0") (simp_all add: files_weak_def pane_of_def)

lemma upd_pane_ok: "files_weak f \<Longrightarrow> pane_ok (g (pane_of f)) \<Longrightarrow> files_ok (upd_pane g f)"
  by (simp add: files_ok_def upd_pane_weak pane_ok_marks)

lemma weak_marks: "files_weak f \<Longrightarrow> marks_ok (pane_of f)"
  by (auto simp: files_weak_def pane_of_def)

lemma ok_pane: "files_ok f \<Longrightarrow> pane_ok (pane_of f)"
  by (simp add: files_ok_def)

lemma settle_files_ok: "files_weak f \<Longrightarrow> files_ok (settle_files f)"
  unfolding settle_files_def by (rule upd_pane_ok) (simp_all add: settle_pane_ok weak_marks list_rows_pos)

lemma refilter_files_ok: "files_weak f \<Longrightarrow> files_ok (refilter f)"
  unfolding refilter_def by (rule upd_pane_ok) (simp_all add: refilter_pane_ok weak_marks list_rows_pos)

lemma sort_on_ok: "files_weak f \<Longrightarrow> files_ok (sort_on k f)"
  unfolding sort_on_def by (rule refilter_files_ok, erule upd_pane_weak) (auto simp: marks_ok_def)

text \<open>The fields the invariant does not read.\<close>

lemma files_ok_upd [simp]:
  "files_ok (f\<lparr>fl_mode := a\<rparr>) = files_ok f" "files_ok (f\<lparr>fl_edit := b\<rparr>) = files_ok f"
  "files_ok (f\<lparr>fl_disk := w\<rparr>) = files_ok f" "files_ok (f\<lparr>fl_job := j\<rparr>) = files_ok f"
  "files_ok (f\<lparr>fl_calls := cs\<rparr>) = files_ok f" "files_ok (f\<lparr>fl_places := p\<rparr>) = files_ok f"
  "files_ok (f\<lparr>fl_menu_open := m\<rparr>) = files_ok f" "files_ok (f\<lparr>fl_clipboard := c\<rparr>) = files_ok f"
  "files_ok (f\<lparr>fl_clipboard_cut := m\<rparr>) = files_ok f" "files_ok (f\<lparr>fl_creating_dir := m\<rparr>) = files_ok f"
  "files_ok (f\<lparr>fl_menu_shown := ms\<rparr>) = files_ok f" "files_ok (f\<lparr>fl_menu_rect := r\<rparr>) = files_ok f"
  "files_ok (f\<lparr>fl_pressed := m\<rparr>) = files_ok f" "files_ok (f\<lparr>fl_dragging := m\<rparr>) = files_ok f"
  "files_ok (f\<lparr>fl_drag := c\<rparr>) = files_ok f" "files_ok (f\<lparr>fl_press_x := x\<rparr>) = files_ok f"
  "files_ok (f\<lparr>fl_press_y := x\<rparr>) = files_ok f" "files_ok (f\<lparr>fl_show_hidden := m\<rparr>) = files_ok f"
  "files_ok (f\<lparr>fl_size := s\<rparr>) = files_ok f"
  by (simp_all add: files_ok_def files_weak_def pane_of_def)

lemma set_status_ok [simp]: "files_ok (set_status s f) = files_ok f"
  by (cases "fl_active f = 0") (simp_all add: set_status_def files_ok_def files_weak_def pane_of_def)

lemma reload_ok:
  assumes w: "files_weak f"
  shows "files_ok (reload fs f)"
proof -
  define f1 where "f1 = upd_pane (\<lambda>p. p\<lparr>pn_marked := {}\<rparr>) f"
  have w1: "files_weak f1" unfolding f1_def by (rule upd_pane_weak[OF w]) simp
  have p: "pane_ok (reload_pane fs f1 (fl_panes f1 0))" "pane_ok (reload_pane fs f1 (fl_panes f1 1))"
    unfolding reload_pane_def Let_def by (rule refilter_pane_ok; use w1 in \<open>simp add: files_weak_def list_rows_pos\<close>)+
  have "reload fs f = f1\<lparr>fl_panes := (fl_panes f1)(0 := reload_pane fs f1 (fl_panes f1 0), 1 := reload_pane fs f1 (fl_panes f1 1))\<rparr>"
    by (simp add: reload_def Let_def f1_def)
  then show ?thesis using w1 p by (auto simp: files_ok_def files_weak_def pane_of_def pane_ok_marks)
qed

lemma reload_on_ok: "files_weak f \<Longrightarrow> files_ok (reload_on fs n f)"
  unfolding reload_on_def by (rule settle_files_ok, rule upd_pane_weak[OF files_ok_weak[OF reload_ok]]) auto

lemma files_load_ok:
  assumes "files_ok f"
  shows "files_ok (snd (files_load fs path from f))"
proof -
  have w: "files_weak (upd_pane (\<lambda>p. p\<lparr>pn_listing := l, pn_status := [], pn_filter := [], pn_marked := {},
      pn_sel := 0, pn_top := 0, pn_visible := []\<rparr>) f)" for l
    by (rule upd_pane_weak[OF files_ok_weak[OF assms]]) (simp add: marks_ok_def)
  show ?thesis using assms refilter_files_ok[OF w]
    by (auto simp: files_load_def Let_def intro!: settle_files_ok upd_pane_weak[OF files_ok_weak])
qed

lemma go_ok:
  assumes "files_ok f"
  shows "files_ok (go_to fs path f)" "files_ok (go_back fs f)" "files_ok (go_forward fs f)" "files_ok (go_up fs f)"
proof -
  have l: "files_ok g" if "files_load fs p h f = (b, g)" for p h b g using files_load_ok[OF assms, of fs p h] that by simp
  have u: "files_ok (upd_pane g f')" if "files_ok f'" "\<And>p. pane_ok p \<Longrightarrow> pane_ok (g p)" for g and f' :: "'a files"
    using upd_pane_ok[OF files_ok_weak[OF that(1)]] that(2)[OF ok_pane[OF that(1)]] by simp
  show t: "files_ok (go_to fs path f)" for path
    using assms l u by (auto simp: go_to_def Let_def split: prod.split bool.split)
  show "files_ok (go_back fs f)" "files_ok (go_forward fs f)"
    using assms l u by (auto simp: go_back_def go_forward_def Let_def split: prod.split bool.split)
  show "files_ok (go_up fs f)" using assms t by (simp add: go_up_def Let_def)
qed

lemma activate_ok: "files_ok f \<Longrightarrow> files_ok (activate fs f)"
  by (auto simp: activate_def Let_def intro: go_ok)

lemma marks_ok_insert: "marks_ok p \<Longrightarrow> finite ns \<Longrightarrow> kParent \<notin> ns \<Longrightarrow> marks_ok (p\<lparr>pn_marked := pn_marked p \<union> ns\<rparr>)"
  by (simp add: marks_ok_def)

lemma kParent_ne [simp]: "kParent \<noteq> []" "[] \<noteq> kParent"
  by (simp_all add: kParent_def str_def)

lemma markable_at_parent [simp]: "markable_at p i \<noteq> kParent" "kParent \<noteq> markable_at p i"
  by (auto simp: markable_at_def)

lemma pane_ok_marked: "pane_ok p \<Longrightarrow> marks_ok (p\<lparr>pn_marked := s\<rparr>) \<Longrightarrow> pane_ok (p\<lparr>pn_marked := s\<rparr>)"
  by (simp add: pane_ok_def)

lemma toggle_mark_ok: "files_ok f \<Longrightarrow> files_ok (toggle_mark i f)"
  unfolding toggle_mark_def Let_def
  by (auto intro!: upd_pane_ok[OF files_ok_weak] pane_ok_marked dest: ok_pane)
     (auto simp: marks_ok_def dest!: ok_pane pane_ok_marks)

lemma mark_range_ok: "files_ok f \<Longrightarrow> files_ok (mark_range a b f)"
  unfolding mark_range_def
  by (rule upd_pane_ok[OF files_ok_weak], assumption, rule pane_ok_marked, erule ok_pane, rule marks_ok_insert)
     (auto dest: ok_pane pane_ok_marks)

lemma select_all_ok: "files_ok f \<Longrightarrow> files_ok (select_all f)"
  unfolding select_all_def by (auto intro!: mark_range_ok upd_pane_ok[OF files_ok_weak] pane_ok_unmark ok_pane)

lemma set_sel_ok: "files_ok f \<Longrightarrow> files_ok (set_sel i f)"
  unfolding set_sel_def by (rule settle_files_ok, rule upd_pane_weak[OF files_ok_weak]) auto

lemma begin_job_ok [simp]: "files_ok (begin_job fs ss d k f) = files_ok f"
  by (simp add: begin_job_def split: prod.split)

lemma stop_job_ok: "files_ok f \<Longrightarrow> files_ok (stop_job fs f)"
  by (auto simp: stop_job_def split: prod.split intro!: reload_ok files_ok_weak)

lemma commit_ok:
  assumes "files_ok f"
  shows "files_ok (commit_rename fs f)" "files_ok (commit_create fs f)" "files_ok (commit_delete fs f)"
    "files_ok (take_clipboard m f)" "files_ok (paste_clipboard fs f)"
proof -
  have r: "files_ok (reload_on fs n g)" if "files_ok g" for n g by (rule reload_on_ok[OF files_ok_weak[OF that]])
  show "files_ok (commit_rename fs f)" "files_ok (commit_create fs f)" "files_ok (commit_delete fs f)"
    "files_ok (take_clipboard m f)" "files_ok (paste_clipboard fs f)"
    using assms r by (auto simp: commit_rename_def commit_create_def commit_delete_def take_clipboard_def paste_clipboard_def
      set_mode_normal_def Let_def split: sum.split prod.split option.split)
qed

lemma toggle_split_ok: "files_ok f \<Longrightarrow> files_ok (toggle_split f)"
  by (auto simp: toggle_split_def files_ok_def files_weak_def pane_of_def pane_ok_unmark pane_ok_marks)

lemma tab_ok: "files_ok f \<Longrightarrow> fl_split f \<Longrightarrow> files_ok (f\<lparr>fl_active := 1 - fl_active f\<rparr>)"
  by (auto simp: files_ok_def files_weak_def pane_of_def)

lemma toggle_hidden_ok: "files_ok f \<Longrightarrow> files_ok (toggle_hidden fs f)"
  unfolding toggle_hidden_def by (rule reload_ok[OF files_ok_weak]) simp

lemma refilter_upd_ok:
  "files_ok f \<Longrightarrow> (marks_ok (pane_of f) \<Longrightarrow> marks_ok (g (pane_of f))) \<Longrightarrow> files_ok (refilter (upd_pane g f))"
  by (rule refilter_files_ok, rule upd_pane_weak[OF files_ok_weak])

lemma ask_ok [simp]: "files_ok (ask_create d f) = files_ok f" "files_ok (ask_rename f) = files_ok f" "files_ok (ask_delete f) = files_ok f"
  "files_ok (open_fmenu amb x y f) = files_ok f" "files_ok (set_mode_normal f) = files_ok f" "files_ok (drag_motion m f) = files_ok f"
  by (simp_all add: ask_create_def ask_rename_def ask_delete_def open_fmenu_def set_mode_normal_def drag_motion_def Let_def)

lemma run_fmenu_ok:
  assumes "files_ok f"
  shows "files_ok (run_fmenu fs c f)"
  using assms unfolding run_fmenu_def Let_def
  by (cases c) (simp_all add: activate_ok commit_ok select_all_ok go_ok toggle_split_ok toggle_hidden_ok sort_on_ok files_ok_weak stop_job_ok)

lemma move_sel_ok:
  assumes "files_ok f"
  shows "files_ok (move_sel shift g f)"
proof -
  have m: "files_weak (mark_range a b x)" if "files_weak x" for a b and x :: "'a files"
    unfolding mark_range_def by (rule upd_pane_weak[OF that]) (auto intro!: marks_ok_insert)
  have u: "files_weak (upd_pane (\<lambda>p. p\<lparr>pn_sel := g p\<rparr>) x)" if "files_weak x" for x :: "'a files"
    by (rule upd_pane_weak[OF that]) simp
  show ?thesis unfolding move_sel_def Let_def
    by (rule settle_files_ok) (simp add: m u files_ok_weak[OF assms])
qed

lemma escape_char_ok:
  assumes "files_ok f"
  shows "files_ok (escape_files fs f)" "files_ok (char_files fs k f)"
  using assms by (auto simp: escape_files_def char_files_def intro!: stop_job_ok refilter_upd_ok toggle_hidden_ok
    upd_pane_ok[OF files_ok_weak] pane_ok_unmark ok_pane)

lemma files_key_ok:
  assumes "files_ok f"
  shows "files_ok (files_key fs k f)"
proof -
  have e: "files_ok (entry_key fs k f)" using assms by (auto simp: entry_key_def commit_ok split: key.split)
  have c: "files_ok (confirm_files fs k f)" using assms by (simp add: confirm_files_def commit_ok)
  have l: "files_ok (list_key fs k f)" unfolding list_key_def using assms
    by (cases "k_key k") (simp_all add: move_sel_ok set_sel_ok activate_ok toggle_split_ok tab_ok[unfolded One_nat_def] escape_char_ok go_ok refilter_upd_ok)
  have s: "files_ok (settle_files (upd_pane (\<lambda>p. p\<lparr>pn_sel := row_down p\<rparr>) (toggle_mark i f)))" for i
    by (rule settle_files_ok, rule upd_pane_weak[OF files_ok_weak[OF toggle_mark_ok[OF assms]]]) simp
  have n: "files_ok (normal_key fs k f)" using assms l s by (simp add: normal_key_def Let_def commit_ok select_all_ok go_ok)
  show ?thesis using assms e c n by (simp add: files_key_def split: files_mode.split)
qed

lemma drag_release_ok: "files_ok f \<Longrightarrow> files_ok (drag_release fs y f)"
  by (simp add: drag_release_def Let_def)

lemma list_click_ok: "files_ok f \<Longrightarrow> files_ok (list_click amb fs m f)"
  by (simp add: list_click_def Let_def set_sel_ok toggle_mark_ok mark_range_ok activate_ok)

lemma header_click_ok: "files_ok f \<Longrightarrow> files_ok (header_click x f)"
  by (simp add: header_click_def Let_def sort_on_ok files_ok_weak)

lemma pane_mouse_ok: "files_ok f \<Longrightarrow> files_ok (pane_mouse amb fs m x f)"
  by (simp add: pane_mouse_def drag_release_ok set_sel_ok list_click_ok header_click_ok bar_path_click_def go_ok
      split: mouse_action.split option.split)

lemma pane_under_ok: "files_ok f \<Longrightarrow> pane_under x f = Some (y, g) \<Longrightarrow> files_ok g"
  by (auto simp: pane_under_def files_ok_def files_weak_def pane_of_def split: if_splits)

lemma files_mouse_ok:
  assumes "files_ok f"
  shows "files_ok (files_mouse amb fs home m f)"
proof -
  have "files_ok (fmenu_mouse fs m f)" using assms by (simp add: fmenu_mouse_def Let_def run_fmenu_ok)
  moreover have "files_ok (pane_mouse amb fs m y g)" if "pane_under x f = Some (y, g)" for x y g
    by (rule pane_mouse_ok[OF pane_under_ok[OF assms that]])
  ultimately show ?thesis using assms by (auto simp: files_mouse_def Let_def go_ok split: option.split)
qed

lemma job_over_ok:
  assumes "files_ok f"
  shows "files_ok (job_over fs f)"
proof -
  obtain j w where j: "job_cancel fs (fl_job f) (fl_disk f) = (j, w)" by fastforce
  have a: "pane_ok (read_again fs w h p) = pane_ok p" "marks_ok (read_again fs w h p) = marks_ok p" for h p
    by (simp_all add: read_again_def Let_def)
  have "files_weak (f\<lparr>fl_job := j, fl_disk := w, fl_panes := (fl_panes f)(0 := read_again fs w h (fl_panes f 0),
      1 := read_again fs w h (fl_panes f 1))\<rparr>)" for h
    using assms a by (simp add: files_ok_def files_weak_def)
  from refilter_files_ok[OF this] show ?thesis using j by (simp add: job_over_def Let_def)
qed

lemma files_refresh_ok: "files_ok f \<Longrightarrow> files_refresh fs f = Some g \<Longrightarrow> files_ok g"
  by (auto simp: files_refresh_def Let_def job_over_ok split: if_splits option.splits prod.splits)

lemma files_init_ok: "files_ok (files_init fs start w)"
  unfolding files_init_def
  by (rule reload_ok) (simp add: files_weak_def pane_init_def marks_ok_def pane_ok_def)

lemma files_on_ok: "files_ok f \<Longrightarrow> files_on amb fs home f e = Some g \<Longrightarrow> files_ok g"
  by (cases e) (auto simp: files_key_ok files_mouse_ok files_resize_def files_refresh_ok intro!: settle_files_ok files_ok_weak)

lemma files_run_ok: "files_ok f \<Longrightarrow> files_run amb fs home f es = Some g \<Longrightarrow> files_ok g"
  by (induction es arbitrary: f) (auto split: option.splits dest: files_on_ok)

section \<open>What starts a deletion\<close>

text \<open>After a step a deletion runs only if one ran before it.\<close>

definition deleting :: "job \<Rightarrow> bool" where
  "deleting j \<longleftrightarrow> jb_active j \<and> jb_kind j = OpDelete"

lemma job_of_upd [simp]:
  "fl_job (settle_files f) = fl_job f" "fl_job (refilter f) = fl_job f" "fl_job (sort_on k f) = fl_job f"
  "fl_job (reload fs f) = fl_job f" "fl_job (set_status s f) = fl_job f" "fl_job (reload_on fs n f) = fl_job f"
  "fl_job (set_sel i f) = fl_job f" "fl_job (toggle_mark i f) = fl_job f" "fl_job (mark_range a b f) = fl_job f"
  "fl_job (select_all f) = fl_job f" "fl_job (set_mode_normal f) = fl_job f"
  "fl_job (ask_create d f) = fl_job f" "fl_job (ask_rename f) = fl_job f" "fl_job (ask_delete f) = fl_job f"
  "fl_job (toggle_split f) = fl_job f" "fl_job (toggle_hidden fs f) = fl_job f" "fl_job (open_fmenu amb x y f) = fl_job f"
  "fl_job (move_sel sh g f) = fl_job f" "fl_job (take_clipboard mv f) = fl_job f" "fl_job (drag_motion m f) = fl_job f"
  "fl_job (header_click x f) = fl_job f"
  by (simp_all add: settle_files_def refilter_def sort_on_def reload_def set_status_def reload_on_def set_sel_def toggle_mark_def
      mark_range_def select_all_def set_mode_normal_def ask_create_def ask_rename_def ask_delete_def toggle_split_def
      toggle_hidden_def open_fmenu_def move_sel_def take_clipboard_def drag_motion_def header_click_def Let_def)

lemma job_of_load: "fl_job (snd (files_load fs p h f)) = fl_job f"
  by (simp add: files_load_def Let_def)

lemma job_of_go [simp]:
  "fl_job (go_to fs path f) = fl_job f" "fl_job (go_back fs f) = fl_job f" "fl_job (go_forward fs f) = fl_job f"
  "fl_job (go_up fs f) = fl_job f" "fl_job (activate fs f) = fl_job f"
proof -
  have l: "fl_job g = fl_job f" if "files_load fs p h f = (b, g)" for p h b g using job_of_load[of fs p h f] that by simp
  show g: "fl_job (go_to fs path f) = fl_job f" for path by (auto simp: go_to_def Let_def l split: prod.split bool.split)
  show "fl_job (go_back fs f) = fl_job f" "fl_job (go_forward fs f) = fl_job f"
    by (auto simp: go_back_def go_forward_def Let_def l split: prod.split bool.split)
  show u: "fl_job (go_up fs f) = fl_job f" by (simp add: go_up_def Let_def g)
  show "fl_job (activate fs f) = fl_job f" by (simp add: activate_def Let_def g u)
qed

lemma job_of_commit [simp]: "fl_job (commit_rename fs f) = fl_job f" "fl_job (commit_create fs f) = fl_job f"
  by (simp_all add: commit_rename_def commit_create_def Let_def split: sum.split prod.split option.split)

lemma start_deleting: "deleting (fl_job (begin_job fs ss d k f)) \<Longrightarrow> k = OpDelete"
  by (auto simp: begin_job_def job_start_def Let_def deleting_def split: prod.splits)

lemma paste_deleting: "deleting (fl_job (paste_clipboard fs f)) \<Longrightarrow> deleting (fl_job f)"
  using start_deleting by (fastforce simp: paste_clipboard_def Let_def split: if_splits)

lemma stop_deleting: "deleting (fl_job (stop_job fs f)) \<Longrightarrow> deleting (fl_job f)"
  by (auto simp: stop_job_def job_cancel_def deleting_def split: if_splits prod.splits)

lemma run_fmenu_deleting: "deleting (fl_job (run_fmenu fs c f)) \<Longrightarrow> deleting (fl_job f)"
  using paste_deleting[of fs "f\<lparr>fl_menu_open := False\<rparr>"] stop_deleting[of fs "f\<lparr>fl_menu_open := False\<rparr>"]
  by (cases c) (simp_all add: run_fmenu_def)

lemma release_deleting: "deleting (fl_job (drag_release fs y f)) \<Longrightarrow> deleting (fl_job f)"
  using start_deleting by (fastforce simp: drag_release_def Let_def split: if_splits)

lemma mouse_deleting:
  assumes "deleting (fl_job (files_mouse amb fs home m f))"
  shows "deleting (fl_job f)"
proof -
  have u: "fl_job g = fl_job f" if "pane_under x f = Some (y, g)" for x y g
    using that by (auto simp: pane_under_def split: if_splits)
  have l: "fl_job (list_click amb fs m g) = fl_job g" for g :: "'a files" by (simp add: list_click_def Let_def)
  have p: "deleting (fl_job (pane_mouse amb fs m x g)) \<Longrightarrow> deleting (fl_job g)" for x and g :: "'a files"
    using release_deleting[of fs _ g] l[of g]
    by (auto simp: pane_mouse_def bar_path_click_def split: mouse_action.splits if_splits option.splits)
  have e: "deleting (fl_job (fmenu_mouse fs m f)) \<Longrightarrow> deleting (fl_job f)"
    using run_fmenu_deleting[of fs _ f] by (auto simp: fmenu_mouse_def Let_def split: if_splits)
  show ?thesis
  proof (rule ccontr)
    assume n: "\<not> deleting (fl_job f)"
    then have "\<not> deleting (fl_job (pane_mouse amb fs m x g))" if "pane_under y f = Some (x, g)" for x y g
      using p[of x g] u[OF that] by auto
    then show False using assms n e unfolding files_mouse_def Let_def
      by (auto split: if_split_asm option.split_asm prod.split_asm)
  qed
qed

lemma copy_loop_keeps:
  assumes "copy_loop fs budget moved j w = Some jw"
  shows "jb_kind (fst jw) = jb_kind j \<and> jb_active (fst jw) = jb_active j"
proof (rule copy_loop.raw_induct[OF _ assms], goal_cases)
  case (1 f fs budget moved j w jw)
  obtain r w1 where r: "fs_read fs (jb_in j) (min kJobChunk (budget - moved)) w = (r, w1)" by fastforce
  have a: "jb_kind (fst (abort_copy fs e j w2)) = jb_kind j \<and> jb_active (fst (abort_copy fs e j w2)) = jb_active j" for e w2
    by (simp add: abort_copy_def no_current_def job_fail_def Let_def)
  have b: "jb_kind (fst (finish_current fs j w2)) = jb_kind j \<and> jb_active (fst (finish_current fs j w2)) = jb_active j" for w2
    by (simp add: finish_current_def no_current_def Let_def)
  note ih = 1(1) and body = 1(2)
  show ?case
  proof (cases "moved < budget")
    case False
    then show ?thesis using body by auto
  next
    case m: True
    show ?thesis
    proof (cases r)
      case (Inl e)
      then show ?thesis using body r m a[of e w1] ih[of fs budget moved j w1 jw] by (auto split: if_split_asm)
    next
      case (Inr d)
      show ?thesis
      proof (cases "d = []")
        case True
        then show ?thesis using body r m Inr b[of w1] by auto
      next
        case False
        then obtain x w2 where w2: "write_all fs (jb_out j) d w1 = Some (x, w2)"
          using body r Inr m by (auto simp: Option.bind_eq_Some_conv)
        then show ?thesis using body r Inr m False a[of _ w2] ih[of fs budget "moved + length d" j w2 jw]
          by (auto split: option.splits)
      qed
    qed
  qed
qed

lemma take_next_keeps: "jb_kind (fst (snd (take_next fs j w))) = jb_kind j \<and> jb_active (fst (snd (take_next fs j w))) = jb_active j"
proof -
  have o: "jb_kind (fst (open_dir fs it i w)) = jb_kind i \<and> jb_active (fst (open_dir fs it i w)) = jb_active i" for it i w
    by (auto simp: open_dir_def job_fail_def Let_def split: sum.split)
  then have d: "jb_kind (fst (take_dir fs st it i w)) = jb_kind i \<and> jb_active (fst (take_dir fs st it i w)) = jb_active i" for st it i w
    by (auto simp: take_dir_def job_fail_def split: prod.split option.split)
  have c: "jb_kind (fst (open_copy fs st it i w)) = jb_kind i \<and> jb_active (fst (open_copy fs st it i w)) = jb_active i" for st it i w
    by (auto simp: open_copy_def job_fail_def split: prod.split sum.split)
  then have t: "jb_kind (fst (take_file fs st it i w)) = jb_kind i \<and> jb_active (fst (take_file fs st it i w)) = jb_active i" for st it i w
    by (auto simp: take_file_def job_fail_def split: prod.split option.split file_op.split)
  have r: "jb_kind (fst (take_rmdir fs it i w)) = jb_kind i \<and> jb_active (fst (take_rmdir fs it i w)) = jb_active i" for it i w
    by (auto simp: take_rmdir_def job_fail_def split: prod.split option.split)
  show ?thesis using d t r by (auto simp: take_next_def Let_def job_fail_def split: sum.split)
qed

lemma step_deleting: "job_step fs budget j w = Some (b, j', w') \<Longrightarrow> deleting j' \<Longrightarrow> deleting j"
  using take_next_keeps[of fs j w]
  by (auto simp: job_step_def deleting_def Let_def dest!: copy_loop_keeps split: if_splits prod.splits)

lemma refresh_deleting:
  assumes "files_refresh fs f = Some g" "deleting (fl_job g)"
  shows "deleting (fl_job f)"
proof -
  have "\<not> deleting (fl_job (job_over fs h))" for h :: "'a files"
    by (auto simp: job_over_def job_cancel_def Let_def deleting_def split: prod.split)
  then show ?thesis using assms step_deleting by (fastforce simp: files_refresh_def Let_def split: if_splits option.splits prod.splits)
qed

lemma key_deleting:
  assumes "deleting (fl_job (files_key fs k f))" "\<not> deleting (fl_job f)"
  shows "\<not> fl_menu_open f \<and> fl_mode f = FmConfirming \<and> k_key k = KChar \<and> (is_ch k 0x6F 0x4F \<or> is_ch k 0x79 0x59)
    \<and> files_key fs k f = commit_delete fs f"
proof -
  have e: "fl_job (entry_key fs k f) = fl_job f" by (auto simp: entry_key_def split: key.split)
  have esc: "deleting (fl_job (escape_files fs f)) \<Longrightarrow> deleting (fl_job f)"
    using stop_deleting[of fs f] by (auto simp: escape_files_def split: if_splits)
  have ch: "fl_job (char_files fs k f) = fl_job f" by (simp add: char_files_def)
  have l: "deleting (fl_job (list_key fs k f)) \<Longrightarrow> deleting (fl_job f)"
    using esc ch by (cases "k_key k") (simp_all add: list_key_def split: if_splits)
  have n: "deleting (fl_job (normal_key fs k f)) \<Longrightarrow> deleting (fl_job f)"
    using l paste_deleting[of fs f] by (auto simp: normal_key_def Let_def split: if_splits)
  show ?thesis using assms e n by (auto simp: files_key_def confirm_files_def split: if_splits files_mode.splits)
qed

lemma commit_delete_items:
  assumes "deleting (fl_job (commit_delete fs f))" "\<not> deleting (fl_job f)"
  shows "map ji_from (jb_pending (fl_job (commit_delete fs f))) = rev (map (join_path (pn_path (pane_of f))) (targets f))"
proof -
  have p: "pn_path (pane_of (set_status s g)) = pn_path (pane_of g)" "pane_of (set_mode_normal f) = pane_of f" for s g
    by (simp_all add: set_status_def pn_path_def set_mode_normal_def pane_of_def)
  show ?thesis using assms
    by (auto simp: commit_delete_def begin_job_def job_start_def job_cancel_def Let_def rev_map comp_def split: if_splits prod.splits)
qed

section \<open>Properties\<close>

text \<open>
  C10.  Nothing is deleted without an answer: a deletion begins only by typing a letter that says yes
  while the question is shown; neither the mouse, nor a paste, a drag, the end of a job or any other
  key begins one.  What it is given to delete is what the question was about, in the directory shown.
\<close>

theorem delete_needs_answer:
  assumes "files_on amb fs home f e = Some g" and "deleting (fl_job g)" and "\<not> deleting (fl_job f)"
  shows "(\<exists>k. e = FeKey k \<and> \<not> fl_menu_open f \<and> fl_mode f = FmConfirming \<and> k_key k = KChar
      \<and> k_ch k \<in> {0x6F, 0x4F, 0x79, 0x59})
    \<and> map ji_from (jb_pending (fl_job g)) = rev (map (join_path (pn_path (pane_of f))) (targets f))"
proof (cases e)
  case (FeKey k)
  then have g: "g = files_key fs k f" using assms(1) by simp
  note k = key_deleting[OF assms(2)[unfolded g] assms(3)]
  then show ?thesis using FeKey g commit_delete_items[of fs f] assms(2,3) by (auto simp: is_ch_def)
next
  case (FeMouse m)
  then show ?thesis using assms mouse_deleting by fastforce
next
  case (FeResize s)
  then show ?thesis using assms by (auto simp: files_resize_def split: if_splits)
next
  case FeRefresh
  then show ?thesis using assms refresh_deleting by fastforce
next
  case (FeWorld h)
  then show ?thesis using assms by auto
qed

definition asking_files :: "mem files" where
  "asking_files = (files_init mem_fs (nested 1) (mem_nested 2))
     \<lparr>fl_mode := FmConfirming, fl_active := 0, fl_menu_open := False, fl_job := job_init,
      fl_panes := \<lambda>_. (pane_init (nested 1))\<lparr>pn_marked := {[0x64]}\<rparr>\<rparr>"

theorem delete_needs_answer_witness:
  "map ji_from (jb_pending (fl_job (files_key mem_fs (mk_key KChar 0x6F 0) asking_files))) = [nested 2]"
proof -
  have t: "targets asking_files = [[0x64]]" "pn_path (pane_of asking_files) = nested 1"
    by (simp_all add: asking_files_def targets_def pane_of_def pane_init_def pn_path_def)
  have d: "deleting (fl_job (files_key mem_fs (mk_key KChar 0x6F 0) asking_files))" "\<not> deleting (fl_job asking_files)"
    using t(1) by (simp_all add: asking_files_def files_key_def confirm_files_def mk_key_def is_ch_def commit_delete_def begin_job_def
        job_start_def job_cancel_def deleting_def job_init_def Let_def)
  have "join_path (nested 1) [0x64] = nested 2" using nested_parts(5)[of 0] by (simp add: eval_nat_numeral)
  then show ?thesis
    using delete_needs_answer[of False mem_fs None asking_files "FeKey (mk_key KChar 0x6F 0)", OF _ d] t by simp
qed

lemma touchable_no_parent: "touchable_selection f \<noteq> kParent"
  by (auto simp: touchable_selection_def Let_def)

lemma targets_no_parent: "files_ok f \<Longrightarrow> kParent \<notin> set (targets f)"
  using touchable_no_parent[of f] by (auto simp: targets_def Let_def dest!: ok_pane pane_ok_marks simp: marks_ok_def)

text \<open>
  C9.  Whatever the user does, in whatever order, and whatever the file system answers or others do to
  it, the selection of each pane is a line of its list and on or below the first line shown, so that
  opening, renaming and deleting never read past a list, and the way out, \<open>..\<close>, is never among what an
  action bears on.
\<close>

theorem files_invariant:
  assumes "files_run amb fs home (files_init fs start w) es = Some f"
  shows "(\<forall>i. i < 2 \<longrightarrow> (let p = fl_panes f i in
      if pn_visible p = [] then pn_sel p = 0 \<and> pn_top p = 0 else pn_sel p < length (pn_visible p) \<and> pn_top p \<le> pn_sel p))
    \<and> fl_active f < 2 \<and> kParent \<notin> set (targets f)"
proof -
  have ok: "files_ok f" by (rule files_run_ok[OF files_init_ok assms])
  then have a: "fl_active f = 0 \<or> fl_active f = 1" "pane_ok (fl_panes f 0)" "pane_ok (fl_panes f 1)"
    by (auto simp: files_ok_def files_weak_def pane_of_def)
  have "pane_ok (fl_panes f i)" if "i < 2" for i
    using a(2,3) that by (cases "i = 0") (simp_all add: less_2_cases_iff)
  then show ?thesis using a(1) targets_no_parent[OF ok] by (auto simp: pane_ok_def Let_def)
qed

theorem files_invariant_witness:
  "kParent \<notin> set (targets (files_key mem_fs (mk_key KChar 0x20 0) (files_init mem_fs (str ''/d'') (mem_nested 2))))"
  using files_invariant[of False mem_fs None "str ''/d''" "mem_nested 2" "[FeKey (mk_key KChar 0x20 0)]"] by simp

end
