(* ===== verification/Files_Draw.thy ===== *)
theory Files_Draw
  imports Files_Inv Surface_Inv
begin

text \<open>
  \<open>src/apps/files/files.cpp\<close>, the drawing: texts fitted to columns, sizes and dates, a pane with its path
  bar, its header, its list and its state line, the shortcuts, the menu.  The local time of a date is an
  argument, as is the ambiguous-width switch.
\<close>

section \<open>Texts\<close>

definition kFilesEllipsis :: bytes where "kFilesEllipsis = encode_utf8 0x2026"

text \<open>\<open>display_width\<close> and the loop of \<open>elide_right\<close> clamp the width of a character at zero; no width is
  negative and no decoding step is empty, so that they are the walks of \<open>render/width.cpp\<close>.\<close>

definition display_width :: "bool \<Rightarrow> bytes \<Rightarrow> int" where
  "display_width amb s = text_cells amb s"

definition elide_right :: "bool \<Rightarrow> bytes \<Rightarrow> int \<Rightarrow> bytes" where
  "elide_right amb s width =
     (if width \<le> 0 then []
      else if display_width amb s \<le> width then s
      else if width = 1 then kFilesEllipsis
      else take (elide_loop amb s (width - 1) 0 0) s @ kFilesEllipsis)"

definition right_align :: "bool \<Rightarrow> bytes \<Rightarrow> int \<Rightarrow> bytes" where
  "right_align amb s width = replicate (nat (width - display_width amb s)) 0x20 @ s"

text \<open>\<open>static_cast<double>\<close> of a 64-bit size: to the nearest multiple of the spacing of doubles, ties to even.\<close>

definition div_round_even :: "nat \<Rightarrow> nat \<Rightarrow> nat" where
  "div_round_even a b =
     (let q = a div b; r = a mod b in if 2 * r > b \<or> 2 * r = b \<and> odd q then q + 1 else q)"

definition to_double :: "64 word \<Rightarrow> nat" where
  "to_double x =
     (case List.find (\<lambda>k. unat x div 2 ^ k < 2 ^ 53) [0..<12] of
        None \<Rightarrow> unat x
      | Some k \<Rightarrow> div_round_even (unat x) (2 ^ k) * 2 ^ k)"

text \<open>Divided by 1024 while it is at least that, four times at most; a division by a power of two is exact.\<close>

definition size_unit :: "nat \<Rightarrow> nat" where
  "size_unit v = length (takeWhile (\<lambda>u. v \<ge> 1024 ^ u) [1..<5])"

definition human_size :: "64 word \<Rightarrow> bytes" where
  "human_size x =
     (let v = to_double x; u = size_unit v; tenths = div_round_even (10 * v) (1024 ^ u)
      in (if u = 0 then to_string (int v)
          else to_string (int (tenths div 10)) @ str ''.'' @ to_string (int (tenths mod 10)))
         @ str '' '' @ [str ''o'', str ''Ko'', str ''Mo'', str ''Go'', str ''To''] ! u)"

definition padded :: "nat \<Rightarrow> int \<Rightarrow> bytes" where
  "padded n i = replicate (n - length (to_string i)) 0x30 @ to_string i"

definition human_date :: "(int \<Rightarrow> (int \<times> int \<times> int) option) \<Rightarrow> 64 word \<Rightarrow> bytes" where
  "human_date localtime mtime =
     (if mtime = 0 then []
      else case localtime (sint mtime) of
          None \<Rightarrow> []
        | Some (mday, mon, year) \<Rightarrow> padded 2 mday @ str ''/'' @ padded 2 (mon + 1) @ str ''/'' @ padded 4 (year + 1900))"

section \<open>A pane\<close>

definition draw_path :: "bool \<Rightarrow> rect \<Rightarrow> surface \<Rightarrow> pane \<Rightarrow> bool \<Rightarrow> surface" where
  "draw_path amb v s pn focused =
     (let st = style_init\<lparr>st_attrs := (if focused then attr_Bold else attr_Dim)\<rparr>; faint = style_init\<lparr>st_attrs := attr_Dim\<rparr>;
          segs = path_segments (pn_path pn) (rw v);
          s1 = (if segs \<noteq> [] \<and> sg_x (hd segs) > 0 then fst (view_text amb v s 0 0 kFilesEllipsis faint) else s)
      in foldl (\<lambda>s i.
           let sg = segs ! i;
               label = (if sg_path sg = [slash] then [slash]
                        else drop (case rfind_byte slash (sg_path sg) of Some k \<Rightarrow> k + 1 | None \<Rightarrow> 0) (sg_path sg));
               s2 = fst (view_text amb v s (sg_x sg) 0 label st)
           in if i + 1 < length segs \<and> sg_path sg \<noteq> [slash]
              then fst (view_text amb v s2 (sg_x sg + sg_w sg) 0 [slash] faint) else s2)
         s1 [0..<length segs])"

definition header_text :: "string \<Rightarrow> sort_by \<Rightarrow> pane \<Rightarrow> bytes" where
  "header_text name k pn =
     (if pn_sort_by pn = k then str name @ str '' '' @ (if pn_sort_desc pn then str ''v'' else str ''^'') else str name)"

definition draw_header :: "bool \<Rightarrow> rect \<Rightarrow> surface \<Rightarrow> pane \<Rightarrow> surface" where
  "draw_header amb v s pn =
     (let c = file_columns (rw v); head = style_init\<lparr>st_attrs := attr_Underline\<rparr>;
          s1 = fst (view_text amb v s 0 1 (elide_right amb (header_text ''Nom'' ByName pn) (co_name_w c)) head);
          s2 = (if co_size_w c > 0
                then fst (view_text amb v s1 (co_size_x c) 1 (right_align amb (header_text ''Taille'' BySize pn) (co_size_w c)) head)
                else s1)
      in if co_date_w c > 0 then fst (view_text amb v s2 (co_date_x c) 1 (header_text ''Date'' ByTime pn) head) else s2)"

definition entry_style :: "dir_entry \<Rightarrow> style" where
  "entry_style e = (case de_kind e of EkDir \<Rightarrow> style_init\<lparr>st_fg := Indexed 4\<rparr> | EkLink \<Rightarrow> style_init\<lparr>st_fg := Indexed 6\<rparr> | _ \<Rightarrow> style_init)"

definition draw_entry ::
  "bool \<Rightarrow> (int \<Rightarrow> (int \<times> int \<times> int) option) \<Rightarrow> rect \<Rightarrow> pane \<Rightarrow> surface \<Rightarrow> nat \<Rightarrow> surface" where
  "draw_entry amb localtime v pn s i =
     (let idx = pn_top pn + i; e = pn_visible pn ! idx; y = 2 + int i; c = file_columns (rw v);
          st = (if idx = pn_sel pn then (entry_style e)\<lparr>st_attrs := st_attrs (entry_style e) OR attr_Reverse\<rparr> else entry_style e);
          s1 = (if idx = pn_sel pn then view_fill v s (mk_rect 0 y (rw v) 1) st else s);
          s2 = (if de_name e \<in> pn_marked pn
                then fst (view_text amb v
                       (fst (view_text amb v s1 0 y (str ''*'') (st\<lparr>st_fg := Indexed 3, st_attrs := st_attrs st OR attr_Bold\<rparr>)))
                       1 y (elide_right amb (de_name e) (co_name_w c - 1)) st)
                else fst (view_text amb v s1 0 y (elide_right amb (de_name e) (co_name_w c)) st));
          s3 = (if co_size_w c > 0 \<and> \<not> is_dir_like e \<and> de_name e \<noteq> kParent
                then fst (view_text amb v s2 (co_size_x c) y (right_align amb (human_size (de_size e)) (co_size_w c)) st) else s2)
      in if co_date_w c > 0 \<and> de_name e \<noteq> kParent
         then fst (view_text amb v s3 (co_date_x c) y (human_date localtime (de_mtime e)) st) else s3)"

definition pane_selected :: "pane \<Rightarrow> dir_entry option" where
  "pane_selected pn = (if pn_sel pn < length (pn_visible pn) then Some (pn_visible pn ! pn_sel pn) else None)"

definition confirm_line :: "pane \<Rightarrow> bytes" where
  "confirm_line pn =
     (if pn_marked pn = {} then
        str ''supprimer '' @ (if pn_visible pn = [] then [] else de_name (pn_visible pn ! pn_sel pn))
        @ (case pane_selected pn of Some e \<Rightarrow> if de_kind e = EkDir then str '' + contenu'' else [] | None \<Rightarrow> []) @ str '' ? (o/n)''
      else str ''supprimer '' @ to_string (int (card (pn_marked pn))) @ str '' elements + contenu ? (o/n)'')"

definition marked_bytes :: "pane \<Rightarrow> 64 word" where
  "marked_bytes pn = sum_list (map de_size (filter (\<lambda>e. de_name e \<in> pn_marked pn) (dl_entries (pn_listing pn))))"

definition state_line :: "'w fs \<Rightarrow> 'w files \<Rightarrow> pane \<Rightarrow> bytes \<times> style" where
  "state_line fs f pn =
     (let rev = style_init\<lparr>st_attrs := attr_Reverse\<rparr>
      in case fl_mode f of
          FmRenaming \<Rightarrow> (str ''nouveau nom: '' @ fl_edit f, rev)
        | FmCreating \<Rightarrow>
            ((if fl_creating_dir f then str ''nouveau dossier: '' else str ''nouveau fichier: '') @ fl_edit f, rev)
        | FmConfirming \<Rightarrow> (confirm_line pn, rev\<lparr>st_fg := Indexed 1\<rparr>)
        | FmNormal \<Rightarrow>
            if pn_status pn \<noteq> [] then (pn_status pn, style_init\<lparr>st_fg := Indexed 1\<rparr>)
            else if pn_filter pn \<noteq> [] then (str ''filtre: '' @ pn_filter pn, style_init\<lparr>st_attrs := attr_Bold\<rparr>)
            else if fl_dragging f \<and> fl_drag f \<noteq> [] then
              (str ''deplacer ''
               @ (if length (fl_drag f) > 1 then to_string (int (length (fl_drag f))) @ str '' elements''
                  else drop (case rfind_byte slash (hd (fl_drag f)) of Some k \<Rightarrow> k + 1 | None \<Rightarrow> 0) (hd (fl_drag f)))
               @ str '' vers...'', rev)
            else if jb_active (fl_job f) then
              ((case jb_kind (fl_job f) of OpMove \<Rightarrow> str ''deplacement'' | OpDelete \<Rightarrow> str ''suppression'' | OpCopy \<Rightarrow> str ''copie'')
               @ str '' : '' @ jb_current (fl_job f) @ str '' ('' @ to_string (jb_done (fl_job f)) @ str '' faits, Echap pour arreter)'',
               style_init\<lparr>st_attrs := attr_Bold, st_fg := Indexed 4\<rparr>)
            else if (case pane_selected pn of Some e \<Rightarrow> de_kind e = EkLink | None \<Rightarrow> False) then
              (case fs_readlink fs (join_path (pn_path pn) (de_name (pn_visible pn ! pn_sel pn))) 511 (fl_disk f) of
                 Inr t \<Rightarrow> if t \<noteq> [] then (str ''-> '' @ t, style_init\<lparr>st_attrs := attr_Dim\<rparr>) else ([], style_init)
               | Inl _ \<Rightarrow> ([], style_init))
            else if pn_marked pn \<noteq> {} then
              (to_string (int (card (pn_marked pn))) @ str '' selectionnes, '' @ human_size (marked_bytes pn),
               style_init\<lparr>st_attrs := attr_Bold, st_fg := Indexed 3\<rparr>)
            else ([], style_init))"

definition draw_pane ::
  "bool \<Rightarrow> (int \<Rightarrow> (int \<times> int \<times> int) option) \<Rightarrow> 'w fs \<Rightarrow> 'w files \<Rightarrow> rect \<Rightarrow> surface \<Rightarrow> pane \<Rightarrow> bool \<Rightarrow> surface" where
  "draw_pane amb localtime fs f v s pn focused =
     (if rw v \<le> 0 \<or> rh v \<le> 0 then s
      else
        let s1 = draw_header amb v (draw_path amb v s pn focused) pn;
            s2 = foldl (draw_entry amb localtime v pn) s1 [0..<min (list_rows f) (length (pn_visible pn) - pn_top pn)];
            (bottom, st) = state_line fs f pn
        in if bottom \<noteq> [] then fst (view_text amb v s2 0 (rh v - 1) (elide_right amb bottom (rw v)) st) else s2)"

section \<open>The window\<close>

definition draw_wall :: "bool \<Rightarrow> rect \<Rightarrow> int \<Rightarrow> surface \<Rightarrow> surface" where
  "draw_wall amb v x s = foldl (\<lambda>s y. view_put amb v s x y 0x2502 (style_init\<lparr>st_attrs := attr_Dim\<rparr>)) s [0..rh v - 1]"

definition render_panes ::
  "bool \<Rightarrow> (int \<Rightarrow> (int \<times> int \<times> int) option) \<Rightarrow> 'w fs \<Rightarrow> 'w files \<Rightarrow> rect \<Rightarrow> surface \<Rightarrow> surface" where
  "render_panes amb localtime fs f v s =
     (if \<not> fl_split f then draw_pane amb localtime fs f v s (fl_panes f 0) True
      else
        let left = pane_width f;
            s1 = draw_pane amb localtime fs f (view_sub v (mk_rect 0 0 left (rh v))) s (fl_panes f 0) (fl_active f = 0);
            s2 = draw_wall amb v left s1;
            right = rw v - left - 1
        in if right > 0
           then draw_pane amb localtime fs f (view_sub v (mk_rect (left + 1) 0 right (rh v))) s2 (fl_panes f 1) (fl_active f = 1)
           else s2)"

definition draw_places :: "bool \<Rightarrow> bytes option \<Rightarrow> 'w files \<Rightarrow> rect \<Rightarrow> surface \<Rightarrow> surface" where
  "draw_places amb home f v s =
     foldl (\<lambda>s i.
         let (label, path) = places home ! i;
             st = (if path = pn_path (pane_of f) then style_init\<lparr>st_attrs := attr_Bold\<rparr> else style_init)
         in fst (view_text amb v s 0 (2 + int i) (elide_right amb label kPlacesWidth) (st\<lparr>st_fg := Indexed 4\<rparr>)))
       (fst (view_text amb v s 0 0 (str ''Raccourcis'') (style_init\<lparr>st_attrs := attr_Underline\<rparr>))) [0..<length (places home)]"

definition draw_fmenu :: "bool \<Rightarrow> 'w files \<Rightarrow> rect \<Rightarrow> surface \<Rightarrow> surface" where
  "draw_fmenu amb f v s =
     (if \<not> fl_menu_open f then s
      else
        let r = fl_menu_rect f; st = style_init\<lparr>st_attrs := attr_Reverse\<rparr>;
            s1 = view_box amb v (view_fill v s r st) r BorderUnicode st;
            room = rw r - 2; keys = st\<lparr>st_attrs := st_attrs st OR attr_Dim\<rparr>
        in foldl (\<lambda>s i.
             let it = fl_menu_shown f ! i; y = ry r + 1 + int i;
                 s2 = fst (view_text amb v s (rx r + 1) y (elide_right amb (fm_label it) room) st);
                 kw = text_cells amb (fm_keys it)
             in if kw > 0 \<and> kw < room then fst (view_text amb v s2 (rx r + rw r - 1 - kw) y (fm_keys it) keys) else s2)
           s1 [0..<min (length (fl_menu_shown f)) (nat (rh r - 2))])"

definition files_render ::
  "bool \<Rightarrow> (int \<Rightarrow> (int \<times> int \<times> int) option) \<Rightarrow> 'w fs \<Rightarrow> bytes option \<Rightarrow> 'w files \<Rightarrow> rect \<Rightarrow> surface \<Rightarrow> surface" where
  "files_render amb localtime fs home f v s =
     (if fl_places f then
        let s1 = draw_places amb home f (view_sub v (mk_rect 0 0 kPlacesWidth (rh v))) s;
            s2 = draw_wall amb v kPlacesWidth s1;
            rest = rw v - kPlacesWidth - 1
        in if rest \<le> 0 then s2
           else draw_fmenu amb f v (render_panes amb localtime fs f (view_sub v (mk_rect (kPlacesWidth + 1) 0 rest (rh v))) s2)
      else draw_fmenu amb f v (render_panes amb localtime fs f v s))"

lemma draw_pane_draws: "draws amb v s (draw_pane amb localtime fs f v s pn focused)"
  unfolding draw_pane_def draw_header_def draw_path_def draw_entry_def Let_def
  by (auto split: prod.split intro!: draws_after)

lemma draw_wall_draws: "draws amb v s (draw_wall amb v x s)"
  unfolding draw_wall_def by (intro draws_after)

lemma render_panes_draws: "draws amb v s (render_panes amb localtime fs f v s)"
  unfolding render_panes_def Let_def
  by (auto intro!: draw_pane_draws d_then[OF _ d_sub[OF draw_pane_draws]] d_then[OF _ draw_wall_draws] d_sub[OF draw_pane_draws])

lemma draw_fmenu_draws: "draws amb v s (draw_fmenu amb f v s)"
  unfolding draw_fmenu_def Let_def by (intro draws_after)

lemma draw_places_draws: "draws amb v s (draw_places amb home f v s)"
  unfolding draw_places_def Let_def by (auto split: prod.split intro!: draws_after)

lemma files_render_draws: "draws amb v s (files_render amb localtime fs home f v s)"
  unfolding files_render_def Let_def
  by (auto intro!: d_then[OF _ draw_fmenu_draws] d_then[OF _ d_sub[OF render_panes_draws]] d_then[OF _ draw_wall_draws]
      d_sub[OF draw_places_draws] render_panes_draws)

section \<open>The path bar\<close>

definition segs_cost :: "segment list \<Rightarrow> int" where
  "segs_cost ss = sum_list (map segment_cost ss)"

lemma path_names_ne: "n \<in> set (path_names p) \<Longrightarrow> n \<noteq> []"
proof (induction p rule: path_names.induct)
  case (1 p)
  let ?q = "dropWhile ((=) slash) p"
  have "takeWhile ((\<noteq>) slash) ?q \<noteq> []" if "?q \<noteq> []"
    using that hd_dropWhile[OF that] by (cases ?q) auto
  then show ?case using 1 by (subst (asm) (2) path_names.simps) (auto simp: Let_def split: if_splits)
qed

lemma built_segments_ok:
  assumes "\<forall>n \<in> set ns. n \<noteq> []" "s \<in> set (built_segments b ns)"
  shows "0 \<le> sg_w s \<and> sg_path s \<noteq> [slash]"
  using assms by (induction ns arbitrary: b) (auto simp: Let_def append_eq_Cons_conv)

definition seg_list :: "segment list \<Rightarrow> bool" where
  "seg_list ss \<longleftrightarrow> (\<forall>s \<in> set ss. 0 \<le> sg_w s)"

lemma segment_cost_ge: "0 \<le> sg_w s \<Longrightarrow> sg_w s \<le> segment_cost s \<and> 0 \<le> segment_cost s"
  by (simp add: segment_cost_def)

lemma segs_cost_nonneg: "seg_list ss \<Longrightarrow> 0 \<le> segs_cost ss"
  by (induction ss) (auto simp: segs_cost_def seg_list_def segment_cost_def)

lemma place_segments_spec:
  "seg_list ss \<Longrightarrow> sorted_wrt (\<lambda>a b. sg_x a + sg_w a \<le> sg_x b) (place_segments x ss)
    \<and> (\<forall>s \<in> set (place_segments x ss). x \<le> sg_x s \<and> sg_x s + segment_cost s \<le> x + segs_cost ss
        \<and> (\<exists>t \<in> set ss. sg_path s = sg_path t \<and> sg_w s = sg_w t))
    \<and> length (place_segments x ss) = length ss"
proof (induction ss arbitrary: x)
  case (Cons t ss)
  have t: "0 \<le> sg_w t" "seg_list ss" using Cons.prems by (simp_all add: seg_list_def)
  note ih = Cons.IH[OF t(2), of "x + segment_cost t"]
  have c: "segment_cost (t\<lparr>sg_x := x\<rparr>) = segment_cost t" by (simp add: segment_cost_def)
  show ?case using ih t(1) segment_cost_ge[OF t(1)] segs_cost_nonneg[OF t(2)]
    by (fastforce simp: segs_cost_def c)
qed (simp add: segs_cost_def)

lemma trim_segments_spec:
  "cost = segs_cost ss \<Longrightarrow> \<exists>pre. ss = pre @ trim_segments w cost ss
    \<and> (1 < length (trim_segments w cost ss) \<longrightarrow> segs_cost (trim_segments w cost ss) \<le> w)"
proof (induction w cost ss rule: trim_segments.induct)
  case (1 w cost s t ss)
  show ?case
  proof (cases "cost > w")
    case True
    then obtain pre where "t # ss = pre @ trim_segments w (cost - segment_cost s) (t # ss)"
      "1 < length (trim_segments w (cost - segment_cost s) (t # ss)) \<longrightarrow> segs_cost (trim_segments w (cost - segment_cost s) (t # ss)) \<le> w"
      using 1 by (auto simp: segs_cost_def)
    then show ?thesis using True by (intro exI[of _ "s # pre"]) simp
  qed (use 1 in simp)
qed simp_all

lemma path_segments_spec:
  defines "root \<equiv> \<lparr>sg_x = 0, sg_w = 1, sg_path = [slash]\<rparr>"
  shows "sorted_wrt (\<lambda>a b. sg_x a + sg_w a \<le> sg_x b) (path_segments p w)
    \<and> (1 < length (path_segments p w) \<longrightarrow> (\<forall>s \<in> set (path_segments p w). 0 \<le> sg_x s \<and> sg_x s + sg_w s \<le> w))"
proof -
  define rest where "rest = built_segments [] (path_names p)"
  define kept where "kept = trim_segments w (segs_cost (root # rest)) (root # rest)"
  define x where "x = (if length kept < length (root # rest) then 1 else (0 :: int))"
  have b: "0 \<le> sg_w s \<and> sg_path s \<noteq> [slash]" if "s \<in> set (rest)" for s
    using built_segments_ok[OF _ that[unfolded rest_def]] path_names_ne by blast
  obtain pre where pre: "(root # rest) = pre @ kept" "1 < length kept \<longrightarrow> segs_cost kept \<le> w"
    using trim_segments_spec[of "segs_cost (root # rest)" "root # rest" w] unfolding kept_def by blast
  have nn: "0 \<le> sg_w s" if "s \<in> set (root # rest)" for s using b that by (auto simp: root_def)
  have sub: "set kept \<subseteq> set (root # rest)" by (metis pre(1) set_append Un_upper2)
  then have sl: "seg_list kept" using nn unfolding seg_list_def by blast
  note ps = place_segments_spec[OF sl, of x]
  have eq: "path_segments p w = place_segments x kept" by (simp add: path_segments_def segs_cost_def root_def x_def kept_def rest_def Let_def)
  have "0 \<le> sg_x s \<and> sg_x s + sg_w s \<le> w" if s: "s \<in> set (path_segments p w)" and len: "1 < length (path_segments p w)" for s
  proof -
    have "\<forall>s \<in> set (place_segments x kept). x \<le> sg_x s \<and> sg_x s + segment_cost s \<le> x + segs_cost kept
        \<and> (\<exists>t \<in> set kept. sg_path s = sg_path t \<and> sg_w s = sg_w t)" using ps by blast
    note at = bspec[OF this s[unfolded eq]]
    obtain t where t: "t \<in> set kept" "sg_path s = sg_path t" "sg_w s = sg_w t" using at by blast
    have x: "x \<le> sg_x s" "sg_x s + segment_cost s \<le> x + segs_cost kept" using at by blast+
    have le: "segs_cost kept \<le> w" using pre(2) len ps eq by simp
    have "0 \<le> sg_w s" using nn[of t] t sub by auto
    then have c: "sg_w s \<le> segment_cost s" by (simp add: segment_cost_ge)
    show ?thesis
    proof (cases "length kept < length (root # rest)")
      case False
      then show ?thesis using x c le by (simp add: x_def)
    next
      case True
      then obtain u us where "pre = u # us" using pre(1) by (metis append_Nil less_irrefl list.exhaust)
      then have "set kept \<subseteq> set (rest)"
        using pre(1) by (metis append_Cons list.inject set_append Un_upper2)
      then have "sg_path s \<noteq> [slash]" using b t by auto
      then show ?thesis using x le True by (simp add: segment_cost_def x_def)
    qed
  qed
  then show ?thesis using ps eq by simp
qed

section \<open>Properties\<close>

text \<open>
  The path bar: the segments a click is compared with do not overlap, when there is more than one they all
  lie inside the bar whatever the length of the path, and a click anywhere on one goes to the directory it
  names.  \<open>draw_path\<close> draws the same segments where it is given the width \<open>pane_width\<close>, which it is not for
  the right of two panes of different widths, and where names are ASCII.
\<close>

theorem path_click_where_drawn:
  assumes "s \<in> set (path_segments (pn_path (pane_of f)) (pane_width f))"
    and "sg_x s \<le> x" and "x < sg_x s + sg_w s"
  shows "bar_path_click fs x f = go_to fs (sg_path s) f
    \<and> sorted_wrt (\<lambda>a b. sg_x a + sg_w a \<le> sg_x b) (path_segments (pn_path (pane_of f)) (pane_width f))
    \<and> (1 < length (path_segments (pn_path (pane_of f)) (pane_width f)) \<longrightarrow> 0 \<le> sg_x s \<and> sg_x s + sg_w s \<le> pane_width f)"
proof -
  let ?ss = "path_segments (pn_path (pane_of f)) (pane_width f)"
  note sp = path_segments_spec[of "pn_path (pane_of f)" "pane_width f"]
  obtain i where i: "i < length ?ss" "?ss ! i = s" using assms(1) by (auto simp: in_set_conv_nth)
  have "\<not> (\<not> (x < sg_x (?ss ! j) \<or> x \<ge> sg_x (?ss ! j) + sg_w (?ss ! j)))" if "j < i" for j
  proof -
    have "sg_x (?ss ! j) + sg_w (?ss ! j) \<le> sg_x s"
      using sp i that by (auto simp: sorted_wrt_iff_nth_less)
    then show ?thesis using assms(2) by simp
  qed
  then have "List.find (\<lambda>s. \<not> (x < sg_x s \<or> x \<ge> sg_x s + sg_w s)) ?ss = Some s"
    using i assms(2,3) unfolding find_Some_iff by (intro exI[of _ i]) auto
  then show ?thesis using sp assms(1) by (simp add: bar_path_click_def)
qed

theorem path_click_where_drawn_witness:
  "bar_path_click mem_fs 0 (files_init mem_fs [slash] (mem_nested 1)) = go_to mem_fs [slash] (files_init mem_fs [slash] (mem_nested 1))"
proof -
  let ?f = "files_init mem_fs [slash] (mem_nested 1)"
  have p: "path_segments [slash] w = [\<lparr>sg_x = 0, sg_w = 1, sg_path = [slash]\<rparr>]" for w
    by (simp add: path_segments_def path_names.simps Let_def)
  have "pn_path (pane_of ?f) = [slash]"
    by (simp add: files_init_def reload_def Let_def pane_of_def upd_pane_def reload_pane_def refilter_pane_def settle_pane_def
        pn_path_def read_dir_def pane_init_def select_name_def split: sum.split option.split)
  then show ?thesis using path_click_where_drawn[of "\<lparr>sg_x = 0, sg_w = 1, sg_path = [slash]\<rparr>" ?f 0 mem_fs] p by simp
qed

end
