(* ===== verification/Daemon.thy ===== *)
theory Daemon
  imports Session_Props OutQueue Proto
begin

text \<open>
  \<open>src/daemon/daemon.cpp\<close>, the loop of the daemon, \<open>src/daemon/reap.cpp\<close> and the part of
  \<open>src/common/net.cpp\<close> that accepts a peer.  What the kernel answers is a record of the model
  (\<open>kernel\<close>), one for each event and one for each end of a turn: the environment of the session with
  the clock, what \<open>send\<close> answers to what there is to be sent, what \<open>read\<close>, \<open>accept4\<close> and \<open>waitpid\<close>
  return.  A phase of a turn reads one instant of the clock.  Descriptors are the kernel's numbers;
  what the daemon asks of the kernel is the list \<open>dm_calls\<close>.
\<close>

section \<open>What the kernel answers\<close>

datatype sock_answer = ReadSome bytes | ReadAgain | ReadIntr | ReadError

datatype accept_answer = AcceptFd int | AcceptIntr | AcceptAborted | AcceptAgain | AcceptFull | AcceptBroken

text \<open>The credentials of the peer, or the class of the errno of \<open>getsockopt\<close>.\<close>

datatype peer_answer = PeerUid nat | PeerFull | PeerBroken

record kernel =
  kn_env :: session_env
  kn_send :: "int \<Rightarrow> bytes \<Rightarrow> send_result list"
  kn_read :: "int \<Rightarrow> sock_answer list"
  kn_accept :: "accept_answer list"
  kn_peer :: "int \<Rightarrow> peer_answer"
  kn_signals :: "nat list"
  kn_reaped :: "(int \<times> int) list"

abbreviation kn_now :: "kernel \<Rightarrow> int" where
  "kn_now k \<equiv> steady_now (kn_env k)"

section \<open>Accepting a peer\<close>

datatype accept_outcome = AcAccepted int | AcEmpty | AcRejected | AcTransient | AcFatal

fun accept_peer :: "nat \<Rightarrow> (int \<Rightarrow> peer_answer) \<Rightarrow> accept_answer list \<Rightarrow> accept_outcome" where
  "accept_peer uid peer [] = AcEmpty"
| "accept_peer uid peer (AcceptFd fd # as) =
     (case peer fd of
        PeerUid u \<Rightarrow> if u \<noteq> uid then AcRejected else AcAccepted fd
      | PeerFull \<Rightarrow> AcTransient
      | PeerBroken \<Rightarrow> AcFatal)"
| "accept_peer uid peer (AcceptIntr # as) = accept_peer uid peer as"
| "accept_peer uid peer (AcceptAborted # as) = accept_peer uid peer as"
| "accept_peer uid peer (AcceptAgain # as) = AcEmpty"
| "accept_peer uid peer (AcceptFull # as) = AcTransient"
| "accept_peer uid peer (AcceptBroken # as) = AcFatal"

section \<open>State\<close>

definition kBackpressureCeiling :: nat where "kBackpressureCeiling = 2 ^ 20"
definition kFrameIntervalMs :: int where "kFrameIntervalMs = 33"
definition kPendingHelloTimeout :: int where "kPendingHelloTimeout = 5000 * 1000000"
definition kEscAmbiguity :: int where "kEscAmbiguity = 50 * 1000000"
definition kDetachReasonUpdate :: bytes where "kDetachReasonUpdate = str ''mise a jour''"

definition kGenListener :: "32 word" where "kGenListener = 1"
definition kGenTimer :: "32 word" where "kGenTimer = 2"
definition kGenSignal :: "32 word" where "kGenSignal = 3"

text \<open>The masks of \<open>epoll\<close>.\<close>

definition kEpollIn :: "32 word" where "kEpollIn = 1"
definition kEpollOut :: "32 word" where "kEpollOut = 4"
definition kEpollErr :: "32 word" where "kEpollErr = 8"
definition kEpollHup :: "32 word" where "kEpollHup = 16"

text \<open>The switch of \<open>render/width.cpp\<close>, which the program never sets to anything else.\<close>

definition g_ambiguous_wide :: bool where "g_ambiguous_wide = False"

record conn =
  cn_fd :: int
  cn_key :: "64 word"
  cn_dec :: decoder
  cn_input :: input_parser
  cn_out :: outqueue
  cn_differ :: "differ option"
  cn_cols :: int
  cn_rows :: int

definition conn_new :: "int \<Rightarrow> 64 word \<Rightarrow> conn" where
  "conn_new fd key = \<lparr>cn_fd = fd, cn_key = key, cn_dec = decoder_init, cn_input = input_init,
     cn_out = outqueue_init kBackpressureCeiling, cn_differ = None, cn_cols = 80, cn_rows = 24\<rparr>"

datatype daemon_call =
    EpollAdd "64 word" int "32 word"
  | EpollMod "64 word" int "32 word"
  | EpollDel int
  | SendTo int bytes
  | CloseFd int
  | CloseListener
  | ArmTimer int

record 'a daemon =
  dm_session :: "'a session"
  dm_screen :: surface
  dm_clock :: frameclock
  dm_client :: "conn option"
  dm_pending :: "conn option"
  dm_pending_deadline :: int
  dm_closed :: "64 word list"
  dm_next_gen :: "32 word"
  dm_esc_armed :: bool
  dm_esc_deadline :: int
  dm_last_refresh :: int
  dm_running :: bool
  dm_reason :: bytes
  dm_calls :: "daemon_call list"

definition say :: "daemon_call list \<Rightarrow> 'a daemon \<Rightarrow> 'a daemon" where
  "say cs d = d\<lparr>dm_calls := dm_calls d @ cs\<rparr>"

definition upd_session :: "('a session \<Rightarrow> 'a session) \<Rightarrow> 'a daemon \<Rightarrow> 'a daemon" where
  "upd_session f d = d\<lparr>dm_session := f (dm_session d)\<rparr>"

definition dirty_frame :: "'a daemon \<Rightarrow> 'a daemon" where
  "dirty_frame d = d\<lparr>dm_clock := mark_dirty (dm_clock d)\<rparr>"

text \<open>What \<open>run_daemon\<close> builds before its loop, the listener bound.\<close>

definition daemon_init :: "int \<Rightarrow> int \<Rightarrow> int \<Rightarrow> int \<Rightarrow> 'a session \<Rightarrow> 'a daemon" where
  "daemon_init listener sigfd timer now s =
     \<lparr>dm_session = s, dm_screen = surface_new 80 24, dm_clock = OutQueue.clock_init kFrameIntervalMs,
      dm_client = None, dm_pending = None, dm_pending_deadline = 0, dm_closed = [], dm_next_gen = kGenFirstDynamic,
      dm_esc_armed = False, dm_esc_deadline = 0, dm_last_refresh = now, dm_running = True,
      dm_reason = str ''arret (raison inconnue)'',
      dm_calls = [EpollAdd (make_key 0 kGenListener) listener kEpollIn, EpollAdd (make_key 0 kGenSignal) sigfd kEpollIn,
        EpollAdd (make_key 0 kGenTimer) timer kEpollIn]\<rparr>"

section \<open>Connections\<close>

text \<open>\<open>out.flush\<close>: the connection, the bytes sent, and whether it is still good.  Answers of \<open>send\<close>
  that end before the queue does are a kernel with no more room.\<close>

definition flush_conn :: "kernel \<Rightarrow> conn \<Rightarrow> conn \<times> bytes \<times> bool" where
  "flush_conn k c =
     (let (q, wire, ok) = flush (cn_out c) (kn_send k (cn_fd c) (OutQueue.pending (cn_out c)) @ [SendAgain])
      in (c\<lparr>cn_out := q\<rparr>, wire, ok = Some True))"

definition push_conn :: "msg \<Rightarrow> conn \<Rightarrow> conn" where
  "push_conn m c = c\<lparr>cn_out := push (cn_out c) (encode m)\<rparr>"

definition farewell :: "kernel \<Rightarrow> bytes option \<Rightarrow> conn \<Rightarrow> daemon_call list" where
  "farewell k reason c =
     (case reason of
        None \<Rightarrow> []
      | Some r \<Rightarrow> [SendTo (cn_fd c) (fst (snd (flush_conn k (push_conn (Detached r) c))))])"

definition drop_client :: "kernel \<Rightarrow> bytes option \<Rightarrow> 'a daemon \<Rightarrow> 'a daemon" where
  "drop_client k reason d =
     (case dm_client d of
        None \<Rightarrow> d
      | Some c \<Rightarrow>
          upd_session cancel_drag
            (say (farewell k reason c @ [EpollDel (cn_fd c), CloseFd (cn_fd c)])
              (d\<lparr>dm_closed := dm_closed d @ [cn_key c], dm_client := None, dm_clock := clock_reset (dm_clock d)\<rparr>)))"

definition drop_pending :: "'a daemon \<Rightarrow> 'a daemon" where
  "drop_pending d =
     (case dm_pending d of
        None \<Rightarrow> d
      | Some c \<Rightarrow> say [EpollDel (cn_fd c), CloseFd (cn_fd c)]
          (d\<lparr>dm_closed := dm_closed d @ [cn_key c], dm_pending := None\<rparr>))"

text \<open>\<open>drain_socket\<close>: the decoder, and whether the peer has closed.  A read of no byte is the end.\<close>

fun drain_socket :: "decoder \<Rightarrow> sock_answer list \<Rightarrow> decoder \<times> bool" where
  "drain_socket dec [] = (dec, False)"
| "drain_socket dec (ReadSome bs # ans) = (if bs = [] then (dec, True) else drain_socket (decoder_feed dec bs) ans)"
| "drain_socket dec (ReadAgain # ans) = (dec, False)"
| "drain_socket dec (ReadIntr # ans) = drain_socket dec ans"
| "drain_socket dec (ReadError # ans) = (dec, True)"

section \<open>Before the wait\<close>

text \<open>\<open>while (auto e = input.next()) session.on_input(*e)\<close>, for the parser of the client.\<close>

definition hear :: "'a app_ops \<Rightarrow> kernel \<Rightarrow> input_parser \<Rightarrow> 'a daemon \<Rightarrow> 'a daemon" where
  "hear ops k p d =
     (case dm_client d of
        None \<Rightarrow> d
      | Some c \<Rightarrow>
          upd_session (\<lambda>s. foldl (\<lambda>s e. on_input ops g_ambiguous_wide (kn_env k) e s) s (ip_ready p))
            (d\<lparr>dm_client := Some (c\<lparr>cn_input := p\<lparr>ip_ready := []\<rparr>\<rparr>)\<rparr>))"

definition esc_step :: "'a app_ops \<Rightarrow> kernel \<Rightarrow> 'a daemon \<Rightarrow> 'a daemon" where
  "esc_step ops k d =
     (case dm_client d of
        None \<Rightarrow> d\<lparr>dm_esc_armed := False\<rparr>
      | Some c \<Rightarrow>
          if \<not> ip_esc_pending (cn_input c) then d\<lparr>dm_esc_armed := False\<rparr>
          else if \<not> dm_esc_armed d then d\<lparr>dm_esc_armed := True, dm_esc_deadline := kn_now k + kEscAmbiguity\<rparr>
          else if kn_now k \<ge> dm_esc_deadline d
               then (dirty_frame (hear ops k (input_timeout (cn_input c)) d))\<lparr>dm_esc_armed := False\<rparr>
               else d)"

text \<open>A time-out of \<open>epoll_wait\<close> shortened by a delay; \<open>-1\<close> stands for none.\<close>

definition at_most :: "int \<Rightarrow> int \<Rightarrow> int" where
  "at_most t left = (if t < 0 then left else min t left)"

definition render_timeout :: "kernel \<Rightarrow> 'a daemon \<Rightarrow> int" where
  "render_timeout k d =
     (case dm_client d of
        None \<Rightarrow> - 1
      | Some c \<Rightarrow> at_most (if cn_differ c \<noteq> None then delay_ms (dm_clock d) (kn_now k) else - 1) 1000)"

definition pending_timeout :: "kernel \<Rightarrow> 'a daemon \<Rightarrow> int \<Rightarrow> int" where
  "pending_timeout k d t =
     (case dm_pending d of
        None \<Rightarrow> t
      | Some _ \<Rightarrow> at_most t (max 0 (to_ms (dm_pending_deadline d - kn_now k))))"

definition help_timeout :: "kernel \<Rightarrow> 'a daemon \<Rightarrow> int \<Rightarrow> int" where
  "help_timeout k d t =
     (let h = help_delay_ms (kn_env k) (dm_session d) in if h \<ge> 0 then at_most t h else t)"

definition update_wait :: "kernel \<Rightarrow> 'a daemon \<times> int \<Rightarrow> 'a daemon \<times> int" where
  "update_wait k dt =
     (case dt of (d, t) \<Rightarrow>
        let u = sv_delay_ms (en_update (kn_env k)) (se_update (dm_session d))
        in if u \<ge> 0 then (if u = 0 then (upd_session (tick_update (kn_env k)) d, t) else (d, at_most t u)) else (d, t))"

definition refresh_wait :: "'a app_ops \<Rightarrow> kernel \<Rightarrow> 'a daemon \<times> int \<Rightarrow> 'a daemon \<times> int" where
  "refresh_wait ops k dt =
     (case dt of (d, t) \<Rightarrow>
        let r = (if dm_client d \<noteq> None then refresh_delay_ms ops (dm_session d) else - 1);
            left = max 0 (r - to_ms (kn_now k - dm_last_refresh d))
        in if r \<ge> 0
           then (if left = 0
                 then (dirty_frame (upd_session (mark_refresh_due ops (kn_env k)) d)\<lparr>dm_last_refresh := kn_now k\<rparr>, 0)
                 else (d, at_most t left))
           else (d, t))"

definition esc_timeout :: "kernel \<Rightarrow> 'a daemon \<Rightarrow> int \<Rightarrow> int" where
  "esc_timeout k d t =
     (if dm_esc_armed d then at_most t (max 0 (to_ms (dm_esc_deadline d - kn_now k))) else t)"

text \<open>The head of a turn: the new state and the time-out given to \<open>epoll_wait\<close>.\<close>

definition before_wait :: "'a app_ops \<Rightarrow> kernel \<Rightarrow> 'a daemon \<Rightarrow> 'a daemon \<times> int" where
  "before_wait ops k d0 =
     (let d = esc_step ops k (d0\<lparr>dm_closed := []\<rparr>);
          t = help_timeout k d (pending_timeout k d (render_timeout k d));
          (d1, t1) = refresh_wait ops k (update_wait k (d, t))
      in (d1, esc_timeout k d1 t1))"

section \<open>Events\<close>

text \<open>\<open>reap_children\<close>: the answers of \<open>waitpid\<close> until one is no process.\<close>

fun reap_children :: "'a app_ops \<Rightarrow> session_env \<Rightarrow> (int \<times> int) list \<Rightarrow> 'a session \<Rightarrow> 'a session" where
  "reap_children ops env [] s = s"
| "reap_children ops env ((pid, status) # ans) s =
     (if pid \<le> 0 then s else reap_children ops env ans (session_child_exit ops env pid status s))"

definition kSigInt :: nat where "kSigInt = 2"
definition kSigTerm :: nat where "kSigTerm = 15"
definition kSigChld :: nat where "kSigChld = 17"

definition one_signal :: "nat \<Rightarrow> 'a daemon \<Rightarrow> 'a daemon" where
  "one_signal sig d =
     (if sig = kSigTerm \<or> sig = kSigInt
      then d\<lparr>dm_reason := (if sig = kSigTerm then str ''arret sur SIGTERM'' else str ''arret sur SIGINT''), dm_running := False\<rparr>
      else d)"

definition signal_event :: "'a app_ops \<Rightarrow> kernel \<Rightarrow> 'a daemon \<Rightarrow> 'a daemon" where
  "signal_event ops k d =
     (let d1 = fold one_signal (kn_signals k) d
      in if kSigChld \<in> set (kn_signals k) then upd_session (reap_children ops (kn_env k) (kn_reaped k)) d1 else d1)"

definition listener_event :: "nat \<Rightarrow> kernel \<Rightarrow> 'a daemon \<Rightarrow> 'a daemon" where
  "listener_event uid k d =
     (case accept_peer uid (kn_peer k) (kn_accept k) of
        AcAccepted fd \<Rightarrow>
          let d1 = drop_pending d; key = make_key 0 (dm_next_gen d1)
          in say [EpollAdd key fd kEpollIn]
               (d1\<lparr>dm_pending := Some (conn_new fd key), dm_next_gen := dm_next_gen d1 + 1,
                   dm_pending_deadline := kn_now k + kPendingHelloTimeout\<rparr>)
      | _ \<Rightarrow> d)"

definition resize_client :: "16 word \<Rightarrow> 16 word \<Rightarrow> 'a daemon \<Rightarrow> 'a daemon" where
  "resize_client w h d =
     (case dm_client d of
        None \<Rightarrow> d
      | Some c \<Rightarrow>
          dirty_frame (d\<lparr>dm_client := Some (c\<lparr>cn_cols := uint w, cn_rows := uint h,
               cn_differ := map_option differ_invalidate (cn_differ c)\<rparr>),
             dm_screen := surface_resize (dm_screen d) (uint w) (uint h)\<rparr>))"

text \<open>A message of the attached client; it is served while it is the client.\<close>

definition client_msg :: "'a app_ops \<Rightarrow> kernel \<Rightarrow> 'a daemon \<Rightarrow> msg \<Rightarrow> 'a daemon" where
  "client_msg ops k d m =
     (case dm_client d of
        None \<Rightarrow> d
      | Some c \<Rightarrow>
          (case m of
             msg.Input bs \<Rightarrow> dirty_frame (hear ops k (input_feed (cn_input c) bs) d)
           | msg.Resize w h \<Rightarrow> resize_client w h d
           | _ \<Rightarrow> d))"

definition hung_up :: "32 word \<Rightarrow> bool" where
  "hung_up events \<longleftrightarrow> events AND (kEpollHup OR kEpollErr) \<noteq> 0"

definition wants_in :: "32 word \<Rightarrow> bool" where "wants_in events \<longleftrightarrow> events AND kEpollIn \<noteq> 0"
definition wants_out :: "32 word \<Rightarrow> bool" where "wants_out events \<longleftrightarrow> events AND kEpollOut \<noteq> 0"

text \<open>The readable socket of the client: what it says is served before its end is honoured.\<close>

definition client_in :: "'a app_ops \<Rightarrow> kernel \<Rightarrow> 32 word \<Rightarrow> 'a daemon \<Rightarrow> 'a daemon" where
  "client_in ops k events d =
     (case dm_client d of
        None \<Rightarrow> d
      | Some c \<Rightarrow>
          if wants_in events then
            let (dec, closed) = drain_socket (cn_dec c) (kn_read k (cn_fd c));
                (msgs, dec1) = decoder_drain dec;
                d1 = foldl (client_msg ops k) (d\<lparr>dm_client := Some (c\<lparr>cn_dec := dec1\<rparr>)\<rparr>) msgs
            in if d_failed dec1 then drop_client k (Some (str ''message de protocole invalide'')) d1
               else if closed \<or> hung_up events then drop_client k None d1 else d1
          else if hung_up events then drop_client k None d else d)"

definition client_event :: "'a app_ops \<Rightarrow> kernel \<Rightarrow> 32 word \<Rightarrow> 'a daemon \<Rightarrow> 'a daemon" where
  "client_event ops k events d =
     (case dm_client d of
        None \<Rightarrow> d
      | Some c \<Rightarrow>
          if wants_out events then
            let (c1, wire, ok) = flush_conn k c; d1 = say [SendTo (cn_fd c) wire] (d\<lparr>dm_client := Some c1\<rparr>)
            in if \<not> ok then drop_client k None d1
               else client_in ops k events
                      (if wants_write (cn_out c1) then d1 else say [EpollMod (cn_key c) (cn_fd c) kEpollIn] d1)
          else client_in ops k events d)"

text \<open>The first \<open>Hello\<close> among what a connection has said.\<close>

fun first_hello :: "msg list \<Rightarrow> hello option" where
  "first_hello [] = None"
| "first_hello (Hello h # msgs) = Some h"
| "first_hello (_ # msgs) = first_hello msgs"

definition kIncompatible :: bytes where
  "kIncompatible = str ''version du demon differente : relancez `termos --kill`''"

definition refuse :: "kernel \<Rightarrow> conn \<Rightarrow> 'a daemon \<Rightarrow> 'a daemon" where
  "refuse k c d =
     drop_pending (say [SendTo (cn_fd c) (fst (snd (flush_conn k (push_conn (Incompatible kIncompatible) c))))] d)"

text \<open>The connection takes the place of the client.\<close>

definition promote :: "kernel \<Rightarrow> hello \<Rightarrow> conn \<Rightarrow> 'a daemon \<Rightarrow> 'a daemon" where
  "promote k h c d =
     (let d1 = drop_client k (Some (str ''un autre client a pris la main'')) d;
          prof = profile_detect (h_term_name h) (h_colorterm h) (h_utf8 h);
          c1 = c\<lparr>cn_cols := uint (h_cols h), cn_rows := uint (h_rows h), cn_differ := Some (differ_new prof)\<rparr>
      in dirty_frame (upd_session (\<lambda>s. cancel_drag (set_output prof s))
           (d1\<lparr>dm_client := Some (push_conn Welcome c1), dm_pending := None,
              dm_screen := surface_resize (dm_screen d1) (uint (h_cols h)) (uint (h_rows h))\<rparr>)))"

definition pending_event :: "kernel \<Rightarrow> 32 word \<Rightarrow> 'a daemon \<Rightarrow> 'a daemon" where
  "pending_event k events d =
     (case dm_pending d of
        None \<Rightarrow> d
      | Some c \<Rightarrow>
          if wants_in events then
            let (dec, closed) = drain_socket (cn_dec c) (kn_read k (cn_fd c));
                (msgs, dec1) = decoder_drain dec; c1 = c\<lparr>cn_dec := dec1\<rparr>; d1 = d\<lparr>dm_pending := Some c1\<rparr>
            in if d_failed dec1 then drop_pending d1
               else (case first_hello msgs of
                   Some h \<Rightarrow> if h_build_id h \<noteq> kBuildId then refuse k c1 d1 else promote k h c1 d1
                 | None \<Rightarrow> if closed \<or> hung_up events then drop_pending d1 else d1)
          else if hung_up events then drop_pending d else d)"

definition has_key :: "64 word \<Rightarrow> conn option \<Rightarrow> bool" where
  "has_key key co \<longleftrightarrow> (case co of None \<Rightarrow> False | Some c \<Rightarrow> key = cn_key c)"

definition handle_event :: "'a app_ops \<Rightarrow> nat \<Rightarrow> 'a daemon \<Rightarrow> kernel \<times> 64 word \<times> 32 word \<Rightarrow> 'a daemon" where
  "handle_event ops uid d ev =
     (case ev of (k, key, events) \<Rightarrow>
        if key = make_key 0 kGenSignal then signal_event ops k d
        else if key = make_key 0 kGenTimer then d
        else if key = make_key 0 kGenListener then listener_event uid k d
        else if key \<in> set (dm_closed d) then d
        else if has_key key (dm_client d) then client_event ops k events d
        else if has_key key (dm_pending d) then pending_event k events d
        else upd_session (on_fd_event ops (kn_env k) key events) d)"

section \<open>The end of a turn\<close>

definition expire_pending :: "kernel \<Rightarrow> 'a daemon \<Rightarrow> 'a daemon" where
  "expire_pending k d = (if dm_pending d \<noteq> None \<and> kn_now k \<ge> dm_pending_deadline d then drop_pending d else d)"

definition ask_session :: "kernel \<Rightarrow> 'a daemon \<Rightarrow> 'a daemon" where
  "ask_session k d =
     (let (s1, dirty) = take_dirty (kn_env k) (dm_session d);
          d1 = (if dirty then dirty_frame (d\<lparr>dm_session := s1\<rparr>) else d\<lparr>dm_session := s1\<rparr>);
          (s2, detach) = take_detach (dm_session d1); d2 = d1\<lparr>dm_session := s2\<rparr>
      in if detach then drop_client k (Some (str ''detache, la session continue'')) d2 else d2)"

text \<open>The frame is computed and queued.\<close>

definition make_frame :: "'a app_ops \<Rightarrow> kernel \<Rightarrow> conn \<Rightarrow> differ \<Rightarrow> 'a daemon \<Rightarrow> conn \<times> 'a daemon" where
  "make_frame ops k c df d =
     (let (s1, screen) = render ops g_ambiguous_wide (kn_env k) (dm_screen d) (dm_session d);
          (s2, repaint) = take_repaint s1;
          (df1, ansi) = frame (if repaint then differ_invalidate df else df) screen (se_cursor s2);
          c1 = c\<lparr>cn_differ := Some df1\<rparr>; c2 = (if ansi \<noteq> [] then push_conn (FrameMsg ansi) c1 else c1)
      in (c2, d\<lparr>dm_session := s2, dm_screen := screen, dm_clock := note_render (dm_clock d) (kn_now k)\<rparr>))"

definition send_frame :: "kernel \<Rightarrow> conn \<Rightarrow> 'a daemon \<Rightarrow> 'a daemon" where
  "send_frame k c d =
     (let (q, ov) = take_overflow (cn_out c); c1 = c\<lparr>cn_out := q\<rparr>
      in if ov = OvDirty then drop_client k None (d\<lparr>dm_client := Some c1\<rparr>)
         else
           let c2 = (if ov = OvClean then c1\<lparr>cn_differ := map_option differ_invalidate (cn_differ c1)\<rparr> else c1);
               d2 = (if ov = OvClean then dirty_frame d else d);
               (c3, wire, ok) = flush_conn k c2; d3 = say [SendTo (cn_fd c) wire] (d2\<lparr>dm_client := Some c3\<rparr>)
           in if \<not> ok then drop_client k None d3
              else if wants_write (cn_out c3) then say [EpollMod (cn_key c) (cn_fd c) (kEpollIn OR kEpollOut)] d3
              else d3)"

definition compose :: "'a app_ops \<Rightarrow> kernel \<Rightarrow> 'a daemon \<Rightarrow> 'a daemon" where
  "compose ops k d =
     (case dm_client d of
        None \<Rightarrow> d
      | Some c \<Rightarrow>
          (case cn_differ c of
             None \<Rightarrow> d
           | Some df \<Rightarrow>
               if delay_ms (dm_clock d) (kn_now k) = 0
               then (let (c1, d1) = make_frame ops k c df d in send_frame k c1 d1)
               else d))"

definition stop_step :: "kernel \<Rightarrow> 'a daemon \<Rightarrow> 'a daemon" where
  "stop_step k d =
     (let d1 = (if sv_wants_restart (se_update (dm_session d))
                then (drop_client k (Some kDetachReasonUpdate) (say [CloseListener] d))
                       \<lparr>dm_reason := str ''arret pour terminer une mise a jour'', dm_running := False\<rparr>
                else d)
      in if se_quit (dm_session d1)
         then d1\<lparr>dm_reason := str ''arret demande (quitter la session)'', dm_running := False\<rparr> else d1)"

definition arm_timer :: "kernel \<Rightarrow> 'a daemon \<Rightarrow> 'a daemon" where
  "arm_timer k d = say [ArmTimer (max 0 (delay_ms (dm_clock d) (kn_now k)))] d"

definition after_batch :: "'a app_ops \<Rightarrow> kernel \<Rightarrow> 'a daemon \<Rightarrow> 'a daemon" where
  "after_batch ops k d = arm_timer k (stop_step k (compose ops k (ask_session k (expire_pending k d))))"

text \<open>What \<open>epoll_wait\<close> returns: at most sixteen events, each with what the kernel answers to its
  handler, or an interruption, or an error, which leaves the loop.\<close>

datatype epoll_result = EpollEvents "(kernel \<times> 64 word \<times> 32 word) list" kernel | EpollIntr | EpollError

definition daemon_turn :: "'a app_ops \<Rightarrow> nat \<Rightarrow> 'a daemon \<Rightarrow> kernel \<times> epoll_result \<Rightarrow> 'a daemon" where
  "daemon_turn ops uid d kw =
     (if \<not> dm_running d then d
      else let d1 = fst (before_wait ops (fst kw) d)
        in case snd kw of
             EpollIntr \<Rightarrow> d1
           | EpollError \<Rightarrow> d1\<lparr>dm_running := False\<rparr>
           | EpollEvents evs k1 \<Rightarrow> after_batch ops k1 (foldl (handle_event ops uid) d1 evs))"

definition daemon_end :: "kernel \<Rightarrow> 'a daemon \<Rightarrow> 'a daemon" where
  "daemon_end k d = drop_client k (Some (str ''le demon s'' @ [0x27] @ str ''arrete'')) d"

definition daemon_run :: "'a app_ops \<Rightarrow> nat \<Rightarrow> 'a daemon \<Rightarrow> (kernel \<times> epoll_result) list \<Rightarrow> 'a daemon" where
  "daemon_run ops uid = foldl (daemon_turn ops uid)"

end
