(* ===== verification/Daemon_Props.thy ===== *)
theory Daemon_Props
  imports Daemon Session_Safe App_Inv
begin

text \<open>
  What the loop of the daemon keeps: it touches its session only through the session's handlers, its
  connections are told apart by keys that never come back, no descriptor is lost, and a connection
  that has not introduced itself disturbs nobody.
\<close>

section \<open>What the loop does to its session\<close>

datatype loop_step = LsSession session_env session_event | LsCancelDrag | LsTakeDetach | LsTakeRepaint

fun ls_step :: "'a app_ops \<Rightarrow> 'a session \<Rightarrow> loop_step \<Rightarrow> 'a session" where
  "ls_step ops s (LsSession env e) = session_step ops g_ambiguous_wide s (env, e)"
| "ls_step ops s LsCancelDrag = cancel_drag s"
| "ls_step ops s LsTakeDetach = fst (take_detach s)"
| "ls_step ops s LsTakeRepaint = fst (take_repaint s)"

definition leads :: "'a app_ops \<Rightarrow> 'a session \<Rightarrow> 'a session \<Rightarrow> bool" where
  "leads ops s t \<longleftrightarrow> (\<exists>es. t = foldl (ls_step ops) s es)"

named_theorems leads_intros

lemma leads_refl [simp, leads_intros]: "leads ops s s"
  unfolding leads_def by (rule exI[of _ "[]"]) simp

lemma leads_trans: "leads ops s t \<Longrightarrow> leads ops t u \<Longrightarrow> leads ops s u"
  unfolding leads_def by (metis foldl_append)

lemma leads_step: "leads ops s t \<Longrightarrow> leads ops s (ls_step ops t e)"
  unfolding leads_def by (metis foldl_append foldl.simps)

lemma leads_handlers [leads_intros]:
  "leads ops s t \<Longrightarrow> leads ops s (cancel_drag t)"
  "leads ops s t \<Longrightarrow> leads ops s (fst (take_detach t))"
  "leads ops s t \<Longrightarrow> leads ops s (fst (take_repaint t))"
  "leads ops s t \<Longrightarrow> leads ops s (on_input ops g_ambiguous_wide env e t)"
  "leads ops s t \<Longrightarrow> leads ops s (on_fd_event ops env key events t)"
  "leads ops s t \<Longrightarrow> leads ops s (session_child_exit ops env pid status t)"
  "leads ops s t \<Longrightarrow> leads ops s (tick_update env t)"
  "leads ops s t \<Longrightarrow> leads ops s (mark_refresh_due ops env t)"
  "leads ops s t \<Longrightarrow> leads ops s (set_output p t)"
  "leads ops s t \<Longrightarrow> leads ops s (fst (take_dirty env t))"
  "leads ops s t \<Longrightarrow> leads ops s (fst (render ops g_ambiguous_wide env out t))"
  using leads_step[of ops s t LsCancelDrag] leads_step[of ops s t LsTakeDetach] leads_step[of ops s t LsTakeRepaint]
    leads_step[of ops s t "LsSession env (SeInput e)"] leads_step[of ops s t "LsSession env (SeFd key events)"]
    leads_step[of ops s t "LsSession env (SeChild pid status)"] leads_step[of ops s t "LsSession env SeTickUpdate"]
    leads_step[of ops s t "LsSession env SeRefresh"] leads_step[of ops s t "LsSession env (SeOutput p)"]
    leads_step[of ops s t "LsSession env SeTakeDirty"] leads_step[of ops s t "LsSession env (SeRender out)"]
  by simp_all

lemma leads_foldl [leads_intros]:
  "leads ops s t \<Longrightarrow> leads ops s (foldl (\<lambda>s e. on_input ops g_ambiguous_wide env e s) t es)"
  by (induction es arbitrary: t) (simp_all add: leads_handlers)

lemma leads_reap [leads_intros]: "leads ops s t \<Longrightarrow> leads ops s (reap_children ops env ans t)"
  by (induction ops env ans t rule: reap_children.induct) (simp_all add: leads_handlers)



section \<open>The session through one turn\<close>

abbreviation leads_to :: "'a app_ops \<Rightarrow> 'a session \<Rightarrow> 'a daemon \<Rightarrow> bool" where
  "leads_to ops s d \<equiv> leads ops s (dm_session d)"

lemma session_simps [simp]:
  "dm_session (say cs d) = dm_session d" "dm_session (dirty_frame d) = dm_session d"
  "dm_session (upd_session f d) = f (dm_session d)"
  by (simp_all add: say_def dirty_frame_def upd_session_def)

lemma session_drop [simp]:
  "dm_session (drop_client k r d) = (if dm_client d = None then dm_session d else cancel_drag (dm_session d))"
  "dm_session (drop_pending d) = dm_session d"
  by (simp_all add: drop_client_def drop_pending_def split: option.split)

lemma drop_client_leads [leads_intros]: "leads_to ops s d \<Longrightarrow> leads_to ops s (drop_client k r d)"
  by (simp add: leads_intros)

lemma hear_leads [leads_intros]: "leads_to ops s d \<Longrightarrow> leads_to ops s (hear ops k p d)"
  by (simp add: hear_def leads_intros split: option.split)



lemma signals_session [simp]: "dm_session (fold one_signal sigs d) = dm_session d"
  by (induction sigs arbitrary: d) (simp_all add: one_signal_def)

lemma client_msg_leads: "leads_to ops s d \<Longrightarrow> leads_to ops s (client_msg ops k d m)"
  using hear_leads[of ops s d k] by (auto simp: client_msg_def resize_client_def split: option.split msg.split)

lemma client_msgs_leads: "leads_to ops s d \<Longrightarrow> leads_to ops s (foldl (client_msg ops k) d msgs)"
  by (induction msgs arbitrary: d) (simp_all add: client_msg_leads)

lemma client_in_leads: "leads_to ops s d \<Longrightarrow> leads_to ops s (client_in ops k events d)"
proof (cases "dm_client d")
  case (Some c)
  assume d: "leads_to ops s d"
  have "leads_to ops s (foldl (client_msg ops k) (d\<lparr>dm_client := Some c1\<rparr>) msgs)" for c1 msgs
    using d by (intro client_msgs_leads) simp
  then show ?thesis using d Some by (auto simp: client_in_def Let_def leads_intros split: prod.split)
qed (simp add: client_in_def)

lemma client_event_leads [leads_intros]: "leads_to ops s d \<Longrightarrow> leads_to ops s (client_event ops k events d)"
  by (auto simp: client_event_def Let_def leads_intros intro!: client_in_leads split: option.split prod.split)

lemma pending_event_leads [leads_intros]: "leads_to ops s d \<Longrightarrow> leads_to ops s (pending_event k events d)"
  by (auto simp: pending_event_def promote_def refuse_def Let_def leads_intros split: option.split prod.split)







section \<open>The connections\<close>

text \<open>The contract of \<open>send\<close>: it never takes more than it was given.\<close>

definition honest :: "kernel \<Rightarrow> bool" where
  "honest k \<longleftrightarrow> (\<forall>fd bs. honest_sends (length bs) (kn_send k fd bs @ [SendAgain]))"

definition conn_bounded :: "conn \<Rightarrow> bool" where
  "conn_bounded c \<longleftrightarrow> decoder_ok (cn_dec c) \<and> q_ok (cn_out c) \<and> q_ceiling (cn_out c) = kBackpressureCeiling"

text \<open>The keys handed out to connections before a generation.\<close>

definition keys_before :: "32 word \<Rightarrow> 64 word set" where
  "keys_before n = make_key 0 ` {kGenFirstDynamic..<n}"

text \<open>The descriptors registered, and those closed.\<close>

fun fds_in :: "daemon_call list \<Rightarrow> int list" where
  "fds_in [] = []"
| "fds_in (EpollAdd _ fd _ # cs) = fd # fds_in cs"
| "fds_in (_ # cs) = fds_in cs"

fun fds_out :: "daemon_call list \<Rightarrow> int list" where
  "fds_out [] = []"
| "fds_out (CloseFd fd # cs) = fd # fds_out cs"
| "fds_out (_ # cs) = fds_out cs"

lemma fds_append [simp]: "fds_in (xs @ ys) = fds_in xs @ fds_in ys" "fds_out (xs @ ys) = fds_out xs @ fds_out ys"
  by (induction xs rule: fds_in.induct) simp_all

definition conn_fd :: "conn option \<Rightarrow> int multiset" where
  "conn_fd co = (case co of None \<Rightarrow> {#} | Some c \<Rightarrow> {#cn_fd c#})"

lemma conn_fd_simps [simp]: "conn_fd None = {#}" "conn_fd (Some c) = {#cn_fd c#}"
  by (simp_all add: conn_fd_def)

definition conn_keys :: "conn option \<Rightarrow> 64 word set" where
  "conn_keys co = cn_key ` set_option co"

lemma conn_keys_simps [simp]: "conn_keys None = {}" "conn_keys (Some c) = {cn_key c}"
  by (simp_all add: conn_keys_def)

definition conns_ok :: "int multiset \<Rightarrow> 'a daemon \<Rightarrow> bool" where
  "conns_ok base d \<longleftrightarrow>
     conn_keys (dm_client d) \<union> conn_keys (dm_pending d) \<union> set (dm_closed d) \<subseteq> keys_before (dm_next_gen d)
     \<and> conn_keys (dm_client d) \<inter> conn_keys (dm_pending d) = {}
     \<and> set (dm_closed d) \<inter> (conn_keys (dm_client d) \<union> conn_keys (dm_pending d)) = {}
     \<and> (\<forall>c \<in> set_option (dm_client d) \<union> set_option (dm_pending d). conn_bounded c)
     \<and> (\<forall>c \<in> set_option (dm_client d). cn_differ c \<noteq> None)
     \<and> mset (fds_in (dm_calls d)) = mset (fds_out (dm_calls d)) + base + conn_fd (dm_client d) + conn_fd (dm_pending d)
     \<and> kGenFirstDynamic \<le> dm_next_gen d"

lemma conns_ok_upd [simp]:
  "conns_ok base (d\<lparr>dm_session := a1\<rparr>) = conns_ok base d" "conns_ok base (d\<lparr>dm_screen := a2\<rparr>) = conns_ok base d"
  "conns_ok base (d\<lparr>dm_clock := a3\<rparr>) = conns_ok base d" "conns_ok base (d\<lparr>dm_esc_armed := a4\<rparr>) = conns_ok base d"
  "conns_ok base (d\<lparr>dm_esc_deadline := a5\<rparr>) = conns_ok base d" "conns_ok base (d\<lparr>dm_last_refresh := a6\<rparr>) = conns_ok base d"
  "conns_ok base (d\<lparr>dm_running := a7\<rparr>) = conns_ok base d" "conns_ok base (d\<lparr>dm_reason := a8\<rparr>) = conns_ok base d"
  "conns_ok base (d\<lparr>dm_pending_deadline := a9\<rparr>) = conns_ok base d"
  "conns_ok base (dirty_frame d) = conns_ok base d" "conns_ok base (upd_session f d) = conns_ok base d"
  by (simp_all add: conns_ok_def dirty_frame_def upd_session_def)

lemma conns_ok_say [simp]: "fds_in cs = [] \<Longrightarrow> fds_out cs = [] \<Longrightarrow> conns_ok base (say cs d) = conns_ok base d"
  by (simp add: conns_ok_def say_def)


lemma conns_ok_client:
  "conns_ok base d \<Longrightarrow> dm_client d = Some c \<Longrightarrow> cn_key c' = cn_key c \<Longrightarrow> cn_fd c' = cn_fd c \<Longrightarrow> conn_bounded c'
     \<Longrightarrow> cn_differ c' \<noteq> None \<Longrightarrow> conns_ok base (d\<lparr>dm_client := Some c'\<rparr>)"
  by (auto simp: conns_ok_def)

lemma conns_ok_pending:
  "conns_ok base d \<Longrightarrow> dm_pending d = Some c \<Longrightarrow> cn_key c' = cn_key c \<Longrightarrow> cn_fd c' = cn_fd c \<Longrightarrow> conn_bounded c'
     \<Longrightarrow> conns_ok base (d\<lparr>dm_pending := Some c'\<rparr>)"
  by (auto simp: conns_ok_def)

lemma conns_ok_bounded:
  "conns_ok base d \<Longrightarrow> dm_client d = Some c \<Longrightarrow> conn_bounded c \<and> cn_differ c \<noteq> None"
  "conns_ok base d \<Longrightarrow> dm_pending d = Some c \<Longrightarrow> conn_bounded c"
  by (simp_all add: conns_ok_def)

lemma farewell_fds [simp]: "fds_in (farewell k r c) = []" "fds_out (farewell k r c) = []"
  by (simp_all add: farewell_def split: option.split)

lemma conns_ok_drop_client: "conns_ok base d \<Longrightarrow> conns_ok base (drop_client k r d)"
  by (auto simp: drop_client_def split: option.split) (auto simp: conns_ok_def say_def)

lemma conns_ok_drop_pending: "conns_ok base d \<Longrightarrow> conns_ok base (drop_pending d)"
  by (auto simp: drop_pending_def conns_ok_def say_def split: option.split)

lemma gen_of_key [simp]: "(ucast (make_key i g) :: 32 word) = g"
proof (rule bit_word_eqI)
  fix n assume "n < LENGTH(32)"
  then show "bit (ucast (make_key i g) :: 32 word) n = bit g n" by (auto simp: make_key_def bit_simps)
qed

lemma make_key_inj: "make_key w g = make_key w' g' \<longleftrightarrow> w = w' \<and> g = g'"
  by (metis gen_of_key key_of_window)

lemma drain_ok: "decoder_ok dec \<Longrightarrow> decoder_ok (fst (drain_socket dec ans))"
  by (induction dec ans rule: drain_socket.induct) (simp_all add: decoder_feed_ok)

lemma decoder_drain_ok: "decoder_ok dec \<Longrightarrow> decoder_ok (snd (decoder_drain dec))"
proof (induction dec rule: decoder_drain.induct)
  case (1 d)
  then show ?case using decoder_next_ok[OF 1(2)] 
    by (subst decoder_drain.simps) (auto split: prod.split option.split)
qed

lemma flush_conn_keeps:
  assumes "honest k" "conn_bounded c" "flush_conn k c = (c', w, ok)"
  shows "cn_key c' = cn_key c \<and> cn_fd c' = cn_fd c \<and> cn_differ c' = cn_differ c \<and> conn_bounded c'"
proof -
  obtain q b where f: "flush (cn_out c) (kn_send k (cn_fd c) (OutQueue.pending (cn_out c)) @ [SendAgain]) = (q, w, b)"
    using assms(3) by (auto simp: flush_conn_def split: prod.splits)
  have "honest_sends (q_size (cn_out c)) (kn_send k (cn_fd c) (OutQueue.pending (cn_out c)) @ [SendAgain])"
    using assms(1) unfolding honest_def by (metis length_pending)
  then show ?thesis using flush_spec[OF f] assms f by (auto simp: flush_conn_def conn_bounded_def)
qed


lemma push_conn_keeps [simp]:
  "cn_key (push_conn m c) = cn_key c" "cn_fd (push_conn m c) = cn_fd c" "cn_differ (push_conn m c) = cn_differ c"
  "conn_bounded c \<Longrightarrow> conn_bounded (push_conn m c)"
  by (simp_all add: push_conn_def conn_bounded_def push_ok) (simp add: push_def Let_def)


subsection \<open>Every operation keeps them\<close>

lemma hear_conns: "conns_ok base d \<Longrightarrow> conns_ok base (hear ops k p d)"
  by (auto simp: hear_def conn_bounded_def dest: conns_ok_bounded intro!: conns_ok_client split: option.split)



lemma signals_conns [simp]: "conns_ok base (fold one_signal sigs d) = conns_ok base d"
  by (induction sigs arbitrary: d) (simp_all add: one_signal_def)

lemma keys_before_mono: "g \<le> h \<Longrightarrow> keys_before g \<subseteq> keys_before h"
  by (auto simp: keys_before_def)

lemma next_less: "unat (n :: 32 word) + 1 < 2 ^ 32 \<Longrightarrow> unat (n + 1) = unat n + 1 \<and> n < n + 1"
  using unat_word_ariths(1)[of n 1] by (simp add: word_less_nat_alt)

lemma listener_conns:
  assumes "conns_ok base d" "unat (dm_next_gen d) + 1 < 2 ^ 32"
  shows "conns_ok base (listener_event uid k d)"
proof (cases "accept_peer uid (kn_peer k) (kn_accept k)")
  case (AcAccepted fd)
  let ?e = "drop_pending d" and ?n = "dm_next_gen d"
  have e: "conns_ok base ?e" "dm_pending ?e = None" "dm_next_gen ?e = ?n"
    using conns_ok_drop_pending[OF assms(1)] by (simp_all add: drop_pending_def say_def split: option.split)
  have n: "?n < ?n + 1" "kGenFirstDynamic \<le> ?n" using assms by (simp_all add: next_less conns_ok_def)
  have k: "make_key 0 ?n \<in> keys_before (?n + 1)" "make_key 0 ?n \<notin> keys_before ?n"
    "keys_before ?n \<subseteq> keys_before (?n + 1)"
    using n by (auto simp: keys_before_def make_key_inj)
  have "conn_bounded (conn_new fd (make_key 0 ?n))"
    by (simp add: conn_bounded_def conn_new_def decoder_init_ok q_ok_def outqueue_init_def q_size_def)
  then show ?thesis using e k n AcAccepted
    by (auto simp: listener_event_def Let_def conns_ok_def say_def conn_new_def)
qed (simp_all add: listener_event_def assms)

lemma client_msg_conns: "conns_ok base d \<Longrightarrow> conns_ok base (client_msg ops k d m)"
proof -
  assume d: "conns_ok base d"
  have "conns_ok base (resize_client w h d)" for w h
    using d by (auto simp: resize_client_def conn_bounded_def dest: conns_ok_bounded intro!: conns_ok_client split: option.split)
  then show ?thesis using hear_conns[OF d, of ops k] d by (auto simp: client_msg_def split: option.split msg.split)
qed

lemma client_msgs_conns: "conns_ok base d \<Longrightarrow> conns_ok base (foldl (client_msg ops k) d msgs)"
  by (induction msgs arbitrary: d) (simp_all add: client_msg_conns)

lemma client_in_conns:
  assumes "conns_ok base d" shows "conns_ok base (client_in ops k events d)"
proof (cases "dm_client d")
  case (Some c)
  have "conns_ok base (foldl (client_msg ops k) (d\<lparr>dm_client := Some (c\<lparr>cn_dec := dec1\<rparr>)\<rparr>) msgs)"
    if "drain_socket (cn_dec c) (kn_read k (cn_fd c)) = (dec, cl)" "decoder_drain dec = (msgs, dec1)" for dec cl msgs dec1
    using that drain_ok[of "cn_dec c" "kn_read k (cn_fd c)"] decoder_drain_ok[of dec] conns_ok_bounded(1)[OF assms Some]
    by (intro client_msgs_conns conns_ok_client[OF assms Some]) (simp_all add: conn_bounded_def)
  then show ?thesis using Some assms by (auto simp: client_in_def Let_def conns_ok_drop_client split: prod.split)
qed (simp add: client_in_def assms)

lemma client_event_conns:
  assumes "honest k" "conns_ok base d" shows "conns_ok base (client_event ops k events d)"
proof (cases "dm_client d")
  case (Some c)
  have "conns_ok base (d\<lparr>dm_client := Some c1\<rparr>)" if "flush_conn k c = (c1, w, ok)" for c1 w ok
    using flush_conn_keeps[OF assms(1) _ that] conns_ok_bounded(1)[OF assms(2) Some] by (intro conns_ok_client[OF assms(2) Some]) auto
  then show ?thesis using Some assms
    by (auto simp: client_event_def Let_def intro!: client_in_conns conns_ok_drop_client split: prod.split)
qed (simp add: client_event_def assms)

lemma promote_conns:
  assumes "conns_ok base d" "dm_pending d = Some c" shows "conns_ok base (promote k h c d)"
proof -
  let ?e = "drop_client k (Some (str ''un autre client a pris la main'')) d"
  have e: "conns_ok base ?e" "dm_pending ?e = Some c" "dm_client ?e = None"
    using conns_ok_drop_client[OF assms(1)] assms(2)
    by (simp_all add: drop_client_def say_def upd_session_def split: option.split)
  have "conns_ok base (?e\<lparr>dm_client := Some c', dm_pending := None\<rparr>)"
    if "cn_key c' = cn_key c" "cn_fd c' = cn_fd c" "conn_bounded c'" "cn_differ c' \<noteq> None" for c'
    using e that by (auto simp: conns_ok_def)
  moreover have "conn_bounded (push_conn m (c\<lparr>cn_cols := x, cn_rows := y, cn_differ := z\<rparr>))" for m x y z
    using conns_ok_bounded(2)[OF e(1,2)] by (intro push_conn_keeps(4)) (simp add: conn_bounded_def)
  ultimately show ?thesis by (simp add: promote_def Let_def)
qed

lemma pending_event_conns:
  assumes "conns_ok base d" shows "conns_ok base (pending_event k events d)"
proof (cases "dm_pending d")
  case (Some c)
  have "conns_ok base (d\<lparr>dm_pending := Some (c\<lparr>cn_dec := dec1\<rparr>)\<rparr>)"
    if "drain_socket (cn_dec c) (kn_read k (cn_fd c)) = (dec, cl)" "decoder_drain dec = (msgs, dec1)" for dec cl msgs dec1
    using that drain_ok[of "cn_dec c" "kn_read k (cn_fd c)"] decoder_drain_ok[of dec] conns_ok_bounded(2)[OF assms Some]
    by (intro conns_ok_pending[OF assms Some]) (simp_all add: conn_bounded_def)
  then show ?thesis using Some assms
    by (auto simp: pending_event_def Let_def refuse_def intro!: conns_ok_drop_pending promote_conns split: prod.split option.split)
qed (simp add: pending_event_def assms)

lemma handle_event_conns:
  assumes "honest (fst ev)" "conns_ok base d" "unat (dm_next_gen d) + 1 < 2 ^ 32"
  shows "conns_ok base (handle_event ops uid d ev)"
  using assms by (auto simp: handle_event_def signal_event_def Let_def listener_conns client_event_conns pending_event_conns
      split: prod.split)





subsection \<open>Generations\<close>

text \<open>Only the listener hands out keys, one per event.\<close>

lemma gen_simps [simp]:
  "dm_next_gen (say cs d) = dm_next_gen d" "dm_next_gen (dirty_frame d) = dm_next_gen d"
  "dm_next_gen (upd_session f d) = dm_next_gen d" "dm_next_gen (drop_client k r d) = dm_next_gen d"
  "dm_next_gen (drop_pending d) = dm_next_gen d" "dm_next_gen (hear ops k p d) = dm_next_gen d"
  "dm_next_gen (esc_step ops k d) = dm_next_gen d" "dm_next_gen (fold one_signal sigs d) = dm_next_gen d"
  by (simp_all add: say_def dirty_frame_def upd_session_def drop_client_def drop_pending_def hear_def esc_step_def split: option.split)
    (induction sigs arbitrary: d, simp_all add: one_signal_def)

lemma gen_wait [simp]: "dm_next_gen (fst (before_wait ops k d)) = dm_next_gen d"
  by (auto simp: before_wait_def Let_def update_wait_def refresh_wait_def split: prod.split)

lemma gen_msgs [simp]: "dm_next_gen (foldl (client_msg ops k) d msgs) = dm_next_gen d"
  by (induction msgs arbitrary: d) (simp_all add: client_msg_def resize_client_def split: option.split msg.split)

lemma gen_client_in [simp]: "dm_next_gen (client_in ops k events d) = dm_next_gen d"
  by (simp add: client_in_def Let_def split: option.split prod.split)

lemma gen_client [simp]: "dm_next_gen (client_event ops k events d) = dm_next_gen d"
  by (simp add: client_event_def Let_def split: option.split prod.split)

lemma gen_pending [simp]: "dm_next_gen (pending_event k events d) = dm_next_gen d"
  by (simp add: pending_event_def refuse_def promote_def Let_def split: option.split prod.split)

lemma gen_event:
  "dm_next_gen (handle_event ops uid d ev) = dm_next_gen d \<or> dm_next_gen (handle_event ops uid d ev) = dm_next_gen d + 1"
proof -
  have "dm_next_gen (listener_event uid k d) = dm_next_gen d \<or> dm_next_gen (listener_event uid k d) = dm_next_gen d + 1" for k
    by (simp add: listener_event_def Let_def split: accept_outcome.split)
  then show ?thesis by (simp add: handle_event_def signal_event_def Let_def split: prod.split)
qed

lemma gen_ask [simp]: "dm_next_gen (ask_session k d) = dm_next_gen d"
  by (simp add: ask_session_def Let_def split: prod.split)

lemma gen_send [simp]: "dm_next_gen (send_frame k c d) = dm_next_gen d"
  by (simp add: send_frame_def Let_def split: prod.split)

lemma gen_compose [simp]: "dm_next_gen (compose ops k d) = dm_next_gen d"
  by (simp add: compose_def make_frame_def Let_def case_prod_unfold split: option.split)

lemma gen_after [simp]: "dm_next_gen (after_batch ops k d) = dm_next_gen d"
  by (simp add: after_batch_def arm_timer_def stop_step_def expire_pending_def Let_def)

lemma events_conns:
  assumes "\<forall>ev \<in> set evs. honest (fst ev)" "conns_ok base d" "unat (dm_next_gen d) + length evs < 2 ^ 32"
  shows "conns_ok base (foldl (handle_event ops uid) d evs)
    \<and> unat (dm_next_gen (foldl (handle_event ops uid) d evs)) \<le> unat (dm_next_gen d) + length evs"
  using assms
proof (induction evs arbitrary: d)
  case (Cons ev evs)
  let ?e = "handle_event ops uid d ev"
  have "unat (dm_next_gen ?e) \<le> unat (dm_next_gen d) + 1" "conns_ok base ?e"
    using gen_event[of ops uid d ev] next_less[of "dm_next_gen d"] handle_event_conns[of ev base d ops uid] Cons.prems by auto
  then show ?case using Cons.IH[of ?e] Cons.prems by auto
qed simp





lemma init_conns: "conns_ok {#l, s, t#} (daemon_init l s t now se)"
  by (simp add: conns_ok_def daemon_init_def)

lemma no_window_0: "se_ok s \<Longrightarrow> wm_find (se_wm s) 0 = None"
  by (auto simp: se_ok_def desk_ok_def wm_ok_def stack_ok_def wm_find_def wm_index_def find_if_None split: option.split dest!: find_if_Some)

lemma key_window_0: "key \<in> keys_before n \<Longrightarrow> key_window key = 0"
  by (auto simp: keys_before_def)

lemma late_event_lost: "se_ok s \<Longrightarrow> key \<in> keys_before n \<Longrightarrow> on_fd_event ops env key events s = s"
  by (simp add: on_fd_event_def key_window_0 no_window_0)

lemma fixed_keys: "make_key 0 kGenSignal \<notin> keys_before n" "make_key 0 kGenTimer \<notin> keys_before n" "make_key 0 kGenListener \<notin> keys_before n"
  by (auto simp: keys_before_def make_key_inj kGenSignal_def kGenTimer_def kGenListener_def kGenFirstDynamic_def word_le_nat_alt)

section \<open>Strangers\<close>

definition said_hello :: "kernel \<Rightarrow> conn \<Rightarrow> bool" where
  "said_hello k c \<longleftrightarrow>
     (case decoder_drain (fst (drain_socket (cn_dec c) (kn_read k (cn_fd c)))) of (msgs, dec) \<Rightarrow>
        \<not> d_failed dec \<and> (case first_hello msgs of None \<Rightarrow> False | Some h \<Rightarrow> h_build_id h = kBuildId))"

definition undisturbed :: "'a daemon \<Rightarrow> 'a daemon \<Rightarrow> bool" where
  "undisturbed d e \<longleftrightarrow> dm_client e = dm_client d \<and> dm_session e = dm_session d \<and> dm_screen e = dm_screen d
     \<and> dm_clock e = dm_clock d \<and> dm_running e = dm_running d \<and> dm_reason e = dm_reason d"

fun strangers :: "'a app_ops \<Rightarrow> nat \<Rightarrow> 'a daemon \<Rightarrow> (kernel \<times> 64 word \<times> 32 word) list \<Rightarrow> bool" where
  "strangers ops uid d [] \<longleftrightarrow> True"
| "strangers ops uid d (ev # evs) \<longleftrightarrow>
     (case ev of (k, key, events) \<Rightarrow> key = make_key 0 kGenListener
        \<or> (\<exists>c. dm_pending d = Some c \<and> key = cn_key c \<and> \<not> (wants_in events \<and> said_hello k c)))
     \<and> strangers ops uid (handle_event ops uid d ev) evs"

lemma undisturbed_simps [simp]:
  "undisturbed d (drop_pending d)" "undisturbed d d" "undisturbed d (say cs d)"
  by (simp_all add: undisturbed_def drop_pending_def say_def split: option.split)

lemma undisturbed_trans: "undisturbed a b \<Longrightarrow> undisturbed b c \<Longrightarrow> undisturbed a c"
  by (simp add: undisturbed_def)

lemma undisturbed_pending [simp]: "undisturbed d (drop_pending (e\<lparr>dm_pending := p\<rparr>)) = undisturbed d e"
  "undisturbed d (e\<lparr>dm_pending := p\<rparr>) = undisturbed d e" "undisturbed d (say cs e) = undisturbed d e"
  "undisturbed d (drop_pending e) = undisturbed d e"
  "undisturbed d (e\<lparr>dm_next_gen := g\<rparr>) = undisturbed d e" "undisturbed d (e\<lparr>dm_pending_deadline := t\<rparr>) = undisturbed d e"
  by (simp_all add: undisturbed_def drop_pending_def say_def split: option.split)

lemma pending_undisturbed:
  assumes "dm_pending d = Some c" "\<not> (wants_in events \<and> said_hello k c)"
  shows "undisturbed d (pending_event k events d)"
  using assms by (auto simp: pending_event_def said_hello_def refuse_def Let_def split: prod.splits option.splits)

lemma listener_undisturbed: "undisturbed d (listener_event uid k d)"
  by (simp add: listener_event_def Let_def split: accept_outcome.split)

lemma stranger_step:
  assumes "conns_ok base d" "strangers ops uid d (ev # evs)"
  shows "undisturbed d (handle_event ops uid d ev)"
proof -
  obtain k key events where ev: "ev = (k, key, events)" by (metis prod_cases3)
  show ?thesis
  proof (cases "key = make_key 0 kGenListener")
    case True
    then show ?thesis using ev by (simp add: handle_event_def listener_undisturbed make_key_inj kGenListener_def kGenTimer_def kGenSignal_def)
  next
    case False
    then obtain c where c: "dm_pending d = Some c" "key = cn_key c" "\<not> (wants_in events \<and> said_hello k c)"
      using assms(2) ev by auto
    have "key \<in> keys_before (dm_next_gen d)" "key \<notin> set (dm_closed d)" "\<not> has_key key (dm_client d)" "has_key key (dm_pending d)"
      using assms(1) c by (auto simp: conns_ok_def has_key_def split: option.splits)
    then have "handle_event ops uid d ev = pending_event k events d"
      using fixed_keys[of "dm_next_gen d"] ev by (auto simp: handle_event_def)
    then show ?thesis using pending_undisturbed[OF c(1,3)] by simp
  qed
qed

lemma strangers_undisturbed:
  assumes "conns_ok base d" "unat (dm_next_gen d) + length evs < 2 ^ 32" "\<forall>ev \<in> set evs. honest (fst ev)" "strangers ops uid d evs"
  shows "undisturbed d (foldl (handle_event ops uid) d evs)"
  using assms
proof (induction evs arbitrary: d)
  case (Cons ev evs)
  have s: "undisturbed d (handle_event ops uid d ev)" using Cons.prems(1,4) by (rule stranger_step)
  have "conns_ok base (handle_event ops uid d ev)" "unat (dm_next_gen (handle_event ops uid d ev)) + length evs < 2 ^ 32"
    using events_conns[of "[ev]" base d ops uid] Cons.prems by auto
  from Cons.IH[OF this] Cons.prems s show ?case by (auto intro: undisturbed_trans)
qed simp


section \<open>Time-outs\<close>

lemma at_most_simps [simp]:
  "0 \<le> l \<Longrightarrow> 0 \<le> at_most t l" "at_most t l \<le> l" "0 \<le> t \<Longrightarrow> at_most t l \<le> t"
  by (auto simp: at_most_def)

lemma esc_step_keeps [simp]:
  "dm_pending (esc_step ops k d) = dm_pending d" "dm_pending_deadline (esc_step ops k d) = dm_pending_deadline d"
  "dm_client (esc_step ops k d) = None \<longleftrightarrow> dm_client d = None"
  by (auto simp: esc_step_def hear_def dirty_frame_def upd_session_def split: option.split)

lemma update_wait_fst [simp]:
  "(dm_client (fst (update_wait k dt)) = None) = (dm_client (fst dt) = None)"
  "dm_pending (fst (update_wait k dt)) = dm_pending (fst dt)"
  "dm_pending_deadline (fst (update_wait k dt)) = dm_pending_deadline (fst dt)"
  by (simp_all add: update_wait_def upd_session_def Let_def split: prod.split)

lemma refresh_wait_fst [simp]:
  "(dm_client (fst (refresh_wait ops k dt)) = None) = (dm_client (fst dt) = None)"
  "dm_pending (fst (refresh_wait ops k dt)) = dm_pending (fst dt)"
  "dm_pending_deadline (fst (refresh_wait ops k dt)) = dm_pending_deadline (fst dt)"
  by (simp_all add: refresh_wait_def upd_session_def dirty_frame_def Let_def split: prod.split)

lemma before_wait_keeps:
  assumes "before_wait ops k d = (d1, t)"
  shows "dm_pending d1 = dm_pending d" "dm_pending_deadline d1 = dm_pending_deadline d" "(dm_client d1 = None) = (dm_client d = None)"
proof -
  have "d1 = fst (before_wait ops k d)" using assms by simp
  then show "dm_pending d1 = dm_pending d" "dm_pending_deadline d1 = dm_pending_deadline d" "(dm_client d1 = None) = (dm_client d = None)"
    by (simp_all add: before_wait_def Let_def case_prod_unfold)
qed

text \<open>A stage never lengthens the time-out.\<close>

definition shortens :: "int \<Rightarrow> int \<Rightarrow> bool" where
  "shortens t t' \<longleftrightarrow> (0 \<le> t \<longrightarrow> 0 \<le> t' \<and> t' \<le> t)"

lemma shortens_trans: "shortens a b \<Longrightarrow> shortens b c \<Longrightarrow> shortens a c"
  by (auto simp: shortens_def)

lemma at_most_shortens: "0 \<le> l \<Longrightarrow> shortens t (at_most t l)"
  by (simp add: shortens_def)

lemma stages_shorten:
  "shortens t (pending_timeout k d t)" "shortens t (help_timeout k d t)" "shortens t (esc_timeout k d t)"
  "shortens t (snd (update_wait k (d, t)))" "shortens t (snd (refresh_wait ops k (d, t)))"
  by (auto simp: pending_timeout_def help_timeout_def esc_timeout_def update_wait_def refresh_wait_def Let_def shortens_def split: option.split)


lemma at_most_zero: "at_most t l = 0 \<Longrightarrow> t = 0 \<or> l = 0"
  by (auto simp: at_most_def min_def split: if_splits)

lemma to_ms_zero: "max 0 (to_ms x) = 0 \<Longrightarrow> x < 1000000"
  by (rule ccontr) (use zdiv_mono1[of 1000000 x 1000000] in \<open>simp add: to_ms_def\<close>)

lemma stages_zero:
  "pending_timeout k d t = 0 \<Longrightarrow> t = 0 \<or> dm_pending d \<noteq> None \<and> dm_pending_deadline d - kn_now k < 1000000"
  "help_timeout k d t = 0 \<Longrightarrow> t = 0 \<or> help_delay_ms (kn_env k) (dm_session d) = 0"
  "esc_timeout k d t = 0 \<Longrightarrow> t = 0 \<or> dm_esc_armed d \<and> dm_esc_deadline d - kn_now k < 1000000"
  "snd (update_wait k (d, t)) = 0 \<Longrightarrow> t = 0"
  "snd (refresh_wait ops k (d, t)) = 0 \<Longrightarrow> t = 0 \<or> dm_client d \<noteq> None
     \<and> fc_dirty (dm_clock (fst (refresh_wait ops k (d, t)))) \<and> dm_last_refresh (fst (refresh_wait ops k (d, t))) = kn_now k"
  "render_timeout k d = 0 \<Longrightarrow> dm_client d \<noteq> None \<and> delay_ms (dm_clock d) (kn_now k) = 0"
  by (auto simp: pending_timeout_def help_timeout_def esc_timeout_def update_wait_def refresh_wait_def render_timeout_def Let_def
      dirty_frame_def mark_dirty_def split: option.splits if_splits dest!: at_most_zero to_ms_zero)

lemma to_ms_pos: "0 \<le> max 0 (to_ms x)" by simp

section \<open>Properties\<close>


text \<open>A kernel that takes what it is given, and one connection of the user.\<close>

definition calm_kernel :: kernel where
  "calm_kernel = \<lparr>kn_env = calm_env, kn_send = (\<lambda>_ bs. [Sent (length bs)]), kn_read = (\<lambda>_. []), kn_accept = [AcceptFd 9],
     kn_peer = (\<lambda>_. PeerUid 0), kn_signals = [], kn_reaped = []\<rparr>"

lemma calm_honest: "honest calm_kernel"
  by (simp add: honest_def calm_kernel_def)



text \<open>
  C15.  Whoever has not introduced himself disturbs nobody: whatever connections come, whatever they
  send, however they end, as long as none gives a valid \<open>Hello\<close> for this version the client keeps its
  connection and all that is queued for it, and the session, the screen and the clock of frames stay
  as they are.  The daemon is in a state in which its connections are in order, as every turn leaves
  them (\<open>run_conns\<close>); \<open>send\<close> takes no more than it is given, and the 32-bit counter of connections has
  not gone round.
\<close>

theorem stranger_harmless:
  assumes "conns_ok base d" and "unat (dm_next_gen d) + length evs < 2 ^ 32" and "\<forall>ev \<in> set evs. honest (fst ev)"
    and "strangers ops uid d evs"
  shows "undisturbed d (expire_pending k (foldl (handle_event ops uid) d evs))"
  using strangers_undisturbed[OF assms] by (simp add: expire_pending_def)

theorem stranger_harmless_witness:
  "undisturbed (daemon_init 3 4 5 0 fresh_desk)
     (expire_pending calm_kernel (foldl (handle_event calm_ops 0) (daemon_init 3 4 5 0 fresh_desk) [(calm_kernel, make_key 0 kGenListener, kEpollIn)]))"
  using stranger_harmless[OF init_conns[of 3 4 5 0 fresh_desk], of "[(calm_kernel, make_key 0 kGenListener, kEpollIn)]" calm_ops 0 calm_kernel] calm_honest
  by (simp add: daemon_init_def kGenFirstDynamic_def)

text \<open>
  The daemon sleeps, and wakes in time.  With a client the wait is at most a second, with a
  connection that has said nothing it ends at its deadline, with an escape being held it ends when the
  escape is a key; it is of no time at all only when something is due, and with nobody there and
  nothing to come it has no end.
\<close>

theorem wait_bounded:
  assumes "before_wait ops k d = (d1, t)"
  shows "(dm_client d \<noteq> None \<longrightarrow> 0 \<le> t \<and> t \<le> 1000)
    \<and> (dm_pending d \<noteq> None \<longrightarrow> 0 \<le> t \<and> t \<le> max 0 (to_ms (dm_pending_deadline d - kn_now k)))
    \<and> (dm_esc_armed d1 \<longrightarrow> 0 \<le> t \<and> t \<le> max 0 (to_ms (dm_esc_deadline d1 - kn_now k)))
    \<and> (t = 0 \<longrightarrow> dm_client d \<noteq> None \<and> delay_ms (dm_clock (esc_step ops k d)) (kn_now k) = 0
        \<or> dm_pending d \<noteq> None \<and> dm_pending_deadline d - kn_now k < 1000000
        \<or> help_delay_ms (kn_env k) (dm_session (esc_step ops k d)) = 0
        \<or> dm_client d \<noteq> None \<and> fc_dirty (dm_clock d1) \<and> dm_last_refresh d1 = kn_now k
        \<or> dm_esc_armed d1 \<and> dm_esc_deadline d1 - kn_now k < 1000000)
    \<and> (dm_client d = None \<longrightarrow> dm_pending d = None \<longrightarrow> help_delay_ms (kn_env k) (dm_session d) < 0
        \<longrightarrow> sv_delay_ms (en_update (kn_env k)) (se_update (dm_session d)) \<le> 0 \<longrightarrow> t = - 1)"
proof -
  define e where "e = esc_step ops k (d\<lparr>dm_closed := []\<rparr>)"
  define t0 where "t0 = help_timeout k e (pending_timeout k e (render_timeout k e))"
  define u where "u = update_wait k (e, t0)"
  define r where "r = refresh_wait ops k u"
  have d1: "d1 = fst r" "t = esc_timeout k d1 (snd r)"
    using assms by (auto simp: before_wait_def Let_def case_prod_unfold e_def t0_def u_def r_def)
  have es: "dm_clock e = dm_clock (esc_step ops k d)" "dm_session e = dm_session (esc_step ops k d)"
    by (simp_all add: e_def esc_step_def hear_def dirty_frame_def upd_session_def split: option.split)
  have keep: "dm_pending e = dm_pending d" "dm_pending_deadline e = dm_pending_deadline d" "(dm_client e = None) = (dm_client d = None)"
    by (simp_all add: e_def)
  have ur: "u = (fst u, snd u)" "(dm_client (fst u) = None) = (dm_client d = None)" by (simp_all add: u_def keep)
  have last: "shortens t0 t"
    using stages_shorten(4)[of t0 k e] stages_shorten(5)[of "snd u" ops k "fst u"] stages_shorten(3)[of "snd r" k d1] d1
    by (auto simp: u_def[symmetric] r_def intro: shortens_trans)
  have mid: "shortens (pending_timeout k e x) (help_timeout k e (pending_timeout k e x))" for x by (rule stages_shorten)
  have "dm_client d \<noteq> None \<longrightarrow> 0 \<le> render_timeout k e \<and> render_timeout k e \<le> 1000"
    using keep(3) by (auto simp: render_timeout_def)
  then have c: "dm_client d \<noteq> None \<longrightarrow> 0 \<le> t \<and> t \<le> 1000"
    using last mid[of "render_timeout k e"] stages_shorten(1)[of "render_timeout k e" k e] unfolding shortens_def t0_def by linarith
  have q: "dm_pending d \<noteq> None \<longrightarrow> 0 \<le> pending_timeout k e x \<and> pending_timeout k e x \<le> max 0 (to_ms (dm_pending_deadline d - kn_now k))" for x
    using keep by (auto simp: pending_timeout_def simp del: max.bounded_iff)
  have p: "dm_pending d \<noteq> None \<longrightarrow> 0 \<le> t \<and> t \<le> max 0 (to_ms (dm_pending_deadline d - kn_now k))"
    using q[of "render_timeout k e"] last mid[of "render_timeout k e"] unfolding shortens_def t0_def by linarith
  have x: "dm_esc_armed d1 \<longrightarrow> 0 \<le> t \<and> t \<le> max 0 (to_ms (dm_esc_deadline d1 - kn_now k))"
    using d1(2) by (simp add: esc_timeout_def)
  have z: "t = 0 \<Longrightarrow> t0 = 0 \<or> dm_client d \<noteq> None \<and> fc_dirty (dm_clock d1) \<and> dm_last_refresh d1 = kn_now k
      \<or> dm_esc_armed d1 \<and> dm_esc_deadline d1 - kn_now k < 1000000"
    using stages_zero(3)[of k d1 "snd r"] stages_zero(4)[of k e t0] stages_zero(5)[of ops k "fst u" "snd u"] d1 ur
    by (auto simp: r_def u_def[symmetric])
  have z0: "t0 = 0 \<Longrightarrow> dm_client d \<noteq> None \<and> delay_ms (dm_clock (esc_step ops k d)) (kn_now k) = 0
      \<or> dm_pending d \<noteq> None \<and> dm_pending_deadline d - kn_now k < 1000000
      \<or> help_delay_ms (kn_env k) (dm_session (esc_step ops k d)) = 0"
    using stages_zero(2)[of k e "pending_timeout k e (render_timeout k e)"] stages_zero(1)[of k e "render_timeout k e"]
      stages_zero(6)[of k e] keep es by (auto simp: t0_def)
  have idle: "t = - 1" if "dm_client d = None" "dm_pending d = None" "help_delay_ms (kn_env k) (dm_session d) < 0"
    "sv_delay_ms (en_update (kn_env k)) (se_update (dm_session d)) \<le> 0"
    using that d1 by (auto simp: r_def u_def t0_def e_def esc_step_def render_timeout_def pending_timeout_def help_timeout_def
      update_wait_def refresh_wait_def esc_timeout_def upd_session_def Let_def)
  show ?thesis using c p x z z0 idle by blast
qed

theorem wait_bounded_witness:
  "0 \<le> snd (before_wait calm_ops calm_kernel ((daemon_init 3 4 5 0 fresh_desk)\<lparr>dm_pending := Some (conn_new 9 16)\<rparr>))"
  using wait_bounded[of calm_ops calm_kernel "(daemon_init 3 4 5 0 fresh_desk)\<lparr>dm_pending := Some (conn_new 9 16)\<rparr>"] by (auto simp: prod_eq_iff)

end
