(* ===== verification/Spec2Isabelle.thy ===== *)
theory Spec2Isabelle
  imports Proto OutQueue Terminal_Bar Terminal_Render Sgr_Read Session_Paste Files_Draw Daemon_Props
begin

text \<open>
  A verification development for termos (\<open>src/\<close>), a desktop that lives in a terminal: a
  daemon keeps the session, a client attaches to it over a Unix socket and lends it the
  user's terminal, windows hold terminals and small applications.

  \<^bold>\<open>The program and how its parts interact.\<close>  The user's terminal sends bytes to the client,
  which wraps them in messages (\<open>common/proto.cpp\<close>) for the daemon.  The daemon's session
  (\<open>daemon/session.cpp\<close>) reads keys, mouse events and pastes out of them (\<open>input/\<close>), serves the
  shell with them (menu, questions, panel, help: \<open>shell/\<close>) or gives them, through the window
  manager (\<open>wm/\<close>) and the host of each window (\<open>daemon/host.cpp\<close>), to the application that has
  the focus.  The terminal application (\<open>apps/terminal.cpp\<close>) writes to the pseudo-terminal of a
  guest (\<open>pty/\<close>) and reads its output, which the parser (\<open>vt/parser.cpp\<close>) turns into calls on
  the screen (\<open>vt/screen.cpp\<close>); the editor (\<open>apps/editor/\<close>) works on a buffer of lines.
  Applications paint through views of one surface (\<open>render/surface.cpp\<close>); the difference from
  the frame before (\<open>render/diff.cpp\<close>) is queued (\<open>common/outqueue.cpp\<close>) and sent back to the
  client, which copies it to the user's terminal.  The development follows that circle.

  \<^bold>\<open>Theories and sources.\<close>  Each component's record and datatypes are those of the header,
  one definition per method, in the order of the file; a name of HOL is avoided by a prefix or
  suffix (\<open>sb_push\<close>, \<open>view_put\<close>, \<open>term_render\<close>).
  \<^item> \<open>Prelude\<close>: bytes, decimal numbers, C division, generic lemmas on lists and words.
  \<^item> \<open>Utf8\<close>: \<open>common/utf8.cpp\<close>.  \<open>Proto\<close>: \<open>common/proto.cpp\<close> and the read loop of
    \<open>client/client.cpp\<close>.  \<open>OutQueue\<close>: \<open>common/outqueue.cpp\<close>, \<open>common/frameclock.hpp\<close>.
  \<^item> \<open>Cell\<close>, \<open>Width\<close>, \<open>Pairs\<close>: \<open>render/cell.hpp\<close>, \<open>render/width.cpp\<close>, and rows in which a
    character may take two cells, shared by the two grids of the program.
  \<^item> \<open>Wm_Geometry\<close>, \<open>Wm_Manager\<close>, \<open>Wm_Draw\<close>: \<open>wm/\<close> (tiling, layout, decoration metrics, hit
    test; the stack of windows; \<open>draw_decor\<close>).
  \<^item> \<open>Vt_Parser\<close>, \<open>Vt_Attrs\<close>, \<open>Vt_Scrollback\<close>, \<open>Vt_Screen\<close>: \<open>vt/\<close>; \<open>Vt_Screen_Inv\<close>,
    \<open>Vt_Screen_Cells\<close> and \<open>Vt_Screen_Edit\<close> hold the proofs about the screen.
  \<^item> \<open>Input\<close>, \<open>Input_Codec\<close>: \<open>input/\<close> (parser, encoder, leader key).  \<open>Pty\<close>: \<open>pty/pty.cpp\<close>.
  \<^item> \<open>Terminal\<close>: \<open>apps/terminal.cpp\<close>; \<open>Terminal_Tabs\<close> gives the behaviour of one tab alone,
    which \<open>Terminal_Safe\<close> shows the application refines, \<open>Terminal_Bar\<close> is about its bar of
    tabs and the mouse, \<open>Terminal_Paste\<close> about pastes, \<open>Terminal_Render\<close> about its drawing.
  \<^item> \<open>Surface\<close>, \<open>Surface_Inv\<close>: \<open>render/surface.cpp\<close> and what painting through a view may do.
    \<open>Profile\<close>, \<open>Theme\<close>: \<open>render/profile.cpp\<close>, \<open>render/theme.cpp\<close>, \<open>render/gauge.cpp\<close>.
    \<open>Diff\<close>, \<open>Diff_Paint\<close>: \<open>render/diff.cpp\<close> and what a terminal makes of its orders.
    \<open>Sgr_Read\<close>: the pen that is sent, read by the program's own parser.
  \<^item> \<open>Lines\<close>, \<open>Config\<close>: lines and pairs of a text file, \<open>daemon/config.cpp\<close>.  \<open>Update_State\<close>,
    \<open>Update_Service\<close>: \<open>shell/update_state.cpp\<close>, \<open>shell/update_service.cpp\<close>.  \<open>Procstat\<close>,
    \<open>Sysinfo\<close>: \<open>apps/monitor/procstat.cpp\<close>, \<open>shell/sysinfo.cpp\<close>.
  \<^item> \<open>Menu\<close>, \<open>Modal\<close>, \<open>Help\<close>, \<open>Panel\<close>: the widgets of \<open>shell/\<close> (\<open>Help\<close> has the snap assistant,
    \<open>Panel\<close> the clock, \<open>Menu\<close> the catalogue).
  \<^item> \<open>Editor_Buffer\<close>, \<open>Editor\<close>: \<open>apps/editor/\<close>.
  \<^item> \<open>Dir\<close>, \<open>Job\<close>: \<open>apps/files/dir.cpp\<close>, \<open>apps/files/job.cpp\<close>, over a file system that is a
    record of functions (\<open>fs\<close>); \<open>Job_Run\<close> runs a job to its end, with a small file system in
    memory (\<open>mem_fs\<close>) on which its properties are tried.  \<open>Files\<close>, \<open>Files_Input\<close>, \<open>Files_Draw\<close>:
    \<open>apps/files/files.cpp\<close>, the panes, what the user does to them, how they are painted;
    \<open>Files_Inv\<close> is the manager under any sequence of events.
  \<^item> \<open>App\<close>: \<open>app/app.hpp\<close> and \<open>daemon/host.cpp\<close>.  An application is a record of functions
    (\<open>app_ops\<close>) on a state the session is abstract in; what it asks of its host is a list of
    values (\<open>host_req\<close>) that \<open>serve_req\<close> serves; the desk (\<open>desk\<close>) holds the windows, the
    applications, the watched descriptors.  \<open>App_Inv\<close> is its invariant.
  \<^item> \<open>Session\<close>, \<open>Session_Render\<close>: \<open>daemon/session.cpp\<close>, its handlers and its drawing.
    \<open>Session_Inv\<close>, \<open>Session_Run\<close>, \<open>Session_Safe\<close> hold the invariant and what every event keeps;
    \<open>Desktop_Apps\<close> the applications of the program as \<open>app_ops\<close> and what each may paint;
    \<open>Session_Caret\<close> where the caret is; \<open>Session_Props\<close> the properties of the whole;
    \<open>Session_Paste\<close> a paste from the user's terminal to the guest.
  \<^item> \<open>Daemon\<close>: the loop of \<open>daemon/daemon.cpp\<close> with \<open>daemon/reap.cpp\<close> and the accepting of a peer
    (\<open>common/net.cpp\<close>): before the wait, each event, the end of a turn.  \<open>Daemon_Props\<close>: what any
    sequence of turns keeps.

  \<^bold>\<open>What the lemmas show.\<close>
  \<^item> Link: messages cross the queue, any splitting of \<open>send\<close> and any cutting of the reads,
    unaltered and in order; the decoder's memory is bounded and its verdict on forged bytes
    does not depend on the cutting.
  \<^item> Guest side: the parser is bounded and resynchronises; text and control sequences come
    out of it as they went in; the screen keeps its invariant under every operation, the
    alternate screen gives back what it took, wide characters stay whole, the ring is a
    bounded history.
  \<^item> User side: keys survive encoding and parsing; the guest hears the mouse where it was on its own
    grid; a paste reaches it whole, however its bytes are cut, and cannot inject a control
    sequence; the leader key swallows nothing it should not.
  \<^item> Windows: the stack and focus invariant, hit test against what is drawn, tiling as a
    partition of the work area.
  \<^item> Rendering: a view confines what is drawn through it; the window of a terminal shows the
    guest's screen, row by row, where its wide characters are whole; a frame brings any terminal
    in step with the surface, so that the user sees the desktop that was composed.
  \<^item> Editor: every key is an operation on the text as one string, and a save writes what was read.
  \<^item> File manager: a listing does not depend on the order of the kernel; every job ends; a copy
    overwrites and removes nothing; a deletion needs its answer and bears on what was asked; the
    selection stays inside the list.
  \<^item> Shell: what a click reaches is what was drawn there, for the menu, the questions, the
    panel and the bar; the configuration reads back what was written; what is drawn of the update
    file is bounded whatever it holds; one updater at a time.
  \<^item> Session: for every sequence of events, the invariant; a question takes all the input; a
    window with unsaved work closes only by an answer; a closed window hears nothing more; the
    caret stays in the focused window; the display shows the desktop that was painted.
  \<^item> Daemon: whatever clients send, no descriptor is lost, what is kept for a connection is bounded
    and the session is only touched by its own handlers; a connection that has not said who it
    is disturbs nobody; the wait is never without end when something is to come, nor busy.
  \<^item> Defects of the code are theorems too: what is proved is what the code does
    (\<open>overflow_clean_after_partial_send\<close>, \<open>escape_then_close_quits\<close>,
    \<open>report_takes_over_answer\<close>, \<open>vt_excess_param_corrupts\<close>, \<open>insert_chars_wipes_moved\<close>,
    \<open>move_overwrites\<close>, \<open>copy_into_itself\<close>).

  \<^bold>\<open>Interfaces.\<close>  The locales are the contracts between components: a codec of characters
  (interpreted on UTF-8), a framing of messages over a stream (on the protocol), a store of
  flags (on the DEC modes), a bounded history (on the ring of the scrollback), a sink of the
  parser (on a tab of the terminal application), a painter that stays in its view (on the
  applications of the desktop); the properties rest on the facts of the interpretations.

  \<^bold>\<open>Parameters, bounds, termination.\<close>  What the kernel answers is an argument: the results of
  \<open>send\<close> and \<open>read\<close>, the outcome of \<open>spawn\<close> and \<open>waitpid\<close> (\<open>os\<close>), the room left in a
  line discipline (\<open>py_room\<close>), the texts of \<open>/proc\<close>, the clock, the files that are read and the
  outcome of those that are written (\<open>session_env\<close>, \<open>app_world\<close>), what each call of the daemon's
  loop returns (\<open>kernel\<close>, \<open>epoll_result\<close>); so is the switch that makes
  ambiguous characters wide (\<open>amb\<close>), the home directory, the local time and the file system of
  the file manager (\<open>fs\<close>, functions on a world the model is abstract in).  Every loop is a
  terminating recursion, except the two of a copy (\<open>write_all\<close>, \<open>copy_loop\<close>), which go on as
  long as the kernel interrupts a call or a file has something more to be read: these are
  partial functions, \<open>None\<close> for not returning, and \<open>job_ends\<close> shows when they return.  No fuel
  is used.
  Sizes of messages, ports of the protocol, attributes and characters have their width
  (\<open>word\<close>); coordinates are \<open>int\<close>, which the program keeps far below its own bounds.  An
  access out of range, which C++ leaves undefined, only occurs in the model where the source
  guards it.  On the display side, \<open>Diff_Paint\<close> assumes of a terminal only what every terminal
  does: the width of a character beyond ASCII does not tell where its cursor is.

  \<^bold>\<open>Not modelled.\<close>  The child between \<open>fork\<close> and \<open>exec\<close>, the binding of the socket, termios and the
  log of the daemon (\<open>daemon/daemonize.cpp\<close>, \<open>daemon/journal.cpp\<close>, \<open>client/\<close> but for its read
  loop, the rest of \<open>common/net.cpp\<close>): system calls.  Among the windows of the session the file manager is the abstract application of
  \<open>desk_ops\<close>, since it asks for an editor through a request that holds one.
\<close>

text \<open>What a peer decodes from a prefix of a stream of whole messages.\<close>

lemma parses_prefix:
  assumes "wire @ rest = concat (map encode msgs)"
    and "\<forall>m \<in> set msgs. length (snd (body_of m)) \<le> kMaxMessageBytes"
    and "parses frame_of wire msgs' q"
  shows "\<exists>msgs''. msgs = msgs' @ msgs'' \<and> q \<noteq> None"
proof -
  have whole: "parses frame_of (wire @ rest) msgs (Some [])"
    using assms(1,2) by (simp only:) (intro proto.parses_messages, simp_all add: frame_of_encode body_def frame_of_Nil)
  note app = proto.parses_append[OF assms(3), of rest]
  show ?thesis
  proof (cases q)
    case None
    then show ?thesis using app whole proto.parses_unique by fastforce
  next
    case (Some r)
    obtain msgs'' q'' where "parses frame_of (r @ rest) msgs'' q''" using proto.parses_total by blast
    then have "parses frame_of (wire @ rest) (msgs' @ msgs'') q''" using app Some by simp
    then have "msgs = msgs' @ msgs''" using proto.parses_unique[OF _ whole] by blast
    then show ?thesis using Some by simp
  qed
qed

text \<open>
  C1.  The link from daemon to client delivers: as long as no push was rejected, the
  messages the daemon queued reach the client's decoder in order and unaltered,
  however \<open>send\<close> splits its writes and however the client's reads, of at most 1 MiB, cut them; the
  decoder never fails, and once the queue is empty every message has arrived.
\<close>

theorem link_delivers:
  assumes "q_trace q (concat (map encode msgs)) wire"
    and "\<forall>m \<in> set msgs. length (snd (body_of m)) \<le> kMaxMessageBytes"
    and "concat cs = wire" and "\<forall>c \<in> set cs. length c \<le> 1024 * 1024"
  shows "\<exists>msgs' later d. receive decoder_init cs = (msgs', d) \<and> msgs = msgs' @ later
    \<and> \<not> d_failed d \<and> (\<not> wants_write q \<longrightarrow> later = [])"
proof -
  obtain msgs' d where r: "receive decoder_init cs = (msgs', d)" by fastforce
  have w: "wire @ pending q = concat (map encode msgs)" using q_trace_inv[OF assms(1)] by blast
  have p: "parses frame_of wire msgs' (remainder d)"
    using receive_spec[OF r drained_init(1,3) assms(4)] assms(3) by (simp add: drained_init)
  obtain later where l: "msgs = msgs' @ later" "remainder d \<noteq> None"
    using parses_prefix[OF w assms(2) p] by blast
  have "later = []" if "\<not> wants_write q"
  proof -
    have "pending q = []" using that by (simp add: pending_def wants_write_def)
    then have "parses frame_of wire msgs (Some [])"
      using w assms(2) by (simp only: append_Nil2)
        (intro proto.parses_messages, simp_all add: frame_of_encode body_def frame_of_Nil)
    then show ?thesis using proto.parses_unique[OF _ p] l(1) by blast
  qed
  then show ?thesis using r l by (auto simp: remainder_def split: if_splits)
qed

theorem link_delivers_witness:
  "\<exists>msgs' later d. receive decoder_init [[2, 0], [0, 0, 0]] = (msgs', d) \<and> [Welcome] = msgs' @ later
    \<and> \<not> d_failed d"
proof -
  let ?q = "push (outqueue_init 64) [2, 0, 0, 0, 0]"
  have "q_trace ?q ([] @ [2, 0, 0, 0, 0]) []"
    by (rule tr_push[OF tr_init]) (simp add: outqueue_init_def q_size_def)
  then have t: "q_trace ?q [2, 0, 0, 0, 0] []" by simp
  obtain q' b where "flush ?q [Sent 5] = (q', [2, 0, 0, 0, 0], b)"
    by (auto simp: flush_def push_def outqueue_init_def q_size_def wants_write_def)
  from tr_flush[OF t _ this]
  have "q_trace q' (concat (map encode [Welcome])) [2, 0, 0, 0, 0]"
    by (simp add: push_def outqueue_init_def q_size_def encode_def put_u8_def put_u16_def put_u32_def)
  from link_delivers[OF this, of "[[2, 0], [0, 0, 0]]"] show ?thesis
    by (auto simp: kMaxMessageBytes_def)
qed

end
